(* ===== verification/Prelude.thy ===== *)
theory Prelude
  imports Main "HOL-Library.Word" "HOL-Library.Sublist"
begin

text \<open>
  The vocabulary every component of the development shares.

  \<^item> A C++ \<^verbatim>\<open>char\<close> is an 8-bit word (\<open>byte\<close>), a \<^verbatim>\<open>std::string\<close> a list of them. Plain
    \<^verbatim>\<open>char\<close> is signed on the platforms the makefile targets, so a comparison of a
    \<^verbatim>\<open>char\<close> with a character literal is the signed comparison of words; the lemmas in
    \<open>byte_range_simps\<close> turn such ranges into unsigned ones.
  \<^item> \<open>lit\<close> reads an ASCII literal of the source as bytes.
  \<^item> The members of \<^verbatim>\<open>std::string\<close> that the sources call (\<open>find\<close>, \<open>find_first_of\<close>,
    \<open>substr\<close>, \<open>erase\<close>, \<open>insert\<close>) with \<open>None\<close> for \<^verbatim>\<open>std::string::npos\<close>.
  \<^item> Association-list maps for \<^verbatim>\<open>std::map\<close>, kept in key order.
\<close>

unbundle bit_operations_syntax

named_theorems byte_range_simps \<open>signed byte ranges of ASCII literals as unsigned ranges\<close>
named_theorems cpp_string_simps \<open>unfolding of the std::string members\<close>

type_synonym byte = "8 word"
type_synonym cstring = "byte list"
type_synonym u32 = "32 word"
type_synonym u64 = "64 word"

definition lit :: "string \<Rightarrow> cstring" where
  "lit s = map of_char s"

text \<open>A character test \<^verbatim>\<open>lo <= c && c <= hi\<close> on signed chars.\<close>

definition char_between :: "byte \<Rightarrow> byte \<Rightarrow> byte \<Rightarrow> bool" where
  "char_between lo hi c \<longleftrightarrow> lo \<le>s c \<and> c \<le>s hi"

lemma sint_ascii: "\<forall>c :: byte. unat c < 128 \<longrightarrow> sint c = uint c"
  by code_simp

lemma sint_high: "\<forall>c :: byte. \<not> unat c < 128 \<longrightarrow> sint c < 0"
  by code_simp

lemma char_between_ascii [byte_range_simps]:
  assumes "unat lo < 128" and "unat hi < 128"
  shows "char_between lo hi c \<longleftrightarrow> lo \<le> c \<and> c \<le> hi"
proof (cases "unat c < 128")
  case True
  then have "sint c = uint c" "sint lo = uint lo" "sint hi = uint hi"
    using assms sint_ascii by blast+
  then show ?thesis
    by (simp add: char_between_def word_sle_eq word_le_def)
next
  case False
  then have neg: "sint c < 0" and lo: "sint lo = uint lo"
    using assms sint_ascii sint_high by blast+
  have "sint c < sint lo"
    using neg lo uint_ge_0 [of lo] by linarith
  moreover have "\<not> c \<le> hi"
    using False assms by (simp add: word_le_nat_alt)
  ultimately show ?thesis
    by (simp add: char_between_def word_sle_eq)
qed

lemma unat_below_width: "unat (w :: 'a::len word) < 2 ^ LENGTH('a)"
  by (rule unsigned_less)

section \<open>Members of std::string\<close>

fun find_index :: "('a \<Rightarrow> bool) \<Rightarrow> 'a list \<Rightarrow> nat option" where
  "find_index P [] = None"
| "find_index P (x # xs) = (if P x then Some 0 else map_option Suc (find_index P xs))"

lemma find_index_None: "find_index P xs = None \<longleftrightarrow> (\<forall>x \<in> set xs. \<not> P x)"
  by (induction xs) auto

lemma find_index_Some:
  "find_index P xs = Some i \<longleftrightarrow> i < length xs \<and> P (xs ! i) \<and> (\<forall>j < i. \<not> P (xs ! j))"
proof (induction xs arbitrary: i)
  case (Cons x xs)
  then show ?case
    by (cases i) (auto simp: All_less_Suc2)
qed simp

lemma find_index_length: "find_index P xs = Some i \<Longrightarrow> i < length xs"
  by (simp add: find_index_Some)

lemma find_index_append:
  "find_index P (xs @ ys) =
     (case find_index P xs of Some i \<Rightarrow> Some i
      | None \<Rightarrow> map_option ((+) (length xs)) (find_index P ys))"
proof (induction xs)
  case Nil
  then show ?case by (cases "find_index P ys") simp_all
next
  case (Cons x xs)
  then show ?case by (cases "find_index P xs"; cases "find_index P ys") auto
qed

text \<open>\<^verbatim>\<open>s.find_first_of(delim, pos)\<close>; \<open>None\<close> is \<^verbatim>\<open>npos\<close>.\<close>

definition find_first_of :: "cstring \<Rightarrow> cstring \<Rightarrow> nat \<Rightarrow> nat option" where
  "find_first_of s delim pos = map_option ((+) pos) (find_index (\<lambda>c. c \<in> set delim) (drop pos s))"

text \<open>\<^verbatim>\<open>s.find(pat, pos)\<close>.\<close>

fun find_sub :: "'a list \<Rightarrow> 'a list \<Rightarrow> nat option" where
  "find_sub pat [] = (if pat = [] then Some 0 else None)"
| "find_sub pat (x # xs) = (if prefix pat (x # xs) then Some 0 else map_option Suc (find_sub pat xs))"

definition str_find :: "cstring \<Rightarrow> cstring \<Rightarrow> nat \<Rightarrow> nat option" where
  "str_find s pat pos =
     (if pos > length s then None else map_option ((+) pos) (find_sub pat (drop pos s)))"

text \<open>\<^verbatim>\<open>s.substr(pos, n)\<close>, for the calls of the sources, all of which have \<^verbatim>\<open>pos <= s.size()\<close>.\<close>

definition substr :: "'a list \<Rightarrow> nat \<Rightarrow> nat \<Rightarrow> 'a list" where
  "substr s pos n = take n (drop pos s)"

lemma find_sub_Some:
  "find_sub pat s = Some i \<Longrightarrow> i \<le> length s \<and> take (length pat) (drop i s) = pat"
proof (induction s arbitrary: i)
  case Nil
  then show ?case by (simp split: if_splits)
next
  case (Cons x xs)
  then show ?case
    by (auto simp: prefix_def split: if_splits)
qed

lemma find_sub_None: "find_sub pat s = None \<Longrightarrow> \<not> prefix pat (drop i s) \<or> pat = [] \<or> length s < i"
proof (induction s arbitrary: i)
  case (Cons x xs)
  then show ?case
    by (cases i) (auto split: if_splits)
qed (auto split: if_splits)

end
