(* ===== verification/Strings.thy ===== *)
theory Strings
  imports Prelude
begin

text \<open>
  The static members of \<^verbatim>\<open>utils::String\<close> (src/src/utils/strings.h): character classes,
  numeric conversions, hexadecimal coding, trimming, case folding, splitting and the
  decimal-amount helpers the console and the contract interface use.

  Strings are byte lists. A function that edits its argument in place and returns it is a
  function to the new string. \<^verbatim>\<open>atoi\<close>, \<^verbatim>\<open>atoll\<close> and \<^verbatim>\<open>snprintf\<close> with
  \<^verbatim>\<open>%d\<close>, \<^verbatim>\<open>%u\<close> are modelled as the C library defines them on its C locale.
  Not modelled: \<^verbatim>\<open>Format\<close> and \<^verbatim>\<open>AppendFormat\<close> (varargs), the floating-point
  conversions and \<^verbatim>\<open>ToTimestamp\<close> (time zone).
\<close>

section \<open>Character classes\<close>

definition IS_BLANK :: "byte \<Rightarrow> bool" where
  "IS_BLANK c \<longleftrightarrow> c = 32 \<or> c = 9"

definition IS_DIGIT :: "byte \<Rightarrow> bool" where
  "IS_DIGIT c \<longleftrightarrow> char_between 48 57 c"

definition IS_ALPHA :: "byte \<Rightarrow> bool" where
  "IS_ALPHA c \<longleftrightarrow> char_between 97 122 c \<or> char_between 65 90 c"

definition IS_HEX_DIGIT :: "byte \<Rightarrow> bool" where
  "IS_HEX_DIGIT c \<longleftrightarrow> char_between 65 70 c \<or> char_between 97 102 c"

text \<open>\<^verbatim>\<open>isspace\<close> of the C locale: tab, newline, vertical tab, form feed, return, space.\<close>

definition isspace :: "byte \<Rightarrow> bool" where
  "isspace c \<longleftrightarrow> c = 32 \<or> (9 \<le> c \<and> c \<le> 13)"

definition IsSpace :: "byte \<Rightarrow> bool" where
  "IsSpace nValue \<longleftrightarrow> 0 <s nValue \<and> isspace nValue"

definition CharIsLetter :: "byte \<Rightarrow> bool" where
  "CharIsLetter c = (if char_between 65 90 c \<or> char_between 97 122 c then True else False)"

lemmas char_class_defs = IS_BLANK_def IS_DIGIT_def IS_ALPHA_def IS_HEX_DIGIT_def isspace_def
  IsSpace_def CharIsLetter_def

section \<open>Numbers\<close>

text \<open>The characters up to the terminating NUL of \<^verbatim>\<open>c_str()\<close>, and a read through the pointer.\<close>

definition c_str :: "cstring \<Rightarrow> cstring" where
  "c_str s = takeWhile (\<lambda>c. c \<noteq> 0) s"

fun deref :: "cstring \<Rightarrow> byte" where
  "deref [] = 0"
| "deref (c # _) = c"

definition skip_sign :: "cstring \<Rightarrow> cstring" where
  "skip_sign p = (if deref p = 45 \<or> deref p = 43 then tl p else p)"

definition IsNumber :: "cstring \<Rightarrow> nat" where
  "IsNumber str =
     (if length str = 0 then 0 else
      let p = skip_sign (dropWhile IS_BLANK (c_str str)) in
      if IS_DIGIT (deref p) \<or> deref p = 46 then
        let (hex, q) =
          (if deref p \<noteq> 46 then
             let h = (deref p = 48 \<and> deref (tl p) \<noteq> 0 \<and> (deref (tl p) = 120 \<or> deref (tl p) = 88));
                 p1 = (if h then drop 2 p else p);
                 p2 = dropWhile (\<lambda>c. c = 48) p1
             in (h, dropWhile (\<lambda>c. IS_DIGIT c \<or> (h \<and> IS_HEX_DIGIT c)) p2)
           else (False, p));
          dot = (\<not> hex \<and> deref q \<noteq> 0 \<and> deref q = 46);
          r = (if dot then dropWhile IS_DIGIT (tl q) else q)
        in if deref r = 0 then (if dot then 3 else if hex then 2 else 1) else 0
      else 0)"

text \<open>
  The accumulation loop of \<^verbatim>\<open>Stoui\<close> and \<^verbatim>\<open>Stoui64\<close>: the value wraps at the width of the
  accumulator; leading blanks are skipped; the first character that is neither ends the loop.
\<close>

fun stou_loop :: "cstring \<Rightarrow> nat \<Rightarrow> 'a::len word \<Rightarrow> 'a word" where
  "stou_loop [] used_digits value = value"
| "stou_loop (c # cs) used_digits value =
     (if char_between 48 57 c then stou_loop cs (Suc used_digits) (value * 10 + ucast (c - 48))
      else if \<not> IsSpace c \<or> used_digits > 0 then value
      else stou_loop cs used_digits value)"

definition Stoui :: "cstring \<Rightarrow> u32" where
  "Stoui str = (if length str = 0 then 0 else stou_loop str 0 0)"

definition Stoui64 :: "cstring \<Rightarrow> u64" where
  "Stoui64 str = (if length str = 0 then 0 else stou_loop str 0 0)"

text \<open>
  \<^verbatim>\<open>strtoll(s, NULL, 10)\<close> of the C library: blanks, an optional sign, digits, saturating at
  the limits of 64 bits. \<^verbatim>\<open>atoll\<close> is its value, \<^verbatim>\<open>atoi\<close> its value converted to
  \<^verbatim>\<open>int\<close>.
\<close>

fun digits_value :: "cstring \<Rightarrow> nat \<Rightarrow> nat" where
  "digits_value [] v = v"
| "digits_value (c # cs) v = (if IS_DIGIT c then digits_value cs (v * 10 + unat (c - 48)) else v)"

definition strtoll :: "cstring \<Rightarrow> int" where
  "strtoll s =
     (let p = dropWhile isspace (c_str s);
          v = int (digits_value (skip_sign p) 0)
      in max (- (2 ^ 63)) (min (2 ^ 63 - 1) (if deref p = 45 then - v else v)))"

definition Stoi :: "cstring \<Rightarrow> u32" where
  "Stoi str = (if length str = 0 then 0 else word_of_int (strtoll str))"

definition Stoi64 :: "cstring \<Rightarrow> u64" where
  "Stoi64 str = (if length str = 0 then 0 else word_of_int (strtoll str))"

definition Stob :: "cstring \<Rightarrow> bool" where
  "Stob str = (if length str = 0 \<or> str = lit ''0'' \<or> str = lit ''false'' \<or> str = lit ''FALSE''
               then False else True)"

text \<open>Decimal printing, \<^verbatim>\<open>snprintf\<close> with \<^verbatim>\<open>%u\<close> and \<^verbatim>\<open>%d\<close>.\<close>

fun dec_digits :: "nat \<Rightarrow> cstring" where
  "dec_digits n = (if n < 10 then [48 + of_nat n] else dec_digits (n div 10) @ [48 + of_nat (n mod 10)])"

declare dec_digits.simps [simp del]

definition dec_int :: "int \<Rightarrow> cstring" where
  "dec_int i = (if i < 0 then 45 # dec_digits (nat (- i)) else dec_digits (nat i))"

definition ToString_int :: "u32 \<Rightarrow> cstring" where
  "ToString_int val = dec_int (sint val)"

definition ToString_uint :: "u32 \<Rightarrow> cstring" where
  "ToString_uint val = dec_digits (unat val)"

definition ToString_int64 :: "u64 \<Rightarrow> cstring" where
  "ToString_int64 val = dec_int (sint val)"

definition ToString_uint64 :: "u64 \<Rightarrow> cstring" where
  "ToString_uint64 val = dec_digits (unat val)"

definition ToString_bool :: "bool \<Rightarrow> cstring" where
  "ToString_bool val = (if val then lit ''1'' else lit ''0'')"

text \<open>The checked conversions: \<open>None\<close> is the result \<^verbatim>\<open>false\<close>.\<close>

definition SafeStoi :: "cstring \<Rightarrow> u32 option" where
  "SafeStoi str =
     (if length str > 11 then None
      else let temNum = Stoi str in if str = ToString_int temNum then Some temNum else None)"

definition SafeStoui :: "cstring \<Rightarrow> u32 option" where
  "SafeStoui str =
     (if length str > 10 then None
      else let temNum = Stoui str in if str = ToString_uint temNum then Some temNum else None)"

definition SafeStoi64 :: "cstring \<Rightarrow> u64 option" where
  "SafeStoi64 str =
     (if length str > 20 then None
      else let temNum = Stoi64 str in if str = ToString_int64 temNum then Some temNum else None)"

definition SafeStoui64 :: "cstring \<Rightarrow> u64 option" where
  "SafeStoui64 str =
     (if length str > 20 then None
      else let temNum = Stoui64 str in if str = ToString_uint64 temNum then Some temNum else None)"

subsection \<open>Printing and reading back\<close>

lemma char_between_digit: "n < 10 \<Longrightarrow> char_between 48 57 (48 + of_nat n)"
proof -
  assume "n < 10"
  then have "n \<in> {0, 1, 2, 3, 4, 5, 6, 7, 8, 9}" by auto
  then show ?thesis by (auto simp: byte_range_simps)
qed

lemma IS_DIGIT_digit: "n < 10 \<Longrightarrow> IS_DIGIT (48 + of_nat n)"
  by (simp add: IS_DIGIT_def char_between_digit)

lemma dec_digits_nonempty [simp]: "dec_digits n \<noteq> []"
  by (subst dec_digits.simps) simp

lemma dec_digits_all_digits: "\<forall>c \<in> set (dec_digits n). IS_DIGIT c"
proof (induction n rule: dec_digits.induct)
  case (1 n)
  show ?case
  proof (cases "n < 10")
    case True
    then show ?thesis by (subst dec_digits.simps) (simp add: IS_DIGIT_digit)
  next
    case False
    with "1.IH" show ?thesis by (subst dec_digits.simps) (auto simp: IS_DIGIT_digit)
  qed
qed

lemma length_dec_digits: "0 < k \<Longrightarrow> n < 10 ^ k \<Longrightarrow> length (dec_digits n) \<le> k"
proof (induction n arbitrary: k rule: dec_digits.induct)
  case (1 n)
  show ?case
  proof (cases "n < 10")
    case True
    then show ?thesis using "1.prems" by (subst dec_digits.simps) simp
  next
    case False
    then have "k \<noteq> 1" using "1.prems" by auto
    then obtain k' where k: "k = Suc k'" and k': "0 < k'"
      using "1.prems" by (cases k) auto
    then have "n div 10 < 10 ^ k'"
      using "1.prems" by (simp add: div_less_iff_less_mult)
    then have "length (dec_digits (n div 10)) \<le> k'"
      using "1.IH" False k' by simp
    then show ?thesis using False k by (subst dec_digits.simps) simp
  qed
qed

lemma stou_loop_append_digits:
  "\<forall>c \<in> set xs. IS_DIGIT c \<Longrightarrow>
   stou_loop (xs @ ys) u v = stou_loop ys (u + length xs) (stou_loop xs u v)"
  by (induction xs arbitrary: u v) (auto simp: IS_DIGIT_def)

lemma stou_loop_digit: "n < 10 \<Longrightarrow> stou_loop [48 + of_nat n] u v = v * 10 + of_nat n"
proof -
  assume n: "n < 10"
  then have "ucast (48 + of_nat n - 48 :: byte) = (of_nat n :: 'a word)"
    by (simp add: unsigned_of_nat take_bit_nat_eq_self)
  then show ?thesis using n by (simp add: char_between_digit)
qed

lemma stou_loop_dec_digits: "stou_loop (dec_digits n) 0 0 = of_nat n"
proof (induction n rule: dec_digits.induct)
  case (1 n)
  show ?case
  proof (cases "n < 10")
    case True
    then show ?thesis
      by (subst dec_digits.simps) (simp add: stou_loop_digit del: stou_loop.simps)
  next
    case False
    have "stou_loop (dec_digits (n div 10) @ [48 + of_nat (n mod 10)]) 0 0
        = of_nat (n div 10) * 10 + (of_nat (n mod 10) :: 'a word)"
      using "1.IH" False
      by (subst stou_loop_append_digits) (auto simp: dec_digits_all_digits stou_loop_digit simp del: stou_loop.simps)
    also have "\<dots> = of_nat (n div 10 * 10 + n mod 10)"
      by (simp only: of_nat_add of_nat_mult of_nat_numeral)
    finally show ?thesis using False by (subst dec_digits.simps) simp
  qed
qed


lemma digits_value_append:
  "\<forall>c \<in> set xs. IS_DIGIT c \<Longrightarrow> digits_value (xs @ ys) v = digits_value ys (digits_value xs v)"
  by (induction xs arbitrary: v) auto

lemma digits_value_digit: "n < 10 \<Longrightarrow> digits_value [48 + of_nat n] v = v * 10 + n"
  by (simp add: IS_DIGIT_digit unat_of_nat)

lemma digits_value_dec_digits [simp]: "digits_value (dec_digits n) 0 = n"
proof (induction n rule: dec_digits.induct)
  case (1 n)
  then show ?case
    by (subst dec_digits.simps)
      (simp add: digits_value_append dec_digits_all_digits digits_value_digit del: digits_value.simps)
qed

lemma digit_not_special:
  "\<forall>c. IS_DIGIT c \<longrightarrow> c \<noteq> 0 \<and> c \<noteq> 45 \<and> c \<noteq> 43 \<and> c \<noteq> 46 \<and> \<not> isspace c \<and> \<not> IsSpace c"
  by code_simp

lemma dec_digits_Cons: obtains c cs where "dec_digits n = c # cs" and "IS_DIGIT c"
  using dec_digits_all_digits [of n] by (cases "dec_digits n") auto

lemma c_str_id: "0 \<notin> set s \<Longrightarrow> c_str s = s"
  by (auto simp: c_str_def takeWhile_eq_all_conv)

lemma strtoll_dec_int: "strtoll (dec_int i) = max (- (2 ^ 63)) (min (2 ^ 63 - 1) i)"
proof -
  obtain c cs where d: "dec_digits (nat \<bar>i\<bar>) = c # cs" and c: "IS_DIGIT c"
    by (rule dec_digits_Cons)
  have "0 \<notin> set (dec_digits (nat \<bar>i\<bar>))"
    using dec_digits_all_digits digit_not_special by blast
  then have nul: "c_str (dec_int i) = dec_int i"
    by (auto intro!: c_str_id simp: dec_int_def)
  have head: "\<not> isspace c" "c \<noteq> 45" "c \<noteq> 43"
    using c digit_not_special by blast+
  have v: "digits_value (c # cs) 0 = nat \<bar>i\<bar>"
    using d digits_value_dec_digits by metis
  show ?thesis
  proof (cases "i < 0")
    case True
    then have "dec_int i = 45 # c # cs" using d by (simp add: dec_int_def)
    then show ?thesis using nul v True
      by (simp add: strtoll_def skip_sign_def isspace_def del: digits_value.simps)
  next
    case False
    then have "dec_int i = c # cs" using d by (simp add: dec_int_def)
    then show ?thesis using nul v False head
      by (simp add: strtoll_def skip_sign_def del: digits_value.simps)
  qed
qed

lemma dec_int_nonempty [simp]: "dec_int i \<noteq> []"
  by (simp add: dec_int_def)

lemma length_dec_int:
  "0 < k \<Longrightarrow> \<bar>i\<bar> < 10 ^ k \<Longrightarrow> length (dec_int i) \<le> Suc k"
proof -
  assume k: "0 < k" and i: "\<bar>i\<bar> < 10 ^ k"
  then have "nat \<bar>i\<bar> < 10 ^ k"
    by (simp add: nat_less_iff)
  then have "length (dec_digits (nat \<bar>i\<bar>)) \<le> k"
    using k by (rule length_dec_digits [rotated])
  then show ?thesis by (auto simp: dec_int_def)
qed

text \<open>
  The checked conversion to an unsigned 32-bit number accepts exactly the canonical
  decimal spellings of such numbers and returns the number spelled, so a value that wrapped
  around in the accumulator, a sign, a leading zero or trailing characters are all rejected.
\<close>

theorem SafeStoui_exact: "SafeStoui s = Some n \<longleftrightarrow> s = ToString_uint n"
proof
  assume "SafeStoui s = Some n"
  then show "s = ToString_uint n"
    by (auto simp: SafeStoui_def Let_def split: if_splits)
next
  assume s: "s = ToString_uint n"
  have "unat n < 10 ^ 10"
    using unat_below_width [of n] by simp
  then have "length s \<le> 10"
    using s length_dec_digits [of 10] by (simp add: ToString_uint_def)
  moreover have "Stoui s = n"
    using s by (simp add: Stoui_def ToString_uint_def stou_loop_dec_digits)
  ultimately show "SafeStoui s = Some n"
    using s by (simp add: SafeStoui_def Let_def)
qed

text \<open>
  Claim C38. The same for the signed 64-bit conversion, which goes through the saturating
  \<^verbatim>\<open>atoll\<close>: exactly the canonical spellings of 64-bit two's complement numbers are accepted.
\<close>

theorem SafeStoi64_exact: "SafeStoi64 s = Some n \<longleftrightarrow> s = ToString_int64 n"
proof
  assume "SafeStoi64 s = Some n"
  then show "s = ToString_int64 n"
    by (auto simp: SafeStoi64_def Let_def split: if_splits)
next
  assume s: "s = ToString_int64 n"
  have r: "- (2 ^ 63) \<le> sint n" "sint n < 2 ^ 63"
    using sint_range_size [of n] by (simp_all add: word_size)
  then have "length s \<le> 20"
    using s length_dec_int [of 19 "sint n"] by (simp add: ToString_int64_def abs_less_iff)
  moreover have "strtoll s = sint n"
    using s r by (simp add: ToString_int64_def strtoll_dec_int)
  then have "Stoi64 s = n"
    using s by (simp add: Stoi64_def ToString_int64_def)
  ultimately show "SafeStoi64 s = Some n"
    using s by (simp add: SafeStoi64_def Let_def)
qed

lemma SafeStoui64_exact: "SafeStoui64 s = Some n \<longleftrightarrow> s = ToString_uint64 n"
proof
  assume "SafeStoui64 s = Some n"
  then show "s = ToString_uint64 n"
    by (auto simp: SafeStoui64_def Let_def split: if_splits)
next
  assume s: "s = ToString_uint64 n"
  have "unat n < 10 ^ 20"
    using unat_below_width [of n] by simp
  then have "length s \<le> 20"
    using s length_dec_digits [of 20] by (simp add: ToString_uint64_def)
  moreover have "Stoui64 s = n"
    using s by (simp add: Stoui64_def ToString_uint64_def stou_loop_dec_digits)
  ultimately show "SafeStoui64 s = Some n"
    using s by (simp add: SafeStoui64_def Let_def)
qed

lemma SafeStoi_exact: "SafeStoi s = Some n \<longleftrightarrow> s = ToString_int n"
proof
  assume "SafeStoi s = Some n"
  then show "s = ToString_int n"
    by (auto simp: SafeStoi_def Let_def split: if_splits)
next
  assume s: "s = ToString_int n"
  have r: "- (2 ^ 31) \<le> sint n" "sint n < 2 ^ 31"
    using sint_range_size [of n] by (simp_all add: word_size)
  then have "length s \<le> 11"
    using s length_dec_int [of 10 "sint n"] by (simp add: ToString_int_def abs_less_iff)
  moreover have "strtoll s = sint n"
    using s r by (simp add: ToString_int_def strtoll_dec_int)
  then have "Stoi s = n"
    using s by (simp add: Stoi_def ToString_int_def)
  ultimately show "SafeStoi s = Some n"
    using s by (simp add: SafeStoi_def Let_def)
qed

end
