(* ===== verification/Hex.thy ===== *)
theory Hex
  imports Strings
begin

text \<open>
  The second group of \<^verbatim>\<open>utils::String\<close> (src/src/utils/strings.h): hexadecimal coding of
  binary strings, case folding, character-content tests, the exclusive-or of strings and
  the comparison by exclusive-or distance. Binary keys, hashes and serialized messages
  pass through the hexadecimal functions on their way to JSON and back.
\<close>

section \<open>Hexadecimal coding\<close>

definition hex_digit :: "byte \<Rightarrow> byte" where
  "hex_digit v = (if 0 \<le> v \<and> v \<le> 9 then v + 48 else v - 10 + 97)"

fun BinToHexString :: "cstring \<Rightarrow> cstring" where
  "BinToHexString [] = []"
| "BinToHexString (item # value) =
     hex_digit (drop_bit 4 item) # hex_digit (item AND 0x0F) # BinToHexString value"

text \<open>One nibble of \<^verbatim>\<open>HexStringToBin\<close>; \<open>None\<close> is the early \<^verbatim>\<open>return ""\<close>.\<close>

definition hex_value :: "bool \<Rightarrow> byte \<Rightarrow> byte option" where
  "hex_value force_little c =
     (if char_between 48 57 c then Some (c - 48)
      else if char_between 97 102 c then Some (c - 97 + 10)
      else if char_between 65 70 c \<and> \<not> force_little then Some (c - 65 + 10)
      else None)"

fun hex_pairs :: "bool \<Rightarrow> cstring \<Rightarrow> cstring option" where
  "hex_pairs fl (h # l # rest) =
     (case hex_value fl h of None \<Rightarrow> None
      | Some high \<Rightarrow> (case hex_value fl l of None \<Rightarrow> None
        | Some low \<Rightarrow> map_option ((#) (push_bit 4 high + low)) (hex_pairs fl rest)))"
| "hex_pairs fl _ = Some []"

definition HexStringToBin :: "cstring \<Rightarrow> bool \<Rightarrow> cstring" where
  "HexStringToBin hex_string force_little =
     (if length hex_string mod 2 \<noteq> 0 \<or> hex_string = [] then []
      else case hex_pairs force_little hex_string of None \<Rightarrow> [] | Some result \<Rightarrow> result)"

definition IsHexString :: "cstring \<Rightarrow> bool" where
  "IsHexString hex_string \<longleftrightarrow>
     length hex_string mod 2 = 0 \<and>
     (\<forall>c \<in> set hex_string. char_between 48 57 c \<or> char_between 97 102 c \<or> char_between 65 70 c)"

text \<open>The checked overload: \<open>None\<close> is \<^verbatim>\<open>false\<close>, otherwise the output parameter.\<close>

definition HexStringToBin_checked :: "cstring \<Rightarrow> cstring option" where
  "HexStringToBin_checked hex_string =
     (if \<not> IsHexString hex_string then None else Some (HexStringToBin hex_string False))"

text \<open>\<^verbatim>\<open>%02x\<close> of one byte and the loop of \<^verbatim>\<open>Bin4ToHexString\<close> over at most four bytes.\<close>

definition printf_02x :: "byte \<Rightarrow> cstring" where
  "printf_02x b = [hex_digit (of_nat (unat b div 16)), hex_digit (of_nat (unat b mod 16))]"

definition Bin4ToHexString :: "cstring \<Rightarrow> cstring" where
  "Bin4ToHexString value = foldl (\<lambda>result b. result @ printf_02x b) [] (take 4 value)"

section \<open>Case and content\<close>

definition ToLower :: "cstring \<Rightarrow> cstring" where
  "ToLower str = map (\<lambda>c. if char_between 65 90 c then c + 0x20 else c) str"

definition ToUpper :: "cstring \<Rightarrow> cstring" where
  "ToUpper str = map (\<lambda>c. if char_between 97 122 c then c - 0x20 else c) str"

definition CanDisplay :: "cstring \<Rightarrow> bool" where
  "CanDisplay str \<longleftrightarrow> (\<forall>c \<in> set str. char_between 0x20 127 c)"

definition IsContainUppercase :: "cstring \<Rightarrow> bool" where
  "IsContainUppercase str \<longleftrightarrow> (\<exists>c \<in> set str. char_between 65 90 c)"

definition IsContainLowercase :: "cstring \<Rightarrow> bool" where
  "IsContainLowercase str \<longleftrightarrow> (\<exists>c \<in> set str. char_between 97 122 c)"

definition IsInteger :: "cstring \<Rightarrow> bool" where
  "IsInteger str \<longleftrightarrow> (\<forall>c \<in> set str. \<not> (57 <s c \<or> c <s 48))"

fun equals_ignore_case_loop :: "cstring \<Rightarrow> cstring \<Rightarrow> bool" where
  "equals_ignore_case_loop (a # s1) (b # s2) =
     (if a = b then equals_ignore_case_loop s1 s2
      else if \<not> CharIsLetter a \<or> \<not> CharIsLetter b then False
      else if 0x20 \<noteq> \<bar>sint a - sint b\<bar> then False
      else equals_ignore_case_loop s1 s2)"
| "equals_ignore_case_loop _ _ = True"

definition EqualsIgnoreCase :: "cstring \<Rightarrow> cstring \<Rightarrow> bool" where
  "EqualsIgnoreCase s1 s2 =
     (if length s1 \<noteq> length s2 then False else equals_ignore_case_loop s1 s2)"

text \<open>
  The function folds copies of both arguments to upper case and then searches in the
  originals, so the two copies are dead.
\<close>

definition IsContainStringIgnoreCase :: "cstring \<Rightarrow> cstring \<Rightarrow> bool" where
  "IsContainStringIgnoreCase str1 str2 =
     (let s1 = ToUpper str1; s2 = ToUpper str2 in str_find str1 str2 0 \<noteq> None)"

definition Swap :: "cstring \<Rightarrow> cstring \<Rightarrow> cstring \<times> cstring" where
  "Swap ls rs = (let temp = ls; ls' = rs; rs' = temp in (ls', rs'))"

section \<open>Exclusive or\<close>

definition xor_string :: "cstring \<Rightarrow> cstring \<Rightarrow> cstring" where
  "xor_string ls rs =
     (if length ls \<noteq> length rs then ls else map2 (\<lambda>a b. a XOR b) ls rs)"

text \<open>\<^verbatim>\<open>operator<\<close> of \<^verbatim>\<open>std::string\<close>: lexicographic on unsigned characters.\<close>

fun str_less :: "cstring \<Rightarrow> cstring \<Rightarrow> bool" where
  "str_less _ [] = False"
| "str_less [] (_ # _) = True"
| "str_less (a # s) (b # t) = (a < b \<or> (a = b \<and> str_less s t))"

definition LessThanXored :: "cstring \<Rightarrow> cstring \<Rightarrow> cstring \<Rightarrow> bool" where
  "LessThanXored l r x =
     (if length l \<noteq> length r \<or> length r \<noteq> length x then False
      else str_less (map2 (\<lambda>a b. a XOR b) x l) (map2 (\<lambda>a b. a XOR b) x r))"

section \<open>Round trips\<close>

lemma nibble_cases: "(h :: byte) < 16 \<Longrightarrow> h \<in> set (map of_nat [0..<16])"
proof -
  assume "h < 16"
  then have "unat h < 16" by (simp add: word_less_nat_alt)
  then show ?thesis by (auto intro!: image_eqI [of _ _ "unat h"])
qed

lemma nibble_bounds: "\<forall>b :: byte. drop_bit 4 b < 16 \<and> b AND 0x0F < 16"
  by code_simp

lemma hex_value_hex_digit_all:
  "list_all (\<lambda>v :: byte. hex_value True (hex_digit v) = Some v \<and> hex_value False (hex_digit v) = Some v)
     (map of_nat [0..<16])"
  by code_simp

lemma hex_value_hex_digit: "v < 16 \<Longrightarrow> hex_value fl (hex_digit v) = Some v"
  using hex_value_hex_digit_all nibble_cases [of v] unfolding list_all_iff by (cases fl) auto

lemma join_nibbles: "\<forall>b :: byte. push_bit 4 (drop_bit 4 b) + (b AND 0x0F) = b"
  by code_simp

lemma hex_pairs_BinToHexString: "hex_pairs fl (BinToHexString bs) = Some bs"
  by (induction bs)
    (simp_all add: hex_value_hex_digit nibble_bounds join_nibbles)

lemma length_BinToHexString [simp]: "length (BinToHexString bs) = 2 * length bs"
  by (induction bs) auto

lemma BinToHexString_eq_Nil [simp]: "BinToHexString bs = [] \<longleftrightarrow> bs = []"
  by (cases bs) auto

text \<open>
  Claim C39. Decoding the hexadecimal form of a binary string gives the string back, with
  either setting of the lower-case flag, and the checked overload accepts it.
\<close>

theorem HexStringToBin_BinToHexString:
  "HexStringToBin (BinToHexString bs) fl = bs"
  by (simp add: HexStringToBin_def hex_pairs_BinToHexString)

lemma hex_value_fold_case:
  "\<forall>c. hex_value False c = None \<or>
       (let v = the (hex_value False c) in v < 16 \<and> hex_digit v = (if char_between 65 90 c then c + 0x20 else c))"
  by code_simp

lemma split_nibbles_all:
  "list_all (\<lambda>h :: byte. list_all (\<lambda>l. drop_bit 4 (push_bit 4 h + l) = h \<and> (push_bit 4 h + l) AND 0x0F = l)
     (map of_nat [0..<16])) (map of_nat [0..<16])"
  by code_simp

lemma split_nibbles:
  "(h :: byte) < 16 \<Longrightarrow> l < 16 \<Longrightarrow>
   drop_bit 4 (push_bit 4 h + l) = h \<and> (push_bit 4 h + l) AND 0x0F = l"
  using split_nibbles_all nibble_cases [of h] nibble_cases [of l] unfolding list_all_iff by blast

lemma hex_value_False_defined:
  "\<forall>c. (char_between 48 57 c \<or> char_between 97 102 c \<or> char_between 65 70 c) \<longleftrightarrow> hex_value False c \<noteq> None"
  by (simp add: hex_value_def)

lemma hex_value_SomeD:
  assumes "hex_value False c = Some v"
  shows "v < 16" and "hex_digit v = (if char_between 65 90 c then c + 0x20 else c)"
  using assms hex_value_fold_case [rule_format, of c] by (auto simp: Let_def)

lemma hex_pairs_fold_case:
  "length s mod 2 = 0 \<Longrightarrow> \<forall>c \<in> set s. hex_value False c \<noteq> None \<Longrightarrow>
   \<exists>r. hex_pairs False s = Some r \<and> BinToHexString r = ToLower s"
proof (induction "False" s rule: hex_pairs.induct)
  case (1 h l rest)
  obtain vh vl where v: "hex_value False h = Some vh" "hex_value False l = Some vl"
    using "1.prems" by auto
  have "length rest mod 2 = 0" "\<forall>c \<in> set rest. hex_value False c \<noteq> None"
    using "1.prems" by simp_all
  then obtain r where r: "hex_pairs False rest = Some r" "BinToHexString r = ToLower rest"
    using "1.hyps" [OF v] by auto
  note bounds = hex_value_SomeD [OF v(1)] hex_value_SomeD [OF v(2)]
  have "BinToHexString ((push_bit 4 vh + vl) # r) = hex_digit vh # hex_digit vl # ToLower rest"
    using split_nibbles [OF bounds(1) bounds(3)] r by simp
  then show ?case
    using v r bounds(2,4) by (simp add: ToLower_def)
qed (auto simp: ToLower_def)

text \<open>
  On every string the validity test accepts, decoding and encoding again gives the
  lower-case form of the string: no nibble is lost or altered.
\<close>

theorem BinToHexString_HexStringToBin:
  assumes "IsHexString s"
  shows "BinToHexString (HexStringToBin s False) = ToLower s"
proof (cases "s = []")
  case True
  then show ?thesis by (simp add: HexStringToBin_def ToLower_def)
next
  case False
  have "length s mod 2 = 0" and "\<forall>c \<in> set s. hex_value False c \<noteq> None"
    using assms hex_value_False_defined by (auto simp: IsHexString_def)
  then obtain r where "hex_pairs False s = Some r" "BinToHexString r = ToLower s"
    using hex_pairs_fold_case [of s] by auto
  then show ?thesis
    using False \<open>length s mod 2 = 0\<close> by (simp add: HexStringToBin_def)
qed

theorem BinToHexString_HexStringToBin_witness:
  "IsHexString (lit ''0aFf'') \<and> BinToHexString (HexStringToBin (lit ''0aFf'') False) = lit ''0aff''"
proof -
  have h: "IsHexString (lit ''0aFf'')" by code_simp
  have "ToLower (lit ''0aFf'') = lit ''0aff''" by code_simp
  then show ?thesis using h BinToHexString_HexStringToBin [OF h] by simp
qed

lemma nibbles_div_mod:
  "\<forall>b :: byte. of_nat (unat b div 16) = drop_bit 4 b \<and> of_nat (unat b mod 16) = b AND 0x0F"
  by code_simp

lemma printf_02x_nibbles: "printf_02x b = [hex_digit (drop_bit 4 b), hex_digit (b AND 0x0F)]"
  by (simp add: printf_02x_def nibbles_div_mod)

lemma Bin4ToHexString_prefix: "Bin4ToHexString bs = BinToHexString (take 4 bs)"
proof -
  have "foldl (\<lambda>result b. result @ printf_02x b) acc xs = acc @ BinToHexString xs" for acc xs
    by (induction xs arbitrary: acc) (simp_all add: printf_02x_nibbles)
  then show ?thesis by (simp add: Bin4ToHexString_def)
qed

section \<open>Case-insensitive comparison\<close>

lemma uint_fold_case:
  "\<forall>c :: byte. uint (if char_between 65 90 c then c + 0x20 else c) =
     (if 65 \<le> uint c \<and> uint c \<le> 90 then uint c + 32 else uint c)"
  by code_simp

lemma CharIsLetter_uint:
  "\<forall>c. CharIsLetter c \<longleftrightarrow> (65 \<le> uint c \<and> uint c \<le> 90) \<or> (97 \<le> uint c \<and> uint c \<le> 122)"
  by code_simp

lemma sint_letter: "\<forall>c. CharIsLetter c \<longrightarrow> sint c = uint c"
  by code_simp

lemma fold_case_eq_iff:
  "(if char_between 65 90 a then a + 0x20 else a) = (if char_between 65 90 b then b + 0x20 else b) \<longleftrightarrow>
   a = b \<or> CharIsLetter a \<and> CharIsLetter b \<and> 0x20 = \<bar>sint a - sint b\<bar>" (is "?L = ?R")
proof -
  have "?L \<longleftrightarrow> (if 65 \<le> uint a \<and> uint a \<le> 90 then uint a + 32 else uint a) =
      (if 65 \<le> uint b \<and> uint b \<le> 90 then uint b + 32 else uint b)"
    by (simp only: word_uint_eq_iff uint_fold_case [rule_format])
  also have "\<dots> \<longleftrightarrow> uint a = uint b \<or> CharIsLetter a \<and> CharIsLetter b \<and> 0x20 = \<bar>uint a - uint b\<bar>"
    by (auto simp: CharIsLetter_uint)
  also have "\<dots> \<longleftrightarrow> ?R"
    using sint_letter by (auto simp: word_uint_eq_iff)
  finally show ?thesis .
qed

lemma equals_ignore_case_loop_iff:
  "length s1 = length s2 \<Longrightarrow> equals_ignore_case_loop s1 s2 \<longleftrightarrow> ToLower s1 = ToLower s2"
proof (induction s1 s2 rule: equals_ignore_case_loop.induct)
  case (1 a s1 b s2)
  have step: "ToLower (a # s1) = ToLower (b # s2) \<longleftrightarrow>
      (a = b \<or> CharIsLetter a \<and> CharIsLetter b \<and> 0x20 = \<bar>sint a - sint b\<bar>) \<and> ToLower s1 = ToLower s2"
    using fold_case_eq_iff [of a b] by (simp add: ToLower_def)
  show ?case
    unfolding step using 1 by auto
qed (auto simp: ToLower_def)

text \<open>
  The comparison that ignores case holds exactly for strings with the same
  lower-case form; the letter test keeps pairs such as \<^verbatim>\<open>@\<close> and \<^verbatim>\<open>`\<close>, whose codes also
  differ by 0x20, apart.
\<close>

theorem EqualsIgnoreCase_iff: "EqualsIgnoreCase s1 s2 \<longleftrightarrow> ToLower s1 = ToLower s2"
proof (cases "length s1 = length s2")
  case True
  then show ?thesis
    by (simp add: EqualsIgnoreCase_def equals_ignore_case_loop_iff)
next
  case False
  then show ?thesis
    by (auto simp: EqualsIgnoreCase_def ToLower_def dest: map_eq_imp_length_eq)
qed

text \<open>The search that should ignore case does not: a needle in the other case is not found.\<close>

lemma IsContainStringIgnoreCase_misses:
  "\<not> IsContainStringIgnoreCase (lit ''Hello'') (lit ''hello'') \<and>
   ToUpper (lit ''Hello'') = ToUpper (lit ''hello'')"
  by code_simp

lemma xor_string_involution: "length a = length b \<Longrightarrow> xor_string (xor_string a b) b = a"
proof (induction a b rule: list_induct2)
  case (Cons x xs y ys)
  then show ?case
    by (auto simp: xor_string_def xor.assoc)
qed (simp add: xor_string_def)

lemma str_less_irrefl: "\<not> str_less s s"
  by (induction s) auto

lemma str_less_trans: "str_less a b \<Longrightarrow> str_less b c \<Longrightarrow> str_less a c"
proof (induction a b arbitrary: c rule: str_less.induct)
  case (2 b t)
  then show ?case by (cases c) auto
next
  case (3 a s b t)
  then show ?case by (cases c) auto
qed simp

lemma str_less_total: "str_less a b \<or> a = b \<or> str_less b a"
proof (induction a b rule: str_less.induct)
  case (1 s)
  then show ?case by (cases s) auto
next
  case (3 a s b t)
  then show ?case by auto
qed auto

end
