(* ===== verification/Split.thy ===== *)
theory Split
  imports Hex
begin

text \<open>
  The third group of \<^verbatim>\<open>utils::String\<close> (src/src/utils/strings.h): trimming, replacing,
  splitting and the attribute parsers built on them. The loops keep the index arithmetic of
  the source; the lemmas relate each to a recursion on the list. \<^verbatim>\<open>Replace\<close> may run
  forever, so it is a partial function with \<open>None\<close> for "does not return".
\<close>

section \<open>Trimming\<close>

function scan_left :: "cstring \<Rightarrow> nat \<Rightarrow> nat" where
  "scan_left str nLeftPos =
     (if nLeftPos < length str \<and> IsSpace (str ! nLeftPos) then scan_left str (Suc nLeftPos) else nLeftPos)"
  by pat_completeness auto
termination
  by (relation "measure (\<lambda>(str, nLeftPos). length str - nLeftPos)") auto

fun scan_right :: "cstring \<Rightarrow> nat \<Rightarrow> nat \<Rightarrow> nat" where
  "scan_right str nLeftPos nRightPos =
     (if nLeftPos \<le> nRightPos \<and> IsSpace (str ! nRightPos)
      then (if nRightPos = 0 then nRightPos else scan_right str nLeftPos (nRightPos - 1))
      else nRightPos)"

declare scan_left.simps [simp del] scan_right.simps [simp del]

text \<open>The common tail of the three functions: clear the string or cut out the range.\<close>

definition cut_range :: "cstring \<Rightarrow> nat \<Rightarrow> nat \<Rightarrow> cstring" where
  "cut_range str nLeftPos nRightPos =
     (if nLeftPos > nRightPos then [] else substr str nLeftPos (nRightPos - nLeftPos + 1))"

definition TrimLeft :: "cstring \<Rightarrow> cstring" where
  "TrimLeft str =
     (if length str = 0 then str else cut_range str (scan_left str 0) (length str - 1))"

definition TrimRight :: "cstring \<Rightarrow> cstring" where
  "TrimRight str =
     (if length str = 0 then str else cut_range str 0 (scan_right str 0 (length str - 1)))"

definition Trim :: "cstring \<Rightarrow> cstring" where
  "Trim str =
     (if length str = 0 then str
      else let nLeftPos = scan_left str 0 in cut_range str nLeftPos (scan_right str nLeftPos (length str - 1)))"

lemma scan_left_eq: "scan_left str i = i + length (takeWhile IsSpace (drop i str))"
proof (induction str i rule: scan_left.induct)
  case (1 str i)
  show ?case
  proof (cases "i < length str \<and> IsSpace (str ! i)")
    case True
    then have "drop i str = str ! i # drop (Suc i) str"
      by (simp add: Cons_nth_drop_Suc)
    then show ?thesis
      using 1 True by (subst scan_left.simps) simp
  next
    case False
    then have "takeWhile IsSpace (drop i str) = []"
      by (cases "i < length str") (simp_all add: Cons_nth_drop_Suc [symmetric])
    then show ?thesis
      using False by (subst scan_left.simps) auto
  qed
qed

lemma drop_scan_left: "drop (scan_left str 0) str = dropWhile IsSpace str"
  by (simp add: scan_left_eq dropWhile_eq_drop)

lemma scan_left_nonspace: "scan_left str 0 < length str \<Longrightarrow> \<not> IsSpace (str ! scan_left str 0)"
  by (simp add: scan_left_eq nth_length_takeWhile)

lemma scan_right_bound: "scan_right str l r \<le> r"
proof (induction str l r rule: scan_right.induct)
  case (1 str l r)
  then show ?case by (subst scan_right.simps) (auto intro: le_trans)
qed

lemma take_scan_right:
  assumes "r < length str" and "l \<le> i" and "i \<le> r" and "\<not> IsSpace (str ! i)"
  shows "i \<le> scan_right str l r \<and>
         take (Suc (scan_right str l r)) str = rev (dropWhile IsSpace (rev (take (Suc r) str)))"
  using assms
proof (induction str l r rule: scan_right.induct)
  case (1 str l r)
  have split: "take (Suc r) str = take r str @ [str ! r]"
    using "1.prems"(1) by (rule take_Suc_conv_app_nth)
  show ?case
  proof (cases "IsSpace (str ! r)")
    case True
    then have "i \<noteq> r" using "1.prems" by auto
    then have i: "i \<le> r - 1" "r \<noteq> 0" "l \<le> r" using "1.prems" by auto
    then have rec: "scan_right str l r = scan_right str l (r - 1)"
      using True by (subst scan_right.simps) simp
    have "take (Suc r) str = take (Suc (r - 1)) str @ [str ! r]"
      using split i by simp
    then show ?thesis
      using "1.IH" True i "1.prems" unfolding rec by simp
  next
    case False
    then have "scan_right str l r = r" by (subst scan_right.simps) simp
    then show ?thesis using False split "1.prems" by simp
  qed
qed

lemma scan_right_all_space:
  "\<forall>j \<le> r. IsSpace (str ! j) \<Longrightarrow> scan_right str 0 r = 0"
proof (induction r)
  case 0
  then show ?case by (subst scan_right.simps) simp
next
  case (Suc r)
  then show ?case by (subst scan_right.simps) simp
qed

lemma cut_range_eq: "l \<le> r \<Longrightarrow> cut_range str l r = drop l (take (Suc r) str)"
  by (simp add: cut_range_def substr_def drop_take Suc_diff_le)

lemma TrimLeft_eq: "TrimLeft str = dropWhile IsSpace str"
proof (cases "scan_left str 0 < length str")
  case True
  then have "cut_range str (scan_left str 0) (length str - 1) = drop (scan_left str 0) str"
    by (subst cut_range_eq) auto
  then show ?thesis using True by (auto simp: TrimLeft_def drop_scan_left)
next
  case False
  then have d: "dropWhile IsSpace str = []"
    using drop_scan_left [of str] by (simp del: dropWhile_eq_Nil_conv)
  show ?thesis
  proof (cases str)
    case (Cons c cs)
    then have "length str - 1 < scan_left str 0" using False by simp
    then show ?thesis using Cons d by (simp add: TrimLeft_def cut_range_def del: dropWhile_eq_Nil_conv)
  qed (simp add: TrimLeft_def)
qed

text \<open>
  Trimming both ends removes exactly the maximal runs of white space at the left and
  at the right end, in particular everything from a string of blanks.
\<close>

theorem Trim_eq: "Trim str = rev (dropWhile IsSpace (rev (dropWhile IsSpace str)))"
proof (cases "scan_left str 0 < length str")
  case True
  let ?l = "scan_left str 0" and ?r = "length str - 1"
  have ns: "\<not> IsSpace (str ! ?l)" using True by (rule scan_left_nonspace)
  have r: "?l \<le> scan_right str ?l ?r"
    "take (Suc (scan_right str ?l ?r)) str = rev (dropWhile IsSpace (rev str))"
    using take_scan_right [of ?r str ?l ?l] True ns by auto
  have mid: "str = take ?l str @ dropWhile IsSpace str"
    by (metis append_take_drop_id drop_scan_left)
  have "\<exists>c \<in> set (dropWhile IsSpace str). \<not> IsSpace c"
    using ns True drop_scan_left [of str] by (metis Cons_nth_drop_Suc list.set_intros(1))
  then have "dropWhile IsSpace (rev str) =
      dropWhile IsSpace (rev (dropWhile IsSpace str)) @ rev (take ?l str)"
    by (subst mid) (auto simp: dropWhile_append1 simp del: append_take_drop_id)
  then have "rev (dropWhile IsSpace (rev str)) =
      take ?l str @ rev (dropWhile IsSpace (rev (dropWhile IsSpace str)))"
    by simp
  then show ?thesis
    using True r by (auto simp: Trim_def Let_def cut_range_eq)
next
  case False
  then have "dropWhile IsSpace str = []"
    using drop_scan_left [of str] by simp
  moreover have "length str \<noteq> 0 \<Longrightarrow> scan_right str (scan_left str 0) (length str - 1) < scan_left str 0"
    using False scan_right_bound [of str "scan_left str 0" "length str - 1"] by (cases str) auto
  ultimately show ?thesis by (auto simp: Trim_def Let_def cut_range_def simp del: dropWhile_eq_Nil_conv)
qed

text \<open>
  Trimming on the right does the same at its end except on a string of blanks only, where the
  loop stops at index 0 and one blank stays.
\<close>

lemma TrimRight_eq:
  "TrimRight str =
     (if str \<noteq> [] \<and> (\<forall>c \<in> set str. IsSpace c) then [hd str] else rev (dropWhile IsSpace (rev str)))"
proof (cases "\<exists>c \<in> set str. \<not> IsSpace c")
  case True
  then obtain i where i: "i < length str" "\<not> IsSpace (str ! i)"
    by (auto simp: in_set_conv_nth)
  then have "take (Suc (scan_right str 0 (length str - 1))) str = rev (dropWhile IsSpace (rev str))"
    using take_scan_right [of "length str - 1" str 0 i] by auto
  then show ?thesis
    using True i by (auto simp: TrimRight_def cut_range_eq)
next
  case False
  then have "\<forall>j < length str. IsSpace (str ! j)"
    by simp
  then have "str \<noteq> [] \<Longrightarrow> scan_right str 0 (length str - 1) = 0"
    by (cases str) (auto intro!: scan_right_all_space simp: less_Suc_eq_le)
  then show ?thesis
    using False by (auto simp: TrimRight_def cut_range_def substr_def take_Suc)
qed

section \<open>Splitting\<close>

text \<open>
  In the \<open>None\<close> case \<^verbatim>\<open>index\<close> is \<^verbatim>\<open>npos\<close>, so the guard \<^verbatim>\<open>index - last > 0\<close> holds and the rest
  of the string is pushed, the empty string after a trailing delimiter included.
\<close>

lemma find_first_of_bounds:
  "find_first_of s delim pos = Some i \<Longrightarrow> pos \<le> i \<and> i < length s"
  by (auto simp: find_first_of_def dest: find_index_length)

function split_loop :: "cstring \<Rightarrow> cstring \<Rightarrow> nat \<Rightarrow> cstring list" where
  "split_loop s delim start =
     (case find_first_of s delim start of
        None \<Rightarrow> [substr s start (length s - start)]
      | Some index \<Rightarrow> substr s start (index - start) # split_loop s delim (index + 1))"
  by pat_completeness auto
termination
  by (relation "measure (\<lambda>(s, delim, start). length s - start)") (auto dest: find_first_of_bounds)

declare split_loop.simps [simp del]

definition split :: "cstring \<Rightarrow> cstring \<Rightarrow> cstring list" where
  "split s delim = split_loop s delim 0"

text \<open>The first insertion of a key into the result map stays, as \<^verbatim>\<open>std::map::insert\<close> has it.\<close>

definition ParseAttribute :: "cstring \<Rightarrow> cstring \<Rightarrow> cstring \<Rightarrow> (cstring \<rightharpoonup> cstring)" where
  "ParseAttribute s delim ope =
     foldl (\<lambda>ret part.
       (case split part ope of
          k # v # _ \<Rightarrow> (if ret k = None then ret(k \<mapsto> v) else ret)
        | [k] \<Rightarrow> (if ret k = None then ret(k \<mapsto> []) else ret)
        | [] \<Rightarrow> ret)) Map.empty (split s delim)"

text \<open>Both \<^verbatim>\<open>Strtok\<close> overloads on a separator character run this loop.\<close>

function strtok_loop :: "cstring \<Rightarrow> byte \<Rightarrow> nat \<Rightarrow> cstring list" where
  "strtok_loop str separator newPos =
     (case find_first_of str [separator] newPos of
        None \<Rightarrow> [substr str newPos (length str - newPos)]
      | Some pos \<Rightarrow> (if pos > newPos then [substr str newPos (pos - newPos)] else []) @
                    strtok_loop str separator (pos + 1))"
  by pat_completeness auto
termination
  by (relation "measure (\<lambda>(str, separator, newPos). length str - newPos)") (auto dest: find_first_of_bounds)

declare strtok_loop.simps [simp del]

definition Strtok_into :: "cstring \<Rightarrow> byte \<Rightarrow> cstring list \<Rightarrow> nat \<times> cstring list" where
  "Strtok_into str separator arr =
     (let arr' = arr @ strtok_loop str separator 0 in (length arr', arr'))"

definition Strtok :: "cstring \<Rightarrow> byte \<Rightarrow> cstring list" where
  "Strtok str separator = strtok_loop str separator 0"

subsection \<open>Reference splitting\<close>

fun ref_split :: "('a \<Rightarrow> bool) \<Rightarrow> 'a list \<Rightarrow> 'a list list" where
  "ref_split P [] = [[]]"
| "ref_split P (x # xs) =
     (if P x then [] # ref_split P xs else (x # hd (ref_split P xs)) # tl (ref_split P xs))"

fun join_with :: "'a \<Rightarrow> 'a list list \<Rightarrow> 'a list" where
  "join_with d [] = []"
| "join_with d [p] = p"
| "join_with d (p # ps) = p @ d # join_with d ps"

lemma ref_split_nonempty [simp]: "ref_split P xs \<noteq> []"
  by (induction xs) auto

lemma ref_split_hit: "\<forall>x \<in> set xs. \<not> P x \<Longrightarrow> P d \<Longrightarrow> ref_split P (xs @ d # ys) = xs # ref_split P ys"
  by (induction xs) auto

lemma ref_split_none: "\<forall>x \<in> set xs. \<not> P x \<Longrightarrow> ref_split P xs = [xs]"
  by (induction xs) auto

lemma split_at_index:
  assumes "find_index P xs = Some i"
  shows "xs = take i xs @ xs ! i # drop (Suc i) xs" and "\<forall>x \<in> set (take i xs). \<not> P x" and "P (xs ! i)"
  using assms by (auto simp: find_index_Some id_take_nth_drop [symmetric] in_set_conv_nth)

lemma split_loop_ref: "split_loop s delim start = ref_split (\<lambda>c. c \<in> set delim) (drop start s)"
proof (induction s delim start rule: split_loop.induct)
  case (1 s delim start)
  let ?P = "\<lambda>c. c \<in> set delim"
  show ?case
  proof (cases "find_index ?P (drop start s)")
    case None
    then have "ref_split ?P (drop start s) = [drop start s]"
      by (intro ref_split_none) (simp add: find_index_None)
    then show ?thesis
      using None by (subst split_loop.simps) (simp add: find_first_of_def substr_def)
  next
    case (Some i)
    have at: "drop start s = take i (drop start s) @ drop start s ! i # drop (Suc i) (drop start s)"
      using split_at_index(1) [OF Some] .
    have "ref_split ?P (drop start s) = take i (drop start s) # ref_split ?P (drop (Suc i) (drop start s))"
      by (subst at) (simp only: ref_split_hit [OF split_at_index(2,3) [OF Some]])
    moreover have "split_loop s delim (start + i + 1) = ref_split ?P (drop (start + i + 1) s)"
      using "1.IH" Some by (simp add: find_first_of_def)
    ultimately show ?thesis
      using Some by (subst split_loop.simps) (simp add: find_first_of_def substr_def add.commute)
  qed
qed

lemma strtok_loop_ref:
  "strtok_loop s d k =
     (let ps = ref_split (\<lambda>c. c = d) (drop k s) in filter (\<lambda>p. p \<noteq> []) (butlast ps) @ [last ps])"
proof (induction s d k rule: strtok_loop.induct)
  case (1 s d k)
  let ?P = "\<lambda>c. c = d"
  show ?case
  proof (cases "find_index ?P (drop k s)")
    case None
    then have "ref_split ?P (drop k s) = [drop k s]"
      by (intro ref_split_none) (simp add: find_index_None)
    then show ?thesis
      using None by (subst strtok_loop.simps) (simp add: find_first_of_def substr_def)
  next
    case (Some i)
    have at: "drop k s = take i (drop k s) @ drop k s ! i # drop (Suc i) (drop k s)"
      using split_at_index(1) [OF Some] .
    have "ref_split ?P (drop k s) = take i (drop k s) # ref_split ?P (drop (Suc i) (drop k s))"
      by (subst at) (simp only: ref_split_hit [OF split_at_index(2,3) [OF Some]])
    moreover have "take i (drop k s) = [] \<longleftrightarrow> i = 0"
      using find_index_length [OF Some] by auto
    ultimately show ?thesis
      using Some "1.IH"
      by (subst strtok_loop.simps) (simp add: find_first_of_def substr_def add.commute Let_def)
  qed
qed

lemma join_with_Cons: "ps \<noteq> [] \<Longrightarrow> join_with d (p # ps) = p @ d # join_with d ps"
  by (cases ps) auto

lemma join_with_hd: "ps \<noteq> [] \<Longrightarrow> join_with d ((x # hd ps) # tl ps) = x # join_with d ps"
  by (cases ps; cases "tl ps") auto

lemma ref_split_join: "join_with d (ref_split (\<lambda>c. c = d) xs) = xs"
  by (induction xs) (simp_all add: join_with_Cons join_with_hd)

lemma ref_split_pieces: "p \<in> set (ref_split (\<lambda>c. c = d) xs) \<Longrightarrow> d \<notin> set p"
proof (induction xs arbitrary: p)
  case (Cons x xs)
  then show ?case
    by (cases "ref_split (\<lambda>c. c = d) xs") (auto split: if_splits)
qed simp

lemma join_ref_split:
  "ps \<noteq> [] \<Longrightarrow> \<forall>p \<in> set ps. d \<notin> set p \<Longrightarrow> ref_split (\<lambda>c. c = d) (join_with d ps) = ps"
proof (induction d ps rule: join_with.induct)
  case (2 d p)
  then show ?case by (auto intro!: ref_split_none)
next
  case (3 d p q ps)
  then show ?case by (auto intro!: trans [OF ref_split_hit])
qed simp

text \<open>
  Splitting at a delimiter character and joining with it are inverse to each other:
  the pieces joined give the string, no piece contains the delimiter, and every nonempty
  list of such pieces is found again in the string they make, empty pieces included.
\<close>

theorem split_join_inverse:
  "join_with d (split s [d]) = s \<and> (\<forall>p \<in> set (split s [d]). d \<notin> set p) \<and>
   (ps \<noteq> [] \<longrightarrow> (\<forall>p \<in> set ps. d \<notin> set p) \<longrightarrow> split (join_with d ps) [d] = ps)"
  using ref_split_join [of d s] ref_split_pieces [of _ d s] join_ref_split [of ps d]
  by (simp add: split_def split_loop_ref)

theorem split_join_inverse_witness:
  "split (lit ''a=1;;b'') [59] = [lit ''a=1'', [], lit ''b'']"
proof -
  have "join_with 59 [lit ''a=1'', [], lit ''b''] = lit ''a=1;;b''" by code_simp
  moreover have "\<forall>p \<in> set [lit ''a=1'', [], lit ''b'']. 59 \<notin> set p" by code_simp
  ultimately show ?thesis
    using split_join_inverse [of 59 "[]" "[lit ''a=1'', [], lit ''b'']"] by simp
qed

text \<open>
  The character tokenizer drops empty pieces except the last one, so a string that ends in
  the separator yields a trailing empty token.
\<close>

lemma Strtok_eq:
  "Strtok s d = filter (\<lambda>p. p \<noteq> []) (butlast (split s [d])) @ [last (split s [d])]"
  by (simp add: Strtok_def strtok_loop_ref split_def split_loop_ref Let_def)

end
