(* ===== verification/Tokens.thy ===== *)
theory Tokens
  imports Split
begin

text \<open>
  The last group of \<^verbatim>\<open>utils::String\<close> (src/src/utils/strings.h): substring replacement, the
  tokenizer on a separator string with an item limit, and the attribute parser on it.
\<close>

section \<open>Replacing\<close>

text \<open>\<^verbatim>\<open>s.replace(pos, n, to)\<close>.\<close>

definition str_replace :: "cstring \<Rightarrow> nat \<Rightarrow> nat \<Rightarrow> cstring \<Rightarrow> cstring" where
  "str_replace s pos n to = take pos s @ to @ drop (pos + n) s"

partial_function (option) replace_loop :: "cstring \<Rightarrow> cstring \<Rightarrow> cstring \<Rightarrow> nat \<Rightarrow> cstring option" where
  "replace_loop str from to pos =
     (case str_find str from pos of
        None \<Rightarrow> Some str
      | Some pos' \<Rightarrow> replace_loop (str_replace str pos' (length from) to) from to (pos' + length to))"

definition Replace :: "cstring \<Rightarrow> cstring \<Rightarrow> cstring \<Rightarrow> cstring option" where
  "Replace str from to = replace_loop str from to 0"

text \<open>The intended result: every occurrence from left to right, never inside a replacement.\<close>

lemma find_sub_less: "find_sub pat xs = Some i \<Longrightarrow> pat \<noteq> [] \<Longrightarrow> i < length xs"
  by (induction xs arbitrary: i) (auto split: if_splits)

function replace_all :: "'a list \<Rightarrow> 'a list \<Rightarrow> 'a list \<Rightarrow> 'a list" where
  "replace_all from to s =
     (if from = [] then s
      else case find_sub from s of
        None \<Rightarrow> s
      | Some k \<Rightarrow> take k s @ to @ replace_all from to (drop (k + length from) s))"
  by pat_completeness auto
termination
  by (relation "measure (\<lambda>(from, to, s). length s)") (auto dest!: find_sub_less intro!: diff_less)

declare replace_all.simps [simp del]

lemma replace_loop_eq:
  assumes "from \<noteq> []"
  shows "replace_loop (pre @ s) from to (length pre) = Some (pre @ replace_all from to s)"
  using assms
proof (induction "from" to s arbitrary: pre rule: replace_all.induct)
  case (1 "from" to s)
  show ?case
  proof (cases "find_sub from s")
    case None
    then show ?thesis
      by (subst replace_loop.simps, subst replace_all.simps) (simp add: str_find_def)
  next
    case (Some k)
    then have k: "k < length s" using find_sub_less "1.prems" by blast
    have "replace_loop (pre @ s) from to (length pre) =
        replace_loop ((pre @ take k s @ to) @ drop (k + length from) s) from to (length (pre @ take k s @ to))"
      using Some k by (subst replace_loop.simps) (simp add: str_find_def str_replace_def min_def add.assoc)
    also have "\<dots> = Some ((pre @ take k s @ to) @ replace_all from to (drop (k + length from) s))"
      using "1.IH" [OF _ Some] "1.prems" by blast
    finally show ?thesis
      using Some "1.prems" by (subst replace_all.simps) simp
  qed
qed

lemma replace_loop_empty_pattern:
  assumes "replace_loop str from to pos = Some r" and "pos \<le> length str"
  shows "from \<noteq> []"
proof -
  have "pos \<le> length str \<longrightarrow> from \<noteq> []"
  proof (rule replace_loop.raw_induct [where P = "\<lambda>str from to pos r. pos \<le> length str \<longrightarrow> from \<noteq> []", OF _ assms(1)])
    fix f :: "cstring \<Rightarrow> cstring \<Rightarrow> cstring \<Rightarrow> nat \<Rightarrow> cstring option" and str "from" to pos r
    assume IH: "\<And>str from to pos r. f str from to pos = Some r \<Longrightarrow> pos \<le> length str \<longrightarrow> from \<noteq> []"
      and eq: "(case str_find str from pos of None \<Rightarrow> Some str
        | Some pos' \<Rightarrow> f (str_replace str pos' (length from) to) from to (pos' + length to)) = Some r"
    show "pos \<le> length str \<longrightarrow> from \<noteq> []"
    proof (intro impI notI)
      assume pos: "pos \<le> length str" and e: "from = []"
      have "find_sub [] (drop pos str) = Some 0" by (cases "drop pos str") auto
      then have "str_find str from pos = Some pos" using pos e by (simp add: str_find_def)
      then have "f (str_replace str pos (length from) to) from to (pos + length to) = Some r"
        using eq by simp
      then show False using IH pos e by (fastforce simp: str_replace_def)
    qed
  qed
  then show ?thesis using assms(2) by blast
qed

text \<open>
  Claim C40. Replacing returns exactly when the text to replace is not empty, and then replaces
  every occurrence from left to right without rescanning what it inserted; with an empty
  text to replace the loop never ends.
\<close>

theorem Replace_result:
  "Replace str from to = (if from = [] then None else Some (replace_all from to str))"
proof (cases "from = []")
  case True
  then show ?thesis
    using replace_loop_empty_pattern [of str "from" to 0]
    by (cases "replace_loop str from to 0") (auto simp: Replace_def)
next
  case False
  then show ?thesis
    using replace_loop_eq [OF False, of "[]" str to] by (simp add: Replace_def)
qed

section \<open>Tokenizing on a separator string\<close>

lemma str_find_bounds: "str_find s pat pos = Some i \<Longrightarrow> pos \<le> i"
  by (auto simp: str_find_def split: if_splits)

text \<open>
  \<^verbatim>\<open>content.find(key.c_str(), start_pos)\<close>; a search that fails, or hits at or after the end,
  or happens with one item left, is moved to the end.
\<close>

definition token_end :: "cstring \<Rightarrow> cstring \<Rightarrow> int \<Rightarrow> nat \<Rightarrow> nat \<Rightarrow> int \<Rightarrow> nat" where
  "token_end content key max_items end_pos start_pos item_count =
     (case str_find content (c_str key) start_pos of
        None \<Rightarrow> end_pos
      | Some find_pos \<Rightarrow>
          (if find_pos \<ge> end_pos \<or> (max_items > 0 \<and> item_count = max_items - 1) then end_pos else find_pos))"

lemma token_end_ge: "start_pos < end_pos \<Longrightarrow> start_pos \<le> token_end content key max_items end_pos start_pos n"
  by (auto simp: token_end_def split: option.splits dest: str_find_bounds)

function strtok_key_loop ::
  "cstring \<Rightarrow> cstring \<Rightarrow> int \<Rightarrow> bool \<Rightarrow> nat \<Rightarrow> nat \<Rightarrow> cstring list \<Rightarrow> cstring list" where
  "strtok_key_loop content key max_items ignore_empty end_pos start_pos values =
     (if start_pos < end_pos \<and> key \<noteq> [] then
        let find_pos = token_end content key max_items end_pos start_pos (int (length values));
            values' = (if find_pos > start_pos \<or> \<not> ignore_empty
                       then values @ [if find_pos > start_pos then substr content start_pos (find_pos - start_pos) else []]
                       else values)
        in strtok_key_loop content key max_items ignore_empty end_pos (find_pos + length key) values'
      else values)"
  by pat_completeness auto
termination
proof (relation "measure (\<lambda>(content, key, max_items, ignore_empty, end_pos, start_pos, values). end_pos - start_pos)", goal_cases)
  case (2 content key max_items ignore_empty end_pos start_pos "values" x xa)
  then have "start_pos \<le> x" using token_end_ge by blast
  moreover have "0 < length key" "start_pos < end_pos" using 2 by simp_all
  ultimately have "end_pos - (x + length key) < end_pos - start_pos" by linarith
  then show ?case by simp
qed simp

declare strtok_key_loop.simps [simp del]

definition Strtok_key :: "cstring \<Rightarrow> cstring \<Rightarrow> int \<Rightarrow> bool \<Rightarrow> nat option \<Rightarrow> nat \<times> cstring list" where
  "Strtok_key content key max_items ignore_empty content_len =
     (if length key = 0 then (0, [])
      else let e0 = (case content_len of None \<Rightarrow> length content | Some n \<Rightarrow> n);
               end_pos = (if e0 = 0 \<or> e0 \<ge> length content then length content else e0);
               values = strtok_key_loop content key max_items ignore_empty end_pos 0 []
           in (length values, values))"

definition parse_attribute_part ::
  "cstring \<Rightarrow> bool \<Rightarrow> bool \<Rightarrow> bool \<Rightarrow> nat \<times> (cstring \<rightharpoonup> cstring) \<Rightarrow> cstring \<Rightarrow> nat \<times> (cstring \<rightharpoonup> cstring)" where
  "parse_attribute_part value_key key_low_case trim_key trim_value st part =
     (case st of (lines, attrs) \<Rightarrow>
      (case Strtok_key part value_key 2 False None of (n, part_values) \<Rightarrow>
       if n = 0 then (lines, attrs)
       else let k0 = hd part_values;
                k1 = (if key_low_case then ToLower k0 else k0);
                k2 = (if trim_key then Trim k1 else k1)
            in if length part_values < 2 then (Suc lines, attrs(k2 \<mapsto> []))
               else let v0 = last part_values; v1 = (if trim_value then Trim v0 else v0)
                    in (Suc lines, attrs(k2 \<mapsto> v1))))"

definition ParseAttributes ::
  "cstring \<Rightarrow> (cstring \<rightharpoonup> cstring) \<Rightarrow> cstring \<Rightarrow> cstring \<Rightarrow> bool \<Rightarrow> bool \<Rightarrow> bool \<Rightarrow> nat \<times> (cstring \<rightharpoonup> cstring)" where
  "ParseAttributes content attrs sep_key value_key key_low_case trim_key trim_value =
     foldl (parse_attribute_part value_key key_low_case trim_key trim_value) (0, attrs)
       (snd (Strtok_key content sep_key (-1) False None))"

lemma token_end_le: "start_pos < end_pos \<Longrightarrow> token_end content key max_items end_pos start_pos n \<le> end_pos"
  by (auto simp: token_end_def split: option.splits)

lemma strtok_key_loop_limit:
  "0 < max_items \<Longrightarrow> int (length values) < max_items \<Longrightarrow>
   int (length (strtok_key_loop content key max_items ignore_empty end_pos start_pos values)) \<le> max_items"
proof (induction content key max_items ignore_empty end_pos start_pos "values" rule: strtok_key_loop.induct)
  case (1 content key max_items ignore_empty end_pos start_pos "values")
  let ?f = "token_end content key max_items end_pos start_pos (int (length values))"
  let ?v = "if ?f > start_pos \<or> \<not> ignore_empty
     then values @ [if ?f > start_pos then substr content start_pos (?f - start_pos) else []] else values"
  let ?rec = "strtok_key_loop content key max_items ignore_empty end_pos (?f + length key) ?v"
  show ?case
  proof (cases "start_pos < end_pos \<and> key \<noteq> []")
    case True
    have unfold: "strtok_key_loop content key max_items ignore_empty end_pos start_pos values = ?rec"
      using True by (subst strtok_key_loop.simps) (simp add: Let_def)
    show ?thesis
    proof (cases "int (length ?v) < max_items")
      case lt: True
      show ?thesis
        unfolding unfold by (rule "1.IH" [OF True refl refl "1.prems"(1) lt])
    next
      case False
      then have full: "int (length values) = max_items - 1" and v: "int (length ?v) = max_items"
        using "1.prems" by (auto split: if_splits)
      then have "?f = end_pos"
        using "1.prems" by (auto simp: token_end_def split: option.splits)
      then have "?rec = ?v" by (subst strtok_key_loop.simps) simp
      then show ?thesis unfolding unfold using v by simp
    qed
  next
    case False
    then show ?thesis using "1.prems" by (subst strtok_key_loop.simps) auto
  qed
qed

text \<open>
  With a positive item limit the tokenizer never produces more items than the limit,
  whatever the content, the separator and the end position.
\<close>

theorem Strtok_key_limit:
  assumes "0 < max_items"
  shows "int (fst (Strtok_key content key max_items ignore_empty content_len)) \<le> max_items"
  using strtok_key_loop_limit [OF assms, of "[]"] assms by (simp add: Strtok_key_def Let_def)

theorem Strtok_key_limit_witness:
  "int (fst (Strtok_key (lit ''a=b=c'') (lit ''='') 2 False None)) \<le> 2 \<and>
   Strtok_key (lit ''a=b=c'') (lit ''='') 2 False None = (2, [lit ''a'', lit ''b=c''])"
  using Strtok_key_limit [of 2 "lit ''a=b=c''" "lit ''=''" False None]
  by (simp add: Strtok_key_def strtok_key_loop.simps token_end_def str_find_def c_str_def lit_def substr_def Let_def)

end
