(* ===== verification/Atom_Map.thy ===== *)
theory Atom_Map
  imports Prelude
begin

text \<open>
  The transactional map \<^verbatim>\<open>utils::AtomMap\<close> (src/src/utils/atom_map.h), the base class of the
  ledger's \<^verbatim>\<open>Environment\<close>. A map collects changes in \<^verbatim>\<open>buff_\<close> on top of \<^verbatim>\<open>*data_\<close>, which is its
  own \<^verbatim>\<open>stor_\<close> or, for a stack frame made by \<^verbatim>\<open>Environment::NewStackFrameEnv\<close>, the change buffer
  of the frame below.

  Values are shared pointers and callers write through them, so the model has an explicit
  store: a world holds the record maps by number (a \<^verbatim>\<open>Map*\<close> is such a number) and the value
  cells by address (a \<^verbatim>\<open>VALUE_PTR\<close> is an address, \<open>None\<close> the null pointer). An \<^verbatim>\<open>AtomMap\<close> object is
  the pair of its \<^verbatim>\<open>buff_\<close> and \<^verbatim>\<open>data_\<close>. The virtual \<^verbatim>\<open>GetFromDB\<close> is the parameter \<open>db\<close>. The
  exception handlers around allocation failures are not modelled.
\<close>

section \<open>Data\<close>

datatype actType = ADD | MOD | DEL | REV | ACT_MAX

record arec =
  r_type :: actType
  r_ptr :: "nat option"

record ('k, 'v) world =
  maps :: "nat \<Rightarrow> ('k \<rightharpoonup> arec)"
  cells :: "nat \<Rightarrow> 'v"
  next_cell :: nat

record atom_map =
  am_buff :: nat
  am_data :: nat

definition RecordDel :: "actType \<Rightarrow> arec" where
  "RecordDel t = \<lparr>r_type = t, r_ptr = None\<rparr>"

definition RecordPtr :: "nat \<Rightarrow> actType \<Rightarrow> arec" where
  "RecordPtr p t = \<lparr>r_type = t, r_ptr = Some p\<rparr>"

text \<open>\<^verbatim>\<open>std::make_shared<VALUE>(v)\<close>: a fresh cell.\<close>

definition make_shared :: "('k, 'v) world \<Rightarrow> 'v \<Rightarrow> ('k, 'v) world \<times> nat" where
  "make_shared w v = (w\<lparr>cells := (cells w)(next_cell w := v), next_cell := Suc (next_cell w)\<rparr>, next_cell w)"

definition put_rec :: "('k, 'v) world \<Rightarrow> nat \<Rightarrow> 'k \<Rightarrow> arec \<Rightarrow> ('k, 'v) world" where
  "put_rec w i key r = w\<lparr>maps := (maps w)(i := (maps w i)(key \<mapsto> r))\<rparr>"

text \<open>The client's write through a pointer it holds.\<close>

definition assign :: "('k, 'v) world \<Rightarrow> nat \<Rightarrow> 'v \<Rightarrow> ('k, 'v) world" where
  "assign w p v = w\<lparr>cells := (cells w)(p := v)\<rparr>"

section \<open>Operations\<close>

definition SetValue :: "('k, 'v) world \<Rightarrow> atom_map \<Rightarrow> 'k \<Rightarrow> nat \<Rightarrow> ('k, 'v) world" where
  "SetValue w m key ptr = put_rec w (am_buff m) key (RecordPtr ptr MOD)"

text \<open>
  The result is the pointer, \<open>None\<close> for \<^verbatim>\<open>false\<close>. In the second branch the source dereferences
  \<^verbatim>\<open>ptr_\<close> of a record that is not deleted; a null pointer there is undefined behaviour, which
  the well-formedness predicate below excludes, and the model answers \<^verbatim>\<open>false\<close>.
\<close>

definition GetValue ::
  "('k \<rightharpoonup> 'v) \<Rightarrow> ('k, 'v) world \<Rightarrow> atom_map \<Rightarrow> 'k \<Rightarrow> ('k, 'v) world \<times> nat option" where
  "GetValue db w m key =
     (case maps w (am_buff m) key of
        Some r \<Rightarrow> (if r_type r = DEL then (w, None) else (w, r_ptr r))
      | None \<Rightarrow>
          (case maps w (am_data m) key of
             Some r \<Rightarrow>
               (if r_type r = DEL then (w, None)
                else case r_ptr r of
                       None \<Rightarrow> (w, None)
                     | Some p \<Rightarrow>
                         (let (w1, pv) = make_shared w (cells w p)
                          in (put_rec w1 (am_buff m) key (RecordPtr pv MOD), Some pv)))
           | None \<Rightarrow>
               (case db key of
                  None \<Rightarrow> (w, None)
                | Some v \<Rightarrow>
                    (let (w1, p) = make_shared w v
                     in (put_rec w1 (am_buff m) key (RecordPtr p ADD), Some p)))))"

definition Set :: "('k, 'v) world \<Rightarrow> atom_map \<Rightarrow> 'k \<Rightarrow> nat \<Rightarrow> ('k, 'v) world \<times> bool" where
  "Set w m key ptr = (SetValue w m key ptr, True)"

definition Get ::
  "('k \<rightharpoonup> 'v) \<Rightarrow> ('k, 'v) world \<Rightarrow> atom_map \<Rightarrow> 'k \<Rightarrow> ('k, 'v) world \<times> nat option" where
  "Get db w m key = GetValue db w m key"

definition Del :: "('k, 'v) world \<Rightarrow> atom_map \<Rightarrow> 'k \<Rightarrow> ('k, 'v) world \<times> bool" where
  "Del w m key = (put_rec w (am_buff m) key (RecordDel DEL), True)"

definition clear_map :: "('k, 'v) world \<Rightarrow> nat \<Rightarrow> ('k, 'v) world" where
  "clear_map w i = w\<lparr>maps := (maps w)(i := Map.empty)\<rparr>"

text \<open>Copy the data, overwrite it with the buffered records, swap it in, clear the buffer.\<close>

definition CopyCommit :: "('k, 'v) world \<Rightarrow> atom_map \<Rightarrow> ('k, 'v) world \<times> bool" where
  "CopyCommit w m =
     (let copyBuf = maps w (am_data m) ++ maps w (am_buff m);
          w1 = w\<lparr>maps := (maps w)(am_data m := copyBuf)\<rparr>
      in (clear_map w1 (am_buff m), True))"

definition DirectCommit :: "('k, 'v) world \<Rightarrow> atom_map \<Rightarrow> ('k, 'v) world \<times> bool" where
  "DirectCommit w m =
     (clear_map (w\<lparr>maps := (maps w)(am_data m := (\<lambda>k. case maps w (am_buff m) k of
         Some act \<Rightarrow> Some act | None \<Rightarrow> maps w (am_data m) k))\<rparr>) (am_buff m), True)"

definition Commit :: "('k, 'v) world \<Rightarrow> atom_map \<Rightarrow> bool \<Rightarrow> ('k, 'v) world \<times> bool" where
  "Commit w m bakMode = (if \<not> bakMode then DirectCommit w m else CopyCommit w m)"

definition ClearChangeBuf :: "('k, 'v) world \<Rightarrow> atom_map \<Rightarrow> ('k, 'v) world" where
  "ClearChangeBuf w m = clear_map w (am_buff m)"

text \<open>A stack frame on top of \<open>m\<close>: a new, empty buffer \<open>i\<close> over the change buffer of \<open>m\<close>.\<close>

definition NewStackFrame :: "('k, 'v) world \<Rightarrow> atom_map \<Rightarrow> nat \<Rightarrow> ('k, 'v) world \<times> atom_map" where
  "NewStackFrame w m i = (clear_map w i, \<lparr>am_buff = i, am_data = am_buff m\<rparr>)"

text \<open>
  The copy constructor duplicates both maps into fresh ones \<open>i\<close> and \<open>j\<close>, every value into a
  fresh cell. Keys are taken in the order of the lists \<open>ks\<close> of the two iterations.
\<close>

fun copy_map :: "'k list \<Rightarrow> nat \<Rightarrow> nat \<Rightarrow> ('k, 'v) world \<Rightarrow> ('k, 'v) world option" where
  "copy_map [] src dst w = Some w"
| "copy_map (k # ks) src dst w =
     (case maps w src k of
        None \<Rightarrow> copy_map ks src dst w
      | Some r \<Rightarrow>
          (case r_ptr r of
             None \<Rightarrow> None
           | Some p \<Rightarrow>
               (let (w1, pv) = make_shared w (cells w p)
                in copy_map ks src dst (put_rec w1 dst k (RecordPtr pv (r_type r))))))"

definition Copy ::
  "'k list \<Rightarrow> 'k list \<Rightarrow> nat \<Rightarrow> nat \<Rightarrow> ('k, 'v) world \<Rightarrow> atom_map \<Rightarrow> (('k, 'v) world \<times> atom_map) option" where
  "Copy ks1 ks2 i j w other =
     (case copy_map ks1 (am_buff other) i (clear_map (clear_map w i) j) of
        None \<Rightarrow> None
      | Some w1 \<Rightarrow> map_option (\<lambda>w2. (w2, \<lparr>am_buff = i, am_data = j\<rparr>)) (copy_map ks2 (am_data other) j w1))"

section \<open>What a map shows, and well-formed worlds\<close>

definition rec_value :: "('k, 'v) world \<Rightarrow> arec \<Rightarrow> 'v option" where
  "rec_value w r = (if r_type r = DEL then None else map_option (cells w) (r_ptr r))"

definition view :: "('k \<rightharpoonup> 'v) \<Rightarrow> ('k, 'v) world \<Rightarrow> atom_map \<Rightarrow> ('k \<rightharpoonup> 'v)" where
  "view db w m key =
     (case maps w (am_buff m) key of
        Some r \<Rightarrow> rec_value w r
      | None \<Rightarrow> (case maps w (am_data m) key of Some r \<Rightarrow> rec_value w r | None \<Rightarrow> db key))"

definition wf_rec :: "('k, 'v) world \<Rightarrow> arec \<Rightarrow> bool" where
  "wf_rec w r \<longleftrightarrow> (case r_ptr r of None \<Rightarrow> r_type r = DEL | Some p \<Rightarrow> p < next_cell w)"

definition wf_world :: "('k, 'v) world \<Rightarrow> bool" where
  "wf_world w \<longleftrightarrow> (\<forall>i k r. maps w i k = Some r \<longrightarrow> wf_rec w r)"

definition owned :: "('k, 'v) world \<Rightarrow> nat \<Rightarrow> nat set" where
  "owned w i = {p. \<exists>k r. maps w i k = Some r \<and> r_ptr r = Some p}"

text \<open>No cell of the change buffer is shared with another map or between two keys.\<close>

definition separated :: "('k, 'v) world \<Rightarrow> atom_map \<Rightarrow> bool" where
  "separated w m \<longleftrightarrow>
     am_buff m \<noteq> am_data m \<and>
     (\<forall>i. i \<noteq> am_buff m \<longrightarrow> owned w (am_buff m) \<inter> owned w i = {}) \<and>
     (\<forall>k1 k2 r1 r2 p. maps w (am_buff m) k1 = Some r1 \<longrightarrow> maps w (am_buff m) k2 = Some r2 \<longrightarrow>
        r_ptr r1 = Some p \<longrightarrow> r_ptr r2 = Some p \<longrightarrow> k1 = k2)"

definition txn_inv :: "atom_map \<Rightarrow> ('k, 'v) world \<Rightarrow> bool" where
  "txn_inv m w \<longleftrightarrow> wf_world w \<and> separated w m"

text \<open>What the map shows without its own changes.\<close>

definition below :: "('k \<rightharpoonup> 'v) \<Rightarrow> atom_map \<Rightarrow> ('k, 'v) world \<Rightarrow> ('k \<rightharpoonup> 'v)" where
  "below db m w key = (case maps w (am_data m) key of Some r \<Rightarrow> rec_value w r | None \<Rightarrow> db key)"

text \<open>The ways a client changes a map: store a new value, delete, write through the pointer got.\<close>

definition put :: "atom_map \<Rightarrow> ('k, 'v) world \<Rightarrow> 'k \<Rightarrow> 'v \<Rightarrow> ('k, 'v) world" where
  "put m w key v = (let (w1, p) = make_shared w v in fst (Set w1 m key p))"

definition erase :: "atom_map \<Rightarrow> ('k, 'v) world \<Rightarrow> 'k \<Rightarrow> ('k, 'v) world" where
  "erase m w key = fst (Del w m key)"

definition modify :: "('k \<rightharpoonup> 'v) \<Rightarrow> atom_map \<Rightarrow> ('k, 'v) world \<Rightarrow> 'k \<Rightarrow> 'v \<Rightarrow> ('k, 'v) world" where
  "modify db m w key v = (case Get db w m key of (w1, None) \<Rightarrow> w1 | (w1, Some p) \<Rightarrow> assign w1 p v)"

lemmas world_simps = make_shared_def put_rec_def clear_map_def assign_def SetValue_def
  RecordPtr_def RecordDel_def

section \<open>The interface of a transactional map\<close>

datatype ('k, 'v) txn_op = Put 'k 'v | Erase 'k | Modify 'k 'v

fun txn_step ::
  "('s \<Rightarrow> 'k \<Rightarrow> 'v \<Rightarrow> 's) \<Rightarrow> ('s \<Rightarrow> 'k \<Rightarrow> 's) \<Rightarrow> ('s \<Rightarrow> 'k \<Rightarrow> 'v \<Rightarrow> 's) \<Rightarrow> 's \<Rightarrow> ('k, 'v) txn_op \<Rightarrow> 's" where
  "txn_step p e m s (Put k v) = p s k v"
| "txn_step p e m s (Erase k) = e s k"
| "txn_step p e m s (Modify k v) = m s k v"

text \<open>The same operations on an abstract map.\<close>

fun map_step :: "('k \<rightharpoonup> 'v) \<Rightarrow> ('k, 'v) txn_op \<Rightarrow> ('k \<rightharpoonup> 'v)" where
  "map_step f (Put k v) = f(k \<mapsto> v)"
| "map_step f (Erase k) = f(k := None)"
| "map_step f (Modify k v) = (if f k = None then f else f(k \<mapsto> v))"

locale transactional =
  fixes inv :: "'s \<Rightarrow> bool"
    and look :: "'s \<Rightarrow> 'k \<Rightarrow> 'v option"
    and base :: "'s \<Rightarrow> 'k \<Rightarrow> 'v option"
    and store :: "'s \<Rightarrow> 'k \<Rightarrow> 'v \<Rightarrow> 's"
    and remove :: "'s \<Rightarrow> 'k \<Rightarrow> 's"
    and update :: "'s \<Rightarrow> 'k \<Rightarrow> 'v \<Rightarrow> 's"
    and rollback :: "'s \<Rightarrow> 's"
    and commit :: "'s \<Rightarrow> 's"
  assumes look_store: "inv s \<Longrightarrow> look (store s k v) = (look s)(k \<mapsto> v)"
    and look_remove: "inv s \<Longrightarrow> look (remove s k) = (look s)(k := None)"
    and look_update: "inv s \<Longrightarrow> look (update s k v) = (if look s k = None then look s else (look s)(k \<mapsto> v))"
    and base_store: "inv s \<Longrightarrow> base (store s k v) = base s"
    and base_remove: "inv s \<Longrightarrow> base (remove s k) = base s"
    and base_update: "inv s \<Longrightarrow> base (update s k v) = base s"
    and inv_store: "inv s \<Longrightarrow> inv (store s k v)"
    and inv_remove: "inv s \<Longrightarrow> inv (remove s k)"
    and inv_update: "inv s \<Longrightarrow> inv (update s k v)"
    and look_rollback: "inv s \<Longrightarrow> look (rollback s) = base s"
    and base_commit: "inv s \<Longrightarrow> base (commit s) = look s"
    and inv_rollback: "inv s \<Longrightarrow> inv (rollback s)"
    and inv_commit: "inv s \<Longrightarrow> inv (commit s)"
begin

lemma step_refines:
  assumes "inv s"
  shows "inv (txn_step store remove update s x)"
    and "look (txn_step store remove update s x) = map_step (look s) x"
    and "base (txn_step store remove update s x) = base s"
  using assms
  by (cases x; simp add: look_store look_remove look_update base_store base_remove base_update
      inv_store inv_remove inv_update)+

lemma run_refines:
  "inv s \<Longrightarrow>
   inv (foldl (txn_step store remove update) s xs) \<and>
   look (foldl (txn_step store remove update) s xs) = foldl map_step (look s) xs \<and>
   base (foldl (txn_step store remove update) s xs) = base s"
  by (induction xs arbitrary: s) (simp_all add: step_refines)

lemma rollback_undoes:
  "inv s \<Longrightarrow> look (rollback (foldl (txn_step store remove update) s xs)) = base s"
  by (simp add: run_refines look_rollback)

lemma commit_publishes:
  "inv s \<Longrightarrow> base (commit (foldl (txn_step store remove update) s xs)) = foldl map_step (look s) xs"
  by (simp add: run_refines base_commit)

end

section \<open>The code implements it\<close>

lemma owned_bound: "wf_world w \<Longrightarrow> p \<in> owned w i \<Longrightarrow> p < next_cell w"
  by (fastforce simp: owned_def wf_world_def wf_rec_def split: option.splits)

lemma rec_value_fresh: "wf_rec w r \<Longrightarrow> rec_value (fst (make_shared w v)) r = rec_value w r"
  by (auto simp: rec_value_def wf_rec_def world_simps split: option.splits)

lemma view_below:
  "view db w m key = (case maps w (am_buff m) key of Some r \<Rightarrow> rec_value w r | None \<Rightarrow> below db m w key)"
  by (simp add: view_def below_def split: option.split)

text \<open>Storing a record with a fresh cell in the buffer, the step \<open>put\<close> and both loading branches share.\<close>

definition put_fresh :: "atom_map \<Rightarrow> ('k, 'v) world \<Rightarrow> 'k \<Rightarrow> 'v \<Rightarrow> actType \<Rightarrow> ('k, 'v) world" where
  "put_fresh m w key v t =
     put_rec (fst (make_shared w v)) (am_buff m) key (RecordPtr (snd (make_shared w v)) t)"

lemma maps_put_fresh:
  "maps (put_fresh m w key v t) =
     (maps w)(am_buff m := (maps w (am_buff m))(key \<mapsto> RecordPtr (next_cell w) t))"
  by (simp add: put_fresh_def world_simps)

lemma rec_value_put_fresh: "wf_rec w r \<Longrightarrow> rec_value (put_fresh m w key v t) r = rec_value w r"
  by (auto simp: rec_value_def wf_rec_def put_fresh_def world_simps split: option.splits)

lemma wf_rec_put_fresh: "wf_rec w r \<Longrightarrow> wf_rec (put_fresh m w key v t) r"
  by (auto simp: wf_rec_def put_fresh_def world_simps split: option.splits)

lemma txn_inv_put_fresh:
  assumes "txn_inv m w"
  shows "txn_inv m (put_fresh m w key v t)"
proof -
  have wf: "wf_world w" and sep: "separated w m"
    using assms by (simp_all add: txn_inv_def)
  have "wf_world (put_fresh m w key v t)"
    using wf unfolding wf_world_def maps_put_fresh
    by (auto simp: wf_rec_put_fresh split: if_splits)
      (simp add: wf_rec_def put_fresh_def world_simps)
  moreover have "next_cell w \<notin> owned w i" for i
    using owned_bound [OF wf] by blast
  then have "separated (put_fresh m w key v t) m"
    using sep unfolding separated_def owned_def maps_put_fresh
    by (auto simp: RecordPtr_def split: if_splits) blast+
  ultimately show ?thesis by (simp add: txn_inv_def)
qed

lemma view_put_fresh:
  assumes "txn_inv m w" and "t \<noteq> DEL"
  shows "view db (put_fresh m w key v t) m = (view db w m)(key \<mapsto> v)"
    and "below db m (put_fresh m w key v t) = below db m w"
proof -
  have wf: "\<And>i k r. maps w i k = Some r \<Longrightarrow> wf_rec w r" and neq: "am_buff m \<noteq> am_data m"
    using assms by (auto simp: txn_inv_def wf_world_def separated_def)
  have new: "rec_value (put_fresh m w key v t) (RecordPtr (next_cell w) t) = Some v"
    using assms(2) by (simp add: rec_value_def put_fresh_def world_simps)
  show b: "below db m (put_fresh m w key v t) = below db m w"
    using neq by (auto simp: below_def maps_put_fresh fun_eq_iff rec_value_put_fresh wf split: option.splits)
  show "view db (put_fresh m w key v t) m = (view db w m)(key \<mapsto> v)"
    by (auto simp: view_below b maps_put_fresh fun_eq_iff new rec_value_put_fresh wf split: option.splits)
qed

lemma rec_value_assign_other: "r_ptr r \<noteq> Some p \<Longrightarrow> rec_value (assign w p v) r = rec_value w r"
  by (cases "r_ptr r") (auto simp: rec_value_def assign_def)

lemma maps_assign [simp]: "maps (assign w p v) = maps w"
  by (simp add: assign_def)

lemma wf_rec_assign [simp]: "wf_rec (assign w p v) r = wf_rec w r"
  by (simp add: wf_rec_def assign_def split: option.split)

lemma txn_inv_assign: "txn_inv m w \<Longrightarrow> txn_inv m (assign w p v)"
  by (simp add: txn_inv_def wf_world_def separated_def owned_def)

text \<open>A cell of the change buffer occurs nowhere else.\<close>

lemma separatedD:
  assumes "separated w m" and "maps w (am_buff m) key = Some r" and "r_ptr r = Some p"
    and "maps w i k = Some r'" and "r_ptr r' = Some p"
  shows "i = am_buff m \<and> k = key"
proof -
  have "p \<in> owned w (am_buff m)" and "p \<in> owned w i"
    using assms unfolding owned_def by blast+
  then have "i = am_buff m" using assms(1) unfolding separated_def by blast
  then show ?thesis using assms unfolding separated_def by blast
qed

lemma view_assign:
  assumes "txn_inv m w" and r: "maps w (am_buff m) key = Some r" "r_type r \<noteq> DEL" "r_ptr r = Some p"
  shows "view db (assign w p v) m = (view db w m)(key \<mapsto> v)"
    and "below db m (assign w p v) = below db m w"
proof -
  have sep: "separated w m" using assms by (simp add: txn_inv_def)
  then have neq: "am_data m \<noteq> am_buff m" by (auto simp: separated_def)
  have other: "rec_value (assign w p v) r' = rec_value w r'"
    if "maps w i k = Some r'" "i \<noteq> am_buff m \<or> k \<noteq> key" for i k r'
    using separatedD [OF sep r(1,3) that(1)] that(2) by (auto intro: rec_value_assign_other)
  have new: "rec_value (assign w p v) r = Some v"
    using r by (simp add: rec_value_def assign_def)
  show b: "below db m (assign w p v) = below db m w"
    using other neq by (auto simp: below_def fun_eq_iff split: option.splits)
  show "view db (assign w p v) m = (view db w m)(key \<mapsto> v)"
    using other r new by (auto simp: view_below b fun_eq_iff split: option.splits)
qed

lemma GetValue_hit:
  "maps w (am_buff m) key = Some r \<Longrightarrow>
   GetValue db w m key = (w, if r_type r = DEL then None else r_ptr r)"
  by (simp add: GetValue_def)

lemma GetValue_miss:
  assumes "wf_world w" and "maps w (am_buff m) key = None"
  shows "GetValue db w m key =
     (case below db m w key of None \<Rightarrow> (w, None)
      | Some v \<Rightarrow> (put_fresh m w key v (if maps w (am_data m) key = None then ADD else MOD), Some (next_cell w)))"
proof (cases "maps w (am_data m) key")
  case None
  then show ?thesis
    using assms by (auto simp: GetValue_def below_def put_fresh_def make_shared_def split: option.splits)
next
  case (Some r)
  then have "wf_rec w r" using assms by (simp add: wf_world_def)
  then show ?thesis
    using assms Some
    by (auto simp: GetValue_def below_def put_fresh_def make_shared_def rec_value_def wf_rec_def split: option.splits)
qed

lemma Get_spec:
  assumes "txn_inv m w" and "Get db w m key = (w', res)"
  shows "map_option (cells w') res = view db w m key \<and> view db w' m = view db w m \<and>
    below db m w' = below db m w \<and> txn_inv m w' \<and>
    (\<forall>p. res = Some p \<longrightarrow> (\<exists>r. maps w' (am_buff m) key = Some r \<and> r_type r \<noteq> DEL \<and> r_ptr r = Some p))"
proof (cases "maps w (am_buff m) key")
  case None
  have wf: "wf_world w" using assms(1) by (simp add: txn_inv_def)
  have vb: "view db w m key = below db m w key" using None by (simp add: view_below)
  let ?t = "if maps w (am_data m) key = None then ADD else MOD"
  show ?thesis
  proof (cases "below db m w key")
    case missing: None
    then show ?thesis using assms GetValue_miss [OF wf None] vb by (simp add: Get_def)
  next
    case (Some v)
    then have g: "w' = put_fresh m w key v ?t" "res = Some (next_cell w)"
      using assms GetValue_miss [OF wf None, of db] by (simp_all add: Get_def)
    then have "cells w' (next_cell w) = v" by (simp add: put_fresh_def world_simps)
    moreover have "(view db w m)(key \<mapsto> v) = view db w m"
      using vb Some by (simp add: fun_upd_idem)
    ultimately show ?thesis
      using g vb Some assms(1)
      by (simp add: view_put_fresh txn_inv_put_fresh maps_put_fresh) (simp add: RecordPtr_def)
  qed
next
  case (Some r)
  then show ?thesis
    using assms by (auto simp: Get_def GetValue_hit view_def rec_value_def)
qed

lemma modify_spec:
  assumes "txn_inv m w"
  shows "view db (modify db m w key v) m =
           (if view db w m key = None then view db w m else (view db w m)(key \<mapsto> v))"
    and "below db m (modify db m w key v) = below db m w"
    and "txn_inv m (modify db m w key v)"
proof -
  obtain w' res where g: "Get db w m key = (w', res)" by (cases "Get db w m key")
  have get: "map_option (cells w') res = view db w m key" "view db w' m = view db w m"
    "below db m w' = below db m w" "txn_inv m w'"
    "\<forall>p. res = Some p \<longrightarrow> (\<exists>r. maps w' (am_buff m) key = Some r \<and> r_type r \<noteq> DEL \<and> r_ptr r = Some p)"
    using Get_spec [OF assms g] by simp_all
  have "view db (modify db m w key v) m =
           (if view db w m key = None then view db w m else (view db w m)(key \<mapsto> v)) \<and>
    below db m (modify db m w key v) = below db m w \<and> txn_inv m (modify db m w key v)"
  proof (cases res)
    case None
    then show ?thesis using get g by (simp add: modify_def)
  next
    case (Some p)
    then obtain r where r: "maps w' (am_buff m) key = Some r" "r_type r \<noteq> DEL" "r_ptr r = Some p"
      using get(5) by blast
    have some: "view db w m key = Some (cells w' p)" using get(1) Some by simp
    have m: "modify db m w key v = assign w' p v" using g Some by (simp add: modify_def)
    show ?thesis
      using view_assign [OF get(4) r, of db v] get(2,3) some m txn_inv_assign [OF get(4)] by simp
  qed
  then show "view db (modify db m w key v) m =
           (if view db w m key = None then view db w m else (view db w m)(key \<mapsto> v))"
    and "below db m (modify db m w key v) = below db m w"
    and "txn_inv m (modify db m w key v)"
    by simp_all
qed

lemma put_eq: "put m w key v = put_fresh m w key v MOD"
  by (simp add: put_def put_fresh_def Set_def SetValue_def case_prod_beta)

lemma maps_erase: "maps (erase m w key) =
    (maps w)(am_buff m := (maps w (am_buff m))(key \<mapsto> RecordDel DEL))"
  by (simp add: erase_def Del_def put_rec_def)

lemma rec_value_erase [simp]: "rec_value (erase m w key) r = rec_value w r"
  by (simp add: rec_value_def erase_def Del_def put_rec_def)

lemma wf_rec_erase [simp]: "wf_rec (erase m w key) r = wf_rec w r"
  by (simp add: wf_rec_def erase_def Del_def put_rec_def split: option.split)

lemma rec_value_deleted [simp]: "rec_value w (RecordDel DEL) = None"
  by (simp add: rec_value_def RecordDel_def)

lemma erase_spec:
  assumes "txn_inv m w"
  shows "view db (erase m w key) m = (view db w m)(key := None)"
    and "below db m (erase m w key) = below db m w"
    and "txn_inv m (erase m w key)"
proof -
  have neq: "am_buff m \<noteq> am_data m" and sep: "separated w m" and wf: "wf_world w"
    using assms by (auto simp: txn_inv_def separated_def)
  show b: "below db m (erase m w key) = below db m w"
    using neq by (auto simp: below_def maps_erase fun_eq_iff split: option.splits)
  show "view db (erase m w key) m = (view db w m)(key := None)"
    by (auto simp: view_below b maps_erase fun_eq_iff split: option.splits)
  have sub: "owned (erase m w key) i \<subseteq> owned w i" for i
    by (auto simp: owned_def maps_erase RecordDel_def split: if_splits)
  have "owned (erase m w key) (am_buff m) \<inter> owned (erase m w key) i = {}" if "i \<noteq> am_buff m" for i
    using sub [of i] sub [of "am_buff m"] sep that unfolding separated_def by blast
  moreover have "k1 = k2"
    if "maps (erase m w key) (am_buff m) k1 = Some r1" "maps (erase m w key) (am_buff m) k2 = Some r2"
      "r_ptr r1 = Some p" "r_ptr r2 = Some p" for k1 k2 r1 r2 p
    using that sep unfolding separated_def
    by (auto simp: maps_erase RecordDel_def split: if_splits)
  ultimately have "separated (erase m w key) m"
    using neq unfolding separated_def by blast
  moreover have "wf_world (erase m w key)"
    using wf unfolding wf_world_def maps_erase
    by (auto split: if_splits) (simp add: wf_rec_def RecordDel_def)
  ultimately show "txn_inv m (erase m w key)" by (simp add: txn_inv_def)
qed

lemma maps_clear: "maps (ClearChangeBuf w m) = (maps w)(am_buff m := Map.empty)"
  by (simp add: ClearChangeBuf_def clear_map_def)

lemma rec_value_clear [simp]: "rec_value (ClearChangeBuf w m) r = rec_value w r"
  by (simp add: rec_value_def ClearChangeBuf_def clear_map_def)

lemma wf_rec_clear [simp]: "wf_rec (ClearChangeBuf w m) r = wf_rec w r"
  by (simp add: wf_rec_def ClearChangeBuf_def clear_map_def split: option.split)

lemma clear_spec:
  assumes "txn_inv m w"
  shows "view db (ClearChangeBuf w m) m = below db m w"
    and "txn_inv m (ClearChangeBuf w m)"
proof -
  have neq: "am_buff m \<noteq> am_data m" and wf: "wf_world w"
    using assms by (auto simp: txn_inv_def separated_def)
  show "view db (ClearChangeBuf w m) m = below db m w"
    using neq by (auto simp: view_def below_def maps_clear fun_eq_iff split: option.splits)
  have "wf_world (ClearChangeBuf w m)"
    using wf by (auto simp: wf_world_def maps_clear split: if_splits)
  then show "txn_inv m (ClearChangeBuf w m)"
    using neq by (auto simp: txn_inv_def separated_def owned_def maps_clear)
qed

lemma CopyCommit_eq_DirectCommit: "CopyCommit w m = DirectCommit w m"
  by (simp add: CopyCommit_def DirectCommit_def map_add_def Let_def)

lemma maps_commit:
  "am_buff m \<noteq> am_data m \<Longrightarrow> maps (fst (Commit w m bak)) =
     (maps w)(am_data m := maps w (am_data m) ++ maps w (am_buff m), am_buff m := Map.empty)"
  by (cases bak)
    (auto simp: Commit_def CopyCommit_eq_DirectCommit DirectCommit_def clear_map_def map_add_def fun_eq_iff)

lemma rec_value_commit [simp]: "rec_value (fst (Commit w m bak)) r = rec_value w r"
  by (cases bak) (simp_all add: Commit_def CopyCommit_eq_DirectCommit DirectCommit_def clear_map_def rec_value_def)

lemma wf_rec_commit [simp]: "wf_rec (fst (Commit w m bak)) r = wf_rec w r"
  by (cases bak) (simp_all add: Commit_def CopyCommit_eq_DirectCommit DirectCommit_def clear_map_def wf_rec_def split: option.split)

lemma commit_spec:
  assumes "txn_inv m w"
  shows "below db m (fst (Commit w m bak)) = view db w m"
    and "txn_inv m (fst (Commit w m bak))"
proof -
  have neq: "am_buff m \<noteq> am_data m" and wf: "wf_world w"
    using assms by (auto simp: txn_inv_def separated_def)
  show "below db m (fst (Commit w m bak)) = view db w m"
    using neq by (auto simp: below_def view_def maps_commit map_add_def fun_eq_iff split: option.splits)
  have "wf_world (fst (Commit w m bak))"
    using wf unfolding wf_world_def maps_commit [OF neq]
    by (auto simp: map_add_def split: if_splits option.splits)
  then show "txn_inv m (fst (Commit w m bak))"
    using neq by (auto simp: txn_inv_def separated_def owned_def maps_commit)
qed

interpretation env_txn: transactional "txn_inv m" "\<lambda>w. view db w m" "below db m" "put m" "erase m"
  "modify db m" "\<lambda>w. ClearChangeBuf w m" "\<lambda>w. fst (Commit w m bak)" for db m bak
proof (unfold_locales, goal_cases)
  case (1 s k v) then show ?case by (simp add: put_eq view_put_fresh)
next
  case (4 s k v) then show ?case by (simp add: put_eq view_put_fresh)
next
  case (7 s k v) then show ?case by (simp add: put_eq txn_inv_put_fresh)
qed (simp_all add: erase_spec modify_spec clear_spec commit_spec)

section \<open>Properties\<close>

text \<open>
  Claim C33. Reading a key returns a pointer to the value the map shows, or nothing when it shows
  none, and is not observable: the map shows the same values as before and the layer below it
  is unchanged, although the read may copy a value into the change buffer.
\<close>

theorem Get_returns_view:
  assumes "txn_inv m w" and "Get db w m key = (w', res)"
  shows "map_option (cells w') res = view db w m key \<and> view db w' m = view db w m \<and>
         below db m w' = below db m w \<and> txn_inv m w'"
  using Get_spec [OF assms] by blast

definition example_world :: "(nat, int) world" where
  "example_world = \<lparr>maps = (\<lambda>i. if i = 1 then [7 \<mapsto> RecordPtr 0 MOD] else Map.empty),
     cells = (\<lambda>_. 5), next_cell = 1\<rparr>"

definition example_map :: atom_map where
  "example_map = \<lparr>am_buff = 0, am_data = 1\<rparr>"

lemma example_inv: "txn_inv example_map example_world"
  by (auto simp: txn_inv_def wf_world_def wf_rec_def separated_def owned_def example_world_def
      example_map_def RecordPtr_def split: if_splits)

theorem Get_returns_view_witness:
  "map_option (cells (fst (Get Map.empty example_world example_map 7)))
     (snd (Get Map.empty example_world example_map 7)) = Some 5"
proof -
  have "Get Map.empty example_world example_map 7 =
      (fst (Get Map.empty example_world example_map 7), snd (Get Map.empty example_world example_map 7))"
    by simp
  from Get_returns_view [OF example_inv this] show ?thesis
    by (simp add: view_def rec_value_def example_world_def example_map_def RecordPtr_def)
qed

text \<open>
  Claim C32. Any sequence of stores, deletions and writes through pointers obtained from the map
  shows the values the same sequence gives on a plain map, and none of it is visible below the
  map until a commit, in either commit mode, publishes exactly these values there; clearing
  the change buffer instead undoes all of it.
\<close>

theorem transaction_refines_map:
  assumes "txn_inv m w"
    and "w' = foldl (txn_step (put m) (erase m) (modify db m)) w ops"
  shows "view db w' m = foldl map_step (view db w m) ops \<and>
         below db m w' = below db m w \<and>
         below db m (fst (Commit w' m bak)) = foldl map_step (view db w m) ops \<and>
         view db (ClearChangeBuf w' m) m = below db m w"
  using env_txn.run_refines [OF assms(1), where db = db and xs = ops]
    env_txn.commit_publishes [OF assms(1), where db = db and bak = bak and xs = ops]
    env_txn.rollback_undoes [OF assms(1), where db = db and xs = ops] assms(2)
  by simp

theorem transaction_refines_map_witness:
  "below Map.empty example_map
     (fst (Commit (foldl (txn_step (put example_map) (erase example_map) (modify Map.empty example_map))
        example_world [Put 3 1, Modify 7 9]) example_map False)) 7 = Some 9"
  using transaction_refines_map [OF example_inv refl, of Map.empty "[Put 3 1, Modify 7 9]" False]
  by (simp add: view_def rec_value_def example_world_def example_map_def RecordPtr_def)

text \<open>
  Claim C34. A stack frame shows what the environment it was opened on shows exactly for the keys
  on which the environment's committed data agree with the database or that its change buffer
  holds: a frame reads past the committed data of its parent to the database.
\<close>

theorem stack_frame_view:
  assumes "NewStackFrame w m i = (w', f)" and "i \<noteq> am_buff m"
  shows "view db w' f key = view db w m key \<longleftrightarrow>
         maps w (am_buff m) key \<noteq> None \<or> below db m w key = db key"
  using assms
  by (auto simp: NewStackFrame_def clear_map_def view_def below_def rec_value_def split: option.splits)

text \<open>
  The committed data of \<open>example_map\<close> hold 5 under the key 7; a frame opened on it reads the 2 of
  the database instead.
\<close>

theorem stack_frame_view_witness:
  "view [7 \<mapsto> 2] example_world example_map 7 = Some 5 \<and>
   view [7 \<mapsto> 2] (fst (NewStackFrame example_world example_map 2)) (snd (NewStackFrame example_world example_map 2)) 7
     \<noteq> Some 5"
proof -
  have e: "NewStackFrame example_world example_map 2 =
      (fst (NewStackFrame example_world example_map 2), snd (NewStackFrame example_world example_map 2))"
    by simp
  have v: "view [7 \<mapsto> 2] example_world example_map 7 = Some 5"
    by (simp add: view_def rec_value_def example_world_def example_map_def RecordPtr_def)
  have "maps example_world (am_buff example_map) 7 = None" "below [7 \<mapsto> 2] example_map example_world 7 = Some 5"
    by (simp_all add: below_def rec_value_def example_world_def example_map_def RecordPtr_def)
  then show ?thesis
    using v stack_frame_view [OF e, of "[7 \<mapsto> 2]" 7] by (auto simp: example_map_def)
qed

end
