(* ===== verification/Entry_Cache.thy ===== *)
theory Entry_Cache
  imports Prelude
begin

text \<open>
  The hierarchical cache \<^verbatim>\<open>utils::EntryCache\<close> (src/src/utils/entry_cache.h). A cache and its chain
  of parents is the nonempty list of their entry maps, the cache itself first. The pure
  virtual \<^verbatim>\<open>LoadValue\<close> is the parameter \<open>load\<close>. A \<^verbatim>\<open>Record\<close> made by its default constructor has an
  indeterminate \<^verbatim>\<open>action_\<close>; where the source reads that field after only \<^verbatim>\<open>value_\<close> was set, the
  model reads the parameter \<open>junk\<close>.
\<close>

section \<open>Data and operations\<close>

datatype ChangeAction = EC_KEEP | EC_ADD | EC_MOD | EC_DEL

record 'v erec =
  e_value :: 'v
  e_action :: ChangeAction

type_synonym ('k, 'v) entries = "'k \<rightharpoonup> 'v erec"

fun GetRecord :: "('k \<rightharpoonup> 'v) \<Rightarrow> ChangeAction \<Rightarrow> ('k, 'v) entries list \<Rightarrow> 'k \<Rightarrow> 'v erec option" where
  "GetRecord load junk [] key = None"
| "GetRecord load junk (es # parents) key =
     (case es key of
        Some r \<Rightarrow> Some r
      | None \<Rightarrow> (if parents \<noteq> [] then GetRecord load junk parents key
                 else map_option (\<lambda>v. \<lparr>e_value = v, e_action = junk\<rparr>) (load key)))"

text \<open>One record of the branch; \<open>None\<close> is \<^verbatim>\<open>return false\<close>. The case \<^verbatim>\<open>ADD\<close> has no \<^verbatim>\<open>break\<close> and runs on into \<^verbatim>\<open>MOD\<close>.\<close>

definition merge_mod :: "('k, 'v) entries \<Rightarrow> 'k \<Rightarrow> 'v erec \<Rightarrow> ('k, 'v) entries" where
  "merge_mod es k r = (case es k of Some x \<Rightarrow> es(k \<mapsto> r) | None \<Rightarrow> es(k \<mapsto> r))"

definition merge_record :: "('k, 'v) entries \<Rightarrow> 'k \<Rightarrow> 'v erec \<Rightarrow> ('k, 'v) entries option" where
  "merge_record es k r =
     (case e_action r of
        EC_ADD \<Rightarrow>
          (case es k of
             Some x \<Rightarrow> (if e_action x = EC_DEL then Some (merge_mod (es(k \<mapsto> r\<lparr>e_action := EC_MOD\<rparr>)) k r) else None)
           | None \<Rightarrow> Some (merge_mod (es(k \<mapsto> r)) k r))
      | EC_MOD \<Rightarrow> Some (merge_mod es k r)
      | EC_DEL \<Rightarrow>
          (case es k of
             Some x \<Rightarrow>
               (case e_action x of
                  EC_ADD \<Rightarrow> Some (es(k := None))
                | EC_MOD \<Rightarrow> Some (es(k \<mapsto> x\<lparr>e_action := EC_DEL\<rparr>))
                | EC_KEEP \<Rightarrow> Some (es(k \<mapsto> x\<lparr>e_action := EC_DEL\<rparr>))
                | EC_DEL \<Rightarrow> None)
           | None \<Rightarrow> Some (es(k \<mapsto> r)))
      | EC_KEEP \<Rightarrow> Some es)"

text \<open>
  The loop over the branch in key order. A failed record ends it with the records before it
  already merged, so the result carries the entries in both cases.
\<close>

fun MergeFromBranch :: "('k, 'v) entries \<Rightarrow> ('k \<times> 'v erec) list \<Rightarrow> ('k, 'v) entries \<times> bool" where
  "MergeFromBranch es [] = (es, True)"
| "MergeFromBranch es ((k, r) # branch) =
     (case merge_record es k r of None \<Rightarrow> (es, False) | Some es' \<Rightarrow> MergeFromBranch es' branch)"

definition GetEntry ::
  "('k \<rightharpoonup> 'v) \<Rightarrow> ChangeAction \<Rightarrow> ('k, 'v) entries \<Rightarrow> ('k, 'v) entries list \<Rightarrow> 'k \<Rightarrow> ('k, 'v) entries \<times> 'v option" where
  "GetEntry load junk es parents key =
     (case es key of
        Some r \<Rightarrow> (if e_action r \<noteq> EC_DEL then (es, Some (e_value r)) else (es, None))
      | None \<Rightarrow>
          (if parents \<noteq> [] then
             (case GetRecord load junk parents key of
                Some r \<Rightarrow> (if e_action r \<noteq> EC_DEL
                           then (es(key \<mapsto> \<lparr>e_value = e_value r, e_action = EC_MOD\<rparr>), Some (e_value r))
                           else (es, None))
              | None \<Rightarrow> (es, None))
           else (case load key of
                   Some v \<Rightarrow> (es(key \<mapsto> \<lparr>e_value = v, e_action = EC_MOD\<rparr>), Some v)
                 | None \<Rightarrow> (es, None))))"

definition AddEntry ::
  "('k \<rightharpoonup> 'v) \<Rightarrow> ChangeAction \<Rightarrow> ('k, 'v) entries \<Rightarrow> ('k, 'v) entries list \<Rightarrow> 'k \<Rightarrow> 'v \<Rightarrow> ('k, 'v) entries \<times> bool" where
  "AddEntry load junk es parents key pval =
     (case es key of
        Some r \<Rightarrow> (if e_action r = EC_DEL then (es(key \<mapsto> \<lparr>e_value = pval, e_action = EC_MOD\<rparr>), True) else (es, False))
      | None \<Rightarrow>
          (if parents \<noteq> [] then
             (case GetRecord load junk parents key of
                Some r \<Rightarrow> (if e_action r \<noteq> EC_DEL then (es, False)
                           else (es(key \<mapsto> \<lparr>e_value = pval, e_action = EC_ADD\<rparr>), True))
              | None \<Rightarrow> (es(key \<mapsto> \<lparr>e_value = pval, e_action = EC_ADD\<rparr>), True))
           else if load key = None then (es(key \<mapsto> \<lparr>e_value = pval, e_action = EC_ADD\<rparr>), True)
           else (es, False)))"

text \<open>\<^verbatim>\<open>std::map::insert\<close> leaves an entry that is there.\<close>

definition map_insert :: "('k, 'v) entries \<Rightarrow> 'k \<Rightarrow> 'v erec \<Rightarrow> ('k, 'v) entries" where
  "map_insert es k r = (if es k = None then es(k \<mapsto> r) else es)"

definition delete_tail ::
  "('k \<rightharpoonup> 'v) \<Rightarrow> ChangeAction \<Rightarrow> ('k, 'v) entries \<Rightarrow> ('k, 'v) entries list \<Rightarrow> 'k \<Rightarrow> ('k, 'v) entries \<times> bool" where
  "delete_tail load junk es parents key =
     (case GetRecord load junk (es # parents) key of
        Some r \<Rightarrow> (if e_action r \<noteq> EC_DEL then (map_insert es key (r\<lparr>e_action := EC_DEL\<rparr>), True) else (es, False))
      | None \<Rightarrow> (es, False))"

definition DeleteEntry ::
  "('k \<rightharpoonup> 'v) \<Rightarrow> ChangeAction \<Rightarrow> ('k, 'v) entries \<Rightarrow> ('k, 'v) entries list \<Rightarrow> 'k \<Rightarrow> ('k, 'v) entries \<times> bool" where
  "DeleteEntry load junk es parents key =
     (case es key of
        Some r \<Rightarrow> (if e_action r = EC_DEL then (es, False)
                   else delete_tail load junk (es(key \<mapsto> r\<lparr>e_action := EC_DEL\<rparr>)) parents key)
      | None \<Rightarrow> delete_tail load junk es parents key)"

section \<open>What a chain of caches holds\<close>

fun lookup :: "('k \<rightharpoonup> 'v) \<Rightarrow> ('k, 'v) entries list \<Rightarrow> 'k \<Rightarrow> 'v option" where
  "lookup load [] key = load key"
| "lookup load (es # parents) key =
     (case es key of
        Some r \<Rightarrow> (if e_action r = EC_DEL then None else Some (e_value r))
      | None \<Rightarrow> lookup load parents key)"

text \<open>No cache of the chain holds a record for the key.\<close>

definition unrecorded :: "('k, 'v) entries list \<Rightarrow> 'k \<Rightarrow> bool" where
  "unrecorded chain key = list_all (\<lambda>es. es key = None) chain"

lemma GetRecord_lookup:
  assumes "chain \<noteq> []"
  shows "(case GetRecord load junk chain key of
        Some r \<Rightarrow> (if e_action r = EC_DEL then None else Some (e_value r)) | None \<Rightarrow> None) =
     (if junk = EC_DEL \<and> unrecorded chain key then None else lookup load chain key)"
  using assms
proof (induction chain)
  case (Cons es parents)
  then show ?case
    by (cases "parents = []") (auto simp: unrecorded_def split: option.splits)
qed simp

lemma GetEntry_cases:
  "GetEntry load junk es parents key =
     (case es key of
        Some r \<Rightarrow> (es, if e_action r = EC_DEL then None else Some (e_value r))
      | None \<Rightarrow>
          (case (if parents \<noteq> [] \<and> junk = EC_DEL \<and> unrecorded parents key then None else lookup load parents key) of
             Some v \<Rightarrow> (es(key \<mapsto> \<lparr>e_value = v, e_action = EC_MOD\<rparr>), Some v) | None \<Rightarrow> (es, None)))"
proof (cases "parents = []")
  case True
  then show ?thesis by (simp add: GetEntry_def split: option.split)
next
  case False
  then have "(if parents \<noteq> [] \<and> junk = EC_DEL \<and> unrecorded parents key then None else lookup load parents key) =
      (case GetRecord load junk parents key of
         Some r \<Rightarrow> (if e_action r = EC_DEL then None else Some (e_value r)) | None \<Rightarrow> None)"
    using GetRecord_lookup [OF False, of load junk key] by simp
  then show ?thesis using False by (simp only: GetEntry_def) (simp split: option.split)
qed

text \<open>
  Claim C35. Looking an entry up changes what the chain of caches over the store holds for no key,
  whatever the action of a default-constructed record happens to read. It returns what the chain
  holds for the key, with one exception: when the cache has a parent, no cache of the chain holds a
  record for the key and the uninitialised action reads as a deletion, it reports no entry, also
  for a key of the store.
\<close>

theorem GetEntry_lookup:
  "lookup load (fst (GetEntry load junk es parents key) # parents) = lookup load (es # parents) \<and>
   snd (GetEntry load junk es parents key) =
     (if junk = EC_DEL \<and> parents \<noteq> [] \<and> unrecorded (es # parents) key then None else lookup load (es # parents) key)"
proof (cases "es key")
  case (Some r)
  then show ?thesis by (simp add: GetEntry_cases unrecorded_def)
next
  case None
  then show ?thesis
    by (cases "lookup load parents key") (auto simp: GetEntry_cases unrecorded_def intro!: ext)
qed

text \<open>The same uninitialised action lets an entry be added that the store already has.\<close>

lemma AddEntry_over_store:
  assumes "es key = None" and "parents \<noteq> []" and "unrecorded parents key"
  shows "snd (AddEntry load EC_DEL es parents key v)"
  using assms GetRecord_lookup [OF assms(2), of load EC_DEL key]
  by (auto simp: AddEntry_def split: option.splits if_splits)

text \<open>
  An entry present in the cache itself is marked deleted and yet the function reports failure:
  the second half of the function finds the mark the first half has just set.
\<close>

lemma DeleteEntry_local:
  assumes "es key = Some r" and "e_action r \<noteq> EC_DEL"
  shows "DeleteEntry load junk es parents key = (es(key \<mapsto> r\<lparr>e_action := EC_DEL\<rparr>), False)"
  using assms by (simp add: DeleteEntry_def delete_tail_def)

text \<open>Merging an addition over a deletion leaves the action \<^verbatim>\<open>ADD\<close>, not the \<^verbatim>\<open>MOD\<close> set first.\<close>

lemma merge_add_over_del:
  assumes "es k = Some x" and "e_action x = EC_DEL" and "e_action r = EC_ADD"
  shows "merge_record es k r = Some (es(k \<mapsto> r))"
  using assms by (simp add: merge_record_def merge_mod_def)

text \<open>
  A modification merged over a deletion is taken, where the table above the source's enumeration
  says \<^verbatim>\<open>false\<close>, and one merged over an addition leaves \<^verbatim>\<open>MOD\<close>, where the table says \<^verbatim>\<open>add\<close>.
\<close>

lemma merge_mod_over_del:
  assumes "es k = Some x" and "e_action x = EC_DEL \<or> e_action x = EC_ADD" and "e_action r = EC_MOD"
  shows "merge_record es k r = Some (es(k \<mapsto> r))"
  using assms by (simp add: merge_record_def merge_mod_def)

section \<open>Merging\<close>

text \<open>When a record of the branch can be merged, by the record the root holds for its key.\<close>

definition mergeable :: "'v erec option \<Rightarrow> 'v erec \<Rightarrow> bool" where
  "mergeable x r \<longleftrightarrow>
     (case e_action r of
        EC_ADD \<Rightarrow> x = None \<or> map_option e_action x = Some EC_DEL
      | EC_DEL \<Rightarrow> map_option e_action x \<noteq> Some EC_DEL
      | _ \<Rightarrow> True)"

text \<open>
  What the root over the store holds for a key after a record is merged. A deletion merged over an
  addition removes the record, and the store shows again.
\<close>

definition merged :: "('k \<rightharpoonup> 'v) \<Rightarrow> ('k, 'v) entries \<Rightarrow> 'k \<Rightarrow> 'v erec \<Rightarrow> 'v option" where
  "merged load es k r =
     (case e_action r of
        EC_KEEP \<Rightarrow> lookup load [es] k
      | EC_DEL \<Rightarrow> (if map_option e_action (es k) = Some EC_ADD then load k else None)
      | _ \<Rightarrow> Some (e_value r))"

lemma merge_record_some: "merge_record es k r \<noteq> None \<longleftrightarrow> mergeable (es k) r"
  by (cases "e_action r"; cases "es k") (auto simp: merge_record_def mergeable_def split: ChangeAction.splits)

lemma merge_record_other: "merge_record es k r = Some es' \<Longrightarrow> x \<noteq> k \<Longrightarrow> es' x = es x"
  by (auto simp: merge_record_def merge_mod_def split: ChangeAction.splits option.splits if_splits)

lemma merge_record_merged: "merge_record es k r = Some es' \<Longrightarrow> lookup load [es'] k = merged load es k r"
  by (cases "e_action r"; cases "es k")
    (auto simp: merge_record_def merge_mod_def merged_def split: ChangeAction.splits if_splits)

lemma MergeFromBranch_other:
  "k \<notin> fst ` set branch \<Longrightarrow> fst (MergeFromBranch es branch) k = es k"
  by (induction es branch rule: MergeFromBranch.induct)
    (auto simp: merge_record_other split: option.split)

lemma lookup_cong: "es k = es' k \<Longrightarrow> lookup load [es] k = lookup load [es'] k"
  by simp

lemma merged_cong: "es k = es' k \<Longrightarrow> merged load es k r = merged load es' k r"
  by (cases "e_action r") (simp_all add: merged_def)

text \<open>
  Claim C36. Merging a branch into its root cache, the branch being a map with one record for each
  of its keys, succeeds exactly when it adds no key of which the root holds a record other than
  a deletion and deletes no key the root has deleted. After a success the root over the store holds
  the branch's value for every key the branch added or changed, also where the root had
  deleted it; for a key the branch deleted it holds nothing, except that a key the root had
  added itself is again what the store has for it; and for all other keys it holds what it held
  before.
\<close>

theorem MergeFromBranch_effect:
  assumes "distinct (map fst branch)"
  shows "snd (MergeFromBranch es branch) = list_all (\<lambda>(k, r). mergeable (es k) r) branch \<and>
    (snd (MergeFromBranch es branch) \<longrightarrow>
      lookup load [fst (MergeFromBranch es branch)] k =
        (case map_of branch k of None \<Rightarrow> lookup load [es] k | Some r \<Rightarrow> merged load es k r))"
  using assms
proof (induction branch arbitrary: es)
  case (Cons kr branch)
  obtain k' r where kr: "kr = (k', r)" by (cases kr)
  have new: "k' \<notin> fst ` set branch" and dist: "distinct (map fst branch)" using Cons.prems kr by auto
  show ?case
  proof (cases "merge_record es k' r")
    case None
    then show ?thesis using merge_record_some [of es k' r] by (simp add: kr)
  next
    case (Some es1)
    note IH = Cons.IH [OF dist, of es1] and other = merge_record_other [OF Some]
    have "list_all (\<lambda>(k, r). mergeable (es1 k) r) branch = list_all (\<lambda>(k, r). mergeable (es k) r) branch"
      by (rule list.pred_cong [OF refl]) (use new other in \<open>force simp: image_iff\<close>)
    moreover have "mergeable (es k') r" using Some merge_record_some [of es k' r] by simp
    moreover have "lookup load [fst (MergeFromBranch es1 branch)] k =
        (case map_of ((k', r) # branch) k of None \<Rightarrow> lookup load [es] k | Some r \<Rightarrow> merged load es k r)"
      if "snd (MergeFromBranch es1 branch)"
    proof (cases "k = k'")
      case True
      then show ?thesis
        using lookup_cong [of "fst (MergeFromBranch es1 branch)" k' es1, OF MergeFromBranch_other [OF new]]
          merge_record_merged [OF Some] by simp
    next
      case False
      then show ?thesis
        using IH that lookup_cong [of es1 k es, OF other [OF False]] merged_cong [of es1 k es, OF other [OF False]]
        by (simp split: option.split)
    qed
    ultimately show ?thesis using IH by (simp add: kr Some)
  qed
qed simp

theorem MergeFromBranch_effect_witness:
  "lookup [1 \<mapsto> (10::int)] [fst (MergeFromBranch Map.empty
     [(1::nat, \<lparr>e_value = 10, e_action = EC_DEL\<rparr>), (2, \<lparr>e_value = 20, e_action = EC_ADD\<rparr>)])] 1 = None"
  using MergeFromBranch_effect [of "[(1::nat, \<lparr>e_value = 10::int, e_action = EC_DEL\<rparr>), (2, \<lparr>e_value = 20, e_action = EC_ADD\<rparr>)]"
      Map.empty "[1 \<mapsto> 10]" 1]
  by (simp add: mergeable_def merged_def del: lookup.simps)

text \<open>
  A key of the store that is deleted, added again in a branch and deleted in the next branch is
  there again with the value of the store, because the record merged first stays an addition.
\<close>

lemma merge_resurrects:
  "lookup [1 \<mapsto> (10::int)] [fst (MergeFromBranch (fst (MergeFromBranch [1::nat \<mapsto> \<lparr>e_value = 10, e_action = EC_DEL\<rparr>]
     [(1, \<lparr>e_value = 20, e_action = EC_ADD\<rparr>)])) [(1, \<lparr>e_value = 20, e_action = EC_DEL\<rparr>)])] 1 = Some 10"
  by (simp add: merge_record_def merge_mod_def)

end
