(* ===== verification/Location.thy ===== *)
theory Location
  imports Prelude
begin

text \<open>
  Positions in the Merkle trie (src/src/ledger/trie.h, trie.cpp). A \<^verbatim>\<open>Location\<close> is a string whose
  first byte says whether it stands for an even or an odd number of half bytes and whose
  other bytes hold them, the lower half of the last byte being zero in the odd case. The
  functions \<^verbatim>\<open>CommonPrefix\<close>, \<^verbatim>\<open>NextBranch\<close> and \<^verbatim>\<open>Key2Location\<close> work on this packed form; the
  lemmas show that they compute with the lists of half bytes the locations stand for.
\<close>

type_synonym location = cstring

definition EVEN_PREFIX :: byte where "EVEN_PREFIX = 0x00"
definition ODD_PREFIX :: byte where "ODD_PREFIX = 0x01"
definition LEAF_PREFIX :: byte where "LEAF_PREFIX = 0x02"

text \<open>The loop of \<^verbatim>\<open>CommonPrefix\<close> over the bytes after the first: the prefix byte and the bytes pushed.\<close>

fun common_loop :: "bool \<Rightarrow> bool \<Rightarrow> cstring \<Rightarrow> cstring \<Rightarrow> byte \<times> cstring" where
  "common_loop odd1 odd2 (c1 # t1) (c2 # t2) =
     (if c1 AND 0xf0 \<noteq> c2 AND 0xf0 then (EVEN_PREFIX, [])
      else if t1 = [] \<and> odd1 then (ODD_PREFIX, [c1 AND 0xf0])
      else if t2 = [] \<and> odd2 then (ODD_PREFIX, [c1 AND 0xf0])
      else if c1 AND 0x0f \<noteq> c2 AND 0x0f then (ODD_PREFIX, [c1 AND 0xf0])
      else let (pre, out) = common_loop odd1 odd2 t1 t2 in (pre, c1 # out))"
| "common_loop odd1 odd2 _ _ = (EVEN_PREFIX, [])"

definition CommonPrefix :: "location \<Rightarrow> location \<Rightarrow> location" where
  "CommonPrefix s1 s2 =
     (let (pre, out) = common_loop (hd s1 = ODD_PREFIX) (hd s2 = ODD_PREFIX) (tl s1) (tl s2) in pre # out)"

text \<open>\<open>None\<close> is the exception of \<^verbatim>\<open>std::string::at\<close>; the shift of a signed char is arithmetic.\<close>

definition NextBranch :: "location \<Rightarrow> location \<Rightarrow> nat option" where
  "NextBranch s1 s2 =
     (let len1 = length s1 in
      if hd s1 = ODD_PREFIX
      then (if len1 - 1 < length s2 then Some (unat (s2 ! (len1 - 1) AND 0x0f)) else None)
      else (if len1 < length s2 then Some (unat (signed_drop_bit 4 (s2 ! len1) AND 0x0f)) else None))"

definition Key2Location :: "cstring \<Rightarrow> location" where
  "Key2Location key = EVEN_PREFIX # key"

section \<open>The half bytes of a location\<close>

definition hi :: "byte \<Rightarrow> nat" where "hi b = unat b div 16"
definition lo :: "byte \<Rightarrow> nat" where "lo b = unat b mod 16"

fun nibs :: "bool \<Rightarrow> cstring \<Rightarrow> nat list" where
  "nibs od [] = []"
| "nibs od [b] = (if od then [hi b] else [hi b, lo b])"
| "nibs od (b # c # t) = hi b # lo b # nibs od (c # t)"

definition nib :: "location \<Rightarrow> nat list" where
  "nib l = nibs (hd l = ODD_PREFIX) (tl l)"

definition wf_loc :: "location \<Rightarrow> bool" where
  "wf_loc l \<longleftrightarrow> l \<noteq> [] \<and>
     (hd l = EVEN_PREFIX \<or> (hd l = ODD_PREFIX \<and> tl l \<noteq> [] \<and> lo (last l) = 0))"

abbreviation lcp :: "'a list \<Rightarrow> 'a list \<Rightarrow> 'a list" where
  "lcp \<equiv> longest_common_prefix"

lemmas lcp_prefix1 = longest_common_prefix_prefix1
lemmas lcp_prefix2 = longest_common_prefix_prefix2
lemmas lcp_greatest = longest_common_prefix_max_prefix

lemma lcp_eq_left: "lcp xs ys = xs \<longleftrightarrow> prefix xs ys"
  by (metis lcp_greatest lcp_prefix1 lcp_prefix2 prefix_order.antisym prefix_order.refl)

lemma lcp_eq_right: "lcp xs ys = ys \<longleftrightarrow> prefix ys xs"
  by (metis lcp_greatest lcp_prefix1 lcp_prefix2 prefix_order.antisym prefix_order.refl)

lemma lcp_commute: "lcp xs ys = lcp ys xs"
  by (metis lcp_greatest lcp_prefix1 lcp_prefix2 prefix_order.antisym)

lemma lcp_diverge:
  "length (lcp xs ys) < length xs \<Longrightarrow> length (lcp xs ys) < length ys \<Longrightarrow>
   xs ! length (lcp xs ys) \<noteq> ys ! length (lcp xs ys)"
  by (induction xs ys rule: longest_common_prefix.induct) auto

subsection \<open>Bytes and half bytes\<close>

lemma byte_halves_all:
  "\<forall>b :: byte. hi b < 16 \<and> lo b < 16 \<and> unat (b AND 0x0f) = lo b \<and>
     unat (signed_drop_bit 4 b AND 0x0f) = hi b \<and>
     hi (b AND 0xf0) = hi b \<and> lo (b AND 0xf0) = 0"
  by code_simp

lemma hi_less [simp]: "hi b < 16" and lo_less [simp]: "lo b < 16"
  and unat_and_0f [simp]: "unat (b AND 0x0f) = lo b"
  and unat_shift_hi [simp]: "unat (signed_drop_bit 4 b AND 0x0f) = hi b"
  and hi_and_f0 [simp]: "hi (b AND 0xf0) = hi b" and lo_and_f0 [simp]: "lo (b AND 0xf0) = 0"
  using byte_halves_all by blast+

lemma byte_eq_halves: "b = c \<longleftrightarrow> hi b = hi c \<and> lo b = lo c"
proof
  assume "hi b = hi c \<and> lo b = lo c"
  then have "unat b = unat c"
    unfolding hi_def lo_def by (metis div_mult_mod_eq)
  then show "b = c" by (simp add: word_unat_eq_iff)
qed simp

lemma and_f0_eq: "b AND 0xf0 = c AND 0xf0 \<longleftrightarrow> hi b = hi c"
  by (simp add: byte_eq_halves [of "b AND 0xf0"])

lemma and_0f_eq: "b AND 0x0f = c AND 0x0f \<longleftrightarrow> lo b = lo c"
  by (metis unat_and_0f word_unat_eq_iff)

subsection \<open>Packed locations\<close>

lemma nibs_eq_Nil [simp]: "nibs od t = [] \<longleftrightarrow> t = []" "[] = nibs od t \<longleftrightarrow> t = []"
  by (induction od t rule: nibs.induct) auto

lemma nibs_Cons: "nibs od (b # t) = (if od \<and> t = [] then [hi b] else hi b # lo b # nibs od t)"
  by (cases t) auto

lemma length_nibs: "length (nibs od t) = (if od \<and> t \<noteq> [] then 2 * length t - 1 else 2 * length t)"
  by (induction od t rule: nibs.induct) auto

text \<open>Tails of well-formed locations: in the odd case nonempty with a padded last byte.\<close>

definition wf_tail :: "bool \<Rightarrow> cstring \<Rightarrow> bool" where
  "wf_tail od t \<longleftrightarrow> (od \<longrightarrow> t \<noteq> [] \<and> lo (last t) = 0)"

lemma nibs_inj:
  "wf_tail odd1 t1 \<Longrightarrow> wf_tail odd2 t2 \<Longrightarrow> nibs odd1 t1 = nibs odd2 t2 \<Longrightarrow> odd1 = odd2 \<and> t1 = t2"
proof (induction t1 arbitrary: t2)
  case Nil
  then show ?case by (auto simp: wf_tail_def)
next
  case (Cons b t1)
  then obtain c t2' where t2: "t2 = c # t2'" by (cases t2) auto
  show ?case
  proof (cases "(odd1 \<and> t1 = []) \<or> (odd2 \<and> t2' = [])")
    case True
    then show ?thesis
      using Cons.prems t2 by (auto simp: nibs_Cons wf_tail_def byte_eq_halves split: if_splits)
  next
    case False
    then have "nibs odd1 t1 = nibs odd2 t2'" "b = c"
      using Cons.prems t2 by (auto simp: nibs_Cons byte_eq_halves)
    then show ?thesis
      using Cons.IH [of t2'] Cons.prems(1,2) t2 False by (auto simp: wf_tail_def split: if_splits)
  qed
qed

lemma wf_loc_tail: "wf_loc l \<Longrightarrow> wf_tail (hd l = ODD_PREFIX) (tl l)"
  by (auto simp: wf_loc_def wf_tail_def last_tl EVEN_PREFIX_def ODD_PREFIX_def)

lemma nib_inj:
  assumes "wf_loc a" and "wf_loc b" and "nib a = nib b"
  shows "a = b"
proof -
  have "(hd a = ODD_PREFIX) = (hd b = ODD_PREFIX)" "tl a = tl b"
    using nibs_inj [OF wf_loc_tail [OF assms(1)] wf_loc_tail [OF assms(2)]] assms(3)
    by (auto simp: nib_def)
  moreover have "a = hd a # tl a" "b = hd b # tl b"
    using assms by (auto simp: wf_loc_def)
  ultimately show ?thesis
    using assms(1,2) by (metis wf_loc_def)
qed

lemma common_loop_lcp:
  assumes "wf_tail odd1 t1" and "wf_tail odd2 t2" and "common_loop odd1 odd2 t1 t2 = (pre, out)"
  shows "nibs (pre = ODD_PREFIX) out = lcp (nibs odd1 t1) (nibs odd2 t2) \<and>
         wf_tail (pre = ODD_PREFIX) out \<and> (pre = EVEN_PREFIX \<or> pre = ODD_PREFIX)"
  using assms
proof (induction odd1 odd2 t1 t2 arbitrary: pre out rule: common_loop.induct)
  case (1 odd1 odd2 c1 t1 c2 t2)
  have d: "EVEN_PREFIX \<noteq> ODD_PREFIX" by (simp add: EVEN_PREFIX_def ODD_PREFIX_def)
  show ?case
  proof (cases "hi c1 = hi c2")
    case False
    then show ?thesis
      using "1.prems"(3) d by (auto simp: and_f0_eq nibs_Cons wf_tail_def)
  next
    case h: True
    show ?thesis
    proof (cases "(t1 = [] \<and> odd1) \<or> (t2 = [] \<and> odd2) \<or> lo c1 \<noteq> lo c2")
      case True
      then have "pre = ODD_PREFIX \<and> out = [c1 AND 0xf0]"
        using "1.prems"(3) h by (auto simp: and_f0_eq and_0f_eq split: if_splits)
      then show ?thesis
        using True h by (auto simp: nibs_Cons wf_tail_def)
    next
      case False
      obtain pre' out' where rec: "common_loop odd1 odd2 t1 t2 = (pre', out')"
        by (cases "common_loop odd1 odd2 t1 t2")
      have po: "pre = pre'" "out = c1 # out'"
        using "1.prems"(3) h False rec by (auto simp: and_f0_eq and_0f_eq split: if_splits)
      have tails: "wf_tail odd1 t1" "wf_tail odd2 t2"
        using "1.prems"(1,2) False by (auto simp: wf_tail_def split: if_splits)
      have g: "c1 AND 0xf0 = c2 AND 0xf0" "c1 AND 0x0f = c2 AND 0x0f"
        using h False by (auto simp: and_f0_eq and_0f_eq)
      have "nibs (pre' = ODD_PREFIX) out' = lcp (nibs odd1 t1) (nibs odd2 t2) \<and>
          wf_tail (pre' = ODD_PREFIX) out' \<and> (pre' = EVEN_PREFIX \<or> pre' = ODD_PREFIX)"
        using "1.IH" g False tails rec by blast
      then show ?thesis
        using po False h by (auto simp: nibs_Cons wf_tail_def)
    qed
  qed
qed (auto simp: wf_tail_def EVEN_PREFIX_def ODD_PREFIX_def)

lemma CommonPrefix_wf:
  assumes "wf_loc s1" and "wf_loc s2"
  shows "wf_loc (CommonPrefix s1 s2)" and "nib (CommonPrefix s1 s2) = lcp (nib s1) (nib s2)"
proof -
  obtain pre out where c: "common_loop (hd s1 = ODD_PREFIX) (hd s2 = ODD_PREFIX) (tl s1) (tl s2) = (pre, out)"
    by (cases "common_loop (hd s1 = ODD_PREFIX) (hd s2 = ODD_PREFIX) (tl s1) (tl s2)")
  note l = common_loop_lcp [OF wf_loc_tail [OF assms(1)] wf_loc_tail [OF assms(2)] c]
  then show "wf_loc (CommonPrefix s1 s2)"
    using c by (auto simp: CommonPrefix_def wf_loc_def wf_tail_def)
  show "nib (CommonPrefix s1 s2) = lcp (nib s1) (nib s2)"
    using l c by (simp add: CommonPrefix_def nib_def)
qed

lemma nibs_nth:
  "i < length (nibs od t) \<Longrightarrow> nibs od t ! i = (if even i then hi (t ! (i div 2)) else lo (t ! (i div 2)))"
proof (induction od t arbitrary: i rule: nibs.induct)
  case (3 od b c t)
  consider "i = 0" | "i = 1" | j where "i = Suc (Suc j)"
    by (metis One_nat_def not0_implies_Suc)
  then show ?case
    using 3 by cases auto
qed (auto simp: less_Suc_eq split: if_splits)

lemma NextBranch_nib:
  assumes "wf_loc s1" and "wf_loc s2" and "length (nib s1) < length (nib s2)"
  shows "NextBranch s1 s2 = Some (nib s2 ! length (nib s1))"
proof -
  let ?t1 = "tl s1" and ?t2 = "tl s2"
  have ne: "s1 \<noteq> []" "s2 \<noteq> []" using assms by (auto simp: wf_loc_def)
  have s2: "s2 ! Suc k = ?t2 ! k" for k using ne by (cases s2) auto
  have n: "nib s2 ! length (nib s1) =
      (if even (length (nib s1)) then hi (?t2 ! (length (nib s1) div 2)) else lo (?t2 ! (length (nib s1) div 2)))"
    using assms(3) by (simp add: nib_def nibs_nth)
  show ?thesis
  proof (cases "hd s1 = ODD_PREFIX")
    case True
    then have t: "?t1 \<noteq> []" using assms(1) by (auto simp: wf_loc_def EVEN_PREFIX_def ODD_PREFIX_def)
    then have len: "length (nib s1) = 2 * (length s1 - 2) + 1"
      using True ne by (cases s1; cases "tl s1") (auto simp: nib_def length_nibs)
    have "length s1 - 2 < length ?t2"
      using assms(3) len by (auto simp: nib_def length_nibs split: if_splits)
    moreover have "length s1 - 1 = Suc (length s1 - 2)" using t by (cases s1; cases "tl s1") auto
    ultimately show ?thesis
      using True n len s2 ne by (auto simp: NextBranch_def Let_def)
  next
    case False
    then have len: "length (nib s1) = 2 * (length s1 - 1)"
      by (simp add: nib_def length_nibs)
    have "length s1 - 1 < length ?t2"
      using assms(3) len by (auto simp: nib_def length_nibs split: if_splits)
    moreover have "s2 ! length s1 = ?t2 ! (length s1 - 1)"
      using s2 [of "length s1 - 1"] ne by (cases s1) auto
    moreover have "length s1 < length s2"
      using calculation(1) ne by (cases s1; cases s2) auto
    ultimately show ?thesis
      using False n len by (simp add: NextBranch_def Let_def del: unat_and_0f)
  qed
qed

lemma Key2Location_wf [simp]: "wf_loc (Key2Location key)"
  by (simp add: wf_loc_def Key2Location_def)

lemma Key2Location_inj: "Key2Location a = Key2Location b \<longleftrightarrow> a = b"
  by (simp add: Key2Location_def)

text \<open>
  The common prefix of two packed locations is the well-formed location whose half
  bytes are the longest common prefix of theirs, and for a location that properly extends
  another the next branch is its half byte right after the shorter one, read in bounds.
\<close>

theorem location_arithmetic:
  assumes "wf_loc s1" and "wf_loc s2"
  shows "wf_loc (CommonPrefix s1 s2) \<and> nib (CommonPrefix s1 s2) = lcp (nib s1) (nib s2) \<and>
         (strict_prefix (nib s1) (nib s2) \<longrightarrow> NextBranch s1 s2 = Some (nib s2 ! length (nib s1)))"
  using CommonPrefix_wf [OF assms] NextBranch_nib [OF assms] prefix_length_less by blast

theorem location_arithmetic_witness:
  "CommonPrefix [0, 0x12, 0x34] [0, 0x12, 0x35] = [1, 0x12, 0x30] \<and>
   NextBranch [1, 0x12, 0x30] [0, 0x12, 0x35] = Some 5"
proof -
  have wf: "wf_loc [1, 0x12, 0x30]" "wf_loc [0, 0x12, 0x35]" by code_simp+
  have n: "nib [1, 0x12, 0x30] = [1, 2, 3]" "nib [0, 0x12, 0x35] = [1, 2, 3, 5]" by code_simp+
  have "NextBranch [1, 0x12, 0x30] [0, 0x12, 0x35] = Some 5"
    using location_arithmetic [OF wf] n by (simp add: strict_prefix_def)
  then show ?thesis by code_simp
qed

end
