(* ===== verification/Merkle.thy ===== *)
theory Merkle
  imports Location
begin

text \<open>
  What the Merkle trie of src/src/ledger/trie.cpp is meant to compute, stated on contents
  alone: a content maps the half bytes of keys to values, and \<open>canon\<close> gives the entry a parent
  node has for a content, nothing for the empty one, the leaf for a single key, and otherwise
  an inner node at the longest common prefix of the keys, hashed over the entries of its
  sixteen branches and its own leaf. \<open>pack\<close> is the location of a list of half bytes.
\<close>

section \<open>Messages of merkeltrie.proto\<close>

datatype CHILDTYPE = NONE | INNER | LEAF

record child =
  sublocation :: location
  hash :: cstring
  childtype :: CHILDTYPE

definition Child_default :: child where
  "Child_default = \<lparr>sublocation = [], hash = [], childtype = NONE\<rparr>"

lemma childtype_default [simp]: "childtype Child_default = NONE"
  by (simp add: Child_default_def)

section \<open>The location of a list of half bytes\<close>

fun pack_bytes :: "nat list \<Rightarrow> cstring" where
  "pack_bytes [] = []"
| "pack_bytes [a] = [of_nat (16 * a)]"
| "pack_bytes (a # b # t) = of_nat (16 * a + b) # pack_bytes t"

definition pack :: "nat list \<Rightarrow> location" where
  "pack ns = (if even (length ns) then EVEN_PREFIX else ODD_PREFIX) # pack_bytes ns"

abbreviation halves :: "nat list \<Rightarrow> bool" where
  "halves ns \<equiv> set ns \<subseteq> {..<16}"

lemma unat_of_nat_byte: "n < 256 \<Longrightarrow> unat (of_nat n :: byte) = n"
  by (simp add: unat_of_nat take_bit_nat_eq_self)

lemma prefix_byte_neq [simp]: "EVEN_PREFIX \<noteq> ODD_PREFIX" "ODD_PREFIX \<noteq> EVEN_PREFIX"
  "LEAF_PREFIX \<noteq> ODD_PREFIX" "LEAF_PREFIX \<noteq> EVEN_PREFIX"
  by (simp_all add: EVEN_PREFIX_def ODD_PREFIX_def LEAF_PREFIX_def)

lemma nibs_pack_bytes:
  "halves ns \<Longrightarrow> nibs (odd (length ns)) (pack_bytes ns) = ns \<and>
     wf_tail (odd (length ns)) (pack_bytes ns)"
proof (induction ns rule: pack_bytes.induct)
  case (2 a)
  then show ?case
    by (simp add: hi_def lo_def wf_tail_def unat_of_nat_byte del: of_nat_mult)
next
  case (3 a b t)
  then have *: "hi (of_nat (16 * a + b)) = a" "lo (of_nat (16 * a + b)) = b"
    by (simp_all add: hi_def lo_def unat_of_nat_byte del: of_nat_add of_nat_mult)
  have "odd (length t) \<Longrightarrow> pack_bytes t \<noteq> []" by (cases t rule: pack_bytes.cases) auto
  then show ?case
    using 3 * by (auto simp: nibs_Cons wf_tail_def simp del: of_nat_add of_nat_mult)
qed (simp add: wf_tail_def)

lemma nib_pack [simp]: "halves ns \<Longrightarrow> nib (pack ns) = ns"
  using nibs_pack_bytes [of ns] by (cases "even (length ns)") (simp_all add: nib_def pack_def)

lemma wf_pack [simp]: "halves ns \<Longrightarrow> wf_loc (pack ns)"
  using nibs_pack_bytes [of ns] by (auto simp: wf_loc_def pack_def wf_tail_def)

lemma halves_nibs: "halves (nibs od t)"
  by (induction od t rule: nibs.induct) (auto simp: subset_iff)

lemma halves_nib [simp]: "halves (nib l)"
  by (simp add: nib_def halves_nibs)

lemma pack_nib [simp]: "wf_loc l \<Longrightarrow> pack (nib l) = l"
  by (rule nib_inj) simp_all

lemma pack_inj: "halves a \<Longrightarrow> halves b \<Longrightarrow> pack a = pack b \<longleftrightarrow> a = b"
  by (metis nib_pack)

lemma even_nib_key [simp]: "even (length (nib (Key2Location key)))"
  by (simp add: nib_def Key2Location_def length_nibs)

section \<open>Contents and their canonical entries\<close>

type_synonym content = "nat list \<rightharpoonup> cstring"

definition under :: "nat list \<Rightarrow> content \<Rightarrow> content" where
  "under p M = M |` {k. prefix p k}"

lemma under_apply: "under p M k = (if prefix p k then M k else None)"
  by (simp add: under_def restrict_map_def)

lemma dom_under: "dom (under p M) = {k \<in> dom M. prefix p k}"
  by (auto simp: under_def)

lemma finite_dom_under [simp]: "finite (dom M) \<Longrightarrow> finite (dom (under p M))"
  by (simp add: dom_under)

lemma under_under: "prefix p q \<Longrightarrow> under q (under p M) = under q M"
  by (rule ext) (auto simp: under_apply intro: prefix_order.trans)

lemma under_eqI: "(\<And>k. prefix p k \<Longrightarrow> M k = M' k) \<Longrightarrow> under p M = under p M'"
  by (rule ext) (simp add: under_apply)

lemma under_upd_other: "\<not> prefix p k \<Longrightarrow> under p (M(k := v)) = under p M"
  by (rule under_eqI) auto

lemma under_empty_iff: "dom (under p M) = {} \<longleftrightarrow> (\<forall>k. prefix p k \<longrightarrow> M k = None)"
  by (auto simp: dom_under)

lemma under_emptyI: "(\<And>k. prefix p k \<Longrightarrow> M k = None) \<Longrightarrow> dom (under p M) = {}"
  using under_empty_iff by metis

lemma under_emptyD: "dom (under p M) = {} \<Longrightarrow> prefix p k \<Longrightarrow> M k = None"
  using under_empty_iff by metis

lemma under_extend:
  assumes "prefix p q" and "\<And>k. prefix p k \<Longrightarrow> \<not> prefix q k \<Longrightarrow> M k = None"
  shows "under p M = under q M"
  using assms by (intro ext) (auto simp: under_apply intro: prefix_order.trans)

definition leafc :: "(cstring \<Rightarrow> cstring) \<Rightarrow> content \<Rightarrow> nat list \<Rightarrow> child" where
  "leafc H M p =
     (case M p of None \<Rightarrow> Child_default
      | Some v \<Rightarrow> \<lparr>sublocation = pack p, hash = H v, childtype = LEAF\<rparr>)"

lemma LCP_branch_psubset:
  assumes "finite S" and "S \<noteq> {}"
  shows "card {k \<in> S. prefix (Longest_common_prefix S @ [i]) k} < card S"
proof (rule psubset_card_mono [OF assms(1)])
  have "\<not> (\<forall>k \<in> S. prefix (Longest_common_prefix S @ [i]) k)"
    using Longest_common_prefix_longest [OF assms(2), of "Longest_common_prefix S @ [i]"] by auto
  then show "{k \<in> S. prefix (Longest_common_prefix S @ [i]) k} \<subset> S" by blast
qed

function canon :: "(cstring \<Rightarrow> cstring) \<Rightarrow> (child list \<Rightarrow> cstring) \<Rightarrow> content \<Rightarrow> child" where
  "canon H ser M =
     (if card (dom M) = 0 then Child_default
      else if card (dom M) = 1 then leafc H M (Longest_common_prefix (dom M))
      else let p = Longest_common_prefix (dom M) in
        \<lparr>sublocation = pack p,
         hash = H (ser (map (\<lambda>i. canon H ser (under (p @ [i]) M)) [0..<16] @ [leafc H M p])),
         childtype = INNER\<rparr>)"
  by pat_completeness auto
termination
proof (relation "measure (\<lambda>(H, ser, M). card (dom M))", goal_cases)
  case (2 H ser M p i)
  then have "finite (dom M)" "dom M \<noteq> {}"
    by (metis card.infinite, metis card.empty)
  then show ?case
    using LCP_branch_psubset [of "dom M" i] 2 by (simp add: dom_under)
qed simp

declare canon.simps [simp del]

text \<open>The entries of the node at a location: sixteen branches and the leaf.\<close>

definition info_of :: "(cstring \<Rightarrow> cstring) \<Rightarrow> (child list \<Rightarrow> cstring) \<Rightarrow> content \<Rightarrow> nat list \<Rightarrow> child list" where
  "info_of H ser M p = map (\<lambda>i. canon H ser (under (p @ [i]) M)) [0..<16] @ [leafc H M p]"

lemma length_info_of [simp]: "length (info_of H ser M p) = 17"
  by (simp add: info_of_def)

lemma info_of_nth [simp]: "i < 16 \<Longrightarrow> info_of H ser M p ! i = canon H ser (under (p @ [i]) M)"
  "info_of H ser M p ! 16 = leafc H M p"
  by (simp_all add: info_of_def nth_append)

lemma info_of_eqI:
  assumes "length xs = 17" and "\<And>i. i < 16 \<Longrightarrow> xs ! i = canon H ser (under (p @ [i]) M)"
    and "xs ! 16 = leafc H M p"
  shows "xs = info_of H ser M p"
proof (rule nth_equalityI)
  fix i assume "i < length xs"
  then consider "i < 16" | "i = 16" using assms(1) by linarith
  then show "xs ! i = info_of H ser M p ! i" by cases (simp_all add: assms)
qed (simp add: assms)

lemma leafc_None [simp]: "M p = None \<Longrightarrow> leafc H M p = Child_default"
  by (simp add: leafc_def)

lemma childtype_leafc: "childtype (leafc H M p) = NONE \<longleftrightarrow> M p = None"
  by (simp add: leafc_def split: option.splits)

lemma canon_empty [simp]: "dom M = {} \<Longrightarrow> canon H ser M = Child_default"
  by (simp add: canon.simps)

lemma canon_single:
  assumes "dom M = {k}"
  shows "canon H ser M = leafc H M k"
proof -
  have "Longest_common_prefix {k} = k"
    by (rule Longest_common_prefix_eq) (auto dest: prefix_length_le)
  then show ?thesis using assms by (simp add: canon.simps)
qed

lemma canon_inner:
  assumes "2 \<le> card (dom M)" and "p = Longest_common_prefix (dom M)"
  shows "canon H ser M = \<lparr>sublocation = pack p, hash = H (ser (info_of H ser M p)), childtype = INNER\<rparr>"
  using assms by (subst canon.simps) (simp add: Let_def info_of_def)

lemma card_cases:
  assumes "finite S"
  obtains "S = {}" | k where "S = {k}" | "2 \<le> card S"
proof -
  consider "card S = 0" | "card S = 1" | "2 \<le> card S" by linarith
  then show ?thesis
    using that assms by cases (auto simp: card_1_singleton_iff)
qed

lemma canon_NONE_iff:
  assumes "finite (dom M)"
  shows "childtype (canon H ser M) = NONE \<longleftrightarrow> dom M = {}"
  using assms
  by (cases rule: card_cases) (auto simp: canon_single childtype_leafc canon_inner)

section \<open>The entries of a node determine its own entry\<close>

text \<open>Contents of tries: finitely many keys, each a whole number of bytes.\<close>

definition keys_ok :: "content \<Rightarrow> bool" where
  "keys_ok M \<longleftrightarrow> finite (dom M) \<and> (\<forall>k \<in> dom M. halves k \<and> even (length k))"

lemma keys_ok_finite [simp]: "keys_ok M \<Longrightarrow> finite (dom M)"
  by (simp add: keys_ok_def)

lemma keys_ok_empty [simp]: "keys_ok Map.empty"
  by (simp add: keys_ok_def)

lemma keys_ok_upd: "keys_ok M \<Longrightarrow> halves k \<Longrightarrow> even (length k) \<Longrightarrow> keys_ok (M(k := v))"
  by (cases v) (auto simp: keys_ok_def)

lemma key_cases:
  assumes "keys_ok M" and "M k = Some v" and "prefix p k"
  obtains "k = p" | i where "i < 16" and "prefix (p @ [i]) k"
proof -
  obtain t where t: "k = p @ t" using assms(3) by (auto simp: prefix_def)
  show ?thesis
  proof (cases t)
    case Nil
    then show ?thesis using that(1) t by simp
  next
    case (Cons i t')
    moreover have "halves k" using assms(1,2) by (auto simp: keys_ok_def)
    ultimately show ?thesis using that(2) [of i] t by auto
  qed
qed

lemma branch_unique: "prefix (p @ [i]) k \<Longrightarrow> prefix (p @ [j]) k \<Longrightarrow> i = j"
  by (auto simp: prefix_def)

lemma not_prefix_longer: "\<not> prefix (p @ [i]) p"
  by (metis append_self_conv not_Cons_self2 prefix_def prefix_order.antisym prefixI)

definition live :: "child list \<Rightarrow> nat set" where
  "live cs = {i. i \<le> 16 \<and> childtype (cs ! i) \<noteq> NONE}"

lemma live_info_of:
  assumes "keys_ok M"
  shows "live (info_of H ser M p) =
     {i. i < 16 \<and> dom (under (p @ [i]) M) \<noteq> {}} \<union> (if M p = None then {} else {16})"
proof -
  have "i \<le> 16 \<and> childtype (info_of H ser M p ! i) \<noteq> NONE \<longleftrightarrow>
      (i < 16 \<and> dom (under (p @ [i]) M) \<noteq> {}) \<or> (i = 16 \<and> M p \<noteq> None)" for i
    using assms by (cases "i < 16") (auto simp: canon_NONE_iff childtype_leafc le_less)
  then show ?thesis by (auto simp: live_def)
qed

lemma canon_no_branch:
  assumes "keys_ok M" and "live (info_of H ser M p) = {}"
  shows "dom (under p M) = {}" and "canon H ser (under p M) = Child_default"
proof -
  show "dom (under p M) = {}"
  proof (rule ccontr)
    assume "dom (under p M) \<noteq> {}"
    then obtain k v where "M k = Some v" "prefix p k" by (auto simp: dom_under)
    then show False
      using assms by (cases rule: key_cases [OF assms(1)])
        (auto simp: live_info_of dom_under split: if_splits)
  qed
  then show "canon H ser (under p M) = Child_default" by simp
qed

lemma one_branch_under:
  assumes "keys_ok M" and "live (info_of H ser M p) = {i}" and "i < 16"
  shows "under p M = under (p @ [i]) M"
proof (intro under_extend)
  fix k assume k: "prefix p k" "\<not> prefix (p @ [i]) k"
  show "M k = None"
  proof (rule ccontr)
    assume "M k \<noteq> None"
    then obtain v where v: "M k = Some v" by auto
    have "j \<noteq> 16 \<Longrightarrow> j < 16 \<Longrightarrow> prefix (p @ [j]) k \<Longrightarrow> j \<in> live (info_of H ser M p)" for j
      using v by (auto simp: live_info_of [OF assms(1)] dom_under)
    moreover have "k = p \<Longrightarrow> 16 \<in> live (info_of H ser M p)"
      using v by (simp add: live_info_of [OF assms(1)])
    ultimately show False
      using key_cases [OF assms(1) v k(1)] k(2) assms(2,3)
      by (metis less_irrefl singletonD)
  qed
qed simp

lemma only_leaf_under:
  assumes "keys_ok M" and "live (info_of H ser M p) = {i}" and "\<not> i < 16"
  shows "i = 16" and "dom (under p M) = {p}"
proof -
  have i: "i = 16" "M p \<noteq> None" "\<forall>j < 16. dom (under (p @ [j]) M) = {}"
    using assms by (auto simp: live_info_of split: if_splits)
  then obtain v where v: "M p = Some v" by auto
  have "k = p" if "M k = Some w" "prefix p k" for k w
    using that i(3) by (cases rule: key_cases [OF assms(1) that]) (auto simp: dom_under)
  then show "i = 16" "dom (under p M) = {p}"
    using v i by (auto simp: dom_under)
qed

lemma canon_one_branch:
  assumes "keys_ok M" and "live (info_of H ser M p) = {i}"
  shows "canon H ser (under p M) = info_of H ser M p ! i"
proof (cases "i < 16")
  case True
  then show ?thesis using one_branch_under [OF assms] by simp
next
  case False
  then show ?thesis
    using only_leaf_under [OF assms] by (simp add: canon_single leafc_def under_apply)
qed

lemma live_witness:
  assumes "keys_ok M" and "i \<in> live (info_of H ser M p)"
  obtains k where "k \<in> dom (under p M)" and "if i < 16 then prefix (p @ [i]) k else k = p"
proof -
  consider "i < 16" "dom (under (p @ [i]) M) \<noteq> {}" | "i = 16" "M p \<noteq> None"
    using assms by (auto simp: live_info_of split: if_splits)
  then show ?thesis
  proof cases
    case 1
    then obtain k where "k \<in> dom M" "prefix (p @ [i]) k" by (auto simp: dom_under)
    then show ?thesis using that [of k] 1 by (auto simp: dom_under dest: append_prefixD)
  next
    case 2
    then show ?thesis using that [of p] by (auto simp: dom_under)
  qed
qed

lemma LCP_branching:
  assumes "a \<in> S" and "b \<in> S" and "\<forall>k \<in> S. prefix p k" and "\<forall>i. \<not> (prefix (p @ [i]) a \<and> prefix (p @ [i]) b)"
  shows "Longest_common_prefix S = p"
proof -
  let ?q = "Longest_common_prefix S"
  have q: "prefix ?q a" "prefix ?q b" using assms by (auto intro: Longest_common_prefix_prefix)
  have "prefix p ?q" using assms by (intro Longest_common_prefix_max_prefix) auto
  then obtain t where t: "?q = p @ t" by (auto simp: prefix_def)
  show ?thesis
  proof (cases t)
    case (Cons i t')
    then have "prefix (p @ [i]) ?q" using t by simp
    then show ?thesis using q assms(4) prefix_order.trans by blast
  qed (simp add: t)
qed

lemma two_branches:
  assumes "keys_ok M" and "i \<in> live (info_of H ser M p)" and "j \<in> live (info_of H ser M p)" and "i \<noteq> j"
  shows "2 \<le> card (dom (under p M))" and "Longest_common_prefix (dom (under p M)) = p"
proof -
  obtain a where a: "a \<in> dom (under p M)" "if i < 16 then prefix (p @ [i]) a else a = p"
    using live_witness [OF assms(1,2)] .
  obtain b where b: "b \<in> dom (under p M)" "if j < 16 then prefix (p @ [j]) b else b = p"
    using live_witness [OF assms(1,3)] .
  have le: "i \<le> 16" "j \<le> 16" using assms by (auto simp: live_def)
  have d: "\<not> (prefix (p @ [x]) a \<and> prefix (p @ [x]) b)" for x
    using a(2) b(2) le assms(4) not_prefix_longer [of p] branch_unique [of p x]
    by (auto split: if_splits)
  then have "a \<noteq> b"
    using a(2) b(2) le assms(4) by (auto split: if_splits)
  then have "card {a, b} \<le> card (dom (under p M))"
    using a(1) b(1) assms(1) by (intro card_mono) auto
  then show "2 \<le> card (dom (under p M))" using \<open>a \<noteq> b\<close> by simp
  show "Longest_common_prefix (dom (under p M)) = p"
    using a(1) b(1) d by (intro LCP_branching [of a _ b]) (auto simp: dom_under)
qed

lemma info_of_under: "info_of H ser (under p M) p = info_of H ser M p"
  by (simp add: info_of_def under_under leafc_def under_apply)

lemma canon_branching:
  assumes "keys_ok M" and "i \<in> live (info_of H ser M p)" and "j \<in> live (info_of H ser M p)" and "i \<noteq> j"
  shows "canon H ser (under p M) =
     \<lparr>sublocation = pack p, hash = H (ser (info_of H ser M p)), childtype = INNER\<rparr>"
  using canon_inner [OF two_branches(1) [OF assms], of p] two_branches(2) [OF assms]
  by (simp add: info_of_under)

end
