(* ===== verification/Trie.thy ===== *)
theory Trie
  imports Merkle
begin

text \<open>
  The Merkle trie of src/src/ledger/trie.h, trie.cpp and its storage on a key-value database
  in kv_trie.h, kv_trie.cpp. A \<^verbatim>\<open>NodeFrm\<close> owns its children, so the nodes in memory form a
  tree; children that are not in memory are loaded when an operation reaches them. The virtual
  functions of \<^verbatim>\<open>Trie\<close> that read the storage are an argument of the operations (\<open>load\<close>,
  \<open>get_leaf\<close>), the ones that write it are recorded in the order of the calls (\<open>storage_op\<close>).
  \<open>None\<close> is the end of the process, by \<^verbatim>\<open>PROCESS_EXIT\<close> or an exception nobody catches, and fuel
  that ran out in the walks along a location.
\<close>

section \<open>Nodes\<close>

datatype node_frm = NodeFrm
  (location_of: location)
  (children: "node_frm option list")
  (info: "child list")
  (modified: bool)
  (leaf_deleted: bool)
  (leaf: "cstring option")

definition new_NodeFrm :: "location \<Rightarrow> node_frm" where
  "new_NodeFrm l = NodeFrm l (replicate 16 None) (replicate 17 Child_default) True False None"

fun set_modified :: "bool \<Rightarrow> node_frm \<Rightarrow> node_frm" where
  "set_modified b (NodeFrm l ch cs m d lf) = NodeFrm l ch cs b d lf"

text \<open>\<^verbatim>\<open>info_.mutable_children(i)\<close> assigned, and a child put back after a call changed it in place.\<close>

fun set_info :: "nat \<Rightarrow> child \<Rightarrow> node_frm \<Rightarrow> node_frm" where
  "set_info i c (NodeFrm l ch cs m d lf) = NodeFrm l ch (cs[i := c]) m d lf"

fun put_child :: "nat \<Rightarrow> node_frm \<Rightarrow> node_frm \<Rightarrow> node_frm" where
  "put_child i c (NodeFrm l ch cs m d lf) = NodeFrm l (ch[i := Some c]) cs m d lf"

fun SetValue :: "cstring \<Rightarrow> node_frm \<Rightarrow> node_frm" where
  "SetValue v (NodeFrm l ch cs m d lf) =
     NodeFrm l ch (cs[16 := (cs ! 16)\<lparr>childtype := LEAF, sublocation := l\<rparr>]) True False (Some v)"

fun MarkRemove :: "node_frm \<Rightarrow> node_frm" where
  "MarkRemove (NodeFrm l ch cs m d lf) = NodeFrm l ch (cs[16 := Child_default]) True True None"

fun SetChild :: "nat \<Rightarrow> node_frm \<Rightarrow> node_frm \<Rightarrow> node_frm" where
  "SetChild branch c (NodeFrm l ch cs m d lf) =
     NodeFrm l (ch[branch := Some c]) (cs[branch := (cs ! branch)\<lparr>sublocation := location_of c\<rparr>]) True d lf"

section \<open>Walks along a location\<close>

type_synonym loader = "location \<Rightarrow> child list option"

definition ChildMayFromDB :: "loader \<Rightarrow> node_frm \<Rightarrow> nat \<Rightarrow> (node_frm \<times> node_frm option) option" where
  "ChildMayFromDB load node branch =
     (case children node ! branch of
        Some c \<Rightarrow> Some (node, Some c)
      | None \<Rightarrow>
         let chd = info node ! branch;
             frm = set_modified False (new_NodeFrm (sublocation chd)) in
         (case childtype chd of
            NONE \<Rightarrow> Some (node, None)
          | LEAF \<Rightarrow> let frm = set_info 16 chd frm in Some (put_child branch frm node, Some frm)
          | INNER \<Rightarrow>
             (case load (sublocation chd) of
                None \<Rightarrow> None
              | Some i \<Rightarrow>
                 let frm = NodeFrm (sublocation chd) (children frm) i False False None in
                 Some (put_child branch frm node, Some frm))))"

primrec SetItem :: "loader \<Rightarrow> nat \<Rightarrow> node_frm \<Rightarrow> location \<Rightarrow> cstring \<Rightarrow> (bool \<times> node_frm) option" where
  "SetItem load 0 node location data = None"
| "SetItem load (Suc fuel) node location data =
     (let node = set_modified True node; location1 = location_of node in
      if location1 = location then Some (False, SetValue data node)
      else case NextBranch (CommonPrefix location1 location) location of
        None \<Rightarrow> None
      | Some branch \<Rightarrow>
     (case ChildMayFromDB load node branch of
        None \<Rightarrow> None
      | Some (node, None) \<Rightarrow>
          let newnode = SetValue data (new_NodeFrm location);
              node = SetChild branch newnode node in
          Some (True, set_info branch ((info node ! branch)\<lparr>childtype := LEAF\<rparr>) node)
      | Some (node, Some node2) \<Rightarrow>
          let child2 = info node ! branch;
              location2 = location_of node2;
              newcommon = CommonPrefix location location2 in
          if newcommon = location2 then
            (case SetItem load fuel node2 location data of
               None \<Rightarrow> None
             | Some (r, node2) \<Rightarrow> Some (r, put_child branch node2 node))
          else if newcommon = location then
            (case NextBranch newcommon location2 of
               None \<Rightarrow> None
             | Some b1 \<Rightarrow>
                 let newnode = SetValue data (new_NodeFrm location);
                     newnode = SetChild b1 node2 newnode;
                     newnode = set_info b1 child2 newnode;
                     node = SetChild branch newnode node in
                 Some (True, set_info branch ((info node ! branch)\<lparr>childtype := INNER\<rparr>) node))
          else
            (case (NextBranch newcommon location, NextBranch newcommon location2) of
               (Some b1, Some b2) \<Rightarrow>
                 let mnode = new_NodeFrm newcommon;
                     newnode = SetValue data (new_NodeFrm location);
                     mnode = SetChild b1 newnode mnode;
                     mnode = SetChild b2 node2 mnode;
                     mnode = set_info b2 child2 mnode in
                 Some (True, SetChild branch mnode node)
             | _ \<Rightarrow> None)))"

primrec DeleteItem :: "loader \<Rightarrow> nat \<Rightarrow> node_frm \<Rightarrow> location \<Rightarrow> (bool \<times> node_frm) option" where
  "DeleteItem load 0 node location = None"
| "DeleteItem load (Suc fuel) node location =
     (let location1 = location_of node in
      if length location1 > length location then Some (False, node)
      else if location = location1 then Some (True, MarkRemove node)
      else case NextBranch (CommonPrefix location1 location) location of
        None \<Rightarrow> None
      | Some branch \<Rightarrow>
     (case ChildMayFromDB load node branch of
        None \<Rightarrow> None
      | Some (node, None) \<Rightarrow> Some (False, node)
      | Some (node, Some node2) \<Rightarrow>
          let location2 = location_of node2 in
          if location2 \<noteq> CommonPrefix location2 location then Some (False, node)
          else (case DeleteItem load fuel node2 location of
                  None \<Rightarrow> None
                | Some (ret, node2) \<Rightarrow>
                    Some (ret, set_modified (modified node \<or> ret) (put_child branch node2 node)))))"

primrec Exists :: "loader \<Rightarrow> nat \<Rightarrow> node_frm \<Rightarrow> location \<Rightarrow> (bool \<times> node_frm) option" where
  "Exists load 0 node key = None"
| "Exists load (Suc fuel) node key =
     (if location_of node = key then Some (True, node)
      else case NextBranch (CommonPrefix (location_of node) key) key of
        None \<Rightarrow> None
      | Some branch \<Rightarrow>
          if childtype (info node ! branch) = NONE then Some (False, node)
          else let location2 = sublocation (info node ! branch) in
          if CommonPrefix location2 key \<noteq> location2 then Some (False, node)
          else (case ChildMayFromDB load node branch of
                  Some (node, Some c) \<Rightarrow>
                    (case Exists load fuel c key of
                       None \<Rightarrow> None
                     | Some (r, c) \<Rightarrow> Some (r, put_child branch c node))
                | _ \<Rightarrow> None))"

primrec getNode :: "loader \<Rightarrow> nat \<Rightarrow> node_frm \<Rightarrow> location \<Rightarrow> (child list \<times> node_frm) option" where
  "getNode load 0 node location = None"
| "getNode load (Suc fuel) node location =
     (if location_of node = location then Some (info node, node)
      else case NextBranch (CommonPrefix location (location_of node)) location of
        None \<Rightarrow> None
      | Some branch \<Rightarrow>
     (case ChildMayFromDB load node branch of
        None \<Rightarrow> None
      | Some (node, None) \<Rightarrow> Some ([], node)
      | Some (node, Some frm) \<Rightarrow>
          (case getNode load fuel frm location of
             None \<Rightarrow> None
           | Some (r, frm) \<Rightarrow> Some (r, put_child branch frm node))))"

section \<open>Hashing\<close>

datatype storage_op =
    StorageSaveNode location "child list"
  | StorageSaveLeaf location cstring
  | StorageDeleteNode location
  | StorageDeleteLeaf location

definition rootl :: location where "rootl = [0]"

text \<open>The leaf part of \<^verbatim>\<open>update_hash\<close>: the new entry for branch 16 and the storage call.\<close>

definition update_leaf ::
  "(cstring \<Rightarrow> cstring) \<Rightarrow> location \<Rightarrow> bool \<Rightarrow> cstring option \<Rightarrow> child \<Rightarrow> child \<times> storage_op list" where
  "update_leaf HashCrypto l d lf c16 =
     (if \<not> d then
        (case lf of
           None \<Rightarrow> (c16, [])
         | Some v \<Rightarrow> (c16\<lparr>sublocation := l, hash := HashCrypto v, childtype := LEAF\<rparr>, [StorageSaveLeaf l v]))
      else (Child_default, [StorageDeleteLeaf l]))"

text \<open>The last part of \<^verbatim>\<open>update_hash\<close>: what is reported to the parent, and the storage call.\<close>

definition update_result ::
  "(cstring \<Rightarrow> cstring) \<Rightarrow> (child list \<Rightarrow> cstring) \<Rightarrow> location \<Rightarrow> child list \<Rightarrow> child \<times> storage_op" where
  "update_result HashCrypto ser l cs =
     (let branches = filter (\<lambda>i. childtype (cs ! i) \<noteq> NONE) (16 # [0..<16]) in
      if length branches = 0 \<and> l \<noteq> rootl then (Child_default, StorageDeleteNode l)
      else if length branches = 1 \<and> l \<noteq> rootl then (cs ! last branches, StorageDeleteNode l)
      else (\<lparr>sublocation = l, hash = HashCrypto (ser cs), childtype = INNER\<rparr>, StorageSaveNode l cs))"

fun update_hash ::
  "(cstring \<Rightarrow> cstring) \<Rightarrow> (child list \<Rightarrow> cstring) \<Rightarrow> node_frm \<Rightarrow> child \<times> node_frm \<times> storage_op list" where
  "update_hash HashCrypto ser (NodeFrm l ch cs m d lf) =
     (let (c16, leaf_ops) = update_leaf HashCrypto l d lf (cs ! 16);
          rs = map (\<lambda>co. case co of
                 None \<Rightarrow> None
               | Some c \<Rightarrow> if modified c then Some (update_hash HashCrypto ser c) else None) ch;
          ch2 = map2 (\<lambda>co r. case r of None \<Rightarrow> co | Some (_, c, _) \<Rightarrow> Some c) ch rs;
          cs2 = map2 (\<lambda>x r. case r of None \<Rightarrow> x | Some (e, _, _) \<Rightarrow> e) (take 16 cs) rs @ [c16];
          child_ops = concat (map (\<lambda>r. case r of None \<Rightarrow> [] | Some (_, _, ops) \<Rightarrow> ops) rs);
          (result, node_op) = update_result HashCrypto ser l cs2 in
      (result, NodeFrm l ch2 cs2 False d lf, leaf_ops @ child_ops @ [node_op]))"

section \<open>Reading all values under a location from the storage\<close>

primrec StorageAssociated ::
  "loader \<Rightarrow> (location \<Rightarrow> cstring option) \<Rightarrow> nat \<Rightarrow> location \<Rightarrow> cstring list option" where
  "StorageAssociated load get_leaf 0 location = None"
| "StorageAssociated load get_leaf (Suc fuel) location =
     (case load location of
        None \<Rightarrow> Some []
      | Some cs \<Rightarrow>
          let own = (if childtype (cs ! 16) = LEAF then [case get_leaf location of None \<Rightarrow> [] | Some v \<Rightarrow> v] else []);
              parts = map (\<lambda>i. let chd = cs ! i in
                 case childtype chd of
                   NONE \<Rightarrow> Some []
                 | INNER \<Rightarrow> StorageAssociated load get_leaf fuel (sublocation chd)
                 | LEAF \<Rightarrow> Some [case get_leaf (sublocation chd) of None \<Rightarrow> [] | Some v \<Rightarrow> v]) [0..<16] in
          if None \<in> set parts then None else Some (own @ concat (map the parts)))"

primrec GetAllItem ::
  "loader \<Rightarrow> (location \<Rightarrow> cstring option) \<Rightarrow> nat \<Rightarrow> location \<Rightarrow> location \<Rightarrow> cstring list option" where
  "GetAllItem load get_leaf 0 node location = None"
| "GetAllItem load get_leaf (Suc fuel) node location =
     (case load node of
        None \<Rightarrow> Some []
      | Some cs \<Rightarrow>
          let common = CommonPrefix node location in
          if common = location then StorageAssociated load get_leaf (Suc fuel) node
          else if common = node then
            (case NextBranch common location of
               None \<Rightarrow> None
             | Some nextbranch \<Rightarrow> GetAllItem load get_leaf fuel (sublocation (cs ! nextbranch)) location)
          else Some [])"

section \<open>Releasing and loading nodes\<close>

fun Release :: "int \<Rightarrow> node_frm \<Rightarrow> node_frm" where
  "Release depth (NodeFrm l ch cs m d lf) =
     NodeFrm l (map (\<lambda>co. case co of
                  None \<Rightarrow> None
                | Some c \<Rightarrow> if depth \<le> 0 then None else Some (Release (depth - 1) c)) ch) cs m d lf"

primrec Load :: "loader \<Rightarrow> nat \<Rightarrow> node_frm \<Rightarrow> node_frm option" where
  "Load load 0 node = Some node"
| "Load load (Suc depth) node =
     fold (\<lambda>i st. case st of
        None \<Rightarrow> None
      | Some node \<Rightarrow>
         (case ChildMayFromDB load node i of
            None \<Rightarrow> None
          | Some (node, None) \<Rightarrow> Some node
          | Some (node, Some c) \<Rightarrow> map_option (\<lambda>c. put_child i c node) (Load load depth c)))
       [0..<16] (Some node)"

section \<open>The trie on a key-value database\<close>

text \<open>
  The code the sources only call: the hash function (\<^verbatim>\<open>HashWrapper::Crypto\<close>) and the protobuf
  serialization of \<^verbatim>\<open>protocol::Node\<close>.
\<close>

record trie_env =
  HashCrypto :: "cstring \<Rightarrow> cstring"
  SerializeAsString :: "child list \<Rightarrow> cstring"
  ParseFromString :: "cstring \<Rightarrow> child list"

datatype batch_op = Put cstring cstring | Del_key cstring

record kv_trie =
  root :: node_frm
  root_hash :: cstring
  mdb :: "cstring \<rightharpoonup> cstring"
  prefix_str :: cstring
  batch :: "batch_op list"

definition Location2DBkey :: "cstring \<Rightarrow> location \<Rightarrow> bool \<Rightarrow> cstring" where
  "Location2DBkey pre location is_leaf = pre @ (if is_leaf then location[0 := LEAF_PREFIX] else location)"

definition storage_load :: "trie_env \<Rightarrow> cstring \<Rightarrow> (cstring \<rightharpoonup> cstring) \<Rightarrow> loader" where
  "storage_load E pre db location = map_option (ParseFromString E) (db (Location2DBkey pre location False))"

definition StorageGetLeaf :: "cstring \<Rightarrow> (cstring \<rightharpoonup> cstring) \<Rightarrow> location \<Rightarrow> cstring option" where
  "StorageGetLeaf pre db location = db (Location2DBkey pre location True)"

fun storage_batch :: "trie_env \<Rightarrow> cstring \<Rightarrow> storage_op \<Rightarrow> batch_op" where
  "storage_batch E pre (StorageSaveNode l cs) = Put (Location2DBkey pre l False) (SerializeAsString E cs)"
| "storage_batch E pre (StorageSaveLeaf l v) = Put (Location2DBkey pre l True) v"
| "storage_batch E pre (StorageDeleteNode l) = Del_key (Location2DBkey pre l False)"
| "storage_batch E pre (StorageDeleteLeaf l) = Del_key (Location2DBkey pre l True)"

fun write_op :: "batch_op \<Rightarrow> (cstring \<rightharpoonup> cstring) \<Rightarrow> (cstring \<rightharpoonup> cstring)" where
  "write_op (Put k v) db = db(k \<mapsto> v)"
| "write_op (Del_key k) db = db(k := None)"

definition WriteBatch :: "batch_op list \<Rightarrow> (cstring \<rightharpoonup> cstring) \<Rightarrow> (cstring \<rightharpoonup> cstring)" where
  "WriteBatch = fold write_op"

definition Init :: "trie_env \<Rightarrow> (cstring \<rightharpoonup> cstring) \<Rightarrow> batch_op list \<Rightarrow> cstring \<Rightarrow> int \<Rightarrow> kv_trie option" where
  "Init E db b pre depth =
     (let root0 = new_NodeFrm rootl;
          mk = (\<lambda>r. \<lparr>root = r, root_hash = [], mdb = db, prefix_str = pre, batch = b\<rparr>) in
      case storage_load E pre db rootl of
        None \<Rightarrow> Some (mk root0)
      | Some cs \<Rightarrow>
          map_option mk (Load (storage_load E pre db) (nat (depth + 1)) (NodeFrm rootl (children root0) cs True False None)))"

definition AddToDB :: "kv_trie \<Rightarrow> kv_trie" where
  "AddToDB t = t\<lparr>mdb := WriteBatch (batch t) (mdb t), batch := []\<rparr>"

text \<open>Fuel for a walk along the location of a key: one step for each half byte and two more.\<close>

definition walk_fuel :: "cstring \<Rightarrow> nat" where
  "walk_fuel key = 2 * length key + 2"

definition Set_key :: "trie_env \<Rightarrow> kv_trie \<Rightarrow> cstring \<Rightarrow> cstring \<Rightarrow> (bool \<times> kv_trie) option" where
  "Set_key E t key value =
     map_option (\<lambda>(r, n). (r, t\<lparr>root := n\<rparr>))
       (SetItem (storage_load E (prefix_str t) (mdb t)) (walk_fuel key) (root t) (Key2Location key) value)"

definition Delete_key :: "trie_env \<Rightarrow> kv_trie \<Rightarrow> cstring \<Rightarrow> (bool \<times> kv_trie) option" where
  "Delete_key E t key =
     map_option (\<lambda>(r, n). (r, t\<lparr>root := n\<rparr>))
       (DeleteItem (storage_load E (prefix_str t) (mdb t)) (walk_fuel key) (root t) (Key2Location key))"

definition Get_key :: "trie_env \<Rightarrow> kv_trie \<Rightarrow> cstring \<Rightarrow> (cstring option \<times> kv_trie) option" where
  "Get_key E t key =
     map_option (\<lambda>(r, n). (if r then StorageGetLeaf (prefix_str t) (mdb t) (Key2Location key) else None, t\<lparr>root := n\<rparr>))
       (Exists (storage_load E (prefix_str t) (mdb t)) (walk_fuel key) (root t) (Key2Location key))"

definition GetAll :: "trie_env \<Rightarrow> nat \<Rightarrow> kv_trie \<Rightarrow> cstring \<Rightarrow> cstring list option" where
  "GetAll E fuel t key =
     GetAllItem (storage_load E (prefix_str t) (mdb t)) (StorageGetLeaf (prefix_str t) (mdb t)) fuel
       (Key2Location []) (Key2Location key)"

definition GetNode :: "trie_env \<Rightarrow> nat \<Rightarrow> kv_trie \<Rightarrow> location \<Rightarrow> (child list \<times> kv_trie) option" where
  "GetNode E fuel t location =
     map_option (\<lambda>(r, n). (r, t\<lparr>root := n\<rparr>))
       (getNode (storage_load E (prefix_str t) (mdb t)) fuel (root t) (if location = [] then [0] else location))"

definition UpdateHash :: "trie_env \<Rightarrow> kv_trie \<Rightarrow> kv_trie" where
  "UpdateHash E t =
     (let (r, n, ops) = update_hash (HashCrypto E) (SerializeAsString E) (root t) in
      t\<lparr>root := n, root_hash := hash r, batch := batch t @ map (storage_batch E (prefix_str t)) ops\<rparr>)"

definition FreeMemory :: "int \<Rightarrow> kv_trie \<Rightarrow> kv_trie" where
  "FreeMemory depth t = t\<lparr>root := Release depth (root t)\<rparr>"

definition GetRootHash :: "kv_trie \<Rightarrow> cstring" where
  "GetRootHash t = root_hash t"

end
