(* ===== verification/Trie_Inv.thy ===== *)
theory Trie_Inv
  imports Trie
begin

text \<open>
  The representation invariant of the trie in memory and on disk. \<open>good V M n\<close> says that the node
  \<open>n\<close> and the storage views \<open>V\<close> together represent the content \<open>M\<close> below the node's location:
  entries of clean children and of children that are not in memory are the canonical ones, the
  storage holds the canonical inner nodes and the leaves below them, and a modified child has a
  modified parent. The views are the hash function and the serialization, the database as the
  operations read it, and the database with the pending batch written to it.
\<close>

record store_view =
  v_hash :: "cstring \<Rightarrow> cstring"
  v_ser :: "child list \<Rightarrow> cstring"
  v_load :: loader
  v_node :: loader
  v_leaf :: "nat list \<Rightarrow> cstring option"

definition entry :: "store_view \<Rightarrow> content \<Rightarrow> nat list \<Rightarrow> child" where
  "entry V M q = canon (v_hash V) (v_ser V) (under q M)"

definition node_info :: "store_view \<Rightarrow> content \<Rightarrow> nat list \<Rightarrow> child list" where
  "node_info V M p = info_of (v_hash V) (v_ser V) M p"

definition is_key :: "nat list \<Rightarrow> bool" where
  "is_key k \<longleftrightarrow> halves k \<and> even (length k)"

text \<open>\<open>branching M p\<close>: the content has an inner node at \<open>p\<close>.\<close>

definition branching :: "content \<Rightarrow> nat list \<Rightarrow> bool" where
  "branching M p \<longleftrightarrow> 2 \<le> card (dom (under p M)) \<and> Longest_common_prefix (dom (under p M)) = p"

definition nodes_stored :: "store_view \<Rightarrow> loader \<Rightarrow> content \<Rightarrow> nat list \<Rightarrow> bool" where
  "nodes_stored V ld M q \<longleftrightarrow>
     (\<forall>p. prefix q p \<longrightarrow> halves p \<longrightarrow> branching M p \<longrightarrow> ld (pack p) = Some (node_info V M p))"

definition leaves_stored :: "store_view \<Rightarrow> content \<Rightarrow> nat list \<Rightarrow> bool" where
  "leaves_stored V M q \<longleftrightarrow> (\<forall>k. prefix q k \<longrightarrow> is_key k \<longrightarrow> v_leaf V k = M k)"

definition written :: "store_view \<Rightarrow> content \<Rightarrow> nat list \<Rightarrow> bool" where
  "written V M q \<longleftrightarrow> nodes_stored V (v_node V) M q \<and> leaves_stored V M q"

definition settled :: "store_view \<Rightarrow> content \<Rightarrow> nat list \<Rightarrow> bool" where
  "settled V M q \<longleftrightarrow> nodes_stored V (v_load V) M q \<and> written V M q"

definition leaf_ok :: "store_view \<Rightarrow> content \<Rightarrow> nat list \<Rightarrow> bool \<Rightarrow> bool \<Rightarrow> cstring option \<Rightarrow> child \<Rightarrow> bool" where
  "leaf_ok V M p m d lf c16 \<longleftrightarrow>
     (d \<or> lf \<noteq> None \<longrightarrow> is_key p) \<and>
     (d \<longrightarrow> lf = None \<and> M p = None \<and> c16 = Child_default) \<and>
     (\<forall>v. lf = Some v \<longrightarrow> M p = Some v) \<and>
     (\<not> m \<or> (\<not> d \<and> lf = None) \<longrightarrow> c16 = leafc (v_hash V) M p \<and> (is_key p \<longrightarrow> v_leaf V p = M p))"

definition branch_ok :: "store_view \<Rightarrow> content \<Rightarrow> nat list \<Rightarrow> bool \<Rightarrow> node_frm option \<Rightarrow> child \<Rightarrow> bool" where
  "branch_ok V M q m co e \<longleftrightarrow>
     (case co of
        None \<Rightarrow> e = entry V M q \<and> settled V M q
      | Some c \<Rightarrow> prefix q (nib (location_of c)) \<and> wf_loc (location_of c) \<and>
          (\<forall>k. is_key k \<longrightarrow> prefix q k \<longrightarrow> \<not> prefix (nib (location_of c)) k \<longrightarrow> M k = None \<and> v_leaf V k = None) \<and>
          (modified c \<longrightarrow> m) \<and> (\<not> modified c \<longrightarrow> e = entry V M q \<and> written V M q))"

fun good :: "store_view \<Rightarrow> content \<Rightarrow> node_frm \<Rightarrow> bool" where
  "good V M (NodeFrm l ch cs m d lf) \<longleftrightarrow>
     wf_loc l \<and> length ch = 16 \<and> length cs = 17 \<and> leaf_ok V M (nib l) m d lf (cs ! 16) \<and>
     (\<forall>i < 16. branch_ok V M (nib l @ [i]) m (ch ! i) (cs ! i)) \<and>
     (\<forall>co \<in> set ch. case co of None \<Rightarrow> True | Some c \<Rightarrow> good V M c)"

declare good.simps [simp del]

lemma good_parts:
  assumes "good V M (NodeFrm l ch cs m d lf)"
  shows "wf_loc l" and "length ch = 16" and "length cs = 17" and "leaf_ok V M (nib l) m d lf (cs ! 16)"
    and "i < 16 \<Longrightarrow> branch_ok V M (nib l @ [i]) m (ch ! i) (cs ! i)"
    and "i < 16 \<Longrightarrow> ch ! i = Some c \<Longrightarrow> good V M c"
proof -
  have "\<forall>co \<in> set ch. case co of None \<Rightarrow> True | Some c \<Rightarrow> good V M c" and len: "length ch = 16"
    using assms by (simp_all add: good.simps)
  then show "i < 16 \<Longrightarrow> ch ! i = Some c \<Longrightarrow> good V M c"
    by (metis nth_mem option.simps(5))
qed (use assms in \<open>simp_all add: good.simps\<close>)

lemma good_intro:
  assumes "wf_loc l" and "length ch = 16" and "length cs = 17" and "leaf_ok V M (nib l) m d lf (cs ! 16)"
    and "\<And>i. i < 16 \<Longrightarrow> branch_ok V M (nib l @ [i]) m (ch ! i) (cs ! i)"
    and "\<And>i c. i < 16 \<Longrightarrow> ch ! i = Some c \<Longrightarrow> good V M c"
  shows "good V M (NodeFrm l ch cs m d lf)"
proof -
  have "case co of None \<Rightarrow> True | Some c \<Rightarrow> good V M c" if "co \<in> set ch" for co
    using that assms(2,6) by (auto simp: in_set_conv_nth split: option.splits)
  then show ?thesis using assms by (simp add: good.simps)
qed

lemma good_wf: "good V M n \<Longrightarrow> wf_loc (location_of n)"
  by (cases n) (simp add: good.simps)

lemma branch_ok_Some:
  assumes "branch_ok V M q m (Some c) e"
  shows "prefix q (nib (location_of c))" and "wf_loc (location_of c)"
    and "is_key k \<Longrightarrow> prefix q k \<Longrightarrow> \<not> prefix (nib (location_of c)) k \<Longrightarrow> M k = None"
    and "is_key k \<Longrightarrow> prefix q k \<Longrightarrow> \<not> prefix (nib (location_of c)) k \<Longrightarrow> v_leaf V k = None"
    and "modified c \<Longrightarrow> m" and "\<not> modified c \<Longrightarrow> e = entry V M q" and "\<not> modified c \<Longrightarrow> written V M q"
  using assms by (auto simp: branch_ok_def)

lemma branch_ok_None:
  assumes "branch_ok V M q m None e"
  shows "e = entry V M q" and "settled V M q"
  using assms by (auto simp: branch_ok_def)

section \<open>The invariant depends on the content and the storage below the location only\<close>

definition agree :: "nat list \<Rightarrow> store_view \<Rightarrow> store_view \<Rightarrow> bool" where
  "agree q V V' \<longleftrightarrow> v_hash V' = v_hash V \<and> v_ser V' = v_ser V \<and> v_load V' = v_load V \<and>
     (\<forall>p. prefix q p \<longrightarrow> halves p \<longrightarrow> v_node V' (pack p) = v_node V (pack p)) \<and>
     (\<forall>k. prefix q k \<longrightarrow> is_key k \<longrightarrow> v_leaf V' k = v_leaf V k)"

lemma agree_refl [simp]: "agree q V V"
  by (simp add: agree_def)

lemma agree_mono: "agree q V V' \<Longrightarrow> prefix q r \<Longrightarrow> agree r V V'"
  by (auto simp: agree_def intro: prefix_order.trans)

lemma under_mono: "under q M = under q M' \<Longrightarrow> prefix q r \<Longrightarrow> under r M = under r M'"
  by (metis under_under)

lemma under_same: "under q M = under q M' \<Longrightarrow> prefix q k \<Longrightarrow> M k = M' k"
  by (metis under_apply)

lemma node_info_cong:
  assumes "agree q V V'" and "under q M = under q M'" and "prefix q p"
  shows "node_info V M p = node_info V' M' p"
  using assms under_mono [OF assms(2,3)]
  by (metis agree_def info_of_under node_info_def)

lemma written_cong:
  assumes "agree q V V'" and "under q M = under q M'"
  shows "written V M q \<longleftrightarrow> written V' M' q"
proof -
  have "node_info V M p = node_info V' M' p" "branching M p = branching M' p"
    "halves p \<Longrightarrow> v_node V' (pack p) = v_node V (pack p)" if "prefix q p" for p
    using that node_info_cong [OF assms] under_mono [OF assms(2)] assms(1)
    by (auto simp: branching_def agree_def)
  then have "nodes_stored V (v_node V) M q = nodes_stored V' (v_node V') M' q"
    by (simp add: nodes_stored_def)
  moreover have "leaves_stored V M q = leaves_stored V' M' q"
    using assms under_same [OF assms(2)] by (simp add: leaves_stored_def agree_def)
  ultimately show ?thesis by (simp add: written_def)
qed

lemma settled_cong:
  assumes "agree q V V'" and "under q M = under q M'"
  shows "settled V M q \<longleftrightarrow> settled V' M' q"
proof -
  have "node_info V M p = node_info V' M' p" "branching M p = branching M' p" if "prefix q p" for p
    using that node_info_cong [OF assms] under_mono [OF assms(2)] by (auto simp: branching_def)
  moreover have "v_load V' = v_load V" using assms by (simp add: agree_def)
  ultimately show ?thesis
    using written_cong [OF assms] by (simp add: settled_def nodes_stored_def)
qed

lemma entry_cong: "agree q V V' \<Longrightarrow> under q M = under q M' \<Longrightarrow> entry V M q = entry V' M' q"
  by (simp add: entry_def agree_def)

lemma branch_ok_cong:
  assumes "agree q V V'" and "under q M = under q M'"
  shows "branch_ok V M q m co e \<longleftrightarrow> branch_ok V' M' q m co e"
  using assms under_same [OF assms(2)] entry_cong [OF assms] written_cong [OF assms] settled_cong [OF assms]
  by (auto simp: branch_ok_def agree_def split: option.splits)

lemma leaf_ok_cong:
  assumes "agree p V V'" and "under p M = under p M'"
  shows "leaf_ok V M p m d lf c16 \<longleftrightarrow> leaf_ok V' M' p m d lf c16"
  using assms under_same [OF assms(2), of p] by (auto simp: leaf_ok_def leafc_def agree_def)

lemma good_cong:
  assumes "agree (nib (location_of n)) V V'" and "under (nib (location_of n)) M = under (nib (location_of n)) M'"
    and "good V M n"
  shows "good V' M' n"
  using assms
proof (induction n)
  case (NodeFrm l ch cs m d lf)
  let ?p = "nib l"
  have pre: "agree ?p V V'" "under ?p M = under ?p M'" using NodeFrm.prems(1,2) by simp_all
  note g = good_parts [OF NodeFrm.prems(3)]
  show ?case
  proof (rule good_intro)
    show "branch_ok V' M' (?p @ [i]) m (ch ! i) (cs ! i)" if "i < 16" for i
      using g(5) [OF that] branch_ok_cong [OF agree_mono [OF pre(1)] under_mono [OF pre(2)]] by auto
    fix i c assume i: "i < 16" "ch ! i = Some c"
    then have mem: "Some c \<in> set ch" using g(2) by (metis nth_mem)
    have "prefix (?p @ [i]) (nib (location_of c))"
      using branch_ok_Some(1) g(5) [OF i(1)] i(2) by metis
    then have "prefix ?p (nib (location_of c))" by (auto dest: append_prefixD)
    then show "good V' M' c"
      using NodeFrm.IH [OF mem, of c] g(6) [OF i] agree_mono [OF pre(1)] under_mono [OF pre(2)] by simp
  qed (use g(1-4) leaf_ok_cong [OF pre] in \<open>simp_all\<close>)
qed

section \<open>Consequences for one branch\<close>

lemma settled_mono: "settled V M q \<Longrightarrow> prefix q r \<Longrightarrow> settled V M r"
  by (auto simp: settled_def written_def nodes_stored_def leaves_stored_def intro: prefix_order.trans)

lemma written_mono: "written V M q \<Longrightarrow> prefix q r \<Longrightarrow> written V M r"
  by (auto simp: written_def nodes_stored_def leaves_stored_def intro: prefix_order.trans)

lemma empty_not_branching:
  assumes "dom (under q M) = {}" and "prefix q p"
  shows "\<not> branching M p"
proof -
  have "dom (under p M) = {}"
    using assms prefix_order.trans [OF assms(2)] by (auto simp: dom_under)
  then have "card (dom (under p M)) = 0" by (metis card.empty)
  then show ?thesis by (simp add: branching_def)
qed

lemma settled_empty:
  assumes "dom (under q M) = {}" and "\<And>k. prefix q k \<Longrightarrow> is_key k \<Longrightarrow> v_leaf V k = None"
  shows "settled V M q"
  using assms(2) empty_not_branching [OF assms(1)] iffD1 [OF under_empty_iff assms(1)]
  by (simp add: settled_def written_def nodes_stored_def leaves_stored_def)

lemma leaf_ok_mono: "leaf_ok V M p m d lf c \<Longrightarrow> (m \<Longrightarrow> m') \<Longrightarrow> leaf_ok V M p m' d lf c"
  by (auto simp: leaf_ok_def)

lemma branch_ok_mono: "branch_ok V M q m co e \<Longrightarrow> (m \<Longrightarrow> m') \<Longrightarrow> branch_ok V M q m' co e"
  by (auto simp: branch_ok_def split: option.splits)

lemma good_upd_branch:
  assumes g: "good V M (NodeFrm l ch cs m d lf)" and i: "i < 16" and k: "prefix (nib l @ [i]) k"
    and m: "m \<Longrightarrow> m'" and b: "branch_ok V (M(k := x)) (nib l @ [i]) m' (Some c) e"
    and c: "good V (M(k := x)) c"
  shows "good V (M(k := x)) (NodeFrm l (ch[i := Some c]) (cs[i := e]) m' d lf)"
proof -
  let ?p = "nib l" and ?M = "M(k := x)"
  note gp = good_parts [OF g]
  have "\<not> prefix (?p @ [j]) k" if "j \<noteq> i" for j
    using branch_unique [OF k] that by metis
  then have other: "under (?p @ [j]) M = under (?p @ [j]) ?M" if "j \<noteq> i" for j
    using under_upd_other that by metis
  have kp: "k \<noteq> ?p" using k not_prefix_longer by metis
  show ?thesis
  proof (rule good_intro)
    have "?M ?p = M ?p" "cs[i := e] ! 16 = cs ! 16" using kp i by auto
    then show "leaf_ok V ?M ?p m' d lf (cs[i := e] ! 16)"
      using leaf_ok_mono [OF gp(4), of m'] m by (simp add: leaf_ok_def leafc_def)
    show "branch_ok V ?M (?p @ [j]) m' (ch[i := Some c] ! j) (cs[i := e] ! j)" if "j < 16" for j
    proof (cases "j = i")
      case True
      then show ?thesis using b gp(2,3) i by simp
    next
      case False
      have "branch_ok V M (?p @ [j]) m' (ch ! j) (cs ! j)"
        using branch_ok_mono [OF gp(5) [OF that]] m by blast
      then show ?thesis
        using False branch_ok_cong [OF agree_refl other [OF False]] by simp
    qed
    fix j c' assume j: "j < 16" "ch[i := Some c] ! j = Some c'"
    show "good V ?M c'"
    proof (cases "j = i")
      case False
      then have cj: "ch ! j = Some c'" using j by simp
      then have "prefix (?p @ [j]) (nib (location_of c'))"
        using branch_ok_Some(1) gp(5) [OF j(1)] by metis
      then show ?thesis
        using under_mono [OF other [OF False]] by (intro good_cong [OF agree_refl _ gp(6) [OF j(1) cj]])
    qed (use c j gp(2) i in simp)
  qed (use gp in simp_all)
qed

end
