(* ===== verification/Trie_Ops.thy ===== *)
theory Trie_Ops
  imports Trie_Inv
begin

text \<open>
  The walks of the trie (loading a child, setting, deleting and looking up an item) keep the
  representation invariant for the content with the item set, deleted or left alone, and they
  return with fuel for one step per half byte of the key.
\<close>

section \<open>Loading a child\<close>

lemma entry_cases:
  assumes "keys_ok M"
  obtains (empty) "dom (under q M) = {}" and "entry V M q = Child_default"
  | (single) k v where "dom (under q M) = {k}" and "M k = Some v" and "prefix q k" and "is_key k"
      and "entry V M q = \<lparr>sublocation = pack k, hash = v_hash V v, childtype = LEAF\<rparr>"
  | (inner) p where "prefix q p" and "halves p" and "branching M p" and "under q M = under p M"
      and "entry V M q = \<lparr>sublocation = pack p, hash = v_hash V (v_ser V (node_info V M p)), childtype = INNER\<rparr>"
proof -
  have "finite (dom (under q M))" using assms by simp
  then show ?thesis
  proof (cases rule: card_cases)
    case 1
    then show ?thesis using empty by (simp add: entry_def)
  next
    case (2 k)
    then have "k \<in> dom (under q M)" by simp
    then obtain v where v: "M k = Some v" "prefix q k" by (auto simp: dom_under)
    then have "is_key k" using assms by (auto simp: keys_ok_def is_key_def)
    then show ?thesis
      using single [OF 2 v] v 2 by (simp add: entry_def canon_single leafc_def under_apply)
  next
    case 3
    let ?S = "dom (under q M)" and ?p = "Longest_common_prefix (dom (under q M))"
    have ne: "?S \<noteq> {}" using 3 by auto
    then obtain k where k: "k \<in> ?S" by blast
    have qp: "prefix q ?p" using ne by (intro Longest_common_prefix_max_prefix) (auto simp: dom_under)
    have "prefix ?p k" using k by (rule Longest_common_prefix_prefix)
    moreover have "halves k" using k assms by (auto simp: keys_ok_def dom_under)
    ultimately have "halves ?p" by (meson set_mono_prefix order_trans)
    have eq: "under q M = under ?p M"
    proof (rule under_extend [OF qp], rule ccontr)
      fix k assume "prefix q k" "\<not> prefix ?p k" "M k \<noteq> None"
      then show False using Longest_common_prefix_prefix [of k ?S] by (auto simp: dom_under)
    qed
    have info: "info_of H ser (under q M) ?p = info_of H ser M ?p" for H ser
      using eq info_of_under by metis
    have "branching M ?p" using 3 eq by (simp add: branching_def)
    moreover have "entry V M q = \<lparr>sublocation = pack ?p, hash = v_hash V (v_ser V (node_info V M ?p)), childtype = INNER\<rparr>"
      using canon_inner [OF 3 refl, of "v_hash V" "v_ser V"] info
      by (simp add: entry_def node_info_def)
    ultimately show ?thesis using inner [OF qp \<open>halves ?p\<close> _ eq] by blast
  qed
qed

lemma branch_ok_loaded:
  assumes "settled V M q" and "prefix q p" and "halves p" and "under q M = under p M"
    and "location_of c = pack p" and "\<not> modified c"
  shows "branch_ok V M q m (Some c) (entry V M q)"
proof -
  have "M k = None \<and> v_leaf V k = None" if "is_key k" "prefix q k" "\<not> prefix p k" for k
  proof -
    have "M k = None" using that assms(4) by (metis under_apply)
    then show ?thesis using that assms(1) by (simp add: settled_def written_def leaves_stored_def)
  qed
  then show ?thesis
    using assms by (simp add: branch_ok_def settled_def)
qed

lemma good_loaded:
  assumes "settled V M q" and "prefix q p" and "halves p" and "length cs = 17"
    and "\<And>i. i < 16 \<Longrightarrow> cs ! i = entry V M (p @ [i])" and "cs ! 16 = leafc (v_hash V) M p"
  shows "good V M (NodeFrm (pack p) (replicate 16 None) cs m False None)"
proof (rule good_intro)
  show "leaf_ok V M (nib (pack p)) m False None (cs ! 16)"
    using assms by (simp add: leaf_ok_def settled_def written_def leaves_stored_def)
  show "branch_ok V M (nib (pack p) @ [i]) m (replicate 16 None ! i) (cs ! i)" if "i < 16" for i
    using assms that settled_mono [OF assms(1), of "p @ [i]"]
    by (simp add: branch_ok_def prefix_order.trans [OF assms(2)])
qed (use assms in simp_all)

lemma ChildMayFromDB_good:
  assumes g: "good V M node" and M: "keys_ok M" and i: "i < 16"
  obtains ch co where
    "ChildMayFromDB (v_load V) node i =
       Some (NodeFrm (location_of node) ch (info node) (modified node) (leaf_deleted node) (leaf node), co)"
    and "good V M (NodeFrm (location_of node) ch (info node) (modified node) (leaf_deleted node) (leaf node))"
    and "ch ! i = co" and "co = None \<Longrightarrow> dom (under (nib (location_of node) @ [i]) M) = {}"
proof -
  obtain l ch cs m d lf where n: "node = NodeFrm l ch cs m d lf" by (cases node)
  note gp = good_parts [OF g [unfolded n]]
  let ?q = "nib l @ [i]"
  show ?thesis
  proof (cases "ch ! i")
    case (Some c)
    then show ?thesis
      using that [of ch "Some c"] g n by (simp add: ChildMayFromDB_def)
  next
    case None
    then have e: "cs ! i = entry V M ?q" and s: "settled V M ?q"
      using branch_ok_None gp(5) [OF i] by metis+
    have upd: "good V M (NodeFrm l (ch[i := Some c]) cs m d lf)"
      if "good V M c" "branch_ok V M ?q m (Some c) (cs ! i)" for c
      using good_upd_branch [OF g [unfolded n] i, of ?q m "M ?q" c "cs ! i"] that by simp
    from M show ?thesis
    proof (cases rule: entry_cases [where q = ?q and V = V])
      case empty
      then show ?thesis
        using that [of ch None] g n None e by (simp add: ChildMayFromDB_def)
    next
      case (single k v)
      let ?c = "NodeFrm (pack k) (replicate 16 None) ((replicate 17 Child_default)[16 := cs ! i]) False False None"
      have hk: "halves k" using single(4) by (simp add: is_key_def)
      have none: "M k' = None" if "prefix ?q k'" "k' \<noteq> k" for k'
        using single(1) that by (metis domIff empty_iff insert_iff under_apply)
      have ent: "entry V M (k @ [j]) = Child_default" for j
      proof -
        have "M k' = None" if "prefix (k @ [j]) k'" for k'
          using that none [of k'] prefix_order.trans [OF single(3) append_prefixD [OF that]]
            not_prefix_longer [of k j] by metis
        then have "dom (under (k @ [j]) M) = {}" by (rule under_emptyI)
        then show ?thesis by (simp add: entry_def)
      qed
      have gc: "good V M ?c"
        using single e hk ent
        by (intro good_loaded [OF s]) (simp_all add: nth_list_update leafc_def)
      have "under ?q M = under k M"
        using none by (intro under_extend [OF single(3)]) (metis prefix_order.refl)
      then have "branch_ok V M ?q m (Some ?c) (cs ! i)"
        using branch_ok_loaded [OF s single(3) hk, of ?c m] e by simp
      then show ?thesis
        using that [of "ch[i := Some ?c]" "Some ?c"] upd [OF gc] n None e single(5) i gp(2)
        by (simp add: ChildMayFromDB_def new_NodeFrm_def Let_def)
    next
      case (inner p)
      let ?c = "NodeFrm (pack p) (replicate 16 None) (node_info V M p) False False None"
      have gc: "good V M ?c"
        using inner by (intro good_loaded [OF s]) (simp_all add: node_info_def entry_def)
      have "branch_ok V M ?q m (Some ?c) (cs ! i)"
        using branch_ok_loaded [OF s inner(1,2,4), of ?c m] e by simp
      moreover have "v_load V (pack p) = Some (node_info V M p)"
        using s inner by (simp add: settled_def nodes_stored_def)
      ultimately show ?thesis
        using that [of "ch[i := Some ?c]" "Some ?c"] upd [OF gc] n None e inner(5) i gp(2)
        by (simp add: ChildMayFromDB_def new_NodeFrm_def Let_def)
    qed
  qed
qed

section \<open>Steps along a key\<close>

lemma CommonPrefix_pack: "halves a \<Longrightarrow> halves b \<Longrightarrow> CommonPrefix (pack a) (pack b) = pack (lcp a b)"
proof -
  assume h: "halves a" "halves b"
  then have "halves (lcp a b)" by (meson lcp_prefix1 set_mono_prefix order_trans)
  then show ?thesis
    using h CommonPrefix_wf [of "pack a" "pack b"] by (intro nib_inj) simp_all
qed

lemma NextBranch_pack:
  assumes "halves b" and "prefix (a @ [i]) b"
  shows "NextBranch (pack a) (pack b) = Some i" and "i < 16"
proof -
  have "halves (a @ [i])" using assms by (meson set_mono_prefix order_trans)
  moreover have "length a < length b" "b ! length a = i"
    using assms(2) by (auto simp: prefix_def nth_append)
  ultimately show "NextBranch (pack a) (pack b) = Some i" "i < 16"
    using NextBranch_nib [of "pack a" "pack b"] assms(1) by simp_all
qed

lemma strict_prefix_branch:
  assumes "prefix p k" and "p \<noteq> k"
  obtains i where "prefix (p @ [i]) k"
proof -
  obtain t where t: "k = p @ t" "t \<noteq> []" using assms by (auto simp: prefix_def)
  then show ?thesis using that [of "hd t"] by (cases t) simp_all
qed

lemma branch_apart:
  assumes "prefix (p @ [i]) l" and "i \<noteq> j"
  shows "\<not> prefix (p @ [j]) l" and "\<not> prefix l (p @ [j])"
proof -
  show "\<not> prefix (p @ [j]) l" using branch_unique [OF assms(1)] assms(2) by metis
  show "\<not> prefix l (p @ [j])"
  proof
    assume "prefix l (p @ [j])"
    then have "prefix (p @ [i]) (p @ [j])" using prefix_order.trans [OF assms(1)] by blast
    then show False using assms(2) by simp
  qed
qed

section \<open>Hanging nodes into a new place\<close>

definition bare :: "store_view \<Rightarrow> content \<Rightarrow> nat list \<Rightarrow> bool" where
  "bare V M q \<longleftrightarrow> (\<forall>k. prefix q k \<longrightarrow> is_key k \<longrightarrow> M k = None \<and> v_leaf V k = None)"

lemma keys_None: "keys_ok M \<Longrightarrow> \<not> is_key k \<Longrightarrow> M k = None"
  by (auto simp: keys_ok_def is_key_def)

lemma branch_ok_bare:
  assumes "keys_ok M" and "bare V M q"
  shows "branch_ok V M q m None Child_default"
proof -
  have e: "dom (under q M) = {}"
    using assms keys_None [OF assms(1)] by (intro under_emptyI) (auto simp: bare_def)
  moreover have "settled V M q"
    using assms(2) by (intro settled_empty [OF e]) (simp add: bare_def)
  ultimately show ?thesis by (simp add: branch_ok_def entry_def)
qed

lemma bare_of_None:
  assumes "branch_ok V M q m None e" and "dom (under q M) = {}"
  shows "bare V M q"
  using branch_ok_None(2) [OF assms(1)] under_emptyD [OF assms(2)]
  by (simp add: bare_def settled_def written_def leaves_stored_def)

lemma bare_mono: "bare V M q \<Longrightarrow> prefix q r \<Longrightarrow> bare V M r"
  by (auto simp: bare_def intro: prefix_order.trans)

lemma bare_upd: "bare V M q \<Longrightarrow> \<not> prefix q k \<Longrightarrow> bare V (M(k := x)) q"
  by (auto simp: bare_def)

lemma bare_outside:
  assumes "branch_ok V M q m (Some c) e" and "prefix q r"
    and "\<not> prefix r (nib (location_of c))" and "\<not> prefix (nib (location_of c)) r"
  shows "bare V M r"
proof -
  have "\<not> prefix (nib (location_of c)) k" if "prefix r k" for k
    using that assms(3,4) prefix_same_cases by blast
  then show ?thesis
    using branch_ok_Some(3,4) [OF assms(1)] prefix_order.trans [OF assms(2)] by (simp add: bare_def)
qed

lemma branch_ok_rehang:
  assumes b: "branch_ok V M q m (Some c) e" and M: "keys_ok M" and qr: "prefix q r"
    and rc: "prefix r (nib (location_of c))" and k: "\<not> prefix r k"
  shows "branch_ok V (M(k := x)) r True (Some c) e"
proof -
  let ?p = "nib (location_of c)"
  note bs = branch_ok_Some [OF b]
  have out: "M k' = None" if "prefix q k'" "\<not> prefix ?p k'" for k'
    using bs(3) that keys_None [OF M] by metis
  have "under q M = under r M"
    using out prefix_order.trans [OF rc] by (intro under_extend [OF qr]) metis
  moreover have u: "under r M = under r (M(k := x))" by (rule under_upd_other [OF k, symmetric])
  ultimately have "entry V M q = entry V (M(k := x)) r" by (simp add: entry_def)
  moreover have "written V M q \<Longrightarrow> written V (M(k := x)) r"
    using written_mono [OF _ qr] written_cong [OF agree_refl u] by metis
  moreover have "M k' = None \<and> v_leaf V k' = None \<and> k' \<noteq> k"
    if "is_key k'" "prefix r k'" "\<not> prefix ?p k'" for k'
    using bs(3,4) [of k'] that k prefix_order.trans [OF qr that(2)] by blast
  ultimately show ?thesis
    using bs rc by (simp add: branch_ok_def)
qed

lemma good_upd_other:
  "good V M c \<Longrightarrow> \<not> prefix (nib (location_of c)) k \<Longrightarrow> good V (M(k := x)) c"
  using good_cong [OF agree_refl under_upd_other [symmetric]] by metis

lemma good_new_leaf:
  assumes M: "keys_ok (M(k \<mapsto> v))" and k: "is_key k" and b: "\<And>j. bare V M (k @ [j])"
  shows "good V (M(k \<mapsto> v)) (SetValue v (new_NodeFrm (pack k)))"
proof -
  have hk: "halves k" using k by (simp add: is_key_def)
  have "branch_ok V (M(k \<mapsto> v)) (k @ [i]) m None Child_default" for i m
    using branch_ok_bare [OF M bare_upd [OF b not_prefix_longer]] .
  then show ?thesis
    unfolding new_NodeFrm_def SetValue.simps using hk k
    by (intro good_intro) (simp_all add: leaf_ok_def)
qed

section \<open>Setting an item\<close>

lemma branch_ok_new_node:
  assumes "branch_ok V M q m (Some c) e" and "prefix q p" and "prefix p (nib (location_of c))"
    and "prefix p k" and "halves p" and "location_of n = pack p" and "modified n"
  shows "branch_ok V (M(k := x)) q True (Some n) e'"
proof -
  have "M k' = None \<and> v_leaf V k' = None \<and> k' \<noteq> k" if "is_key k'" "prefix q k'" "\<not> prefix p k'" for k'
    using branch_ok_Some(3,4) [OF assms(1) that(1,2)] that(3) assms(3,4) prefix_order.trans by blast
  then show ?thesis
    using assms by (simp add: branch_ok_def)
qed

lemma set_new_child:
  assumes M: "keys_ok M" and k: "is_key k" and b: "bare V M q" and q: "prefix q k"
  shows "good V (M(k \<mapsto> v)) (SetValue v (new_NodeFrm (pack k)))"
    and "branch_ok V (M(k \<mapsto> v)) q True (Some (SetValue v (new_NodeFrm (pack k)))) e"
proof -
  have hk: "halves k" "even (length k)" using k by (simp_all add: is_key_def)
  have "bare V M (k @ [j])" for j
    using bare_mono [OF b] q by (simp add: prefix_order.trans [OF q])
  then show "good V (M(k \<mapsto> v)) (SetValue v (new_NodeFrm (pack k)))"
    using good_new_leaf keys_ok_upd [OF M hk] k by blast
  show "branch_ok V (M(k \<mapsto> v)) q True (Some (SetValue v (new_NodeFrm (pack k)))) e"
    using b q hk by (auto simp: branch_ok_def bare_def new_NodeFrm_def)
qed

lemma set_above_child:
  assumes b: "branch_ok V M q m (Some c) e" and c: "good V M c" and M: "keys_ok M" and k: "is_key k"
    and q: "prefix q k" and i: "prefix (k @ [i]) (nib (location_of c))"
    and n: "n = set_info i e (SetChild i c (SetValue v (new_NodeFrm (pack k))))"
  shows "good V (M(k \<mapsto> v)) n" and "branch_ok V (M(k \<mapsto> v)) q True (Some n) e'"
proof -
  let ?M = "M(k \<mapsto> v)"
  have hk: "halves k" "even (length k)" using k by (simp_all add: is_key_def)
  have M': "keys_ok ?M" using keys_ok_upd [OF M hk] .
  have i16: "i < 16" using NextBranch_pack(2) [OF _ i] by simp
  have kc: "prefix k (nib (location_of c))" using append_prefixD [OF i] .
  have nk: "\<not> prefix (nib (location_of c)) k"
    using i not_prefix_longer prefix_order.trans by metis
  have br: "branch_ok V ?M (k @ [j]) True (if j = i then Some c else None) (if j = i then e else Child_default)"
    if "j < 16" for j
  proof (cases "j = i")
    case True
    then show ?thesis
      using branch_ok_rehang [OF b M _ i not_prefix_longer] prefix_order.trans [OF q] by simp
  next
    case False
    have "bare V M (k @ [j])"
      using bare_outside [OF b _ branch_apart [OF i False [symmetric]]] by (simp add: prefix_order.trans [OF q])
    then have "branch_ok V ?M (k @ [j]) True None Child_default"
      using branch_ok_bare [OF M' bare_upd [OF _ not_prefix_longer]] by blast
    then show ?thesis using False by simp
  qed
  show "good V ?M n"
    unfolding n new_NodeFrm_def SetValue.simps SetChild.simps set_info.simps
  proof (rule good_intro)
    fix j assume j: "j < (16::nat)"
    show "branch_ok V ?M (nib (pack k) @ [j]) True ((replicate 16 None)[i := Some c] ! j)
       ((replicate 17 Child_default)[16 := (replicate 17 Child_default ! 16)\<lparr>childtype := LEAF, sublocation := pack k\<rparr>,
          i := ((replicate 17 Child_default)[16 := (replicate 17 Child_default ! 16)\<lparr>childtype := LEAF, sublocation := pack k\<rparr>] ! i)
             \<lparr>sublocation := location_of c\<rparr>, i := e] ! j)"
      using br [OF j] j i16 hk by (auto simp: nth_list_update)
    fix c' assume "(replicate 16 None)[i := Some c] ! j = Some c'"
    then show "good V ?M c'"
      using j i16 good_upd_other [OF c nk] by (auto simp: nth_list_update split: if_splits)
  qed (use hk k i16 in \<open>simp_all add: leaf_ok_def\<close>)
  show "branch_ok V ?M q True (Some n) e'"
    using branch_ok_new_node [OF b q kc _ hk(1)] n by (simp add: new_NodeFrm_def)
qed

lemma set_split_child:
  assumes b: "branch_ok V M q m (Some c) e" and c: "good V M c" and M: "keys_ok M" and k: "is_key k"
    and q: "prefix q p" and i: "prefix (p @ [i]) k" and j: "prefix (p @ [j]) (nib (location_of c))" and ij: "i \<noteq> j"
    and n: "n = set_info j e (SetChild j c (SetChild i (SetValue v (new_NodeFrm (pack k))) (new_NodeFrm (pack p))))"
  shows "good V (M(k \<mapsto> v)) n" and "branch_ok V (M(k \<mapsto> v)) q True (Some n) e'"
proof -
  let ?M = "M(k \<mapsto> v)" and ?nn = "SetValue v (new_NodeFrm (pack k))" and ?l = "nib (location_of c)"
  have hk: "halves k" "even (length k)" using k by (simp_all add: is_key_def)
  have hp: "halves p" using hk append_prefixD [OF i] by (meson set_mono_prefix order_trans)
  have M': "keys_ok ?M" using keys_ok_upd [OF M hk] .
  have ij16: "i < 16" "j < 16" using NextBranch_pack(2) [OF hk(1) i] NextBranch_pack(2) [OF _ j] by simp_all
  have pk: "prefix p k" and pl: "prefix p ?l" using append_prefixD i j by blast+
  have side: "bare V M (p @ [x])" if "x \<noteq> j" for x
    using bare_outside [OF b _ branch_apart [OF j that [symmetric]]] by (simp add: prefix_order.trans [OF q])
  have nk: "\<not> prefix ?l k" "\<not> prefix (p @ [j]) k"
    using prefix_order.trans [OF j] branch_unique [OF i] ij by blast+
  have M_p: "M p = None" and leaf_p: "is_key p \<Longrightarrow> v_leaf V p = None"
    using branch_ok_Some(3,4) [OF b _ q] keys_None [OF M] pl j not_prefix_longer prefix_order.trans by metis+
  have br: "branch_ok V ?M (p @ [x]) True (if x = j then Some c else if x = i then Some ?nn else None) (if x = j then e else f x)"
    if "x < 16" "x \<notin> {i, j} \<Longrightarrow> f x = Child_default" for x f
  proof (cases "x = j")
    case True
    then show ?thesis
      using branch_ok_rehang [OF b M _ j nk(2)] prefix_order.trans [OF q] by simp
  next
    case xj: False
    show ?thesis
    proof (cases "x = i")
      case True
      then show ?thesis using set_new_child(2) [OF M k side [OF xj]] i xj by simp
    next
      case False
      then have "\<not> prefix (p @ [x]) k" using branch_unique [OF i] by metis
      then show ?thesis
        using branch_ok_bare [OF M' bare_upd [OF side [OF xj]]] xj False that(2) by simp
    qed
  qed
  have gn: "good V ?M ?nn" using set_new_child(1) [OF M k side [of i] i] ij by simp
  show "good V ?M n"
    unfolding n new_NodeFrm_def SetChild.simps set_info.simps
  proof (rule good_intro)
    fix x assume x: "x < (16::nat)"
    fix c' assume "(replicate 16 None)[i := Some (SetValue v (NodeFrm (pack k) (replicate 16 None) (replicate 17 Child_default) True False None)), j := Some c] ! x = Some c'"
    then show "good V ?M c'"
      using x ij16 good_upd_other [OF c nk(1)] gn
      by (auto simp: nth_list_update new_NodeFrm_def split: if_splits)
  next
    fix x assume x: "x < (16::nat)"
    show "branch_ok V ?M (nib (pack p) @ [x]) True
       ((replicate 16 None)[i := Some (SetValue v (NodeFrm (pack k) (replicate 16 None) (replicate 17 Child_default) True False None)), j := Some c] ! x)
       ((replicate 17 Child_default)
          [i := (replicate 17 Child_default ! i)\<lparr>sublocation := location_of (SetValue v (NodeFrm (pack k) (replicate 16 None) (replicate 17 Child_default) True False None))\<rparr>,
           j := ((replicate 17 Child_default)
             [i := (replicate 17 Child_default ! i)\<lparr>sublocation := location_of (SetValue v (NodeFrm (pack k) (replicate 16 None) (replicate 17 Child_default) True False None))\<rparr>] ! j)
               \<lparr>sublocation := location_of c\<rparr>, j := e] ! x)"
      using br [OF x, of "\<lambda>x. if x = i then Child_default\<lparr>sublocation := pack k\<rparr> else Child_default"] x ij16 hp
      by (auto simp: nth_list_update new_NodeFrm_def)
  qed (use hp M_p leaf_p ij16 pk k not_prefix_longer [of p i] i in \<open>auto simp: leaf_ok_def\<close>)
  show "branch_ok V ?M q True (Some n) e'"
    using branch_ok_new_node [OF b q pl pk hp] n by (simp add: new_NodeFrm_def)
qed

lemma good_set_modified: "good V M n \<Longrightarrow> good V M (set_modified True n)"
  by (cases n) (auto intro!: good_intro dest: good_parts intro: leaf_ok_mono branch_ok_mono)

lemma good_SetValue:
  assumes g: "good V M (NodeFrm l ch cs m d lf)" and k: "is_key (nib l)" and M: "keys_ok M"
  shows "good V (M(nib l \<mapsto> v)) (SetValue v (NodeFrm l ch cs m d lf))"
proof -
  let ?M = "M(nib l \<mapsto> v)"
  note gp = good_parts [OF g]
  have u: "under (nib l @ [i]) M = under (nib l @ [i]) ?M" for i
    using under_upd_other [OF not_prefix_longer] by metis
  show ?thesis
    unfolding SetValue.simps
  proof (rule good_intro)
    fix i assume i: "i < (16::nat)"
    show "branch_ok V ?M (nib l @ [i]) True (ch ! i) (cs[16 := (cs ! 16)\<lparr>childtype := LEAF, sublocation := l\<rparr>] ! i)"
      using branch_ok_mono [OF gp(5) [OF i], of True] branch_ok_cong [OF agree_refl u] i by simp
    fix c assume c: "ch ! i = Some c"
    then have "prefix (nib l @ [i]) (nib (location_of c))"
      using gp(5) [OF i] branch_ok_Some(1) by metis
    then show "good V ?M c"
      using good_upd_other [OF gp(6) [OF i c]] not_prefix_longer prefix_order.trans by metis
  qed (use gp k in \<open>simp_all add: leaf_ok_def\<close>)
qed

lemma good_MarkRemove:
  assumes g: "good V M (NodeFrm l ch cs m d lf)" and k: "is_key (nib l)"
  shows "good V (M(nib l := None)) (MarkRemove (NodeFrm l ch cs m d lf))"
proof -
  let ?M = "M(nib l := None)"
  note gp = good_parts [OF g]
  have u: "under (nib l @ [i]) M = under (nib l @ [i]) ?M" for i
    using under_upd_other [OF not_prefix_longer] by metis
  show ?thesis
    unfolding MarkRemove.simps
  proof (rule good_intro)
    fix i assume i: "i < (16::nat)"
    show "branch_ok V ?M (nib l @ [i]) True (ch ! i) (cs[16 := Child_default] ! i)"
      using branch_ok_mono [OF gp(5) [OF i], of True] branch_ok_cong [OF agree_refl u] i by simp
    fix c assume c: "ch ! i = Some c"
    then have "prefix (nib l @ [i]) (nib (location_of c))"
      using gp(5) [OF i] branch_ok_Some(1) by metis
    then show "good V ?M c"
      using good_upd_other [OF gp(6) [OF i c]] not_prefix_longer prefix_order.trans by metis
  qed (use gp k in \<open>simp_all add: leaf_ok_def\<close>)
qed

lemma branch_ok_changed:
  assumes "branch_ok V M q m (Some c) e" and "prefix (nib (location_of c)) k"
    and "location_of c' = location_of c" and "modified c'"
  shows "branch_ok V (M(k := x)) q True (Some c') e'"
proof -
  have "halves (nib (location_of c))" by simp
  moreover have "location_of c = pack (nib (location_of c))"
    using branch_ok_Some(2) [OF assms(1)] by simp
  ultimately show ?thesis
    using branch_ok_new_node [OF assms(1) branch_ok_Some(1) [OF assms(1)] _ assms(2)] assms(3,4) by simp
qed

text \<open>One step of a walk towards a key that is not the node's own.\<close>

lemma walk_step:
  assumes g: "good V M node" and M: "keys_ok M" and k: "is_key k"
    and p: "prefix (nib (location_of node)) k" "nib (location_of node) \<noteq> k"
  obtains i ch co where "i < 16" and "prefix (nib (location_of node) @ [i]) k" and "location_of node \<noteq> pack k"
    and "NextBranch (CommonPrefix (location_of node) (pack k)) (pack k) = Some i"
    and "ChildMayFromDB (v_load V) node i =
       Some (NodeFrm (location_of node) ch (info node) (modified node) (leaf_deleted node) (leaf node), co)"
    and "good V M (NodeFrm (location_of node) ch (info node) (modified node) (leaf_deleted node) (leaf node))"
    and "ch ! i = co"
    and "branch_ok V M (nib (location_of node) @ [i]) (modified node) co (info node ! i)"
    and "co = None \<Longrightarrow> bare V M (nib (location_of node) @ [i])"
    and "\<And>c. co = Some c \<Longrightarrow> good V M c"
    and "\<And>c. co = Some c \<Longrightarrow> CommonPrefix (pack k) (location_of c) = pack (lcp k (nib (location_of c)))"
    and "\<And>c. co = Some c \<Longrightarrow> location_of c = pack (nib (location_of c))"
proof -
  let ?l = "location_of node" and ?p = "nib (location_of node)"
  have hk: "halves k" using k by (simp add: is_key_def)
  have l: "?l = pack ?p" using good_wf [OF g] by simp
  obtain i where i: "prefix (?p @ [i]) k" using strict_prefix_branch p by blast
  have i16: "i < 16" and nb: "NextBranch (CommonPrefix ?l (pack k)) (pack k) = Some i"
    using NextBranch_pack [OF hk i] CommonPrefix_pack [of ?p k] hk p(1) l lcp_eq_left [of ?p k] by simp_all
  have ne: "?l \<noteq> pack k" using p(2) hk by (metis nib_pack)
  obtain ch co where load: "ChildMayFromDB (v_load V) node i =
       Some (NodeFrm ?l ch (info node) (modified node) (leaf_deleted node) (leaf node), co)"
    and g': "good V M (NodeFrm ?l ch (info node) (modified node) (leaf_deleted node) (leaf node))"
    and co: "ch ! i = co" and empty: "co = None \<Longrightarrow> dom (under (?p @ [i]) M) = {}"
    using ChildMayFromDB_good [OF g M i16] by blast
  have bi: "branch_ok V M (?p @ [i]) (modified node) co (info node ! i)"
    using good_parts(5) [OF g' i16] co by simp
  have child: "good V M c" "CommonPrefix (pack k) (location_of c) = pack (lcp k (nib (location_of c)))"
    "location_of c = pack (nib (location_of c))" if "co = Some c" for c
    using good_parts(6) [OF g' i16, of c] CommonPrefix_pack [OF hk, of "nib (location_of c)"]
      branch_ok_Some(2) bi co that by simp_all
  show ?thesis
    using that [OF i16 i ne nb load g' co bi] bare_of_None bi empty child by metis
qed

text \<open>The child that a set puts below a node when the old child's location is no prefix of the key.\<close>

definition set_branch :: "cstring \<Rightarrow> location \<Rightarrow> node_frm \<Rightarrow> child \<Rightarrow> node_frm option" where
  "set_branch data location node2 child2 =
     (let location2 = location_of node2; newcommon = CommonPrefix location location2 in
      if newcommon = location then
        map_option (\<lambda>b1. set_info b1 child2 (SetChild b1 node2 (SetValue data (new_NodeFrm location))))
          (NextBranch newcommon location2)
      else
        (case (NextBranch newcommon location, NextBranch newcommon location2) of
           (Some b1, Some b2) \<Rightarrow>
             Some (set_info b2 child2 (SetChild b2 node2 (SetChild b1 (SetValue data (new_NodeFrm location)) (new_NodeFrm newcommon))))
         | _ \<Rightarrow> None))"

lemma set_branch_good:
  assumes b: "branch_ok V M q m (Some c) e" and c: "good V M c" and M: "keys_ok M" and k: "is_key k"
    and q: "prefix q k" and np: "\<not> prefix (nib (location_of c)) k"
  obtains n where "set_branch v (pack k) c e = Some n" and "good V (M(k \<mapsto> v)) n"
    and "\<And>e'. branch_ok V (M(k \<mapsto> v)) q True (Some n) e'"
proof -
  let ?l = "nib (location_of c)" and ?r = "lcp k (nib (location_of c))"
  have hk: "halves k" using k by (simp add: is_key_def)
  have l: "location_of c = pack ?l" using branch_ok_Some(2) [OF b] by simp
  have cp: "CommonPrefix (pack k) (location_of c) = pack ?r"
    using CommonPrefix_pack [OF hk, of ?l] l by simp
  show ?thesis
  proof (cases "prefix k ?l")
    case True
    obtain j where j: "prefix (k @ [j]) ?l" using strict_prefix_branch [OF True] np by blast
    have "?r = k" using True lcp_eq_left by metis
    moreover have "NextBranch (pack k) (location_of c) = Some j" using NextBranch_pack(1) [OF _ j] l by simp
    ultimately show ?thesis
      using that set_above_child [OF b c M k q j refl] cp by (simp add: set_branch_def Let_def)
  next
    case False
    have rk: "prefix ?r k" "?r \<noteq> k" and rl: "prefix ?r ?l" "?r \<noteq> ?l"
      using lcp_prefix1 lcp_prefix2 lcp_eq_left lcp_eq_right False np by metis+
    obtain x where x: "prefix (?r @ [x]) k" using strict_prefix_branch rk by blast
    obtain y where y: "prefix (?r @ [y]) ?l" using strict_prefix_branch rl by blast
    have "x \<noteq> y" using lcp_greatest [OF x, of ?l] y not_prefix_longer by metis
    note split = set_split_child [OF b c M k lcp_greatest [OF q branch_ok_Some(1) [OF b]] x y this refl]
    have "halves ?r" using hk rk(1) by (meson set_mono_prefix order_trans)
    then have "pack ?r \<noteq> pack k" using rk(2) hk by (metis nib_pack)
    moreover have "NextBranch (pack ?r) (pack k) = Some x" "NextBranch (pack ?r) (location_of c) = Some y"
      using NextBranch_pack(1) [OF hk x] NextBranch_pack(1) [OF _ y] l by simp_all
    ultimately show ?thesis
      using that [OF _ split] cp by (simp add: set_branch_def Let_def)
  qed
qed

lemma SetItem_below:
  assumes "CommonPrefix location (location_of node2) \<noteq> location_of node2"
    and "location_of node \<noteq> location"
    and "NextBranch (CommonPrefix (location_of node) location) location = Some branch"
    and "ChildMayFromDB load (set_modified True node) branch = Some (NodeFrm l ch cs m d lf, Some node2)"
    and "set_branch data location node2 (cs ! branch) = Some n"
  obtains e where "SetItem load (Suc fuel) node location data =
     Some (True, NodeFrm l (ch[branch := Some n]) (cs[branch := e]) True d lf)"
proof -
  have "location_of (set_modified True node) = location_of node" by (cases node) simp
  then show ?thesis
    using assms that unfolding set_branch_def
    by (cases "CommonPrefix location (location_of node2) = location")
      (auto simp: Let_def split: option.splits)
qed

lemma SetItem_good:
  assumes "good V M node" and "keys_ok M" and "is_key k" and "prefix (nib (location_of node)) k"
    and "length k < fuel + length (nib (location_of node))"
  shows "case SetItem (v_load V) fuel node (pack k) v of None \<Rightarrow> False | Some (b, node') \<Rightarrow>
           good V (M(k \<mapsto> v)) node' \<and> location_of node' = location_of node \<and> modified node'"
  using assms
proof (induction fuel arbitrary: node)
  case 0
  then show ?case using prefix_length_le [of "nib (location_of node)" k] by simp
next
  case (Suc fuel)
  obtain l ch0 cs m d lf where n: "node = NodeFrm l ch0 cs m d lf" by (cases node)
  let ?p = "nib l" and ?M = "M(k \<mapsto> v)" and ?node = "set_modified True node"
  show ?case
  proof (cases "?p = k")
    case True
    have "l = pack k" using good_wf [OF Suc.prems(1)] n True pack_nib by force
    then have "SetItem (v_load V) (Suc fuel) node (pack k) v = Some (False, SetValue v node)"
      using n by (simp add: Let_def)
    moreover have "good V ?M (SetValue v node)"
      using good_SetValue [OF Suc.prems(1) [unfolded n] _ Suc.prems(2), of v] Suc.prems(3) n True by metis
    ultimately show ?thesis using n by simp
  next
    case False
    have g: "good V M ?node" using good_set_modified Suc.prems(1) by blast
    obtain i ch co where i: "i < 16" "prefix (?p @ [i]) k" "l \<noteq> pack k"
      and nb: "NextBranch (CommonPrefix l (pack k)) (pack k) = Some i"
      and load: "ChildMayFromDB (v_load V) ?node i = Some (NodeFrm l ch cs True d lf, co)"
      and g': "good V M (NodeFrm l ch cs True d lf)" "ch ! i = co"
      and bi: "branch_ok V M (?p @ [i]) True co (cs ! i)" and none: "co = None \<Longrightarrow> bare V M (?p @ [i])"
      and gc: "\<And>c. co = Some c \<Longrightarrow> good V M c"
      and cp: "\<And>c. co = Some c \<Longrightarrow> CommonPrefix (pack k) (location_of c) = pack (lcp k (nib (location_of c)))"
      and lc: "\<And>c. co = Some c \<Longrightarrow> location_of c = pack (nib (location_of c))"
      using walk_step [OF g Suc.prems(2,3)] Suc.prems(4) n False by auto
    note upd = good_upd_branch [OF g'(1) i(1,2), of True "Some v"]
    show ?thesis
    proof (cases co)
      case None
      note new = set_new_child [OF Suc.prems(2,3) none [OF None] i(2)]
      show ?thesis
        using upd [OF _ new(2) new(1)] n i(3) nb load None by (simp add: Let_def)
    next
      case (Some c)
      let ?q = "nib (location_of c)"
      note bc = bi [unfolded Some]
      show ?thesis
      proof (cases "prefix ?q k")
        case True
        then have eq: "CommonPrefix (pack k) (location_of c) = location_of c"
          using cp lc Some lcp_eq_right by metis
        have "length k < fuel + length ?q"
          using Suc.prems(5) prefix_length_le [OF branch_ok_Some(1) [OF bc]] n by simp
        then obtain b c' where r: "SetItem (v_load V) fuel c (pack k) v = Some (b, c')"
          "good V ?M c'" "location_of c' = location_of c" "modified c'"
          using Suc.IH [OF gc [OF Some] Suc.prems(2,3) True] by (auto split: option.splits)
        show ?thesis
          using upd [OF _ branch_ok_changed [OF bc True r(3,4), of _ "cs ! i"] r(2)] n i(3) nb load Some eq r(1)
          by (simp add: Let_def)
      next
        case False
        then have "CommonPrefix (pack k) (location_of c) \<noteq> location_of c"
          using cp [OF Some] lcp_eq_right [of k ?q] lcp_prefix2 [of k ?q]
          by (metis halves_nib nib_pack order_trans set_mono_prefix)
        moreover obtain nn where nn: "set_branch v (pack k) c (cs ! i) = Some nn" "good V ?M nn"
          "\<And>e'. branch_ok V ?M (?p @ [i]) True (Some nn) e'"
          using set_branch_good [OF bc gc [OF Some] Suc.prems(2,3) i(2) False] by blast
        ultimately obtain e where "SetItem (v_load V) (Suc fuel) node (pack k) v =
            Some (True, NodeFrm l (ch[i := Some nn]) (cs[i := e]) True d lf)"
          using SetItem_below [of "pack k" c node i "v_load V" l ch cs True d lf v nn fuel] n i(3) nb load Some by auto
        then show ?thesis using upd [OF _ nn(3,2)] n by auto
      qed
    qed
  qed
qed

section \<open>Deleting and looking up an item\<close>

lemma pack_length_mono: "prefix a b \<Longrightarrow> length (pack a) \<le> length (pack b)"
proof -
  have "length (pack_bytes xs) = (length xs + 1) div 2" for xs
    by (induction xs rule: pack_bytes.induct) auto
  then show "prefix a b \<Longrightarrow> length (pack a) \<le> length (pack b)"
    using prefix_length_le [of a b] by (simp add: pack_def div_le_mono)
qed

lemma good_put_same:
  assumes g: "good V M (NodeFrm l ch cs m d lf)" and i: "i < 16" and c: "ch ! i = Some c"
    and c': "good V M c'" "location_of c' = location_of c" "modified c' = modified c"
  shows "good V M (NodeFrm l (ch[i := Some c']) cs m d lf)"
proof -
  have "branch_ok V M (nib l @ [i]) m (Some c') (cs ! i)"
    using good_parts(5) [OF g i] c c' by (simp add: branch_ok_def)
  then show ?thesis
    using good_upd_branch [OF g i, of "nib l @ [i]" m "M (nib l @ [i])" c' "cs ! i"] c'(1) by simp
qed

lemma DeleteItem_good:
  assumes "good V M node" and "keys_ok M" and "is_key k" and "prefix (nib (location_of node)) k"
    and "length k < fuel + length (nib (location_of node))"
  shows "case DeleteItem (v_load V) fuel node (pack k) of None \<Rightarrow> False | Some (b, node') \<Rightarrow>
           good V (M(k := None)) node' \<and> location_of node' = location_of node \<and>
           (modified node' \<longleftrightarrow> modified node \<or> b) \<and> (\<not> b \<longrightarrow> M k = None)"
  using assms
proof (induction fuel arbitrary: node)
  case 0
  then show ?case using prefix_length_le [of "nib (location_of node)" k] by simp
next
  case (Suc fuel)
  obtain l ch0 cs m d lf where n: "node = NodeFrm l ch0 cs m d lf" by (cases node)
  let ?p = "nib l" and ?M = "M(k := None)"
  have l: "l = pack ?p" using good_wf [OF Suc.prems(1)] n by simp
  have len: "\<not> length l > length (pack k)" using pack_length_mono [of ?p k] Suc.prems(4) n l by simp
  have keep: "M k = None \<Longrightarrow> ?M = M" by auto
  show ?case
  proof (cases "?p = k")
    case True
    then have "DeleteItem (v_load V) (Suc fuel) node (pack k) = Some (True, MarkRemove node)"
      using n l by (simp add: Let_def)
    moreover have "good V ?M (MarkRemove node)"
      using good_MarkRemove [OF Suc.prems(1) [unfolded n]] Suc.prems(3) n True by metis
    ultimately show ?thesis using n by simp
  next
    case False
    obtain i ch co where i: "i < 16" "prefix (?p @ [i]) k" "l \<noteq> pack k"
      and nb: "NextBranch (CommonPrefix l (pack k)) (pack k) = Some i"
      and load: "ChildMayFromDB (v_load V) node i = Some (NodeFrm l ch cs m d lf, co)"
      and g': "good V M (NodeFrm l ch cs m d lf)" "ch ! i = co"
      and bi: "branch_ok V M (?p @ [i]) m co (cs ! i)" and none: "co = None \<Longrightarrow> bare V M (?p @ [i])"
      and gc: "\<And>c. co = Some c \<Longrightarrow> good V M c"
      and cp: "\<And>c. co = Some c \<Longrightarrow> CommonPrefix (pack k) (location_of c) = pack (lcp k (nib (location_of c)))"
      and lc: "\<And>c. co = Some c \<Longrightarrow> location_of c = pack (nib (location_of c))"
      using walk_step [OF Suc.prems(1-3)] Suc.prems(4) n False by auto
    note eqs = n i(3) nb load len
    show ?thesis
    proof (cases co)
      case None
      then have Mk: "M k = None" using none i(2) Suc.prems(3) by (simp add: bare_def)
      show ?thesis using g'(1) keep [OF Mk] Mk eqs None by (simp add: Let_def)
    next
      case (Some c)
      let ?q = "nib (location_of c)"
      note bc = bi [unfolded Some]
      have cc: "CommonPrefix (location_of c) (pack k) = pack (lcp ?q k)"
        using CommonPrefix_pack [of ?q k] lc [OF Some] Suc.prems(3) by (simp add: is_key_def)
      show ?thesis
      proof (cases "prefix ?q k")
        case True
        then have eq: "CommonPrefix (location_of c) (pack k) = location_of c"
          using cc lc Some lcp_eq_left by metis
        have "length k < fuel + length ?q"
          using Suc.prems(5) prefix_length_le [OF branch_ok_Some(1) [OF bc]] n by simp
        then obtain b c' where r: "DeleteItem (v_load V) fuel c (pack k) = Some (b, c')"
          "good V ?M c'" "location_of c' = location_of c" "modified c' \<longleftrightarrow> modified c \<or> b" "\<not> b \<longrightarrow> M k = None"
          using Suc.IH [OF gc [OF Some] Suc.prems(2,3) True] by (auto split: option.splits)
        have "good V ?M (NodeFrm l (ch[i := Some c']) cs (m \<or> b) d lf)"
        proof (cases b)
          case True
          have "branch_ok V ?M (?p @ [i]) True (Some c') (cs ! i)"
            using branch_ok_changed [OF bc \<open>prefix ?q k\<close> r(3)] r(4) True by simp
          then show ?thesis
            using good_upd_branch [OF g'(1) i(1,2), of True None c' "cs ! i"] r(2) True by simp
        next
          case False
          then show ?thesis
            using good_put_same [OF g'(1) i(1), of c c'] g'(2) Some r keep by simp
        qed
        then show ?thesis using eqs Some eq r(1,5) by (simp add: Let_def)
      next
        case False
        then have "location_of c \<noteq> CommonPrefix (location_of c) (pack k)"
          using cc lcp_eq_left [of ?q k] lcp_prefix1 [of ?q k]
          by (metis halves_nib nib_pack order_trans set_mono_prefix)
        moreover have Mk: "M k = None"
          using branch_ok_Some(3) [OF bc Suc.prems(3) i(2) False] .
        ultimately show ?thesis using g'(1) keep [OF Mk] Mk eqs Some by (simp add: Let_def)
      qed
    qed
  qed
qed

text \<open>On a clean tree the lookup finds every key of the content.\<close>

lemma entry_extends:
  assumes "keys_ok M" and "M k = Some v" and "prefix q k"
  shows "childtype (entry V M q) \<noteq> NONE" and "wf_loc (sublocation (entry V M q))"
    and "prefix (nib (sublocation (entry V M q))) k" and "prefix q (nib (sublocation (entry V M q)))"
proof -
  have k: "k \<in> dom (under q M)" using assms by (auto simp: dom_under)
  from assms(1) have "childtype (entry V M q) \<noteq> NONE \<and> wf_loc (sublocation (entry V M q)) \<and>
      prefix (nib (sublocation (entry V M q))) k \<and> prefix q (nib (sublocation (entry V M q)))"
  proof (cases rule: entry_cases [where q = q and V = V])
    case (inner p)
    then have "prefix p k" using k by (simp add: dom_under)
    then show ?thesis using inner by simp
  qed (use k in \<open>auto simp: is_key_def\<close>)
  then show "childtype (entry V M q) \<noteq> NONE" "wf_loc (sublocation (entry V M q))"
    "prefix (nib (sublocation (entry V M q))) k" "prefix q (nib (sublocation (entry V M q)))" by simp_all
qed

lemma entry_below:
  assumes b: "branch_ok V M q m (Some c) e" and M: "keys_ok M" and ne: "childtype (entry V M q) \<noteq> NONE"
  shows "prefix (nib (location_of c)) (nib (sublocation (entry V M q)))"
    and "wf_loc (sublocation (entry V M q))"
proof -
  let ?p = "nib (location_of c)"
  have "under q M = under ?p M"
    using branch_ok_Some(1,3) [OF b] keys_None [OF M] by (intro under_extend) metis+
  then have eq: "entry V M q = entry V M ?p" by (simp add: entry_def)
  have "dom (under ?p M) \<noteq> {}" using ne eq by (auto simp: entry_def)
  then obtain k v where "M k = Some v" "prefix ?p k" by (auto simp: dom_under)
  then show "prefix ?p (nib (sublocation (entry V M q)))" "wf_loc (sublocation (entry V M q))"
    using entry_extends [OF M] eq by simp_all
qed

lemma clean_entries:
  assumes "good V M (NodeFrm l ch cs False d lf)" and "i < 16"
  shows "cs ! i = entry V M (nib l @ [i])" and "written V M (nib l @ [i])"
    and "ch ! i = Some c \<Longrightarrow> \<not> modified c"
proof -
  have b: "branch_ok V M (nib l @ [i]) False (ch ! i) (cs ! i)" using good_parts(5) [OF assms] .
  then show "cs ! i = entry V M (nib l @ [i])" "written V M (nib l @ [i])"
    by (auto simp: branch_ok_def settled_def split: option.splits)
  show "ch ! i = Some c \<Longrightarrow> \<not> modified c" using b by (auto simp: branch_ok_def)
qed

lemma Exists_good:
  assumes "good V M node" and "\<not> modified node" and "keys_ok M" and "is_key k" and "prefix (nib (location_of node)) k"
    and "length k < fuel + length (nib (location_of node))"
  shows "case Exists (v_load V) fuel node (pack k) of None \<Rightarrow> False | Some (b, node') \<Rightarrow>
           good V M node' \<and> location_of node' = location_of node \<and> \<not> modified node' \<and> (M k \<noteq> None \<longrightarrow> b)"
  using assms
proof (induction fuel arbitrary: node)
  case 0
  then show ?case using prefix_length_le [of "nib (location_of node)" k] by simp
next
  case (Suc fuel)
  obtain l ch0 cs d lf where n: "node = NodeFrm l ch0 cs False d lf" using Suc.prems(2) by (cases node) simp
  let ?p = "nib l"
  have hk: "halves k" using Suc.prems(4) by (simp add: is_key_def)
  have l: "l = pack ?p" using good_wf [OF Suc.prems(1)] n by simp
  show ?case
  proof (cases "?p = k")
    case True
    then show ?thesis using Suc.prems n l by simp
  next
    case False
    obtain i ch co where i: "i < 16" "prefix (?p @ [i]) k" "l \<noteq> pack k"
      and nb: "NextBranch (CommonPrefix l (pack k)) (pack k) = Some i"
      and load: "ChildMayFromDB (v_load V) node i = Some (NodeFrm l ch cs False d lf, co)"
      and g': "good V M (NodeFrm l ch cs False d lf)" "ch ! i = co"
      and bi: "branch_ok V M (?p @ [i]) False co (cs ! i)" and none: "co = None \<Longrightarrow> bare V M (?p @ [i])"
      and gc: "\<And>c. co = Some c \<Longrightarrow> good V M c"
      and "\<And>c. co = Some c \<Longrightarrow> CommonPrefix (pack k) (location_of c) = pack (lcp k (nib (location_of c)))"
      and "\<And>c. co = Some c \<Longrightarrow> location_of c = pack (nib (location_of c))"
      using walk_step [OF Suc.prems(1,3,4)] Suc.prems(5) n False by auto
    let ?e = "entry V M (?p @ [i])"
    have e: "cs ! i = ?e" using clean_entries(1) [OF g'(1) i(1)] .
    note eqs = n i(3) nb load e
    show ?thesis
    proof (cases "childtype ?e = NONE \<or> CommonPrefix (sublocation ?e) (pack k) \<noteq> sublocation ?e")
      case True
      have "M k = None"
      proof (rule ccontr)
        assume "M k \<noteq> None"
        then obtain v where v: "M k = Some v" by auto
        note x = entry_extends [OF Suc.prems(3) v i(2), of V]
        have "CommonPrefix (sublocation ?e) (pack k) = pack (lcp (nib (sublocation ?e)) k)"
          using CommonPrefix_pack [of "nib (sublocation ?e)" k] x(2) hk by simp
        then have "CommonPrefix (sublocation ?e) (pack k) = sublocation ?e"
          using x(2,3) lcp_eq_left by (metis pack_nib)
        then show False using True x(1) by simp
      qed
      moreover have "Exists (v_load V) (Suc fuel) node (pack k) = Some (False, node)"
        using True eqs by (cases "childtype ?e = NONE") (simp_all add: Let_def)
      ultimately show ?thesis using Suc.prems(1) n by simp
    next
      case False
      then have "co \<noteq> None" using none branch_ok_bare [OF Suc.prems(3)] branch_ok_None(1) by fastforce
      then obtain c where c: "co = Some c" by auto
      note bc = bi [unfolded c]
      have eq: "CommonPrefix (sublocation ?e) (pack k) = sublocation ?e" using False by simp
      have qe: "prefix (nib (location_of c)) (nib (sublocation ?e))" "wf_loc (sublocation ?e)"
        using entry_below [OF bc Suc.prems(3)] False by simp_all
      have "prefix (nib (sublocation ?e)) k"
        using eq CommonPrefix_wf(2) [OF qe(2), of "pack k"] hk lcp_prefix2 [of "nib (sublocation ?e)" k] by simp
      then have pk: "prefix (nib (location_of c)) k" using prefix_order.trans [OF qe(1)] by blast
      have "\<not> modified c" using clean_entries(3) [OF g'(1) i(1)] g'(2) c by simp
      moreover have "length k < fuel + length (nib (location_of c))"
        using Suc.prems(6) prefix_length_le [OF branch_ok_Some(1) [OF bc]] n by simp
      ultimately obtain b c' where r: "Exists (v_load V) fuel c (pack k) = Some (b, c')"
        "good V M c'" "location_of c' = location_of c" "\<not> modified c'" "M k \<noteq> None \<longrightarrow> b"
        using Suc.IH [OF gc [OF c] _ Suc.prems(3,4) pk] by (auto split: option.splits)
      have "good V M (NodeFrm l (ch[i := Some c']) cs False d lf)"
        using good_put_same [OF g'(1) i(1) _ r(2,3)] g'(2) c r(4) \<open>\<not> modified c\<close> by simp
      then show ?thesis using eqs c eq False r(1,5) by (simp add: Let_def)
    qed
  qed
qed

end
