(* ===== verification/Trie_Hash.thy ===== *)
theory Trie_Hash
  imports Trie_Ops
begin

text \<open>
  Hashing a modified node: it reports the canonical entry of the content below the node, leaves
  the node and everything below it clean, and the storage calls it makes bring the storage to
  hold exactly the canonical inner nodes and the leaves of that content. The storage calls are
  first read as updates of the storage views.
\<close>

section \<open>Storage calls on the views\<close>

fun op_loc :: "storage_op \<Rightarrow> location" where
  "op_loc (StorageSaveNode l cs) = l"
| "op_loc (StorageSaveLeaf l v) = l"
| "op_loc (StorageDeleteNode l) = l"
| "op_loc (StorageDeleteLeaf l) = l"

fun leaf_op :: "storage_op \<Rightarrow> bool" where
  "leaf_op (StorageSaveLeaf l v) = True"
| "leaf_op (StorageDeleteLeaf l) = True"
| "leaf_op _ = False"

fun view_op :: "storage_op \<Rightarrow> store_view \<Rightarrow> store_view" where
  "view_op (StorageSaveNode l cs) V = V\<lparr>v_node := (v_node V)(l := Some cs)\<rparr>"
| "view_op (StorageSaveLeaf l v) V = V\<lparr>v_leaf := (v_leaf V)(nib l := Some v)\<rparr>"
| "view_op (StorageDeleteNode l) V = V\<lparr>v_node := (v_node V)(l := None)\<rparr>"
| "view_op (StorageDeleteLeaf l) V = V\<lparr>v_leaf := (v_leaf V)(nib l := None)\<rparr>"

definition touches :: "nat list \<Rightarrow> storage_op list \<Rightarrow> bool" where
  "touches p ops \<longleftrightarrow> (\<forall>op \<in> set ops. wf_loc (op_loc op) \<and> prefix p (nib (op_loc op)) \<and>
     (leaf_op op \<longrightarrow> is_key (nib (op_loc op))))"

lemma view_op_fixed [simp]: "v_hash (view_op op V) = v_hash V" "v_ser (view_op op V) = v_ser V"
  "v_load (view_op op V) = v_load V"
  by (cases op; simp)+

lemma fold_view_op_fixed [simp]: "v_hash (fold view_op ops V) = v_hash V" "v_ser (fold view_op ops V) = v_ser V"
  "v_load (fold view_op ops V) = v_load V"
  by (induction ops arbitrary: V) simp_all

lemma entry_fold [simp]: "entry (fold view_op ops V) = entry V" "node_info (fold view_op ops V) = node_info V"
  by (simp_all add: fun_eq_iff entry_def node_info_def)

lemma view_op_leaf_other: "nib (op_loc op) \<noteq> k \<or> \<not> leaf_op op \<Longrightarrow> v_leaf (view_op op V) k = v_leaf V k"
  by (cases op) auto

lemma view_op_node_other: "op_loc op \<noteq> l \<Longrightarrow> v_node (view_op op V) l = v_node V l"
  by (cases op) auto

lemma agree_trans: "agree q U V \<Longrightarrow> agree q V W \<Longrightarrow> agree q U W"
  by (simp add: agree_def)

lemma agree_avoid:
  assumes "\<And>op. op \<in> set ops \<Longrightarrow> wf_loc (op_loc op) \<and> \<not> prefix q (nib (op_loc op))"
  shows "agree q V (fold view_op ops V)"
  using assms
proof (induction ops arbitrary: V)
  case (Cons op ops)
  have nib: "nib (op_loc op) \<noteq> p" if "prefix q p" for p using Cons.prems [of op] that by auto
  have "v_node (view_op op V) (pack p) = v_node V (pack p)" if "prefix q p" "halves p" for p
    using view_op_node_other nib [OF that(1)] that(2) nib_pack by metis
  moreover have "v_leaf (view_op op V) k = v_leaf V k" if "prefix q k" for k
    using view_op_leaf_other nib [OF that] by metis
  ultimately have "agree q V (view_op op V)" by (simp add: agree_def)
  then show ?case using Cons.IH [of "view_op op V"] Cons.prems agree_trans by simp
qed simp

lemma leaf_untouched:
  assumes "touches p ops" and "\<not> prefix p k"
  shows "v_leaf (fold view_op ops V) k = v_leaf V k"
  using assms
proof (induction ops arbitrary: V)
  case (Cons op ops)
  then have "nib (op_loc op) \<noteq> k" by (auto simp: touches_def)
  then show ?case using Cons by (simp add: touches_def view_op_leaf_other)
qed simp

section \<open>The parts of update_hash\<close>

definition child_update ::
  "(cstring \<Rightarrow> cstring) \<Rightarrow> (child list \<Rightarrow> cstring) \<Rightarrow> node_frm option \<Rightarrow> (child \<times> node_frm \<times> storage_op list) option" where
  "child_update H ser co =
     (case co of None \<Rightarrow> None | Some c \<Rightarrow> if modified c then Some (update_hash H ser c) else None)"

definition child_ops :: "(cstring \<Rightarrow> cstring) \<Rightarrow> (child list \<Rightarrow> cstring) \<Rightarrow> node_frm option \<Rightarrow> storage_op list" where
  "child_ops H ser co = (case child_update H ser co of None \<Rightarrow> [] | Some (_, _, ops) \<Rightarrow> ops)"

definition child_node :: "(cstring \<Rightarrow> cstring) \<Rightarrow> (child list \<Rightarrow> cstring) \<Rightarrow> node_frm option \<Rightarrow> node_frm option" where
  "child_node H ser co = (case child_update H ser co of None \<Rightarrow> co | Some (_, c, _) \<Rightarrow> Some c)"

definition child_entry :: "(cstring \<Rightarrow> cstring) \<Rightarrow> (child list \<Rightarrow> cstring) \<Rightarrow> node_frm option \<Rightarrow> child \<Rightarrow> child" where
  "child_entry H ser co x = (case child_update H ser co of None \<Rightarrow> x | Some (e, _, _) \<Rightarrow> e)"

lemmas child_parts = child_update_def child_ops_def child_node_def child_entry_def

lemma update_hash_unfold:
  assumes "length ch = 16" and "length cs = 17"
  shows "update_hash H ser (NodeFrm l ch cs m d lf) =
     (let (c16, leaf_ops) = update_leaf H l d lf (cs ! 16);
          cs2 = map (\<lambda>i. child_entry H ser (ch ! i) (cs ! i)) [0..<16] @ [c16];
          (result, node_op) = update_result H ser l cs2 in
      (result, NodeFrm l (map (child_node H ser) ch) cs2 False d lf,
       leaf_ops @ concat (map (child_ops H ser) ch) @ [node_op]))"
proof -
  have rs: "map (\<lambda>co. case co of None \<Rightarrow> None | Some c \<Rightarrow> if modified c then Some (update_hash H ser c) else None) ch =
      map (child_update H ser) ch"
    by (simp add: child_update_def [abs_def])
  have ch: "map2 (\<lambda>co r. case r of None \<Rightarrow> co | Some (_, c, _) \<Rightarrow> Some c) ch (map (child_update H ser) ch) =
      map (child_node H ser) ch"
    by (rule nth_equalityI) (auto simp: child_node_def)
  have cs: "map2 (\<lambda>x r. case r of None \<Rightarrow> x | Some (e, _, _) \<Rightarrow> e) (take 16 cs) (map (child_update H ser) ch) =
      map (\<lambda>i. child_entry H ser (ch ! i) (cs ! i)) [0..<16]"
    by (rule nth_equalityI) (use assms in \<open>auto simp: child_entry_def split: option.splits\<close>)
  have ops: "map (\<lambda>r. case r of None \<Rightarrow> [] | Some (_, _, ops) \<Rightarrow> ops) (map (child_update H ser) ch) =
      map (child_ops H ser) ch"
    by (simp add: child_ops_def comp_def)
  show ?thesis
    unfolding update_hash.simps rs Let_def ch cs ops by (simp split: prod.splits)
qed

declare update_hash.simps [simp del]

lemma update_hash_touches:
  assumes "good V M n" and "update_hash H ser n = (r, n', ops)"
  shows "touches (nib (location_of n)) ops \<and> location_of n' = location_of n \<and> \<not> modified n'"
  using assms
proof (induction n arbitrary: r n' ops)
  case (NodeFrm l ch cs m d lf)
  let ?p = "nib l"
  note gp = good_parts [OF NodeFrm.prems(1)]
  obtain c16 leaf_ops where lo: "update_leaf H l d lf (cs ! 16) = (c16, leaf_ops)" by fastforce
  let ?cs = "map (\<lambda>i. child_entry H ser (ch ! i) (cs ! i)) [0..<16] @ [c16]"
  obtain res op where re: "update_result H ser l ?cs = (res, op)" by fastforce
  have n': "n' = NodeFrm l (map (child_node H ser) ch) ?cs False d lf"
    and ops: "ops = leaf_ops @ concat (map (child_ops H ser) ch) @ [op]"
    using NodeFrm.prems(2) update_hash_unfold [OF gp(2,3)] lo re by simp_all
  have "touches ?p leaf_ops"
    using lo gp(1,4) by (auto simp: update_leaf_def touches_def leaf_ok_def split: if_splits option.splits)
  moreover have "touches ?p [op]"
    using re gp(1) by (auto simp: update_result_def touches_def Let_def split: if_splits)
  moreover have "touches ?p (child_ops H ser co)" if co: "co \<in> set ch" for co
  proof -
    obtain i where i: "i < 16" "ch ! i = co" using co gp(2) by (auto simp: in_set_conv_nth)
    show ?thesis
    proof (cases "\<exists>c. co = Some c \<and> modified c")
      case True
      then obtain c where c: "co = Some c" "modified c" by blast
      obtain r' c' ops' where u: "update_hash H ser c = (r', c', ops')" by (metis prod_cases3)
      have "touches (nib (location_of c)) ops'"
        using NodeFrm.IH [OF co, of c, OF _ gp(6) [OF i(1)] u] c i by simp
      moreover have "prefix (?p @ [i]) (nib (location_of c))"
        using branch_ok_Some(1) gp(5) [OF i(1)] i(2) c by metis
      ultimately show ?thesis
        using c u by (auto simp: child_parts touches_def dest: append_prefixD intro: prefix_order.trans)
    qed (auto simp: child_parts touches_def split: option.splits)
  qed
  ultimately show ?case using n' ops by (auto simp: touches_def)
qed

section \<open>The report to the parent\<close>

lemma branching_live:
  assumes "keys_ok M"
  shows "branching M p \<longleftrightarrow> 2 \<le> card (live (info_of H ser M p))"
proof
  let ?L = "live (info_of H ser M p)"
  have fin: "finite ?L" by (simp add: live_def)
  show "branching M p" if two: "2 \<le> card ?L"
  proof -
    have "\<not> card ?L \<le> Suc 0" using two by simp
    then obtain i j where "i \<in> ?L" "j \<in> ?L" "i \<noteq> j" using card_le_Suc0_iff_eq [OF fin] by auto
    then show ?thesis using two_branches [OF assms] by (simp add: branching_def)
  qed
  assume b: "branching M p"
  show "2 \<le> card ?L"
  proof (rule ccontr)
    assume "\<not> 2 \<le> card ?L"
    then consider "?L = {}" | i where "?L = {i}"
      using card_cases [OF fin] by metis
    then show False
    proof cases
      case 1
      then show False using b canon_no_branch(1) [OF assms 1] by (auto simp: branching_def)
    next
      case (2 i)
      show False
      proof (cases "i < 16")
        case True
        let ?S = "dom (under p M)"
        have "\<forall>k \<in> ?S. prefix (p @ [i]) k" using one_branch_under [OF assms 2 True] by (simp add: dom_under)
        moreover have "?S \<noteq> {}" using b by (auto simp: branching_def)
        ultimately have "length (p @ [i]) \<le> length (Longest_common_prefix ?S)"
          by (intro Longest_common_prefix_longest)
        then show False using b by (simp add: branching_def)
      next
        case False
        then show False using b only_leaf_under(2) [OF assms 2] by (simp add: branching_def)
      qed
    qed
  qed
qed

lemma update_result_branches:
  assumes "length cs = 17" and "bs = filter (\<lambda>i. childtype (cs ! i) \<noteq> NONE) (16 # [0..<16])"
  shows "set bs = live cs" and "length bs = card (live cs)"
proof -
  have "i \<in> set bs \<longleftrightarrow> i \<in> live cs" for i
    by (cases "i < 16") (auto simp: assms(2) live_def)
  then show s: "set bs = live cs" by blast
  have "distinct bs" using assms(2) by auto
  then show "length bs = card (live cs)" using s distinct_card by metis
qed

lemma update_result_canon:
  assumes M: "keys_ok M" and l: "wf_loc l"
  shows "update_result H ser l (info_of H ser M (nib l)) =
     (if branching M (nib l) \<or> l = rootl
      then (\<lparr>sublocation = l, hash = H (ser (info_of H ser M (nib l))), childtype = INNER\<rparr>, StorageSaveNode l (info_of H ser M (nib l)))
      else (canon H ser (under (nib l) M), StorageDeleteNode l))"
proof -
  let ?cs = "info_of H ser M (nib l)"
  define bs where "bs = filter (\<lambda>i. childtype (?cs ! i) \<noteq> NONE) (16 # [0..<16])"
  note br = update_result_branches [OF length_info_of bs_def]
  have len: "branching M (nib l) \<longleftrightarrow> 2 \<le> length bs" using branching_live [OF M] br(2) by simp
  have zero: "canon H ser (under (nib l) M) = Child_default" if "length bs = 0"
    using canon_no_branch(2) [OF M] br(1) that by simp
  have one: "canon H ser (under (nib l) M) = ?cs ! last bs" if 1: "length bs = 1"
  proof -
    obtain i where "bs = [i]" using 1 by (cases bs) auto
    then show ?thesis using canon_one_branch [OF M] br(1) by simp
  qed
  consider "length bs = 0" | "length bs = 1" | "2 \<le> length bs" by linarith
  then show ?thesis
    using zero one len unfolding update_result_def Let_def bs_def [symmetric] by cases auto
qed

section \<open>Hashing a modified node\<close>

lemma written_extend:
  assumes w: "written V M r" and q: "prefix q r"
    and out: "\<And>k. is_key k \<Longrightarrow> prefix q k \<Longrightarrow> \<not> prefix r k \<Longrightarrow> M k = None \<and> v_leaf V k = None"
    and M: "keys_ok M"
  shows "written V M q"
proof -
  have none: "M k = None" if "prefix q k" "\<not> prefix r k" for k
    using out that keys_None [OF M] by blast
  have "prefix r p" if "prefix q p" "branching M p" for p
  proof -
    let ?S = "dom (under p M)"
    have "prefix r k" if k: "k \<in> ?S" for k
    proof -
      have "M k \<noteq> None" "prefix q k"
        using k prefix_order.trans [OF \<open>prefix q p\<close>] by (auto simp: dom_under)
      then show ?thesis using none by metis
    qed
    moreover have "?S \<noteq> {}" using that(2) by (auto simp: branching_def)
    ultimately have "prefix r (Longest_common_prefix ?S)" by (intro Longest_common_prefix_max_prefix) auto
    then show ?thesis using that(2) by (simp add: branching_def)
  qed
  then have "nodes_stored V (v_node V) M q" using w by (auto simp: written_def nodes_stored_def)
  moreover have "leaves_stored V M q"
    unfolding leaves_stored_def
  proof (intro allI impI)
    fix k assume k: "prefix q k" "is_key k"
    show "v_leaf V k = M k"
      using w out [OF k(2,1)] k by (cases "prefix r k") (auto simp: written_def leaves_stored_def)
  qed
  ultimately show ?thesis by (simp add: written_def)
qed

text \<open>What hashing achieves for one child, in whatever state of the storage views it starts.\<close>

definition hashes :: "content \<Rightarrow> store_view \<Rightarrow> node_frm \<Rightarrow> bool" where
  "hashes M V n \<longleftrightarrow>
     (case update_hash (v_hash V) (v_ser V) n of (r, n', ops) \<Rightarrow>
        good (fold view_op ops V) M n' \<and> written (fold view_op ops V) M (nib (location_of n)) \<and>
        r = (if location_of n = rootl
             then \<lparr>sublocation = rootl, hash = v_hash V (v_ser V (node_info V M [])), childtype = INNER\<rparr>
             else entry V M (nib (location_of n))))"

definition avoids :: "nat list \<Rightarrow> storage_op list \<Rightarrow> bool" where
  "avoids q ops \<longleftrightarrow> (\<forall>op \<in> set ops. wf_loc (op_loc op) \<and> \<not> prefix q (nib (op_loc op)))"

lemma rootl_pack: "rootl = pack []" "nib rootl = []"
  by (simp_all add: rootl_def pack_def EVEN_PREFIX_def nib_def)

lemma child_hashed:
  assumes M: "keys_ok M" and b: "branch_ok V M (p @ [i]) m (Some c) e" and g: "good V M c"
    and u: "update_hash (v_hash V) (v_ser V) c = (r, c', ops)"
    and ih: "\<And>V. good V M c \<Longrightarrow> hashes M V c"
    and a: "avoids (p @ [i]) ops1" "avoids (p @ [i]) ops2"
    and W: "W = fold view_op (ops1 @ ops @ ops2) V"
  shows "branch_ok W M (p @ [i]) False (Some c') r \<and> good W M c'"
proof -
  let ?q = "p @ [i]" and ?l = "nib (location_of c)"
  let ?V1 = "fold view_op ops1 V" let ?V2 = "fold view_op ops ?V1"
  note bs = branch_ok_Some [OF b]
  have ag: "agree ?q V ?V1" "agree ?q ?V2 W"
    using a W by (auto simp: avoids_def intro!: agree_avoid)
  have "good ?V1 M c" using good_cong [OF agree_mono [OF ag(1) bs(1)] refl g] .
  then have h: "hashes M ?V1 c" by (rule ih)
  have "?l \<noteq> []" using bs(1) by auto
  then have "location_of c \<noteq> rootl" using rootl_pack(2) by metis
  then have r: "r = entry V M ?l" and g2: "good ?V2 M c'" and w2: "written ?V2 M ?l"
    using h u by (simp_all add: hashes_def)
  have t: "touches ?l ops" "location_of c' = location_of c" "\<not> modified c'"
    using update_hash_touches [OF g u] by simp_all
  have g3: "good W M c'" using good_cong [OF agree_mono [OF ag(2)] refl g2] bs(1) t(2) by simp
  have w3: "written W M ?l" using written_cong [OF agree_mono [OF ag(2) bs(1)] refl] w2 by simp
  have out: "M k = None \<and> v_leaf W k = None" if "is_key k" "prefix ?q k" "\<not> prefix ?l k" for k
  proof -
    have "v_leaf W k = v_leaf ?V2 k" "v_leaf ?V1 k = v_leaf V k"
      using ag that by (simp_all add: agree_def)
    then show ?thesis using leaf_untouched [OF t(1) that(3)] bs(3,4) that by simp
  qed
  have "under ?q M = under ?l M"
    using bs(1,3) keys_None [OF M] by (intro under_extend) metis+
  then have "r = entry W M ?q" using r W by (simp add: entry_def)
  moreover have "written W M ?q" using written_extend [OF w3 bs(1) _ M] out by blast
  ultimately show ?thesis
    using g3 bs(1,2) t out by (simp add: branch_ok_def)
qed

text \<open>The same for any child: those that are not modified are left alone.\<close>

lemma branch_hashed:
  assumes M: "keys_ok M" and b: "branch_ok V M (p @ [i]) m co e"
    and g: "\<And>c. co = Some c \<Longrightarrow> good V M c"
    and ih: "\<And>c V. co = Some c \<Longrightarrow> good V M c \<Longrightarrow> hashes M V c"
    and a: "avoids (p @ [i]) ops1" "avoids (p @ [i]) ops2"
    and W: "W = fold view_op (ops1 @ child_ops (v_hash V) (v_ser V) co @ ops2) V"
  shows "branch_ok W M (p @ [i]) False (child_node (v_hash V) (v_ser V) co) (child_entry (v_hash V) (v_ser V) co e) \<and>
     (\<forall>c. child_node (v_hash V) (v_ser V) co = Some c \<longrightarrow> good W M c)"
proof (cases "\<exists>c. co = Some c \<and> modified c")
  case True
  then obtain c where c: "co = Some c" "modified c" by blast
  obtain r c' ops where u: "update_hash (v_hash V) (v_ser V) c = (r, c', ops)" by (metis prod_cases3)
  show ?thesis
    using child_hashed [OF M b [unfolded c(1)] g [OF c(1)] u ih [OF c(1)] a] W c u
    by (simp add: child_parts)
next
  case False
  then have same: "child_update (v_hash V) (v_ser V) co = None"
    by (auto simp: child_update_def split: option.splits)
  have "avoids (p @ [i]) (ops1 @ ops2)" using a by (auto simp: avoids_def)
  then have ag: "agree (p @ [i]) V W"
    using agree_avoid [of "ops1 @ ops2" "p @ [i]" V] W same by (simp add: avoids_def child_ops_def)
  have "branch_ok V M (p @ [i]) False co e" using b False by (auto simp: branch_ok_def split: option.splits)
  then have "branch_ok W M (p @ [i]) False co e" using branch_ok_cong [OF ag refl] by metis
  moreover have "good W M c" if "co = Some c" for c
    using good_cong [OF agree_mono [OF ag] refl g [OF that]] branch_ok_Some(1) b that by blast
  ultimately show ?thesis using same by (simp add: child_node_def child_entry_def)
qed

lemma child_ops_touch:
  assumes "good V M (NodeFrm l ch cs m d lf)" and "i < 16"
  shows "touches (nib l @ [i]) (child_ops H ser (ch ! i))"
proof (cases "\<exists>c. ch ! i = Some c \<and> modified c")
  case True
  then obtain c where c: "ch ! i = Some c" "modified c" by blast
  obtain r c' ops where u: "update_hash H ser c = (r, c', ops)" by (metis prod_cases3)
  have "touches (nib (location_of c)) ops"
    using update_hash_touches [OF good_parts(6) [OF assms c(1)] u] by simp
  moreover have "prefix (nib l @ [i]) (nib (location_of c))"
    using branch_ok_Some(1) good_parts(5) [OF assms] c(1) by metis
  ultimately show ?thesis
    using c u by (auto simp: child_parts touches_def intro: prefix_order.trans)
qed (auto simp: child_parts touches_def split: option.splits)

lemma leaf_other_fold:
  "\<forall>op \<in> set ops. nib (op_loc op) \<noteq> k \<Longrightarrow> v_leaf (fold view_op ops U) k = v_leaf U k"
  by (induction ops arbitrary: U) (simp_all add: view_op_leaf_other)

lemma children_leaf_untouched:
  assumes "good V M (NodeFrm l ch cs m d lf)"
  shows "v_leaf (fold view_op (concat (map (child_ops H ser) ch)) U) (nib l) = v_leaf U (nib l)"
proof (rule leaf_other_fold, rule ballI)
  fix op assume "op \<in> set (concat (map (child_ops H ser) ch))"
  then obtain co where co: "co \<in> set ch" "op \<in> set (child_ops H ser co)" by auto
  then obtain i where "i < 16" "co = ch ! i" using good_parts(2) [OF assms] by (auto simp: in_set_conv_nth)
  then have "prefix (nib l @ [i]) (nib (op_loc op))"
    using child_ops_touch [OF assms] co(2) by (auto simp: touches_def)
  then show "nib (op_loc op) \<noteq> nib l" using not_prefix_longer by metis
qed

lemma avoids_append [simp]: "avoids q (xs @ ys) \<longleftrightarrow> avoids q xs \<and> avoids q ys"
  by (auto simp: avoids_def)

lemma touches_avoids: "touches (p @ [j]) ops \<Longrightarrow> i \<noteq> j \<Longrightarrow> avoids (p @ [i]) ops"
  by (auto simp: touches_def avoids_def dest: branch_unique)

lemma avoids_children:
  assumes "good V M (NodeFrm l ch cs m d lf)" and "\<And>co. co \<in> set cos \<Longrightarrow> \<exists>j < 16. j \<noteq> i \<and> ch ! j = co"
  shows "avoids (nib l @ [i]) (concat (map (child_ops H ser) cos))"
proof -
  have "avoids (nib l @ [i]) (child_ops H ser co)" if "co \<in> set cos" for co
    using assms(2) [OF that] child_ops_touch [OF assms(1)] touches_avoids by metis
  then show ?thesis by (auto simp: avoids_def)
qed

text \<open>The calls made for the other children avoid a branch.\<close>

lemma split_child_ops:
  assumes g: "good V M (NodeFrm l ch cs m d lf)" and i: "i < 16"
  obtains ops1 ops2 where "concat (map (child_ops H ser) ch) = ops1 @ child_ops H ser (ch ! i) @ ops2"
    and "avoids (nib l @ [i]) ops1" and "avoids (nib l @ [i]) ops2"
proof
  have len: "length ch = 16" using good_parts(2) [OF g] .
  show "concat (map (child_ops H ser) ch) = concat (map (child_ops H ser) (take i ch)) @
      child_ops H ser (ch ! i) @ concat (map (child_ops H ser) (drop (Suc i) ch))"
    using id_take_nth_drop [of i ch] i len by (metis concat.simps(2) concat_append list.simps(9) map_append)
  show "avoids (nib l @ [i]) (concat (map (child_ops H ser) (take i ch)))"
  proof (intro avoids_children [OF g])
    fix co assume "co \<in> set (take i ch)"
    then obtain j where "j < i" "co = ch ! j" using len i by (auto simp: in_set_conv_nth)
    then show "\<exists>j < 16. j \<noteq> i \<and> ch ! j = co" using i by (intro exI [of _ j]) auto
  qed
  show "avoids (nib l @ [i]) (concat (map (child_ops H ser) (drop (Suc i) ch)))"
  proof (intro avoids_children [OF g])
    fix co assume "co \<in> set (drop (Suc i) ch)"
    then obtain j where "j < 16 - Suc i" "co = ch ! (Suc i + j)" using len by (auto simp: in_set_conv_nth)
    then show "\<exists>j < 16. j \<noteq> i \<and> ch ! j = co" by (intro exI [of _ "Suc i + j"]) auto
  qed
qed

lemma update_leaf_view:
  assumes ok: "leaf_ok V M p m d lf c16" and l: "wf_loc l" "p = nib l"
    and u: "update_leaf (v_hash V) l d lf c16 = (c, leaf_ops)"
  shows "c = leafc (v_hash V) M p" and "is_key p \<Longrightarrow> v_leaf (fold view_op leaf_ops V) p = M p"
    and "avoids (p @ [i]) leaf_ops"
proof -
  show "c = leafc (v_hash V) M p"
    using ok u l by (auto simp: leaf_ok_def update_leaf_def leafc_def split: if_splits option.splits)
  show "is_key p \<Longrightarrow> v_leaf (fold view_op leaf_ops V) p = M p"
    using ok u l by (auto simp: leaf_ok_def update_leaf_def split: if_splits option.splits)
  show "avoids (p @ [i]) leaf_ops"
    using u l not_prefix_longer by (auto simp: avoids_def update_leaf_def split: if_splits option.splits)
qed

lemma written_node:
  assumes M: "keys_ok M" and br: "\<And>i. i < 16 \<Longrightarrow> written V M (p @ [i])"
    and leaf: "is_key p \<Longrightarrow> v_leaf V p = M p"
    and node: "halves p \<Longrightarrow> branching M p \<Longrightarrow> v_node V (pack p) = Some (node_info V M p)"
  shows "written V M p"
proof -
  have cases: "r = p \<or> (\<exists>i < 16. prefix (p @ [i]) r)" if "prefix p r" "halves r" for r
    using that strict_prefix_branch [OF that(1)] NextBranch_pack(2) [OF that(2)] by metis
  have "nodes_stored V (v_node V) M p"
    using cases node br by (metis nodes_stored_def written_def)
  moreover have "leaves_stored V M p"
    using cases leaf br by (metis is_key_def leaves_stored_def written_def)
  ultimately show ?thesis by (simp add: written_def)
qed

lemma update_hash_good:
  assumes "keys_ok M" and "good V M n"
  shows "hashes M V n"
  using assms(2)
proof (induction n arbitrary: V)
  case (NodeFrm l ch cs m d lf)
  let ?p = "nib l" and ?H = "v_hash V" and ?ser = "v_ser V"
  note gp = good_parts [OF NodeFrm.prems]
  have l: "l = pack ?p" "l = rootl \<longleftrightarrow> ?p = []" using gp(1) rootl_pack nib_inj [OF gp(1), of rootl] wf_pack [of "[]"] by auto
  obtain c16 leaf_ops where lo: "update_leaf ?H l d lf (cs ! 16) = (c16, leaf_ops)" by fastforce
  note lv = update_leaf_view [OF gp(4) gp(1) refl lo]
  let ?cs = "map (\<lambda>i. child_entry ?H ?ser (ch ! i) (cs ! i)) [0..<16] @ [c16]"
  obtain r op where re: "update_result ?H ?ser l ?cs = (r, op)" by fastforce
  define ops where "ops = leaf_ops @ concat (map (child_ops ?H ?ser) ch) @ [op]"
  define W where "W = fold view_op ops V"
  have u: "update_hash ?H ?ser (NodeFrm l ch cs m d lf) = (r, NodeFrm l (map (child_node ?H ?ser) ch) ?cs False d lf, ops)"
    using update_hash_unfold [OF gp(2,3)] lo re by (simp add: ops_def)
  have op: "op_loc op = l" "\<not> leaf_op op" using re by (auto simp: update_result_def Let_def split: if_splits)
  have br: "branch_ok W M (?p @ [i]) False (child_node ?H ?ser (ch ! i)) (child_entry ?H ?ser (ch ! i) (cs ! i)) \<and>
      (\<forall>c. child_node ?H ?ser (ch ! i) = Some c \<longrightarrow> good W M c)" if i: "i < 16" for i
  proof -
    obtain ops1 ops2 where s: "concat (map (child_ops ?H ?ser) ch) = ops1 @ child_ops ?H ?ser (ch ! i) @ ops2"
      "avoids (?p @ [i]) ops1" "avoids (?p @ [i]) ops2"
      using split_child_ops [OF NodeFrm.prems i] by metis
    have "avoids (?p @ [i]) (ops2 @ [op])"
      using s(3) op gp(1) not_prefix_longer by (simp add: avoids_def)
    moreover have "hashes M V c" if "ch ! i = Some c" "good V M c" for c V
      using NodeFrm.IH [of "Some c" c V] that gp(2) i by (metis nth_mem option.set_intros)
    ultimately show ?thesis
      using branch_hashed [OF assms(1) gp(5) [OF i] gp(6) [OF i], of "leaf_ops @ ops1" "ops2 @ [op]" W] s lv(3)
      by (simp add: W_def ops_def)
  qed
  have ent: "child_entry ?H ?ser (ch ! i) (cs ! i) = entry V M (?p @ [i])" "written W M (?p @ [i])" if "i < 16" for i
    using br [OF that] by (auto simp: branch_ok_def settled_def W_def split: option.splits)
  have cs: "?cs = node_info V M ?p"
    unfolding node_info_def using ent(1) lv(1)
    by (intro info_of_eqI) (simp_all add: nth_append entry_def)
  have leaf: "v_leaf W ?p = M ?p" if "is_key ?p"
  proof -
    have "v_leaf (fold view_op (concat (map (child_ops ?H ?ser) ch)) U) ?p = v_leaf U ?p" for U
      using children_leaf_untouched [OF NodeFrm.prems] .
    then show ?thesis
      using lv(2) [OF that] op view_op_leaf_other by (simp add: W_def ops_def)
  qed
  have res: "(r, op) = (if branching M ?p \<or> l = rootl
      then (\<lparr>sublocation = l, hash = ?H (?ser ?cs), childtype = INNER\<rparr>, StorageSaveNode l ?cs)
      else (entry V M ?p, StorageDeleteNode l))"
    unfolding re [symmetric] cs node_info_def entry_def by (rule update_result_canon [OF assms(1) gp(1)])
  have node: "v_node W l = Some (node_info W M ?p)" if "branching M ?p \<or> l = rootl"
    using res that cs by (simp add: W_def ops_def node_info_def)
  have "written W M ?p"
    using written_node [OF assms(1) ent(2) leaf] node l(1) by simp
  moreover have "good W M (NodeFrm l (map (child_node ?H ?ser) ch) ?cs False d lf)"
  proof (rule good_intro)
    show "leaf_ok W M ?p False d lf (?cs ! 16)"
      using gp(4) leaf lv(1) by (auto simp: leaf_ok_def nth_append W_def)
  qed (use gp br in \<open>simp_all add: nth_append\<close>)
  moreover have "r = (if l = rootl then \<lparr>sublocation = rootl, hash = ?H (?ser (node_info V M [])), childtype = INNER\<rparr> else entry V M ?p)"
  proof (cases "branching M ?p \<and> l \<noteq> rootl")
    case True
    then have "entry V M ?p = \<lparr>sublocation = l, hash = ?H (?ser (node_info V M ?p)), childtype = INNER\<rparr>"
      using canon_inner [of "under ?p M" ?p] l(1) by (simp add: entry_def branching_def node_info_def info_of_under)
    then show ?thesis using res cs True by simp
  qed (use res cs l rootl_pack in auto)
  ultimately show ?case using u by (simp add: hashes_def W_def)
qed

text \<open>Hashing the root also stores the root node.\<close>

lemma update_hash_root:
  assumes "keys_ok M" and "good V M n" and "location_of n = rootl" and "update_hash (v_hash V) (v_ser V) n = (r, n', ops)"
  shows "hash r = v_hash V (v_ser V (node_info V M []))" and "good (fold view_op ops V) M n'"
    and "written (fold view_op ops V) M []" and "v_node (fold view_op ops V) rootl = Some (node_info V M [])"
    and "info n' = node_info V M []" and "location_of n' = rootl" and "\<not> modified n'" and "touches [] ops"
proof -
  have h: "hashes M V n" using update_hash_good [OF assms(1,2)] .
  then show "hash r = v_hash V (v_ser V (node_info V M []))" "written (fold view_op ops V) M []"
    and g: "good (fold view_op ops V) M n'"
    using assms(3,4) rootl_pack by (simp_all add: hashes_def)
  have t: "touches [] ops \<and> location_of n' = rootl \<and> \<not> modified n'"
    using update_hash_touches [OF assms(2,4)] assms(3) rootl_pack by simp
  then show "touches [] ops" "location_of n' = rootl" "\<not> modified n'" by simp_all
  obtain ch cs d lf where n': "n' = NodeFrm rootl ch cs False d lf" using t by (cases n') simp
  note gp = good_parts [OF g [unfolded n']]
  have "cs = node_info V M []"
    unfolding node_info_def
  proof (rule info_of_eqI)
    show "cs ! i = canon (v_hash V) (v_ser V) (under ([] @ [i]) M)" if "i < 16" for i
      using clean_entries(1) [OF g [unfolded n'] that] rootl_pack by (simp add: entry_def)
    show "cs ! 16 = leafc (v_hash V) M []" using gp(4) rootl_pack by (simp add: leaf_ok_def)
  qed (rule gp(3))
  then show "info n' = node_info V M []" using n' by simp
  obtain l0 ch0 cs0 m0 d0 lf0 where n: "n = NodeFrm l0 ch0 cs0 m0 d0 lf0" by (cases n)
  note gn = good_parts [OF assms(2) [unfolded n]]
  have "\<exists>ops0. ops = ops0 @ [StorageSaveNode rootl (info n')]"
    using assms(3,4) n update_hash_unfold [OF gn(2,3), of "v_hash V" "v_ser V" l0 m0 d0 lf0]
    by (auto simp: update_result_def Let_def split: prod.splits if_splits)
  then show "v_node (fold view_op ops V) rootl = Some (node_info V M [])"
    using \<open>info n' = node_info V M []\<close> by auto
qed

end
