(* ===== verification/Trie_Db.thy ===== *)
theory Trie_Db
  imports Trie_Hash
begin

text \<open>
  The trie on its database as an authenticated map. \<open>trie_inv\<close> relates the state of a \<^verbatim>\<open>KVTrie\<close> to
  the map it represents; every operation returns and keeps it. The interface, a map whose
  digest after a commit depends on the contents alone, is the locale \<open>authenticated_map\<close>; it is
  interpreted on the operations of the trie, and the root hash theorems come from there.
\<close>

section \<open>The database as storage views\<close>

definition view :: "trie_env \<Rightarrow> cstring \<Rightarrow> (cstring \<rightharpoonup> cstring) \<Rightarrow> (cstring \<rightharpoonup> cstring) \<Rightarrow> store_view" where
  "view E pre db db' = \<lparr>v_hash = HashCrypto E, v_ser = SerializeAsString E, v_load = storage_load E pre db,
     v_node = storage_load E pre db', v_leaf = (\<lambda>k. StorageGetLeaf pre db' (pack k))\<rparr>"

text \<open>What the trie relies on in the protobuf library: parsing inverts serialization.\<close>

definition env_ok :: "trie_env \<Rightarrow> bool" where
  "env_ok E \<longleftrightarrow> (\<forall>cs. ParseFromString E (SerializeAsString E cs) = cs)"

lemma pack_key: "is_key k \<Longrightarrow> pack k = EVEN_PREFIX # tl (pack k)"
  by (simp add: pack_def is_key_def)

lemma DBkey_node [simp]: "Location2DBkey pre a False = Location2DBkey pre b False \<longleftrightarrow> a = b"
  by (simp add: Location2DBkey_def)

lemma DBkey_leaf: "is_key a \<Longrightarrow> is_key b \<Longrightarrow>
    Location2DBkey pre (pack a) True = Location2DBkey pre (pack b) True \<longleftrightarrow> a = b"
  by (auto simp: Location2DBkey_def pack_inj is_key_def dest: pack_key) 
    (metis is_key_def list_update_code(2) pack_inj pack_key list.inject)

lemma DBkey_apart: "halves p \<Longrightarrow> Location2DBkey pre (pack p) False \<noteq> Location2DBkey pre (pack k) True"
  by (simp add: Location2DBkey_def pack_def EVEN_PREFIX_def ODD_PREFIX_def LEAF_PREFIX_def)

lemma agree_view_op:
  assumes E: "env_ok E" and op: "wf_loc (op_loc op)" "leaf_op op \<Longrightarrow> is_key (nib (op_loc op))"
    and ag: "agree [] U (view E pre db d)"
  shows "agree [] (view_op op U) (view E pre db (write_op (storage_batch E pre op) d))"
proof -
  obtain p where p: "op_loc op = pack p" "halves p" using op(1) by (metis halves_nib pack_nib)
  have key: "leaf_op op \<Longrightarrow> is_key p" using op(2) p by simp
  show ?thesis
    using ag p key E
    by (cases op)
      (auto simp: agree_def view_def storage_load_def StorageGetLeaf_def env_ok_def pack_inj DBkey_leaf
        DBkey_apart DBkey_apart [THEN not_sym] is_key_def)
qed

lemma agree_write_ops:
  assumes "env_ok E" and "touches [] ops" and "agree [] U (view E pre db d)"
  shows "agree [] (fold view_op ops U) (view E pre db (fold write_op (map (storage_batch E pre) ops) d))"
  using assms(2,3)
proof (induction ops arbitrary: U d)
  case (Cons op ops)
  have "agree [] (view_op op U) (view E pre db (write_op (storage_batch E pre op) d))"
    using agree_view_op [OF assms(1)] Cons.prems by (simp add: touches_def)
  then show ?case using Cons by (simp add: touches_def)
qed simp

text \<open>Writing the batch makes the pending view the one that is read.\<close>

lemma good_flush:
  assumes ld: "\<And>p. halves p \<Longrightarrow> ld (pack p) = v_node V (pack p)" and "good V M n"
  shows "good (V\<lparr>v_load := ld\<rparr>) M n"
  using assms(2)
proof (induction n)
  case (NodeFrm l ch cs m d lf)
  let ?V = "V\<lparr>v_load := ld\<rparr>"
  note gp = good_parts [OF NodeFrm.prems]
  have info: "node_info ?V = node_info V" "entry ?V = entry V"
    by (simp_all add: node_info_def entry_def fun_eq_iff)
  have w: "written ?V M q = written V M q" for q
    by (simp add: written_def nodes_stored_def leaves_stored_def info)
  have s: "settled ?V M q" if "settled V M q" for q
    using that ld by (simp add: settled_def w) (simp add: written_def nodes_stored_def info)
  show ?case
  proof (rule good_intro)
    show "leaf_ok ?V M (nib l) m d lf (cs ! 16)" using gp(4) by (simp add: leaf_ok_def)
    fix i assume i: "i < (16::nat)"
    show "branch_ok ?V M (nib l @ [i]) m (ch ! i) (cs ! i)"
      using gp(5) [OF i] s w info by (cases "ch ! i") (simp_all add: branch_ok_def)
    fix c assume "ch ! i = Some c"
    then show "good ?V M c" using NodeFrm.IH [of "Some c" c] gp(2) gp(6) [OF i] i by (metis nth_mem option.set_intros)
  qed (use gp in simp_all)
qed

section \<open>Releasing and loading nodes\<close>

lemma Release_good:
  assumes "good V M n" and "\<not> modified n" and "v_load V = v_node V"
  shows "good V M (Release depth n) \<and> location_of (Release depth n) = location_of n \<and> \<not> modified (Release depth n)"
  using assms
proof (induction n arbitrary: depth)
  case (NodeFrm l ch cs m d lf)
  have m: "m = False" using NodeFrm.prems by simp
  note g = NodeFrm.prems(1) [unfolded m]
  note gp = good_parts [OF g]
  let ?f = "\<lambda>co. case co of None \<Rightarrow> None | Some c \<Rightarrow> if depth \<le> 0 then None else Some (Release (depth - 1) c)"
  have child: "good V M (Release (depth - 1) c) \<and> location_of (Release (depth - 1) c) = location_of c \<and>
      \<not> modified (Release (depth - 1) c) \<and> \<not> modified c" if "i < 16" "ch ! i = Some c" for i c
    using NodeFrm.IH [of "Some c" c "depth - 1"] gp(2) gp(6) [OF that] clean_entries(3) [OF g that]
      NodeFrm.prems(3) that by (metis nth_mem option.set_intros)
  have "good V M (NodeFrm l (map ?f ch) cs False d lf)"
  proof (rule good_intro)
    fix i assume i: "i < (16::nat)"
    have settled: "settled V M (nib l @ [i])" and e: "cs ! i = entry V M (nib l @ [i])"
      using clean_entries [OF g i] NodeFrm.prems(3) by (simp_all add: settled_def written_def)
    show "branch_ok V M (nib l @ [i]) False (map ?f ch ! i) (cs ! i)"
    proof (cases "ch ! i")
      case None
      then show ?thesis using gp(5) [OF i] gp(2) i by simp
    next
      case (Some c)
      then show ?thesis
        using gp(5) [OF i] gp(2) i child [OF i Some] settled e by (simp add: branch_ok_def)
    qed
    fix c assume "map ?f ch ! i = Some c"
    then show "good V M c" using gp(2) i child [OF i] by (auto split: option.splits if_splits)
  qed (use gp in simp_all)
  then show ?case using m by simp
qed

definition same_node :: "node_frm \<Rightarrow> node_frm \<Rightarrow> bool" where
  "same_node a b \<longleftrightarrow> location_of a = location_of b \<and> info a = info b \<and> modified a = modified b \<and>
     leaf_deleted a = leaf_deleted b \<and> leaf a = leaf b"

lemma Load_good:
  assumes "good V M n" and "keys_ok M"
  shows "\<exists>n'. Load (v_load V) depth n = Some n' \<and> good V M n' \<and> same_node n n'"
  using assms(1)
proof (induction depth arbitrary: n)
  case 0
  then show ?case by (simp add: same_node_def)
next
  case (Suc depth)
  let ?f = "\<lambda>i st. case st of None \<Rightarrow> None | Some node \<Rightarrow>
         (case ChildMayFromDB (v_load V) node i of None \<Rightarrow> None
          | Some (node, None) \<Rightarrow> Some node
          | Some (node, Some c) \<Rightarrow> map_option (\<lambda>c. put_child i c node) (Load (v_load V) depth c))"
  have step: "\<exists>n'. ?f i (Some x) = Some n' \<and> good V M n' \<and> same_node x n'" if x: "good V M x" and i: "i < 16" for i x
  proof -
    obtain ch co where l: "ChildMayFromDB (v_load V) x i = Some (NodeFrm (location_of x) ch (info x) (modified x) (leaf_deleted x) (leaf x), co)"
      and g: "good V M (NodeFrm (location_of x) ch (info x) (modified x) (leaf_deleted x) (leaf x))" and co: "ch ! i = co"
      using ChildMayFromDB_good [OF x assms(2) i] by metis
    show ?thesis
    proof (cases co)
      case None
      then show ?thesis using l g by (simp add: same_node_def)
    next
      case (Some c)
      then obtain c' where c': "Load (v_load V) depth c = Some c'" "good V M c'" "same_node c c'"
        using Suc.IH good_parts(6) [OF g i] co by blast
      then show ?thesis
        using l Some good_put_same [OF g i, of c c'] co by (simp add: same_node_def)
    qed
  qed
  have all: "\<exists>n'. fold ?f is (Some x) = Some n' \<and> good V M n' \<and> same_node x n'" if "good V M x" "\<forall>i \<in> set is. i < 16" for "is" x
    using that
  proof (induction "is" arbitrary: x)
    case (Cons i "is")
    obtain y where y: "?f i (Some x) = Some y" "good V M y" "same_node x y"
      using step [OF Cons.prems(1), of i] Cons.prems(2) by auto
    obtain z where z: "fold ?f is (Some y) = Some z" "good V M z" "same_node y z"
      using Cons.IH [OF y(2)] Cons.prems(2) by auto
    have "fold ?f (i # is) (Some x) = fold ?f is (?f i (Some x))" by simp
    then show ?case using y z by (auto simp: same_node_def)
  qed (simp add: same_node_def)
  show ?case unfolding Load.simps by (rule all) (use Suc.prems in auto)
qed

section \<open>The map a trie represents\<close>

definition kn :: "cstring \<Rightarrow> nat list" where
  "kn key = nib (Key2Location key)"

definition kmap :: "(cstring \<rightharpoonup> cstring) \<Rightarrow> content" where
  "kmap C k = (if is_key k then C (tl (pack k)) else None)"

lemma is_key_kn [simp]: "is_key (kn key)"
  by (simp add: kn_def is_key_def)

lemma pack_kn [simp]: "pack (kn key) = Key2Location key"
  by (simp add: kn_def)

lemma kn_pack: "is_key k \<Longrightarrow> kn (tl (pack k)) = k"
  by (metis Key2Location_def is_key_def kn_def nib_pack pack_key)

lemma length_kn: "length (kn key) = 2 * length key"
  by (simp add: kn_def nib_def Key2Location_def length_nibs)

lemma kmap_kn [simp]: "kmap C (kn key) = C key"
  by (simp add: kmap_def Key2Location_def)

lemma kmap_upd: "kmap (C(key := x)) = (kmap C)(kn key := x)"
proof
  fix k
  show "kmap (C(key := x)) k = ((kmap C)(kn key := x)) k"
    using kn_pack [of k] by (auto simp: kmap_def Key2Location_def)
qed

lemma keys_ok_kmap:
  assumes "finite (dom C)"
  shows "keys_ok (kmap C)"
proof -
  have "dom (kmap C) \<subseteq> kn ` dom C"
    using kn_pack by (force simp: kmap_def split: if_splits)
  moreover have "\<forall>k \<in> dom (kmap C). is_key k" by (auto simp: kmap_def split: if_splits)
  ultimately show ?thesis
    using assms finite_subset [OF _ finite_imageI] by (auto simp: keys_ok_def is_key_def)
qed

definition root_of :: "trie_env \<Rightarrow> (cstring \<rightharpoonup> cstring) \<Rightarrow> cstring" where
  "root_of E C = HashCrypto E (SerializeAsString E (info_of (HashCrypto E) (SerializeAsString E) (kmap C) []))"

definition tview :: "trie_env \<Rightarrow> kv_trie \<Rightarrow> store_view" where
  "tview E t = view E (prefix_str t) (mdb t) (WriteBatch (batch t) (mdb t))"

definition trie_inv :: "trie_env \<Rightarrow> kv_trie \<Rightarrow> (cstring \<rightharpoonup> cstring) \<Rightarrow> bool" where
  "trie_inv E t C \<longleftrightarrow> env_ok E \<and> finite (dom C) \<and> location_of (root t) = rootl \<and> good (tview E t) (kmap C) (root t)"

text \<open>Nothing pending: a lookup sees the whole content.\<close>

definition synced :: "trie_env \<Rightarrow> kv_trie \<Rightarrow> (cstring \<rightharpoonup> cstring) \<Rightarrow> bool" where
  "synced E t C \<longleftrightarrow> trie_inv E t C \<and> batch t = [] \<and> good (tview E t) (kmap C) (set_modified False (root t)) \<and>
     storage_load E (prefix_str t) (mdb t) rootl = Some (node_info (tview E t) (kmap C) []) \<and>
     written (tview E t) (kmap C) []"

lemma tview_load [simp]: "v_load (tview E t) = storage_load E (prefix_str t) (mdb t)"
  "v_hash (tview E t) = HashCrypto E" "v_ser (tview E t) = SerializeAsString E"
  by (simp_all add: tview_def view_def)

lemma tview_root_upd [simp]: "tview E (t\<lparr>root := n\<rparr>) = tview E t"
  by (simp add: tview_def)

lemma tview_synced: "batch t = [] \<Longrightarrow> v_node (tview E t) = storage_load E (prefix_str t) (mdb t)"
  "batch t = [] \<Longrightarrow> v_leaf (tview E t) = (\<lambda>k. StorageGetLeaf (prefix_str t) (mdb t) (pack k))"
  by (simp_all add: tview_def view_def WriteBatch_def)

lemma fuel_enough: "length (kn key) < walk_fuel key + length (nib rootl)"
  by (simp add: length_kn walk_fuel_def)

lemma root_prefix: "prefix (nib rootl) k"
  by (simp add: rootl_pack)

lemma Set_key_inv:
  assumes "trie_inv E t C"
  shows "\<exists>r t'. Set_key E t key v = Some (r, t') \<and> trie_inv E t' (C(key \<mapsto> v))"
proof -
  have a: "location_of (root t) = rootl" "good (tview E t) (kmap C) (root t)" "keys_ok (kmap C)" "env_ok E" "finite (dom C)"
    using assms keys_ok_kmap by (auto simp: trie_inv_def)
  obtain b n where "SetItem (v_load (tview E t)) (walk_fuel key) (root t) (pack (kn key)) v = Some (b, n)"
    "good (tview E t) ((kmap C)(kn key \<mapsto> v)) n" "location_of n = rootl"
    using SetItem_good [OF a(2,3) is_key_kn, of key "walk_fuel key" v] fuel_enough [of key] root_prefix a(1)
    by (auto split: option.splits)
  then show ?thesis
    using a(4,5) by (simp add: Set_key_def trie_inv_def kmap_upd)
qed

lemma Delete_key_inv:
  assumes "trie_inv E t C"
  shows "\<exists>r t'. Delete_key E t key = Some (r, t') \<and> trie_inv E t' (C(key := None)) \<and> (\<not> r \<longrightarrow> C key = None)"
proof -
  have a: "location_of (root t) = rootl" "good (tview E t) (kmap C) (root t)" "keys_ok (kmap C)" "env_ok E" "finite (dom C)"
    using assms keys_ok_kmap by (auto simp: trie_inv_def)
  obtain b n where "DeleteItem (v_load (tview E t)) (walk_fuel key) (root t) (pack (kn key)) = Some (b, n)"
    "good (tview E t) ((kmap C)(kn key := None)) n" "location_of n = rootl" "\<not> b \<longrightarrow> C key = None"
    using DeleteItem_good [OF a(2,3) is_key_kn, of key "walk_fuel key"] fuel_enough [of key] root_prefix a(1)
    by (auto split: option.splits)
  then show ?thesis
    using a(4,5) by (simp add: Delete_key_def trie_inv_def kmap_upd)
qed

lemma UpdateHash_AddToDB:
  assumes "trie_inv E t C" and "t' = AddToDB (UpdateHash E t)"
  shows "synced E t' C" and "GetRootHash t' = root_of E C" and "\<not> modified (root t')"
proof -
  have a: "location_of (root t) = rootl" "good (tview E t) (kmap C) (root t)" "keys_ok (kmap C)" "env_ok E" "finite (dom C)"
    using assms keys_ok_kmap by (auto simp: trie_inv_def)
  obtain r n ops where u: "update_hash (v_hash (tview E t)) (v_ser (tview E t)) (root t) = (r, n, ops)"
    by (metis prod_cases3)
  note h = update_hash_root [OF a(3,2,1) u]
  let ?W = "fold view_op ops (tview E t)"
  let ?db = "WriteBatch (batch t @ map (storage_batch E (prefix_str t)) ops) (mdb t)"
  have t': "t' = \<lparr>root = n, root_hash = hash r, mdb = ?db, prefix_str = prefix_str t, batch = []\<rparr>"
    using assms(2) u by (simp add: UpdateHash_def AddToDB_def)
  have "agree [] ?W (view E (prefix_str t) (mdb t) ?db)"
    using agree_write_ops [OF a(4) h(8), of "tview E t" "prefix_str t" "mdb t" "WriteBatch (batch t) (mdb t)"]
    by (simp add: tview_def WriteBatch_def)
  then have ag: "agree [] (?W\<lparr>v_load := storage_load E (prefix_str t) ?db\<rparr>) (tview E t')"
    and ld: "\<And>p. halves p \<Longrightarrow> storage_load E (prefix_str t) ?db (pack p) = v_node ?W (pack p)"
    using t' by (simp_all add: agree_def tview_def view_def WriteBatch_def)
  have "good (?W\<lparr>v_load := storage_load E (prefix_str t) ?db\<rparr>) (kmap C) n"
    using good_flush [OF ld h(2)] .
  then have g: "good (tview E t') (kmap C) n"
    using good_cong [OF agree_mono [OF ag] refl] by simp
  have "written (?W\<lparr>v_load := storage_load E (prefix_str t) ?db\<rparr>) (kmap C) []"
    using h(3) by (simp add: written_def nodes_stored_def leaves_stored_def node_info_def)
  then have w: "written (tview E t') (kmap C) []" using written_cong [OF ag refl] by metis
  have ninfo: "node_info (tview E t') = node_info (tview E t)" by (simp add: node_info_def fun_eq_iff)
  have "storage_load E (prefix_str t) ?db rootl = Some (node_info (tview E t) (kmap C) [])"
    using ld [of "[]"] h(4) rootl_pack by simp
  moreover have "set_modified False n = n" using h(7) by (cases n) simp
  ultimately show "synced E t' C"
    using t' g w a(4,5) h(6) ninfo by (simp add: synced_def trie_inv_def)
  show "GetRootHash t' = root_of E C" "\<not> modified (root t')"
    using t' h(1,7) by (simp_all add: GetRootHash_def root_of_def node_info_def)
qed

lemma FreeMemory_synced:
  assumes "synced E t C" and "\<not> modified (root t)"
  shows "synced E (FreeMemory depth t) C" and "GetRootHash (FreeMemory depth t) = GetRootHash t"
proof -
  have b: "batch t = []" using assms(1) by (simp add: synced_def)
  have "good (tview E t) (kmap C) (Release depth (root t)) \<and> location_of (Release depth (root t)) = rootl \<and>
      \<not> modified (Release depth (root t))"
    using Release_good [of "tview E t" "kmap C" "root t" depth] assms tview_synced(1) [OF b]
    by (simp add: synced_def trie_inv_def)
  moreover have "set_modified False (Release depth (root t)) = Release depth (root t)"
    using calculation by (cases "Release depth (root t)") simp
  ultimately show "synced E (FreeMemory depth t) C"
    using assms(1) by (simp add: synced_def trie_inv_def FreeMemory_def)
qed (simp add: GetRootHash_def FreeMemory_def)

text \<open>Looking up does not depend on the flag of the node it starts from.\<close>

lemma ChildMayFromDB_modified:
  "ChildMayFromDB ld (set_modified b n) i = map_option (\<lambda>(n, co). (set_modified b n, co)) (ChildMayFromDB ld n i)"
  by (cases n) (auto simp: ChildMayFromDB_def Let_def split: option.splits CHILDTYPE.splits)

lemma set_modified_sel [simp]: "location_of (set_modified b n) = location_of n" "info (set_modified b n) = info n"
  "put_child i c (set_modified b n) = set_modified b (put_child i c n)"
  "set_modified a (set_modified b n) = set_modified a n" "modified (set_modified b n) = b"
  by (cases n; simp)+

lemma Exists_modified:
  "Exists ld fuel (set_modified b n) key = map_option (\<lambda>(r, n). (r, set_modified b n)) (Exists ld fuel n key)"
proof (cases fuel)
  case (Suc f)
  then show ?thesis
    by (auto simp: ChildMayFromDB_modified Let_def split: option.splits)
qed simp

lemma set_modified_id: "set_modified (modified n) n = n"
  by (cases n) simp

lemma good_modified_weaken: "good V M (set_modified False n) \<Longrightarrow> good V M (set_modified b n)"
  using good_set_modified [of V M "set_modified False n"] by (cases b) simp_all

lemma Get_key_synced:
  assumes "synced E t C"
  shows "\<exists>t'. Get_key E t key = Some (C key, t') \<and> synced E t' C \<and> root_hash t' = root_hash t"
proof -
  let ?V = "tview E t" and ?n = "set_modified False (root t)"
  have a: "location_of (root t) = rootl" "keys_ok (kmap C)" "batch t = []" "good ?V (kmap C) ?n"
    "written ?V (kmap C) []"
    using assms keys_ok_kmap by (auto simp: synced_def trie_inv_def)
  obtain b n where ex: "Exists (v_load ?V) (walk_fuel key) ?n (pack (kn key)) = Some (b, n)"
    and n: "good ?V (kmap C) n" "location_of n = rootl" "\<not> modified n" "C key \<noteq> None \<longrightarrow> b"
    using Exists_good [OF a(4) _ a(2) is_key_kn, of key "walk_fuel key"] fuel_enough [of key] root_prefix a(1)
    by (auto split: option.splits)
  have "Exists (v_load ?V) (walk_fuel key) (root t) (pack (kn key)) = Some (b, set_modified (modified (root t)) n)"
    using Exists_modified [of "v_load ?V" "walk_fuel key" "modified (root t)" ?n "pack (kn key)"] ex
    by (simp add: set_modified_id)
  moreover have "StorageGetLeaf (prefix_str t) (mdb t) (Key2Location key) = C key"
    using a(5) tview_synced(2) [OF a(3), of E] is_key_kn [of key]
    by (metis leaves_stored_def kmap_kn pack_kn prefix_bot.bot_least written_def)
  ultimately have "Get_key E t key = Some (C key, t\<lparr>root := set_modified (modified (root t)) n\<rparr>)"
    using n(4) by (auto simp: Get_key_def)
  moreover have "set_modified False n = n" using n(3) by (cases n) simp
  then have "good ?V (kmap C) (set_modified (modified (root t)) n)" using good_modified_weaken n(1) by metis
  ultimately show ?thesis
    using assms n \<open>set_modified False n = n\<close> by (auto simp: synced_def trie_inv_def)
qed

section \<open>Opening a trie\<close>

lemma Load_modified:
  "Load ld depth (set_modified b n) = map_option (set_modified b) (Load ld depth n)"
proof (cases depth)
  case (Suc d)
  let ?f = "\<lambda>i st. case st of None \<Rightarrow> None | Some node \<Rightarrow>
         (case ChildMayFromDB ld node i of None \<Rightarrow> None
          | Some (node, None) \<Rightarrow> Some node
          | Some (node, Some c) \<Rightarrow> map_option (\<lambda>c. put_child i c node) (Load ld d c))"
  have "?f i (map_option (set_modified b) st) = map_option (set_modified b) (?f i st)" for i st
    by (cases st) (auto simp: ChildMayFromDB_modified option.map_comp comp_def split: option.splits)
  then have "fold ?f is (map_option (set_modified b) st) = map_option (set_modified b) (fold ?f is st)" for "is" st
    by (induction "is" arbitrary: st) simp_all
  from this [of "[0..<16]" "Some n"] show ?thesis using Suc by simp
qed simp

definition unused_prefix :: "cstring \<Rightarrow> (cstring \<rightharpoonup> cstring) \<Rightarrow> bool" where
  "unused_prefix pre db \<longleftrightarrow> (\<forall>k. db (pre @ k) = None)"

lemma Init_fresh:
  assumes "env_ok E" and "unused_prefix pre db"
  shows "\<exists>t. Init E db [] pre depth = Some t \<and> trie_inv E t Map.empty"
proof -
  define t where "t = \<lparr>root = new_NodeFrm rootl, root_hash = [], mdb = db, prefix_str = pre, batch = []\<rparr>"
  have bare: "bare (tview E t) (kmap Map.empty) q" for q
    using assms(2) by (simp add: unused_prefix_def bare_def kmap_def tview_def view_def t_def WriteBatch_def StorageGetLeaf_def Location2DBkey_def)
  have "branch_ok (tview E t) (kmap Map.empty) q m None Child_default" for q m
    using branch_ok_bare [OF keys_ok_kmap bare] by simp
  then have "good (tview E t) (kmap Map.empty) (new_NodeFrm rootl)"
    unfolding new_NodeFrm_def using bare [of "[]"] rootl_pack wf_pack [of "[]"]
    by (intro good_intro) (simp_all add: leaf_ok_def bare_def kmap_def)
  then have "trie_inv E t Map.empty"
    using assms(1) by (simp add: trie_inv_def t_def new_NodeFrm_def)
  moreover have "Init E db [] pre depth = Some t"
    using assms(2) by (simp add: unused_prefix_def Init_def storage_load_def Location2DBkey_def t_def Let_def)
  ultimately show ?thesis by blast
qed

lemma Init_restart:
  assumes "synced E t C"
  shows "\<exists>t'. Init E (mdb t) [] (prefix_str t) depth = Some t' \<and> synced E t' C"
proof -
  let ?V = "tview E t" and ?M = "kmap C" and ?ld = "storage_load E (prefix_str t) (mdb t)"
  have a: "keys_ok ?M" "batch t = []" "written ?V ?M []" "?ld rootl = Some (node_info ?V ?M [])"
    using assms keys_ok_kmap by (auto simp: synced_def trie_inv_def)
  let ?n = "NodeFrm rootl (replicate 16 None) (node_info ?V ?M []) False False None"
  have s: "settled ?V ?M []" using a(3) tview_synced(1) [OF a(2)] by (simp add: settled_def written_def)
  have "good ?V ?M ?n"
    using good_loaded [OF s, of "[]" "node_info ?V ?M []" False] rootl_pack by (simp add: node_info_def entry_def)
  then obtain n' where n': "Load (v_load ?V) (nat (depth + 1)) ?n = Some n'" "good ?V ?M n'" "same_node ?n n'"
    using Load_good a(1) by blast
  have id: "set_modified False n' = n'" using n'(3) by (cases n') (simp add: same_node_def)
  define t' where "t' = \<lparr>root = set_modified True n', root_hash = [], mdb = mdb t, prefix_str = prefix_str t, batch = []\<rparr>"
  have "Load ?ld (nat (depth + 1)) (NodeFrm rootl (replicate 16 None) (node_info ?V ?M []) True False None) =
      Some (set_modified True n')"
    using Load_modified [of ?ld "nat (depth + 1)" True ?n] n'(1) by simp
  then have "Init E (mdb t) [] (prefix_str t) depth = Some t'"
    using a(4) by (simp add: Init_def Let_def new_NodeFrm_def t'_def)
  moreover have v: "tview E t' = ?V" using a(2) by (simp add: tview_def t'_def)
  have "good ?V ?M (set_modified True n')" using good_set_modified n'(2) by blast
  then have "synced E t' C"
    using assms a n' v id by (simp add: synced_def trie_inv_def t'_def same_node_def)
  ultimately show ?thesis by blast
qed

section \<open>The interface of an authenticated map\<close>

datatype ('k, 'v) map_op = Put_op 'k 'v | Del_op 'k | Commit_op

fun apply_map :: "('k, 'v) map_op \<Rightarrow> ('k \<rightharpoonup> 'v) \<Rightarrow> ('k \<rightharpoonup> 'v)" where
  "apply_map (Put_op k v) C = C(k \<mapsto> v)"
| "apply_map (Del_op k) C = C(k := None)"
| "apply_map Commit_op C = C"

fun run_map :: "('s \<Rightarrow> 'k \<Rightarrow> 'v \<Rightarrow> 's option) \<Rightarrow> ('s \<Rightarrow> 'k \<Rightarrow> 's option) \<Rightarrow> ('s \<Rightarrow> 's) \<Rightarrow>
    ('k, 'v) map_op list \<Rightarrow> 's \<Rightarrow> 's option" where
  "run_map put del commit [] s = Some s"
| "run_map put del commit (Put_op k v # ops) s = Option.bind (put s k v) (run_map put del commit ops)"
| "run_map put del commit (Del_op k # ops) s = Option.bind (del s k) (run_map put del commit ops)"
| "run_map put del commit (Commit_op # ops) s = run_map put del commit ops (commit s)"

locale authenticated_map =
  fixes put :: "'s \<Rightarrow> 'k \<Rightarrow> 'v \<Rightarrow> 's option" and del :: "'s \<Rightarrow> 'k \<Rightarrow> 's option" and commit :: "'s \<Rightarrow> 's"
    and get :: "'s \<Rightarrow> 'k \<Rightarrow> ('v option \<times> 's) option" and digest :: "'s \<Rightarrow> 'h"
    and inv :: "'s \<Rightarrow> ('k \<rightharpoonup> 'v) \<Rightarrow> bool" and settled_map :: "'s \<Rightarrow> ('k \<rightharpoonup> 'v) \<Rightarrow> bool"
    and spec :: "('k \<rightharpoonup> 'v) \<Rightarrow> 'h"
  assumes put_law: "inv s C \<Longrightarrow> \<exists>s'. put s k v = Some s' \<and> inv s' (C(k \<mapsto> v))"
    and del_law: "inv s C \<Longrightarrow> \<exists>s'. del s k = Some s' \<and> inv s' (C(k := None))"
    and commit_law: "inv s C \<Longrightarrow> settled_map (commit s) C \<and> inv (commit s) C \<and> digest (commit s) = spec C"
    and get_law: "settled_map s C \<Longrightarrow> \<exists>s'. get s k = Some (C k, s') \<and> settled_map s' C"
begin

lemma run_law: "inv s C \<Longrightarrow> \<exists>s'. run_map put del commit ops s = Some s' \<and> inv s' (fold apply_map ops C)"
proof (induction ops arbitrary: s C)
  case (Cons op ops)
  show ?case
  proof (cases op)
    case (Put_op k v)
    then show ?thesis using put_law [OF Cons.prems, of k v] Cons.IH by auto
  next
    case (Del_op k)
    then show ?thesis using del_law [OF Cons.prems, of k] Cons.IH by auto
  next
    case Commit_op
    then show ?thesis using commit_law [OF Cons.prems] Cons.IH by auto
  qed
qed simp

lemma run_commit_digest:
  assumes "inv s C" and "run_map put del commit ops s = Some s'"
  shows "digest (commit s') = spec (fold apply_map ops C)"
  using run_law [OF assms(1), of ops] commit_law assms(2) by auto

lemma run_commit_get:
  assumes "inv s C" and "run_map put del commit ops s = Some s'"
  shows "\<exists>s''. get (commit s') k = Some (fold apply_map ops C k, s'')"
  using run_law [OF assms(1), of ops] commit_law get_law assms(2) by fastforce

end

definition trie_put :: "trie_env \<Rightarrow> kv_trie \<Rightarrow> cstring \<Rightarrow> cstring \<Rightarrow> kv_trie option" where
  "trie_put E t key v = map_option snd (Set_key E t key v)"

definition trie_del :: "trie_env \<Rightarrow> kv_trie \<Rightarrow> cstring \<Rightarrow> kv_trie option" where
  "trie_del E t key = map_option snd (Delete_key E t key)"

text \<open>Closing a ledger hashes the tree, writes the batch and releases the deep nodes.\<close>

definition trie_commit :: "trie_env \<Rightarrow> int \<Rightarrow> kv_trie \<Rightarrow> kv_trie" where
  "trie_commit E depth t = FreeMemory depth (AddToDB (UpdateHash E t))"

lemma trie_commit_law:
  assumes "trie_inv E t C"
  shows "synced E (trie_commit E depth t) C \<and> trie_inv E (trie_commit E depth t) C \<and>
         GetRootHash (trie_commit E depth t) = root_of E C"
proof -
  note u = UpdateHash_AddToDB [OF assms refl]
  have "synced E (trie_commit E depth t) C"
    unfolding trie_commit_def by (rule FreeMemory_synced(1) [OF u(1,3)])
  moreover have "GetRootHash (trie_commit E depth t) = root_of E C"
    unfolding trie_commit_def FreeMemory_synced(2) [OF u(1,3)] by (rule u(2))
  ultimately show ?thesis by (simp add: synced_def)
qed

interpretation trie: authenticated_map "trie_put E" "trie_del E" "trie_commit E depth" "Get_key E" GetRootHash
  "trie_inv E" "synced E" "root_of E" for E depth
proof
  show "\<exists>s'. trie_put E s k v = Some s' \<and> trie_inv E s' (C(k \<mapsto> v))" if "trie_inv E s C" for s C k v
    using Set_key_inv [OF that, of k v] by (auto simp: trie_put_def)
  show "\<exists>s'. trie_del E s k = Some s' \<and> trie_inv E s' (C(k := None))" if "trie_inv E s C" for s C k
    using Delete_key_inv [OF that, of k] by (auto simp: trie_del_def)
  show "\<exists>s'. Get_key E s k = Some (C k, s') \<and> synced E s' C" if "synced E s C" for s C k
    using Get_key_synced [OF that] by blast
qed (rule trie_commit_law)

end
