(* ===== verification/Trie_Thms.thy ===== *)
theory Trie_Thms
  imports Trie_Db
begin

text \<open>
  What users of the Merkle trie may rely on: the root hash depends on the contents alone, two tries
  with the same root hash answer every lookup alike as long as the hash function does not collide
  on what they have stored, lookups after a commit return the
  contents, and a trie opened again on its database is the same map.
\<close>

section \<open>The entry binds the content\<close>

lemma keys_ok_under: "keys_ok M \<Longrightarrow> keys_ok (under q M)"
  by (auto simp: keys_ok_def dom_under)

text \<open>The strings that the entry of a content hashes are in \<open>S\<close>: its values and its inner nodes.\<close>

definition hashes_in :: "(cstring \<Rightarrow> cstring) \<Rightarrow> (child list \<Rightarrow> cstring) \<Rightarrow> cstring set \<Rightarrow> content \<Rightarrow> bool" where
  "hashes_in H ser S M \<longleftrightarrow> ran M \<subseteq> S \<and> (\<forall>p. halves p \<longrightarrow> branching M p \<longrightarrow> ser (info_of H ser M p) \<in> S)"

lemma hashes_inD:
  assumes "hashes_in H ser S M"
  shows "M k = Some v \<Longrightarrow> v \<in> S" and "halves p \<Longrightarrow> branching M p \<Longrightarrow> ser (info_of H ser M p) \<in> S"
  using assms ranI by (fastforce simp: hashes_in_def)+

lemma hashes_in_under:
  assumes "hashes_in H ser S M"
  shows "hashes_in H ser S (under q M)"
  unfolding hashes_in_def
proof (intro conjI allI impI)
  show "ran (under q M) \<subseteq> S"
    using assms by (auto simp: hashes_in_def ran_def under_apply)
  fix p assume p: "halves p" "branching (under q M) p"
  have "dom (under p (under q M)) \<noteq> {}" using p(2) by (auto simp: branching_def)
  then have "prefix q (Longest_common_prefix (dom (under p (under q M))))"
    by (rule Longest_common_prefix_max_prefix) (auto simp: dom_under)
  then have qp: "under p (under q M) = under p M" using p(2) by (simp add: branching_def under_under)
  then have "info_of H ser (under q M) p = info_of H ser M p" by (metis info_of_under)
  moreover have "branching M p" using p(2) qp by (simp add: branching_def)
  ultimately show "ser (info_of H ser (under q M) p) \<in> S" using hashes_inD(2) [OF assms p(1)] by simp
qed

lemma leafc_inj:
  assumes "inj_on H S" and "hashes_in H ser S M" and "hashes_in H ser S M'" and "leafc H M p = leafc H M' p"
  shows "M p = M' p"
  using assms hashes_inD(1) [OF assms(2)] hashes_inD(1) [OF assms(3)]
  by (auto simp: leafc_def Child_default_def inj_on_eq_iff split: option.splits)

lemma same_branches:
  assumes M: "keys_ok M" "keys_ok M'" and p: "\<And>k. k \<in> dom M \<union> dom M' \<Longrightarrow> prefix p k"
    and leaf: "M p = M' p" and br: "\<And>i. i < 16 \<Longrightarrow> under (p @ [i]) M = under (p @ [i]) M'"
  shows "M = M'"
proof
  fix k
  show "M k = M' k"
  proof (cases "k \<in> dom M \<union> dom M'")
    case True
    then have "halves k" using M by (auto simp: keys_ok_def)
    then have "k = p \<or> (\<exists>i < 16. prefix (p @ [i]) k)"
      using strict_prefix_branch [OF p [OF True]] NextBranch_pack(2) by metis
    then show ?thesis using leaf br under_same by metis
  qed (metis UnI1 UnI2 domIff)
qed

lemma canon_inj:
  assumes H: "inj_on H S" and ser: "inj ser" and "keys_ok M" and "keys_ok M'" and "canon H ser M = canon H ser M'"
    and "hashes_in H ser S M" and "hashes_in H ser S M'"
  shows "M = M'"
  using assms(3-)
proof (induction "card (dom M)" arbitrary: M M' rule: less_induct)
  case less
  have fin: "finite (dom M)" "finite (dom M')" using less.prems by simp_all
  have type: "childtype (canon H ser N) = (if dom N = {} then NONE else if card (dom N) = 1 then LEAF else INNER)"
    if "finite (dom N)" for N
    using that
    by (cases rule: card_cases) (auto simp: canon_single canon_inner leafc_def split: option.splits)
  from fin(1) show ?case
  proof (cases rule: card_cases)
    case 1
    then have "dom M' = {}" using canon_NONE_iff [OF fin(2)] less.prems(3) by (metis canon_NONE_iff fin(1))
    then show ?thesis using 1 by simp
  next
    case (2 k)
    then have "card (dom M') = 1" using type [OF fin(1)] type [OF fin(2)] less.prems(3) by (auto split: if_splits)
    then obtain k' where k': "dom M' = {k'}" by (auto simp: card_1_singleton_iff)
    obtain v v' where v: "M k = Some v" "M' k' = Some v'" using 2 k' by (metis domIff insertI1 option.exhaust)
    have "halves k" "halves k'" using less.prems(1,2) v by (auto simp: keys_ok_def)
    moreover have "leafc H M k = leafc H M' k'" using less.prems(3) canon_single 2 k' by metis
    moreover have "v \<in> S" "v' \<in> S" using hashes_inD(1) less.prems(4,5) v by metis+
    ultimately have "k = k' \<and> v = v'" using v H by (simp add: leafc_def pack_inj inj_on_eq_iff)
    then show ?thesis using 2 k' v by (metis dom_eq_singleton_conv option.inject fun_upd_same)
  next
    case 3
    let ?p = "Longest_common_prefix (dom M)" and ?q = "Longest_common_prefix (dom M')"
    have two: "2 \<le> card (dom M')"
    proof -
      have "childtype (canon H ser M') = INNER" using canon_inner [OF 3 refl] less.prems(3) by (metis child.select_convs(3))
      then have "dom M' \<noteq> {}" "card (dom M') \<noteq> 1" using type [OF fin(2)] by (auto split: if_splits)
      moreover have "card (dom M') \<noteq> 0" using calculation(1) fin(2) by (simp only: card_eq_0_iff) simp
      ultimately show ?thesis by linarith
    qed
    have pre: "prefix ?p k" if "k \<in> dom M" for k using Longest_common_prefix_prefix [OF that] .
    have pre': "prefix ?q k" if "k \<in> dom M'" for k using Longest_common_prefix_prefix [OF that] .
    have ne: "dom M \<noteq> {}" "dom M' \<noteq> {}" using 3 two by auto
    have halves: "halves ?p" "halves ?q"
      using ne pre pre' less.prems(1,2) unfolding keys_ok_def by (meson equals0I order_trans set_mono_prefix)+
    have "under ?p M = M" "under ?q M' = M'" using pre pre' by (metis ext under_apply domIff)+
    then have "branching M ?p" "branching M' ?q" using 3 two by (simp_all add: branching_def)
    then have "ser (info_of H ser M ?p) \<in> S" "ser (info_of H ser M' ?q) \<in> S"
      using hashes_inD(2) less.prems(4,5) halves by metis+
    then have pq: "?p = ?q" and info: "info_of H ser M ?p = info_of H ser M' ?p"
      using less.prems(3) canon_inner [OF 3 refl] canon_inner [OF two refl] H ser halves by (auto simp: pack_inj inj_eq inj_on_eq_iff)
    show ?thesis
    proof (rule same_branches [OF less.prems(1,2)])
      show "prefix ?p k" if "k \<in> dom M \<union> dom M'" for k using that pre pre' pq by auto
      show "M ?p = M' ?p" using info info_of_nth(2) leafc_inj [OF H less.prems(4,5)] by metis
      fix i :: nat assume i: "i < 16"
      have "card (dom (under (?p @ [i]) M)) < card (dom M)"
        using LCP_branch_psubset [OF fin(1) ne(1)] by (simp add: dom_under)
      moreover have "canon H ser (under (?p @ [i]) M) = canon H ser (under (?p @ [i]) M')"
        using info info_of_nth(1) [OF i] by metis
      ultimately show "under (?p @ [i]) M = under (?p @ [i]) M'"
        using less.hyps keys_ok_under hashes_in_under less.prems(1,2,4,5) by blast
    qed
  qed
qed

lemma root_of_inj:
  assumes "env_ok E" and H: "inj_on (HashCrypto E) S" and "finite (dom C)" and "finite (dom C')" and "root_of E C = root_of E C'"
    and S: "hashes_in (HashCrypto E) (SerializeAsString E) S (kmap C)" "hashes_in (HashCrypto E) (SerializeAsString E) S (kmap C')"
      "SerializeAsString E (info_of (HashCrypto E) (SerializeAsString E) (kmap C) []) \<in> S"
      "SerializeAsString E (info_of (HashCrypto E) (SerializeAsString E) (kmap C') []) \<in> S"
  shows "C = C'"
proof -
  have ser: "inj (SerializeAsString E)" using assms(1) by (metis env_ok_def injI)
  then have info: "info_of (HashCrypto E) (SerializeAsString E) (kmap C) [] = info_of (HashCrypto E) (SerializeAsString E) (kmap C') []"
    using H assms(5) S(3,4) by (simp add: root_of_def inj_eq inj_on_eq_iff)
  have "kmap C = kmap C'"
  proof (rule same_branches [of _ _ "[]"])
    show "kmap C [] = kmap C' []" using info info_of_nth(2) leafc_inj [OF H S(1,2)] by metis
    show "under ([] @ [i]) (kmap C) = under ([] @ [i]) (kmap C')" if "i < 16" for i
      by (rule canon_inj [OF H ser])
        (use keys_ok_under keys_ok_kmap hashes_in_under assms(3,4) S info info_of_nth(1) [OF that] in metis)+
  qed (use assms(3,4) keys_ok_kmap in simp_all)
  then show ?thesis by (metis ext kmap_kn)
qed

text \<open>What a database stores: its strings, and its nodes as they are serialized for hashing.\<close>

definition stored_strings :: "trie_env \<Rightarrow> (cstring \<rightharpoonup> cstring) \<Rightarrow> cstring set" where
  "stored_strings E db = ran db \<union> (\<lambda>s. SerializeAsString E (ParseFromString E s)) ` ran db"

lemma storage_load_stored:
  "storage_load E pre db l = Some cs \<Longrightarrow> SerializeAsString E cs \<in> stored_strings E db"
  by (auto simp: storage_load_def stored_strings_def intro: ranI)

lemma synced_stored:
  assumes "synced E t C"
  shows "hashes_in (HashCrypto E) (SerializeAsString E) (stored_strings E (mdb t)) (kmap C)"
    and "SerializeAsString E (info_of (HashCrypto E) (SerializeAsString E) (kmap C) []) \<in> stored_strings E (mdb t)"
proof -
  have a: "batch t = []" "written (tview E t) (kmap C) []"
      "storage_load E (prefix_str t) (mdb t) rootl = Some (node_info (tview E t) (kmap C) [])"
    using assms by (simp_all add: synced_def)
  show "SerializeAsString E (info_of (HashCrypto E) (SerializeAsString E) (kmap C) []) \<in> stored_strings E (mdb t)"
    using storage_load_stored [OF a(3)] by (simp add: node_info_def)
  have "storage_load E (prefix_str t) (mdb t) (pack p) = Some (info_of (HashCrypto E) (SerializeAsString E) (kmap C) p)"
    if "halves p" "branching (kmap C) p" for p
    using a(2) that tview_synced(1) [OF a(1), of E] by (simp add: written_def nodes_stored_def node_info_def)
  moreover have "v \<in> stored_strings E (mdb t)" if "kmap C k = Some v" for k v
  proof -
    have "is_key k" using that by (simp add: kmap_def split: if_splits)
    then have "StorageGetLeaf (prefix_str t) (mdb t) (pack k) = Some v"
      using a(2) that tview_synced(2) [OF a(1), of E] by (simp add: written_def leaves_stored_def)
    then show ?thesis by (auto simp: StorageGetLeaf_def stored_strings_def intro: ranI)
  qed
  ultimately show "hashes_in (HashCrypto E) (SerializeAsString E) (stored_strings E (mdb t)) (kmap C)"
    using storage_load_stored unfolding hashes_in_def by (fastforce simp: ran_def)
qed

lemma hashes_in_mono: "hashes_in H ser S M \<Longrightarrow> S \<subseteq> S' \<Longrightarrow> hashes_in H ser S' M"
  by (auto simp: hashes_in_def)

lemma synced_binding:
  assumes "env_ok E" and "synced E t C" and "synced E t' C'"
    and "inj_on (HashCrypto E) (stored_strings E (mdb t) \<union> stored_strings E (mdb t'))" and "root_of E C = root_of E C'"
  shows "C = C'"
proof (rule root_of_inj [OF assms(1,4) _ _ assms(5)])
  show "finite (dom C)" "finite (dom C')" using assms(2,3) by (simp_all add: synced_def trie_inv_def)
qed (use synced_stored [OF assms(2)] synced_stored [OF assms(3)] hashes_in_mono in blast)+

section \<open>An environment to evaluate with\<close>

text \<open>Strings and entries coded with a marker byte before every item and at the end of the list.\<close>

fun put_list :: "('a \<Rightarrow> cstring) \<Rightarrow> 'a list \<Rightarrow> cstring" where
  "put_list f [] = [0]"
| "put_list f (x # xs) = 1 # f x @ put_list f xs"

fun get_string :: "cstring \<Rightarrow> cstring \<times> cstring" where
  "get_string (m # b # t) = (if m = 0 then ([], b # t) else let (s, r) = get_string t in (b # s, r))"
| "get_string t = ([], tl t)"

definition put_child_bytes :: "child \<Rightarrow> cstring" where
  "put_child_bytes c = put_list (\<lambda>b. [b]) (sublocation c) @ put_list (\<lambda>b. [b]) (hash c) @
     [case childtype c of NONE \<Rightarrow> 0 | INNER \<Rightarrow> 1 | LEAF \<Rightarrow> 2]"

lemma get_string_put [simp]: "get_string (put_list (\<lambda>b. [b]) s @ r) = (s, r)"
proof (induction s)
  case Nil
  then show ?case by (cases r) simp_all
qed simp

lemma get_string_length: "get_string t = (s, r) \<Longrightarrow> length r \<le> length t"
  by (induction t arbitrary: s r rule: get_string.induct) (auto simp: Let_def split: if_splits prod.splits)

function get_children :: "cstring \<Rightarrow> child list" where
  "get_children bs =
     (if bs = [] \<or> hd bs = 0 then []
      else let (l, r1) = get_string (tl bs); (h, r2) = get_string r1 in
        \<lparr>sublocation = l, hash = h, childtype = (if hd r2 = 0 then NONE else if hd r2 = 1 then INNER else LEAF)\<rparr> #
        get_children (tl r2))"
  by pat_completeness auto
termination
proof (relation "measure length", goal_cases)
  case (2 bs x l r1 y h r2)
  then have "length r1 \<le> length (tl bs)" "length r2 \<le> length r1" using get_string_length by metis+
  then show ?case using 2(1) by (cases bs) auto
qed simp

declare get_children.simps [simp del]

lemma get_children_put: "get_children (put_list put_child_bytes cs) = cs"
proof (induction cs)
  case (Cons c cs)
  have "get_children (1 # put_child_bytes c @ r) = c # get_children r" for r
    by (subst get_children.simps) (auto simp: put_child_bytes_def Let_def split: CHILDTYPE.splits)
  then show ?case using Cons by simp
qed (simp add: get_children.simps)

definition plain_env :: trie_env where
  "plain_env = \<lparr>HashCrypto = (\<lambda>s. s), SerializeAsString = put_list put_child_bytes, ParseFromString = get_children\<rparr>"

lemma plain_env_ok: "env_ok plain_env"
  by (simp add: env_ok_def plain_env_def get_children_put)

section \<open>Properties\<close>

lemma run_committed:
  assumes "env_ok E" and "unused_prefix pre db" and "Init E db [] pre d0 = Some t0"
    and "run_map (trie_put E) (trie_del E) (trie_commit E depth) ops t0 = Some t"
  shows "\<exists>C. synced E (trie_commit E depth t) C \<and> GetRootHash (trie_commit E depth t) = root_of E C"
proof -
  have "trie_inv E t0 Map.empty" using Init_fresh [OF assms(1,2), of d0] assms(3) by auto
  then have "trie_inv E t (fold apply_map ops Map.empty)" using trie.run_law assms(4) by (metis option.inject)
  then show ?thesis using trie_commit_law by blast
qed

text \<open>
  Claim C23. A trie opened on an unused prefix of a database returns from any sequence of sets,
  deletions and commits, and after one more commit its root hash is that of the contents alone,
  the sixteen-way Merkle tree over the keys and values left: the order of the operations, the
  splits and collapses of nodes they caused, commits in between and what was released from
  memory leave no trace in it.
\<close>

theorem trie_root_hash:
  assumes "env_ok E" and "unused_prefix pre db" and "Init E db [] pre d0 = Some t0"
  shows "\<exists>t. run_map (trie_put E) (trie_del E) (trie_commit E depth) ops t0 = Some t \<and>
             GetRootHash (trie_commit E depth t) = root_of E (fold apply_map ops Map.empty)"
proof -
  have "trie_inv E t0 Map.empty" using Init_fresh [OF assms(1,2), of d0] assms(3) by auto
  then show ?thesis using trie.run_law trie.run_commit_digest by blast
qed

definition example_trie :: kv_trie where
  "example_trie = \<lparr>root = new_NodeFrm rootl, root_hash = [], mdb = Map.empty, prefix_str = [7], batch = []\<rparr>"

lemma Init_example: "Init plain_env Map.empty [] [7] 0 = Some example_trie"
  by (simp add: Init_def storage_load_def Let_def example_trie_def)

lemma trie_example_inv: "trie_inv plain_env example_trie Map.empty"
  using Init_fresh [OF plain_env_ok, of "[7]" Map.empty 0] Init_example by (simp add: unused_prefix_def)

theorem trie_root_hash_witness:
  "\<exists>t. run_map (trie_put plain_env) (trie_del plain_env) (trie_commit plain_env 0)
         [Put_op [0x12] [1], Put_op [0x13] [2], Commit_op, Del_op [0x12]] example_trie = Some t \<and>
       GetRootHash (trie_commit plain_env 0 t) = root_of plain_env [[0x13] \<mapsto> [2]]"
proof -
  have "fold apply_map [Put_op [0x12] [1], Put_op [0x13] [2], Commit_op, Del_op [0x12]] Map.empty = [[0x13 :: byte] \<mapsto> [2 :: byte]]"
    by (auto simp: fun_eq_iff)
  then show ?thesis
    using trie_root_hash [OF plain_env_ok, of "[7]" Map.empty 0 example_trie 0
        "[Put_op [0x12] [1], Put_op [0x13] [2], Commit_op, Del_op [0x12]]"] Init_example
    by (simp add: unused_prefix_def)
qed

text \<open>
  Claim C25. The root hash binds what the trie answers: take two tries, opened on unused prefixes of
  any databases, after any sequences of sets, deletions and commits and one more commit. When
  their root hashes are equal, they answer the lookup of every key alike, provided the hash
  function does not collide on the strings stored in their two databases.
\<close>

theorem root_hash_binding:
  assumes "env_ok E" and "unused_prefix pre db" and "Init E db [] pre d0 = Some t0"
    and "run_map (trie_put E) (trie_del E) (trie_commit E depth) ops t0 = Some t" and "t1 = trie_commit E depth t"
    and "unused_prefix pre' db'" and "Init E db' [] pre' d0' = Some t0'"
    and "run_map (trie_put E) (trie_del E) (trie_commit E depth') ops' t0' = Some t'" and "t1' = trie_commit E depth' t'"
    and "inj_on (HashCrypto E) (stored_strings E (mdb t1) \<union> stored_strings E (mdb t1'))"
    and "GetRootHash t1 = GetRootHash t1'"
  shows "\<exists>v u u'. Get_key E t1 key = Some (v, u) \<and> Get_key E t1' key = Some (v, u')"
proof -
  obtain C where C: "synced E t1 C" "GetRootHash t1 = root_of E C"
    using run_committed [OF assms(1-4)] assms(5) by blast
  obtain C' where C': "synced E t1' C'" "GetRootHash t1' = root_of E C'"
    using run_committed [OF assms(1,6-8)] assms(9) by blast
  have "C = C'" using synced_binding [OF assms(1) C(1) C'(1) assms(10)] assms(11) C(2) C'(2) by simp
  then show ?thesis using Get_key_synced [OF C(1)] Get_key_synced [OF C'(1)] by metis
qed

theorem root_hash_binding_witness:
  "\<exists>t t'. run_map (trie_put plain_env) (trie_del plain_env) (trie_commit plain_env 0)
         [Put_op [0x12] [1], Put_op [0x13] [2], Commit_op, Del_op [0x12]] example_trie = Some t \<and>
       run_map (trie_put plain_env) (trie_del plain_env) (trie_commit plain_env 3) [Put_op [0x13] [2]] example_trie = Some t' \<and>
       (\<forall>key. \<exists>v u u'. Get_key plain_env (trie_commit plain_env 0 t) key = Some (v, u) \<and>
          Get_key plain_env (trie_commit plain_env 3 t') key = Some (v, u'))"
proof -
  let ?ops = "[Put_op [0x12 :: byte] [1 :: byte], Put_op [0x13] [2], Commit_op, Del_op [0x12]]"
  let ?ops' = "[Put_op [0x13 :: byte] [2 :: byte]]"
  have eq: "fold apply_map ?ops Map.empty = fold apply_map ?ops' Map.empty" by (auto simp: fun_eq_iff)
  obtain t where t: "run_map (trie_put plain_env) (trie_del plain_env) (trie_commit plain_env 0) ?ops example_trie = Some t"
      "GetRootHash (trie_commit plain_env 0 t) = root_of plain_env (fold apply_map ?ops Map.empty)"
    using trie.run_law [OF trie_example_inv] trie.run_commit_digest [OF trie_example_inv] by blast
  obtain t' where t': "run_map (trie_put plain_env) (trie_del plain_env) (trie_commit plain_env 3) ?ops' example_trie = Some t'"
      "GetRootHash (trie_commit plain_env 3 t') = root_of plain_env (fold apply_map ?ops' Map.empty)"
    using trie.run_law [OF trie_example_inv] trie.run_commit_digest [OF trie_example_inv] by blast
  have "\<exists>v u u'. Get_key plain_env (trie_commit plain_env 0 t) key = Some (v, u) \<and>
      Get_key plain_env (trie_commit plain_env 3 t') key = Some (v, u')" for key
    by (rule root_hash_binding [OF plain_env_ok _ Init_example t(1) refl _ Init_example t'(1) refl])
      (use t(2) t'(2) eq in \<open>simp_all add: unused_prefix_def plain_env_def\<close>)
  then show ?thesis using t(1) t'(1) by blast
qed

text \<open>
  Claim C24. After any sequence of operations and a commit, looking up any key returns, without
  failing to load a node, the value the sequence leaves for the key, or nothing when it leaves
  none, also when the nodes on the way have been released from memory or merged away.
\<close>

theorem trie_get_committed:
  assumes "env_ok E" and "unused_prefix pre db" and "Init E db [] pre d0 = Some t0"
    and "run_map (trie_put E) (trie_del E) (trie_commit E depth) ops t0 = Some t"
  shows "\<exists>t'. Get_key E (trie_commit E depth t) key = Some (fold apply_map ops Map.empty key, t')"
proof -
  have "trie_inv E t0 Map.empty" using Init_fresh [OF assms(1,2), of d0] assms(3) by auto
  then show ?thesis using trie.run_commit_get assms(4) by blast
qed

theorem trie_get_committed_witness:
  "\<exists>t t'. run_map (trie_put plain_env) (trie_del plain_env) (trie_commit plain_env 0)
          [Put_op [0x12] [1], Put_op [0x13] [2]] example_trie = Some t \<and>
        Get_key plain_env (trie_commit plain_env 0 t) [0x13] = Some (Some [2], t')"
proof -
  let ?ops = "[Put_op [0x12] [1], Put_op [0x13] [2]]"
  obtain t where t: "run_map (trie_put plain_env) (trie_del plain_env) (trie_commit plain_env 0) ?ops example_trie = Some t"
    using trie.run_law [OF trie_example_inv] by blast
  show ?thesis
    using t trie_get_committed [OF plain_env_ok _ Init_example t, of "[0x13]"] by (simp add: unused_prefix_def)
qed

text \<open>
  Claim C26. A trie opened again on the database of a committed one, to any depth, shows the same
  map: lookups return the same values, and hashing it gives the same root.
\<close>

theorem trie_restart:
  assumes "trie_inv E t C" and "t1 = trie_commit E depth t"
  shows "\<exists>t2. Init E (mdb t1) [] (prefix_str t1) d0 = Some t2 \<and>
           (\<forall>key. \<exists>t3. Get_key E t2 key = Some (C key, t3)) \<and>
           GetRootHash (UpdateHash E t2) = GetRootHash t1"
proof -
  have s: "synced E t1 C" "GetRootHash t1 = root_of E C" using trie_commit_law [OF assms(1)] assms(2) by auto
  obtain t2 where t2: "Init E (mdb t1) [] (prefix_str t1) d0 = Some t2" "synced E t2 C"
    using Init_restart [OF s(1)] by blast
  have "GetRootHash (UpdateHash E t2) = root_of E C"
    using UpdateHash_AddToDB(2) [of E t2 C] t2(2) by (simp add: synced_def GetRootHash_def AddToDB_def)
  then show ?thesis using t2 s(2) Get_key_synced [OF t2(2)] by (metis (no_types))
qed

theorem trie_restart_witness:
  "\<exists>t2. Init plain_env (mdb (trie_commit plain_env 0 example_trie)) [] [7] 2 = Some t2 \<and>
     (\<forall>key. \<exists>t3. Get_key plain_env t2 key = Some (None, t3)) \<and>
     GetRootHash (UpdateHash plain_env t2) = GetRootHash (trie_commit plain_env 0 example_trie)"
proof -
  have "prefix_str (trie_commit plain_env 0 example_trie) = [7]"
    by (simp add: trie_commit_def FreeMemory_def AddToDB_def UpdateHash_def example_trie_def split: prod.splits)
  then show ?thesis using trie_restart [OF trie_example_inv refl, of 0 2] by simp
qed

end
