(* ===== verification/Tx_Queue.thy ===== *)
theory Tx_Queue
  imports Prelude "HOL-Library.AList"
begin

text \<open>
  The queue of pending transactions (src/src/glue/transaction_queue.h, transaction_queue.cpp).
  A \<^verbatim>\<open>std::multiset\<close> is the list of its elements in order, each with the number of the node that
  holds it; an iterator is such a number. \<^verbatim>\<open>emplace\<close> puts an element before the first greater one.
  The 64-bit numbers that occur (nonces, prices and times, none of them negative in a
  transaction that passed its checks) are integers; the comparison of prices in floating
  point is written out. The locks serialize the calls, so each operation is one step.
\<close>

section \<open>Transactions and the queue\<close>

record tx =
  source_address :: cstring
  nonce :: int
  gas_price :: int
  content_hash :: cstring
  incoming_time :: int
  byte_size :: int

type_synonym elem = "nat \<times> tx"
type_synonym QueueByNonce = "(int \<times> nat \<times> nat) list"

record txq =
  queue :: "elem list"
  time_queue :: "elem list"
  by_address_and_nonce :: "cstring \<rightharpoonup> QueueByNonce"
  by_hash :: "cstring \<rightharpoonup> tx"
  account_nonce :: "cstring \<rightharpoonup> int"
  queue_limit :: nat
  account_txs_limit :: nat
  next_node :: nat

definition TransactionQueue :: "nat \<Rightarrow> nat \<Rightarrow> txq" where
  "TransactionQueue limit account_limit =
     \<lparr>queue = [], time_queue = [], by_address_and_nonce = Map.empty, by_hash = Map.empty,
      account_nonce = Map.empty, queue_limit = limit, account_txs_limit = account_limit, next_node = 0\<rparr>"

definition nonce_of :: "txq \<Rightarrow> cstring \<Rightarrow> int" where
  "nonce_of q a = (case account_nonce q a of None \<Rightarrow> 0 | Some n \<Rightarrow> n)"

definition PriorityCompare :: "txq \<Rightarrow> tx \<Rightarrow> tx \<Rightarrow> bool" where
  "PriorityCompare q first second =
     (let height1 = nonce first - nonce_of q (source_address first);
          height2 = nonce second - nonce_of q (source_address second) in
      height1 < height2 \<or> (height1 = height2 \<and> gas_price first > gas_price second))"

definition TimePriorityCompare :: "tx \<Rightarrow> tx \<Rightarrow> bool" where
  "TimePriorityCompare first second \<longleftrightarrow> incoming_time first < incoming_time second"

fun emplace :: "(tx \<Rightarrow> tx \<Rightarrow> bool) \<Rightarrow> elem \<Rightarrow> elem list \<Rightarrow> elem list" where
  "emplace lt e [] = [e]"
| "emplace lt e (x # xs) = (if lt (snd e) (snd x) then e # x # xs else x # emplace lt e xs)"

definition erase :: "nat \<Rightarrow> elem list \<Rightarrow> elem list" where
  "erase it xs = filter (\<lambda>x. fst x \<noteq> it) xs"

text \<open>\<^verbatim>\<open>*it\<close>; an iterator of the queue is always valid (\<open>txq_inv\<close> below).\<close>

definition deref :: "nat \<Rightarrow> elem list \<Rightarrow> tx option" where
  "deref it xs = map_of xs it"

section \<open>Operations\<close>

definition Remove_at :: "cstring \<Rightarrow> QueueByNonce \<Rightarrow> int \<Rightarrow> nat \<times> nat \<Rightarrow> bool \<Rightarrow> txq \<Rightarrow> (bool \<times> tx option) \<times> txq" where
  "Remove_at account m n its del_empty q =
     (let ptr = deref (fst its) (queue q);
          m = AList.delete n m;
          q = q\<lparr>queue := erase (fst its) (queue q), time_queue := erase (snd its) (time_queue q),
                by_address_and_nonce := (by_address_and_nonce q)(account \<mapsto> m),
                by_hash := (case ptr of None \<Rightarrow> by_hash q | Some t \<Rightarrow> (by_hash q)(content_hash t := None))\<rparr> in
      ((True, ptr),
       if del_empty \<and> m = []
       then q\<lparr>account_nonce := (account_nonce q)(account := None),
              by_address_and_nonce := (by_address_and_nonce q)(account := None)\<rparr>
       else q))"

definition Remove :: "cstring \<Rightarrow> int \<Rightarrow> txq \<Rightarrow> (bool \<times> tx option) \<times> txq" where
  "Remove account n q =
     (case by_address_and_nonce q account of
        None \<Rightarrow> ((False, None), q)
      | Some m \<Rightarrow> (case map_of m n of None \<Rightarrow> ((False, None), q) | Some its \<Rightarrow> Remove_at account m n its True q))"

definition Insert :: "tx \<Rightarrow> txq \<Rightarrow> txq" where
  "Insert t q =
     (let i = next_node q; a = source_address t;
          m = (case by_address_and_nonce q a of None \<Rightarrow> [] | Some m \<Rightarrow> m) in
      q\<lparr>queue := emplace (PriorityCompare q) (i, t) (queue q),
        time_queue := emplace TimePriorityCompare (i, t) (time_queue q),
        by_address_and_nonce := (by_address_and_nonce q)(a \<mapsto> AList.update (nonce t) (i, i) m),
        by_hash := (by_hash q)(content_hash t \<mapsto> t), next_node := Suc i\<rparr>)"

text \<open>
  \<^verbatim>\<open>(tx->GetGasPrice() - p) >= (p*0.1)\<close>: both sides are doubles. \<open>round53\<close> rounds an integer to 53
  significant bits, halves to even; the constant 0.1 is \<open>3602879701896397 / 2 ^ 55\<close>.
\<close>

function bitlen :: "int \<Rightarrow> nat" where
  "bitlen n = (if n \<le> 0 then 0 else Suc (bitlen (n div 2)))"
  by pat_completeness auto
termination by (relation "measure nat") auto

declare bitlen.simps [simp del]

definition round53 :: "int \<Rightarrow> int" where
  "round53 n =
     (let a = \<bar>n\<bar>; s = bitlen a - 53; q = a div 2 ^ s; r = a mod 2 ^ s;
          up = 2 * r > 2 ^ s \<or> (2 * r = 2 ^ s \<and> odd q) in
      sgn n * (if up then q + 1 else q) * 2 ^ s)"

definition price_replaces :: "int \<Rightarrow> int \<Rightarrow> bool" where
  "price_replaces g p \<longleftrightarrow> round53 (g - p) * 2 ^ 55 \<ge> round53 (round53 p * 3602879701896397)"

text \<open>The loop that drops transactions at the end of a queue that is too long.\<close>

partial_function (option) evict :: "tx \<Rightarrow> bool \<Rightarrow> bool \<Rightarrow> txq \<Rightarrow> (bool \<times> bool \<times> txq) option" where
  "evict t inserted failed q =
     (if length (queue q) > queue_limit q then
        let l = snd (last (queue q));
            q = snd (Remove (source_address l) (nonce l) q) in
        if content_hash l = content_hash t then evict t False True q
        else evict t inserted failed q
      else Some (inserted, failed, q))"

text \<open>
  \<^verbatim>\<open>Import\<close>: whether the transaction was inserted, whether the error code was set, the queue. The
  part after the search for a transaction with the same nonce comes first.
\<close>

definition import_tail :: "tx \<Rightarrow> bool \<Rightarrow> nat \<Rightarrow> txq \<Rightarrow> (bool \<times> bool \<times> txq) option" where
  "import_tail t replace account_txs_size q =
     map_option (\<lambda>(inserted, failed, q).
         if account_txs_size \<ge> account_txs_limit q then (False, True, q) else (inserted, failed, q))
       (if replace \<or> account_txs_size < account_txs_limit q then evict t True False (Insert t q)
        else Some (False, False, q))"

definition Import :: "tx \<Rightarrow> int \<Rightarrow> txq \<Rightarrow> (bool \<times> bool \<times> txq) option" where
  "Import t cur_source_nonce q0 =
     (let a = source_address t;
          q = q0\<lparr>account_nonce := (account_nonce q0)(a \<mapsto> cur_source_nonce)\<rparr> in
      case by_address_and_nonce q a of
        None \<Rightarrow> import_tail t False 0 q
      | Some m \<Rightarrow>
          (case map_of m (nonce t) of
             None \<Rightarrow> import_tail t False (length m) q
           | Some its \<Rightarrow>
               (let p = (case deref (fst its) (queue q) of None \<Rightarrow> 0 | Some old \<Rightarrow> gas_price old) in
                if price_replaces (gas_price t) p then
                  let q = snd (Remove_at a m (nonce t) its True q);
                      q = q\<lparr>account_nonce := (account_nonce q)(a \<mapsto> cur_source_nonce)\<rparr> in
                  import_tail t True (length m - 1) q
                else Some (False, True, q))))"

text \<open>
  \<^verbatim>\<open>TopTransaction\<close>: the walk over the queue with the nonces reached and the accounts given up;
  \<open>env_size\<close> is the protobuf size of the set collected so far.
\<close>

definition TXSET_LIMIT_SIZE :: int where "TXSET_LIMIT_SIZE = 16 * 1024 * 1024"

fun top_walk :: "(tx list \<Rightarrow> int) \<Rightarrow> txq \<Rightarrow> nat \<Rightarrow> elem list \<Rightarrow> (cstring \<rightharpoonup> int) \<Rightarrow> cstring set \<Rightarrow> int \<Rightarrow> tx list \<Rightarrow> tx list" where
  "top_walk env_size q limit [] topic_seqs broken set_size txs = txs"
| "top_walk env_size q limit ((_, t) # es) topic_seqs broken set_size txs =
     (if \<not> length txs < limit then txs
      else if int (length txs) + set_size + byte_size t \<ge> TXSET_LIMIT_SIZE \<and> env_size txs + byte_size t \<ge> TXSET_LIMIT_SIZE
      then txs
      else
        let set_size = set_size + byte_size t; a = source_address t in
        if a \<in> broken then top_walk env_size q limit es topic_seqs broken set_size txs
        else
          let last_seq = (case topic_seqs a of Some s \<Rightarrow> s | None \<Rightarrow> nonce_of q a) in
          if nonce t > last_seq + 1 then top_walk env_size q limit es topic_seqs (insert a broken) set_size txs
          else top_walk env_size q limit es (topic_seqs(a \<mapsto> nonce t)) broken set_size (txs @ [t]))"

definition TopTransaction :: "(tx list \<Rightarrow> int) \<Rightarrow> nat \<Rightarrow> txq \<Rightarrow> tx list" where
  "TopTransaction env_size limit q = top_walk env_size q limit (queue q) Map.empty {} 0 []"

definition raise_nonce :: "bool \<Rightarrow> cstring \<Rightarrow> int \<Rightarrow> txq \<Rightarrow> txq" where
  "raise_nonce close_ledger a n q =
     (case account_nonce q a of
        Some s \<Rightarrow> if close_ledger \<and> s < n then q\<lparr>account_nonce := (account_nonce q)(a \<mapsto> n)\<rparr> else q
      | None \<Rightarrow> q)"

fun RemoveTxs :: "tx list \<Rightarrow> bool \<Rightarrow> txq \<Rightarrow> nat \<times> txq" where
  "RemoveTxs [] close_ledger q = (0, q)"
| "RemoveTxs (t # ts) close_ledger q =
     (let ((found, _), q) = Remove (source_address t) (nonce t) q;
          q = raise_nonce close_ledger (source_address t) (nonce t) q;
          (ret, q) = RemoveTxs ts close_ledger q in
      ((if found then Suc ret else ret), q))"

definition SafeRemoveTx :: "cstring \<Rightarrow> int \<Rightarrow> txq \<Rightarrow> txq" where
  "SafeRemoveTx account n q = snd (Remove account n q)"

definition QUEUE_TRANSACTION_TIMEOUT :: int where "QUEUE_TRANSACTION_TIMEOUT = 600 * 1000000"

definition tx_CheckTimeout :: "tx \<Rightarrow> int \<Rightarrow> bool" where
  "tx_CheckTimeout t expire_time \<longleftrightarrow> incoming_time t < expire_time"

definition CheckTimeout :: "int \<Rightarrow> txq \<Rightarrow> tx list" where
  "CheckTimeout current_time q =
     map snd (takeWhile (\<lambda>e. tx_CheckTimeout (snd e) (current_time - QUEUE_TRANSACTION_TIMEOUT)) (time_queue q))"

partial_function (option) CheckTimeoutAndDel :: "int \<Rightarrow> tx list \<Rightarrow> txq \<Rightarrow> (tx list \<times> txq) option" where
  "CheckTimeoutAndDel current_time timeout_txs q =
     (case time_queue q of
        [] \<Rightarrow> Some (timeout_txs, q)
      | e # _ \<Rightarrow>
          if \<not> tx_CheckTimeout (snd e) (current_time - QUEUE_TRANSACTION_TIMEOUT) then Some (timeout_txs, q)
          else CheckTimeoutAndDel current_time (timeout_txs @ [snd e])
                 (snd (Remove (source_address (snd e)) (nonce (snd e)) q)))"

definition IsExist_tx :: "tx \<Rightarrow> txq \<Rightarrow> bool" where
  "IsExist_tx t q =
     (case by_address_and_nonce q (source_address t) of
        None \<Rightarrow> False
      | Some m \<Rightarrow> (case map_of m (nonce t) of
          None \<Rightarrow> False
        | Some its \<Rightarrow> (case deref (fst its) (queue q) of None \<Rightarrow> False | Some t' \<Rightarrow> content_hash t' = content_hash t)))"

definition IsExist :: "cstring \<Rightarrow> txq \<Rightarrow> bool" where
  "IsExist h q \<longleftrightarrow> by_hash q h \<noteq> None"

definition Size :: "txq \<Rightarrow> nat" where
  "Size q = length (queue q)"

definition Query_top :: "nat \<Rightarrow> txq \<Rightarrow> tx list" where
  "Query_top num q = map snd (take num (queue q))"

definition Query :: "cstring \<Rightarrow> txq \<Rightarrow> tx option" where
  "Query h q = by_hash q h"

section \<open>Lists of elements\<close>

lemma set_emplace [simp]: "set (emplace lt e xs) = insert e (set xs)"
  by (induction xs) auto

lemma length_emplace [simp]: "length (emplace lt e xs) = Suc (length xs)"
  by (induction xs) auto

lemma distinct_emplace [simp]:
  "distinct (map fst (emplace lt e xs)) \<longleftrightarrow> fst e \<notin> fst ` set xs \<and> distinct (map fst xs)"
  by (induction xs) auto

lemma sorted_emplace:
  "sorted (map (\<lambda>e. incoming_time (snd e)) xs) \<Longrightarrow>
   sorted (map (\<lambda>e. incoming_time (snd e)) (emplace TimePriorityCompare x xs))"
  by (induction xs) (auto simp: TimePriorityCompare_def)

lemma set_erase: "set (erase i xs) = {x \<in> set xs. fst x \<noteq> i}"
  by (auto simp: erase_def)

lemma distinct_erase: "distinct (map fst xs) \<Longrightarrow> distinct (map fst (erase i xs))"
  by (simp add: erase_def distinct_map_filter)

lemma sorted_erase:
  "sorted (map f xs) \<Longrightarrow> sorted (map f (erase i xs))"
  by (simp add: erase_def sorted_filter)

lemma length_erase:
  assumes "distinct (map fst xs)" and "(i, t) \<in> set xs"
  shows "Suc (length (erase i xs)) = length xs"
  using assms
proof (induction xs)
  case (Cons x xs)
  show ?case
  proof (cases "fst x = i")
    case True
    then have "\<forall>y \<in> set xs. fst y \<noteq> i" using Cons.prems(1) by (auto simp: image_iff)
    then have "erase i xs = xs" by (simp add: erase_def)
    then show ?thesis using True by (simp add: erase_def)
  next
    case False
    then show ?thesis using Cons by (auto simp: erase_def)
  qed
qed simp

section \<open>Consistency of the indices\<close>

text \<open>
  What the queue relies on in the hash of a transaction: transactions with the same hash have
  the same source account and nonce, which the hashed content includes.
\<close>

definition hash_keys :: "tx set \<Rightarrow> bool" where
  "hash_keys U \<longleftrightarrow> (\<forall>x \<in> U. \<forall>y \<in> U. content_hash x = content_hash y \<longrightarrow>
     source_address x = source_address y \<and> nonce x = nonce y)"

definition at_key :: "cstring \<Rightarrow> int \<Rightarrow> elem \<Rightarrow> bool" where
  "at_key a n e \<longleftrightarrow> source_address (snd e) = a \<and> nonce (snd e) = n"

definition lists_ok :: "txq \<Rightarrow> bool" where
  "lists_ok q \<longleftrightarrow> distinct (map fst (queue q)) \<and> distinct (map fst (time_queue q)) \<and>
     set (time_queue q) = set (queue q) \<and> (\<forall>e \<in> set (queue q). fst e < next_node q) \<and>
     sorted (map (\<lambda>e. incoming_time (snd e)) (time_queue q))"

definition index_ok :: "txq \<Rightarrow> bool" where
  "index_ok q \<longleftrightarrow>
     (\<forall>a m. by_address_and_nonce q a = Some m \<longrightarrow> m \<noteq> [] \<and> distinct (map fst m) \<and> account_nonce q a \<noteq> None) \<and>
     (\<forall>a n its. (\<exists>m. by_address_and_nonce q a = Some m \<and> map_of m n = Some its) \<longleftrightarrow>
        (\<exists>e \<in> set (queue q). at_key a n e \<and> its = (fst e, fst e)))"

definition hash_ok :: "txq \<Rightarrow> bool" where
  "hash_ok q \<longleftrightarrow> (\<forall>h t. by_hash q h = Some t \<longleftrightarrow> t \<in> snd ` set (queue q) \<and> content_hash t = h)"

definition txq_core :: "tx set \<Rightarrow> txq \<Rightarrow> bool" where
  "txq_core U q \<longleftrightarrow> hash_keys U \<and> snd ` set (queue q) \<subseteq> U \<and> lists_ok q \<and> index_ok q \<and> hash_ok q"

lemma core_unique_key:
  assumes "txq_core U q" and "e \<in> set (queue q)" and "e' \<in> set (queue q)" and "at_key a n e" and "at_key a n e'"
  shows "e = e'"
proof -
  have i: "index_ok q" "distinct (map fst (queue q))" using assms(1) by (auto simp: txq_core_def lists_ok_def)
  obtain m where "by_address_and_nonce q a = Some m" "map_of m n = Some (fst e, fst e)"
    using i(1) assms(2,4) unfolding index_ok_def by metis
  moreover obtain m' where "by_address_and_nonce q a = Some m'" "map_of m' n = Some (fst e', fst e')"
    using i(1) assms(3,5) unfolding index_ok_def by metis
  ultimately have "fst e = fst e'" by simp
  then show ?thesis using i(2) assms(2,3) by (metis eq_key_imp_eq_value prod.collapse)
qed

lemma core_deref:
  assumes "txq_core U q" and "e \<in> set (queue q)"
  shows "deref (fst e) (queue q) = Some (snd e)"
  using assms by (auto simp: deref_def txq_core_def lists_ok_def)

lemma core_lookup:
  assumes "txq_core U q" and "e \<in> set (queue q)" and "at_key a n e"
  obtains m where "by_address_and_nonce q a = Some m" and "map_of m n = Some (fst e, fst e)" and "distinct (map fst m)"
  using assms unfolding txq_core_def index_ok_def by metis

lemma core_missing:
  assumes "txq_core U q" and "\<not> (\<exists>e \<in> set (queue q). at_key a n e)" and "by_address_and_nonce q a = Some m"
  shows "map_of m n = None"
  using assms unfolding txq_core_def index_ok_def by (metis option.exhaust)

lemma map_of_delete: "map_of (AList.delete k m) k' = (if k' = k then None else map_of m k')"
  by (simp add: AList.delete_conv')

lemma distinct_delete: "distinct (map fst m) \<Longrightarrow> distinct (map fst (AList.delete k m))"
  by (simp add: AList.distinct_delete)

lemma Remove_absent:
  assumes "txq_core U q" and "\<not> (\<exists>e \<in> set (queue q). at_key a n e)"
  shows "Remove a n q = ((False, None), q)"
  using core_missing [OF assms] by (auto simp: Remove_def split: option.splits)

lemma hash_ok_erase:
  assumes c: "txq_core U q" and e: "e \<in> set (queue q)"
    and q': "set (queue q') = set (queue q) - {e}" "by_hash q' = (by_hash q)(content_hash (snd e) := None)"
  shows "hash_ok q'"
proof -
  have ok: "hash_ok q" "hash_keys U" "snd ` set (queue q) \<subseteq> U" using c by (simp_all add: txq_core_def)
  have same: "x = e" if "x \<in> set (queue q)" "content_hash (snd x) = content_hash (snd e)" for x
  proof -
    have "snd x \<in> U" "snd e \<in> U" using ok(3) that e by auto
    then have "source_address (snd x) = source_address (snd e) \<and> nonce (snd x) = nonce (snd e)"
      using ok(2) that(2) unfolding hash_keys_def by blast
    then show ?thesis using core_unique_key [OF c that(1) e] by (simp add: at_key_def)
  qed
  show ?thesis
    unfolding hash_ok_def
  proof (intro allI iffI)
    fix h t assume "by_hash q' h = Some t"
    then have "by_hash q h = Some t" "h \<noteq> content_hash (snd e)" using q'(2) by (auto split: if_splits)
    moreover have "t \<in> snd ` set (queue q) \<and> content_hash t = h"
      using ok(1) calculation(1) unfolding hash_ok_def by blast
    ultimately show "t \<in> snd ` set (queue q') \<and> content_hash t = h"
      using q'(1) by auto
  next
    fix h t assume "t \<in> snd ` set (queue q') \<and> content_hash t = h"
    then obtain x where x: "x \<in> set (queue q)" "x \<noteq> e" "t = snd x" "content_hash t = h" using q'(1) by auto
    then have "by_hash q h = Some t" using ok(1) unfolding hash_ok_def by blast
    moreover have "h \<noteq> content_hash (snd e)" using same x by metis
    ultimately show "by_hash q' h = Some t" using q'(2) by simp
  qed
qed

lemma Remove_at_core:
  assumes c: "txq_core U q" and e: "e \<in> set (queue q)" "at_key a n e"
    and m: "by_address_and_nonce q a = Some m" "map_of m n = Some its"
    and r: "Remove_at a m n its True q = (res, q')"
  shows "res = (True, Some (snd e)) \<and> txq_core U q' \<and> set (queue q') = set (queue q) - {e} \<and>
     Suc (length (queue q')) = length (queue q) \<and> queue_limit q' = queue_limit q \<and>
     account_txs_limit q' = account_txs_limit q \<and> (\<forall>b. b \<noteq> a \<longrightarrow> account_nonce q' b = account_nonce q b) \<and>
     by_address_and_nonce q' = (by_address_and_nonce q)(a := (if AList.delete n m = [] then None else Some (AList.delete n m))) \<and>
     time_queue q' = erase (fst e) (time_queue q)"
proof -
  have ok: "lists_ok q" "index_ok q" "hash_keys U" "snd ` set (queue q) \<subseteq> U" using c by (simp_all add: txq_core_def)
  obtain m' where "by_address_and_nonce q a = Some m'" "map_of m' n = Some (fst e, fst e)"
    using core_lookup [OF c e] .
  then have its: "its = (fst e, fst e)" using m by simp
  have dm: "distinct (map fst m)" using ok(2) m(1) by (simp add: index_ok_def)
  have ptr: "deref (fst its) (queue q) = Some (snd e)" using core_deref [OF c e(1)] its by simp
  have key: "fst x = fst e \<longleftrightarrow> x = e" if "x \<in> set (queue q)" for x
    using that e(1) ok(1) unfolding lists_ok_def by (metis eq_key_imp_eq_value prod.collapse)
  have q': "queue q' = erase (fst e) (queue q)" "time_queue q' = erase (fst e) (time_queue q)" "next_node q' = next_node q"
    "by_address_and_nonce q' = (by_address_and_nonce q)(a := (if AList.delete n m = [] then None else Some (AList.delete n m)))"
    "by_hash q' = (by_hash q)(content_hash (snd e) := None)"
    "account_nonce q' = (if AList.delete n m = [] then (account_nonce q)(a := None) else account_nonce q)"
    "queue_limit q' = queue_limit q" "account_txs_limit q' = account_txs_limit q" "res = (True, Some (snd e))"
    using r ptr its by (auto simp: Remove_at_def Let_def)
  have sets: "set (queue q') = set (queue q) - {e}"
    unfolding q'(1) set_erase using key by blast
  have "set (time_queue q') = set (queue q')"
    using ok(1) q'(1,2) by (simp add: set_erase lists_ok_def)
  then have "lists_ok q'"
    using ok(1) q' sets by (auto simp: lists_ok_def set_erase intro: distinct_erase sorted_erase)
  moreover have "hash_ok q'" using hash_ok_erase [OF c e(1) sets q'(5)] .
  moreover have "index_ok q'"
    unfolding index_ok_def
  proof (intro conjI allI impI)
    fix b m' assume b: "by_address_and_nonce q' b = Some m'"
    show "m' \<noteq> []" "distinct (map fst m')" "account_nonce q' b \<noteq> None"
      using b q'(4,6) ok(2) m(1) distinct_delete [OF dm] by (auto simp: index_ok_def split: if_splits)
  next
    fix b n' its'
    have old: "(\<exists>m. by_address_and_nonce q b = Some m \<and> map_of m n' = Some its') \<longleftrightarrow>
        (\<exists>x \<in> set (queue q). at_key b n' x \<and> its' = (fst x, fst x))"
      using ok(2) unfolding index_ok_def by blast
    have gone: "x \<noteq> e \<longleftrightarrow> \<not> (b = a \<and> n' = n)" if "x \<in> set (queue q)" "at_key b n' x" for x
      using core_unique_key [OF c that(1) e(1)] that(2) e(2) by (auto simp: at_key_def)
    have new: "(\<exists>m. by_address_and_nonce q' b = Some m \<and> map_of m n' = Some its') \<longleftrightarrow>
        (\<exists>m. by_address_and_nonce q b = Some m \<and> map_of m n' = Some its') \<and> \<not> (b = a \<and> n' = n)"
    proof (cases "b = a")
      case True
      have "map_of (AList.delete n m) n' = Some its' \<Longrightarrow> AList.delete n m \<noteq> []" by auto
      then show ?thesis using True q'(4) m(1) map_of_delete [of n m n'] by auto
    qed (use q'(4) in auto)
    show "(\<exists>m. by_address_and_nonce q' b = Some m \<and> map_of m n' = Some its') =
        (\<exists>x \<in> set (queue q'). at_key b n' x \<and> its' = (fst x, fst x))"
      unfolding new old sets using gone by blast
  qed
  moreover have "Suc (length (queue q')) = length (queue q)"
    using length_erase [of "queue q" "fst e" "snd e"] ok(1) e(1) q'(1) by (simp add: lists_ok_def)
  ultimately show ?thesis
    using q' sets ok(3,4) by (auto simp: txq_core_def)
qed

lemma Remove_present:
  assumes c: "txq_core U q" and e: "e \<in> set (queue q)" "at_key a n e" and r: "Remove a n q = (res, q')"
  shows "res = (True, Some (snd e)) \<and> txq_core U q' \<and> set (queue q') = set (queue q) - {e} \<and>
     Suc (length (queue q')) = length (queue q) \<and> queue_limit q' = queue_limit q \<and>
     account_txs_limit q' = account_txs_limit q \<and> (\<forall>b. b \<noteq> a \<longrightarrow> account_nonce q' b = account_nonce q b) \<and>
     (\<exists>m. by_address_and_nonce q a = Some m \<and>
       by_address_and_nonce q' = (by_address_and_nonce q)(a := (if AList.delete n m = [] then None else Some (AList.delete n m)))) \<and>
     time_queue q' = erase (fst e) (time_queue q)"
proof -
  obtain m where m: "by_address_and_nonce q a = Some m" "map_of m n = Some (fst e, fst e)"
    using core_lookup [OF c e] .
  then have "Remove_at a m n (fst e, fst e) True q = (res, q')" using r by (simp add: Remove_def)
  from Remove_at_core [OF c e m this] m(1) show ?thesis by blast
qed

lemma Insert_core:
  assumes c: "txq_core U q" and t: "t \<in> U" "\<not> (\<exists>e \<in> set (queue q). at_key (source_address t) (nonce t) e)"
    and n: "account_nonce q (source_address t) \<noteq> None"
  shows "txq_core U (Insert t q)" and "set (queue (Insert t q)) = insert (next_node q, t) (set (queue q))"
    and "length (queue (Insert t q)) = Suc (length (queue q))"
proof -
  let ?a = "source_address t" and ?q = "Insert t q" and ?i = "next_node q"
  have ok: "lists_ok q" "index_ok q" "hash_ok q" "hash_keys U" "snd ` set (queue q) \<subseteq> U"
    using c by (simp_all add: txq_core_def)
  show s: "set (queue ?q) = insert (?i, t) (set (queue q))" and "length (queue ?q) = Suc (length (queue q))"
    by (simp_all add: Insert_def Let_def)
  have "?i \<notin> fst ` set (queue q)" using ok(1) by (auto simp: lists_ok_def)
  then have "lists_ok ?q"
    using ok(1) sorted_emplace by (auto simp: lists_ok_def Insert_def Let_def intro: less_SucI)
  moreover have "hash_ok ?q"
  proof -
    have fresh: "content_hash x \<noteq> content_hash t" if "x \<in> snd ` set (queue q)" for x
    proof
      assume "content_hash x = content_hash t"
      then have "source_address x = ?a \<and> nonce x = nonce t"
        using ok(4,5) that t(1) unfolding hash_keys_def by blast
      then show False using that t(2) by (auto simp: at_key_def)
    qed
    have b: "by_hash ?q = (by_hash q)(content_hash t \<mapsto> t)" by (simp add: Insert_def Let_def)
    show ?thesis
      unfolding hash_ok_def s b
    proof (intro allI)
      fix h x
      have "by_hash q h = Some x \<longleftrightarrow> x \<in> snd ` set (queue q) \<and> content_hash x = h"
        using ok(3) by (simp add: hash_ok_def)
      then show "((by_hash q)(content_hash t \<mapsto> t)) h = Some x \<longleftrightarrow>
          x \<in> snd ` insert (?i, t) (set (queue q)) \<and> content_hash x = h"
        using fresh [of x] by auto
    qed
  qed
  moreover have "index_ok ?q"
  proof -
    define m where "m = (case by_address_and_nonce q ?a of None \<Rightarrow> [] | Some m \<Rightarrow> m)"
    have b: "by_address_and_nonce ?q = (by_address_and_nonce q)(?a \<mapsto> AList.update (nonce t) (?i, ?i) m)"
      and an: "account_nonce ?q = account_nonce q"
      by (simp_all add: Insert_def Let_def m_def)
    have dm: "distinct (map fst m)" using ok(2) by (auto simp: m_def index_ok_def split: option.splits)
    have mo: "map_of (AList.update (nonce t) (?i, ?i) m) = (map_of m)(nonce t \<mapsto> (?i, ?i))"
      by (rule AList.update_conv')
    have upd: "AList.update (nonce t) (?i, ?i) m \<noteq> []" by (cases m) auto
    have old: "map_of m k = Some its \<longleftrightarrow> (\<exists>m. by_address_and_nonce q ?a = Some m \<and> map_of m k = Some its)" for k its
      by (auto simp: m_def split: option.splits)
    show ?thesis
      unfolding index_ok_def
    proof (intro conjI allI impI)
      fix b m' assume "by_address_and_nonce ?q b = Some m'"
      then show "m' \<noteq> []" "distinct (map fst m')" "account_nonce ?q b \<noteq> None"
        using b an upd n ok(2) AList.distinct_update [OF dm] by (auto simp: index_ok_def split: if_splits)
    next
      fix b k its
      have ix: "(\<exists>m. by_address_and_nonce q b = Some m \<and> map_of m k = Some its) \<longleftrightarrow>
          (\<exists>e \<in> set (queue q). at_key b k e \<and> its = (fst e, fst e))"
        using ok(2) unfolding index_ok_def by blast
      show "(\<exists>m. by_address_and_nonce ?q b = Some m \<and> map_of m k = Some its) =
          (\<exists>e \<in> set (queue ?q). at_key b k e \<and> its = (fst e, fst e))"
      proof (cases "b = ?a")
        case True
        then show ?thesis
          using ix old [of k its] t(2) unfolding b s by (auto simp: mo at_key_def)
      next
        case False
        then show ?thesis using ix unfolding b s by (auto simp: at_key_def)
      qed
    qed
  qed
  ultimately show "txq_core U ?q"
    using ok(4,5) t(1) s by (auto simp: txq_core_def)
qed

section \<open>Import\<close>

text \<open>The limits, which hold between calls.\<close>

definition limits_ok :: "txq \<Rightarrow> bool" where
  "limits_ok q \<longleftrightarrow> length (queue q) \<le> queue_limit q \<and>
     (\<forall>a m. by_address_and_nonce q a = Some m \<longrightarrow> length m \<le> account_txs_limit q)"

definition account_limits_ok :: "txq \<Rightarrow> bool" where
  "account_limits_ok q \<longleftrightarrow> (\<forall>a m. by_address_and_nonce q a = Some m \<longrightarrow> length m \<le> account_txs_limit q)"

lemma core_account_nonce:
  assumes "txq_core U q"
  shows "txq_core U (q\<lparr>account_nonce := (account_nonce q)(a \<mapsto> n)\<rparr>)"
  using assms by (auto simp: txq_core_def lists_ok_def index_ok_def hash_ok_def)

lemma length_delete_le: "length (AList.delete n m) \<le> length m"
  by (simp add: AList.delete_eq)

lemma account_limits_Remove:
  assumes "account_limits_ok q" and "txq_core U q" and "Remove a n q = (res, q')"
  shows "account_limits_ok q'"
proof (cases "\<exists>e \<in> set (queue q). at_key a n e")
  case True
  then obtain e where e: "e \<in> set (queue q)" "at_key a n e" by blast
  note r = Remove_present [OF assms(2) e assms(3)]
  then obtain m where m: "by_address_and_nonce q a = Some m"
    "by_address_and_nonce q' = (by_address_and_nonce q)(a := (if AList.delete n m = [] then None else Some (AList.delete n m)))"
    by blast
  then show ?thesis
    using assms(1) r length_delete_le [of n m] le_trans by (fastforce simp: account_limits_ok_def split: if_splits)
next
  case False
  then show ?thesis using Remove_absent [OF assms(2)] assms by auto
qed

lemma evict_returns:
  assumes "txq_core U q" and "account_limits_ok q"
  shows "\<exists>ins failed' q'. evict t inserted failed q = Some (ins, failed', q') \<and> txq_core U q' \<and> limits_ok q' \<and>
     set (queue q') \<subseteq> set (queue q) \<and> queue_limit q' = queue_limit q \<and> account_txs_limit q' = account_txs_limit q \<and>
     (ins \<longleftrightarrow> inserted \<and> \<not> (\<exists>e \<in> set (queue q) - set (queue q'). content_hash (snd e) = content_hash t)) \<and>
     (failed' \<longleftrightarrow> failed \<or> (\<exists>e \<in> set (queue q) - set (queue q'). content_hash (snd e) = content_hash t))"
  using assms
proof (induction "length (queue q)" arbitrary: q inserted failed)
  case 0
  then show ?case by (subst evict.simps) (simp add: limits_ok_def account_limits_ok_def)
next
  case (Suc n)
  show ?case
  proof (cases "length (queue q) > queue_limit q")
    case False
    then show ?thesis using Suc.prems by (subst evict.simps) (simp add: limits_ok_def account_limits_ok_def)
  next
    case True
    let ?e = "last (queue q)"
    have e: "?e \<in> set (queue q)" using Suc.hyps(2) by (intro last_in_set) auto
    obtain res q1 where r: "Remove (source_address (snd ?e)) (nonce (snd ?e)) q = (res, q1)" by fastforce
    note rp = Remove_present [OF Suc.prems(1) e _ r]
    have q1: "txq_core U q1" "set (queue q1) = set (queue q) - {?e}" "n = length (queue q1)"
      "queue_limit q1 = queue_limit q" "account_txs_limit q1 = account_txs_limit q"
      using rp Suc.hyps(2) by (auto simp: at_key_def)
    have al: "account_limits_ok q1" using account_limits_Remove [OF Suc.prems(2,1) r] .
    show ?thesis
    proof (cases "content_hash (snd ?e) = content_hash t")
      case hit: True
      have "evict t inserted failed q = evict t False True q1"
        using True r hit by (subst evict.simps) (simp add: Let_def)
      then show ?thesis
        using Suc.hyps(1) [OF q1(3,1) al, of False True] q1 e hit by fastforce
    next
      case miss: False
      have "evict t inserted failed q = evict t inserted failed q1"
        using True r miss by (subst evict.simps) (simp add: Let_def)
      then show ?thesis
        using Suc.hyps(1) [OF q1(3,1) al, of inserted failed] q1 e miss by fastforce
    qed
  qed
qed

lemma length_update_new: "k \<notin> fst ` set m \<Longrightarrow> length (AList.update k v m) = Suc (length m)"
  by (induction m) auto

lemma length_delete:
  assumes "distinct (map fst m)" and "map_of m k = Some v"
  shows "Suc (length (AList.delete k m)) = length m"
  using assms by (induction m) (auto simp: AList.delete_notin_dom dom_map_of_conv_image_fst split: if_splits)

definition account_size :: "txq \<Rightarrow> cstring \<Rightarrow> nat" where
  "account_size q a = (case by_address_and_nonce q a of None \<Rightarrow> 0 | Some m \<Rightarrow> length m)"

lemma account_limits_Insert:
  assumes c: "txq_core U q" and l: "account_limits_ok q" and s: "account_size q (source_address t) < account_txs_limit q"
    and n: "\<not> (\<exists>e \<in> set (queue q). at_key (source_address t) (nonce t) e)"
  shows "account_limits_ok (Insert t q)"
proof -
  let ?a = "source_address t"
  define m where "m = (case by_address_and_nonce q ?a of None \<Rightarrow> [] | Some m \<Rightarrow> m)"
  have "map_of m (nonce t) = None"
    using core_missing [OF c n] by (auto simp: m_def split: option.splits)
  then have "nonce t \<notin> fst ` set m" by (simp add: map_of_eq_None_iff)
  then have "length (AList.update (nonce t) i m) \<le> account_txs_limit q" for i
    using s length_update_new [of "nonce t" m] by (auto simp: m_def account_size_def split: option.splits)
  then show ?thesis
    using l by (auto simp: account_limits_ok_def Insert_def Let_def m_def [symmetric] split: if_splits)
qed

text \<open>The transaction is new, or has just been taken out to be replaced.\<close>

lemma import_tail_spec:
  assumes c: "txq_core U q" and l: "account_limits_ok q" "length (queue q) \<le> queue_limit q" and t: "t \<in> U"
    and n: "\<not> (\<exists>e \<in> set (queue q). at_key (source_address t) (nonce t) e)"
    and a: "account_nonce q (source_address t) \<noteq> None"
    and s: "sz = account_size q (source_address t)" and rep: "replace \<Longrightarrow> sz < account_txs_limit q"
  shows "\<exists>ins q'. import_tail t replace sz q = Some (ins, \<not> ins, q') \<and> txq_core U q' \<and> limits_ok q' \<and>
     (ins \<longrightarrow> (next_node q, t) \<in> set (queue q') \<and> set (queue q') \<subseteq> insert (next_node q, t) (set (queue q))) \<and>
     (\<not> ins \<longrightarrow> set (queue q') \<subseteq> set (queue q))"
proof (cases "sz < account_txs_limit q")
  case False
  then have "\<not> replace" using rep by blast
  then have "import_tail t replace sz q = Some (False, True, q)"
    using False by (simp add: import_tail_def)
  then show ?thesis
    using c l by (intro exI [of _ False] exI [of _ q]) (simp add: limits_ok_def account_limits_ok_def)
next
  case True
  let ?e = "(next_node q, t)" and ?q = "Insert t q"
  note i = Insert_core [OF c t n a]
  have al: "account_limits_ok ?q" using account_limits_Insert [OF c l(1) _ n] True s by simp
  obtain ins failed q' where e: "evict t True False ?q = Some (ins, failed, q')" "txq_core U q'" "limits_ok q'"
    "set (queue q') \<subseteq> set (queue ?q)" "account_txs_limit q' = account_txs_limit ?q"
    "ins \<longleftrightarrow> \<not> (\<exists>x \<in> set (queue ?q) - set (queue q'). content_hash (snd x) = content_hash t)"
    "failed \<longleftrightarrow> (\<exists>x \<in> set (queue ?q) - set (queue q'). content_hash (snd x) = content_hash t)"
    using evict_returns [OF i(1) al, of t True False] by blast
  have lim: "account_txs_limit ?q = account_txs_limit q" by (simp add: Insert_def Let_def)
  have tail: "import_tail t replace sz q = Some (ins, \<not> ins, q')"
    using True e lim by (simp add: import_tail_def)
  have same: "x = ?e" if "x \<in> set (queue ?q)" "content_hash (snd x) = content_hash t" for x
  proof -
    have "hash_keys U" "snd x \<in> U" using i(1) that(1) by (auto simp: txq_core_def)
    then have "at_key (source_address t) (nonce t) x" using that(2) t unfolding hash_keys_def at_key_def by blast
    then show ?thesis using that(1) i(2) n by auto
  qed
  have "?e \<in> set (queue ?q)" using i(2) by simp
  then have "ins \<longleftrightarrow> ?e \<in> set (queue q')" using e(6) same by (metis DiffE DiffI snd_conv)
  moreover have "ins \<longrightarrow> set (queue q') \<subseteq> insert ?e (set (queue q))" using e(4) i(2) by simp
  moreover have "\<not> ins \<longrightarrow> set (queue q') \<subseteq> set (queue q)" using calculation(1) e(4) i(2) by (metis subset_insert)
  ultimately show ?thesis using tail e(2,3) by blast
qed

text \<open>What a successful and a failed import do, and when a transaction is replaced.\<close>

lemma Import_spec:
  assumes c: "txq_core U q" and l: "limits_ok q" and t: "t \<in> U"
  shows "\<exists>ins q'. Import t n q = Some (ins, \<not> ins, q') \<and> txq_core U q' \<and> limits_ok q' \<and>
     (ins \<longrightarrow> t \<in> snd ` set (queue q') \<and>
        (\<forall>e \<in> set (queue q). at_key (source_address t) (nonce t) e \<longrightarrow> price_replaces (gas_price t) (gas_price (snd e)))) \<and>
     (\<not> ins \<longrightarrow> set (queue q') \<subseteq> set (queue q))"
proof -
  let ?a = "source_address t"
  define q1 where "q1 = q\<lparr>account_nonce := (account_nonce q)(?a \<mapsto> n)\<rparr>"
  have c1: "txq_core U q1" unfolding q1_def by (rule core_account_nonce [OF c])
  have q1: "queue q1 = queue q" "by_address_and_nonce q1 = by_address_and_nonce q" "account_nonce q1 ?a = Some n"
    "account_limits_ok q1" "length (queue q1) \<le> queue_limit q1" "next_node q1 = next_node q"
    using l by (simp_all add: q1_def limits_ok_def account_limits_ok_def)
  show ?thesis
  proof (cases "\<exists>e \<in> set (queue q1). at_key ?a (nonce t) e")
    case False
    have "Import t n q = import_tail t False (account_size q1 ?a) q1"
      using core_missing [OF c1 False] by (auto simp: Import_def Let_def q1_def account_size_def split: option.splits)
    moreover obtain ins q' where "import_tail t False (account_size q1 ?a) q1 = Some (ins, \<not> ins, q')" "txq_core U q'"
      "limits_ok q'" "ins \<longrightarrow> (next_node q1, t) \<in> set (queue q')" "\<not> ins \<longrightarrow> set (queue q') \<subseteq> set (queue q)"
      using import_tail_spec [OF c1 q1(4,5) t False _ refl, of False] q1(1,3) by auto
    ultimately show ?thesis using False q1(1) by force
  next
    case True
    then obtain e where e: "e \<in> set (queue q1)" "at_key ?a (nonce t) e" by blast
    obtain m where m: "by_address_and_nonce q1 ?a = Some m" "map_of m (nonce t) = Some (fst e, fst e)" "distinct (map fst m)"
      using core_lookup [OF c1 e] .
    have d: "deref (fst e) (queue q1) = Some (snd e)" using core_deref [OF c1 e(1)] .
    have only: "x = e" if "x \<in> set (queue q)" "at_key ?a (nonce t) x" for x
      using core_unique_key [OF c1 _ e(1) _ e(2)] that q1(1) by simp
    show ?thesis
    proof (cases "price_replaces (gas_price t) (gas_price (snd e))")
      case False
      have "Import t n q = Some (False, True, q1)"
        using m d False by (simp add: Import_def Let_def q1_def)
      then show ?thesis
        using c1 q1 by (intro exI [of _ False] exI [of _ q1]) (simp add: limits_ok_def account_limits_ok_def)
    next
      case rep: True
      obtain res q2 where r: "Remove_at ?a m (nonce t) (fst e, fst e) True q1 = (res, q2)" by fastforce
      note ra = Remove_at_core [OF c1 e m(1,2) r]
      define q3 where "q3 = q2\<lparr>account_nonce := (account_nonce q2)(?a \<mapsto> n)\<rparr>"
      have im: "Import t n q = import_tail t True (length m - 1) q3"
        using m d rep r by (simp add: Import_def Let_def q1_def q3_def)
      have c3: "txq_core U q3" unfolding q3_def using ra by (intro core_account_nonce) blast
      have q3: "set (queue q3) = set (queue q) - {e}" "length (queue q3) \<le> queue_limit q3" "account_nonce q3 ?a = Some n"
        "by_address_and_nonce q3 = (by_address_and_nonce q1)(?a := (if AList.delete (nonce t) m = [] then None else Some (AList.delete (nonce t) m)))"
        "account_txs_limit q3 = account_txs_limit q1"
        using ra q1 by (auto simp: q3_def)
      have len: "Suc (length (AList.delete (nonce t) m)) = length m" using length_delete [OF m(3,2)] .
      then have sz: "length m - 1 = account_size q3 ?a" using q3(4) by (auto simp: account_size_def)
      have lm: "length m \<le> account_txs_limit q3" using q1(4) m(1) q3(5) by (simp add: account_limits_ok_def)
      have al: "account_limits_ok q3"
        using q1(4) q3(4,5) len lm by (auto simp: account_limits_ok_def split: if_splits)
      have none: "\<not> (\<exists>x \<in> set (queue q3). at_key ?a (nonce t) x)" using q3(1) only by auto
      have lt: "length m - 1 < account_txs_limit q3" using len lm by simp
      obtain ins q' where "import_tail t True (length m - 1) q3 = Some (ins, \<not> ins, q')" "txq_core U q'"
        "limits_ok q'" "ins \<longrightarrow> (next_node q3, t) \<in> set (queue q')" "\<not> ins \<longrightarrow> set (queue q') \<subseteq> set (queue q3)"
        using import_tail_spec [OF c3 al q3(2) t none _ sz, of True] q3(3) lt by auto
      then show ?thesis using im rep only q3(1) by force
    qed
  qed
qed

section \<open>The other operations\<close>

lemma Remove_inv:
  assumes "txq_core U q" and "limits_ok q"
  shows "txq_core U (snd (Remove a n q)) \<and> limits_ok (snd (Remove a n q)) \<and>
     set (queue (snd (Remove a n q))) = {e \<in> set (queue q). \<not> at_key a n e} \<and>
     time_queue (snd (Remove a n q)) = filter (\<lambda>e. \<not> at_key a n e) (time_queue q)"
proof (cases "\<exists>e \<in> set (queue q). at_key a n e")
  case False
  have "set (time_queue q) = set (queue q)" using assms(1) by (simp add: txq_core_def lists_ok_def)
  then have "filter (\<lambda>e. \<not> at_key a n e) (time_queue q) = time_queue q" using False by (auto simp: filter_id_conv)
  then show ?thesis using Remove_absent [OF assms(1) False] assms False by auto
next
  case True
  then obtain e where e: "e \<in> set (queue q)" "at_key a n e" by blast
  obtain res q' where r: "Remove a n q = (res, q')" by fastforce
  note rp = Remove_present [OF assms(1) e r]
  have only: "at_key a n x \<longleftrightarrow> x = e" if "x \<in> set (queue q)" for x
    using core_unique_key [OF assms(1) that e(1) _ e(2)] e(2) by blast
  have tq: "set (time_queue q) = set (queue q)" "distinct (map fst (queue q))"
    using assms(1) by (simp_all add: txq_core_def lists_ok_def)
  have "fst x = fst e \<longleftrightarrow> x = e" if "x \<in> set (queue q)" for x
    using that e(1) tq(2) by (metis eq_key_imp_eq_value prod.collapse)
  then have "erase (fst e) (time_queue q) = filter (\<lambda>e. \<not> at_key a n e) (time_queue q)"
    unfolding erase_def using only tq(1) by (intro filter_cong) auto
  moreover have "account_limits_ok q'"
    using account_limits_Remove [OF _ assms(1) r] assms(2) by (simp add: limits_ok_def account_limits_ok_def)
  ultimately show ?thesis
    using rp r only assms(2) by (auto simp: limits_ok_def account_limits_ok_def)
qed

lemma raise_nonce_inv:
  assumes "txq_core U q" and "limits_ok q"
  shows "txq_core U (raise_nonce cl a n q) \<and> limits_ok (raise_nonce cl a n q) \<and> queue (raise_nonce cl a n q) = queue q"
  using core_account_nonce [OF assms(1), of a n] assms
  by (auto simp: raise_nonce_def limits_ok_def split: option.splits)

lemma RemoveTxs_inv:
  assumes "txq_core U q" and "limits_ok q"
  shows "txq_core U (snd (RemoveTxs ts cl q)) \<and> limits_ok (snd (RemoveTxs ts cl q)) \<and>
     set (queue (snd (RemoveTxs ts cl q))) =
       {e \<in> set (queue q). \<not> (\<exists>t \<in> set ts. at_key (source_address t) (nonce t) e)}"
  using assms
proof (induction ts arbitrary: q)
  case (Cons t ts)
  obtain f p q1 where r: "Remove (source_address t) (nonce t) q = ((f, p), q1)" by (metis prod.collapse)
  have q1: "txq_core U q1" "limits_ok q1" "set (queue q1) = {e \<in> set (queue q). \<not> at_key (source_address t) (nonce t) e}"
    using Remove_inv [OF Cons.prems, of "source_address t" "nonce t"] r by simp_all
  define q2 where "q2 = raise_nonce cl (source_address t) (nonce t) q1"
  have q2: "txq_core U q2" "limits_ok q2" "queue q2 = queue q1"
    using raise_nonce_inv [OF q1(1,2)] by (simp_all add: q2_def)
  have "snd (RemoveTxs (t # ts) cl q) = snd (RemoveTxs ts cl q2)"
    using r by (simp add: q2_def Let_def split: prod.splits)
  then show ?case using Cons.IH [OF q2(1,2)] q1(3) q2(3) by auto
qed simp

lemma CheckTimeoutAndDel_spec:
  assumes "txq_core U q" and "limits_ok q"
  shows "\<exists>q'. CheckTimeoutAndDel now acc q =
       Some (acc @ map snd (filter (\<lambda>e. incoming_time (snd e) < now - QUEUE_TRANSACTION_TIMEOUT) (time_queue q)), q') \<and>
     txq_core U q' \<and> limits_ok q' \<and>
     set (queue q') = {e \<in> set (queue q). \<not> incoming_time (snd e) < now - QUEUE_TRANSACTION_TIMEOUT}"
  using assms
proof (induction "length (time_queue q)" arbitrary: q acc)
  case 0
  have "set (time_queue q) = set (queue q)" using "0.prems" by (simp add: txq_core_def lists_ok_def)
  then show ?case using 0 by (subst CheckTimeoutAndDel.simps) simp
next
  case (Suc n)
  let ?old = "\<lambda>e. incoming_time (snd e) < now - QUEUE_TRANSACTION_TIMEOUT"
  obtain e es where es: "time_queue q = e # es" using Suc.hyps(2) by (cases "time_queue q") auto
  have tq: "set (time_queue q) = set (queue q)" "sorted (map (\<lambda>e. incoming_time (snd e)) (time_queue q))"
    "distinct (map fst (time_queue q))"
    using Suc.prems(1) by (simp_all add: txq_core_def lists_ok_def)
  show ?case
  proof (cases "?old e")
    case False
    then have "\<not> ?old x" if "x \<in> set (time_queue q)" for x using tq(2) es that by auto
    then have "filter ?old (time_queue q) = []" "{x \<in> set (queue q). \<not> ?old x} = set (queue q)"
      using tq(1) by (auto simp: filter_empty_conv)
    then show ?thesis
      using es False Suc.prems by (subst CheckTimeoutAndDel.simps) (simp add: tx_CheckTimeout_def)
  next
    case True
    let ?k = "at_key (source_address (snd e)) (nonce (snd e))"
    define q1 where "q1 = snd (Remove (source_address (snd e)) (nonce (snd e)) q)"
    have q1: "txq_core U q1" "limits_ok q1" "set (queue q1) = {x \<in> set (queue q). \<not> ?k x}"
      "time_queue q1 = filter (\<lambda>x. \<not> ?k x) (time_queue q)"
      using Remove_inv [OF Suc.prems] by (simp_all add: q1_def)
    have in_q: "x \<in> set (queue q)" if "x \<in> set (e # es)" for x using tq(1) es that by simp
    have only: "?k x \<longleftrightarrow> x = e" if "x \<in> set (queue q)" for x
      using core_unique_key [OF Suc.prems(1) that in_q [of e]] by (auto simp: at_key_def)
    have "e \<notin> set es" using tq(3) es by auto
    then have t1: "time_queue q1 = es" using q1(4) es only in_q by (auto simp: filter_id_conv)
    have "CheckTimeoutAndDel now acc q = CheckTimeoutAndDel now (acc @ [snd e]) q1"
      using es True by (subst CheckTimeoutAndDel.simps) (simp add: tx_CheckTimeout_def q1_def)
    moreover obtain q' where "CheckTimeoutAndDel now (acc @ [snd e]) q1 = Some ((acc @ [snd e]) @ map snd (filter ?old es), q')"
      "txq_core U q'" "limits_ok q'" "set (queue q') = {x \<in> set (queue q1). \<not> ?old x}"
      using Suc.hyps(1) [of q1 "acc @ [snd e]"] Suc.hyps(2) es t1 q1(1,2) by auto
    moreover have "{x \<in> set (queue q1). \<not> ?old x} = {x \<in> set (queue q). \<not> ?old x}"
      using q1(3) only True by auto
    ultimately show ?thesis using es True by simp
  qed
qed

end
