(* ===== verification/Tx_Queue_Thms.thy ===== *)
theory Tx_Queue_Thms
  imports Tx_Queue
begin

text \<open>
  What the queue of pending transactions guarantees: consistent indices and limits after any
  sequence of calls, the outcome of an import, the price a replacement must offer, gapless
  nonces in a proposed set, and the removal of exactly the transactions that timed out.
\<close>

section \<open>The floating-point price comparison\<close>

lemma bitlen_bounds:
  assumes "0 < n"
  shows "2 ^ (bitlen n - 1) \<le> n" and "n < 2 ^ bitlen n" and "0 < bitlen n"
proof -
  have "2 ^ (bitlen n - 1) \<le> n \<and> n < 2 ^ bitlen n \<and> 0 < bitlen n"
    using assms
  proof (induction n rule: bitlen.induct)
    case (1 n)
    show ?case
    proof (cases "n = 1")
      case False
      then have h: "0 < n div 2" "bitlen n = Suc (bitlen (n div 2))" using 1(2) bitlen.simps [of n] by simp_all
      have ih: "2 ^ (bitlen (n div 2) - 1) \<le> n div 2" "n div 2 < 2 ^ bitlen (n div 2)" "0 < bitlen (n div 2)"
        using 1(1) 1(2) h(1) by auto
      have "2 ^ bitlen (n div 2) = 2 * (2 :: int) ^ (bitlen (n div 2) - 1)" using ih(3) by (cases "bitlen (n div 2)") auto
      moreover have "n = 2 * (n div 2) + n mod 2" "0 \<le> n mod 2" "n mod 2 < 2" by simp_all
      ultimately show ?thesis using ih h(2) by (simp del: mult_div_mod_eq) linarith
    qed (simp add: bitlen.simps)
  qed
  then show "2 ^ (bitlen n - 1) \<le> n" "n < 2 ^ bitlen n" "0 < bitlen n" by simp_all
qed

lemma bitlen_le:
  assumes "n < 2 ^ k"
  shows "bitlen n \<le> k"
proof (cases "0 < n")
  case True
  note b = bitlen_bounds [OF True]
  have "(2 :: int) ^ (bitlen n - 1) < 2 ^ k" using b(1) assms by linarith
  then have "bitlen n - 1 < k" by simp
  then show ?thesis by linarith
qed (simp add: bitlen.simps)

lemma round53_exact:
  assumes "\<bar>n\<bar> \<le> 2 ^ 53"
  shows "round53 n = n"
proof (cases "\<bar>n\<bar> = 2 ^ 53")
  case True
  have "bitlen (2 ^ 53) = 54" by code_simp
  then show ?thesis using True by (simp add: round53_def Let_def mult_sgn_abs [symmetric] del: mult_sgn_abs) (metis True mult_sgn_abs mult.commute)
next
  case False
  then have "bitlen \<bar>n\<bar> \<le> 53" using bitlen_le [of "\<bar>n\<bar>" 53] assms by linarith
  then show ?thesis by (simp add: round53_def Let_def mult.commute [of "sgn n"] abs_mult_sgn)
qed

text \<open>Linear facts with a power of two abstracted.\<close>

lemma half_unit: "(0 :: int) < B \<Longrightarrow> B \<le> x \<Longrightarrow> \<not> 2 * \<bar>x\<bar> \<le> B"
  by linarith

lemma round_up_near: "(x :: int) = B - r \<Longrightarrow> B \<le> 2 * r \<Longrightarrow> r < B \<Longrightarrow> 2 * \<bar>x\<bar> \<le> B"
  by linarith

lemma round_down_near: "(x :: int) = - r \<Longrightarrow> 0 \<le> r \<Longrightarrow> 2 * r \<le> B \<Longrightarrow> 2 * \<bar>x\<bar> \<le> B"
  by linarith

lemma tenth_bound: "(0 :: int) < B \<Longrightarrow> p * 3602879701896397 < B * 2 ^ 53 \<Longrightarrow> 2 * p < 5 * B"
  by simp

lemma near_trans: "(B :: int) \<le> C \<Longrightarrow> 2 * \<bar>x - n\<bar> \<le> B \<Longrightarrow> 2 * (n - x) \<le> C"
  by arith

lemma near_multiple: "2 * \<bar>x - n\<bar> \<le> (B :: int) \<Longrightarrow> 5 * n - p \<le> 5 * D \<Longrightarrow> 2 * p < 5 * B \<Longrightarrow> x - D < B"
  by (simp add: abs_if split: if_splits)

lemma scale_up: "2 * (n - x) \<le> (C :: int) \<Longrightarrow> x \<le> D \<Longrightarrow> 20 * n \<le> 20 * D + 10 * C"
  by (simp add: algebra_simps)

lemma round53_near:
  assumes "0 \<le> n" and "s = bitlen n - 53"
  shows "\<exists>k. round53 n = k * 2 ^ s" and "2 * \<bar>round53 n - n\<bar> \<le> 2 ^ s"
proof -
  let ?q = "n div 2 ^ s" and ?r = "n mod 2 ^ s"
  define up where "up \<longleftrightarrow> 2 * ?r > 2 ^ s \<or> (2 * ?r = 2 ^ s \<and> odd ?q)"
  have n: "n = ?q * 2 ^ s + ?r" by (simp only: div_mult_mod_eq)
  have r: "0 \<le> ?r" "?r < 2 ^ s" by simp_all
  have e: "round53 n = (if up then ?q + 1 else ?q) * 2 ^ s"
  proof (cases "n = 0")
    case True
    then have "s = 0" using assms(2) by (simp add: bitlen.simps)
    then show ?thesis using True by (simp add: round53_def up_def Let_def)
  qed (use assms in \<open>simp add: round53_def Let_def up_def\<close>)
  then show "\<exists>k. round53 n = k * 2 ^ s" by blast
  show "2 * \<bar>round53 n - n\<bar> \<le> 2 ^ s"
  proof (cases up)
    case True
    have "round53 n = ?q * 2 ^ s + 2 ^ s" using e True by (simp add: algebra_simps)
    then have "round53 n - n = 2 ^ s - ?r" using n by linarith
    moreover have "2 * ?r \<ge> 2 ^ s" using True by (auto simp: up_def)
    ultimately show ?thesis using r(2) by (rule round_up_near)
  next
    case False
    have "round53 n = ?q * 2 ^ s" using e False by simp
    then have "round53 n - n = - ?r" using n by linarith
    moreover have "2 * ?r \<le> 2 ^ s" using False by (auto simp: up_def)
    ultimately show ?thesis using r(1) round_down_near by blast
  qed
qed

lemma round53_mono_multiple:
  assumes "0 \<le> n" and "s = bitlen n - 53" and "n \<le> k * 2 ^ s"
  shows "round53 n \<le> k * 2 ^ s"
proof -
  obtain j where j: "round53 n = j * 2 ^ s" using round53_near(1) [OF assms(1,2)] by blast
  show ?thesis
  proof (rule ccontr)
    assume "\<not> round53 n \<le> k * 2 ^ s"
    then have "k < j" using j by simp
    then have "(k + 1) * 2 ^ s \<le> j * 2 ^ s" by (intro mult_right_mono) simp_all
    then have "2 ^ s \<le> round53 n - n" using assms(3) j by (simp add: algebra_simps)
    then show False using round53_near(2) [OF assms(1,2)] half_unit [of "2 ^ s"] by simp
  qed
qed

lemma price_replaces_iff:
  assumes p: "0 \<le> p" "p \<le> 2 ^ 53" and g: "\<bar>g - p\<bar> \<le> 2 ^ 53"
  shows "price_replaces g p \<longleftrightarrow> p \<le> 10 * (g - p)"
proof -
  define N d s where "N = p * 3602879701896397" and "d = g - p" and "s = bitlen N - 53"
  have N0: "0 \<le> N" using p by (simp add: N_def)
  have ten: "10 * N = p * 2 ^ 55 + 2 * p" by (simp add: N_def)
  have "N < 2 ^ 105" using p(2) by (simp add: N_def)
  then have s52: "s \<le> 52" using bitlen_le [of N 105] by (simp add: s_def)
  have p_s: "2 * p < 5 * 2 ^ s"
  proof (cases "N = 0")
    case True
    then show ?thesis by (simp add: N_def)
  next
    case False
    then have "N < 2 ^ bitlen N" using bitlen_bounds(2) [of N] N0 by simp
    moreover have "(2 :: int) ^ bitlen N \<le> 2 ^ (s + 53)" by (intro power_increasing) (simp_all add: s_def)
    ultimately have "N < 2 ^ s * 2 ^ 53" by (simp add: power_add)
    then show ?thesis unfolding N_def by (intro tenth_bound) simp_all
  qed
  have eq: "price_replaces g p \<longleftrightarrow> round53 N \<le> d * 2 ^ 55"
    using round53_exact [of p] round53_exact [OF g] p by (simp add: price_replaces_def N_def d_def)
  have mult: "d * 2 ^ 55 = (d * 2 ^ (55 - s)) * 2 ^ s"
    using s52 by (simp add: mult.assoc power_add [symmetric])
  show ?thesis
  proof
    assume "price_replaces g p"
    then have le: "round53 N \<le> d * 2 ^ 55" using eq by simp
    have "(2 :: int) ^ s \<le> 2 ^ 52" using s52 by (intro power_increasing) simp_all
    then have "2 * (N - round53 N) \<le> 2 ^ 52" using round53_near(2) [OF N0 s_def] near_trans by blast
    then have "20 * N \<le> 20 * (d * 2 ^ 55) + 10 * 2 ^ 52" using le by (rule scale_up)
    then have "2 * p * 2 ^ 55 + 4 * p \<le> 20 * (d * 2 ^ 55) + 10 * 2 ^ 52" using ten by linarith
    then show "p \<le> 10 * (g - p)" using p by (simp add: d_def)
  next
    assume d: "p \<le> 10 * (g - p)"
    then have "10 * N - 2 * p \<le> 10 * (d * 2 ^ 55)" using ten by (simp add: d_def)
    then have near: "5 * N - p \<le> 5 * (d * 2 ^ 55)" by linarith
    show "price_replaces g p"
    proof (cases "N \<le> d * 2 ^ 55")
      case True
      then show ?thesis using eq round53_mono_multiple [OF N0 s_def, of "d * 2 ^ (55 - s)"] mult by metis
    next
      case False
      obtain j where j: "round53 N = j * 2 ^ s" using round53_near(1) [OF N0 s_def] by blast
      have "round53 N - d * 2 ^ 55 < 2 ^ s"
        using near_multiple [OF round53_near(2) [OF N0 s_def] near p_s] .
      then have "(j - d * 2 ^ (55 - s)) * 2 ^ s < 1 * 2 ^ s" unfolding j mult by (simp only: left_diff_distrib mult_1)
      then have "j - d * 2 ^ (55 - s) < 1" by (simp add: mult_less_cancel_right)
      then have "j * 2 ^ s \<le> d * 2 ^ (55 - s) * 2 ^ s" by (intro mult_right_mono) simp_all
      then show ?thesis using eq j mult by metis
    qed
  qed
qed

section \<open>Sequences of calls\<close>

datatype qop = Do_Import tx int | Do_RemoveTxs "tx list" bool | Do_SafeRemoveTx cstring int | Do_CheckTimeoutAndDel int

fun do_op :: "qop \<Rightarrow> txq \<Rightarrow> txq option" where
  "do_op (Do_Import t n) q = map_option (\<lambda>(_, _, q). q) (Import t n q)"
| "do_op (Do_RemoveTxs ts close_ledger) q = Some (snd (RemoveTxs ts close_ledger q))"
| "do_op (Do_SafeRemoveTx a n) q = Some (SafeRemoveTx a n q)"
| "do_op (Do_CheckTimeoutAndDel now) q = map_option snd (CheckTimeoutAndDel now [] q)"

fun do_ops :: "qop list \<Rightarrow> txq \<Rightarrow> txq option" where
  "do_ops [] q = Some q"
| "do_ops (x # xs) q = Option.bind (do_op x q) (do_ops xs)"

definition imported :: "qop list \<Rightarrow> tx set" where
  "imported ops = {t. \<exists>n. Do_Import t n \<in> set ops}"

lemma do_op_inv:
  assumes "txq_core U q" and "limits_ok q" and "\<And>t n. x = Do_Import t n \<Longrightarrow> t \<in> U"
  shows "\<exists>q'. do_op x q = Some q' \<and> txq_core U q' \<and> limits_ok q'"
proof (cases x)
  case (Do_Import t n)
  then show ?thesis using Import_spec [OF assms(1,2) assms(3) [OF Do_Import], of n] by auto
next
  case (Do_RemoveTxs ts cl)
  then show ?thesis using RemoveTxs_inv [OF assms(1,2)] by simp
next
  case (Do_SafeRemoveTx a n)
  then show ?thesis using Remove_inv [OF assms(1,2)] by (simp add: SafeRemoveTx_def)
next
  case (Do_CheckTimeoutAndDel now)
  then show ?thesis using CheckTimeoutAndDel_spec [OF assms(1,2), of now "[]"] by auto
qed

lemma do_ops_inv:
  assumes "txq_core U q" and "limits_ok q" and "imported ops \<subseteq> U"
  shows "\<exists>q'. do_ops ops q = Some q' \<and> txq_core U q' \<and> limits_ok q'"
  using assms
proof (induction ops arbitrary: q)
  case (Cons x xs)
  have sub: "imported xs \<subseteq> U" and new: "\<And>t n. x = Do_Import t n \<Longrightarrow> t \<in> U"
    using Cons.prems(3) by (auto simp: imported_def)
  obtain q1 where "do_op x q = Some q1" "txq_core U q1" "limits_ok q1"
    using do_op_inv [OF Cons.prems(1,2), of x] new by blast
  then show ?case using Cons.IH sub by simp
qed simp

lemma new_queue_inv:
  assumes "hash_keys U"
  shows "txq_core U (TransactionQueue l a) \<and> limits_ok (TransactionQueue l a)"
  using assms
  by (simp add: txq_core_def lists_ok_def index_ok_def hash_ok_def limits_ok_def TransactionQueue_def)

text \<open>
  Claim C27. Every sequence of imports, removals and time-out sweeps on a new queue returns, the
  loops that evict and that sweep included, and leaves the queue consistent: the priority queue
  and the time queue hold the same transactions, the index by account and nonce and the index by
  hash hold exactly these, every account in the queue has a nonce on record, the time queue is
  sorted by arrival, and neither the queue nor any account exceeds its limit.
\<close>

theorem queue_consistent:
  assumes "hash_keys (imported ops)"
  shows "\<exists>q. do_ops ops (TransactionQueue limit account_limit) = Some q \<and>
           lists_ok q \<and> index_ok q \<and> hash_ok q \<and> limits_ok q"
  using do_ops_inv [of "imported ops" "TransactionQueue limit account_limit" ops] new_queue_inv [OF assms, of limit account_limit]
  by (auto simp: txq_core_def)

definition mk_tx :: "byte \<Rightarrow> int \<Rightarrow> int \<Rightarrow> int \<Rightarrow> tx" where
  "mk_tx a n g time = \<lparr>source_address = [a], nonce = n, gas_price = g, content_hash = [a, word_of_int n, word_of_int g],
     incoming_time = time, byte_size = 100\<rparr>"

theorem queue_consistent_witness:
  "\<exists>q. do_ops [Do_Import (mk_tx 1 1 10 5) 0, Do_Import (mk_tx 1 1 11 6) 0, Do_CheckTimeoutAndDel 7] (TransactionQueue 10 2) = Some q \<and>
      lists_ok q \<and> index_ok q \<and> hash_ok q \<and> limits_ok q"
proof (rule queue_consistent)
  have "imported [Do_Import (mk_tx 1 1 10 5) 0, Do_Import (mk_tx 1 1 11 6) 0, Do_CheckTimeoutAndDel 7] = {mk_tx 1 1 10 5, mk_tx 1 1 11 6}"
    by (auto simp: imported_def)
  then show "hash_keys (imported [Do_Import (mk_tx 1 1 10 5) 0, Do_Import (mk_tx 1 1 11 6) 0, Do_CheckTimeoutAndDel 7])"
    by (simp add: hash_keys_def mk_tx_def)
qed

text \<open>
  Claim C28. Importing into a consistent queue returns, and the error code is set exactly when the
  transaction was not inserted. After a success it is in the queue, and a queued transaction of
  the account with the same nonce has been beaten on price; after a failure nothing new is in
  the queue.
\<close>

theorem Import_outcome:
  assumes "txq_core U q" and "limits_ok q" and "t \<in> U"
  shows "\<exists>ins q'. Import t n q = Some (ins, \<not> ins, q') \<and> txq_core U q' \<and> limits_ok q' \<and>
     (ins \<longrightarrow> t \<in> snd ` set (queue q') \<and>
        (\<forall>e \<in> set (queue q). at_key (source_address t) (nonce t) e \<longrightarrow> price_replaces (gas_price t) (gas_price (snd e)))) \<and>
     (\<not> ins \<longrightarrow> set (queue q') \<subseteq> set (queue q))"
  by (rule Import_spec [OF assms])

theorem Import_outcome_witness:
  "\<exists>ins q'. Import (mk_tx 1 1 10 5) 0 (TransactionQueue 10 2) = Some (ins, \<not> ins, q') \<and> limits_ok q' \<and>
     (ins \<longrightarrow> mk_tx 1 1 10 5 \<in> snd ` set (queue q'))"
proof -
  have "hash_keys {mk_tx 1 1 10 5}" by (simp add: hash_keys_def)
  then show ?thesis
    using Import_outcome [of "{mk_tx 1 1 10 5}" "TransactionQueue 10 2" "mk_tx 1 1 10 5" 0]
      new_queue_inv [of "{mk_tx 1 1 10 5}" 10 2] by auto
qed

text \<open>
  Claim C29. Although the new price is compared with the old one in double precision and with a
  factor 0.1 that no double represents, for prices up to 2^53 the comparison is exactly that of
  the integers: a replacement must raise the price by a tenth.
\<close>

theorem price_replaces_exact:
  assumes "0 \<le> p" and "p \<le> 2 ^ 53" and "\<bar>g - p\<bar> \<le> 2 ^ 53"
  shows "price_replaces g p \<longleftrightarrow> p \<le> 10 * (g - p)"
  by (rule price_replaces_iff [OF assms])

theorem price_replaces_exact_witness:
  "price_replaces 77 70 \<and> \<not> price_replaces 76 70"
  using price_replaces_exact [of 70 77] price_replaces_exact [of 70 76] by simp

section \<open>Proposed transactions\<close>

text \<open>
  The nonce an account has reached after a list of its transactions, and no transaction that
  leaves out a nonce.
\<close>

fun reached :: "(cstring \<Rightarrow> int) \<Rightarrow> tx list \<Rightarrow> cstring \<Rightarrow> int" where
  "reached start [] = start"
| "reached start (t # ts) = reached (start(source_address t := nonce t)) ts"

fun gapless :: "(cstring \<Rightarrow> int) \<Rightarrow> tx list \<Rightarrow> bool" where
  "gapless start [] \<longleftrightarrow> True"
| "gapless start (t # ts) \<longleftrightarrow> nonce t \<le> start (source_address t) + 1 \<and> gapless (start(source_address t := nonce t)) ts"

lemma gapless_append: "gapless s (xs @ ys) \<longleftrightarrow> gapless s xs \<and> gapless (reached s xs) ys"
  by (induction xs arbitrary: s) simp_all

lemma reached_append: "reached s (xs @ [t]) = (reached s xs)(source_address t := nonce t)"
  by (induction xs arbitrary: s) simp_all

definition top_ok :: "txq \<Rightarrow> nat \<Rightarrow> elem list \<Rightarrow> tx list \<Rightarrow> tx list \<Rightarrow> bool" where
  "top_ok q limit es txs r \<longleftrightarrow> gapless (nonce_of q) r \<and> length r \<le> limit \<and> (\<exists>ys. r = txs @ ys \<and> subseq ys (map snd es))"

lemma top_ok_skip: "top_ok q limit es txs r \<Longrightarrow> top_ok q limit (e # es) txs r"
  by (auto simp: top_ok_def)

lemma top_ok_take: "top_ok q limit es (txs @ [snd e]) r \<Longrightarrow> top_ok q limit (e # es) txs r"
  by (auto simp: top_ok_def)

lemma top_walk_spec:
  assumes "gapless (nonce_of q) txs" and "\<And>a. (case seqs a of Some s \<Rightarrow> s | None \<Rightarrow> nonce_of q a) = reached (nonce_of q) txs a"
    and "length txs \<le> limit"
  shows "top_ok q limit es txs (top_walk sz q limit es seqs broken n txs)"
  using assms
proof (induction es arbitrary: seqs broken n txs)
  case Nil
  then show ?case by (simp add: top_ok_def)
next
  case (Cons e es)
  obtain i t where e: "e = (i, t)" by (cases e)
  let ?a = "source_address t"
  have stop: "top_ok q limit (e # es) txs txs" using Cons.prems by (simp add: top_ok_def)
  have skip: "top_ok q limit (e # es) txs (top_walk sz q limit es seqs b k txs)" for b k
    using Cons.IH [OF Cons.prems] by (rule top_ok_skip)
  have take: "top_ok q limit (e # es) txs (top_walk sz q limit es (seqs(?a \<mapsto> nonce t)) b k (txs @ [t]))"
    if "length txs < limit" "\<not> nonce t > reached (nonce_of q) txs ?a + 1" for b k
  proof (rule top_ok_take, unfold e snd_conv, rule Cons.IH)
    show "gapless (nonce_of q) (txs @ [t])" using Cons.prems(1) that(2) by (simp add: gapless_append)
    show "(case (seqs(?a \<mapsto> nonce t)) a of Some s \<Rightarrow> s | None \<Rightarrow> nonce_of q a) = reached (nonce_of q) (txs @ [t]) a" for a
      using Cons.prems(2) [of a] by (simp add: reached_append)
  qed (use that(1) in simp)
  show ?case
    using stop skip take Cons.prems(2) [of ?a] unfolding e top_walk.simps Let_def by (simp split: if_splits)
qed

text \<open>
  Claim C30. The transactions proposed for a ledger are taken from the queue in its order, are at
  most as many as asked for, and leave no nonce out: each is at most one above the nonce its
  account has reached, in the ledger or with the transactions proposed before it.
\<close>

theorem TopTransaction_gapless:
  "gapless (nonce_of q) (TopTransaction env_size limit q) \<and> length (TopTransaction env_size limit q) \<le> limit \<and>
   subseq (TopTransaction env_size limit q) (map snd (queue q))"
  using top_walk_spec [of q "[]" Map.empty limit "queue q"] by (simp add: TopTransaction_def top_ok_def)

text \<open>
  Claim C31. The time-out sweep returns, reports the transactions that arrived more than the time
  limit ago, oldest first, and leaves exactly the others in a consistent queue.
\<close>

theorem CheckTimeoutAndDel_exact:
  assumes "txq_core U q" and "limits_ok q"
  shows "\<exists>q'. CheckTimeoutAndDel now [] q =
       Some (map snd (filter (\<lambda>e. incoming_time (snd e) < now - QUEUE_TRANSACTION_TIMEOUT) (time_queue q)), q') \<and>
     set (queue q') = {e \<in> set (queue q). \<not> incoming_time (snd e) < now - QUEUE_TRANSACTION_TIMEOUT} \<and>
     txq_core U q' \<and> limits_ok q'"
  using CheckTimeoutAndDel_spec [OF assms, of now "[]"] by auto

lemma evict_none: "length (queue q) \<le> queue_limit q \<Longrightarrow> evict t i f q = Some (i, f, q)"
  by (subst evict.simps) simp

definition one_queue :: txq where
  "one_queue = Insert (mk_tx 1 1 10 5) ((TransactionQueue 10 2)\<lparr>account_nonce := [[1] \<mapsto> 0]\<rparr>)"

lemma one_queue_ok: "txq_core {mk_tx 1 1 10 5} one_queue \<and> limits_ok one_queue"
proof -
  have "Import (mk_tx 1 1 10 5) 0 (TransactionQueue 10 2) = Some (True, False, one_queue)"
    by (simp add: Import_def import_tail_def one_queue_def evict_none Insert_def Let_def TransactionQueue_def mk_tx_def)
  moreover have "hash_keys {mk_tx 1 1 10 5}" by (simp add: hash_keys_def)
  ultimately show ?thesis
    using Import_spec [of "{mk_tx 1 1 10 5}" "TransactionQueue 10 2" "mk_tx 1 1 10 5" 0]
      new_queue_inv [of "{mk_tx 1 1 10 5}" 10 2] by auto
qed

theorem CheckTimeoutAndDel_exact_witness:
  "\<exists>q'. CheckTimeoutAndDel 600000006 [] one_queue = Some ([mk_tx 1 1 10 5], q') \<and> set (queue q') = {}"
proof -
  have q: "time_queue one_queue = [(0, mk_tx 1 1 10 5)]" "queue one_queue = [(0, mk_tx 1 1 10 5)]"
    by (simp_all add: one_queue_def Insert_def Let_def TransactionQueue_def)
  have old: "incoming_time (mk_tx 1 1 10 5) < 600000006 - QUEUE_TRANSACTION_TIMEOUT"
    by (simp add: mk_tx_def QUEUE_TRANSACTION_TIMEOUT_def)
  have none: "{e \<in> set (queue one_queue). \<not> incoming_time (snd e) < 600000006 - QUEUE_TRANSACTION_TIMEOUT} = {}"
    using q(2) old by auto
  obtain q' where "CheckTimeoutAndDel 600000006 [] one_queue =
      Some (map snd (filter (\<lambda>e. incoming_time (snd e) < 600000006 - QUEUE_TRANSACTION_TIMEOUT) (time_queue one_queue)), q')"
    "set (queue q') = {e \<in> set (queue one_queue). \<not> incoming_time (snd e) < 600000006 - QUEUE_TRANSACTION_TIMEOUT}"
    using CheckTimeoutAndDel_exact [OF conjunct1 [OF one_queue_ok] conjunct2 [OF one_queue_ok], of 600000006] by blast
  note this [unfolded none]
  then show ?thesis using q(1) old by auto
qed

text \<open>
  The priority order is relative to the account nonces on record, which change while
  transactions wait: after such a change the elements of the multiset are no longer in the
  order of its comparison.
\<close>

definition stale_queue :: "txq option" where
  "stale_queue = do_ops [Do_Import (mk_tx 1 5 10 1) 4, Do_Import (mk_tx 2 3 20 2) 0, Do_Import (mk_tx 2 4 5 3) 2]
     (TransactionQueue 10 5)"

lemma priority_order_stale:
  "\<exists>q. stale_queue = Some q \<and> map (nonce \<circ> snd) (queue q) = [5, 3, 4] \<and>
       PriorityCompare q (snd (queue q ! 1)) (snd (queue q ! 0))"
  by (simp add: stale_queue_def Import_def import_tail_def Insert_def Let_def TransactionQueue_def mk_tx_def evict_none
      PriorityCompare_def nonce_of_def)

end
