(* ===== verification/Ordered_Map.thy ===== *)
theory Ordered_Map
  imports Prelude "HOL-Library.List_Lexorder"
begin

text \<open>
  \<^verbatim>\<open>std::map\<close> as the association list an iteration over it yields: the keys strictly
  ascending. \<open>om_insert\<close> is \<^verbatim>\<open>insert\<close> (which leaves an existing entry alone), \<open>om_assign\<close> is
  \<^verbatim>\<open>m[k] = v\<close>, \<^term>\<open>map_of m k\<close> is \<^verbatim>\<open>find\<close>, \<^const>\<open>filter\<close> a loop that erases. The lemmas say
  how lookups and the key order behave under them; the collection \<open>om_simps\<close> holds them.
\<close>

named_theorems om_simps \<open>lookups and order in ordered maps\<close>

fun om_assign :: "'k::linorder \<Rightarrow> 'v \<Rightarrow> ('k \<times> 'v) list \<Rightarrow> ('k \<times> 'v) list" where
  "om_assign k v [] = [(k, v)]"
| "om_assign k v ((k', v') # m) =
     (if k < k' then (k, v) # (k', v') # m else if k = k' then (k, v) # m else (k', v') # om_assign k v m)"

definition om_insert :: "'k::linorder \<Rightarrow> 'v \<Rightarrow> ('k \<times> 'v) list \<Rightarrow> ('k \<times> 'v) list" where
  "om_insert k v m = (if map_of m k = None then om_assign k v m else m)"

definition om_erase :: "'k \<Rightarrow> ('k \<times> 'v) list \<Rightarrow> ('k \<times> 'v) list" where
  "om_erase k m = filter (\<lambda>(k', v). k' \<noteq> k) m"

definition om_sorted :: "('k::linorder \<times> 'v) list \<Rightarrow> bool" where
  "om_sorted m \<longleftrightarrow> sorted_wrt (<) (map fst m)"

lemma om_sorted_Nil [om_simps]: "om_sorted []"
  by (simp add: om_sorted_def)

lemma om_sorted_Cons [om_simps]:
  "om_sorted ((k, v) # m) \<longleftrightarrow> (\<forall>k' \<in> fst ` set m. k < k') \<and> om_sorted m"
  by (simp add: om_sorted_def)

lemma map_of_om_assign [om_simps]: "map_of (om_assign k v m) = (map_of m)(k \<mapsto> v)"
  by (induction k v m rule: om_assign.induct) (auto simp: fun_eq_iff)

lemma fst_om_assign [om_simps]: "fst ` set (om_assign k v m) = insert k (fst ` set m)"
  by (induction k v m rule: om_assign.induct) auto

lemma om_sorted_assign [om_simps]: "om_sorted m \<Longrightarrow> om_sorted (om_assign k v m)"
  by (induction k v m rule: om_assign.induct) (auto simp: om_simps)

lemma om_sorted_insert [om_simps]: "om_sorted m \<Longrightarrow> om_sorted (om_insert k v m)"
  by (simp add: om_insert_def om_simps)

lemma map_of_om_insert [om_simps]:
  "map_of (om_insert k v m) = (if map_of m k = None then (map_of m)(k \<mapsto> v) else map_of m)"
  by (simp add: om_insert_def om_simps)

lemma om_sorted_filter [om_simps]: "om_sorted m \<Longrightarrow> om_sorted (filter P m)"
  by (induction m) (auto simp: om_simps)

lemma om_sorted_distinct: "om_sorted m \<Longrightarrow> distinct (map fst m)"
  unfolding om_sorted_def using strict_sorted_iff by blast

lemma map_of_SomeI: "om_sorted m \<Longrightarrow> (k, v) \<in> set m \<Longrightarrow> map_of m k = Some v"
  by (simp add: om_sorted_distinct)

lemma map_of_filter_key [om_simps]:
  "map_of (filter (\<lambda>(k, v). P k) m) k = (if P k then map_of m k else None)"
  by (induction m) auto

lemma map_of_filter:
  "om_sorted m \<Longrightarrow>
   map_of (filter P m) k = (case map_of m k of None \<Rightarrow> None | Some v \<Rightarrow> if P (k, v) then Some v else None)"
proof (induction m)
  case (Cons e m)
  obtain a v where e: "e = (a, v)" by (cases e)
  have "map_of m a = None" using Cons.prems by (force simp: e om_simps map_of_eq_None_iff)
  then show ?case using Cons by (auto simp: e om_simps)
qed simp

lemma length_om: "om_sorted m \<Longrightarrow> length m = card (dom (map_of m))"
  using distinct_card [OF om_sorted_distinct, of m] by (simp add: dom_map_of_conv_image_fst)

lemma set_om_assign: "om_sorted m \<Longrightarrow> set (om_assign k v m) = insert (k, v) {e \<in> set m. fst e \<noteq> k}"
  by (induction k v m rule: om_assign.induct) (auto simp: om_simps)

lemma set_om_insert:
  "om_sorted m \<Longrightarrow> set (om_insert k v m) = (if map_of m k = None then insert (k, v) (set m) else set m)"
  by (auto simp: om_insert_def set_om_assign map_of_eq_None_iff image_iff)

lemma length_om_insert:
  "om_sorted m \<Longrightarrow> length (om_insert k v m) = (if map_of m k = None then Suc (length m) else length m)"
  by (auto simp: length_om om_simps card_insert_if finite_dom_map_of dom_def [symmetric])

end
