(* ===== verification/Consensus.thy ===== *)
theory Consensus
  imports Ordered_Map Strings
begin

text \<open>
  The base class of the consensus algorithms (consensus/consensus.h, consensus.cpp): the record
  \<open>Consensus\<close> holds its members, one definition per method. A method takes the members as a
  record scheme, so that \<^verbatim>\<open>class Pbft : public Consensus\<close> extends the record as the class does.

  The key-value database is a map from keys to strings. The methods of \<^verbatim>\<open>IConsensusNotify\<close> that
  a consensus calls without using a result are recorded, in order, in the field \<open>outputs\<close>; the type
  of an output is a parameter \<open>'n\<close> here. The key pair and the hash are parameters (record \<open>keys\<close>).
\<close>

type_synonym ValidatorMap = "(cstring \<times> int) list"
type_synonym db = "cstring \<rightharpoonup> cstring"

datatype CheckValueResult = CHECK_VALUE_VALID | CHECK_VALUE_MAYVALID | CHECK_VALUE_INVALID

record Signature =
  public_key :: cstring
  sign_data :: cstring

text \<open>The private key of the node and the functions of the cryptographic libraries.\<close>

record keys =
  GetEncPublicKey :: cstring
  GetEncAddress :: cstring
  Sign :: "cstring \<Rightarrow> cstring"
  Address_of :: "cstring \<Rightarrow> cstring"
  Verify :: "cstring \<Rightarrow> cstring \<Rightarrow> cstring \<Rightarrow> bool"
  Crypto :: "cstring \<Rightarrow> cstring"

record 'n Consensus =
  is_validator :: bool
  replica_id :: int
  validators :: ValidatorMap
  keyvalue_db :: db
  outputs :: "'n list"

definition new_Consensus :: "db \<Rightarrow> 'n Consensus" where
  "new_Consensus d = \<lparr>is_validator = False, replica_id = - 1, validators = [], keyvalue_db = d, outputs = []\<rparr>"

definition notify :: "'n \<Rightarrow> ('n, 'a) Consensus_scheme \<Rightarrow> ('n, 'a) Consensus_scheme" where
  "notify n c = c\<lparr>outputs := outputs c @ [n]\<rparr>"

section \<open>Validators\<close>

text \<open>The loop of \<^verbatim>\<open>UpdateValidators\<close>: the counter grows with every address of the message, the map
  keeps the first index of an address.\<close>

fun index_validators :: "cstring list \<Rightarrow> int \<Rightarrow> ValidatorMap \<Rightarrow> ValidatorMap" where
  "index_validators [] counter m = m"
| "index_validators (a # as) counter m = index_validators as (counter + 1) (om_insert a counter m)"

definition UpdateValidators_base ::
    "keys \<Rightarrow> cstring list \<Rightarrow> ('n, 'a) Consensus_scheme \<Rightarrow> ('n, 'a) Consensus_scheme" where
  "UpdateValidators_base K as c =
     (let m = index_validators as 0 [];
          me = GetEncAddress K \<in> set as
      in c\<lparr>validators := m, is_validator := me,
           replica_id := (if me then (case map_of m (GetEncAddress K) of Some i \<Rightarrow> i | None \<Rightarrow> - 1) else - 1)\<rparr>)"

definition GetValidatorIndex :: "cstring \<Rightarrow> ValidatorMap \<Rightarrow> int" where
  "GetValidatorIndex a m = (case map_of m a of Some i \<Rightarrow> i | None \<Rightarrow> - 1)"

text \<open>\<^verbatim>\<open>vec[(uint32_t)index] = address\<close> over the map, into a vector of as many empty strings. An
  index past the end writes outside the vector: \<open>None\<close>.\<close>

fun place_validators :: "ValidatorMap \<Rightarrow> cstring list \<Rightarrow> cstring list option" where
  "place_validators [] vec = Some vec"
| "place_validators ((a, i) # m) vec =
     (let j = nat (i mod 2 ^ 32)
      in if j < length vec then place_validators m (vec[j := a]) else None)"

definition validator_vector :: "ValidatorMap \<Rightarrow> cstring list option" where
  "validator_vector m = place_validators m (replicate (length m) [])"

text \<open>\<^verbatim>\<open>GetValidation\<close>; the virtual \<^verbatim>\<open>GetQuorumSize\<close> is an argument.\<close>

definition GetValidation :: "(nat \<Rightarrow> nat) \<Rightarrow> ('n, 'a) Consensus_scheme \<Rightarrow> (cstring list \<times> nat) option" where
  "GetValidation quorum c = map_option (\<lambda>v. (v, quorum (length (validators c)))) (validator_vector (validators c))"

section \<open>Signing, sending, comparing\<close>

definition SignData :: "keys \<Rightarrow> cstring \<Rightarrow> Signature" where
  "SignData K data = \<lparr>public_key = GetEncPublicKey K, sign_data = Sign K data\<rparr>"

definition SendMessage_base :: "'n \<Rightarrow> ('n, 'a) Consensus_scheme \<Rightarrow> bool \<times> ('n, 'a) Consensus_scheme" where
  "SendMessage_base message c = (if \<not> is_validator c then (True, c) else (True, notify message c))"

definition CompareValue :: "cstring \<Rightarrow> cstring \<Rightarrow> int" where
  "CompareValue v w = (if v = w then 0 else if v < w then - 1 else 1)"

lemma CompareValue_zero [simp]: "CompareValue v w = 0 \<longleftrightarrow> v = w"
  by (simp add: CompareValue_def)

section \<open>Persistent values\<close>

definition CONSENSUS_PREFIX :: cstring where
  "CONSENSUS_PREFIX = lit ''consensus''"

definition value_key :: "cstring \<Rightarrow> cstring" where
  "value_key name = CONSENSUS_PREFIX @ lit ''_'' @ name"

definition SaveValue :: "cstring \<Rightarrow> cstring \<Rightarrow> db \<Rightarrow> db" where
  "SaveValue name v d = d(value_key name \<mapsto> v)"

definition SaveValue_int64 :: "cstring \<Rightarrow> int \<Rightarrow> db \<Rightarrow> db" where
  "SaveValue_int64 name v d = SaveValue name (ToString_int64 (word_of_int v)) d"

definition LoadValue :: "cstring \<Rightarrow> db \<Rightarrow> cstring option" where
  "LoadValue name d = d (value_key name)"

text \<open>The overload for integers leaves its reference argument as it was when the key is absent.\<close>

definition LoadValue_int64 :: "cstring \<Rightarrow> int \<Rightarrow> db \<Rightarrow> int" where
  "LoadValue_int64 name old d = (case LoadValue name d of Some s \<Rightarrow> sint (Stoi64 s) | None \<Rightarrow> old)"

definition DelValue :: "cstring \<Rightarrow> db \<Rightarrow> db" where
  "DelValue name d = d(value_key name := None)"

text \<open>\<^verbatim>\<open>class ValueSaver\<close>: a batch of writes and a counter, written by \<^verbatim>\<open>Commit\<close>, which the
  destructor calls too.\<close>

datatype db_write = Put_value cstring cstring | Delete_value cstring

record ValueSaver =
  write_size :: nat
  writes :: "db_write list"

definition new_ValueSaver :: ValueSaver where
  "new_ValueSaver = \<lparr>write_size = 0, writes = []\<rparr>"

definition saver_SaveValue :: "cstring \<Rightarrow> cstring \<Rightarrow> ValueSaver \<Rightarrow> ValueSaver" where
  "saver_SaveValue name v s = s\<lparr>writes := writes s @ [Put_value (value_key name) v], write_size := write_size s + 1\<rparr>"

definition saver_SaveValue_int64 :: "cstring \<Rightarrow> int \<Rightarrow> ValueSaver \<Rightarrow> ValueSaver" where
  "saver_SaveValue_int64 name v s = saver_SaveValue name (ToString_int64 (word_of_int v)) s"

definition saver_DelValue :: "cstring \<Rightarrow> ValueSaver \<Rightarrow> ValueSaver" where
  "saver_DelValue name s = s\<lparr>writes := writes s @ [Delete_value name], write_size := write_size s + 1\<rparr>"

fun db_apply :: "db_write \<Rightarrow> db \<Rightarrow> db" where
  "db_apply (Put_value k v) d = d(k \<mapsto> v)"
| "db_apply (Delete_value k) d = d(k := None)"

definition Commit_saver :: "ValueSaver \<Rightarrow> db \<Rightarrow> ValueSaver \<times> db" where
  "Commit_saver s d =
     (if write_size s > 0 then (s\<lparr>write_size := 0\<rparr>, fold db_apply (writes s) d) else (s, d))"

text \<open>The end of the scope of a saver.\<close>

definition close_saver :: "ValueSaver \<Rightarrow> ('n, 'a) Consensus_scheme \<Rightarrow> ('n, 'a) Consensus_scheme" where
  "close_saver s c = c\<lparr>keyvalue_db := snd (Commit_saver s (keyvalue_db c))\<rparr>"

section \<open>The single-node consensus\<close>

text \<open>\<^verbatim>\<open>OneNode::Request\<close> commits every value at once, with sequence 0 and an empty proof; the output
  is built by the argument \<open>committed\<close>.\<close>

definition OneNode_Request ::
    "(int \<Rightarrow> cstring \<Rightarrow> cstring \<Rightarrow> 'n) \<Rightarrow> cstring \<Rightarrow> ('n, 'a) Consensus_scheme \<Rightarrow> bool \<times> ('n, 'a) Consensus_scheme" where
  "OneNode_Request committed v c = (True, notify (committed 0 v []) c)"

section \<open>Lemmas\<close>

lemma sint_word_of_int_64:
  assumes "- (2 ^ 63) \<le> v" and "v < 2 ^ 63"
  shows "sint (word_of_int v :: 64 word) = v"
  using assms by (simp add: sint_sbintrunc' signed_take_bit_int_eq_self)

lemma Stoi64_ToString: "Stoi64 (ToString_int64 n) = n"
proof -
  have "- (2 ^ 63) \<le> sint n" "sint n < 2 ^ 63" using sint_range_size [of n] by (simp_all add: word_size)
  then show ?thesis
    by (simp add: Stoi64_def ToString_int64_def strtoll_dec_int dec_int_nonempty)
qed

lemma value_key_inj [simp]: "value_key a = value_key b \<longleftrightarrow> a = b"
  by (simp add: value_key_def)

lemma LoadValue_int64_saved:
  assumes "- (2 ^ 63) \<le> v" and "v < 2 ^ 63"
  shows "LoadValue_int64 name old (SaveValue_int64 name v d) = v"
  using assms
  by (simp add: LoadValue_int64_def LoadValue_def SaveValue_int64_def SaveValue_def Stoi64_ToString sint_word_of_int_64)

lemma index_validators_sorted: "om_sorted m \<Longrightarrow> om_sorted (index_validators as n m)"
  by (induction as n m rule: index_validators.induct) (auto simp: om_simps)

lemma index_validators_dom: "dom (map_of (index_validators as n m)) = set as \<union> dom (map_of m)"
  by (induction as n m rule: index_validators.induct) (auto simp: om_simps split: if_splits)

text \<open>The indices of the validators: each address has the position of its first occurrence.\<close>

lemma index_validators_first:
  "map_of (index_validators as n m) a =
     (case map_of m a of Some i \<Rightarrow> Some i | None \<Rightarrow> map_option (\<lambda>k. n + int k) (find_index (\<lambda>b. b = a) as))"
proof (induction as n m rule: index_validators.induct)
  case (1 n m)
  then show ?case by (simp split: option.split)
next
  case (2 b as n m)
  then show ?case
    by (auto simp: om_simps option.map_comp o_def algebra_simps split: option.split)
qed

lemma index_validators_inj:
  assumes "map_of (index_validators as n []) a = Some i" and "map_of (index_validators as n []) b = Some i"
  shows "a = b"
  using assms by (auto simp: index_validators_first find_index_Some)

end
