(* ===== verification/Quorum.thy ===== *)
theory Quorum
  imports Prelude
begin

text \<open>
  The quorum arithmetic of \<^verbatim>\<open>Pbft::GetQuorumSize\<close> (consensus/bft.cpp), at the width of
  \<^verbatim>\<open>size_t\<close>, and what the protocol needs of it, stated as the locale \<open>quorum_rule\<close>: two sets
  of more than a quorum of replicas share one that is not faulty, and the replicas that are not
  faulty make up such a set. The interpretation at the end discharges the laws for the code.
\<close>

definition GetQuorumSize :: "u64 \<Rightarrow> u64" where
  "GetQuorumSize sz =
     (if sz = 1 then 0
      else if sz = 2 \<or> sz = 3 then 1
      else let fault_number = (sz - 1) div 3
           in if sz = 3 * fault_number + 1 then 2 * fault_number
              else if sz = 3 * fault_number + 2 then 2 * fault_number + 1
              else if sz = 3 * fault_number + 3 then 2 * fault_number + 1
              else sz)"

text \<open>The call \<^verbatim>\<open>GetQuorumSize(validators_.size())\<close>.\<close>

definition quorum_size :: "nat \<Rightarrow> nat" where
  "quorum_size n = unat (GetQuorumSize (of_nat n))"

text \<open>\<^verbatim>\<open>fault_number_ = (validators_.size() - 1) / 3\<close>.\<close>

definition fault_number_of :: "nat \<Rightarrow> nat" where
  "fault_number_of n = unat ((of_nat n - 1 :: u64) div 3)"

section \<open>The value at every size\<close>

lemma unat_of_nat_u64: "n < 2 ^ 64 \<Longrightarrow> unat (of_nat n :: u64) = n"
  by (simp add: unat_of_nat take_bit_nat_eq_self)

lemma of_nat_u64_eq_iff:
  assumes "m < 2 ^ 64" and "n < 2 ^ 64"
  shows "(of_nat m :: u64) = of_nat n \<longleftrightarrow> m = n"
  using assms by (metis unat_of_nat_u64)

lemma fault_word:
  assumes "0 < n" and "n < 2 ^ 64"
  shows "(of_nat n - 1 :: u64) div 3 = of_nat ((n - 1) div 3)"
proof -
  have "(of_nat n - 1 :: u64) = of_nat (n - 1)" using assms by (cases n) simp_all
  moreover have "unat (of_nat (n - 1) :: u64) = n - 1" using assms by (intro unat_of_nat_u64) simp
  moreover have "unat (of_nat ((n - 1) div 3) :: u64) = (n - 1) div 3" using assms by (intro unat_of_nat_u64) simp
  ultimately have "unat ((of_nat n - 1 :: u64) div 3) = unat (of_nat ((n - 1) div 3) :: u64)"
    by (simp add: unat_div)
  then show ?thesis by (simp only: word_unat_eq_iff)
qed

lemma fault_number_of_eq: "0 < n \<Longrightarrow> n < 2 ^ 64 \<Longrightarrow> fault_number_of n = (n - 1) div 3"
  by (simp add: fault_number_of_def fault_word unat_of_nat_u64)

text \<open>The cases of the code at a size of the form \<open>3 f + r\<close>.\<close>

lemma GetQuorumSize_cases:
  assumes "0 < n" and "n < 2 ^ 64"
  shows "GetQuorumSize (of_nat n) = of_nat ((n + (n - 1) div 3) div 2)"
proof -
  define f where "f = (n - 1) div 3"
  define w :: u64 where "w = of_nat n"
  have fw: "(w - 1) div 3 = of_nat f" using fault_word [OF assms] by (simp add: w_def f_def)
  have same: "w = of_nat m \<longleftrightarrow> n = m" if "m < 2 ^ 64" for m
    unfolding w_def by (rule of_nat_u64_eq_iff [OF assms(2) that])
  have small: "w = 1 \<longleftrightarrow> n = 1" "w = 2 \<longleftrightarrow> n = 2" "w = 3 \<longleftrightarrow> n = 3"
    using same [of 1] same [of 2] same [of 3] by simp_all
  have "n - 1 = 3 * f + (n - 1) mod 3" unfolding f_def by simp
  moreover have "(n - 1) mod 3 < 3" by simp
  ultimately have "n = 3 * f + 1 \<or> n = 3 * f + 2 \<or> n = 3 * f + 3" using assms(1) by linarith
  note residues = this
  have "3 * f + 1 < 18446744073709551616" using residues assms(2) by auto
  then have "f \<le> 6148914691236517204" by simp
  then have bound: "3 * f + 3 < 2 ^ 64" by simp
  have c: "w = 3 * of_nat f + 1 \<longleftrightarrow> n = 3 * f + 1" "w = 3 * of_nat f + 2 \<longleftrightarrow> n = 3 * f + 2"
      "w = 3 * of_nat f + 3 \<longleftrightarrow> n = 3 * f + 3"
    using same [of "3 * f + 1"] same [of "3 * f + 2"] same [of "3 * f + 3"] bound by (simp_all add: add.commute)
  have "GetQuorumSize w =
      (if n = 1 then 0 else if n = 2 \<or> n = 3 then 1
       else if n = 3 * f + 1 then 2 * of_nat f else if n = 3 * f + 2 then 2 * of_nat f + 1
       else if n = 3 * f + 3 then 2 * of_nat f + 1 else w)"
    unfolding GetQuorumSize_def Let_def fw c small ..
  also have "\<dots> = of_nat (if n = 3 * f + 1 then 2 * f else 2 * f + 1)" using residues by (cases f) auto
  also have "(if n = 3 * f + 1 then 2 * f else 2 * f + 1) = (n + f) div 2" using residues by auto
  finally show ?thesis unfolding w_def f_def .
qed

lemma quorum_size_eq: "0 < n \<Longrightarrow> n < 2 ^ 64 \<Longrightarrow> quorum_size n = (n + fault_number_of n) div 2"
  by (simp add: quorum_size_def GetQuorumSize_cases fault_number_of_eq unat_of_nat_u64)

lemma third_bound: "0 < n \<Longrightarrow> (n + (n - 1) div 3) div 2 + 1 + (n - 1) div 3 \<le> (n :: nat)"
proof -
  assume "0 < n"
  moreover define f where "f = (n - 1) div 3"
  moreover have "3 * f \<le> n - 1" unfolding f_def by simp
  ultimately have "n + f < 2 * (n - f)" "f < n" by linarith+
  then have "(n + f) div 2 < n - f" by (simp add: less_mult_imp_div_less mult.commute)
  then show ?thesis using \<open>f < n\<close> unfolding f_def by linarith
qed

lemma quorum_available:
  assumes "0 < n" and "n < 2 ^ 64"
  shows "quorum_size n + 1 + fault_number_of n \<le> n"
  using third_bound [OF assms(1)] unfolding quorum_size_eq [OF assms] fault_number_of_eq [OF assms] .

text \<open>
  Claim C20. For every number of validators that a \<^verbatim>\<open>size_t\<close> can hold, the quorum is half of the
  validators and the tolerated faults together; with one vote more it is the smallest number any
  two sets of which share more than the tolerated faults, and it is reached without the faulty
  validators. With no validator the subtraction wraps and the quorum is so large that it is
  never reached.
\<close>

theorem quorum_size_optimal:
  "(\<forall>n. 0 < n \<longrightarrow> n < 2 ^ 64 \<longrightarrow>
      quorum_size n = (n + fault_number_of n) div 2 \<and>
      2 * (quorum_size n + 1) > n + fault_number_of n \<and>
      \<not> 2 * quorum_size n > n + fault_number_of n \<and>
      quorum_size n + 1 + fault_number_of n \<le> n) \<and>
   quorum_size 0 = 12297829382473034410"
proof (intro conjI allI impI)
  fix n :: nat
  assume n: "0 < n" "n < 2 ^ 64"
  show eq: "quorum_size n = (n + fault_number_of n) div 2" by (rule quorum_size_eq [OF n])
  show "2 * (quorum_size n + 1) > n + fault_number_of n" "\<not> 2 * quorum_size n > n + fault_number_of n"
    unfolding eq by presburger+
  show "quorum_size n + 1 + fault_number_of n \<le> n" by (rule quorum_available [OF n])
next
  show "quorum_size 0 = 12297829382473034410" by (simp add: quorum_size_def GetQuorumSize_def Let_def)
qed

theorem quorum_size_optimal_witness: "quorum_size 7 = 4 \<and> quorum_size 7 + 1 + fault_number_of 7 \<le> 7"
  using conjunct1 [OF quorum_size_optimal, rule_format, of 7] fault_number_of_eq [of 7] by simp

section \<open>Quorums intersect in a correct replica\<close>

locale quorum_rule =
  fixes quorum :: "nat \<Rightarrow> nat" and faults :: "nat \<Rightarrow> nat" and valid :: "nat \<Rightarrow> bool"
  assumes overlap: "valid n \<Longrightarrow> n + faults n < (quorum n + 1) + (quorum n + 1)"
    and available: "valid n \<Longrightarrow> quorum n + 1 + faults n \<le> n"
begin

lemma common_correct:
  assumes "finite V" and "valid (card V)" and "A \<subseteq> V" and "B \<subseteq> V"
    and "quorum (card V) + 1 \<le> card A" and "quorum (card V) + 1 \<le> card B" and "card F \<le> faults (card V)" and "finite F"
  shows "\<exists>r \<in> A \<inter> B. r \<notin> F"
proof (rule ccontr)
  assume "\<not> ?thesis"
  then have "card (A \<inter> B) \<le> card F" using assms(8) by (intro card_mono) auto
  moreover have "card A + card B = card (A \<union> B) + card (A \<inter> B)"
    using assms finite_subset by (intro card_Un_Int) blast+
  moreover have "card (A \<union> B) \<le> card V" using assms by (intro card_mono) auto
  ultimately have "card A + card B \<le> card V + faults (card V)" using assms(7) by linarith
  then show False using overlap [OF assms(2)] add_mono [OF assms(5,6)] by linarith
qed

lemma correct_reach_quorum:
  assumes "finite V" and "valid (card V)" and "F \<subseteq> V" and "card F \<le> faults (card V)"
  shows "quorum (card V) + 1 \<le> card (V - F)"
  using available [OF assms(2)] assms by (simp add: card_Diff_subset finite_subset)

end

interpretation pbft_quorum: quorum_rule quorum_size fault_number_of "\<lambda>n. 0 < n \<and> n < 2 ^ 64"
proof
  show "n + fault_number_of n < (quorum_size n + 1) + (quorum_size n + 1)" if "0 < n \<and> n < 2 ^ 64" for n
    using quorum_size_eq [of n] that by presburger
  show "quorum_size n + 1 + fault_number_of n \<le> n" if "0 < n \<and> n < 2 ^ 64" for n
    using quorum_available that by blast
qed

end
