(* ===== verification/Pbft_Msg.thy ===== *)
theory Pbft_Msg
  imports Consensus Quorum
begin

text \<open>
  The messages of the consensus (proto/consensus.proto) and the functions of consensus/bft.cpp,
  bft_instance.cpp and consensus_msg.cpp that only read messages: the check of a received message
  against the validators, the check of the proof of a closed ledger, and the accessors.

  A field of message type is an \<^typ>\<open>'a option\<close> (\<^verbatim>\<open>has_x()\<close>), and reading an absent one gives the
  message of default values, as the generated code does. A field with a scalar type has its
  default in place. The enumeration of message types is open in proto3: \<open>PBFT_TYPE_OTHER\<close> stands
  for the numbers that have no name. The serialisation of messages (generated code) is a
  parameter, record \<open>codec\<close>.
\<close>

section \<open>Messages\<close>

datatype PbftMessageType =
  PBFT_TYPE_PREPREPARE | PBFT_TYPE_PREPARE | PBFT_TYPE_COMMIT | PBFT_TYPE_VIEWCHANGE |
  PBFT_TYPE_NEWVIEW | PBFT_TYPE_VIEWCHANG_WITH_RAWVALUE | PBFT_TYPE_OTHER int

fun type_number :: "PbftMessageType \<Rightarrow> int" where
  "type_number PBFT_TYPE_PREPREPARE = 0"
| "type_number PBFT_TYPE_PREPARE = 1"
| "type_number PBFT_TYPE_COMMIT = 2"
| "type_number PBFT_TYPE_VIEWCHANGE = 3"
| "type_number PBFT_TYPE_NEWVIEW = 4"
| "type_number PBFT_TYPE_VIEWCHANG_WITH_RAWVALUE = 5"
| "type_number (PBFT_TYPE_OTHER n) = n"

record PbftPrePrepare =
  pp_view_number :: int
  pp_sequence :: int
  pp_replica_id :: int
  pp_value :: cstring
  pp_value_digest :: cstring

record PbftPrepare =
  p_view_number :: int
  p_sequence :: int
  p_replica_id :: int
  p_value_digest :: cstring

record PbftCommit =
  c_view_number :: int
  c_sequence :: int
  c_replica_id :: int
  c_value_digest :: cstring

record PbftViewChange =
  vc_view_number :: int
  vc_sequence :: int
  vc_prepred_value_digest :: cstring
  vc_replica_id :: int

datatype Pbft = Pbft
    (round_number: int)
    (pbft_type: PbftMessageType)
    (pre_prepare: "PbftPrePrepare option")
    (prepare: "PbftPrepare option")
    (commit: "PbftCommit option")
    (view_change: "PbftViewChange option")
    (new_view: "PbftNewView option")
    (view_change_with_rawvalue: "PbftViewChangeWithRawValue option")
    (chain_id: int)
and PbftEnv = PbftEnv (env_pbft: "Pbft option") (signature: Signature)
and PbftNewView = PbftNewView
    (nv_view_number: int) (nv_sequence: int) (nv_replica_id: int)
    (view_changes: "PbftEnv list") (nv_pre_prepare: "PbftEnv option")
and PbftViewChangeWithRawValue = PbftViewChangeWithRawValue
    (view_change_env: "PbftEnv option") (prepared_set: "PbftPreparedSet option")
and PbftPreparedSet = PbftPreparedSet (ps_pre_prepare: "PbftEnv option") (ps_prepare: "PbftEnv list")

text \<open>Reading a field: the value, or the default instance of the message.\<close>

definition or_default :: "'a \<Rightarrow> 'a option \<Rightarrow> 'a" where
  "or_default d x = (case x of None \<Rightarrow> d | Some v \<Rightarrow> v)"

definition no_signature :: Signature where
  "no_signature = \<lparr>public_key = [], sign_data = []\<rparr>"

definition empty_pbft :: Pbft where
  "empty_pbft = Pbft 0 PBFT_TYPE_PREPREPARE None None None None None None 0"

definition empty_env :: PbftEnv where
  "empty_env = PbftEnv None no_signature"

definition pbft_of :: "PbftEnv \<Rightarrow> Pbft" where
  "pbft_of env = or_default empty_pbft (env_pbft env)"

definition empty_pre_prepare :: PbftPrePrepare where
  "empty_pre_prepare = \<lparr>pp_view_number = 0, pp_sequence = 0, pp_replica_id = 0, pp_value = [], pp_value_digest = []\<rparr>"

definition pre_prepare_of :: "Pbft \<Rightarrow> PbftPrePrepare" where
  "pre_prepare_of m = or_default empty_pre_prepare (pre_prepare m)"

definition prepare_of :: "Pbft \<Rightarrow> PbftPrepare" where
  "prepare_of m = or_default \<lparr>p_view_number = 0, p_sequence = 0, p_replica_id = 0, p_value_digest = []\<rparr> (prepare m)"

definition commit_of :: "Pbft \<Rightarrow> PbftCommit" where
  "commit_of m = or_default \<lparr>c_view_number = 0, c_sequence = 0, c_replica_id = 0, c_value_digest = []\<rparr> (commit m)"

definition view_change_of :: "Pbft \<Rightarrow> PbftViewChange" where
  "view_change_of m =
     or_default \<lparr>vc_view_number = 0, vc_sequence = 0, vc_prepred_value_digest = [], vc_replica_id = 0\<rparr> (view_change m)"

definition new_view_of :: "Pbft \<Rightarrow> PbftNewView" where
  "new_view_of m = or_default (PbftNewView 0 0 0 [] None) (new_view m)"

definition raw_of :: "Pbft \<Rightarrow> PbftViewChangeWithRawValue" where
  "raw_of m = or_default (PbftViewChangeWithRawValue None None) (view_change_with_rawvalue m)"

definition empty_prepared_set :: PbftPreparedSet where
  "empty_prepared_set = PbftPreparedSet None []"

text \<open>The pre-prepare message of a prepared set, \<^verbatim>\<open>set.pre_prepare().pbft().pre_prepare()\<close>.\<close>

definition set_pre_prepare :: "PbftPreparedSet \<Rightarrow> PbftPrePrepare" where
  "set_pre_prepare s = pre_prepare_of (pbft_of (or_default empty_env (ps_pre_prepare s)))"

text \<open>One element of the JSON array in which the view changes are saved.\<close>

record vc_item =
  item_sequence :: int
  item_view_number :: int
  item_view_change_round :: nat
  item_start_time :: int
  item_end_time :: int
  item_last_propose_time :: int
  item_last_newview_time :: int
  item_new_view_round :: nat
  item_view_change_msg :: cstring
  item_new_view :: cstring
  item_msg_buffer :: "cstring list"
  item_view_changes :: "cstring list"

text \<open>
  The generated and library code the consensus calls: serialisation, with a parser that gives the
  message it read and whether it could read all of it, and the text form of JSON values.
\<close>

record codec =
  self_chain_id :: int
  ser_pbft :: "Pbft \<Rightarrow> cstring"
  ser_env :: "PbftEnv \<Rightarrow> cstring"
  ser_view_change :: "PbftViewChange \<Rightarrow> cstring"
  ser_proof :: "PbftEnv list \<Rightarrow> cstring"
  parse_env :: "cstring \<Rightarrow> bool \<times> PbftEnv"
  parse_view_change :: "cstring \<Rightarrow> bool \<times> PbftViewChange"
  parse_proof :: "cstring \<Rightarrow> PbftEnv list option"
  json_view_changes :: "vc_item list \<Rightarrow> cstring"
  unjson_view_changes :: "cstring \<Rightarrow> vc_item list option"
  json_strings :: "cstring list \<Rightarrow> cstring"
  unjson_strings :: "cstring \<Rightarrow> cstring list option"

section \<open>Accessors\<close>

definition GetMessageType :: "PbftEnv \<Rightarrow> PbftMessageType" where
  "GetMessageType env = pbft_type (pbft_of env)"

definition GetNodeAddress :: "keys \<Rightarrow> PbftEnv \<Rightarrow> cstring" where
  "GetNodeAddress K env = Address_of K (public_key (signature env))"

definition GetSeq :: "PbftEnv \<Rightarrow> int" where
  "GetSeq env =
     (let m = pbft_of env in
      case pbft_type m of
        PBFT_TYPE_PREPREPARE \<Rightarrow> (case pre_prepare m of Some x \<Rightarrow> pp_sequence x | None \<Rightarrow> 0)
      | PBFT_TYPE_PREPARE \<Rightarrow> (case prepare m of Some x \<Rightarrow> p_sequence x | None \<Rightarrow> 0)
      | PBFT_TYPE_COMMIT \<Rightarrow> (case commit m of Some x \<Rightarrow> c_sequence x | None \<Rightarrow> 0)
      | PBFT_TYPE_VIEWCHANGE \<Rightarrow> (case view_change m of Some x \<Rightarrow> vc_sequence x | None \<Rightarrow> 0)
      | PBFT_TYPE_NEWVIEW \<Rightarrow> (case new_view m of Some x \<Rightarrow> nv_sequence x | None \<Rightarrow> 0)
      | _ \<Rightarrow> 0)"

definition GetValue :: "PbftEnv \<Rightarrow> cstring list" where
  "GetValue env =
     (let m = pbft_of env in
      case pbft_type m of
        PBFT_TYPE_PREPREPARE \<Rightarrow> (case pre_prepare m of Some x \<Rightarrow> [pp_value x] | None \<Rightarrow> [])
      | PBFT_TYPE_VIEWCHANG_WITH_RAWVALUE \<Rightarrow>
          (case view_change_with_rawvalue m of
             Some raw \<Rightarrow> [pp_value (set_pre_prepare (or_default empty_prepared_set (prepared_set raw)))]
           | None \<Rightarrow> [])
      | PBFT_TYPE_NEWVIEW \<Rightarrow>
          (case new_view m of
             Some nv \<Rightarrow> [pp_value (pre_prepare_of (pbft_of (or_default empty_env (nv_pre_prepare nv))))]
           | None \<Rightarrow> [])
      | _ \<Rightarrow> [])"

definition GetMessageTypeDesc :: "PbftMessageType \<Rightarrow> cstring" where
  "GetMessageTypeDesc t =
     (case t of
        PBFT_TYPE_PREPREPARE \<Rightarrow> lit ''PBFT-PRE-PREPARE''
      | PBFT_TYPE_PREPARE \<Rightarrow> lit ''PBFT-PREPARE''
      | PBFT_TYPE_COMMIT \<Rightarrow> lit ''PBFT-COMMIT''
      | PBFT_TYPE_VIEWCHANGE \<Rightarrow> lit ''PBFT-VIEWCHANGE''
      | PBFT_TYPE_NEWVIEW \<Rightarrow> lit ''PBFT-NEWVIEW''
      | _ \<Rightarrow> [])"

text \<open>\<^verbatim>\<open>class ConsensusMsg\<close>: a received message with what its constructor computes from it.\<close>

record ConsensusMsg =
  cm_seq :: int
  cm_type :: cstring
  cm_pbft_env :: PbftEnv
  cm_values :: "cstring list"
  cm_node_address :: cstring
  cm_hash :: cstring

definition new_ConsensusMsg :: "keys \<Rightarrow> codec \<Rightarrow> PbftEnv \<Rightarrow> ConsensusMsg" where
  "new_ConsensusMsg K E env =
     \<lparr>cm_seq = GetSeq env, cm_type = lit ''pbft'', cm_pbft_env = env, cm_values = GetValue env,
      cm_node_address = GetNodeAddress K env, cm_hash = Crypto K (ser_env E env)\<rparr>"

text \<open>\<^verbatim>\<open>memcmp(a, b, a.size()) < 0\<close>; past the end of the shorter \<open>b\<close> the comparison reads its
  terminating zero byte.\<close>

fun memcmp_less :: "cstring \<Rightarrow> cstring \<Rightarrow> bool" where
  "memcmp_less [] b = False"
| "memcmp_less (x # a) [] = (x < 0)"
| "memcmp_less (x # a) (y # b) = (if x = y then memcmp_less a b else x < y)"

definition ConsensusMsg_less :: "ConsensusMsg \<Rightarrow> ConsensusMsg \<Rightarrow> bool" where
  "ConsensusMsg_less m n = memcmp_less (cm_hash m) (cm_hash n)"

definition ConsensusMsg_eq :: "ConsensusMsg \<Rightarrow> ConsensusMsg \<Rightarrow> bool" where
  "ConsensusMsg_eq m n \<longleftrightarrow> cm_type m = lit ''pbft'' \<and> cm_type m = cm_type n \<and> cm_hash m = cm_hash n"

section \<open>Checking a message\<close>

lemma size_raw:
  "view_change_with_rawvalue (pbft_of env) = Some raw \<Longrightarrow> size raw < size env"
  by (cases env; cases "env_pbft env"; cases "the (env_pbft env)")
    (auto simp: pbft_of_def or_default_def empty_pbft_def)

lemma size_view_change_env: "view_change_env raw = Some e \<Longrightarrow> size e < size raw"
  by (cases raw) auto

lemma size_set_pre_prepare:
  "prepared_set raw = Some s \<Longrightarrow> ps_pre_prepare s = Some e \<Longrightarrow> size e < size raw"
  by (cases raw; cases s) auto

lemma size_set_prepare:
  "prepared_set raw = Some s \<Longrightarrow> e \<in> set (ps_prepare s) \<Longrightarrow> size e < size raw"
  by (cases raw; cases s) (auto dest: size_list_estimation' [of _ _ "size e" size] simp: less_Suc_eq_le)

text \<open>
  \<^verbatim>\<open>CheckMessageItem\<close> and \<^verbatim>\<open>CheckViewChangeWithRawValue\<close> call each other, on ever smaller parts of
  the message. An absent pre-prepare of a prepared set is checked as the empty message, which is
  never accepted (lemma \<open>CheckMessageItem_empty\<close> below).
\<close>

function CheckMessageItem :: "keys \<Rightarrow> codec \<Rightarrow> ValidatorMap \<Rightarrow> PbftEnv \<Rightarrow> bool"
  and CheckViewChangeWithRawValue :: "keys \<Rightarrow> codec \<Rightarrow> ValidatorMap \<Rightarrow> PbftViewChangeWithRawValue \<Rightarrow> bool" where
  "CheckMessageItem K E vs env =
     (let m = pbft_of env; sig = signature env;
          should_replica_id = GetValidatorIndex (Address_of K (public_key sig)) vs;
          signed_by = (\<lambda>r. r = should_replica_id \<and> Verify K (ser_pbft E m) (sign_data sig) (public_key sig))
      in if chain_id m \<noteq> self_chain_id E then False
         else if should_replica_id < 0 then False
         else case pbft_type m of
           PBFT_TYPE_PREPREPARE \<Rightarrow> (case pre_prepare m of None \<Rightarrow> False | Some x \<Rightarrow> signed_by (pp_replica_id x))
         | PBFT_TYPE_PREPARE \<Rightarrow> (case prepare m of None \<Rightarrow> False | Some x \<Rightarrow> signed_by (p_replica_id x))
         | PBFT_TYPE_COMMIT \<Rightarrow> (case commit m of None \<Rightarrow> False | Some x \<Rightarrow> signed_by (c_replica_id x))
         | PBFT_TYPE_VIEWCHANGE \<Rightarrow> (case view_change m of None \<Rightarrow> False | Some x \<Rightarrow> signed_by (vc_replica_id x))
         | PBFT_TYPE_VIEWCHANG_WITH_RAWVALUE \<Rightarrow>
             (case view_change_with_rawvalue m of None \<Rightarrow> False
              | Some raw \<Rightarrow> CheckViewChangeWithRawValue K E vs raw \<and>
                  signed_by (vc_replica_id (view_change_of (pbft_of (or_default empty_env (view_change_env raw))))))
         | PBFT_TYPE_NEWVIEW \<Rightarrow> (case new_view m of None \<Rightarrow> False | Some x \<Rightarrow> signed_by (nv_replica_id x))
         | PBFT_TYPE_OTHER _ \<Rightarrow> False)"
| "CheckViewChangeWithRawValue K E vs raw =
     (case view_change_env raw of None \<Rightarrow> False
      | Some vce \<Rightarrow>
          if GetMessageType vce \<noteq> PBFT_TYPE_VIEWCHANGE \<or> \<not> CheckMessageItem K E vs vce then False
          else let digest = vc_prepred_value_digest (view_change_of (pbft_of vce)) in
            case prepared_set raw of
              None \<Rightarrow> digest = []
            | Some s \<Rightarrow>
                (case ps_pre_prepare s of None \<Rightarrow> False | Some e \<Rightarrow> CheckMessageItem K E vs e) \<and>
                (let pp = set_pre_prepare s in
                 list_all (\<lambda>e. CheckMessageItem K E vs e \<and>
                     (let p = prepare_of (pbft_of e) in
                      p_view_number p = pp_view_number pp \<and> p_sequence p = pp_sequence pp \<and>
                      CompareValue (p_value_digest p) (pp_value_digest pp) = 0)) (ps_prepare s) \<and>
                 \<not> card (set (map (\<lambda>e. p_replica_id (prepare_of (pbft_of e))) (ps_prepare s))) < quorum_size (length vs) \<and>
                 digest = pp_value_digest pp))"
  by pat_completeness auto
termination
  by (relation "measure (\<lambda>x. case x of Inl (K, E, vs, env) \<Rightarrow> size env | Inr (K, E, vs, raw) \<Rightarrow> size raw)")
    (auto intro: size_raw size_view_change_env size_set_pre_prepare size_set_prepare)

declare CheckMessageItem.simps [simp del] CheckViewChangeWithRawValue.simps [simp del]

lemma CheckMessageItem_empty: "\<not> CheckMessageItem K E vs empty_env"
  by (simp add: CheckMessageItem.simps Let_def pbft_of_def or_default_def empty_env_def empty_pbft_def)

section \<open>The proof of a closed ledger\<close>

text \<open>The loop of \<^verbatim>\<open>CheckProof\<close> over the commits, with the validators that have not been seen yet.\<close>

fun check_commits :: "keys \<Rightarrow> codec \<Rightarrow> cstring \<Rightarrow> PbftEnv list \<Rightarrow> ValidatorMap \<Rightarrow> ValidatorMap option" where
  "check_commits K E h [] temp_vs = Some temp_vs"
| "check_commits K E h (env # rest) temp_vs =
     (let m = pbft_of env; address = Address_of K (public_key (signature env)) in
      if \<not> CheckMessageItem K E temp_vs env then None
      else if pbft_type m \<noteq> PBFT_TYPE_COMMIT \<or> commit m = None then None
      else if c_value_digest (commit_of m) \<noteq> h then None
      else if map_of temp_vs address = None then None
      else check_commits K E h rest (om_erase address temp_vs))"

definition CheckProof :: "keys \<Rightarrow> codec \<Rightarrow> cstring list \<Rightarrow> cstring \<Rightarrow> cstring \<Rightarrow> bool" where
  "CheckProof K E as previous_value_hash proof =
     (let vs = index_validators as 0 []; total_size = length vs; qsize = quorum_size (length vs) + 1 in
      case parse_proof E proof of None \<Rightarrow> False
      | Some commits \<Rightarrow>
          (case check_commits K E previous_value_hash commits vs of None \<Rightarrow> False
           | Some temp_vs \<Rightarrow> total_size - length temp_vs \<ge> qsize))"

end
