(* ===== verification/Pbft.thy ===== *)
theory Pbft
  imports Pbft_Msg Hex
begin

text \<open>
  The state of a consensus node and its operations: consensus/bft_instance.h, bft_instance.cpp,
  bft.h and bft.cpp. \<open>PbftState\<close> extends the record of the base class; the methods are functions
  on it, in the order of the sources.

  \<^item> A \<^verbatim>\<open>PbftInstance &\<close> into \<^verbatim>\<open>instances_\<close> is the index of the instance, with its present value
    as a second argument where the method reads it; \<open>put_inst\<close> writes the instance back.
  \<^item> The clock (\<^verbatim>\<open>Timestamp::HighResolution\<close>) is the field \<open>clock\<close>, set by the environment. The
    timers the code starts (utils/timer.cpp) are the fields \<open>timers\<close> and \<open>next_timer\<close>.
  \<^item> What the node sends and reports is appended to \<open>outputs\<close>. The glue manager posts its reactions
    (a broadcast delivers the message to the node itself as well, a closed ledger calls
    \<^verbatim>\<open>UpdateValidators\<close>) to the io service, so they are later calls of the operations below.
  \<^item> \<open>None\<close> is undefined behaviour: a division by the number of validators when there is none, the
    first element of an empty map, a write past the end of a vector, and the use of an instance
    that has been erased.
  \<^item> \<^verbatim>\<open>int64_t\<close> is \<^typ>\<open>int\<close>; the conversion of a view number to \<^verbatim>\<open>size_t\<close> by \<^verbatim>\<open>%\<close> is written out, and so
    is the wrap of the 32-bit round counters.
\<close>

section \<open>Instances\<close>

datatype PbftInstancePhase = PBFT_PHASE_NONE | PBFT_PHASE_PREPREPARED | PBFT_PHASE_PREPARED | PBFT_PHASE_COMMITED

fun phase_number :: "PbftInstancePhase \<Rightarrow> nat" where
  "phase_number PBFT_PHASE_NONE = 0"
| "phase_number PBFT_PHASE_PREPREPARED = 1"
| "phase_number PBFT_PHASE_PREPARED = 2"
| "phase_number PBFT_PHASE_COMMITED = 3"

lemma phase_number_inj: "phase_number p = phase_number q \<Longrightarrow> p = q"
  by (cases p; cases q) simp_all

instantiation PbftInstancePhase :: linorder
begin

definition less_eq_PbftInstancePhase :: "PbftInstancePhase \<Rightarrow> PbftInstancePhase \<Rightarrow> bool" where
  "p \<le> q \<longleftrightarrow> phase_number p \<le> phase_number q"

definition less_PbftInstancePhase :: "PbftInstancePhase \<Rightarrow> PbftInstancePhase \<Rightarrow> bool" where
  "p < q \<longleftrightarrow> phase_number p < phase_number q"

instance
  by standard (auto simp: less_eq_PbftInstancePhase_def less_PbftInstancePhase_def intro: phase_number_inj)

end

lemmas phase_order = less_eq_PbftInstancePhase_def less_PbftInstancePhase_def

datatype PbftInstanceIndex = PbftInstanceIndex (ix_view_number: int) (ix_sequence: int)

text \<open>\<^verbatim>\<open>PbftInstanceIndex::operator <\<close>.\<close>

definition PbftInstanceIndex_less :: "PbftInstanceIndex \<Rightarrow> PbftInstanceIndex \<Rightarrow> bool" where
  "PbftInstanceIndex_less i j \<longleftrightarrow>
     (if ix_view_number i < ix_view_number j then True
      else if ix_view_number i = ix_view_number j \<and> ix_sequence i < ix_sequence j then True
      else False)"

instantiation PbftInstanceIndex :: linorder
begin

definition less_PbftInstanceIndex :: "PbftInstanceIndex \<Rightarrow> PbftInstanceIndex \<Rightarrow> bool" where
  "i < j \<longleftrightarrow> PbftInstanceIndex_less i j"

definition less_eq_PbftInstanceIndex :: "PbftInstanceIndex \<Rightarrow> PbftInstanceIndex \<Rightarrow> bool" where
  "i \<le> j \<longleftrightarrow> i < j \<or> i = (j :: PbftInstanceIndex)"

instance
  by standard
    (auto simp: less_eq_PbftInstanceIndex_def less_PbftInstanceIndex_def PbftInstanceIndex_less_def
       split: if_splits intro: PbftInstanceIndex.expand)

end

record PbftInstance =
  phase :: PbftInstancePhase
  phase_item :: nat
  inst_pre_prepare :: PbftPrePrepare
  prepares :: "(int \<times> PbftPrepare) list"
  commits :: "(int \<times> PbftCommit) list"
  msg_buf :: "PbftEnv list list"
  pre_prepare_msg :: PbftEnv
  start_time :: int
  end_time :: int
  last_propose_time :: int
  last_commit_send_time :: int
  have_send_viewchange :: bool
  pre_prepare_round :: nat
  commit_round :: nat
  check_value_result :: CheckValueResult

definition new_PbftInstance :: "int \<Rightarrow> PbftInstance" where
  "new_PbftInstance now =
     \<lparr>phase = PBFT_PHASE_NONE, phase_item = 0, inst_pre_prepare = empty_pre_prepare, prepares = [], commits = [],
      msg_buf = replicate 4 [], pre_prepare_msg = empty_env, start_time = now, end_time = 0, last_propose_time = now,
      last_commit_send_time = 0, have_send_viewchange = False, pre_prepare_round = 1, commit_round = 1,
      check_value_result = CHECK_VALUE_VALID\<rparr>"

record PbftVcInstance =
  view_change_msg :: PbftEnv
  vci_view_number :: int
  vci_seq :: int
  viewchanges :: "(int \<times> PbftViewChange) list"
  pre_prepared_env_set :: PbftPreparedSet
  view_change_round :: nat
  vci_msg_buf :: "PbftEnv list"
  vci_start_time :: int
  vci_last_propose_time :: int
  vci_end_time :: int
  last_newview_time :: int
  newview :: PbftEnv
  new_view_round :: nat

text \<open>The constructor leaves the member \<^verbatim>\<open>seq\<close> uninitialised: \<open>junk\<close>.\<close>

definition new_PbftVcInstance :: "int \<Rightarrow> int \<Rightarrow> int \<Rightarrow> PbftVcInstance" where
  "new_PbftVcInstance junk view now =
     \<lparr>view_change_msg = empty_env, vci_view_number = view, vci_seq = junk, viewchanges = [],
      pre_prepared_env_set = empty_prepared_set, view_change_round = 0, vci_msg_buf = [], vci_start_time = now,
      vci_last_propose_time = now, vci_end_time = 0, last_newview_time = 0, newview = empty_env, new_view_round = 1\<rparr>"

definition MICRO_UNITS_PER_SEC :: int where "MICRO_UNITS_PER_SEC = 1000000"
definition g_pbft_vcinstance_timeout :: int where "g_pbft_vcinstance_timeout = 60 * MICRO_UNITS_PER_SEC"
definition g_pbft_instance_timeout :: int where "g_pbft_instance_timeout = 30 * MICRO_UNITS_PER_SEC"
definition g_pbft_commit_send_interval :: int where "g_pbft_commit_send_interval = 15 * MICRO_UNITS_PER_SEC"
definition g_pbft_newview_send_interval :: int where "g_pbft_newview_send_interval = 15 * MICRO_UNITS_PER_SEC"

definition has_pbft :: "PbftEnv \<Rightarrow> bool" where
  "has_pbft env \<longleftrightarrow> env_pbft env \<noteq> None"

definition IsExpire :: "int \<Rightarrow> PbftInstance \<Rightarrow> bool" where
  "IsExpire now i \<longleftrightarrow> now - start_time i \<ge> g_pbft_instance_timeout \<and> phase i < PBFT_PHASE_COMMITED"

definition NeedSendAgain :: "int \<Rightarrow> PbftInstance \<Rightarrow> bool" where
  "NeedSendAgain now i \<longleftrightarrow> now - last_propose_time i \<ge> g_pbft_instance_timeout div 4 \<and> phase i < PBFT_PHASE_COMMITED"

definition NeedSendCommitAgain :: "int \<Rightarrow> PbftInstance \<Rightarrow> bool" where
  "NeedSendCommitAgain now i \<longleftrightarrow>
     last_commit_send_time i \<noteq> 0 \<and> now - last_commit_send_time i \<ge> g_pbft_commit_send_interval \<and>
     phase i \<ge> PBFT_PHASE_PREPARED"

definition VcNeedSendAgain :: "int \<Rightarrow> PbftVcInstance \<Rightarrow> bool" where
  "VcNeedSendAgain now v \<longleftrightarrow> now - vci_last_propose_time v > g_pbft_vcinstance_timeout \<and> vci_end_time v = 0"

text \<open>\<^verbatim>\<open>newview_.IsInitialized()\<close> holds of every proto3 message.\<close>

definition NeedSendNewViewAgain :: "int \<Rightarrow> PbftVcInstance \<Rightarrow> bool" where
  "NeedSendNewViewAgain now v \<longleftrightarrow> now - last_newview_time v > g_pbft_newview_send_interval \<and> vci_end_time v > 0"

definition ShouldTeminated :: "int \<Rightarrow> int \<Rightarrow> PbftVcInstance \<Rightarrow> bool" where
  "ShouldTeminated now time_out v \<longleftrightarrow> now - vci_start_time v \<ge> time_out"

definition ChangeComplete :: "int \<Rightarrow> PbftVcInstance \<Rightarrow> PbftVcInstance" where
  "ChangeComplete now v = v\<lparr>vci_end_time := now\<rparr>"

section \<open>The node\<close>

datatype pbft_output =
  SendConsensusMessage PbftEnv
| OnValueCommited int cstring cstring
| OnViewChanged cstring
| OnResetCloseTimer

record PbftState = "pbft_output Consensus" +
  instances :: "(PbftInstanceIndex \<times> PbftInstance) list"
  view_number :: int
  last_exe_seq :: int
  ckp_interval :: int
  fault_number :: nat
  view_active :: bool
  vc_instances :: "(int \<times> PbftVcInstance) list"
  out_pbft_instances :: "(PbftInstanceIndex \<times> PbftInstance) list"
  abnormal_records :: "(cstring \<times> int) list"
  new_view_repond_timer :: int
  timers :: "(int \<times> int \<times> PbftPreparedSet) list"
  next_timer :: int
  clock :: int

definition new_Pbft :: "db \<Rightarrow> int \<Rightarrow> PbftState" where
  "new_Pbft d now =
     \<lparr>is_validator = False, replica_id = - 1, validators = [], keyvalue_db = d, outputs = [],
      instances = [], view_number = 0, last_exe_seq = 1, ckp_interval = 10, fault_number = 0, view_active = True,
      vc_instances = [], out_pbft_instances = [], abnormal_records = [], new_view_repond_timer = 0,
      timers = [], next_timer = 1, clock = now\<rparr>"

definition put_inst :: "PbftInstanceIndex \<Rightarrow> PbftInstance \<Rightarrow> PbftState \<Rightarrow> PbftState" where
  "put_inst ix inst st = st\<lparr>instances := om_assign ix inst (instances st)\<rparr>"

definition put_vc :: "int \<Rightarrow> PbftVcInstance \<Rightarrow> PbftState \<Rightarrow> PbftState" where
  "put_vc v vc st = st\<lparr>vc_instances := om_assign v vc (vc_instances st)\<rparr>"

text \<open>\<^verbatim>\<open>view % validators_.size() == replica_id_\<close>, in 64-bit unsigned arithmetic.\<close>

definition is_primary :: "int \<Rightarrow> PbftState \<Rightarrow> bool" where
  "is_primary view st \<longleftrightarrow> (view mod 2 ^ 64) mod int (length (validators st)) = replica_id st mod 2 ^ 64"

definition quorum_of :: "PbftState \<Rightarrow> nat" where
  "quorum_of st = quorum_size (length (validators st))"

text \<open>\<^verbatim>\<open>++round\<close> on \<^verbatim>\<open>uint32_t\<close>.\<close>

definition next_round :: "nat \<Rightarrow> nat" where
  "next_round r = (r + 1) mod 2 ^ 32"

definition SendMessage :: "PbftEnv \<Rightarrow> PbftState \<Rightarrow> bool \<times> PbftState" where
  "SendMessage env st = SendMessage_base (SendConsensusMessage env) st"

section \<open>New messages\<close>

definition sign_pbft :: "keys \<Rightarrow> codec \<Rightarrow> Pbft \<Rightarrow> PbftEnv" where
  "sign_pbft K E m = PbftEnv (Some m) (SignData K (ser_pbft E m))"

definition NewPrePrepare :: "keys \<Rightarrow> codec \<Rightarrow> cstring \<Rightarrow> int \<Rightarrow> PbftState \<Rightarrow> PbftEnv" where
  "NewPrePrepare K E v seq st =
     sign_pbft K E (Pbft 1 PBFT_TYPE_PREPREPARE
       (Some \<lparr>pp_view_number = view_number st, pp_sequence = seq, pp_replica_id = replica_id st,
              pp_value = v, pp_value_digest = Crypto K v\<rparr>) None None None None None (self_chain_id E))"

definition NewPrePrepare_again :: "keys \<Rightarrow> codec \<Rightarrow> PbftPrePrepare \<Rightarrow> PbftEnv" where
  "NewPrePrepare_again K E pp =
     sign_pbft K E (Pbft 1 PBFT_TYPE_PREPREPARE (Some pp) None None None None None (self_chain_id E))"

definition NewPrepare :: "keys \<Rightarrow> codec \<Rightarrow> PbftPrePrepare \<Rightarrow> int \<Rightarrow> PbftState \<Rightarrow> PbftEnv" where
  "NewPrepare K E pp round st =
     sign_pbft K E (Pbft round PBFT_TYPE_PREPARE None
       (Some \<lparr>p_view_number = pp_view_number pp, p_sequence = pp_sequence pp, p_replica_id = replica_id st,
              p_value_digest = pp_value_digest pp\<rparr>) None None None None (self_chain_id E))"

definition NewCommit :: "keys \<Rightarrow> codec \<Rightarrow> PbftPrepare \<Rightarrow> int \<Rightarrow> PbftState \<Rightarrow> PbftEnv" where
  "NewCommit K E p round st =
     sign_pbft K E (Pbft round PBFT_TYPE_COMMIT None None
       (Some \<lparr>c_view_number = p_view_number p, c_sequence = p_sequence p, c_replica_id = replica_id st,
              c_value_digest = p_value_digest p\<rparr>) None None None (self_chain_id E))"

text \<open>The prepared set of a view change: the one handed in, or the messages of the last instance
  that is prepared and not executed. The first buffered pre-prepare is read without a check that
  there is one (\<open>None\<close>).\<close>

definition own_prepared_set :: "PbftState \<Rightarrow> PbftPreparedSet option option" where
  "own_prepared_set st =
     (case find (\<lambda>(ix, inst). ix_sequence ix > last_exe_seq st \<and> phase inst = PBFT_PHASE_PREPARED) (rev (instances st)) of
        None \<Rightarrow> Some None
      | Some (ix, inst) \<Rightarrow>
          (case msg_buf inst ! 0 of [] \<Rightarrow> None
           | pp # _ \<Rightarrow> Some (Some (PbftPreparedSet (Some pp) (msg_buf inst ! 1)))))"

definition NewViewChangeRawValue :: "keys \<Rightarrow> codec \<Rightarrow> int \<Rightarrow> PbftPreparedSet \<Rightarrow> PbftState \<Rightarrow> PbftEnv option" where
  "NewViewChangeRawValue K E view s st =
     (case (if ps_pre_prepare s \<noteq> None then Some (Some s) else own_prepared_set st) of
        None \<Rightarrow> None
      | Some ps \<Rightarrow>
          let digest = (case ps of None \<Rightarrow> [] | Some s' \<Rightarrow> pp_value_digest (set_pre_prepare s'));
              inner = sign_pbft K E (Pbft 0 PBFT_TYPE_VIEWCHANGE None None None
                (Some \<lparr>vc_view_number = view, vc_sequence = last_exe_seq st, vc_prepred_value_digest = digest,
                       vc_replica_id = replica_id st\<rparr>) None None (self_chain_id E))
          in Some (sign_pbft K E (Pbft 0 PBFT_TYPE_VIEWCHANG_WITH_RAWVALUE None None None None None
                (Some (PbftViewChangeWithRawValue (Some inner) ps)) (self_chain_id E))))"

definition NewNewView :: "keys \<Rightarrow> codec \<Rightarrow> PbftVcInstance \<Rightarrow> PbftState \<Rightarrow> PbftEnv" where
  "NewNewView K E vc st =
     sign_pbft K E (Pbft 0 PBFT_TYPE_NEWVIEW None None None None
       (Some (PbftNewView (vci_view_number vc) (vci_seq vc) (replica_id st)
          (map (\<lambda>e. or_default empty_env (view_change_env (raw_of (pbft_of e)))) (vci_msg_buf vc))
          (ps_pre_prepare (pre_prepared_env_set vc)))) None (self_chain_id E))"

fun set_round :: "int \<Rightarrow> int \<Rightarrow> Pbft \<Rightarrow> Pbft" where
  "set_round r chain (Pbft _ t pp p c v nv raw _) = Pbft r t pp p c v nv raw chain"

definition IncPeerMessageRound :: "keys \<Rightarrow> codec \<Rightarrow> PbftEnv \<Rightarrow> nat \<Rightarrow> PbftEnv" where
  "IncPeerMessageRound K E env round = sign_pbft K E (set_round (int round) (self_chain_id E) (pbft_of env))"

section \<open>Saved values\<close>

definition VALIDATORS :: cstring where "VALIDATORS = lit ''pbft_validators''"
definition VIEW_ACTIVE :: cstring where "VIEW_ACTIVE = lit ''pbft_view_active''"
definition VIEWNUMBER_NAME :: cstring where "VIEWNUMBER_NAME = lit ''pbft_viewnumber''"
definition LAST_EXE_SEQUENCE_NAME :: cstring where "LAST_EXE_SEQUENCE_NAME = lit ''pbft_lastexesequence''"
definition VIEW_CHANGE_NAME :: cstring where "VIEW_CHANGE_NAME = lit ''pbft_vcinstance''"

definition vc_to_item :: "codec \<Rightarrow> int \<times> PbftVcInstance \<Rightarrow> vc_item" where
  "vc_to_item E e = (let (index, vc) = e in
     \<lparr>item_sequence = index, item_view_number = vci_view_number vc, item_view_change_round = view_change_round vc,
      item_start_time = vci_start_time vc, item_end_time = vci_end_time vc,
      item_last_propose_time = vci_last_propose_time vc, item_last_newview_time = last_newview_time vc,
      item_new_view_round = new_view_round vc,
      item_view_change_msg = BinToHexString (ser_env E (view_change_msg vc)),
      item_new_view = BinToHexString (ser_env E (newview vc)),
      item_msg_buffer = map (\<lambda>m. BinToHexString (ser_env E m)) (vci_msg_buf vc),
      item_view_changes = map (\<lambda>(r, m). BinToHexString (ser_view_change E m)) (viewchanges vc)\<rparr>)"

definition SaveViewChange :: "codec \<Rightarrow> PbftState \<Rightarrow> ValueSaver \<Rightarrow> ValueSaver" where
  "SaveViewChange E st saver =
     saver_SaveValue VIEW_CHANGE_NAME (json_view_changes E (map (vc_to_item E) (vc_instances st))) saver"

definition SaveValidators :: "codec \<Rightarrow> PbftState \<Rightarrow> ValueSaver \<Rightarrow> ValueSaver option" where
  "SaveValidators E st saver =
     map_option (\<lambda>vec. saver_SaveValue VALIDATORS (json_strings E vec) saver) (validator_vector (validators st))"

definition load_vc :: "codec \<Rightarrow> int \<Rightarrow> vc_item \<Rightarrow> PbftState \<Rightarrow> PbftState" where
  "load_vc E junk item st =
     (let index = item_sequence item;
          vc = or_default (new_PbftVcInstance junk 0 (clock st)) (map_of (vc_instances st) index);
          envs = map (\<lambda>s. parse_env E (HexStringToBin s False)) (item_msg_buffer item);
          vcs = map (\<lambda>s. parse_view_change E (HexStringToBin s False)) (item_view_changes item)
      in put_vc index (vc\<lparr>
           vci_view_number := item_view_number item, view_change_round := item_view_change_round item,
           vci_start_time := item_start_time item, vci_end_time := item_end_time item,
           vci_last_propose_time := item_last_propose_time item, last_newview_time := item_last_newview_time item,
           new_view_round := item_new_view_round item,
           view_change_msg := snd (parse_env E (HexStringToBin (item_view_change_msg item) False)),
           newview := snd (parse_env E (HexStringToBin (item_new_view item) False)),
           vci_msg_buf := vci_msg_buf vc @ map snd (filter fst envs),
           viewchanges := fold (\<lambda>(ok, m) vs. if ok then om_insert (vc_replica_id m) m vs else vs) vcs (viewchanges vc)\<rparr>) st)"

definition LoadVcInstance :: "codec \<Rightarrow> int \<Rightarrow> PbftState \<Rightarrow> int \<times> PbftState" where
  "LoadVcInstance E junk st =
     (case LoadValue VIEW_CHANGE_NAME (keyvalue_db st) of None \<Rightarrow> (0, st)
      | Some str \<Rightarrow>
          (case unjson_view_changes E str of None \<Rightarrow> (- 1, st)
           | Some items \<Rightarrow> (1, fold (load_vc E junk) items st)))"

definition LoadValues :: "codec \<Rightarrow> int \<Rightarrow> PbftState \<Rightarrow> PbftState" where
  "LoadValues E junk st =
     (let st1 = st\<lparr>view_active := LoadValue_int64 VIEW_ACTIVE 1 (keyvalue_db st) > 0\<rparr>;
          st2 = st1\<lparr>view_number := LoadValue_int64 VIEWNUMBER_NAME (view_number st1) (keyvalue_db st1)\<rparr>
      in snd (LoadVcInstance E junk st2))"

definition LoadValidators :: "keys \<Rightarrow> codec \<Rightarrow> PbftState \<Rightarrow> int \<times> PbftState" where
  "LoadValidators K E st =
     (case LoadValue VALIDATORS (keyvalue_db st) of None \<Rightarrow> (0, st)
      | Some str \<Rightarrow>
          (case unjson_strings E str of None \<Rightarrow> (- 1, st)
           | Some as \<Rightarrow> (1, UpdateValidators_base K as st)))"

definition ClearStatus :: "db \<Rightarrow> db" where
  "ClearStatus d = DelValue VIEW_CHANGE_NAME (DelValue VIEWNUMBER_NAME (DelValue VIEW_ACTIVE d))"

definition save_active :: "PbftState \<Rightarrow> ValueSaver \<Rightarrow> ValueSaver" where
  "save_active st = saver_SaveValue_int64 VIEW_ACTIVE (if view_active st then 1 else 0)"


section \<open>Timeouts and the timer\<close>

definition OnTxTimeout :: "keys \<Rightarrow> codec \<Rightarrow> PbftState \<Rightarrow> PbftState option" where
  "OnTxTimeout K E st =
     (if \<not> is_validator st then Some st
      else let st1 = st\<lparr>view_active := False\<rparr>;
               saver = save_active st1 new_ValueSaver
           in case NewViewChangeRawValue K E (view_number st1 + 1) empty_prepared_set st1 of
                None \<Rightarrow> None
              | Some msg \<Rightarrow> Some (close_saver saver (snd (SendMessage msg st1))))"

definition SendPrepareAgain :: "keys \<Rightarrow> codec \<Rightarrow> int \<Rightarrow> PbftInstanceIndex \<Rightarrow> PbftInstance \<Rightarrow> PbftState \<Rightarrow> PbftState" where
  "SendPrepareAgain K E now ix inst st =
     (let round = next_round (pre_prepare_round inst)
      in put_inst ix (inst\<lparr>pre_prepare_round := round, last_propose_time := now\<rparr>)
           (snd (SendMessage (IncPeerMessageRound K E (pre_prepare_msg inst) round) st)))"

text \<open>One round of the loop of \<^verbatim>\<open>OnTimer\<close> over the instances.\<close>

definition timer_instance :: "keys \<Rightarrow> codec \<Rightarrow> int \<Rightarrow> PbftInstanceIndex \<Rightarrow> PbftState \<Rightarrow> PbftState option" where
  "timer_instance K E now ix st =
     (case map_of (instances st) ix of None \<Rightarrow> Some st
      | Some inst \<Rightarrow>
          (case (if IsExpire now inst \<and> \<not> have_send_viewchange inst
                 then map_option (\<lambda>st'. (inst\<lparr>have_send_viewchange := True\<rparr>, put_inst ix (inst\<lparr>have_send_viewchange := True\<rparr>) st'))
                        (OnTxTimeout K E st)
                 else Some (inst, st)) of
             None \<Rightarrow> None
           | Some (inst1, st1) \<Rightarrow>
               Some (if NeedSendAgain now inst1 \<and> view_active st1 \<and> has_pbft (pre_prepare_msg inst1)
                     then SendPrepareAgain K E now ix inst1 st1 else st1)))"

fun timer_instances :: "keys \<Rightarrow> codec \<Rightarrow> int \<Rightarrow> PbftInstanceIndex list \<Rightarrow> PbftState \<Rightarrow> PbftState option" where
  "timer_instances K E now [] st = Some st"
| "timer_instances K E now (ix # ixs) st =
     (case timer_instance K E now ix st of None \<Rightarrow> None | Some st' \<Rightarrow> timer_instances K E now ixs st')"

text \<open>The commit of the last prepared instance, again.\<close>

definition timer_commit :: "keys \<Rightarrow> codec \<Rightarrow> int \<Rightarrow> PbftState \<Rightarrow> PbftState option" where
  "timer_commit K E now st =
     (case find (\<lambda>(ix, inst). phase inst \<ge> PBFT_PHASE_PREPARED) (rev (instances st)) of
        None \<Rightarrow> Some st
      | Some (ix, inst) \<Rightarrow>
          if check_value_result inst = CHECK_VALUE_VALID \<and> NeedSendCommitAgain now inst
          then (case prepares inst of [] \<Rightarrow> None
                | (r, p) # _ \<Rightarrow>
                    let round = next_round (commit_round inst)
                    in Some (put_inst ix (inst\<lparr>commit_round := round, last_commit_send_time := now\<rparr>)
                         (snd (SendMessage (NewCommit K E p (int round) st) st))))
          else Some st)"

text \<open>The loop over the view changes; the second result is the last one whose new-view message is
  due again.\<close>

fun timer_view_changes ::
    "keys \<Rightarrow> codec \<Rightarrow> int \<Rightarrow> int list \<Rightarrow> int option \<Rightarrow> PbftState \<Rightarrow> (int option \<times> PbftState) option" where
  "timer_view_changes K E now [] lastvc st = Some (lastvc, st)"
| "timer_view_changes K E now (v # vs) lastvc st =
     (case map_of (vc_instances st) v of None \<Rightarrow> timer_view_changes K E now vs lastvc st
      | Some vc \<Rightarrow>
          let (vc1, st1) =
                (if VcNeedSendAgain now vc \<and> has_pbft (view_change_msg vc)
                 then let round = next_round (view_change_round vc);
                          vc' = vc\<lparr>view_change_round := round, vci_last_propose_time := now\<rparr>
                      in (vc', put_vc v vc' (snd (SendMessage (IncPeerMessageRound K E (view_change_msg vc) round) st)))
                 else (vc, st))
          in if NeedSendNewViewAgain now vc1
             then if validators st1 = [] then None
                  else timer_view_changes K E now vs (if is_primary (vci_view_number vc1) st1 then Some v else lastvc) st1
             else timer_view_changes K E now vs lastvc st1)"

definition SendNewViewAgain :: "keys \<Rightarrow> codec \<Rightarrow> int \<Rightarrow> int \<Rightarrow> PbftState \<Rightarrow> PbftState" where
  "SendNewViewAgain K E now v st =
     (case map_of (vc_instances st) v of None \<Rightarrow> st
      | Some vc \<Rightarrow>
          let round = next_round (new_view_round vc)
          in snd (SendMessage (IncPeerMessageRound K E (newview vc) round)
               (put_vc v (vc\<lparr>new_view_round := round, last_newview_time := now\<rparr>) st)))"

definition OnTimer :: "keys \<Rightarrow> codec \<Rightarrow> int \<Rightarrow> PbftState \<Rightarrow> PbftState option" where
  "OnTimer K E now st =
     (case timer_instances K E now (map fst (instances st)) st of None \<Rightarrow> None
      | Some st1 \<Rightarrow>
          (case timer_commit K E now st1 of None \<Rightarrow> None
           | Some st2 \<Rightarrow>
               (case timer_view_changes K E now (map fst (vc_instances st2)) None st2 of None \<Rightarrow> None
                | Some (None, st3) \<Rightarrow> Some st3
                | Some (Some v, st3) \<Rightarrow> Some (SendNewViewAgain K E now v st3))))"

section \<open>Requests\<close>

definition InWaterMark :: "int \<Rightarrow> PbftState \<Rightarrow> bool" where
  "InWaterMark seq st \<longleftrightarrow> seq \<ge> last_exe_seq st \<and> seq \<le> last_exe_seq st + ckp_interval st"

definition Request :: "keys \<Rightarrow> codec \<Rightarrow> cstring \<Rightarrow> PbftState \<Rightarrow> (bool \<times> PbftState) option" where
  "Request K E v st =
     (if validators st = [] then None
      else if \<not> is_primary (view_number st) st then Some (False, st)
      else if \<not> view_active st then Some (False, st)
      else let kept = filter (\<lambda>(ix, inst). \<not> (ix_sequence ix > last_exe_seq st \<and> phase inst < PBFT_PHASE_COMMITED)) (instances st);
               st1 = st\<lparr>instances := kept\<rparr>;
               sequence = last_exe_seq st1 + 1;
               env = NewPrePrepare K E v sequence st1;
               fresh = new_PbftInstance (clock st1);
               pinstance = fresh\<lparr>pre_prepare_msg := env, phase := PBFT_PHASE_PREPREPARED,
                 inst_pre_prepare := pre_prepare_of (pbft_of env), msg_buf := (msg_buf fresh)[0 := [env]]\<rparr>
           in Some (SendMessage env (put_inst (PbftInstanceIndex (view_number st1) sequence) pinstance st1)))"

section \<open>The three phases\<close>

definition OnPrePrepare ::
    "keys \<Rightarrow> codec \<Rightarrow> Pbft \<Rightarrow> PbftInstanceIndex \<Rightarrow> PbftInstance \<Rightarrow> CheckValueResult \<Rightarrow> PbftState \<Rightarrow> bool \<times> PbftState" where
  "OnPrePrepare K E m ix inst check_value_ret st =
     (let pp = pre_prepare_of m in
      if is_primary (view_number st) st \<and> length (validators st) \<noteq> 1 then (True, st)
      else if pp_value_digest pp \<noteq> Crypto K (pp_value pp) then (False, st)
      else if check_value_ret = CHECK_VALUE_INVALID then (False, st)
      else if phase inst \<noteq> PBFT_PHASE_NONE then
        (if CompareValue (pp_value (inst_pre_prepare inst)) (pp_value pp) \<noteq> 0 then (False, st)
         else if check_value_ret \<noteq> CHECK_VALUE_VALID then (True, st)
         else SendMessage (NewPrepare K E pp (round_number m) st) st)
      else
        let inst1 = inst\<lparr>phase := PBFT_PHASE_PREPREPARED, phase_item := 0, inst_pre_prepare := pp,
                         check_value_result := check_value_ret\<rparr>;
            st1 = put_inst ix inst1 st
        in if check_value_result inst1 \<noteq> CHECK_VALUE_VALID then (True, st1)
           else SendMessage (NewPrepare K E pp 1 st1) st1)"

definition OnPrepare ::
    "keys \<Rightarrow> codec \<Rightarrow> Pbft \<Rightarrow> PbftInstanceIndex \<Rightarrow> PbftInstance \<Rightarrow> PbftState \<Rightarrow> bool \<times> PbftState" where
  "OnPrepare K E m ix inst st =
     (let p = prepare_of m in
      if CompareValue (pp_value_digest (inst_pre_prepare inst)) (p_value_digest p) \<noteq> 0 then (False, st)
      else
        let inst1 = inst\<lparr>prepares := om_insert (p_replica_id p) p (prepares inst)\<rparr>
        in if length (prepares inst1) \<ge> quorum_of st then
             let inst2 = (if phase inst1 < PBFT_PHASE_PREPARED
                          then inst1\<lparr>phase := PBFT_PHASE_PREPARED, phase_item := 0\<rparr> else inst1)
             in if check_value_result inst2 = CHECK_VALUE_VALID
                then SendMessage (NewCommit K E p (round_number m) st)
                       (put_inst ix (inst2\<lparr>last_commit_send_time := clock st\<rparr>) st)
                else (True, put_inst ix inst2 st)
           else (True, put_inst ix inst1 st))"

text \<open>The commits of an instance that go into the proof: the first of each public key.\<close>

fun collect_commits :: "PbftEnv list \<Rightarrow> cstring set \<Rightarrow> PbftEnv list" where
  "collect_commits [] seen = []"
| "collect_commits (env # rest) seen =
     (if public_key (signature env) \<notin> seen
      then env # collect_commits rest (insert (public_key (signature env)) seen)
      else collect_commits rest seen)"

text \<open>The execution of one committed instance, and the removal of the instances half a checkpoint
  interval below it.\<close>

definition execute_one :: "codec \<Rightarrow> PbftInstanceIndex \<Rightarrow> PbftInstance \<Rightarrow> PbftState \<Rightarrow> PbftState" where
  "execute_one E ix inst st =
     (let st1 = st\<lparr>last_exe_seq := last_exe_seq st + 1\<rparr>;
          st2 = notify (OnValueCommited (ix_sequence ix) (pp_value (inst_pre_prepare inst))
                          (ser_proof E (collect_commits (msg_buf inst ! 2) {}))) st1
      in st2\<lparr>instances := filter (\<lambda>(jx, j). \<not> ix_sequence jx \<le> ix_sequence ix - ckp_interval st2 div 2) (instances st2)\<rparr>)"

text \<open>\<^verbatim>\<open>TryExecuteValue\<close>: the list is what the iterator has still ahead of it. An erased instance
  ahead is skipped, as the iterator does.\<close>

fun execute_walk :: "codec \<Rightarrow> (PbftInstanceIndex \<times> PbftInstance) list \<Rightarrow> PbftState \<Rightarrow> PbftState" where
  "execute_walk E [] st = st"
| "execute_walk E ((ix, inst) # rest) st =
     (if map_of (instances st) ix = None then execute_walk E rest st
      else if ix_sequence ix \<le> last_exe_seq st then execute_walk E rest st
      else if ix_sequence ix = last_exe_seq st + 1 \<and> phase inst \<ge> PBFT_PHASE_COMMITED
      then execute_walk E rest (execute_one E ix inst st)
      else st)"

definition TryExecuteValue :: "codec \<Rightarrow> PbftState \<Rightarrow> PbftState" where
  "TryExecuteValue E st = execute_walk E (instances st) st"

definition OnCommit ::
    "codec \<Rightarrow> Pbft \<Rightarrow> PbftInstanceIndex \<Rightarrow> PbftInstance \<Rightarrow> PbftState \<Rightarrow> bool \<times> PbftState" where
  "OnCommit E m ix inst st =
     (let c = commit_of m in
      if CompareValue (pp_value_digest (inst_pre_prepare inst)) (c_value_digest c) \<noteq> 0 then (False, st)
      else if map_of (commits inst) (c_replica_id c) \<noteq> None then (True, st)
      else
        let inst1 = inst\<lparr>commits := om_insert (c_replica_id c) c (commits inst)\<rparr>
        in if length (commits inst1) \<ge> quorum_of st + 1 \<and> phase inst1 < PBFT_PHASE_COMMITED
           then (True, TryExecuteValue E (put_inst ix
                   (inst1\<lparr>phase := PBFT_PHASE_COMMITED, phase_item := 0, end_time := clock st\<rparr>) st))
           else (True, put_inst ix inst1 st))"

text \<open>The switch of \<^verbatim>\<open>Go\<close> over the type of the message; other types change nothing.\<close>

definition dispatch ::
    "keys \<Rightarrow> codec \<Rightarrow> Pbft \<Rightarrow> PbftInstanceIndex \<Rightarrow> PbftInstance \<Rightarrow> CheckValueResult \<Rightarrow> bool \<Rightarrow> PbftState \<Rightarrow> bool \<times> PbftState" where
  "dispatch K E m ix inst check doret st =
     (case pbft_type m of
        PBFT_TYPE_PREPREPARE \<Rightarrow> OnPrePrepare K E m ix inst check st
      | PBFT_TYPE_PREPARE \<Rightarrow> OnPrepare K E m ix inst st
      | PBFT_TYPE_COMMIT \<Rightarrow> OnCommit E m ix inst st
      | _ \<Rightarrow> (doret, st))"


lemma map_of_erase_old [simp]:
  "map_of (filter (\<lambda>(jx, j). \<not> ix_sequence jx \<le> n) m) ix = (if ix_sequence ix \<le> n then None else map_of m ix)"
  using map_of_filter_key [of "\<lambda>jx. \<not> ix_sequence jx \<le> n" m ix] by simp

lemma execute_one_instances:
  "map_of (instances (execute_one E jx j st)) ix =
     (if ix_sequence ix \<le> ix_sequence jx - ckp_interval st div 2 then None else map_of (instances st) ix)"
  by (simp add: execute_one_def Let_def notify_def)

lemma execute_walk_instances:
  "map_of (instances (execute_walk E todo st)) ix = Some inst \<Longrightarrow> map_of (instances st) ix = Some inst"
proof (induction todo arbitrary: st)
  case (Cons e todo)
  obtain jx j where e: "e = (jx, j)" by (cases e)
  have "map_of (instances (execute_one E jx j st)) ix = Some inst \<Longrightarrow> map_of (instances st) ix = Some inst"
    by (simp add: execute_one_instances split: if_splits)
  then show ?case
    using Cons.prems Cons.IH [of st] Cons.IH [of "execute_one E jx j st"] unfolding e by (simp split: if_splits)
qed simp

lemma SendMessage_instances [simp]: "instances (snd (SendMessage env st)) = instances st"
  by (simp add: SendMessage_def SendMessage_base_def notify_def)

text \<open>What a handler does to the instance it works on: the buffers stay, and the phase grows or the
  position in the buffer of the phase stays.\<close>

definition advances :: "PbftInstance \<Rightarrow> PbftInstance \<Rightarrow> bool" where
  "advances i j \<longleftrightarrow> msg_buf j = msg_buf i \<and>
     (phase i < phase j \<or> phase j = phase i \<and> phase_item j = phase_item i)"

lemma dispatch_advances:
  assumes "map_of (instances st) ix = Some inst"
    and "map_of (instances (snd (dispatch K E m ix inst check doret st))) ix = Some inst'"
  shows "advances inst inst'"
proof -
  have exe: "inst' = j" if "map_of (instances (TryExecuteValue E (put_inst ix j st))) ix = Some inst'" for j
    using execute_walk_instances [OF that [unfolded TryExecuteValue_def]] by (simp add: put_inst_def om_simps)
  show ?thesis
    using assms
    by (cases "pbft_type m")
      (auto simp: dispatch_def OnPrePrepare_def OnPrepare_def OnCommit_def Let_def put_inst_def [of _ _ st] om_simps
        advances_def phase_order dest!: exe [unfolded put_inst_def] split: if_splits)
qed

text \<open>The loop of \<^verbatim>\<open>PbftInstance::Go\<close>. The instance is looked up afresh in every round: a handler may
  have erased it, and then the code goes on with a dangling reference.\<close>

function go_loop ::
    "keys \<Rightarrow> codec \<Rightarrow> CheckValueResult \<Rightarrow> PbftInstanceIndex \<Rightarrow> bool \<Rightarrow> PbftState \<Rightarrow> (bool \<times> PbftState) option" where
  "go_loop K E check ix doret st =
     (case map_of (instances st) ix of None \<Rightarrow> None
      | Some inst \<Rightarrow>
          let buf = msg_buf inst ! phase_number (phase inst) in
          if length buf > phase_item inst then
            let inst1 = inst\<lparr>phase_item := phase_item inst + 1\<rparr>;
                step = dispatch K E (pbft_of (buf ! phase_item inst)) ix inst1 check doret (put_inst ix inst1 st)
            in go_loop K E check ix (fst step) (snd step)
          else Some (doret, st))"
  by pat_completeness auto

text \<open>Work left for the loop: the phases above, then the messages of the present phase.\<close>

definition go_measure :: "PbftInstanceIndex \<Rightarrow> PbftState \<Rightarrow> nat \<times> nat" where
  "go_measure ix st =
     (case map_of (instances st) ix of None \<Rightarrow> (0, 0)
      | Some inst \<Rightarrow> (4 - phase_number (phase inst), length (msg_buf inst ! phase_number (phase inst)) - phase_item inst))"

lemma phase_number_le: "phase_number p \<le> 3"
  by (cases p) simp_all

termination go_loop
proof (relation "inv_image (less_than <*lex*> less_than) (\<lambda>x. go_measure (fst (snd (snd (snd x)))) (snd (snd (snd (snd (snd x))))))", goal_cases)
  case 1
  show ?case by (simp add: wf_inv_image wf_lex_prod)
next
  case (2 K E check ix doret st inst buf inst1 step)
  show ?case
  proof (cases "map_of (instances (snd step)) ix")
    case None
    then show ?thesis using 2(1) phase_number_le [of "phase inst"] by (simp add: go_measure_def)
  next
    case (Some inst')
    have "advances inst1 inst'"
      by (rule dispatch_advances [of "put_inst ix inst1 st" ix]) (use Some 2 in \<open>simp_all add: put_inst_def om_simps\<close>)
    then show ?thesis
      using 2(1-4) Some phase_number_le [of "phase inst'"] by (auto simp: go_measure_def advances_def phase_order)
  qed
qed

declare go_loop.simps [simp del]

definition Go ::
    "keys \<Rightarrow> codec \<Rightarrow> PbftEnv \<Rightarrow> PbftInstanceIndex \<Rightarrow> CheckValueResult \<Rightarrow> PbftState \<Rightarrow> (bool \<times> PbftState) option" where
  "Go K E env ix check st =
     (case map_of (instances st) ix of None \<Rightarrow> None
      | Some inst \<Rightarrow>
          if type_number (pbft_type (pbft_of env)) < int (phase_number (phase inst))
          then Some (False, snd (dispatch K E (pbft_of env) ix inst check False st))
          else go_loop K E check ix False st)"

section \<open>Messages of other views and sequences\<close>

definition erase_completed_vc :: "PbftState \<Rightarrow> PbftState" where
  "erase_completed_vc st =
     st\<lparr>vc_instances := filter (\<lambda>(v, vc). \<not> (vci_end_time vc = 0 \<or> vci_view_number vc < view_number st - 5)) (vc_instances st)\<rparr>"

definition TryDoTraceOut :: "codec \<Rightarrow> PbftInstanceIndex \<Rightarrow> PbftInstance \<Rightarrow> PbftState \<Rightarrow> PbftState" where
  "TryDoTraceOut E ix inst st =
     (if length (commits inst) \<ge> quorum_of st + 1 \<and> ix_sequence ix - last_exe_seq st \<ge> ckp_interval st then
        let st1 = st\<lparr>view_active := True, view_number := ix_view_number ix, last_exe_seq := ix_sequence ix\<rparr>;
            saver = save_active st1 new_ValueSaver;
            st2 = st1\<lparr>vc_instances := filter (\<lambda>(v, vc). \<not> has_pbft (view_change_msg vc)) (vc_instances st1)\<rparr>;
            saver2 = SaveViewChange E st2 saver;
            st3 = st2\<lparr>instances := filter (\<lambda>(jx, j). \<not> ix_sequence jx \<le> last_exe_seq st2) (instances st2),
                      out_pbft_instances := []\<rparr>
        in close_saver saver2 (notify OnResetCloseTimer st3)
      else st)"

definition TraceOutPbftPrePrepare :: "codec \<Rightarrow> PbftEnv \<Rightarrow> PbftState \<Rightarrow> PbftState" where
  "TraceOutPbftPrePrepare E env st =
     (let pp = pre_prepare_of (pbft_of env);
          ix = PbftInstanceIndex (pp_view_number pp) (pp_sequence pp);
          inst = or_default (new_PbftInstance (clock st)) (map_of (out_pbft_instances st) ix);
          inst1 = inst\<lparr>inst_pre_prepare := (inst_pre_prepare inst)\<lparr>pp_value := pp_value pp, pp_value_digest := pp_value_digest pp\<rparr>\<rparr>
      in TryDoTraceOut E ix inst1 (st\<lparr>out_pbft_instances := om_assign ix inst1 (out_pbft_instances st)\<rparr>))"

definition TraceOutPbftCommit :: "codec \<Rightarrow> PbftEnv \<Rightarrow> PbftState \<Rightarrow> bool \<times> PbftState" where
  "TraceOutPbftCommit E env st =
     (let m = pbft_of env; c = commit_of m; ix = PbftInstanceIndex (c_view_number c) (c_sequence c) in
      case map_of (instances st) ix of
        Some inst \<Rightarrow> OnCommit E m ix inst st
      | None \<Rightarrow>
          let fresh = new_PbftInstance (clock st);
              inst = or_default (fresh\<lparr>inst_pre_prepare := (inst_pre_prepare fresh)\<lparr>pp_value_digest := c_value_digest c\<rparr>\<rparr>)
                       (map_of (out_pbft_instances st) ix);
              st1 = st\<lparr>out_pbft_instances := om_insert ix inst (out_pbft_instances st)\<rparr>
          in if CompareValue (pp_value_digest (inst_pre_prepare inst)) (c_value_digest c) \<noteq> 0 then (False, st1)
             else let inst1 = inst\<lparr>commits := om_insert (c_replica_id c) c (commits inst)\<rparr>
                  in (True, TryDoTraceOut E ix inst1 (st1\<lparr>out_pbft_instances := om_assign ix inst1 (out_pbft_instances st1)\<rparr>)))"

section \<open>Receiving\<close>

text \<open>View and sequence of a message of the three phases.\<close>

definition message_index :: "Pbft \<Rightarrow> PbftInstanceIndex option" where
  "message_index m =
     (case pbft_type m of
        PBFT_TYPE_PREPREPARE \<Rightarrow> Some (PbftInstanceIndex (pp_view_number (pre_prepare_of m)) (pp_sequence (pre_prepare_of m)))
      | PBFT_TYPE_PREPARE \<Rightarrow> Some (PbftInstanceIndex (p_view_number (prepare_of m)) (p_sequence (prepare_of m)))
      | PBFT_TYPE_COMMIT \<Rightarrow> Some (PbftInstanceIndex (c_view_number (commit_of m)) (c_sequence (commit_of m)))
      | _ \<Rightarrow> None)"

text \<open>The instance a message belongs to, created when it is new, with the message added to the buffer
  of its type; \<open>None\<close> when the message is not for an instance.\<close>

definition CreateInstanceIfNotExist :: "codec \<Rightarrow> PbftEnv \<Rightarrow> PbftState \<Rightarrow> PbftInstanceIndex option \<times> PbftState" where
  "CreateInstanceIfNotExist E env st =
     (let m = pbft_of env in
      case message_index m of None \<Rightarrow> (None, st)
      | Some ix \<Rightarrow>
          if \<not> InWaterMark (ix_sequence ix) st \<or> view_number st \<noteq> ix_view_number ix then
            (None, if ix_sequence ix > last_exe_seq st \<and> pbft_type m = PBFT_TYPE_COMMIT
                   then snd (TraceOutPbftCommit E env st) else st)
          else if \<not> view_active st then (None, st)
          else if ix_sequence ix \<le> last_exe_seq st then (None, st)
          else
            let st1 = (case map_of (instances st) ix of Some _ \<Rightarrow> st
                       | None \<Rightarrow>
                           let st' = put_inst ix (new_PbftInstance (clock st)) st
                           in st'\<lparr>instances := filter (\<lambda>(jx, j). \<not> (ix_view_number jx < ix_view_number ix \<and> ix_sequence jx = ix_sequence ix))
                                   (instances st')\<rparr>);
                inst = or_default (new_PbftInstance (clock st)) (map_of (instances st1) ix);
                t = nat (type_number (pbft_type m))
            in (Some ix, put_inst ix (inst\<lparr>msg_buf := (msg_buf inst)[t := (msg_buf inst ! t) @ [env]]\<rparr>) st1))"

definition ClearViewChanges :: "codec \<Rightarrow> PbftState \<Rightarrow> PbftState" where
  "ClearViewChanges E st = (let st1 = erase_completed_vc st in close_saver (SaveViewChange E st1 new_ValueSaver) st1)"

text \<open>The instances that survive a change of view: committed, or prepared and not executed.\<close>

definition keep_for_new_view :: "PbftState \<Rightarrow> PbftState" where
  "keep_for_new_view st =
     st\<lparr>instances := filter (\<lambda>(ix, inst). phase inst = PBFT_PHASE_COMMITED \<or>
          phase inst = PBFT_PHASE_PREPARED \<and> ix_sequence ix > last_exe_seq st) (instances st)\<rparr>"

text \<open>\<^verbatim>\<open>view_number_ % vsize\<close> with a signed 32-bit divisor.\<close>

definition count_abnormal :: "PbftState \<Rightarrow> PbftState" where
  "count_abnormal st =
     (case find (\<lambda>(a, i). i = sgn (view_number st) * (\<bar>view_number st\<bar> mod int (length (validators st)))) (validators st) of
        None \<Rightarrow> st
      | Some (a, i) \<Rightarrow>
          st\<lparr>abnormal_records := om_assign a (or_default 0 (map_of (abnormal_records st) a) + 1) (abnormal_records st)\<rparr>)"

definition ProcessQuorumViewChange :: "keys \<Rightarrow> codec \<Rightarrow> int \<Rightarrow> PbftVcInstance \<Rightarrow> PbftState \<Rightarrow> PbftState" where
  "ProcessQuorumViewChange K E v vc st =
     (let st1 = count_abnormal st in
      if \<not> is_primary (vci_view_number vc) st1 then
        st1\<lparr>new_view_repond_timer := next_timer st1, next_timer := next_timer st1 + 1,
            timers := timers st1 @ [(next_timer st1, vci_view_number vc, pre_prepared_env_set vc)]\<rparr>
      else
        let msg = NewNewView K E vc st1;
            vc1 = vc\<lparr>last_newview_time := clock st1, newview := msg\<rparr>;
            st2 = snd (SendMessage msg (put_vc v vc1 st1));
            last_cons_value = (case ps_pre_prepare (pre_prepared_env_set vc1) of None \<Rightarrow> []
                               | Some e \<Rightarrow> pp_value (pre_prepare_of (pbft_of e)));
            st3 = keep_for_new_view st2;
            st4 = put_vc v (ChangeComplete (clock st3) vc1) (st3\<lparr>view_number := vci_view_number vc1, view_active := True\<rparr>);
            saver = saver_SaveValue_int64 VIEWNUMBER_NAME (view_number st4) (save_active st4 new_ValueSaver);
            st5 = ClearViewChanges E st4
        in close_saver saver (notify (OnViewChanged last_cons_value) (notify OnResetCloseTimer st5)))"

definition OnViewChangeWithRawValue :: "keys \<Rightarrow> codec \<Rightarrow> PbftEnv \<Rightarrow> PbftState \<Rightarrow> bool \<times> PbftState" where
  "OnViewChangeWithRawValue K E env st =
     (let raw = raw_of (pbft_of env);
          vcm = view_change_of (pbft_of (or_default empty_env (view_change_env raw)));
          v = vc_view_number vcm
      in if v = view_number st then (True, st)
         else if v < view_number st then (False, st)
         else
           let vc0 = or_default (new_PbftVcInstance (vc_sequence vcm) v (clock st)) (map_of (vc_instances st) v);
               vc1 = (if vc_replica_id vcm = replica_id st \<and> \<not> has_pbft (view_change_msg vc0)
                      then vc0\<lparr>view_change_msg := env\<rparr> else vc0);
               vc2 = (if map_of (viewchanges vc1) (vc_replica_id vcm) = None
                      then vc1\<lparr>vci_msg_buf := vci_msg_buf vc1 @ [env],
                               viewchanges := om_insert (vc_replica_id vcm) vcm (viewchanges vc1)\<rparr>
                      else vc1);
               vc3 = (case prepared_set raw of None \<Rightarrow> vc2
                      | Some s \<Rightarrow>
                          if pp_sequence (set_pre_prepare s) > pp_sequence (set_pre_prepare (pre_prepared_env_set vc2)) \<and>
                             pp_sequence (set_pre_prepare s) > last_exe_seq st
                          then vc2\<lparr>pre_prepared_env_set := s\<rparr> else vc2);
               st1 = put_vc v vc3 st
           in if length (viewchanges vc3) > quorum_of st1 \<and> vci_end_time vc3 = 0
              then let st2 = ProcessQuorumViewChange K E v vc3 st1
                   in (True, close_saver (SaveViewChange E st2 new_ValueSaver) st2)
              else (True, st1))"

text \<open>The check of the view changes inside a new-view message calls \<^verbatim>\<open>CheckMessageItem(pbft_env)\<close> with
  the new-view message itself.\<close>

definition OnNewView :: "keys \<Rightarrow> codec \<Rightarrow> PbftEnv \<Rightarrow> PbftState \<Rightarrow> bool \<times> PbftState" where
  "OnNewView K E env st =
     (let nv = new_view_of (pbft_of env); v = nv_view_number nv in
      if v = view_number st then (True, st)
      else if v < view_number st then (False, st)
      else
        let st1 = st\<lparr>timers := filter (\<lambda>(i, d, s). i \<noteq> new_view_repond_timer st) (timers st)\<rparr> in
        if is_primary v st1 then (True, st1)
        else if \<not> list_all (\<lambda>e. CheckMessageItem K E (validators st1) env \<and> v = vc_view_number (view_change_of (pbft_of e)))
                   (view_changes nv) then (False, st1)
        else if card (set (map (\<lambda>e. vc_replica_id (view_change_of (pbft_of e))) (view_changes nv))) \<le> quorum_of st1 then (False, st1)
        else
          let st2 = (keep_for_new_view st1)\<lparr>view_number := v, view_active := True\<rparr>;
              saver = saver_SaveValue_int64 VIEW_ACTIVE 1 (saver_SaveValue_int64 VIEWNUMBER_NAME (view_number st2) new_ValueSaver);
              st3 = (case map_of (vc_instances st2) v of None \<Rightarrow> st2 | Some vc \<Rightarrow> put_vc v (ChangeComplete (clock st2) vc) st2);
              st4 = notify (OnViewChanged []) (ClearViewChanges E st3)
          in (True, close_saver saver st4))"

text \<open>The timer that waits for the new view: when it fires and no view is active, the node asks for the
  next view.\<close>

definition NewViewTimeout :: "keys \<Rightarrow> codec \<Rightarrow> int \<Rightarrow> PbftState \<Rightarrow> PbftState option" where
  "NewViewTimeout K E i st =
     (case map_of (timers st) i of None \<Rightarrow> Some st
      | Some (data, temp_set) \<Rightarrow>
          let st1 = st\<lparr>timers := filter (\<lambda>(j, d, s). j \<noteq> i) (timers st)\<rparr> in
          if view_active st1 then Some st1
          else map_option (\<lambda>msg. snd (SendMessage msg st1)) (NewViewChangeRawValue K E (data + 1) temp_set st1))"

text \<open>\<open>check\<close> is \<^verbatim>\<open>notify_->CheckValue\<close>, the check of a proposed value against the ledger.\<close>

definition OnRecv ::
    "keys \<Rightarrow> codec \<Rightarrow> (cstring \<Rightarrow> CheckValueResult) \<Rightarrow> ConsensusMsg \<Rightarrow> PbftState \<Rightarrow> (bool \<times> PbftState) option" where
  "OnRecv K E check message st =
     (let env = cm_pbft_env message; m = pbft_of env in
      if cm_type message \<noteq> lit ''pbft'' then Some (False, st)
      else if \<not> CheckMessageItem K E (validators st) env then Some (False, st)
      else if pbft_type m = PBFT_TYPE_PREPREPARE \<or> pbft_type m = PBFT_TYPE_PREPARE \<or> pbft_type m = PBFT_TYPE_COMMIT then
        let ret = (if pbft_type m = PBFT_TYPE_PREPREPARE then check (pp_value (pre_prepare_of m)) else CHECK_VALUE_VALID);
            created = CreateInstanceIfNotExist E env st
        in (case fst created of None \<Rightarrow> Some (False, snd created) | Some ix \<Rightarrow> Go K E env ix ret (snd created))
      else if pbft_type m = PBFT_TYPE_VIEWCHANG_WITH_RAWVALUE then Some (OnViewChangeWithRawValue K E env st)
      else if pbft_type m = PBFT_TYPE_NEWVIEW then Some (OnNewView K E env st)
      else Some (False, st))"

section \<open>Validators and leaders\<close>

definition IsLeader :: "PbftState \<Rightarrow> int" where
  "IsLeader st = (if is_validator st \<and> is_primary (view_number st) st then 1 else 0)"

definition CurrentLeader :: "PbftState \<Rightarrow> cstring option" where
  "CurrentLeader st =
     (if validators st = [] then None
      else Some (fold (\<lambda>(a, i) leader. if i = (view_number st mod 2 ^ 64) mod int (length (validators st)) then a else leader)
                   (validators st) []))"

definition ClearNotCommitedInstance :: "PbftState \<Rightarrow> PbftState" where
  "ClearNotCommitedInstance st =
     st\<lparr>instances := filter (\<lambda>(ix, inst). \<not> phase inst < PBFT_PHASE_COMMITED) (instances st)\<rparr>"

text \<open>The comparison of the new validators with the present ones.\<close>

definition validators_differ :: "cstring list \<Rightarrow> ValidatorMap \<Rightarrow> bool" where
  "validators_differ as m \<longleftrightarrow>
     length as \<noteq> length m \<or> \<not> list_all (\<lambda>(i, a). map_of m a = Some (int i)) (zip [0..<length as] as)"

definition UpdateValidators :: "keys \<Rightarrow> codec \<Rightarrow> cstring list \<Rightarrow> cstring \<Rightarrow> PbftState \<Rightarrow> (bool \<times> PbftState) option" where
  "UpdateValidators K E as proof st =
     (case (if proof = [] then Some (0, - 1)
            else case parse_proof E proof of None \<Rightarrow> None
                 | Some [] \<Rightarrow> Some (- 1, - 1)
                 | Some (env # _) \<Rightarrow>
                     let c = commit_of (pbft_of env)
                     in Some (if c_view_number c \<ge> view_number st then c_view_number c + 1 else - 1,
                              if c_sequence c > last_exe_seq st then c_sequence c else - 1)) of
        None \<Rightarrow> Some (False, st)
      | Some (new_view_number, new_seq) \<Rightarrow>
          (case (if validators_differ as (validators st)
                 then let st1 = UpdateValidators_base K as st;
                          st2 = st1\<lparr>fault_number := fault_number_of (length (validators st1))\<rparr>
                      in if validators st2 = [] then None
                         else map_option (\<lambda>saver. (saver, (notify OnResetCloseTimer (ClearNotCommitedInstance st2))\<lparr>abnormal_records := []\<rparr>))
                           (SaveValidators E st2 new_ValueSaver)
                 else Some (new_ValueSaver, st)) of
             None \<Rightarrow> None
           | Some (saver, st3) \<Rightarrow>
               let (saver4, st4) = (if new_seq > 0
                     then (saver_SaveValue_int64 LAST_EXE_SEQUENCE_NAME new_seq saver, st3\<lparr>last_exe_seq := new_seq\<rparr>)
                     else (saver, st3));
                   (saver5, st5) = (if new_view_number > 0 \<or> new_seq > 0
                     then let st' = (ClearNotCommitedInstance st4)\<lparr>
                                view_number := (if new_view_number > 0 then new_view_number else view_number st4), view_active := True\<rparr>
                          in (saver_SaveValue_int64 VIEWNUMBER_NAME (view_number st') (saver_SaveValue_int64 VIEW_ACTIVE 1 saver4),
                              notify OnResetCloseTimer (erase_completed_vc st'))
                     else (saver4, st4))
               in Some (True, close_saver saver5 st5)))"

definition GetPhaseDesc :: "PbftInstancePhase \<Rightarrow> cstring" where
  "GetPhaseDesc p =
     (case p of
        PBFT_PHASE_NONE \<Rightarrow> lit ''PHASE_NONE''
      | PBFT_PHASE_PREPREPARED \<Rightarrow> lit ''PHASE_PREPREPARE''
      | PBFT_PHASE_PREPARED \<Rightarrow> lit ''PHASE_PREPARED''
      | PBFT_PHASE_COMMITED \<Rightarrow> lit ''PHASE_COMMITED'')"

end
