(* ===== verification/Pbft_Inv.thy ===== *)
theory Pbft_Inv
  imports Pbft
begin

text \<open>
  The invariant of a consensus node, \<open>pbft_inv\<close>, and its preservation by every operation while the
  set of validators stays the same and the view number does not fall.

  \<^item> \<open>inst_type\<close>: the buffers of an instance hold messages of their own type, view and sequence, and
    the commits among them were received and accepted.
  \<^item> \<open>inst_votes\<close>: the votes an instance counts are for its digest, one per replica.
  \<^item> \<open>inst_phase\<close>: what has been counted when an instance is prepared or committed.
  \<^item> If \<open>G\<close> holds, the commits the node has sent are for the digest of the instance they belong to, and
    there is at most one digest for each view and sequence. \<open>G\<close> stands for runs in which no proposal
    and no closed ledger makes the node forget a commit it has sent; the rest holds in all runs.

  The ghost argument \<open>R\<close> is the set of messages the node has received.
\<close>

section \<open>Instances\<close>

definition digest_of :: "PbftInstance \<Rightarrow> cstring" where
  "digest_of i = pp_value_digest (inst_pre_prepare i)"

definition c_index :: "PbftCommit \<Rightarrow> PbftInstanceIndex" where
  "c_index c = PbftInstanceIndex (c_view_number c) (c_sequence c)"

definition p_index :: "PbftPrepare \<Rightarrow> PbftInstanceIndex" where
  "p_index p = PbftInstanceIndex (p_view_number p) (p_sequence p)"

definition accepted_commit :: "keys \<Rightarrow> codec \<Rightarrow> ValidatorMap \<Rightarrow> PbftEnv set \<Rightarrow> PbftCommit \<Rightarrow> bool" where
  "accepted_commit K E vs R c \<longleftrightarrow>
     (\<exists>e \<in> R. CheckMessageItem K E vs e \<and> pbft_type (pbft_of e) = PBFT_TYPE_COMMIT \<and> commit_of (pbft_of e) = c)"

definition buffered :: "keys \<Rightarrow> codec \<Rightarrow> ValidatorMap \<Rightarrow> PbftEnv set \<Rightarrow> PbftInstanceIndex \<Rightarrow> nat \<Rightarrow> PbftEnv \<Rightarrow> bool" where
  "buffered K E vs R ix t e \<longleftrightarrow>
     type_number (pbft_type (pbft_of e)) = int t \<and> message_index (pbft_of e) = Some ix \<and>
     (t = 2 \<longrightarrow> e \<in> R \<and> CheckMessageItem K E vs e)"

definition inst_type :: "keys \<Rightarrow> codec \<Rightarrow> ValidatorMap \<Rightarrow> PbftEnv set \<Rightarrow> PbftInstanceIndex \<Rightarrow> PbftInstance \<Rightarrow> bool" where
  "inst_type K E vs R ix i \<longleftrightarrow>
     length (msg_buf i) = 4 \<and>
     (\<forall>t < 4. \<forall>e \<in> set (msg_buf i ! t). buffered K E vs R ix t e) \<and>
     pbft_type (pbft_of (pre_prepare_msg i)) \<noteq> PBFT_TYPE_COMMIT"

definition inst_votes :: "keys \<Rightarrow> codec \<Rightarrow> ValidatorMap \<Rightarrow> PbftEnv set \<Rightarrow> PbftInstanceIndex \<Rightarrow> PbftInstance \<Rightarrow> bool" where
  "inst_votes K E vs R ix i \<longleftrightarrow>
     om_sorted (prepares i) \<and> om_sorted (commits i) \<and>
     (\<forall>r p. (r, p) \<in> set (prepares i) \<longrightarrow>
        PBFT_PHASE_PREPREPARED \<le> phase i \<and> r = p_replica_id p \<and> p_index p = ix \<and> p_value_digest p = digest_of i) \<and>
     (\<forall>r c. (r, c) \<in> set (commits i) \<longrightarrow>
        r = c_replica_id c \<and> c_index c = ix \<and> c_value_digest c = digest_of i \<and> accepted_commit K E vs R c)"

definition inst_phase :: "keys \<Rightarrow> nat \<Rightarrow> PbftInstance \<Rightarrow> bool" where
  "inst_phase K n i \<longleftrightarrow>
     (phase i = PBFT_PHASE_NONE \<longrightarrow> digest_of i = []) \<and>
     (phase i = PBFT_PHASE_PREPREPARED \<or> phase i = PBFT_PHASE_PREPARED \<longrightarrow>
        digest_of i = Crypto K (pp_value (inst_pre_prepare i)) \<and> msg_buf i ! 0 \<noteq> []) \<and>
     (phase i = PBFT_PHASE_PREPARED \<longrightarrow> quorum_size n \<le> length (prepares i)) \<and>
     (phase i = PBFT_PHASE_COMMITED \<longrightarrow>
        quorum_size n + 1 \<le> length (commits i) \<and> (digest_of i = [] \<or> digest_of i = Crypto K (pp_value (inst_pre_prepare i)))) \<and>
     (last_commit_send_time i \<noteq> 0 \<longrightarrow> prepares i \<noteq> [])"

definition inst_ok :: "keys \<Rightarrow> codec \<Rightarrow> ValidatorMap \<Rightarrow> PbftEnv set \<Rightarrow> PbftInstanceIndex \<Rightarrow> PbftInstance \<Rightarrow> bool" where
  "inst_ok K E vs R ix i \<longleftrightarrow> inst_type K E vs R ix i \<and> inst_votes K E vs R ix i \<and> inst_phase K (length vs) i"

lemma accepted_commit_mono: "accepted_commit K E vs R c \<Longrightarrow> R \<subseteq> S \<Longrightarrow> accepted_commit K E vs S c"
  unfolding accepted_commit_def by blast

lemma buffered_mono: "buffered K E vs R ix t e \<Longrightarrow> R \<subseteq> S \<Longrightarrow> buffered K E vs S ix t e"
  unfolding buffered_def by blast

lemma inst_ok_mono: "inst_ok K E vs R ix i \<Longrightarrow> R \<subseteq> S \<Longrightarrow> inst_ok K E vs S ix i"
  unfolding inst_ok_def inst_type_def inst_votes_def using accepted_commit_mono [of K E vs R _ S] buffered_mono [of K E vs R _ _ _ S]
  by simp

lemma inst_prepareD:
  assumes "inst_ok K E vs R ix i" and "(r, p) \<in> set (prepares i)"
  shows "PBFT_PHASE_PREPREPARED \<le> phase i" "r = p_replica_id p" "p_index p = ix" "p_value_digest p = digest_of i"
  using assms unfolding inst_ok_def inst_votes_def by blast+

lemma inst_commitD:
  assumes "inst_ok K E vs R ix i" and "(r, c) \<in> set (commits i)"
  shows "r = c_replica_id c" "c_index c = ix" "c_value_digest c = digest_of i" "accepted_commit K E vs R c"
  using assms unfolding inst_ok_def inst_votes_def by blast+

text \<open>Fields an operation may set without a further thought.\<close>

lemma inst_ok_fields [simp]:
  "inst_ok K E vs R ix (i\<lparr>phase_item := n\<rparr>) = inst_ok K E vs R ix i"
  "inst_ok K E vs R ix (i\<lparr>end_time := t\<rparr>) = inst_ok K E vs R ix i"
  "inst_ok K E vs R ix (i\<lparr>last_propose_time := t\<rparr>) = inst_ok K E vs R ix i"
  "inst_ok K E vs R ix (i\<lparr>have_send_viewchange := b\<rparr>) = inst_ok K E vs R ix i"
  "inst_ok K E vs R ix (i\<lparr>pre_prepare_round := n\<rparr>) = inst_ok K E vs R ix i"
  "inst_ok K E vs R ix (i\<lparr>commit_round := n\<rparr>) = inst_ok K E vs R ix i"
  by (simp_all add: inst_ok_def inst_type_def inst_votes_def inst_phase_def digest_of_def)

lemma inst_ok_sent:
  "inst_ok K E vs R ix i \<Longrightarrow> prepares i \<noteq> [] \<Longrightarrow> inst_ok K E vs R ix (i\<lparr>last_commit_send_time := t\<rparr>)"
  by (simp add: inst_ok_def inst_type_def inst_votes_def inst_phase_def digest_of_def)

lemma empty_digest: "pp_value_digest empty_pre_prepare = []"
  by (simp add: empty_pre_prepare_def)

lemma inst_ok_new: "inst_ok K E vs R ix (new_PbftInstance now)"
proof -
  have "msg_buf (new_PbftInstance now) ! t = []" if "t < 4" for t
    using that by (simp add: new_PbftInstance_def)
  then show ?thesis
    by (simp add: inst_ok_def inst_type_def inst_votes_def inst_phase_def digest_of_def new_PbftInstance_def
        om_simps empty_digest empty_env_def pbft_of_def or_default_def empty_pbft_def)
qed

text \<open>A message of the three phases, with the buffer it belongs into.\<close>

lemma message_index_type:
  "message_index m = Some ix \<Longrightarrow> 0 \<le> type_number (pbft_type m) \<and> type_number (pbft_type m) < 3"
  by (cases "pbft_type m") (simp_all add: message_index_def)

lemma message_index_number:
  assumes "message_index m = Some ix"
  shows "type_number (pbft_type m) = 0 \<longleftrightarrow> pbft_type m = PBFT_TYPE_PREPREPARE"
    and "type_number (pbft_type m) = 1 \<longleftrightarrow> pbft_type m = PBFT_TYPE_PREPARE"
    and "type_number (pbft_type m) = 2 \<longleftrightarrow> pbft_type m = PBFT_TYPE_COMMIT"
  using assms by (cases "pbft_type m"; simp add: message_index_def)+

lemma inst_ok_buffer:
  assumes ok: "inst_ok K E vs R ix i" and e: "e \<in> R" "CheckMessageItem K E vs e"
    and ix: "message_index (pbft_of e) = Some ix"
    and t: "t = nat (type_number (pbft_type (pbft_of e)))"
  shows "inst_ok K E vs R ix (i\<lparr>msg_buf := (msg_buf i)[t := (msg_buf i ! t) @ [e]]\<rparr>)"
proof -
  have t3: "int t = type_number (pbft_type (pbft_of e))" "t < 3" using message_index_type [OF ix] t by auto
  have "buffered K E vs R ix t e" using e ix t3 by (simp add: buffered_def)
  then have "inst_type K E vs R ix (i\<lparr>msg_buf := (msg_buf i)[t := (msg_buf i ! t) @ [e]]\<rparr>)"
    using ok t3(2) by (auto simp: inst_ok_def inst_type_def nth_list_update)
  moreover have "inst_votes K E vs R ix (i\<lparr>msg_buf := (msg_buf i)[t := (msg_buf i ! t) @ [e]]\<rparr>)"
    using ok by (simp add: inst_ok_def inst_votes_def digest_of_def)
  moreover have "length (msg_buf i) = 4" using ok by (simp add: inst_ok_def inst_type_def)
  then have "(msg_buf i)[t := (msg_buf i ! t) @ [e]] ! 0 \<noteq> []" if "msg_buf i ! 0 \<noteq> []"
    using that by (cases t; cases "msg_buf i") auto
  then have "inst_phase K (length vs) (i\<lparr>msg_buf := (msg_buf i)[t := (msg_buf i ! t) @ [e]]\<rparr>)"
    using ok by (simp add: inst_ok_def inst_phase_def digest_of_def)
  ultimately show ?thesis by (simp add: inst_ok_def)
qed

text \<open>The three transitions of an instance.\<close>

lemma inst_ok_preprepared:
  assumes ok: "inst_ok K E vs R ix i" and none: "phase i = PBFT_PHASE_NONE" and no: "commits i = []"
    and d: "pp_value_digest pp = Crypto K (pp_value pp)" and buf: "msg_buf i ! 0 \<noteq> []"
  shows "inst_ok K E vs R ix (i\<lparr>phase := PBFT_PHASE_PREPREPARED, phase_item := n, inst_pre_prepare := pp, check_value_result := r\<rparr>)"
proof -
  have "prepares i = []"
    using ok none by (cases "prepares i") (auto simp: inst_ok_def inst_votes_def phase_order)
  then show ?thesis
    using assms by (auto simp: inst_ok_def inst_type_def inst_votes_def inst_phase_def digest_of_def om_simps)
qed

lemma inst_ok_prepare:
  assumes ok: "inst_ok K E vs R ix i" and p: "p_index p = ix" "p_value_digest p = digest_of i"
    and ph: "PBFT_PHASE_PREPREPARED \<le> phase i"
  shows "inst_ok K E vs R ix (i\<lparr>prepares := om_insert (p_replica_id p) p (prepares i)\<rparr>)"
proof -
  have s: "om_sorted (prepares i)" using ok by (simp add: inst_ok_def inst_votes_def)
  have "inst_votes K E vs R ix (i\<lparr>prepares := om_insert (p_replica_id p) p (prepares i)\<rparr>)"
    using ok p ph by (auto simp: inst_ok_def inst_votes_def digest_of_def om_simps set_om_insert [OF s] split: if_splits)
  moreover have "length (prepares i) \<le> length (om_insert (p_replica_id p) p (prepares i))"
    by (simp add: length_om_insert [OF s])
  ultimately show ?thesis
    using ok by (auto simp: inst_ok_def inst_type_def inst_phase_def digest_of_def om_insert_def)
qed

lemma om_insert_nonempty [simp]: "om_insert k v m \<noteq> []"
  by (cases m) (auto simp: om_insert_def split: if_splits)

lemma inst_ok_prepared:
  assumes "inst_ok K E vs R ix i" and "quorum_size (length vs) \<le> length (prepares i)"
    and "PBFT_PHASE_PREPREPARED \<le> phase i" and "phase i < PBFT_PHASE_PREPARED"
  shows "inst_ok K E vs R ix (i\<lparr>phase := PBFT_PHASE_PREPARED, phase_item := n\<rparr>)"
proof -
  have "phase i = PBFT_PHASE_PREPREPARED" using assms(3,4) by (cases "phase i") (simp_all add: phase_order)
  then show ?thesis
    using assms by (auto simp: inst_ok_def inst_type_def inst_votes_def inst_phase_def digest_of_def phase_order)
qed

lemma inst_ok_commit:
  assumes ok: "inst_ok K E vs R ix i" and c: "c_index c = ix" "c_value_digest c = digest_of i" "accepted_commit K E vs R c"
  shows "inst_ok K E vs R ix (i\<lparr>commits := om_insert (c_replica_id c) c (commits i)\<rparr>)"
proof -
  have s: "om_sorted (commits i)" using ok by (simp add: inst_ok_def inst_votes_def)
  have "inst_votes K E vs R ix (i\<lparr>commits := om_insert (c_replica_id c) c (commits i)\<rparr>)"
    using ok c by (auto simp: inst_ok_def inst_votes_def digest_of_def om_simps set_om_insert [OF s] split: if_splits)
  moreover have "length (commits i) \<le> length (om_insert (c_replica_id c) c (commits i))"
    by (simp add: length_om_insert [OF s])
  ultimately show ?thesis
    using ok by (auto simp: inst_ok_def inst_type_def inst_phase_def digest_of_def)
qed

lemma inst_ok_committed:
  assumes "inst_ok K E vs R ix i" and "quorum_size (length vs) + 1 \<le> length (commits i)"
  shows "inst_ok K E vs R ix (i\<lparr>phase := PBFT_PHASE_COMMITED, phase_item := n, end_time := t\<rparr>)"
  using assms
  by (cases "phase i") (auto simp: inst_ok_def inst_type_def inst_votes_def inst_phase_def digest_of_def phase_order)


section \<open>The node\<close>

definition sent_commits :: "PbftState \<Rightarrow> PbftCommit set" where
  "sent_commits st =
     {commit_of (pbft_of e) |e. SendConsensusMessage e \<in> set (outputs st) \<and> pbft_type (pbft_of e) = PBFT_TYPE_COMMIT}"

definition commit_settled :: "PbftState \<Rightarrow> PbftCommit \<Rightarrow> bool" where
  "commit_settled st c \<longleftrightarrow> c_view_number c \<le> view_number st \<and>
     (case map_of (instances st) (c_index c) of
        Some i \<Rightarrow> PBFT_PHASE_PREPREPARED \<le> phase i \<and> digest_of i = c_value_digest c
      | None \<Rightarrow> c_view_number c < view_number st \<or> c_sequence c \<le> last_exe_seq st)"

text \<open>At most one digest for each view and sequence.\<close>

definition unique_digests :: "PbftCommit set \<Rightarrow> bool" where
  "unique_digests S \<longleftrightarrow> (\<forall>c \<in> S. \<forall>d \<in> S. c_index c = c_index d \<longrightarrow> c_value_digest c = c_value_digest d)"

lemma unique_digestsD: "unique_digests S \<Longrightarrow> c \<in> S \<Longrightarrow> d \<in> S \<Longrightarrow> c_index c = c_index d \<Longrightarrow> c_value_digest c = c_value_digest d"
  unfolding unique_digests_def by blast

lemma unique_digests_insert:
  assumes "unique_digests S" and "\<And>d. d \<in> S \<Longrightarrow> c_index d = c_index c \<Longrightarrow> c_value_digest d = c_value_digest c"
  shows "unique_digests (insert c S)"
  using assms unfolding unique_digests_def by (metis insertE)

definition vc_ok :: "int \<times> PbftVcInstance \<Rightarrow> bool" where
  "vc_ok e \<longleftrightarrow> (case e of (v, vc) \<Rightarrow> vci_view_number vc = v \<and> pbft_type (pbft_of (view_change_msg vc)) \<noteq> PBFT_TYPE_COMMIT \<and> pbft_type (pbft_of (newview vc)) \<noteq> PBFT_TYPE_COMMIT)"

definition node_inst :: "keys \<Rightarrow> codec \<Rightarrow> PbftEnv set \<Rightarrow> PbftState \<Rightarrow> PbftInstanceIndex \<Rightarrow> PbftInstance \<Rightarrow> bool" where
  "node_inst K E R st ix i \<longleftrightarrow>
     inst_ok K E (validators st) R ix i \<and> ix_view_number ix \<le> view_number st \<and>
     ix_sequence ix \<le> last_exe_seq st + ckp_interval st \<and>
     (phase i = PBFT_PHASE_NONE \<and> ix_view_number ix = view_number st \<longrightarrow> commits i = [])"

definition pbft_inv :: "bool \<Rightarrow> keys \<Rightarrow> codec \<Rightarrow> PbftEnv set \<Rightarrow> PbftState \<Rightarrow> bool" where
  "pbft_inv G K E R st \<longleftrightarrow>
     0 \<le> ckp_interval st \<and> om_sorted (instances st) \<and>
     (\<forall>ix i. map_of (instances st) ix = Some i \<longrightarrow> node_inst K E R st ix i) \<and>
     (G \<longrightarrow> (\<forall>c \<in> sent_commits st. commit_settled st c) \<and> unique_digests (sent_commits st)) \<and>
     (\<forall>e \<in> set (vc_instances st). vc_ok e)"

lemma pbft_invD:
  assumes "pbft_inv G K E R st"
  shows "0 \<le> ckp_interval st"
    and "om_sorted (instances st)"
    and "map_of (instances st) ix = Some i \<Longrightarrow> node_inst K E R st ix i"
    and "G \<Longrightarrow> c \<in> sent_commits st \<Longrightarrow> commit_settled st c"
    and "G \<Longrightarrow> unique_digests (sent_commits st)"
    and "e \<in> set (vc_instances st) \<Longrightarrow> vc_ok e"
  using assms unfolding pbft_inv_def by blast+

lemma inst_okD: "pbft_inv G K E R st \<Longrightarrow> map_of (instances st) ix = Some i \<Longrightarrow> inst_ok K E (validators st) R ix i"
  using pbft_invD(3) unfolding node_inst_def by blast

lemma pbft_inv_mono: "pbft_inv G K E R st \<Longrightarrow> R \<subseteq> S \<Longrightarrow> pbft_inv G K E S st"
  unfolding pbft_inv_def node_inst_def using inst_ok_mono by blast

text \<open>Only these fields matter.\<close>

definition same_core :: "PbftState \<Rightarrow> PbftState \<Rightarrow> bool" where
  "same_core st st' \<longleftrightarrow>
     validators st' = validators st \<and> instances st' = instances st \<and> view_number st' = view_number st \<and>
     last_exe_seq st' = last_exe_seq st \<and> ckp_interval st' = ckp_interval st \<and> sent_commits st' = sent_commits st"

lemma commit_settled_cong:
  "instances st' = instances st \<Longrightarrow> view_number st' = view_number st \<Longrightarrow> last_exe_seq st' = last_exe_seq st \<Longrightarrow>
   commit_settled st' c = commit_settled st c"
  by (simp add: commit_settled_def split: option.split)

lemma pbft_inv_core:
  "pbft_inv G K E R st \<Longrightarrow> same_core st st' \<Longrightarrow> (\<forall>e \<in> set (vc_instances st'). vc_ok e) \<Longrightarrow> pbft_inv G K E R st'"
  by (simp add: pbft_inv_def node_inst_def same_core_def commit_settled_cong [of st' st])

text \<open>
  The general step: what an operation does to one instance, which instances it may create and which
  it may forget.
\<close>

definition inst_step :: "bool \<Rightarrow> keys \<Rightarrow> codec \<Rightarrow> PbftEnv set \<Rightarrow> PbftState \<Rightarrow> PbftState \<Rightarrow> PbftInstanceIndex \<Rightarrow> PbftInstance \<Rightarrow> bool" where
  "inst_step G K E R st st' ix i' \<longleftrightarrow>
     node_inst K E R st' ix i' \<and>
     (G \<and> ix \<in> c_index ` sent_commits st \<longrightarrow> (case map_of (instances st) ix of
        Some i \<Rightarrow> PBFT_PHASE_PREPREPARED \<le> phase i \<longrightarrow> PBFT_PHASE_PREPREPARED \<le> phase i' \<and> digest_of i' = digest_of i
      | None \<Rightarrow> ix_view_number ix = view_number st \<and> ix_sequence ix > last_exe_seq st))"

lemma pbft_inv_step:
  assumes inv: "pbft_inv G K E R st" and sorted: "om_sorted (instances st')"
    and steps: "\<And>ix i. map_of (instances st') ix = Some i \<Longrightarrow> inst_step G K E R st st' ix i"
    and gone: "\<And>ix i. G \<Longrightarrow> ix \<in> c_index ` sent_commits st \<Longrightarrow> map_of (instances st) ix = Some i \<Longrightarrow> map_of (instances st') ix = None \<Longrightarrow>
        ix_view_number ix < view_number st' \<or> ix_sequence ix \<le> last_exe_seq st'"
    and mono: "view_number st \<le> view_number st'" "last_exe_seq st \<le> last_exe_seq st'"
    and ckp: "ckp_interval st' = ckp_interval st"
    and sent: "sent_commits st' = sent_commits st" and vc: "\<forall>e \<in> set (vc_instances st'). vc_ok e"
  shows "pbft_inv G K E R st'"
proof -
  have "commit_settled st' c" if G: G and c: "c \<in> sent_commits st'" for c
  proof -
    have old: "commit_settled st c" using pbft_invD(4) [OF inv G] c sent by simp
    have ix: "c_index c \<in> c_index ` sent_commits st" using c sent by simp
    have "c_view_number c \<le> view_number st'" using old mono(1) by (simp add: commit_settled_def)
    moreover have "case map_of (instances st') (c_index c) of
        Some i \<Rightarrow> PBFT_PHASE_PREPREPARED \<le> phase i \<and> digest_of i = c_value_digest c
      | None \<Rightarrow> c_view_number c < view_number st' \<or> c_sequence c \<le> last_exe_seq st'"
    proof (cases "map_of (instances st') (c_index c)")
      case None
      then show ?thesis
        using old mono gone [OF G ix]
        by (cases "map_of (instances st) (c_index c)") (auto simp: commit_settled_def c_index_def)
    next
      case (Some i)
      then show ?thesis
        using old steps [OF Some] G ix
        by (cases "map_of (instances st) (c_index c)") (auto simp: commit_settled_def inst_step_def c_index_def)
    qed
    ultimately show ?thesis by (simp add: commit_settled_def)
  qed
  moreover have "G \<longrightarrow> unique_digests (sent_commits st')" using pbft_invD(5) [OF inv] sent by simp
  moreover have "node_inst K E R st' ix i" if "map_of (instances st') ix = Some i" for ix i
    using steps [OF that] by (simp add: inst_step_def)
  ultimately show ?thesis using sorted vc ckp pbft_invD(1) [OF inv] by (simp add: pbft_inv_def)
qed

section \<open>Sending\<close>

lemma sent_commits_notify [simp]:
  "(\<And>e. n \<noteq> SendConsensusMessage e) \<Longrightarrow> sent_commits (notify n st) = sent_commits st"
  by (auto simp: sent_commits_def notify_def)

lemma SendMessage_fields [simp]:
  "validators (snd (SendMessage e st)) = validators st"
  "view_number (snd (SendMessage e st)) = view_number st"
  "last_exe_seq (snd (SendMessage e st)) = last_exe_seq st"
  "vc_instances (snd (SendMessage e st)) = vc_instances st"
  "replica_id (snd (SendMessage e st)) = replica_id st"
  "clock (snd (SendMessage e st)) = clock st"
  "ckp_interval (snd (SendMessage e st)) = ckp_interval st"
  "view_active (snd (SendMessage e st)) = view_active st"
  by (simp_all add: SendMessage_def SendMessage_base_def notify_def)

lemma sent_commits_SendMessage:
  "sent_commits (snd (SendMessage e st)) =
     (if is_validator st \<and> pbft_type (pbft_of e) = PBFT_TYPE_COMMIT
      then insert (commit_of (pbft_of e)) (sent_commits st) else sent_commits st)"
  by (auto simp: SendMessage_def SendMessage_base_def notify_def sent_commits_def)

lemma SendMessage_other_inv:
  assumes "pbft_inv G K E R st" and "pbft_type (pbft_of e) \<noteq> PBFT_TYPE_COMMIT"
  shows "pbft_inv G K E R (snd (SendMessage e st))"
  by (rule pbft_inv_core [OF assms(1)])
    (use assms pbft_invD(6) [OF assms(1)] in \<open>auto simp: same_core_def sent_commits_SendMessage\<close>)

lemma SendMessage_commit_inv:
  assumes inv: "pbft_inv G K E R st" and c: "commit_of (pbft_of e) = c"
    and i: "map_of (instances st) (c_index c) = Some i" "PBFT_PHASE_PREPREPARED \<le> phase i" "digest_of i = c_value_digest c"
  shows "pbft_inv G K E R (snd (SendMessage e st))"
proof -
  have new: "commit_settled st c"
    using i pbft_invD(3) [OF inv i(1)] by (simp add: commit_settled_def node_inst_def c_index_def)
  have "c_value_digest d = c_value_digest c" if "G" "d \<in> sent_commits st" "c_index d = c_index c" for d
    using pbft_invD(4) [OF inv that(1,2)] i that(3) by (simp add: commit_settled_def)
  then have "G \<longrightarrow> unique_digests (sent_commits (snd (SendMessage e st)))"
    using pbft_invD(5) [OF inv] unique_digests_insert c by (simp add: sent_commits_SendMessage)
  moreover have "commit_settled (snd (SendMessage e st)) d" if "G" "d \<in> sent_commits (snd (SendMessage e st))" for d
    using that new pbft_invD(4) [OF inv, of d] c
    by (auto simp: commit_settled_cong [of "snd (SendMessage e st)" st] sent_commits_SendMessage split: if_splits)
  moreover have "node_inst K E R (snd (SendMessage e st)) ix j" if "map_of (instances st) ix = Some j" for ix j
    using pbft_invD(3) [OF inv that] by (simp add: node_inst_def)
  ultimately show ?thesis
    using pbft_invD(1,2,6) [OF inv] by (simp add: pbft_inv_def)
qed

section \<open>Changing, creating and erasing instances\<close>

lemma put_inst_fields [simp]:
  "validators (put_inst ix i st) = validators st" "view_number (put_inst ix i st) = view_number st"
  "last_exe_seq (put_inst ix i st) = last_exe_seq st" "vc_instances (put_inst ix i st) = vc_instances st"
  "sent_commits (put_inst ix i st) = sent_commits st" "outputs (put_inst ix i st) = outputs st"
  "is_validator (put_inst ix i st) = is_validator st" "replica_id (put_inst ix i st) = replica_id st"
  "view_active (put_inst ix i st) = view_active st" "clock (put_inst ix i st) = clock st"
  "ckp_interval (put_inst ix i st) = ckp_interval st" "timers (put_inst ix i st) = timers st"
  by (simp_all add: put_inst_def sent_commits_def)

lemma put_inst_instances [simp]: "map_of (instances (put_inst ix i st)) = (map_of (instances st))(ix \<mapsto> i)"
  by (simp add: put_inst_def om_simps)

lemma put_inst_inv:
  assumes inv: "pbft_inv G K E R st" and i: "map_of (instances st) ix = Some i"
    and ok: "inst_ok K E (validators st) R ix i'"
    and keep: "PBFT_PHASE_PREPREPARED \<le> phase i \<Longrightarrow> PBFT_PHASE_PREPREPARED \<le> phase i' \<and> digest_of i' = digest_of i"
    and none: "phase i' = PBFT_PHASE_NONE \<Longrightarrow> ix_view_number ix = view_number st \<Longrightarrow> commits i' = []"
  shows "pbft_inv G K E R (put_inst ix i' st)"
proof (rule pbft_inv_step [OF inv])
  show "om_sorted (instances (put_inst ix i' st))"
    using pbft_invD(2) [OF inv] by (simp add: put_inst_def om_simps)
  fix jx j
  assume "map_of (instances (put_inst ix i' st)) jx = Some j"
  then show "inst_step G K E R st (put_inst ix i' st) jx j"
    using pbft_invD(3) [OF inv] i ok keep none by (auto simp: inst_step_def node_inst_def split: if_splits option.split)
qed (use i pbft_invD(6) [OF inv] in \<open>auto split: if_splits\<close>)

lemma new_inst_inv:
  assumes inv: "pbft_inv G K E R st" and i: "map_of (instances st) ix = None"
    and ix: "ix_view_number ix = view_number st" "ix_sequence ix > last_exe_seq st" "ix_sequence ix \<le> last_exe_seq st + ckp_interval st"
    and ok: "inst_ok K E (validators st) R ix i'" and none: "commits i' = []"
  shows "pbft_inv G K E R (put_inst ix i' st)"
proof (rule pbft_inv_step [OF inv])
  show "om_sorted (instances (put_inst ix i' st))"
    using pbft_invD(2) [OF inv] by (simp add: put_inst_def om_simps)
  fix jx j
  assume "map_of (instances (put_inst ix i' st)) jx = Some j"
  then show "inst_step G K E R st (put_inst ix i' st) jx j"
    using pbft_invD(3) [OF inv] i ok none ix by (auto simp: inst_step_def node_inst_def split: if_splits option.split)
qed (use pbft_invD(6) [OF inv] in \<open>auto split: if_splits\<close>)

text \<open>An instance for which no commit has been sent may be replaced.\<close>

lemma replace_inst_inv:
  assumes inv: "pbft_inv G K E R st" and unsent: "G \<Longrightarrow> ix \<notin> c_index ` sent_commits st"
    and ix: "ix_view_number ix \<le> view_number st" "ix_sequence ix \<le> last_exe_seq st + ckp_interval st"
    and ok: "inst_ok K E (validators st) R ix i'" and none: "commits i' = []"
  shows "pbft_inv G K E R (put_inst ix i' st)"
proof (rule pbft_inv_step [OF inv])
  show "om_sorted (instances (put_inst ix i' st))"
    using pbft_invD(2) [OF inv] by (simp add: put_inst_def om_simps)
  fix jx j
  assume "map_of (instances (put_inst ix i' st)) jx = Some j"
  then show "inst_step G K E R st (put_inst ix i' st) jx j"
    using pbft_invD(3) [OF inv] unsent ok none ix by (auto simp: inst_step_def node_inst_def split: if_splits option.split)
qed (use pbft_invD(6) [OF inv] in \<open>auto split: if_splits\<close>)

text \<open>Erasing instances, possibly with a move to a higher view or sequence.\<close>

lemma erase_inv:
  assumes inv: "pbft_inv G K E R st" and eq: "instances st' = filter P (instances st)"
    and gone: "\<And>ix i. G \<Longrightarrow> ix \<in> c_index ` sent_commits st \<Longrightarrow> map_of (instances st) ix = Some i \<Longrightarrow> \<not> P (ix, i) \<Longrightarrow>
        ix_view_number ix < view_number st' \<or> ix_sequence ix \<le> last_exe_seq st'"
    and mono: "view_number st \<le> view_number st'" "last_exe_seq st \<le> last_exe_seq st'"
    and vs: "validators st' = validators st" and ckp: "ckp_interval st' = ckp_interval st"
    and sent: "sent_commits st' = sent_commits st" and vc: "\<forall>e \<in> set (vc_instances st'). vc_ok e"
  shows "pbft_inv G K E R st'"
proof (rule pbft_inv_step [OF inv _ _ _ mono ckp sent vc])
  note lookup = map_of_filter [OF pbft_invD(2) [OF inv], of P]
  show "om_sorted (instances st')" using pbft_invD(2) [OF inv] eq by (simp add: om_simps)
  show "inst_step G K E R st st' ix i" if "map_of (instances st') ix = Some i" for ix i
  proof -
    have i: "map_of (instances st) ix = Some i" using that by (simp add: eq lookup split: option.splits if_splits)
    then show ?thesis
      using pbft_invD(3) [OF inv i] mono vs ckp by (auto simp: inst_step_def node_inst_def)
  qed
  show "ix_view_number ix < view_number st' \<or> ix_sequence ix \<le> last_exe_seq st'"
    if "G" "ix \<in> c_index ` sent_commits st" "map_of (instances st) ix = Some i" "map_of (instances st') ix = None" for ix i
    using that gone by (auto simp: eq lookup split: if_splits)
qed

end
