(* ===== verification/Pbft_Steps.thy ===== *)
theory Pbft_Steps
  imports Pbft_Inv
begin

text \<open>
  Every operation of a consensus node keeps the invariant \<open>pbft_inv\<close>: the handlers of the three
  phases, the loop over the buffers, the messages of other views, view changes, timers, proposals.
\<close>

section \<open>New messages\<close>

lemma pbft_of_sign [simp]: "pbft_of (sign_pbft K E m) = m"
  by (simp add: pbft_of_def sign_pbft_def or_default_def)

lemma type_of_new [simp]:
  "pbft_type (pbft_of (NewPrePrepare K E v s st)) = PBFT_TYPE_PREPREPARE"
  "pbft_type (pbft_of (NewPrepare K E pp n st)) = PBFT_TYPE_PREPARE"
  "pbft_type (pbft_of (NewCommit K E p n st)) = PBFT_TYPE_COMMIT"
  "pbft_type (pbft_of (NewNewView K E vc st)) = PBFT_TYPE_NEWVIEW"
  by (simp_all add: NewPrePrepare_def NewPrepare_def NewCommit_def NewNewView_def)

lemma type_of_view_change:
  "NewViewChangeRawValue K E v s st = Some e \<Longrightarrow> pbft_type (pbft_of e) = PBFT_TYPE_VIEWCHANG_WITH_RAWVALUE"
  by (auto simp: NewViewChangeRawValue_def Let_def split: option.splits)

lemma type_of_round [simp]: "pbft_type (pbft_of (IncPeerMessageRound K E e n)) = pbft_type (pbft_of e)"
  by (cases "pbft_of e") (simp add: IncPeerMessageRound_def)

lemma commit_of_new [simp]:
  "c_index (commit_of (pbft_of (NewCommit K E p n st))) = p_index p"
  "c_value_digest (commit_of (pbft_of (NewCommit K E p n st))) = p_value_digest p"
  by (simp_all add: NewCommit_def commit_of_def or_default_def c_index_def p_index_def)

section \<open>The three phases\<close>

lemma OnPrePrepare_inv:
  assumes inv: "pbft_inv G K E R st" and i: "map_of (instances st) ix = Some inst"
    and none: "phase inst = PBFT_PHASE_NONE \<Longrightarrow> ix_view_number ix = view_number st \<and> msg_buf inst ! 0 \<noteq> []"
  shows "pbft_inv G K E R (snd (OnPrePrepare K E m ix inst check st))"
proof -
  define pp where "pp = pre_prepare_of m"
  define inst1 where "inst1 = inst\<lparr>phase := PBFT_PHASE_PREPREPARED, phase_item := 0, inst_pre_prepare := pp, check_value_result := check\<rparr>"
  have "pbft_inv G K E R (put_inst ix inst1 st)"
    if "phase inst = PBFT_PHASE_NONE" "pp_value_digest pp = Crypto K (pp_value pp)"
  proof (rule put_inst_inv [OF inv i])
    have "commits inst = []" using pbft_invD(3) [OF inv i] none that(1) by (simp add: node_inst_def)
    then show "inst_ok K E (validators st) R ix inst1"
      unfolding inst1_def using none that by (intro inst_ok_preprepared [OF inst_okD [OF inv i]]) auto
  qed (use that in \<open>auto simp: inst1_def phase_order\<close>)
  then show ?thesis
    using inv by (auto simp: OnPrePrepare_def Let_def pp_def inst1_def intro!: SendMessage_other_inv)
qed

lemma OnPrepare_inv:
  assumes inv: "pbft_inv G K E R st" and i: "map_of (instances st) ix = Some inst"
    and ix: "p_index (prepare_of m) = ix" and ph: "PBFT_PHASE_PREPREPARED \<le> phase inst"
  shows "pbft_inv G K E R (snd (OnPrepare K E m ix inst st))"
proof (cases "digest_of inst = p_value_digest (prepare_of m)")
  case False
  then show ?thesis using inv by (simp add: OnPrepare_def Let_def digest_of_def)
next
  case True
  define p where "p = prepare_of m"
  define inst1 where "inst1 = inst\<lparr>prepares := om_insert (p_replica_id p) p (prepares inst)\<rparr>"
  define inst2 where "inst2 = (if phase inst1 < PBFT_PHASE_PREPARED then inst1\<lparr>phase := PBFT_PHASE_PREPARED, phase_item := 0\<rparr> else inst1)"
  have ok1: "inst_ok K E (validators st) R ix inst1"
    unfolding inst1_def using True ix ph by (intro inst_ok_prepare [OF inst_okD [OF inv i]]) (auto simp: p_def)
  have same: "phase inst1 = phase inst" "digest_of inst1 = digest_of inst" "digest_of inst2 = digest_of inst"
      "PBFT_PHASE_PREPREPARED \<le> phase inst2" "prepares inst2 \<noteq> []"
    using ph by (auto simp: inst1_def inst2_def digest_of_def phase_order)
  have put: "pbft_inv G K E R (put_inst ix j st)" if "inst_ok K E (validators st) R ix j" "digest_of j = digest_of inst"
      "PBFT_PHASE_PREPREPARED \<le> phase j" for j
    by (rule put_inst_inv [OF inv i that(1)]) (use that in \<open>auto simp: phase_order\<close>)
  have ok2: "inst_ok K E (validators st) R ix inst2" if "quorum_of st \<le> length (prepares inst1)"
    using inst_ok_prepared [OF ok1, of 0] ok1 that ph same(1) unfolding inst2_def quorum_of_def by auto
  have "pbft_inv G K E R (snd (SendMessage (NewCommit K E p n st) (put_inst ix (inst2\<lparr>last_commit_send_time := clock st\<rparr>) st)))"
    if q: "quorum_of st \<le> length (prepares inst1)" for n
  proof (rule SendMessage_commit_inv [OF put refl, where i = "inst2\<lparr>last_commit_send_time := clock st\<rparr>"])
    show "inst_ok K E (validators st) R ix (inst2\<lparr>last_commit_send_time := clock st\<rparr>)"
      by (rule inst_ok_sent [OF ok2 [OF q] same(5)])
  qed (use same True ix in \<open>auto simp: digest_of_def p_def\<close>)
  moreover have "pbft_inv G K E R (put_inst ix inst2 st)" if "quorum_of st \<le> length (prepares inst1)"
    using put ok2 that same by blast
  moreover have "pbft_inv G K E R (put_inst ix inst1 st)" using put ok1 same ph by simp
  ultimately show ?thesis
    using True unfolding OnPrepare_def Let_def p_def [symmetric] inst1_def [symmetric] inst2_def [symmetric]
    by (simp add: digest_of_def)
qed

lemma execute_one_inv:
  assumes inv: "pbft_inv G K E R st" and seq: "ix_sequence ix = last_exe_seq st + 1"
  shows "pbft_inv G K E R (execute_one E ix inst st)"
  by (rule erase_inv [OF inv, where P = "\<lambda>(jx, j). \<not> ix_sequence jx \<le> ix_sequence ix - ckp_interval st div 2"])
    (use seq pbft_invD(1,6) [OF inv] in \<open>auto simp: execute_one_def Let_def notify_def sent_commits_def\<close>)

lemma execute_walk_inv: "pbft_inv G K E R st \<Longrightarrow> pbft_inv G K E R (execute_walk E todo st)"
proof (induction todo arbitrary: st)
  case (Cons e todo)
  obtain jx j where e: "e = (jx, j)" by (cases e)
  then show ?case using Cons execute_one_inv [OF Cons.prems] by simp
qed simp

lemma OnCommit_inv:
  assumes inv: "pbft_inv G K E R st" and i: "map_of (instances st) ix = Some inst"
    and ix: "c_index (commit_of m) = ix" and acc: "accepted_commit K E (validators st) R (commit_of m)"
    and none: "phase inst = PBFT_PHASE_NONE \<Longrightarrow> ix_view_number ix \<noteq> view_number st"
  shows "pbft_inv G K E R (snd (OnCommit E m ix inst st))"
proof (cases "digest_of inst = c_value_digest (commit_of m)")
  case False
  then show ?thesis using inv by (simp add: OnCommit_def Let_def digest_of_def)
next
  case True
  define c where "c = commit_of m"
  define inst1 where "inst1 = inst\<lparr>commits := om_insert (c_replica_id c) c (commits inst)\<rparr>"
  define inst2 where "inst2 = inst1\<lparr>phase := PBFT_PHASE_COMMITED, phase_item := 0, end_time := clock st\<rparr>"
  have ok1: "inst_ok K E (validators st) R ix inst1"
    unfolding inst1_def c_def using True ix acc by (intro inst_ok_commit [OF inst_okD [OF inv i]]) auto
  have "pbft_inv G K E R (put_inst ix inst1 st)"
    by (rule put_inst_inv [OF inv i ok1]) (use none in \<open>auto simp: inst1_def digest_of_def\<close>)
  moreover have "pbft_inv G K E R (put_inst ix inst2 st)" if "quorum_of st + 1 \<le> length (commits inst1)"
  proof (rule put_inst_inv [OF inv i])
    show "inst_ok K E (validators st) R ix inst2"
      unfolding inst2_def using that by (intro inst_ok_committed [OF ok1]) (simp add: quorum_of_def)
  qed (auto simp: inst2_def inst1_def digest_of_def phase_order)
  ultimately show ?thesis
    using inv True execute_walk_inv
    unfolding OnCommit_def Let_def c_def [symmetric] inst1_def [symmetric] inst2_def [symmetric] TryExecuteValue_def
    by (simp add: digest_of_def)
qed

section \<open>The loop over the buffers\<close>

lemma execute_walk_view [simp]:
  "view_number (execute_walk E todo st) = view_number st" "validators (execute_walk E todo st) = validators st"
  by (induction todo arbitrary: st) (auto simp: execute_one_def Let_def notify_def)

lemma dispatch_view [simp]:
  "view_number (snd (dispatch K E m ix inst check b st)) = view_number st"
  "validators (snd (dispatch K E m ix inst check b st)) = validators st"
  by (cases "pbft_type m";
      simp add: dispatch_def OnPrePrepare_def OnPrepare_def OnCommit_def TryExecuteValue_def Let_def)+

lemma dispatch_inv:
  assumes inv: "pbft_inv G K E R st" and i: "map_of (instances st) ix = Some inst"
    and view: "ix_view_number ix = view_number st"
    and e: "buffered K E (validators st) R ix t e" and t: "t \<le> phase_number (phase inst)"
    and buf: "t = 0 \<Longrightarrow> msg_buf inst ! 0 \<noteq> []"
  shows "pbft_inv G K E R (snd (dispatch K E (pbft_of e) ix inst check b st))"
proof -
  note m = e [unfolded buffered_def]
  consider "pbft_type (pbft_of e) = PBFT_TYPE_PREPREPARE" "t = 0" | "pbft_type (pbft_of e) = PBFT_TYPE_PREPARE" "t = 1"
    | "pbft_type (pbft_of e) = PBFT_TYPE_COMMIT" "t = 2"
    using m by (cases "pbft_type (pbft_of e)") (auto simp: message_index_def)
  then show ?thesis
  proof cases
    case 1
    then show ?thesis using OnPrePrepare_inv [OF inv i] view buf by (simp add: dispatch_def)
  next
    case 2
    then show ?thesis
      using OnPrepare_inv [OF inv i, of "pbft_of e"] m t by (simp add: dispatch_def message_index_def p_index_def phase_order)
  next
    case 3
    have "phase inst \<noteq> PBFT_PHASE_NONE" using 3 t by auto
    moreover have "accepted_commit K E (validators st) R (commit_of (pbft_of e))"
      using m 3 by (auto simp: accepted_commit_def)
    ultimately show ?thesis
      using OnCommit_inv [OF inv i, of "pbft_of e"] m 3 by (simp add: dispatch_def message_index_def c_index_def)
  qed
qed

lemma bump_inv:
  assumes inv: "pbft_inv G K E R st" and i: "map_of (instances st) ix = Some inst"
  shows "pbft_inv G K E R (put_inst ix (inst\<lparr>phase_item := n\<rparr>) st)"
  by (rule put_inst_inv [OF inv i])
    (use inst_okD [OF inv i] pbft_invD(3) [OF inv i] in \<open>auto simp: digest_of_def node_inst_def\<close>)

lemma buffer_item:
  assumes "inst_ok K E vs R ix inst" and "phase_item inst < length (msg_buf inst ! phase_number (phase inst))"
  shows "buffered K E vs R ix (phase_number (phase inst)) (msg_buf inst ! phase_number (phase inst) ! phase_item inst)"
  using assms phase_number_le [of "phase inst"] unfolding inst_ok_def inst_type_def by (simp add: le_imp_less_Suc)

lemma go_loop_inv:
  assumes "pbft_inv G K E R st" and "ix_view_number ix = view_number st" and "go_loop K E check ix b st = Some (r, st')"
  shows "pbft_inv G K E R st' \<and> view_number st' = view_number st \<and> validators st' = validators st"
  using assms
proof (induction K E check ix b st rule: go_loop.induct)
  case (1 K E check ix b st)
  obtain inst where i: "map_of (instances st) ix = Some inst"
    using "1.prems"(3) by (subst (asm) go_loop.simps) (auto split: option.splits)
  define buf where "buf = msg_buf inst ! phase_number (phase inst)"
  show ?case
  proof (cases "length buf > phase_item inst")
    case False
    then have "go_loop K E check ix b st = Some (b, st)" by (subst go_loop.simps) (simp add: i buf_def)
    then show ?thesis using "1.prems" by simp
  next
    case True
    define inst1 where "inst1 = inst\<lparr>phase_item := phase_item inst + 1\<rparr>"
    define step where "step = dispatch K E (pbft_of (buf ! phase_item inst)) ix inst1 check b (put_inst ix inst1 st)"
    have "pbft_inv G K E R (put_inst ix inst1 st)" unfolding inst1_def by (rule bump_inv [OF "1.prems"(1) i])
    moreover have "buffered K E (validators st) R ix (phase_number (phase inst)) (buf ! phase_item inst)"
      using buffer_item [OF inst_okD [OF "1.prems"(1) i]] True by (simp add: buf_def)
    moreover have "msg_buf inst ! 0 \<noteq> []" if "phase_number (phase inst) = 0" using True that by (auto simp: buf_def)
    ultimately have "pbft_inv G K E R (snd step)"
      unfolding step_def using "1.prems"(2) by (intro dispatch_inv [where t = "phase_number (phase inst)"]) (auto simp: inst1_def)
    moreover have "go_loop K E check ix (fst step) (snd step) = Some (r, st')"
      using "1.prems"(3) True by (subst (asm) go_loop.simps) (simp add: i buf_def inst1_def step_def Let_def)
    moreover have "view_number (snd step) = view_number st" "validators (snd step) = validators st"
      by (simp_all add: step_def)
    ultimately show ?thesis
      using "1.IH" [OF i buf_def True inst1_def step_def] "1.prems"(2) by simp
  qed
qed


lemma Go_inv:
  assumes inv: "pbft_inv G K E R st" and i: "map_of (instances st) ix = Some inst" and view: "ix_view_number ix = view_number st"
    and e: "buffered K E (validators st) R ix t e" and buf: "msg_buf inst ! t \<noteq> []"
    and go: "Go K E e ix check st = Some (r, st')"
  shows "pbft_inv G K E R st' \<and> view_number st' = view_number st \<and> validators st' = validators st"
proof (cases "type_number (pbft_type (pbft_of e)) < int (phase_number (phase inst))")
  case True
  then have "t \<le> phase_number (phase inst)" using e by (simp add: buffered_def)
  then have "pbft_inv G K E R (snd (dispatch K E (pbft_of e) ix inst check False st))"
    using dispatch_inv [OF inv i view e] buf by auto
  then show ?thesis using go True i by (auto simp: Go_def)
next
  case False
  then show ?thesis using go_loop_inv [OF inv view, of check False r st'] go i by (simp add: Go_def)
qed

section \<open>Saving and reporting\<close>

lemma close_saver_core:
  "same_core st (close_saver s st)" "vc_instances (close_saver s st) = vc_instances st"
  by (simp_all add: close_saver_def same_core_def sent_commits_def)

lemma close_saver_inv: "pbft_inv G K E R st \<Longrightarrow> pbft_inv G K E R (close_saver s st)"
  by (rule pbft_inv_core [of G K E R st, OF _ close_saver_core(1)]) (simp_all add: close_saver_core pbft_invD(6))

lemma notify_inv:
  "pbft_inv G K E R st \<Longrightarrow> (\<And>e. n \<noteq> SendConsensusMessage e) \<Longrightarrow> pbft_inv G K E R (notify n st)"
  by (rule pbft_inv_core [of G K E R st]) (auto simp: same_core_def notify_def sent_commits_def dest: pbft_invD(6))

lemma close_saver_fields [simp]:
  "view_number (close_saver s st) = view_number st" "validators (close_saver s st) = validators st"
  "last_exe_seq (close_saver s st) = last_exe_seq st"
  by (simp_all add: close_saver_def)

lemma notify_fields [simp]:
  "view_number (notify n st) = view_number st" "validators (notify n st) = validators st"
  "last_exe_seq (notify n st) = last_exe_seq st"
  by (simp_all add: notify_def)

section \<open>Messages of other views\<close>

lemma TryDoTraceOut_inv:
  assumes inv: "pbft_inv G K E R st" and mono: "view_number st \<le> view_number (TryDoTraceOut E ix inst st)"
  shows "pbft_inv G K E R (TryDoTraceOut E ix inst st)"
proof (cases "length (commits inst) \<ge> quorum_of st + 1 \<and> ix_sequence ix - last_exe_seq st \<ge> ckp_interval st")
  case True
  have v: "view_number st \<le> ix_view_number ix" using mono True by (simp add: TryDoTraceOut_def Let_def)
  define vcs where "vcs = filter (\<lambda>(v, vc). \<not> has_pbft (view_change_msg vc)) (vc_instances st)"
  have "pbft_inv G K E R (st\<lparr>view_active := True, view_number := ix_view_number ix, last_exe_seq := ix_sequence ix,
      vc_instances := vcs, instances := filter (\<lambda>(jx, j). \<not> ix_sequence jx \<le> ix_sequence ix) (instances st),
      out_pbft_instances := []\<rparr>)" (is "pbft_inv G K E R ?st")
    by (rule erase_inv [OF inv, where P = "\<lambda>(jx, j). \<not> ix_sequence jx \<le> ix_sequence ix"])
      (use True v pbft_invD(1,6) [OF inv] in \<open>auto simp: vcs_def sent_commits_def\<close>)
  then show ?thesis
    using True by (auto simp: TryDoTraceOut_def Let_def vcs_def intro!: close_saver_inv notify_inv)
qed (use inv in \<open>auto simp: TryDoTraceOut_def\<close>)

text \<open>Fields the invariant does not look at.\<close>

lemma pbft_inv_fields [simp]:
  "pbft_inv G K E R (st\<lparr>out_pbft_instances := m\<rparr>) = pbft_inv G K E R st"
  "pbft_inv G K E R (st\<lparr>view_active := b\<rparr>) = pbft_inv G K E R st"
  "pbft_inv G K E R (st\<lparr>timers := ts\<rparr>) = pbft_inv G K E R st"
  "pbft_inv G K E R (st\<lparr>next_timer := n\<rparr>) = pbft_inv G K E R st"
  "pbft_inv G K E R (st\<lparr>new_view_repond_timer := n\<rparr>) = pbft_inv G K E R st"
  "pbft_inv G K E R (st\<lparr>abnormal_records := a\<rparr>) = pbft_inv G K E R st"
  "pbft_inv G K E R (st\<lparr>clock := n\<rparr>) = pbft_inv G K E R st"
  by (simp_all add: pbft_inv_def node_inst_def commit_settled_def sent_commits_def cong: option.case_cong)

lemma TraceOutPbftCommit_inv:
  assumes inv: "pbft_inv G K E R st" and mono: "view_number st \<le> view_number (snd (TraceOutPbftCommit E e st))"
    and e: "e \<in> R" "CheckMessageItem K E (validators st) e" "pbft_type (pbft_of e) = PBFT_TYPE_COMMIT"
    and ix: "ix = c_index (commit_of (pbft_of e))"
    and other: "\<not> InWaterMark (ix_sequence ix) st \<or> view_number st \<noteq> ix_view_number ix" "ix_sequence ix > last_exe_seq st"
  shows "pbft_inv G K E R (snd (TraceOutPbftCommit E e st))"
proof (cases "map_of (instances st) ix")
  case (Some inst)
  have "accepted_commit K E (validators st) R (commit_of (pbft_of e))" using e by (auto simp: accepted_commit_def)
  moreover have "ix_view_number ix \<noteq> view_number st"
    using other pbft_invD(3) [OF inv Some] by (auto simp: node_inst_def InWaterMark_def)
  ultimately show ?thesis
    using OnCommit_inv [OF inv Some, of "pbft_of e"] Some ix by (simp add: TraceOutPbftCommit_def Let_def c_index_def)
next
  case None
  have "pbft_inv G K E R (TryDoTraceOut E jx j (st\<lparr>out_pbft_instances := m\<rparr>))"
    if "view_number st \<le> view_number (TryDoTraceOut E jx j (st\<lparr>out_pbft_instances := m\<rparr>))" for jx j m
    by (rule TryDoTraceOut_inv) (use inv that in simp_all)
  then show ?thesis
    using inv None ix mono by (auto simp: TraceOutPbftCommit_def Let_def c_index_def split: if_splits)
qed

lemma message_index_commit:
  "message_index m = Some ix \<Longrightarrow> pbft_type m = PBFT_TYPE_COMMIT \<Longrightarrow> ix = c_index (commit_of m)"
  by (simp add: message_index_def c_index_def)

lemma buffered_message:
  assumes "message_index (pbft_of e) = Some ix" and "e \<in> R" and "CheckMessageItem K E vs e"
  shows "buffered K E vs R ix (nat (type_number (pbft_type (pbft_of e)))) e"
  using assms message_index_type [OF assms(1)] by (simp add: buffered_def)

text \<open>The instance after a message has been put into its buffer.\<close>

lemma CreateInstance_inv:
  assumes inv: "pbft_inv G K E R st" and e: "e \<in> R" "CheckMessageItem K E (validators st) e"
    and mono: "view_number st \<le> view_number (snd (CreateInstanceIfNotExist E e st))"
  shows "pbft_inv G K E R (snd (CreateInstanceIfNotExist E e st)) \<and>
    (\<forall>ix. fst (CreateInstanceIfNotExist E e st) = Some ix \<longrightarrow>
       (\<exists>inst. map_of (instances (snd (CreateInstanceIfNotExist E e st))) ix = Some inst \<and>
          ix_view_number ix = view_number st \<and> message_index (pbft_of e) = Some ix \<and>
          msg_buf inst ! nat (type_number (pbft_type (pbft_of e))) \<noteq> []) \<and>
       view_number (snd (CreateInstanceIfNotExist E e st)) = view_number st \<and>
       validators (snd (CreateInstanceIfNotExist E e st)) = validators st)"
proof (cases "message_index (pbft_of e)")
  case None
  then show ?thesis using inv by (simp add: CreateInstanceIfNotExist_def Let_def)
next
  case (Some ix)
  define skip where "skip \<longleftrightarrow> \<not> InWaterMark (ix_sequence ix) st \<or> view_number st \<noteq> ix_view_number ix"
  show ?thesis
  proof (cases "skip \<or> \<not> view_active st \<or> ix_sequence ix \<le> last_exe_seq st")
    case True
    have "pbft_inv G K E R (snd (TraceOutPbftCommit E e st))"
      if t: "pbft_type (pbft_of e) = PBFT_TYPE_COMMIT" and s: "skip" "ix_sequence ix > last_exe_seq st"
      by (rule TraceOutPbftCommit_inv [OF inv _ e t message_index_commit [OF Some t]])
        (use mono Some t s in \<open>auto simp: CreateInstanceIfNotExist_def Let_def skip_def\<close>)
    then show ?thesis using True inv Some by (auto simp: CreateInstanceIfNotExist_def Let_def skip_def)
  next
    case False
    define t where "t = nat (type_number (pbft_type (pbft_of e)))"
    define fresh where "fresh = put_inst ix (new_PbftInstance (clock st)) st"
    define P where "P = (\<lambda>(jx, j :: PbftInstance). \<not> (ix_view_number jx < ix_view_number ix \<and> ix_sequence jx = ix_sequence ix))"
    define st1 where "st1 = (case map_of (instances st) ix of Some _ \<Rightarrow> st | None \<Rightarrow> fresh\<lparr>instances := filter P (instances fresh)\<rparr>)"
    have cur: "ix_view_number ix = view_number st" "last_exe_seq st < ix_sequence ix"
        "ix_sequence ix \<le> last_exe_seq st + ckp_interval st"
      using False by (auto simp: skip_def InWaterMark_def)
    have st1: "pbft_inv G K E R st1" "view_number st1 = view_number st" "validators st1 = validators st" "map_of (instances st1) ix \<noteq> None"
    proof -
      have f: "pbft_inv G K E R fresh" if "map_of (instances st) ix = None"
        unfolding fresh_def using cur by (intro new_inst_inv [OF inv that] inst_ok_new) (simp_all add: new_PbftInstance_def)
      have "pbft_inv G K E R (fresh\<lparr>instances := filter P (instances fresh)\<rparr>)" if "map_of (instances st) ix = None"
        by (rule erase_inv [OF f [OF that], where P = P])
          (use cur pbft_invD(6) [OF f [OF that]] in \<open>auto simp: P_def fresh_def sent_commits_def\<close>)
      then show "pbft_inv G K E R st1" using inv by (simp add: st1_def split: option.split)
      show "view_number st1 = view_number st" "validators st1 = validators st"
        by (simp_all add: st1_def fresh_def split: option.split)
      have "map_of (filter P (instances fresh)) ix = map_of (instances fresh) ix"
        using map_of_filter_key [of "\<lambda>jx. \<not> (ix_view_number jx < ix_view_number ix \<and> ix_sequence jx = ix_sequence ix)" "instances fresh" ix]
        by (simp add: P_def)
      then show "map_of (instances st1) ix \<noteq> None" by (simp add: st1_def fresh_def split: option.split)
    qed
    then obtain inst where i: "map_of (instances st1) ix = Some inst" by blast
    define inst1 where "inst1 = inst\<lparr>msg_buf := (msg_buf inst)[t := (msg_buf inst ! t) @ [e]]\<rparr>"
    have ok: "inst_ok K E (validators st1) R ix inst1"
      unfolding inst1_def using e Some st1(3) by (intro inst_ok_buffer [OF inst_okD [OF st1(1) i]]) (auto simp: t_def)
    have "pbft_inv G K E R (put_inst ix inst1 st1)"
      by (rule put_inst_inv [OF st1(1) i ok])
        (use pbft_invD(3) [OF st1(1) i] in \<open>auto simp: inst1_def digest_of_def node_inst_def\<close>)
    moreover have "t < length (msg_buf inst)"
      using message_index_type [OF Some] inst_okD [OF st1(1) i] by (auto simp: inst_ok_def inst_type_def t_def)
    then have "msg_buf inst1 ! t \<noteq> []" by (simp add: inst1_def)
    moreover have "CreateInstanceIfNotExist E e st = (Some ix, put_inst ix inst1 st1)"
      using False Some i unfolding CreateInstanceIfNotExist_def Let_def st1_def fresh_def P_def skip_def inst1_def t_def
      by (simp add: or_default_def)
    ultimately show ?thesis using st1 cur Some by (simp add: t_def)
  qed
qed


section \<open>Changes of view\<close>

lemma set_om_assign_subset: "set (om_assign k v m) \<subseteq> insert (k, v) (set m)"
  by (induction k v m rule: om_assign.induct) auto

lemma put_vc_inv:
  assumes inv: "pbft_inv G K E R st" and ok: "vc_ok (v, vc)"
  shows "pbft_inv G K E R (put_vc v vc st)"
  by (rule pbft_inv_core [OF inv])
    (use ok pbft_invD(6) [OF inv] set_om_assign_subset [of v vc "vc_instances st"] in
      \<open>auto simp: put_vc_def same_core_def sent_commits_def\<close>)

lemma put_vc_fields [simp]:
  "instances (put_vc v vc st) = instances st" "view_number (put_vc v vc st) = view_number st"
  "validators (put_vc v vc st) = validators st" "last_exe_seq (put_vc v vc st) = last_exe_seq st"
  "clock (put_vc v vc st) = clock st" "replica_id (put_vc v vc st) = replica_id st"
  by (simp_all add: put_vc_def)

lemma vc_filter_inv:
  "pbft_inv G K E R st \<Longrightarrow> pbft_inv G K E R (st\<lparr>vc_instances := filter P (vc_instances st)\<rparr>)"
  by (rule pbft_inv_core [of G K E R st]) (auto simp: same_core_def sent_commits_def dest: pbft_invD(6))

lemma ClearViewChanges_inv: "pbft_inv G K E R st \<Longrightarrow> pbft_inv G K E R (ClearViewChanges E' st)"
  unfolding ClearViewChanges_def erase_completed_vc_def Let_def by (intro close_saver_inv vc_filter_inv)

lemma ClearViewChanges_fields [simp]:
  "view_number (ClearViewChanges E st) = view_number st" "validators (ClearViewChanges E st) = validators st"
  by (simp_all add: ClearViewChanges_def erase_completed_vc_def Let_def)

text \<open>Entering a higher view forgets only instances of lower views.\<close>

lemma enter_view_inv:
  assumes inv: "pbft_inv G K E R st" and v: "view_number st < v"
  shows "pbft_inv G K E R ((keep_for_new_view st)\<lparr>view_number := v, view_active := True\<rparr>)"
proof (rule erase_inv [OF inv])
  show "instances ((keep_for_new_view st)\<lparr>view_number := v, view_active := True\<rparr>) =
      filter (\<lambda>(ix, inst). phase inst = PBFT_PHASE_COMMITED \<or> phase inst = PBFT_PHASE_PREPARED \<and> ix_sequence ix > last_exe_seq st) (instances st)"
    by (simp add: keep_for_new_view_def)
  fix ix i
  assume i: "map_of (instances st) ix = Some i"
  show "ix_view_number ix < view_number ((keep_for_new_view st)\<lparr>view_number := v, view_active := True\<rparr>) \<or>
      ix_sequence ix \<le> last_exe_seq ((keep_for_new_view st)\<lparr>view_number := v, view_active := True\<rparr>)"
    using pbft_invD(3) [OF inv i] v by (simp add: node_inst_def)
qed (use v pbft_invD(6) [OF inv] in \<open>auto simp: keep_for_new_view_def sent_commits_def\<close>)

lemma count_abnormal_inv: "pbft_inv G K E R st \<Longrightarrow> pbft_inv G K E R (count_abnormal st)"
  by (simp add: count_abnormal_def split: option.split)

lemma count_abnormal_fields [simp]:
  "view_number (count_abnormal st) = view_number st" "validators (count_abnormal st) = validators st"
  by (simp_all add: count_abnormal_def split: option.split)

lemma keep_for_new_view_fields [simp]:
  "view_number (keep_for_new_view st) = view_number st" "validators (keep_for_new_view st) = validators st"
  "clock (keep_for_new_view st) = clock st"
  by (simp_all add: keep_for_new_view_def)

lemma ProcessQuorumViewChange_inv:
  assumes inv: "pbft_inv G K E R st" and vc: "vc_ok (v, vc)" and v: "view_number st < v"
  shows "pbft_inv G K E R (ProcessQuorumViewChange K E v vc st)"
proof -
  have number: "vci_view_number vc = v" using vc by (simp add: vc_ok_def)
  define st1 where "st1 = count_abnormal st"
  have inv1: "pbft_inv G K E R st1" unfolding st1_def by (rule count_abnormal_inv [OF inv])
  define vc1 where "vc1 = vc\<lparr>last_newview_time := clock st1, newview := NewNewView K E vc st1\<rparr>"
  have number1: "vci_view_number vc1 = v" using number by (simp add: vc1_def)
  have ok1: "vc_ok (v, vc1)" "vc_ok (v, ChangeComplete t vc1)" for t
    using vc by (simp_all add: vc_ok_def vc1_def ChangeComplete_def)
  define st2 where "st2 = snd (SendMessage (NewNewView K E vc st1) (put_vc v vc1 st1))"
  have inv2: "pbft_inv G K E R st2"
    unfolding st2_def by (intro SendMessage_other_inv put_vc_inv inv1 ok1) simp
  have "view_number st2 < v" using v by (simp add: st2_def st1_def)
  then have "pbft_inv G K E R ((keep_for_new_view st2)\<lparr>view_number := v, view_active := True\<rparr>)"
    by (rule enter_view_inv [OF inv2])
  then show ?thesis
    using inv1 number number1 unfolding ProcessQuorumViewChange_def Let_def st1_def [symmetric]
    unfolding vc1_def [symmetric] unfolding st2_def [symmetric]
    using ok1 [unfolded vc1_def]
    by (auto simp: vc1_def [symmetric] intro!: close_saver_inv notify_inv ClearViewChanges_inv put_vc_inv)
qed


lemma OnViewChangeWithRawValue_inv:
  assumes inv: "pbft_inv G K E R st" and t: "pbft_type (pbft_of e) = PBFT_TYPE_VIEWCHANG_WITH_RAWVALUE"
  shows "pbft_inv G K E R (snd (OnViewChangeWithRawValue K E e st))"
proof -
  define raw where "raw = raw_of (pbft_of e)"
  define vcm where "vcm = view_change_of (pbft_of (or_default empty_env (view_change_env raw)))"
  define v where "v = vc_view_number vcm"
  define vc0 where "vc0 = or_default (new_PbftVcInstance (vc_sequence vcm) v (clock st)) (map_of (vc_instances st) v)"
  define vc1 where "vc1 = (if vc_replica_id vcm = replica_id st \<and> \<not> has_pbft (view_change_msg vc0)
      then vc0\<lparr>view_change_msg := e\<rparr> else vc0)"
  define vc2 where "vc2 = (if map_of (viewchanges vc1) (vc_replica_id vcm) = None
      then vc1\<lparr>vci_msg_buf := vci_msg_buf vc1 @ [e], viewchanges := om_insert (vc_replica_id vcm) vcm (viewchanges vc1)\<rparr> else vc1)"
  define vc3 where "vc3 = (case prepared_set raw of None \<Rightarrow> vc2
      | Some s \<Rightarrow> if pp_sequence (set_pre_prepare s) > pp_sequence (set_pre_prepare (pre_prepared_env_set vc2)) \<and>
          pp_sequence (set_pre_prepare s) > last_exe_seq st then vc2\<lparr>pre_prepared_env_set := s\<rparr> else vc2)"
  have "vc_ok (v, vc0)"
  proof (cases "map_of (vc_instances st) v")
    case (Some vc)
    then show ?thesis using pbft_invD(6) [OF inv map_of_SomeD] by (simp add: vc0_def or_default_def)
  qed (simp add: vc0_def or_default_def vc_ok_def new_PbftVcInstance_def empty_env_def pbft_of_def empty_pbft_def)
  then have "vc_ok (v, vc1)" using t by (auto simp: vc1_def vc_ok_def)
  then have "vc_ok (v, vc2)" by (auto simp: vc2_def vc_ok_def)
  then have ok: "vc_ok (v, vc3)" by (auto simp: vc3_def vc_ok_def split: option.split)
  have put: "pbft_inv G K E R (put_vc v vc3 st)" by (rule put_vc_inv [OF inv ok])
  have proc: "pbft_inv G K E R (ProcessQuorumViewChange K E v vc3 (put_vc v vc3 st))" if "view_number st < v"
    by (rule ProcessQuorumViewChange_inv [OF put ok]) (simp add: that)
  show ?thesis
    unfolding OnViewChangeWithRawValue_def Let_def raw_def [symmetric]
    unfolding vcm_def [symmetric] unfolding v_def [symmetric] unfolding vc0_def [symmetric]
    unfolding vc1_def [symmetric] unfolding vc2_def [symmetric] unfolding vc3_def [symmetric]
    using inv put proc by (auto intro!: close_saver_inv)
qed

lemma OnNewView_inv:
  assumes inv: "pbft_inv G K E R st"
  shows "pbft_inv G K E R (snd (OnNewView K E e st))"
proof -
  define v where "v = nv_view_number (new_view_of (pbft_of e))"
  define st1 where "st1 = st\<lparr>timers := filter (\<lambda>(i, d, s). i \<noteq> new_view_repond_timer st) (timers st)\<rparr>"
  have inv1: "pbft_inv G K E R st1" using inv by (simp add: st1_def)
  define st2 where "st2 = (keep_for_new_view st1)\<lparr>view_number := v, view_active := True\<rparr>"
  define st3 where "st3 = (case map_of (vc_instances st2) v of None \<Rightarrow> st2 | Some vc \<Rightarrow> put_vc v (ChangeComplete (clock st2) vc) st2)"
  have "pbft_inv G K E R st3" if "view_number st < v"
  proof -
    have inv2: "pbft_inv G K E R st2"
      unfolding st2_def using that by (intro enter_view_inv [OF inv1]) (simp add: st1_def)
    have "vc_ok (v, ChangeComplete (clock st2) vc)" if "map_of (vc_instances st2) v = Some vc" for vc
      using pbft_invD(6) [OF inv2 map_of_SomeD [OF that]] by (simp add: vc_ok_def ChangeComplete_def)
    then show ?thesis
      unfolding st3_def using inv2 by (auto split: option.split intro: put_vc_inv)
  qed
  then show ?thesis
    unfolding OnNewView_def Let_def v_def [symmetric]
    unfolding st1_def [symmetric] unfolding st2_def [symmetric] unfolding st3_def [symmetric]
    using inv inv1 by (auto intro!: close_saver_inv notify_inv ClearViewChanges_inv)
qed

lemma NewViewTimeout_inv:
  assumes inv: "pbft_inv G K E R st" and step: "NewViewTimeout K E i st = Some st'"
  shows "pbft_inv G K E R st'"
proof -
  have "pbft_inv G K E R (snd (SendMessage msg (st\<lparr>timers := ts\<rparr>)))" if "pbft_type (pbft_of msg) \<noteq> PBFT_TYPE_COMMIT" for ts msg
    by (rule SendMessage_other_inv) (use inv that in simp_all)
  then show ?thesis
    using step inv by (auto simp: NewViewTimeout_def Let_def dest!: type_of_view_change split: option.splits if_splits)
qed

lemma OnTxTimeout_inv:
  assumes inv: "pbft_inv G K E R st" and step: "OnTxTimeout K E st = Some st'"
  shows "pbft_inv G K E R st'"
proof -
  have "pbft_inv G K E R (snd (SendMessage msg (st\<lparr>view_active := b\<rparr>)))" if "pbft_type (pbft_of msg) \<noteq> PBFT_TYPE_COMMIT" for b msg
    by (rule SendMessage_other_inv) (use inv that in simp_all)
  then show ?thesis
    using step inv
    by (auto simp: OnTxTimeout_def Let_def dest!: type_of_view_change split: option.splits if_splits intro!: close_saver_inv)
qed

section \<open>The timer\<close>

lemma OnTxTimeout_instances [simp]: "OnTxTimeout K E st = Some st' \<Longrightarrow> instances st' = instances st"
  by (auto simp: OnTxTimeout_def Let_def close_saver_def split: option.splits if_splits)

lemma OnTxTimeout_fields:
  "OnTxTimeout K E st = Some st' \<Longrightarrow> view_number st' = view_number st \<and> validators st' = validators st"
  by (auto simp: OnTxTimeout_def Let_def split: option.splits if_splits)

text \<open>Fields of an instance the timer sets.\<close>

lemma touch_inv:
  assumes inv: "pbft_inv G K E R st" and i: "map_of (instances st) ix = Some i"
    and ok: "inst_ok K E (validators st) R ix i'" and same: "phase i' = phase i" "digest_of i' = digest_of i" "commits i' = commits i"
  shows "pbft_inv G K E R (put_inst ix i' st)"
  by (rule put_inst_inv [OF inv i ok]) (use same pbft_invD(3) [OF inv i] in \<open>auto simp: node_inst_def\<close>)

lemma SendPrepareAgain_inv:
  assumes inv: "pbft_inv G K E R st" and i: "map_of (instances st) ix = Some inst"
  shows "pbft_inv G K E R (SendPrepareAgain K E now ix inst st)"
proof -
  have ok: "inst_ok K E (validators st) R ix inst" by (rule inst_okD [OF inv i])
  then have "pbft_type (pbft_of (pre_prepare_msg inst)) \<noteq> PBFT_TYPE_COMMIT" by (simp add: inst_ok_def inst_type_def)
  then have "pbft_inv G K E R (snd (SendMessage (IncPeerMessageRound K E (pre_prepare_msg inst) n) st))" for n
    by (intro SendMessage_other_inv inv) simp
  then show ?thesis
    unfolding SendPrepareAgain_def Let_def by (rule touch_inv) (use i ok in \<open>simp_all add: digest_of_def\<close>)
qed

lemma timer_instance_inv:
  assumes inv: "pbft_inv G K E R st" and step: "timer_instance K E now ix st = Some st'"
  shows "pbft_inv G K E R st'"
proof (cases "map_of (instances st) ix")
  case None
  then show ?thesis using inv step by (simp add: timer_instance_def)
next
  case (Some inst)
  define again where "again = (\<lambda>i s. if NeedSendAgain now i \<and> view_active s \<and> has_pbft (pre_prepare_msg i)
      then SendPrepareAgain K E now ix i s else s)"
  have again: "pbft_inv G K E R (again i s)" if "pbft_inv G K E R s" "map_of (instances s) ix = Some i" for i s
    using that SendPrepareAgain_inv by (simp add: again_def)
  show ?thesis
  proof (cases "IsExpire now inst \<and> \<not> have_send_viewchange inst")
    case False
    then have "st' = again inst st" using step by (auto simp: timer_instance_def Some again_def)
    then show ?thesis using again [OF inv Some] by simp
  next
    case True
    define inst1 where "inst1 = inst\<lparr>have_send_viewchange := True\<rparr>"
    obtain s where s: "OnTxTimeout K E st = Some s" "st' = again inst1 (put_inst ix inst1 s)"
      using step True by (auto simp: timer_instance_def Some again_def inst1_def split: option.splits)
    have i: "map_of (instances s) ix = Some inst" using OnTxTimeout_instances [OF s(1)] Some by simp
    have "pbft_inv G K E R s" by (rule OnTxTimeout_inv [OF inv s(1)])
    then have "pbft_inv G K E R (put_inst ix inst1 s)"
      by (rule touch_inv [OF _ i]) (use inst_okD [OF \<open>pbft_inv G K E R s\<close> i] in \<open>simp_all add: inst1_def digest_of_def\<close>)
    then show ?thesis unfolding s(2) by (rule again) simp
  qed
qed

lemma timer_instances_inv:
  "pbft_inv G K E R st \<Longrightarrow> timer_instances K E now ixs st = Some st' \<Longrightarrow> pbft_inv G K E R st'"
  by (induction ixs arbitrary: st) (auto split: option.splits dest: timer_instance_inv)

lemma find_rev_Some: "find P (rev xs) = Some x \<Longrightarrow> x \<in> set xs \<and> P x"
  using find_Some_iff [of P "rev xs" x] nth_mem [of _ "rev xs"] by auto

lemma timer_commit_inv:
  assumes inv: "pbft_inv G K E R st" and step: "timer_commit K E now st = Some st'"
  shows "pbft_inv G K E R st'"
proof (cases "find (\<lambda>(ix, inst). phase inst \<ge> PBFT_PHASE_PREPARED) (rev (instances st))")
  case None
  then show ?thesis using inv step by (simp add: timer_commit_def)
next
  case (Some e)
  obtain ix inst where e: "e = (ix, inst)" by (cases e)
  have i: "map_of (instances st) ix = Some inst" and ph: "PBFT_PHASE_PREPARED \<le> phase inst"
    using find_rev_Some [OF Some] pbft_invD(2) [OF inv] by (auto simp: e map_of_SomeI)
  have ok: "inst_ok K E (validators st) R ix inst" by (rule inst_okD [OF inv i])
  show ?thesis
  proof (cases "check_value_result inst = CHECK_VALUE_VALID \<and> NeedSendCommitAgain now inst")
    case False
    then show ?thesis using inv step by (auto simp: timer_commit_def Some e)
  next
    case True
    obtain r p rest where p: "prepares inst = (r, p) # rest"
      using step True by (cases "prepares inst") (auto simp: timer_commit_def Some e)
    have "p_index p = ix" "p_value_digest p = digest_of inst" "PBFT_PHASE_PREPREPARED \<le> phase inst"
      using inst_prepareD [OF ok, of r p] p by simp_all
    then have "pbft_inv G K E R (snd (SendMessage (NewCommit K E p n st) st))" for n
      by (intro SendMessage_commit_inv [OF inv refl, where i = inst]) (use i in simp_all)
    then have "pbft_inv G K E R (put_inst ix (inst\<lparr>commit_round := m, last_commit_send_time := now\<rparr>)
        (snd (SendMessage (NewCommit K E p n st) st)))" for n m
      by (rule touch_inv)
        (use i inst_ok_sent [of K E "validators st" R ix "inst\<lparr>commit_round := m\<rparr>" now] ok p in \<open>simp_all add: digest_of_def\<close>)
    then show ?thesis using step True by (auto simp: timer_commit_def Some e p Let_def)
  qed
qed


lemma timer_view_changes_inv:
  "pbft_inv G K E R st \<Longrightarrow> timer_view_changes K E now vs lastvc st = Some (l, st') \<Longrightarrow> pbft_inv G K E R st'"
proof (induction vs arbitrary: lastvc st)
  case (Cons v vs)
  show ?case
  proof (cases "map_of (vc_instances st) v")
    case None
    then show ?thesis using Cons by simp
  next
    case (Some vc)
    define round where "round = next_round (view_change_round vc)"
    define vc' where "vc' = vc\<lparr>view_change_round := round, vci_last_propose_time := now\<rparr>"
    define st1 where "st1 = put_vc v vc' (snd (SendMessage (IncPeerMessageRound K E (view_change_msg vc) round) st))"
    have ok: "vc_ok (v, vc)" using pbft_invD(6) [OF Cons.prems(1) map_of_SomeD [OF Some]] .
    then have "pbft_inv G K E R (snd (SendMessage (IncPeerMessageRound K E (view_change_msg vc) round) st))"
      by (intro SendMessage_other_inv Cons.prems(1)) (simp add: vc_ok_def)
    then have "pbft_inv G K E R st1" unfolding st1_def by (rule put_vc_inv) (use ok in \<open>simp add: vc_ok_def vc'_def\<close>)
    then show ?thesis
      using Cons.prems Some Cons.IH [of st1] Cons.IH [of st]
      by (auto simp: Let_def round_def [symmetric] vc'_def [symmetric] st1_def [symmetric] split: if_splits prod.splits)
  qed
qed simp

lemma SendNewViewAgain_inv:
  assumes inv: "pbft_inv G K E R st"
  shows "pbft_inv G K E R (SendNewViewAgain K E now v st)"
proof (cases "map_of (vc_instances st) v")
  case (Some vc)
  have "vc_ok (v, vc)" using pbft_invD(6) [OF inv map_of_SomeD [OF Some]] .
  then show ?thesis
    unfolding SendNewViewAgain_def Let_def Some by (auto simp: vc_ok_def intro!: SendMessage_other_inv put_vc_inv inv)
qed (use inv in \<open>simp add: SendNewViewAgain_def\<close>)

lemma OnTimer_inv:
  assumes inv: "pbft_inv G K E R st" and step: "OnTimer K E now st = Some st'"
  shows "pbft_inv G K E R st'"
proof -
  obtain st1 st2 l st3 where
    s: "timer_instances K E now (map fst (instances st)) st = Some st1" "timer_commit K E now st1 = Some st2"
      "timer_view_changes K E now (map fst (vc_instances st2)) None st2 = Some (l, st3)"
      "st' = (case l of None \<Rightarrow> st3 | Some v \<Rightarrow> SendNewViewAgain K E now v st3)"
    using step by (auto simp: OnTimer_def split: option.splits)
  have "pbft_inv G K E R st3"
    using timer_view_changes_inv [OF timer_commit_inv [OF timer_instances_inv [OF inv s(1)] s(2)] s(3)] .
  then show ?thesis using SendNewViewAgain_inv unfolding s(4) by (simp split: option.split)
qed

section \<open>Receiving\<close>

lemma OnRecv_inv:
  assumes inv: "pbft_inv G K E R st" and step: "OnRecv K E check msg st = Some (r, st')"
    and mono: "view_number st \<le> view_number st'"
  shows "pbft_inv G K E (insert (cm_pbft_env msg) R) st'"
proof -
  define e where "e = cm_pbft_env msg"
  define S where "S = insert e R"
  have inv': "pbft_inv G K E S st" using pbft_inv_mono [OF inv] by (auto simp: S_def)
  have eS: "e \<in> S" by (simp add: S_def)
  show ?thesis
  proof (cases "cm_type msg = lit ''pbft'' \<and> CheckMessageItem K E (validators st) e")
    case False
    then have "st' = st" using step by (auto simp: OnRecv_def Let_def e_def split: if_splits)
    then show ?thesis using inv' by (simp add: e_def S_def)
  next
    case ok: True
    define c where "c = CreateInstanceIfNotExist E e st"
    consider (three) "pbft_type (pbft_of e) \<in> {PBFT_TYPE_PREPREPARE, PBFT_TYPE_PREPARE, PBFT_TYPE_COMMIT}"
      | (vc) "pbft_type (pbft_of e) = PBFT_TYPE_VIEWCHANG_WITH_RAWVALUE"
      | (nv) "pbft_type (pbft_of e) = PBFT_TYPE_NEWVIEW"
      | (rest) "pbft_type (pbft_of e) = PBFT_TYPE_VIEWCHANGE \<or> (\<exists>n. pbft_type (pbft_of e) = PBFT_TYPE_OTHER n)"
      by (cases "pbft_type (pbft_of e)") auto
    then show ?thesis
    proof cases
      case three
      define ret where "ret = (if pbft_type (pbft_of e) = PBFT_TYPE_PREPREPARE then check (pp_value (pre_prepare_of (pbft_of e))) else CHECK_VALUE_VALID)"
      have go: "(case fst c of None \<Rightarrow> Some (False, snd c) | Some ix \<Rightarrow> Go K E e ix ret (snd c)) = Some (r, st')"
        using step ok three by (auto simp: OnRecv_def Let_def e_def [symmetric] c_def [symmetric] ret_def [symmetric])
      note create = CreateInstance_inv [OF inv' eS conjunct2 [OF ok], folded c_def]
      show ?thesis
      proof (cases "fst c")
        case None
        then have "snd c = st'" using go by simp
        then show ?thesis using create mono by (simp add: S_def e_def)
      next
        case (Some ix)
        have "view_number (snd c) = view_number st"
          using Some unfolding c_def CreateInstanceIfNotExist_def Let_def
          by (auto simp: put_inst_def split: option.splits if_splits)
        then obtain inst where c1: "pbft_inv G K E S (snd c)" and i: "map_of (instances (snd c)) ix = Some inst"
            "ix_view_number ix = view_number (snd c)" "message_index (pbft_of e) = Some ix"
            "msg_buf inst ! nat (type_number (pbft_type (pbft_of e))) \<noteq> []" "validators (snd c) = validators st"
          using create Some by auto
        have "buffered K E (validators (snd c)) S ix (nat (type_number (pbft_type (pbft_of e)))) e"
          using buffered_message [OF i(3) eS] ok i(5) by simp
        then show ?thesis
          using Go_inv [OF c1 i(1,2) _ i(4)] go Some by (auto simp: S_def e_def)
      qed
    next
      case vc
      then show ?thesis
        using step ok OnViewChangeWithRawValue_inv [OF inv' vc]
        by (auto simp: OnRecv_def Let_def e_def [symmetric] S_def [symmetric])
    next
      case nv
      then show ?thesis
        using step ok OnNewView_inv [OF inv', of e]
        by (auto simp: OnRecv_def Let_def e_def [symmetric] S_def [symmetric])
    next
      case rest
      then show ?thesis
        using step ok inv' by (auto simp: OnRecv_def Let_def e_def [symmetric] S_def [symmetric])
    qed
  qed
qed


section \<open>Proposals and new validators\<close>

text \<open>No commit has been sent in the present view for a sequence that is still to be executed.\<close>

definition no_open_commit :: "PbftState \<Rightarrow> bool" where
  "no_open_commit st \<longleftrightarrow> list_all (\<lambda>n. case n of
       SendConsensusMessage e \<Rightarrow> pbft_type (pbft_of e) = PBFT_TYPE_COMMIT \<longrightarrow>
         c_view_number (commit_of (pbft_of e)) = view_number st \<longrightarrow> c_sequence (commit_of (pbft_of e)) \<le> last_exe_seq st
     | _ \<Rightarrow> True) (outputs st)"

lemma no_open_commitD:
  "no_open_commit st \<Longrightarrow> c \<in> sent_commits st \<Longrightarrow> c_view_number c = view_number st \<Longrightarrow> c_sequence c \<le> last_exe_seq st"
  unfolding no_open_commit_def list_all_iff sent_commits_def by fastforce

lemma clear_inv:
  assumes inv: "pbft_inv G K E R st" and v: "view_number st \<le> v" and n: "last_exe_seq st \<le> n"
    and keep: "G \<Longrightarrow> filter P (instances st) = instances st \<or>
      (\<forall>c \<in> sent_commits st. c_view_number c = v \<longrightarrow> c_sequence c \<le> n)"
  shows "pbft_inv G K E R (st\<lparr>last_exe_seq := n, instances := filter P (instances st), view_number := v\<rparr>)"
proof (rule erase_inv [OF inv, where P = P])
  fix ix i
  assume G and ix: "ix \<in> c_index ` sent_commits st" and i: "map_of (instances st) ix = Some i" "\<not> P (ix, i)"
  then have "filter P (instances st) \<noteq> instances st"
    using map_of_SomeD [OF i(1)] by (auto simp: filter_id_conv)
  moreover obtain c where c: "c \<in> sent_commits st" "ix = c_index c" using ix by blast
  moreover have "c_view_number c \<le> view_number st" using pbft_invD(4) [OF inv \<open>G\<close> c(1)] by (simp add: commit_settled_def)
  ultimately show "ix_view_number ix < view_number (st\<lparr>last_exe_seq := n, instances := filter P (instances st), view_number := v\<rparr>) \<or>
      ix_sequence ix \<le> last_exe_seq (st\<lparr>last_exe_seq := n, instances := filter P (instances st), view_number := v\<rparr>)"
    using keep [OF \<open>G\<close>] v by (cases "c_view_number c = v") (auto simp: c_index_def)
qed (use v n pbft_invD(6) [OF inv] in \<open>auto simp: sent_commits_def\<close>)

lemma Request_inv:
  assumes inv: "pbft_inv G K E R st" and step: "Request K E v st = Some (r, st')"
    and idle: "G \<Longrightarrow> instances st' = instances st \<or> no_open_commit st"
    and ckp: "0 < ckp_interval st"
  shows "pbft_inv G K E R st'"
proof -
  define st1 where "st1 = st\<lparr>instances := filter (\<lambda>(ix, inst). \<not> (ix_sequence ix > last_exe_seq st \<and> phase inst < PBFT_PHASE_COMMITED)) (instances st)\<rparr>"
  define ix where "ix = PbftInstanceIndex (view_number st) (last_exe_seq st + 1)"
  define env where "env = NewPrePrepare K E v (last_exe_seq st + 1) st1"
  define fresh where "fresh = new_PbftInstance (clock st)"
  define j where "j = fresh\<lparr>pre_prepare_msg := env, phase := PBFT_PHASE_PREPREPARED,
      inst_pre_prepare := pre_prepare_of (pbft_of env), msg_buf := (msg_buf fresh)[0 := [env]]\<rparr>"
  have m: "message_index (pbft_of env) = Some ix" "pre_prepare_of (pbft_of env) =
      \<lparr>pp_view_number = view_number st, pp_sequence = last_exe_seq st + 1, pp_replica_id = replica_id st, pp_value = v, pp_value_digest = Crypto K v\<rparr>"
      "pbft_type (pbft_of env) = PBFT_TYPE_PREPREPARE"
    by (simp_all add: env_def NewPrePrepare_def message_index_def pre_prepare_of_def or_default_def ix_def st1_def)
  have "inst_type K E (validators st1) R ix j"
  proof -
    have "msg_buf j ! t = (if t = 0 then [env] else [])" if "t < 4" for t
      using that by (simp add: j_def fresh_def new_PbftInstance_def nth_list_update)
    then show ?thesis using m by (simp add: inst_type_def buffered_def) (simp add: j_def fresh_def new_PbftInstance_def m)
  qed
  then have ok: "inst_ok K E (validators st1) R ix j"
    by (simp add: inst_ok_def inst_votes_def inst_phase_def digest_of_def om_simps j_def fresh_def new_PbftInstance_def m)
  have cases: "st' = st \<or> st' = snd (SendMessage env (put_inst ix j st1))"
    using step by (auto simp: Request_def Let_def st1_def env_def fresh_def j_def ix_def split: if_splits)
  show ?thesis
  proof (cases "instances st' = instances st")
    case True
    then have "same_core st st'"
      using cases by (auto simp: same_core_def sent_commits_SendMessage m st1_def) (simp_all add: sent_commits_def)
    moreover have "vc_instances st' = vc_instances st" using cases by (auto simp: st1_def)
    ultimately show ?thesis using pbft_inv_core [OF inv] pbft_invD(6) [OF inv] by simp
  next
    case False
    then have idle': "no_open_commit st" if G using idle [OF that] by simp
    have sent1: "sent_commits st1 = sent_commits st" by (simp add: st1_def sent_commits_def)
    have inv1: "pbft_inv G K E R st1"
      using clear_inv [OF inv, of "view_number st" "last_exe_seq st"] no_open_commitD [OF idle'] by (simp add: st1_def)
    have "ix \<notin> c_index ` sent_commits st1" if G
      using no_open_commitD [OF idle' [OF that]] by (fastforce simp: sent1 ix_def c_index_def)
    then have "pbft_inv G K E R (put_inst ix j st1)"
      by (rule replace_inst_inv [OF inv1 _ _ _ ok])
        (use ckp in \<open>simp_all add: ix_def st1_def j_def fresh_def new_PbftInstance_def\<close>)
    then have "pbft_inv G K E R (snd (SendMessage env (put_inst ix j st1)))"
      by (rule SendMessage_other_inv) (simp add: m)
    then show ?thesis using cases False by auto
  qed
qed

lemma UpdateValidators_inv:
  assumes inv: "pbft_inv G K E R st" and step: "UpdateValidators K E as proof st = Some (r, st')"
    and same: "\<not> validators_differ as (validators st)"
    and keep: "G \<Longrightarrow> instances st' = instances st \<or> no_open_commit st'"
  shows "pbft_inv G K E R st'"
proof -
  define cleared where "cleared = (\<lambda>v n. st\<lparr>last_exe_seq := n,
      instances := filter (\<lambda>(ix, inst). \<not> phase inst < PBFT_PHASE_COMMITED) (instances st), view_number := v\<rparr>)"
  define vn where "vn = (if proof = [] then Some (0, - 1)
      else case parse_proof E proof of None \<Rightarrow> None | Some [] \<Rightarrow> Some (- 1, - 1)
        | Some (env # _) \<Rightarrow> let c = commit_of (pbft_of env) in
            Some (if c_view_number c \<ge> view_number st then c_view_number c + 1 else - 1,
                  if c_sequence c > last_exe_seq st then c_sequence c else (- 1 :: int)))"
  consider "vn = None" | v n where "vn = Some (v, n)" "v > 0 \<longrightarrow> view_number st < v" "n > 0 \<longrightarrow> last_exe_seq st < n"
    by (cases "vn") (auto simp: vn_def Let_def split: if_splits option.splits list.splits)
  then show ?thesis
  proof cases
    case 1
    then have "st' = st" using step by (simp add: UpdateValidators_def vn_def [symmetric])
    then show ?thesis using inv by simp
  next
    case (2 v n)
    define v' where "v' = (if v > 0 then v else view_number st)"
    define n' where "n' = (if n > 0 then n else last_exe_seq st)"
    show ?thesis
    proof (cases "v > 0 \<or> n > 0")
      case False
      then have "\<exists>s. st' = close_saver s st"
        using step same by (auto simp: UpdateValidators_def vn_def [symmetric] 2)
      then show ?thesis using inv close_saver_inv by auto
    next
      case True
      have eq: "\<exists>s. st' = close_saver s (notify OnResetCloseTimer (erase_completed_vc ((cleared v' n')\<lparr>view_active := True\<rparr>)))"
        using step same True
        by (auto simp: UpdateValidators_def vn_def [symmetric] 2 v'_def n'_def cleared_def ClearNotCommitedInstance_def Let_def split: if_splits)
      then have st': "view_number st' = v'" "last_exe_seq st' = n'" "sent_commits st' = sent_commits st"
          "instances st' = filter (\<lambda>(ix, inst). \<not> phase inst < PBFT_PHASE_COMMITED) (instances st)"
        by (auto simp: erase_completed_vc_def cleared_def close_saver_def notify_def sent_commits_def)
      have "pbft_inv G K E R (cleared v' n')"
        unfolding cleared_def
      proof (rule clear_inv [OF inv])
        show "filter (\<lambda>(ix, inst). \<not> phase inst < PBFT_PHASE_COMMITED) (instances st) = instances st \<or>
            (\<forall>c \<in> sent_commits st. c_view_number c = v' \<longrightarrow> c_sequence c \<le> n')" if G
          using keep [OF that] no_open_commitD [of st'] st' by auto
      qed (use 2 in \<open>auto simp: v'_def n'_def\<close>)
      then have "pbft_inv G K E R (erase_completed_vc ((cleared v' n')\<lparr>view_active := True\<rparr>))"
        unfolding erase_completed_vc_def by (intro vc_filter_inv) simp
      then show ?thesis using eq by (auto intro!: close_saver_inv notify_inv)
    qed
  qed
qed

end
