(* ===== verification/Pbft_Thms.thy ===== *)
theory Pbft_Thms
  imports Pbft_Steps
begin

text \<open>
  What the consensus guarantees. \<open>pbft_run\<close> is the step relation of a node between two changes of
  its validators; its rules are the calls the rest of the program makes. The agreement of correct
  replicas rests on the quorum arithmetic through the interpretation \<open>pbft_quorum\<close>.
\<close>

section \<open>Runs\<close>

datatype input =
  Recv "cstring \<Rightarrow> CheckValueResult" ConsensusMsg
| Timer_check int
| Close_timeout
| View_timeout int
| Propose cstring
| Ledger_closed "cstring list" cstring
| Clock_tick int

fun received :: "input \<Rightarrow> PbftEnv set" where
  "received (Recv check msg) = {cm_pbft_env msg}"
| "received _ = {}"

fun apply_input :: "keys \<Rightarrow> codec \<Rightarrow> input \<Rightarrow> PbftState \<Rightarrow> PbftState option" where
  "apply_input K E (Recv check msg) st = map_option snd (OnRecv K E check msg st)"
| "apply_input K E (Timer_check now) st = OnTimer K E now st"
| "apply_input K E Close_timeout st = OnTxTimeout K E st"
| "apply_input K E (View_timeout i) st = NewViewTimeout K E i st"
| "apply_input K E (Propose v) st = map_option snd (Request K E v st)"
| "apply_input K E (Ledger_closed as proof) st = map_option snd (UpdateValidators K E as proof st)"
| "apply_input K E (Clock_tick now) st = Some (st\<lparr>clock := now\<rparr>)"

text \<open>
  Every run is one between two changes of the validators in which the view number does not fall
  (\<open>allowed\<close>). A trace-out can lower it, see \<open>trace_out_lowers_view\<close>.
\<close>

fun allowed :: "input \<Rightarrow> PbftState \<Rightarrow> PbftState \<Rightarrow> bool" where
  "allowed (Recv check msg) st st' = (view_number st \<le> view_number st')"
| "allowed (Ledger_closed as proof) st st' = (\<not> validators_differ as (validators st))"
| "allowed _ st st' = True"

text \<open>
  A careful run moreover makes the node forget no commit: it proposes a value, and takes over a
  ledger that was closed elsewhere, only when it has sent no commit in its view for a sequence
  still to be executed, or else no instance is dropped. The code does not see to this:
  \<open>Request\<close> drops the instances above the executed sequence whatever has been sent for them, and
  \<open>reproposal_splits\<close> below shows where that leads. Restarts, which forget all commits, are steps
  of careless runs only.
\<close>

fun careful :: "input \<Rightarrow> PbftState \<Rightarrow> PbftState \<Rightarrow> bool" where
  "careful (Propose v) st st' = (instances st' = instances st \<or> no_open_commit st)"
| "careful (Ledger_closed as proof) st st' = (instances st' = instances st \<or> no_open_commit st')"
| "careful _ st st' = True"

definition started :: "keys \<Rightarrow> cstring list \<Rightarrow> db \<Rightarrow> int \<Rightarrow> int \<Rightarrow> bool \<Rightarrow> PbftState" where
  "started K as d now view active =
     (UpdateValidators_base K as (new_Pbft d now))\<lparr>view_number := view, view_active := active\<rparr>"

inductive pbft_run :: "bool \<Rightarrow> keys \<Rightarrow> codec \<Rightarrow> cstring list \<Rightarrow> PbftEnv set \<Rightarrow> PbftState \<Rightarrow> bool"
  for G K E as where
  start: "pbft_run G K E as {} (started K as d now view active)"
| step: "pbft_run G K E as R st \<Longrightarrow> apply_input K E inp st = Some st' \<Longrightarrow> allowed inp st st' \<Longrightarrow> G \<longrightarrow> careful inp st st' \<Longrightarrow>
         pbft_run G K E as (received inp \<union> R) st'"
| restart: "pbft_run G K E as R st \<Longrightarrow> \<not> G \<Longrightarrow> pbft_run G K E as R (started K as d now view active)"

lemma started_inv: "pbft_inv G K E R (started K as d now view active)"
  by (simp add: pbft_inv_def started_def UpdateValidators_base_def new_Pbft_def Let_def om_simps sent_commits_def unique_digests_def)

section \<open>What stays fixed in a run\<close>

lemma execute_walk_fixed: "replica_id (execute_walk E todo st) = replica_id st \<and> ckp_interval (execute_walk E todo st) = ckp_interval st"
  by (induction todo arbitrary: st) (auto simp: execute_one_def Let_def notify_def)

definition fixed :: "PbftState \<Rightarrow> PbftState \<Rightarrow> bool" where
  "fixed st st' \<longleftrightarrow> validators st' = validators st \<and> ckp_interval st' = ckp_interval st"

lemma fixed_trans: "fixed a b \<Longrightarrow> fixed b c \<Longrightarrow> fixed a c"
  by (simp add: fixed_def)

lemma fixed_simps [simp]:
  "fixed st st" "fixed a (put_inst ix i st) = fixed a st" "fixed a (snd (SendMessage e st)) = fixed a st"
  "fixed a (notify n st) = fixed a st" "fixed a (close_saver s st) = fixed a st" "fixed a (put_vc v vc st) = fixed a st"
  by (simp_all add: fixed_def notify_def close_saver_def put_vc_def)

lemma fixed_SendMessage: "SendMessage e st = (r, st') \<Longrightarrow> fixed a st' = fixed a st"
  using fixed_simps(3) [of a e st] by simp

lemma fixed_execute: "fixed a (execute_walk E todo st) = fixed a st"
  using execute_walk_fixed [of E todo st] by (simp add: fixed_def)

lemma fixed_dispatch: "fixed st (snd (dispatch K E m ix inst check b st))"
  by (cases "pbft_type m")
    (simp_all add: dispatch_def OnPrePrepare_def OnPrepare_def OnCommit_def TryExecuteValue_def Let_def fixed_execute)

lemma fixed_go_loop: "go_loop K E check ix b st = Some (r, st') \<Longrightarrow> fixed st st'"
proof (induction K E check ix b st rule: go_loop.induct)
  case (1 K E check ix b st)
  show ?case
  proof (cases "map_of (instances st) ix")
    case None
    then show ?thesis using "1.prems" by (subst (asm) go_loop.simps) simp
  next
    case (Some inst)
    define inst1 where "inst1 = inst\<lparr>phase_item := phase_item inst + 1\<rparr>"
    define step where "step = dispatch K E (pbft_of (msg_buf inst ! phase_number (phase inst) ! phase_item inst)) ix inst1 check b (put_inst ix inst1 st)"
    have "fixed st (snd step)"
      using fixed_dispatch [of "put_inst ix inst1 st"] by (simp add: step_def fixed_def)
    moreover have "go_loop K E check ix b st =
        (if phase_item inst < length (msg_buf inst ! phase_number (phase inst))
         then go_loop K E check ix (fst step) (snd step) else Some (b, st))"
      by (subst go_loop.simps) (simp add: Some Let_def step_def inst1_def)
    ultimately show ?thesis
      using "1.prems" "1.IH" [OF Some refl _ inst1_def step_def] fixed_trans by (auto split: if_splits)
  qed
qed

lemma fixed_Go: "Go K E e ix check st = Some (r, st') \<Longrightarrow> fixed st st'"
  by (auto simp: Go_def fixed_dispatch split: option.splits if_splits dest: fixed_go_loop)

lemma fixed_TryDoTraceOut: "fixed st (TryDoTraceOut E ix i st)"
  by (simp add: TryDoTraceOut_def Let_def) (simp add: fixed_def)

lemma fixed_TraceOut: "fixed st (snd (TraceOutPbftCommit E e st))"
proof -
  have "fixed st (TryDoTraceOut E ix i (st\<lparr>out_pbft_instances := m\<rparr>))" for ix i m
    using fixed_TryDoTraceOut [of "st\<lparr>out_pbft_instances := m\<rparr>"] by (simp add: fixed_def)
  then show ?thesis
    by (auto simp: TraceOutPbftCommit_def OnCommit_def TryExecuteValue_def fixed_execute Let_def split: option.split)
      (simp add: fixed_def)
qed

lemma fixed_Create: "fixed st (snd (CreateInstanceIfNotExist E e st))"
  using fixed_TraceOut [of st E e]
  by (auto simp: CreateInstanceIfNotExist_def Let_def split: option.split) (simp add: fixed_def put_inst_def)

lemma fixed_clear: "fixed a (ClearViewChanges E st) = fixed a st" "fixed a (count_abnormal st) = fixed a st"
  "fixed a (keep_for_new_view st) = fixed a st" "fixed a (erase_completed_vc st) = fixed a st"
  by (simp_all add: fixed_def ClearViewChanges_def erase_completed_vc_def close_saver_def count_abnormal_def keep_for_new_view_def
      Let_def split: option.split)

lemma fixed_fields [simp]:
  "fixed a (st\<lparr>view_number := v\<rparr>) = fixed a st" "fixed a (st\<lparr>view_active := b\<rparr>) = fixed a st"
  "fixed a (st\<lparr>timers := ts\<rparr>) = fixed a st" "fixed a (st\<lparr>new_view_repond_timer := n\<rparr>) = fixed a st"
  "fixed a (st\<lparr>next_timer := n\<rparr>) = fixed a st" "fixed a (st\<lparr>clock := n\<rparr>) = fixed a st"
  "fixed a (st\<lparr>last_exe_seq := n\<rparr>) = fixed a st" "fixed a (st\<lparr>instances := m\<rparr>) = fixed a st"
  by (simp_all add: fixed_def)

lemma fixed_vc: "fixed a (snd (OnViewChangeWithRawValue K E e st)) = fixed a st"
  by (simp add: OnViewChangeWithRawValue_def ProcessQuorumViewChange_def Let_def fixed_clear)

lemma fixed_nv: "fixed a (snd (OnNewView K E e st)) = fixed a st"
  by (simp add: OnNewView_def Let_def fixed_clear split: option.split)

lemma fixed_OnRecv: "OnRecv K E check msg st = Some (r, st') \<Longrightarrow> fixed st st'"
  using fixed_Create [of st E "cm_pbft_env msg"] fixed_vc [of st K E "cm_pbft_env msg" st] fixed_nv [of st K E "cm_pbft_env msg" st]
  by (auto simp: OnRecv_def Let_def split: if_splits option.splits dest!: fixed_Go intro: fixed_trans)


lemma fixed_OnTxTimeout: "OnTxTimeout K E st = Some st' \<Longrightarrow> fixed a st' = fixed a st"
  by (auto simp: OnTxTimeout_def Let_def split: option.splits if_splits)

lemma fixed_NewViewTimeout: "NewViewTimeout K E i st = Some st' \<Longrightarrow> fixed st st'"
  by (auto simp: NewViewTimeout_def Let_def split: option.splits if_splits)

lemma fixed_timer_instance: "timer_instance K E now ix st = Some st' \<Longrightarrow> fixed a st' = fixed a st"
  by (auto simp: timer_instance_def SendPrepareAgain_def Let_def fixed_OnTxTimeout split: option.splits if_splits)

lemma fixed_timer_instances: "timer_instances K E now ixs st = Some st' \<Longrightarrow> fixed a st' = fixed a st"
  by (induction ixs arbitrary: st) (auto simp: fixed_timer_instance split: option.splits)

lemma fixed_timer_commit: "timer_commit K E now st = Some st' \<Longrightarrow> fixed a st' = fixed a st"
  by (auto simp: timer_commit_def Let_def split: option.splits if_splits list.splits prod.splits)

lemma fixed_timer_vc: "timer_view_changes K E now vs l st = Some (l', st') \<Longrightarrow> fixed a st' = fixed a st"
  by (induction vs arbitrary: l st) (auto simp: Let_def split: option.splits if_splits prod.splits)

lemma fixed_OnTimer: "OnTimer K E now st = Some st' \<Longrightarrow> fixed st st'"
  using fixed_timer_instances [where a = st] fixed_timer_commit [where a = st] fixed_timer_vc [where a = st]
  by (fastforce simp: OnTimer_def SendNewViewAgain_def Let_def split: option.splits)

lemma fixed_Request: "Request K E v st = Some (r, st') \<Longrightarrow> fixed st st'"
  by (auto simp: Request_def Let_def fixed_SendMessage split: if_splits)

lemma fixed_UpdateValidators:
  "\<not> validators_differ as (validators st) \<Longrightarrow> UpdateValidators K E as proof st = Some (r, st') \<Longrightarrow> fixed st st'"
  by (auto simp: UpdateValidators_def ClearNotCommitedInstance_def fixed_clear Let_def split: option.splits if_splits prod.splits)

lemma apply_input_fixed: "apply_input K E inp st = Some st' \<Longrightarrow> allowed inp st st' \<Longrightarrow> fixed st st'"
  by (cases inp)
    (auto dest: fixed_OnRecv fixed_OnTimer fixed_NewViewTimeout fixed_Request fixed_UpdateValidators simp: fixed_OnTxTimeout)

lemma apply_input_inv:
  assumes "pbft_inv G K E R st" and "0 < ckp_interval st" and "apply_input K E inp st = Some st'" and "allowed inp st st'"
    and "G \<longrightarrow> careful inp st st'"
  shows "pbft_inv G K E (received inp \<union> R) st'"
  using assms
  by (cases inp)
    (auto intro: OnRecv_inv OnTimer_inv OnTxTimeout_inv NewViewTimeout_inv Request_inv UpdateValidators_inv)

lemma pbft_run_inv:
  assumes "pbft_run G K E as R st"
  shows "pbft_inv G K E R st \<and> validators st = index_validators as 0 [] \<and> 0 < ckp_interval st"
  using assms
proof (induction rule: pbft_run.induct)
  case (step R st inp st')
  then show ?case
    using apply_input_inv [of G K E R st inp st'] apply_input_fixed [of K E inp st st'] by (simp add: fixed_def)
qed (use started_inv in \<open>simp_all add: started_def UpdateValidators_base_def new_Pbft_def Let_def\<close>)

lemma run_unique:
  assumes "pbft_run True K E as R st" and "c \<in> sent_commits st" and "d \<in> sent_commits st" and "c_index c = c_index d"
  shows "c_value_digest c = c_value_digest d"
proof -
  have "pbft_inv True K E R st" using pbft_run_inv [OF assms(1)] by blast
  from unique_digestsD [OF pbft_invD(5) [OF this TrueI] assms(2-4)] show ?thesis .
qed

text \<open>A run given by its inputs, for evaluation.\<close>

fun run_inputs :: "bool \<Rightarrow> keys \<Rightarrow> codec \<Rightarrow> input list \<Rightarrow> PbftState \<Rightarrow> PbftState option" where
  "run_inputs G K E [] st = Some st"
| "run_inputs G K E (inp # inps) st =
     (case apply_input K E inp st of None \<Rightarrow> None
      | Some st' \<Rightarrow> if allowed inp st st' \<and> (G \<longrightarrow> careful inp st st') then run_inputs G K E inps st' else None)"

lemma run_inputs_run:
  "pbft_run G K E as R st \<Longrightarrow> run_inputs G K E inps st = Some st' \<Longrightarrow> pbft_run G K E as (\<Union> (received ` set inps) \<union> R) st'"
proof (induction inps arbitrary: R st)
  case (Cons inp inps)
  obtain st1 where s: "apply_input K E inp st = Some st1" "allowed inp st st1" "G \<longrightarrow> careful inp st st1" "run_inputs G K E inps st1 = Some st'"
    using Cons.prems(2) by (auto split: option.splits if_splits)
  show ?case using Cons.IH [OF pbft_run.step [OF Cons.prems(1) s(1-3)] s(4)] by (simp add: Un_assoc Un_commute Un_left_commute)
qed simp

section \<open>Who signed a message\<close>

text \<open>The replica a message names as its sender.\<close>

definition message_replica :: "Pbft \<Rightarrow> int option" where
  "message_replica m =
     (case pbft_type m of
        PBFT_TYPE_PREPREPARE \<Rightarrow> map_option pp_replica_id (pre_prepare m)
      | PBFT_TYPE_PREPARE \<Rightarrow> map_option p_replica_id (prepare m)
      | PBFT_TYPE_COMMIT \<Rightarrow> map_option c_replica_id (commit m)
      | PBFT_TYPE_VIEWCHANGE \<Rightarrow> map_option vc_replica_id (view_change m)
      | PBFT_TYPE_NEWVIEW \<Rightarrow> map_option nv_replica_id (new_view m)
      | PBFT_TYPE_VIEWCHANG_WITH_RAWVALUE \<Rightarrow>
          map_option (\<lambda>raw. vc_replica_id (view_change_of (pbft_of (or_default empty_env (view_change_env raw)))))
            (view_change_with_rawvalue m)
      | PBFT_TYPE_OTHER n \<Rightarrow> None)"

lemma CheckMessageItem_iff:
  "CheckMessageItem K E vs e \<longleftrightarrow>
     chain_id (pbft_of e) = self_chain_id E \<and>
     (\<exists>i \<ge> 0. map_of vs (Address_of K (public_key (signature e))) = Some i \<and> message_replica (pbft_of e) = Some i) \<and>
     Verify K (ser_pbft E (pbft_of e)) (sign_data (signature e)) (public_key (signature e)) \<and>
     (pbft_type (pbft_of e) = PBFT_TYPE_VIEWCHANG_WITH_RAWVALUE \<longrightarrow>
        (\<exists>raw. view_change_with_rawvalue (pbft_of e) = Some raw \<and> CheckViewChangeWithRawValue K E vs raw))"
proof (cases "map_of vs (Address_of K (public_key (signature e)))")
  case None
  then show ?thesis by (subst CheckMessageItem.simps) (simp add: GetValidatorIndex_def Let_def)
next
  case (Some i)
  then show ?thesis
    by (subst CheckMessageItem.simps, cases "pbft_type (pbft_of e)")
      (auto simp: GetValidatorIndex_def Let_def message_replica_def split: option.splits)
qed

lemma commit_sender:
  "CheckMessageItem K E vs e \<Longrightarrow> pbft_type (pbft_of e) = PBFT_TYPE_COMMIT \<Longrightarrow>
   map_of vs (Address_of K (public_key (signature e))) = Some (c_replica_id (commit_of (pbft_of e)))"
  by (auto simp: CheckMessageItem_iff message_replica_def commit_of_def or_default_def)

lemma accepted_commit_sender:
  assumes "accepted_commit K E vs R c"
  shows "\<exists>e \<in> R. commit_of (pbft_of e) = c \<and> CheckMessageItem K E vs e \<and> pbft_type (pbft_of e) = PBFT_TYPE_COMMIT \<and>
    map_of vs (Address_of K (public_key (signature e))) = Some (c_replica_id c)"
  using assms commit_sender unfolding accepted_commit_def by blast

section \<open>Committed means a quorum\<close>

definition commit_signers :: "keys \<Rightarrow> codec \<Rightarrow> ValidatorMap \<Rightarrow> PbftEnv set \<Rightarrow> PbftInstanceIndex \<Rightarrow> cstring \<Rightarrow> cstring set" where
  "commit_signers K E vs R ix d =
     {Address_of K (public_key (signature e)) |e. e \<in> R \<and> CheckMessageItem K E vs e \<and>
        pbft_type (pbft_of e) = PBFT_TYPE_COMMIT \<and> c_index (commit_of (pbft_of e)) = ix \<and> c_value_digest (commit_of (pbft_of e)) = d}"

lemma commit_signers_validators: "commit_signers K E vs R ix d \<subseteq> dom (map_of vs)"
  by (auto simp: commit_signers_def CheckMessageItem_iff)

lemma committed_signers:
  assumes ok: "inst_ok K E vs R ix i" and com: "phase i = PBFT_PHASE_COMMITED"
  shows "quorum_size (length vs) + 1 \<le> card (commit_signers K E vs R ix (digest_of i))"
proof -
  let ?S = "commit_signers K E vs R ix (digest_of i)"
  have "quorum_size (length vs) + 1 \<le> length (commits i)"
    using ok com by (simp add: inst_ok_def inst_phase_def)
  also have "length (commits i) = card (fst ` set (commits i))"
    using ok distinct_card [OF om_sorted_distinct, of "commits i"] by (simp add: inst_ok_def inst_votes_def)
  also have "\<dots> \<le> card ((\<lambda>a. the (map_of vs a)) ` ?S)"
  proof (rule card_mono)
    show "finite ((\<lambda>a. the (map_of vs a)) ` ?S)"
      using finite_subset [OF commit_signers_validators finite_dom_map_of] by blast
    show "fst ` set (commits i) \<subseteq> (\<lambda>a. the (map_of vs a)) ` ?S"
    proof
      fix r
      assume "r \<in> fst ` set (commits i)"
      then obtain c where c: "(r, c) \<in> set (commits i)" by auto
      note d = inst_commitD [OF ok c]
      obtain e where "e \<in> R" "commit_of (pbft_of e) = c" "CheckMessageItem K E vs e" "pbft_type (pbft_of e) = PBFT_TYPE_COMMIT"
          "map_of vs (Address_of K (public_key (signature e))) = Some r"
        using accepted_commit_sender [OF d(4)] d(1) by auto
      then show "r \<in> (\<lambda>a. the (map_of vs a)) ` ?S"
        using d by (intro image_eqI [of _ _ "Address_of K (public_key (signature e))"]) (auto simp: commit_signers_def)
    qed
  qed
  also have "\<dots> \<le> card ?S"
    by (rule card_image_le) (use finite_subset [OF commit_signers_validators finite_dom_map_of] in blast)
  finally show ?thesis .
qed

text \<open>
  Claim C15. In every run of a node, careful or not, restarts included, while its validators stay the
  same and its view number does not fall, an instance is committed only when commits for its view,
  sequence and digest, with valid signatures, have arrived from more than a quorum of distinct
  validators.
\<close>

theorem committed_by_quorum:
  assumes "pbft_run G K E as R st" and "map_of (instances st) ix = Some i" and "phase i = PBFT_PHASE_COMMITED"
  shows "quorum_size (length (validators st)) + 1 \<le> card (commit_signers K E (validators st) R ix (digest_of i))"
  using committed_signers [OF inst_okD] pbft_run_inv [OF assms(1)] assms(2,3) by blast

text \<open>
  Claim C14. In a careful run, while the validators stay the same and the view number does not fall,
  all commit messages that a node has sent since its start for the same view and sequence, those
  sent again included, carry the same digest, whatever it receives and however timers, view
  changes, proposals and closed ledgers interleave. Careful is a run that proposes, and takes over
  a ledger closed elsewhere, only when no commit is open: none has been sent in the present view
  for a sequence still to be executed.
\<close>

theorem commits_one_digest:
  assumes "pbft_run True K E as R st"
    and "SendConsensusMessage e \<in> set (outputs st)" and "pbft_type (pbft_of e) = PBFT_TYPE_COMMIT"
    and "SendConsensusMessage f \<in> set (outputs st)" and "pbft_type (pbft_of f) = PBFT_TYPE_COMMIT"
    and "c_view_number (commit_of (pbft_of e)) = c_view_number (commit_of (pbft_of f))"
    and "c_sequence (commit_of (pbft_of e)) = c_sequence (commit_of (pbft_of f))"
  shows "c_value_digest (commit_of (pbft_of e)) = c_value_digest (commit_of (pbft_of f))"
  by (rule run_unique [OF assms(1)]) (use assms(2-) in \<open>auto simp: sent_commits_def c_index_def\<close>)

section \<open>Agreement\<close>

lemma validators_range:
  "vs = index_validators as 0 [] \<Longrightarrow> card (snd ` set vs) = length vs"
proof -
  assume vs: "vs = index_validators as 0 []"
  have s: "om_sorted vs" unfolding vs by (rule index_validators_sorted) (simp add: om_simps)
  have "inj_on snd (set vs)"
    using index_validators_inj [of as 0] map_of_SomeI [OF s] by (force simp: inj_on_def vs)
  then show ?thesis
    using om_sorted_distinct [OF s] by (simp add: card_image distinct_card distinct_map)
qed

text \<open>The replicas whose commits an instance counts.\<close>

lemma committed_replicas:
  assumes ok: "inst_ok K E vs R ix i" and com: "phase i = PBFT_PHASE_COMMITED"
  shows "fst ` set (commits i) \<subseteq> snd ` set vs" and "quorum_size (length vs) + 1 \<le> card (fst ` set (commits i))"
proof -
  show "fst ` set (commits i) \<subseteq> snd ` set vs"
  proof
    fix r
    assume "r \<in> fst ` set (commits i)"
    then obtain c where c: "(r, c) \<in> set (commits i)" by auto
    obtain a where "map_of vs a = Some r"
      using accepted_commit_sender [OF inst_commitD(4) [OF ok c]] inst_commitD(1) [OF ok c] by auto
    then show "r \<in> snd ` set vs" using map_of_SomeD by force
  qed
  show "quorum_size (length vs) + 1 \<le> card (fst ` set (commits i))"
    using ok com distinct_card [OF om_sorted_distinct, of "commits i"] by (simp add: inst_ok_def inst_phase_def inst_votes_def)
qed

text \<open>
  Claim C1. Agreement: take nodes with the same validators, all but at most the tolerated number of
  replicas among them, each in a careful run since its start in which the validators stay the same
  and the view number does not fall, and let no one forge their signatures: a commit that one of
  them accepts under the replica id of another was sent by it. Two of them that have committed an
  instance of the same view and sequence have committed the same digest. The code does not keep
  its runs careful; \<open>reproposal_splits\<close> is a run in which two correct nodes commit two digests
  because the leader proposes again after it has sent a commit.
\<close>

theorem pbft_agreement:
  assumes runs: "\<And>j. j \<in> good \<Longrightarrow> pbft_run True (K j) E as (R j) (st j)"
    and unforged: "\<And>j k e. j \<in> good \<Longrightarrow> k \<in> good \<Longrightarrow> e \<in> R j \<Longrightarrow> CheckMessageItem (K j) E (index_validators as 0 []) e \<Longrightarrow>
        pbft_type (pbft_of e) = PBFT_TYPE_COMMIT \<Longrightarrow> c_replica_id (commit_of (pbft_of e)) = me k \<Longrightarrow>
        commit_of (pbft_of e) \<in> sent_commits (st k)"
    and size: "length (index_validators as 0 []) < 2 ^ 64"
    and faults: "card (snd ` set (index_validators as 0 []) - me ` good) \<le> fault_number_of (length (index_validators as 0 []))"
    and a: "j \<in> good" "map_of (instances (st j)) ix = Some x" "phase x = PBFT_PHASE_COMMITED"
    and b: "k \<in> good" "map_of (instances (st k)) ix = Some y" "phase y = PBFT_PHASE_COMMITED"
  shows "digest_of x = digest_of y"
proof -
  let ?vs = "index_validators as 0 []"
  note run = pbft_run_inv [OF runs]
  have okx: "inst_ok (K j) E ?vs (R j) ix x" using inst_okD [OF _ a(2)] run [OF a(1)] by auto
  have oky: "inst_ok (K k) E ?vs (R k) ix y" using inst_okD [OF _ b(2)] run [OF b(1)] by auto
  note cx = committed_replicas [OF okx a(3)] and cy = committed_replicas [OF oky b(3)]
  have V: "card (snd ` set ?vs) = length ?vs" by (rule validators_range) simp
  have "0 < length ?vs" using cx by (cases ?vs) auto
  then have "\<exists>r \<in> fst ` set (commits x) \<inter> fst ` set (commits y). r \<notin> snd ` set ?vs - me ` good"
    by (intro pbft_quorum.common_correct [of "snd ` set ?vs", unfolded V]) (use size cx cy faults in simp_all)
  then obtain r where r: "r \<in> fst ` set (commits x) \<inter> fst ` set (commits y)" "r \<notin> snd ` set ?vs - me ` good" by blast
  then obtain h where h: "h \<in> good" "r = me h" using cx(1) by blast
  obtain c d where c: "(r, c) \<in> set (commits x)" and d: "(r, d) \<in> set (commits y)" using r(1) by auto
  note cD = inst_commitD [OF okx c] and dD = inst_commitD [OF oky d]
  have "c \<in> sent_commits (st h)"
    using accepted_commit_sender [OF cD(4)] unforged [OF a(1) h(1)] cD(1) h(2) by blast
  moreover have "d \<in> sent_commits (st h)"
    using accepted_commit_sender [OF dD(4)] unforged [OF b(1) h(1)] dD(1) h(2) by blast
  ultimately have "c_value_digest c = c_value_digest d"
    by (rule run_unique [OF runs [OF h(1)]]) (simp add: cD(2) dD(2))
  then show ?thesis using cD(3) dD(3) by simp
qed


section \<open>A run of four validators\<close>

text \<open>
  Four validators, the last of them silent: the first proposes a value, the others prepare it, and
  the three commit it. The signature of a string is the string behind the address of the signer.
\<close>

definition quad_keys :: "nat \<Rightarrow> keys" where
  "quad_keys j = \<lparr>GetEncPublicKey = [of_nat j], GetEncAddress = [of_nat j], Sign = (\<lambda>data. of_nat j # data), Address_of = (\<lambda>k. k),
     Verify = (\<lambda>data sig k. sig = k @ data), Crypto = (\<lambda>v. 7 # v)\<rparr>"

definition plain_codec :: codec where
  "plain_codec = \<lparr>self_chain_id = 1, ser_pbft = (\<lambda>m. []), ser_env = (\<lambda>e. []), ser_view_change = (\<lambda>m. []),
     ser_proof = (\<lambda>es. []), parse_env = (\<lambda>s. (True, empty_env)), parse_view_change = (\<lambda>s. (True, view_change_of empty_pbft)),
     parse_proof = (\<lambda>s. None), json_view_changes = (\<lambda>l. []), unjson_view_changes = (\<lambda>s. None),
     json_strings = (\<lambda>l. []), unjson_strings = (\<lambda>s. None)\<rparr>"

definition quad_validators :: "cstring list" where
  "quad_validators = [[0], [1], [2], [3]]"

definition quad_pre_prepare :: PbftEnv where
  "quad_pre_prepare = sign_pbft (quad_keys 0) plain_codec (Pbft 1 PBFT_TYPE_PREPREPARE
     (Some \<lparr>pp_view_number = 0, pp_sequence = 2, pp_replica_id = 0, pp_value = [5], pp_value_digest = [7, 5]\<rparr>)
     None None None None None 1)"

definition quad_prepare :: "nat \<Rightarrow> PbftEnv" where
  "quad_prepare j = sign_pbft (quad_keys j) plain_codec (Pbft 1 PBFT_TYPE_PREPARE None
     (Some \<lparr>p_view_number = 0, p_sequence = 2, p_replica_id = int j, p_value_digest = [7, 5]\<rparr>) None None None None 1)"

definition quad_commit :: "nat \<Rightarrow> PbftEnv" where
  "quad_commit j = sign_pbft (quad_keys j) plain_codec (Pbft 1 PBFT_TYPE_COMMIT None None
     (Some \<lparr>c_view_number = 0, c_sequence = 2, c_replica_id = int j, c_value_digest = [7, 5]\<rparr>) None None None 1)"

definition quad_envs :: "nat \<Rightarrow> PbftEnv list" where
  "quad_envs j = (if j = 0 then [] else [quad_pre_prepare]) @
     [quad_prepare 1, quad_prepare 2, quad_prepare 2, quad_commit 2, quad_commit 0, quad_commit 1]"

definition quad_inputs :: "nat \<Rightarrow> input list" where
  "quad_inputs j = (if j = 0 then [Propose [5]] else []) @
     map (\<lambda>e. Recv (\<lambda>v. CHECK_VALUE_VALID) (new_ConsensusMsg (quad_keys j) plain_codec e)) (quad_envs j)"

definition quad_start :: "nat \<Rightarrow> PbftState" where
  "quad_start j = started (quad_keys j) quad_validators Map.empty 100 0 True"

definition quad_state :: "nat \<Rightarrow> PbftState" where
  "quad_state j = (case run_inputs True (quad_keys j) plain_codec (quad_inputs j) (quad_start j) of Some st \<Rightarrow> st | None \<Rightarrow> quad_start j)"

definition quad_instance :: "nat \<Rightarrow> PbftInstance" where
  "quad_instance j = or_default (new_PbftInstance 0) (map_of (instances (quad_state j)) (PbftInstanceIndex 0 2))"

lemma quad_runs:
  "list_all (\<lambda>j. case run_inputs True (quad_keys j) plain_codec (quad_inputs j) (quad_start j) of None \<Rightarrow> False
     | Some st \<Rightarrow> last_exe_seq st = 2 \<and> map_of (instances st) (PbftInstanceIndex 0 2) \<noteq> None \<and>
        SendConsensusMessage (quad_commit j) \<in> set (outputs st)) [0, 1, 2]"
  by code_simp

lemma quad_committed: "list_all (\<lambda>j. phase (quad_instance j) = PBFT_PHASE_COMMITED \<and> digest_of (quad_instance j) = [7, 5]) [0, 1, 2]"
  by code_simp

lemma quad_commits:
  "list_all (\<lambda>j. list_all (\<lambda>e. list_all (\<lambda>k. pbft_type (pbft_of e) = PBFT_TYPE_COMMIT \<longrightarrow> c_replica_id (commit_of (pbft_of e)) = int k \<longrightarrow>
      commit_of (pbft_of e) = commit_of (pbft_of (quad_commit k))) [0, 1, 2]) (quad_envs j)) [0, 1, 2]"
  by code_simp


lemma quad_received: "\<Union> (received ` set (quad_inputs j)) = set (quad_envs j)"
  by (auto simp: quad_inputs_def new_ConsensusMsg_def)

lemma quad_commit_type: "pbft_type (pbft_of (quad_commit j)) = PBFT_TYPE_COMMIT"
  by (simp add: quad_commit_def)

lemma quad_run:
  assumes "j \<in> {0, 1, 2}"
  shows "pbft_run True (quad_keys j) plain_codec quad_validators (set (quad_envs j)) (quad_state j)"
    and "map_of (instances (quad_state j)) (PbftInstanceIndex 0 2) = Some (quad_instance j)"
    and "commit_of (pbft_of (quad_commit j)) \<in> sent_commits (quad_state j)"
proof -
  have "case run_inputs True (quad_keys j) plain_codec (quad_inputs j) (quad_start j) of None \<Rightarrow> False
      | Some st \<Rightarrow> last_exe_seq st = 2 \<and> map_of (instances st) (PbftInstanceIndex 0 2) \<noteq> None \<and>
         SendConsensusMessage (quad_commit j) \<in> set (outputs st)"
    by (rule bspec [OF quad_runs [unfolded list_all_iff list.set] assms])
  then obtain st where st: "run_inputs True (quad_keys j) plain_codec (quad_inputs j) (quad_start j) = Some st"
      "map_of (instances st) (PbftInstanceIndex 0 2) \<noteq> None" "SendConsensusMessage (quad_commit j) \<in> set (outputs st)"
    by (auto split: option.splits)
  have eq: "quad_state j = st" by (simp add: quad_state_def st(1))
  have "pbft_run True (quad_keys j) plain_codec quad_validators {} (quad_start j)" unfolding quad_start_def by (rule pbft_run.start)
  from run_inputs_run [OF this st(1)] show "pbft_run True (quad_keys j) plain_codec quad_validators (set (quad_envs j)) (quad_state j)"
    by (simp add: quad_received eq)
  show "map_of (instances (quad_state j)) (PbftInstanceIndex 0 2) = Some (quad_instance j)"
    using st(2) by (auto simp: quad_instance_def eq or_default_def)
  show "commit_of (pbft_of (quad_commit j)) \<in> sent_commits (quad_state j)"
    unfolding sent_commits_def eq using st(3) quad_commit_type by blast
qed

lemma quad_phase: "j \<in> {0, 1, 2} \<Longrightarrow> phase (quad_instance j) = PBFT_PHASE_COMMITED"
  using quad_committed unfolding list_all_iff by auto

theorem committed_by_quorum_witness:
  "phase (quad_instance 1) = PBFT_PHASE_COMMITED \<and>
   quorum_size (length (validators (quad_state 1))) + 1
     \<le> card (commit_signers (quad_keys 1) plain_codec (validators (quad_state 1)) (set (quad_envs 1)) (PbftInstanceIndex 0 2)
          (digest_of (quad_instance 1)))"
  using committed_by_quorum [OF quad_run(1,2) quad_phase, of 1] quad_phase [of 1] by simp

lemma next_round_code [code]: "next_round r = nat ((int r + 1) mod 4294967296)"
proof -
  have "(int r + 1) mod 4294967296 = int (Suc r mod 4294967296)" by (simp add: zmod_int add.commute)
  then show ?thesis by (simp add: next_round_def)
qed

text \<open>A node that sends its commit again after a while, in another round.\<close>

definition again_inputs :: "input list" where
  "again_inputs = map (\<lambda>e. Recv (\<lambda>v. CHECK_VALUE_VALID) (new_ConsensusMsg (quad_keys 2) plain_codec e))
     [quad_pre_prepare, quad_prepare 1, quad_prepare 2] @ [Timer_check 20000000]"

definition quad_commit_again :: PbftEnv where
  "quad_commit_again = sign_pbft (quad_keys 2) plain_codec (Pbft 2 PBFT_TYPE_COMMIT None None
     (Some \<lparr>c_view_number = 0, c_sequence = 2, c_replica_id = 2, c_value_digest = [7, 5]\<rparr>) None None None 1)"

lemma again_run:
  "case run_inputs True (quad_keys 2) plain_codec again_inputs (quad_start 2) of None \<Rightarrow> False
   | Some st \<Rightarrow> SendConsensusMessage (quad_commit 2) \<in> set (outputs st) \<and> SendConsensusMessage quad_commit_again \<in> set (outputs st)"
  by code_simp

theorem commits_one_digest_witness:
  "\<exists>st. run_inputs True (quad_keys 2) plain_codec again_inputs (quad_start 2) = Some st \<and>
     SendConsensusMessage (quad_commit 2) \<in> set (outputs st) \<and> SendConsensusMessage quad_commit_again \<in> set (outputs st) \<and>
     quad_commit 2 \<noteq> quad_commit_again \<and>
     c_value_digest (commit_of (pbft_of (quad_commit 2))) = c_value_digest (commit_of (pbft_of quad_commit_again))"
proof -
  obtain st where st: "run_inputs True (quad_keys 2) plain_codec again_inputs (quad_start 2) = Some st"
    "SendConsensusMessage (quad_commit 2) \<in> set (outputs st)" "SendConsensusMessage quad_commit_again \<in> set (outputs st)"
    using again_run by (auto split: option.splits)
  have "pbft_run True (quad_keys 2) plain_codec quad_validators {} (quad_start 2)" unfolding quad_start_def by (rule pbft_run.start)
  note run = run_inputs_run [OF this st(1)]
  have "c_value_digest (commit_of (pbft_of (quad_commit 2))) = c_value_digest (commit_of (pbft_of quad_commit_again))"
    by (rule commits_one_digest [OF run st(2) _ st(3)])
      (simp_all add: quad_commit_def quad_commit_again_def commit_of_def or_default_def)
  moreover have "quad_commit 2 \<noteq> quad_commit_again" by (simp add: quad_commit_def quad_commit_again_def sign_pbft_def)
  ultimately show ?thesis using st by blast
qed

theorem pbft_agreement_witness:
  "phase (quad_instance 0) = PBFT_PHASE_COMMITED \<and> phase (quad_instance 1) = PBFT_PHASE_COMMITED \<and>
   digest_of (quad_instance 0) = digest_of (quad_instance 1)"
proof -
  let ?good = "{0, 1, 2} :: nat set"
  have vs: "index_validators quad_validators 0 [] = [([0], 0), ([1], 1), ([2], 2), ([3], 3)]" by code_simp
  have "snd ` set (index_validators quad_validators 0 []) - int ` ?good = {3}" by (auto simp: vs)
  moreover have "fault_number_of 4 = 1" using fault_number_of_eq [of 4] by simp
  ultimately have faults: "card (snd ` set (index_validators quad_validators 0 []) - int ` ?good)
      \<le> fault_number_of (length (index_validators quad_validators 0 []))" by (simp add: vs eval_nat_numeral)
  have unforged: "commit_of (pbft_of e) \<in> sent_commits (quad_state k)"
    if "j \<in> ?good" "k \<in> ?good" "e \<in> set (quad_envs j)" "pbft_type (pbft_of e) = PBFT_TYPE_COMMIT"
      "c_replica_id (commit_of (pbft_of e)) = int k" for j k e
  proof -
    have "commit_of (pbft_of e) = commit_of (pbft_of (quad_commit k))"
      using quad_commits that unfolding list_all_iff by auto
    then show ?thesis using quad_run(3) [OF that(2)] by simp
  qed
  have "digest_of (quad_instance 0) = digest_of (quad_instance 1)"
    by (rule pbft_agreement [where good = ?good and K = quad_keys and E = plain_codec and as = quad_validators and
          R = "\<lambda>j. set (quad_envs j)" and st = quad_state and me = int and j = 0 and k = 1 and ix = "PbftInstanceIndex 0 2",
        OF quad_run(1) unforged _ faults _ quad_run(2) quad_phase _ quad_run(2) quad_phase])
      (simp_all add: vs)
  then show ?thesis using quad_phase by simp
qed

section \<open>A leader that proposes again\<close>

text \<open>
  Four validators, the last of them faulty. The leader proposes a value, sends a commit for it, and
  proposes another value for the same view and sequence, as \<open>Request\<close> lets it. The faulty validator
  votes for both. The second validator commits the first value and the third one the second.
\<close>

definition split_pre_prepare :: "cstring \<Rightarrow> PbftEnv" where
  "split_pre_prepare v = sign_pbft (quad_keys 0) plain_codec (Pbft 1 PBFT_TYPE_PREPREPARE
     (Some \<lparr>pp_view_number = 0, pp_sequence = 2, pp_replica_id = 0, pp_value = v, pp_value_digest = 7 # v\<rparr>)
     None None None None None 1)"

definition split_prepare :: "cstring \<Rightarrow> nat \<Rightarrow> PbftEnv" where
  "split_prepare v j = sign_pbft (quad_keys j) plain_codec (Pbft 1 PBFT_TYPE_PREPARE None
     (Some \<lparr>p_view_number = 0, p_sequence = 2, p_replica_id = int j, p_value_digest = 7 # v\<rparr>) None None None None 1)"

definition split_commit :: "cstring \<Rightarrow> nat \<Rightarrow> PbftEnv" where
  "split_commit v j = sign_pbft (quad_keys j) plain_codec (Pbft 1 PBFT_TYPE_COMMIT None None
     (Some \<lparr>c_view_number = 0, c_sequence = 2, c_replica_id = int j, c_value_digest = 7 # v\<rparr>) None None None 1)"

definition split_recv :: "nat \<Rightarrow> PbftEnv list \<Rightarrow> input list" where
  "split_recv j = map (\<lambda>e. Recv (\<lambda>v. CHECK_VALUE_VALID) (new_ConsensusMsg (quad_keys j) plain_codec e))"

definition split_inputs :: "nat \<Rightarrow> input list" where
  "split_inputs j =
     (if j = 0 then Propose [5] # split_recv 0 [split_prepare [5] 1, split_prepare [5] 3] @
        Propose [6] # split_recv 0 [split_prepare [6] 2, split_prepare [6] 3]
      else let v = (if j = 1 then [5] else [6]) in
        split_recv j [split_pre_prepare v, split_prepare v j, split_prepare v 3, split_commit v 0, split_commit v j, split_commit v 3])"

definition split_state :: "nat \<Rightarrow> PbftState" where
  "split_state j = or_default (quad_start j) (run_inputs False (quad_keys j) plain_codec (split_inputs j) (quad_start j))"

definition split_received :: "nat \<Rightarrow> PbftEnv set" where
  "split_received j = \<Union> (received ` set (split_inputs j))"

lemma split_runs: "list_all (\<lambda>j. run_inputs False (quad_keys j) plain_codec (split_inputs j) (quad_start j) \<noteq> None) [0, 1, 2]"
  by code_simp

lemma split_commits_sent:
  "list_all (\<lambda>(j, v). SendConsensusMessage (split_commit v j) \<in> set (outputs (split_state j))) [(0, [5]), (0, [6]), (1, [5]), (2, [6])]"
  by code_simp

lemma split_committed:
  "list_all (\<lambda>(j, v). map_option (\<lambda>i. (phase i, digest_of i)) (map_of (instances (split_state j)) (PbftInstanceIndex 0 2)) =
     Some (PBFT_PHASE_COMMITED, 7 # v)) [(1, [5]), (2, [6])]"
  by code_simp

lemma received_iff: "e \<in> received inp \<longleftrightarrow> (\<exists>check msg. inp = Recv check msg \<and> e = cm_pbft_env msg)"
  by (cases inp) auto

text \<open>
  A commit of one of the three correct validators that another of them accepts was sent by it, so
  the agreement of careful runs fails here only because the run of the leader is not careful.
\<close>

lemma split_unforged:
  "list_all (\<lambda>j. list_all (\<lambda>inp. case inp of Recv check msg \<Rightarrow>
       let m = pbft_of (cm_pbft_env msg) in
         pbft_type m = PBFT_TYPE_COMMIT \<longrightarrow> c_replica_id (commit_of m) \<noteq> 3 \<longrightarrow>
         list_ex (\<lambda>k. SendConsensusMessage (cm_pbft_env msg) \<in> set (outputs (split_state k)) \<and> int k = c_replica_id (commit_of m)) [0, 1, 2]
     | _ \<Rightarrow> True) (split_inputs j)) [0, 1, 2]"
  by code_simp

lemma split_run:
  assumes "j \<in> {0, 1, 2}"
  shows "pbft_run False (quad_keys j) plain_codec quad_validators (split_received j) (split_state j)"
proof -
  have "run_inputs False (quad_keys j) plain_codec (split_inputs j) (quad_start j) \<noteq> None"
    by (rule bspec [OF split_runs [unfolded list_all_iff list.set] assms])
  then have run: "run_inputs False (quad_keys j) plain_codec (split_inputs j) (quad_start j) = Some (split_state j)"
    by (auto simp: split_state_def or_default_def)
  have "pbft_run False (quad_keys j) plain_codec quad_validators {} (quad_start j)" unfolding quad_start_def by (rule pbft_run.start)
  from run_inputs_run [OF this run] show ?thesis by (simp add: split_received_def)
qed

theorem reproposal_splits:
  "(\<forall>j \<in> {0, 1, 2}. pbft_run False (quad_keys j) plain_codec quad_validators (split_received j) (split_state j)) \<and>
   (\<forall>j \<in> {0, 1, 2}. \<forall>k \<in> {0, 1, 2}. \<forall>e \<in> split_received j. pbft_type (pbft_of e) = PBFT_TYPE_COMMIT \<longrightarrow>
      c_replica_id (commit_of (pbft_of e)) = int k \<longrightarrow> commit_of (pbft_of e) \<in> sent_commits (split_state k)) \<and>
   (\<exists>x y. map_of (instances (split_state 1)) (PbftInstanceIndex 0 2) = Some x \<and> phase x = PBFT_PHASE_COMMITED \<and> digest_of x = [7, 5] \<and>
      map_of (instances (split_state 2)) (PbftInstanceIndex 0 2) = Some y \<and> phase y = PBFT_PHASE_COMMITED \<and> digest_of y = [7, 6]) \<and>
   {SendConsensusMessage (split_commit [5] 0), SendConsensusMessage (split_commit [6] 0)} \<subseteq> set (outputs (split_state 0))"
proof -
  have sent: "commit_of (pbft_of e) \<in> sent_commits (split_state k)"
    if "j \<in> {0, 1, 2}" "k \<in> {0, 1, 2}" "e \<in> split_received j" "pbft_type (pbft_of e) = PBFT_TYPE_COMMIT"
      "c_replica_id (commit_of (pbft_of e)) = int k" for j k e
  proof -
    note prem = that
    obtain check msg where m: "Recv check msg \<in> set (split_inputs j)" "e = cm_pbft_env msg"
      using prem(3) unfolding split_received_def by (auto simp: received_iff)
    have "list_all (\<lambda>inp. case inp of Recv check msg \<Rightarrow>
        let m = pbft_of (cm_pbft_env msg) in
         pbft_type m = PBFT_TYPE_COMMIT \<longrightarrow> c_replica_id (commit_of m) \<noteq> 3 \<longrightarrow>
         list_ex (\<lambda>k. SendConsensusMessage (cm_pbft_env msg) \<in> set (outputs (split_state k)) \<and> int k = c_replica_id (commit_of m)) [0, 1, 2]
       | _ \<Rightarrow> True) (split_inputs j)"
      by (rule bspec [OF split_unforged [unfolded list_all_iff [of _ "[0, 1, 2]"] list.set] that(1)])
    then have "list_ex (\<lambda>k'. SendConsensusMessage e \<in> set (outputs (split_state k')) \<and> int k' = int k) [0, 1, 2]"
      using m prem(2,4,5) unfolding list_all_iff by (fastforce simp: Let_def)
    then have "SendConsensusMessage e \<in> set (outputs (split_state k))" by (auto simp: list_ex_iff)
    then show ?thesis using that(4) unfolding sent_commits_def by blast
  qed
  have "map_option (\<lambda>i. (phase i, digest_of i)) (map_of (instances (split_state 1)) (PbftInstanceIndex 0 2)) = Some (PBFT_PHASE_COMMITED, [7, 5])"
    and "map_option (\<lambda>i. (phase i, digest_of i)) (map_of (instances (split_state 2)) (PbftInstanceIndex 0 2)) = Some (PBFT_PHASE_COMMITED, [7, 6])"
    using split_committed by simp_all
  then have com: "\<exists>x y. map_of (instances (split_state 1)) (PbftInstanceIndex 0 2) = Some x \<and> phase x = PBFT_PHASE_COMMITED \<and> digest_of x = [7, 5] \<and>
      map_of (instances (split_state 2)) (PbftInstanceIndex 0 2) = Some y \<and> phase y = PBFT_PHASE_COMMITED \<and> digest_of y = [7, 6]"
    by auto
  have "{SendConsensusMessage (split_commit [5] 0), SendConsensusMessage (split_commit [6] 0)} \<subseteq> set (outputs (split_state 0))"
    using split_commits_sent by simp
  then show ?thesis using split_run sent com by blast
qed

end
