(* ===== verification/Pbft_Proof.thy ===== *)
theory Pbft_Proof
  imports Pbft_Thms
begin

text \<open>
  The execution of committed values and the proof that goes with them: the order of execution, what
  \<^verbatim>\<open>Pbft::CheckProof\<close> accepts, and when the proof a node builds is not accepted. At the end, the
  messages a node refuses and what it keeps over a restart.
\<close>

section \<open>Order of execution\<close>

fun executed :: "pbft_output list \<Rightarrow> (int \<times> cstring) list" where
  "executed [] = []"
| "executed (OnValueCommited s v p # os) = (s, v) # executed os"
| "executed (other # os) = executed os"

lemma executed_append [simp]: "executed (a @ b) = executed a @ executed b"
  by (induction a rule: executed.induct) auto

definition executes :: "PbftState \<Rightarrow> (PbftInstanceIndex \<times> PbftInstance) list \<Rightarrow> PbftState \<Rightarrow> bool" where
  "executes st todo st' \<longleftrightarrow>
     (\<exists>new. outputs st' = outputs st @ new \<and> last_exe_seq st \<le> last_exe_seq st' \<and>
        map fst (executed new) = [last_exe_seq st + 1 .. last_exe_seq st'] \<and>
        list_all (\<lambda>(s, v). \<exists>(ix, i) \<in> set todo. ix_sequence ix = s \<and> PBFT_PHASE_COMMITED \<le> phase i \<and> v = pp_value (inst_pre_prepare i))
          (executed new))"

lemma executes_refl: "executes st todo st"
  by (simp add: executes_def)

lemma executes_more: "executes st todo st' \<Longrightarrow> executes st (e # todo) st'"
  unfolding executes_def list_all_iff by fastforce

lemma execute_walk_order: "executes st todo (execute_walk E todo st)"
proof (induction todo arbitrary: st)
  case Nil
  then show ?case by (simp add: executes_refl)
next
  case (Cons e todo)
  obtain ix i where e: "e = (ix, i)" by (cases e)
  define st1 where "st1 = execute_one E ix i st"
  have one: "executes st (e # todo) (execute_walk E todo st1)"
    if s: "ix_sequence ix = last_exe_seq st + 1" and c: "PBFT_PHASE_COMMITED \<le> phase i"
  proof -
    obtain new where new: "outputs (execute_walk E todo st1) = outputs st1 @ new" "last_exe_seq st1 \<le> last_exe_seq (execute_walk E todo st1)"
        "map fst (executed new) = [last_exe_seq st1 + 1 .. last_exe_seq (execute_walk E todo st1)]"
        "list_all (\<lambda>(s, v). \<exists>(ix, i) \<in> set todo. ix_sequence ix = s \<and> PBFT_PHASE_COMMITED \<le> phase i \<and> v = pp_value (inst_pre_prepare i))
          (executed new)"
      using Cons.IH [of st1] unfolding executes_def by blast
    define o1 where "o1 = OnValueCommited (ix_sequence ix) (pp_value (inst_pre_prepare i)) (ser_proof E (collect_commits (msg_buf i ! 2) {}))"
    have st1: "outputs st1 = outputs st @ [o1]" "last_exe_seq st1 = last_exe_seq st + 1"
      by (simp_all add: st1_def execute_one_def Let_def notify_def o1_def)
    have "map fst (executed (o1 # new)) = [last_exe_seq st + 1 .. last_exe_seq (execute_walk E todo st1)]"
      using new(2,3) s st1(2) upto_rec1 [of "last_exe_seq st + 1"] by (simp add: o1_def)
    moreover have "list_all (\<lambda>(s, v). \<exists>(ix, i) \<in> set (e # todo). ix_sequence ix = s \<and> PBFT_PHASE_COMMITED \<le> phase i \<and> v = pp_value (inst_pre_prepare i))
        (executed (o1 # new))"
      using new(4) s c by (auto simp: e o1_def list_all_iff)
    ultimately show ?thesis
      unfolding executes_def using new(1,2) st1 by (intro exI [of _ "o1 # new"]) simp
  qed
  then show ?case
    using Cons.IH [of st] executes_more executes_refl [of st "e # todo"] by (simp add: e st1_def)
qed

text \<open>
  Claim C17. An execution hands on the committed values in the order of their sequence numbers
  without a gap: the new reports are exactly for the numbers after the last executed one up to the
  new last one, each with the value of a committed instance of that number.
\<close>

theorem TryExecuteValue_in_order:
  "\<exists>new. outputs (TryExecuteValue E st) = outputs st @ new \<and>
     map fst (executed new) = [last_exe_seq st + 1 .. last_exe_seq (TryExecuteValue E st)] \<and>
     list_all (\<lambda>(s, v). \<exists>(ix, i) \<in> set (instances st). ix_sequence ix = s \<and> phase i = PBFT_PHASE_COMMITED \<and> v = pp_value (inst_pre_prepare i))
       (executed new)"
proof -
  have "PBFT_PHASE_COMMITED \<le> p \<longleftrightarrow> p = PBFT_PHASE_COMMITED" for p by (cases p) (simp_all add: phase_order)
  then show ?thesis
    using execute_walk_order [of st "instances st" E] unfolding executes_def TryExecuteValue_def by auto
qed

section \<open>The proof of a closed ledger\<close>

definition signer :: "keys \<Rightarrow> PbftEnv \<Rightarrow> cstring" where
  "signer K e = Address_of K (public_key (signature e))"

definition commit_for :: "keys \<Rightarrow> codec \<Rightarrow> ValidatorMap \<Rightarrow> cstring \<Rightarrow> PbftEnv \<Rightarrow> bool" where
  "commit_for K E vs h e \<longleftrightarrow>
     CheckMessageItem K E vs e \<and> pbft_type (pbft_of e) = PBFT_TYPE_COMMIT \<and> c_value_digest (commit_of (pbft_of e)) = h"

lemma commit_for_erase:
  "commit_for K E (om_erase a vs) h e \<longleftrightarrow> commit_for K E vs h e \<and> signer K e \<noteq> a"
proof -
  have "map_of (om_erase a vs) b = (if b = a then None else map_of vs b)" for b
    using map_of_filter_key [of "\<lambda>k. k \<noteq> a" vs b] by (simp add: om_erase_def)
  then show ?thesis by (auto simp: commit_for_def CheckMessageItem_iff signer_def)
qed

lemma commit_for_signer: "commit_for K E vs h e \<Longrightarrow> signer K e \<in> dom (map_of vs)"
  by (auto simp: commit_for_def signer_def dest: commit_sender)

lemma commit_for_commit: "commit_for K E vs h e \<Longrightarrow> commit (pbft_of e) \<noteq> None"
  by (auto simp: commit_for_def CheckMessageItem_iff message_replica_def)

lemma check_commits_Cons:
  "check_commits K E h (e # es) vs =
     (if commit_for K E vs h e then check_commits K E h es (om_erase (signer K e) vs) else None)"
  using commit_for_signer [of K E vs h e] commit_for_commit [of K E vs h e]
  by (auto simp: Let_def commit_for_def signer_def)

lemma check_commits_spec:
  "check_commits K E h es vs = Some rest \<longleftrightarrow>
     list_all (commit_for K E vs h) es \<and> distinct (map (signer K) es) \<and>
     rest = filter (\<lambda>(a, i). a \<notin> signer K ` set es) vs"
proof (induction es arbitrary: vs)
  case Nil
  then show ?case by auto
next
  case (Cons e es)
  have "filter (\<lambda>(a, i). a \<notin> signer K ` set es) (om_erase (signer K e) vs) = filter (\<lambda>(a, i). a \<notin> signer K ` set (e # es)) vs"
    by (simp add: om_erase_def) (metis (mono_tags, lifting) case_prod_unfold)
  moreover have "list_all (commit_for K E (om_erase (signer K e) vs) h) es \<longleftrightarrow>
      list_all (commit_for K E vs h) es \<and> signer K e \<notin> signer K ` set es"
    unfolding list_all_iff commit_for_erase by (metis (no_types) image_iff)
  ultimately show ?case
    unfolding check_commits_Cons using Cons.IH by auto
qed

lemma length_rest:
  assumes "om_sorted vs" and "A \<subseteq> dom (map_of vs)"
  shows "length vs - length (filter (\<lambda>(a, i). a \<notin> A) vs) = card A"
proof -
  have "length (filter (\<lambda>(a, i). a \<notin> A) vs) = card (dom (map_of (filter (\<lambda>(a, i). a \<notin> A) vs)))"
    by (rule length_om) (rule om_sorted_filter [OF assms(1)])
  also have "dom (map_of (filter (\<lambda>(a, i). a \<notin> A) vs)) = dom (map_of vs) - A"
    using map_of_filter_key [of "\<lambda>a. a \<notin> A" vs] by (auto simp: dom_def split: if_splits)
  finally show ?thesis
    using length_om [OF assms(1)] card_Diff_subset [OF _ assms(2)] finite_subset [OF assms(2) finite_dom_map_of]
      card_mono [OF finite_dom_map_of assms(2)] by simp
qed

text \<open>
  Claim C16. The proof of a ledger is accepted exactly when it is a list of commits for the hash,
  each signed by a validator with the replica id of that validator, no validator twice, and more of
  them than a quorum.
\<close>

theorem CheckProof_exact:
  "CheckProof K E as h prf \<longleftrightarrow>
     (\<exists>es. parse_proof E prf = Some es \<and>
        list_all (commit_for K E (index_validators as 0 []) h) es \<and> distinct (map (signer K) es) \<and>
        quorum_size (length (index_validators as 0 [])) + 1 \<le> length es)"
proof (cases "parse_proof E prf")
  case None
  then show ?thesis by (simp add: CheckProof_def Let_def)
next
  case (Some es)
  let ?vs = "index_validators as 0 []"
  have s: "om_sorted ?vs" by (rule index_validators_sorted) (simp add: om_simps)
  have count: "length ?vs - length (filter (\<lambda>(a, i). a \<notin> signer K ` set es) ?vs) = length es"
    if "list_all (commit_for K E ?vs h) es" "distinct (map (signer K) es)"
    using length_rest [OF s, of "signer K ` set es"] that commit_for_signer distinct_card [OF that(2)]
    by (force simp: list_all_iff)
  show ?thesis
  proof (cases "check_commits K E h es ?vs")
    case None
    then have "\<not> (list_all (commit_for K E ?vs h) es \<and> distinct (map (signer K) es))"
      using check_commits_spec [of K E h es ?vs] by auto
    then show ?thesis using Some None by (auto simp: CheckProof_def Let_def)
  next
    case rest: (Some rest)
    then show ?thesis
      using Some count check_commits_spec [of K E h es ?vs rest] by (auto simp: CheckProof_def Let_def)
  qed
qed

text \<open>
  The proof of an execution holds the first buffered commit of every public key, also one for
  another digest, which its sender only has to send for the same view and sequence: a single
  validator makes the proof worthless.
\<close>

lemma collect_commits_first:
  "e \<in> set es \<Longrightarrow> public_key (signature e) \<notin> seen \<Longrightarrow>
   (\<And>e'. e' \<in> set es \<Longrightarrow> public_key (signature e') = public_key (signature e) \<Longrightarrow> e' = e) \<Longrightarrow> e \<in> set (collect_commits es seen)"
proof (induction es arbitrary: seen)
  case (Cons x es)
  show ?case
  proof (cases "public_key (signature x) = public_key (signature e)")
    case True
    then have "x = e" using Cons.prems(3) by simp
    then show ?thesis using Cons.prems(2) by simp
  next
    case False
    then have "e \<in> set es" using Cons.prems(1) by auto
    then show ?thesis using Cons.IH Cons.prems(2,3) False by simp
  qed
qed simp

lemma stray_commit_spoils_proof:
  assumes "e \<in> set (msg_buf i ! 2)" and "c_value_digest (commit_of (pbft_of e)) \<noteq> h"
    and "\<And>e'. e' \<in> set (msg_buf i ! 2) \<Longrightarrow> public_key (signature e') = public_key (signature e) \<Longrightarrow> e' = e"
    and "parse_proof E prf = Some (collect_commits (msg_buf i ! 2) {})"
  shows "\<not> CheckProof K E as h prf"
  using collect_commits_first [OF assms(1) _ assms(3)] check_commits_spec [of K E h "collect_commits (msg_buf i ! 2) {}"] assms(2,4)
  by (auto simp: CheckProof_def Let_def list_all_iff commit_for_def split: option.splits)

definition stray_commit :: PbftEnv where
  "stray_commit = sign_pbft (quad_keys 3) plain_codec (Pbft 1 PBFT_TYPE_COMMIT None None
     (Some \<lparr>c_view_number = 0, c_sequence = 2, c_replica_id = 3, c_value_digest = [9]\<rparr>) None None None 1)"

definition stray_inputs :: "input list" where
  "stray_inputs = map (\<lambda>e. Recv (\<lambda>v. CHECK_VALUE_VALID) (new_ConsensusMsg (quad_keys 1) plain_codec e))
     (quad_pre_prepare # stray_commit # tl (quad_envs 1))"

text \<open>Three correct validators execute the value, the fourth has spoiled its proof.\<close>

lemma stray_commit_run:
  "case run_inputs True (quad_keys 1) plain_codec stray_inputs (quad_start 1) of None \<Rightarrow> False
   | Some st \<Rightarrow> executed (outputs st) = [(2, [5])] \<and>
       check_commits (quad_keys 1) plain_codec [7, 5]
         (collect_commits (msg_buf (or_default (new_PbftInstance 0) (map_of (instances st) (PbftInstanceIndex 0 2))) ! 2) {})
         (index_validators quad_validators 0 []) = None"
  by code_simp


section \<open>Messages that are refused\<close>

text \<open>
  Claim C21. A message of another chain, or one whose signer is no validator, whose replica id is not
  the index of its signer, whose type is unknown or whose body is missing, or whose signature is
  wrong, is refused without a trace: the node's state is unchanged.
\<close>

theorem OnRecv_refuses:
  assumes "cm_type msg \<noteq> lit ''pbft'' \<or> chain_id (pbft_of (cm_pbft_env msg)) \<noteq> self_chain_id E \<or>
      map_of (validators st) (signer K (cm_pbft_env msg)) = None \<or>
      message_replica (pbft_of (cm_pbft_env msg)) \<noteq> map_of (validators st) (signer K (cm_pbft_env msg)) \<or>
      \<not> Verify K (ser_pbft E (pbft_of (cm_pbft_env msg))) (sign_data (signature (cm_pbft_env msg)))
          (public_key (signature (cm_pbft_env msg)))"
  shows "OnRecv K E check msg st = Some (False, st)"
proof -
  have "cm_type msg \<noteq> lit ''pbft'' \<or> \<not> CheckMessageItem K E (validators st) (cm_pbft_env msg)"
    using assms by (auto simp: CheckMessageItem_iff signer_def)
  then show ?thesis by (auto simp: OnRecv_def Let_def)
qed

definition misnamed_commit :: PbftEnv where
  "misnamed_commit = sign_pbft (quad_keys 3) plain_codec (Pbft 1 PBFT_TYPE_COMMIT None None
     (Some \<lparr>c_view_number = 0, c_sequence = 2, c_replica_id = 1, c_value_digest = [7, 5]\<rparr>) None None None 1)"

theorem OnRecv_refuses_witness:
  "OnRecv (quad_keys 1) plain_codec (\<lambda>v. CHECK_VALUE_VALID) (new_ConsensusMsg (quad_keys 1) plain_codec misnamed_commit) (quad_start 1)
     = Some (False, quad_start 1)"
proof (rule OnRecv_refuses)
  have "message_replica (pbft_of misnamed_commit) \<noteq> map_of (validators (quad_start 1)) (signer (quad_keys 1) misnamed_commit)"
    by code_simp
  then show "cm_type (new_ConsensusMsg (quad_keys 1) plain_codec misnamed_commit) \<noteq> lit ''pbft'' \<or>
      chain_id (pbft_of (cm_pbft_env (new_ConsensusMsg (quad_keys 1) plain_codec misnamed_commit))) \<noteq> self_chain_id plain_codec \<or>
      map_of (validators (quad_start 1)) (signer (quad_keys 1) (cm_pbft_env (new_ConsensusMsg (quad_keys 1) plain_codec misnamed_commit))) = None \<or>
      message_replica (pbft_of (cm_pbft_env (new_ConsensusMsg (quad_keys 1) plain_codec misnamed_commit))) \<noteq>
        map_of (validators (quad_start 1)) (signer (quad_keys 1) (cm_pbft_env (new_ConsensusMsg (quad_keys 1) plain_codec misnamed_commit))) \<or>
      \<not> Verify (quad_keys 1) (ser_pbft plain_codec (pbft_of (cm_pbft_env (new_ConsensusMsg (quad_keys 1) plain_codec misnamed_commit))))
          (sign_data (signature (cm_pbft_env (new_ConsensusMsg (quad_keys 1) plain_codec misnamed_commit))))
          (public_key (signature (cm_pbft_env (new_ConsensusMsg (quad_keys 1) plain_codec misnamed_commit))))"
    by (simp add: new_ConsensusMsg_def)
qed

section \<open>Changes of view\<close>

text \<open>The new-view message carries the value that was prepared in an earlier view; a replica enters the
  view without looking at it, so a new primary is not held to it.\<close>

lemma new_view_value_ignored:
  assumes "env_pbft e = Some (Pbft r t a b c v (Some (PbftNewView n s i vcs pp)) raw ch)"
    and "env_pbft e' = Some (Pbft r t a b c v (Some (PbftNewView n s i vcs pp')) raw ch)"
    and "CheckMessageItem K E (validators st) e" and "CheckMessageItem K E (validators st) e'"
  shows "OnNewView K E e st = OnNewView K E e' st"
proof -
  have "new_view_of (pbft_of e) = PbftNewView n s i vcs pp" "new_view_of (pbft_of e') = PbftNewView n s i vcs pp'"
    using assms(1,2) by (simp_all add: pbft_of_def or_default_def new_view_of_def)
  then show ?thesis using assms(3,4) by (simp add: OnNewView_def Let_def cong: option.case_cong)
qed

text \<open>The trace-out takes over the view of the commits it saw, also when it is a lower one.\<close>

lemma trace_out_lowers_view:
  "quorum_of st + 1 \<le> length (commits i) \<Longrightarrow> ckp_interval st \<le> ix_sequence ix - last_exe_seq st \<Longrightarrow>
   view_number (TryDoTraceOut E ix i st) = ix_view_number ix"
  by (simp add: TryDoTraceOut_def Let_def)

text \<open>
  Claim C22. A replica that accepts a new view and is restarted afterwards resumes in that view and
  active.
\<close>

theorem new_view_survives_restart:
  assumes "OnNewView K E e st = (True, st')" and "view_number st' \<noteq> view_number st" and "view_number st' < 2 ^ 63"
    and "0 \<le> view_number st"
  shows "view_number (LoadValues E junk (new_Pbft (keyvalue_db st') now)) = view_number st' \<and>
         view_active (LoadValues E junk (new_Pbft (keyvalue_db st') now))"
proof -
  define v where "v = nv_view_number (new_view_of (pbft_of e))"
  have v: "view_number st' = v" "view_number st < v"
    using assms(1,2) by (auto simp: OnNewView_def Let_def v_def split: if_splits option.splits)
  define save where "save = saver_SaveValue_int64 VIEW_ACTIVE 1 (saver_SaveValue_int64 VIEWNUMBER_NAME v new_ValueSaver)"
  have "\<exists>st4. close_saver save st4 = st'"
    using assms(1,2) v(1) unfolding OnNewView_def Let_def v_def [symmetric] by (auto simp: save_def split: if_splits)
  then obtain st4 where st4: "st' = close_saver save st4" by blast
  have names: "VIEW_ACTIVE \<noteq> VIEWNUMBER_NAME" by code_simp
  have db: "LoadValue VIEW_ACTIVE (keyvalue_db st') = Some (ToString_int64 1)"
      "LoadValue VIEWNUMBER_NAME (keyvalue_db st') = Some (ToString_int64 (word_of_int v))"
    using names
    by (simp_all add: st4 close_saver_def Commit_saver_def save_def saver_SaveValue_int64_def saver_SaveValue_def new_ValueSaver_def LoadValue_def)
  have "sint (word_of_int v :: 64 word) = v" using assms(3,4) v by (intro sint_word_of_int_64) simp_all
  then have "LoadValue_int64 VIEWNUMBER_NAME old (keyvalue_db st') = v" "LoadValue_int64 VIEW_ACTIVE 1 (keyvalue_db st') = 1" for old
    using db by (simp_all add: LoadValue_int64_def Stoi64_ToString)
  moreover have "view_number (fold (load_vc E junk) items s) = view_number s \<and> view_active (fold (load_vc E junk) items s) = view_active s" for items s
    by (induction items arbitrary: s) (simp_all add: load_vc_def Let_def put_vc_def)
  then have "view_number (snd (LoadVcInstance E junk s)) = view_number s \<and> view_active (snd (LoadVcInstance E junk s)) = view_active s" for s
    by (simp add: LoadVcInstance_def split: option.split)
  ultimately show ?thesis
    using v by (simp add: LoadValues_def Let_def new_Pbft_def)
qed


definition quad_view_change :: "nat \<Rightarrow> PbftEnv" where
  "quad_view_change j = sign_pbft (quad_keys j) plain_codec (Pbft 0 PBFT_TYPE_VIEWCHANGE None None None
     (Some \<lparr>vc_view_number = 1, vc_sequence = 1, vc_prepred_value_digest = [], vc_replica_id = int j\<rparr>) None None 1)"

definition quad_new_view :: PbftEnv where
  "quad_new_view = sign_pbft (quad_keys 1) plain_codec (Pbft 0 PBFT_TYPE_NEWVIEW None None None None
     (Some (PbftNewView 1 1 1 [quad_view_change 0, quad_view_change 1, quad_view_change 2] None)) None 1)"

lemma quad_new_view_accepted:
  "fst (OnNewView (quad_keys 2) plain_codec quad_new_view (quad_start 2)) \<and>
   view_number (snd (OnNewView (quad_keys 2) plain_codec quad_new_view (quad_start 2))) = 1 \<and> view_number (quad_start 2) = 0"
  by code_simp

theorem new_view_survives_restart_witness:
  "view_number (LoadValues plain_codec 0 (new_Pbft (keyvalue_db (snd (OnNewView (quad_keys 2) plain_codec quad_new_view (quad_start 2)))) 9)) = 1"
  using new_view_survives_restart [of "quad_keys 2" plain_codec quad_new_view "quad_start 2"
      "snd (OnNewView (quad_keys 2) plain_codec quad_new_view (quad_start 2))" 0 9] quad_new_view_accepted
  by (simp add: prod_eq_iff)

section \<open>The instance that is erased under the loop\<close>

text \<open>
  When the last missing instance is committed while the five after it wait, they are all executed at
  once, and the instance on whose buffers \<^verbatim>\<open>Go\<close> works is among those erased: the loop goes on with a
  dangling reference. The messages are those of a single validator.
\<close>

definition solo_msgs :: "int \<Rightarrow> PbftEnv list" where
  "solo_msgs s =
     [sign_pbft (quad_keys 0) plain_codec (Pbft 1 PBFT_TYPE_PREPREPARE
        (Some \<lparr>pp_view_number = 0, pp_sequence = s, pp_replica_id = 0, pp_value = [5], pp_value_digest = [7, 5]\<rparr>) None None None None None 1),
      sign_pbft (quad_keys 0) plain_codec (Pbft 1 PBFT_TYPE_PREPARE None
        (Some \<lparr>p_view_number = 0, p_sequence = s, p_replica_id = 0, p_value_digest = [7, 5]\<rparr>) None None None None 1),
      sign_pbft (quad_keys 0) plain_codec (Pbft 1 PBFT_TYPE_COMMIT None None
        (Some \<lparr>c_view_number = 0, c_sequence = s, c_replica_id = 0, c_value_digest = [7, 5]\<rparr>) None None None 1)]"

definition solo_inputs :: "int list \<Rightarrow> input list" where
  "solo_inputs ss = map (\<lambda>e. Recv (\<lambda>v. CHECK_VALUE_VALID) (new_ConsensusMsg (quad_keys 0) plain_codec e)) (concat (map solo_msgs ss))"

lemma go_uses_erased_instance:
  "run_inputs True (quad_keys 0) plain_codec (solo_inputs [3, 4, 5, 6, 2]) (started (quad_keys 0) [[0]] Map.empty 100 0 True) \<noteq> None \<and>
   run_inputs True (quad_keys 0) plain_codec (solo_inputs [3, 4, 5, 6, 7, 2]) (started (quad_keys 0) [[0]] Map.empty 100 0 True) = None"
  by code_simp

end
