(* ===== verification/Safe_Int.thy ===== *)
theory Safe_Int
  imports Prelude "HOL-Library.Signed_Division"
begin

text \<open>
  The checked 64-bit arithmetic \<^verbatim>\<open>SafeIntMul\<close>, \<^verbatim>\<open>SafeIntAdd\<close>, \<^verbatim>\<open>SafeIntSub\<close>
  (src/src/utils/base_int.h) at the type \<^verbatim>\<open>int64_t\<close>, at which the ledger uses it. An \<^verbatim>\<open>int64_t\<close>
  is an \<open>int\<close>, and \<open>wrap64\<close> is what the volatile assignment of a result leaves of it (two's
  complement). A result \<open>Some r\<close> is the return value \<^verbatim>\<open>true\<close> with \<open>r\<close> assigned, \<open>None\<close> is
  \<^verbatim>\<open>false\<close>.

  The multiplication divides to find an overflow. The division of the least integer by -1 traps;
  \<open>mul_trap\<close> says when that happens, and \<open>SafeIntMul\<close> answers for the other arguments.
\<close>

definition wrap64 :: "int \<Rightarrow> int" where
  "wrap64 z = (z + 2 ^ 63) mod 2 ^ 64 - 2 ^ 63"

definition int64 :: "int \<Rightarrow> bool" where
  "int64 z \<longleftrightarrow> - (2 ^ 63) \<le> z \<and> z < 2 ^ 63"

definition SafeIntAdd :: "int \<Rightarrow> int \<Rightarrow> int option" where
  "SafeIntAdd x y =
     (let sum = wrap64 (x + y);
          negOver = x < 0 \<and> y < 0 \<and> sum \<ge> 0;
          posOver = x \<ge> 0 \<and> y \<ge> 0 \<and> sum < 0
      in if \<not> negOver \<and> \<not> posOver then Some sum else None)"

definition SafeIntSub :: "int \<Rightarrow> int \<Rightarrow> int option" where
  "SafeIntSub x y =
     (let dif = wrap64 (x - y);
          negOver = x < 0 \<and> y \<ge> 0 \<and> dif \<ge> 0;
          posOver = x \<ge> 0 \<and> y < 0 \<and> dif \<le> 0
      in if \<not> negOver \<and> \<not> posOver then Some dif else None)"

definition mul_trap :: "int \<Rightarrow> int \<Rightarrow> bool" where
  "mul_trap x y \<longleftrightarrow> x = -1 \<and> wrap64 (x * y) = - (2 ^ 63)"

definition SafeIntMul :: "int \<Rightarrow> int \<Rightarrow> int option" where
  "SafeIntMul x y =
     (let mul = wrap64 (x * y)
      in if x = 0 \<or> mul sdiv x = y then Some mul else None)"

text \<open>The powers as numerals, for evaluation.\<close>

lemma wrap64_code [code]:
  "wrap64 z = (z + 9223372036854775808) mod 18446744073709551616 - 9223372036854775808"
  by (simp add: wrap64_def)

lemma mul_trap_code [code]: "mul_trap x y \<longleftrightarrow> x = -1 \<and> wrap64 (x * y) = - 9223372036854775808"
  by (simp add: mul_trap_def)

section \<open>Exactness\<close>

lemma wrap64_id [simp]: "int64 z \<Longrightarrow> wrap64 z = z"
  by (simp add: wrap64_def int64_def)

lemma wrap64_above:
  assumes "2 ^ 63 \<le> z" and "z < 2 ^ 64 + 2 ^ 63"
  shows "wrap64 z = z - 2 ^ 64"
proof -
  have "(z + 2 ^ 63) mod 2 ^ 64 = (z - 2 ^ 63 + 2 ^ 64) mod 2 ^ 64" by (simp add: add.commute)
  also have "\<dots> = z - 2 ^ 63"
    unfolding mod_add_self2 using assms by (intro mod_pos_pos_trivial) auto
  finally show ?thesis by (simp add: wrap64_def)
qed

lemma wrap64_below:
  assumes "z < - (2 ^ 63)" and "- (2 ^ 64) - 2 ^ 63 \<le> z"
  shows "wrap64 z = z + 2 ^ 64"
proof -
  have "(z + 2 ^ 63) mod 2 ^ 64 = (z + 2 ^ 63 + 2 ^ 64) mod 2 ^ 64" by (rule mod_add_self2 [symmetric])
  also have "\<dots> = z + 2 ^ 63 + 2 ^ 64"
    using assms by (intro mod_pos_pos_trivial) auto
  finally show ?thesis by (simp add: wrap64_def)
qed

lemma wrap64_multiple: "\<exists>k. wrap64 z = z + k * 2 ^ 64"
proof -
  have "wrap64 z = z + (- ((z + 2 ^ 63) div 2 ^ 64)) * 2 ^ 64"
    using minus_div_mult_eq_mod [of "z + 2 ^ 63" "2 ^ 64"] by (simp add: wrap64_def algebra_simps)
  then show ?thesis ..
qed

lemma int64_wrap64 [simp]: "int64 (wrap64 z)"
  by (simp add: wrap64_def int64_def)

lemma SafeIntAdd_exact:
  assumes "int64 x" and "int64 y"
  shows "SafeIntAdd x y = (if int64 (x + y) then Some (x + y) else None)"
proof (cases "int64 (x + y)")
  case True
  then show ?thesis by (simp add: SafeIntAdd_def)
next
  case False
  then consider "2 ^ 63 \<le> x + y" | "x + y < - (2 ^ 63)" by (auto simp: int64_def)
  then show ?thesis
    using assms False
    by cases (auto simp: SafeIntAdd_def int64_def wrap64_above wrap64_below)
qed

lemma SafeIntSub_exact:
  assumes "int64 x" and "int64 y"
  shows "SafeIntSub x y = (if int64 (x - y) then Some (x - y) else None)"
proof (cases "int64 (x - y)")
  case True
  then show ?thesis by (simp add: SafeIntSub_def)
next
  case False
  then consider "2 ^ 63 \<le> x - y" | "x - y < - (2 ^ 63)" by (auto simp: int64_def)
  then show ?thesis
    using assms False
    by cases (auto simp: SafeIntSub_def int64_def wrap64_above wrap64_below)
qed

lemma sdiv_close:
  fixes a x :: int
  assumes "x \<noteq> 0"
  shows "\<bar>a - x * (a sdiv x)\<bar> < \<bar>x\<bar>"
proof -
  have "a - x * (a sdiv x) = a smod x"
    using sdiv_mult_smod_eq [of a x] by (simp add: algebra_simps)
  moreover have "\<bar>a smod x\<bar> < \<bar>x\<bar>"
    using assms by (simp add: signed_modulo_int_def abs_mult abs_mod_less)
  ultimately show ?thesis by simp
qed

lemma sdiv_exact:
  fixes x y :: int
  assumes "x \<noteq> 0"
  shows "x * y sdiv x = y"
proof -
  have "\<bar>x * (y - x * y sdiv x)\<bar> < \<bar>x\<bar>"
    using sdiv_close [OF assms, of "x * y"] by (simp add: algebra_simps)
  then have "\<bar>y - x * y sdiv x\<bar> < 1" using assms by (simp add: abs_mult)
  then show ?thesis by simp
qed

lemma SafeIntMul_exact:
  assumes x: "int64 x"
  shows "SafeIntMul x y = (if int64 (x * y) then Some (x * y) else None)"
proof (cases "int64 (x * y) \<or> x = 0")
  case True
  then show ?thesis by (cases "x = 0") (simp_all add: SafeIntMul_def sdiv_exact, simp add: int64_def)
next
  case False
  obtain k where k: "wrap64 (x * y) = x * y + k * 2 ^ 64" using wrap64_multiple by blast
  have "k \<noteq> 0" using k False int64_wrap64 [of "x * y"] by auto
  then have far: "2 ^ 64 \<le> \<bar>wrap64 (x * y) - x * y\<bar>" using k by (simp add: abs_mult)
  have "wrap64 (x * y) sdiv x \<noteq> y"
  proof
    assume "wrap64 (x * y) sdiv x = y"
    then have "\<bar>wrap64 (x * y) - x * y\<bar> < \<bar>x\<bar>" using sdiv_close [of x "wrap64 (x * y)"] False by auto
    moreover have "\<bar>x\<bar> \<le> 2 ^ 63" using x by (auto simp: int64_def)
    ultimately show False using far by simp
  qed
  then show ?thesis using False by (simp add: SafeIntMul_def)
qed

section \<open>Theorems\<close>

text \<open>
  Claim C37. Checked arithmetic is exact. On 64-bit operands the checked addition, subtraction and
  multiplication answer with the mathematical result when it fits 64 bits, and refuse otherwise; the
  multiplication executes a division that traps exactly for -1 times the least integer.
\<close>

theorem checked_arithmetic_exact:
  assumes "int64 x" and "int64 y"
  shows "SafeIntAdd x y = (if int64 (x + y) then Some (x + y) else None) \<and>
    SafeIntSub x y = (if int64 (x - y) then Some (x - y) else None) \<and>
    SafeIntMul x y = (if int64 (x * y) then Some (x * y) else None) \<and>
    (mul_trap x y \<longleftrightarrow> x = -1 \<and> y = - (2 ^ 63))"
proof -
  have "wrap64 (- y) = - (2 ^ 63) \<longleftrightarrow> y = - (2 ^ 63)"
  proof (cases "y = - (2 ^ 63)")
    case True
    then show ?thesis by (simp add: wrap64_def)
  next
    case False
    then have "int64 (- y)" using assms(2) by (auto simp: int64_def)
    moreover from this have "- y \<noteq> - (2 ^ 63)" using assms(2) by (auto simp: int64_def)
    ultimately show ?thesis using False by simp
  qed
  then have "mul_trap x y \<longleftrightarrow> x = -1 \<and> y = - (2 ^ 63)" by (auto simp: mul_trap_def)
  then show ?thesis using SafeIntAdd_exact [OF assms] SafeIntSub_exact [OF assms] SafeIntMul_exact [OF assms(1)] by blast
qed

theorem checked_arithmetic_exact_witness:
  "SafeIntAdd 9223372036854775807 1 = None \<and> SafeIntSub (-9223372036854775808) 1 = None \<and> SafeIntMul 3037000500 3037000500 = None \<and>
   mul_trap (-1) (-9223372036854775808)"
  using checked_arithmetic_exact [of 9223372036854775807 1] checked_arithmetic_exact [of "-9223372036854775808" 1]
    checked_arithmetic_exact [of 3037000500 3037000500] checked_arithmetic_exact [of "-1" "-9223372036854775808"]
  by (simp add: int64_def)

end
