(* ===== verification/Account.thy ===== *)
theory Account
  imports Safe_Int Atom_Map
begin

text \<open>
  The account of the ledger, \<^verbatim>\<open>AccountFrm\<close> (src/src/ledger/account.h, account.cpp), and the
  messages it holds (src/src/proto/chain.proto). An \<^verbatim>\<open>AccountFrm\<close> is the protobuf account with
  the assets and the metadata that have been read or changed since it was made; what is not
  among them is read from the account's two tries in the database, here the maps \<open>db_asset\<close> and
  \<open>db_metadata\<close> of \<open>ledger_db\<close>. \<open>db_account\<close> is the trie of accounts.

  \<^verbatim>\<open>has_thresholds\<close> and \<^verbatim>\<open>has_contract\<close> are tested by the sources, so \<open>thresholds\<close> and \<open>acc_contract\<close> are
  options and \<^verbatim>\<open>thresholds()\<close> and \<^verbatim>\<open>contract()\<close> of an absent one the default message. The property of an \<^verbatim>\<open>AssetStore\<close> is
  never read or set by the sources and is left out. Operation types are integers, as the open
  enumerations of proto3 are. The actions of the caches are those of theory Atom_Map.
\<close>

record Signer =
  s_address :: cstring
  s_weight :: int

record OperationTypeThreshold =
  tt_type :: int
  tt_threshold :: int

record AccountThreshold =
  tx_threshold :: int
  type_thresholds :: "OperationTypeThreshold list"

record AccountPrivilege =
  master_weight :: int
  signers :: "Signer list"
  thresholds :: "AccountThreshold option"

record Contract =
  ct_type :: int
  payload :: cstring

record Account =
  acc_address :: cstring
  acc_nonce :: int
  acc_priv :: AccountPrivilege
  metadatas_hash :: cstring
  assets_hash :: cstring
  acc_contract :: "Contract option"
  acc_balance :: int

record AssetKey =
  ak_issuer :: cstring
  ak_code :: cstring
  ak_type :: int

record AssetStore =
  as_key :: AssetKey
  as_amount :: int

record KeyPair =
  kp_key :: cstring
  kp_value :: cstring
  kp_version :: int

record 'a DataCache =
  action :: actType
  cdata :: 'a

record AccountFrm =
  account_info :: Account
  assets :: "AssetKey \<rightharpoonup> AssetStore DataCache"
  metadata :: "cstring \<rightharpoonup> KeyPair DataCache"

record ledger_db =
  db_account :: "cstring \<rightharpoonup> Account"
  db_asset :: "cstring \<Rightarrow> AssetKey \<rightharpoonup> AssetStore"
  db_metadata :: "cstring \<Rightarrow> cstring \<rightharpoonup> KeyPair"

section \<open>Default messages and accessors\<close>

definition empty_threshold :: AccountThreshold where
  "empty_threshold = \<lparr>tx_threshold = 0, type_thresholds = []\<rparr>"

definition empty_priv :: AccountPrivilege where
  "empty_priv = \<lparr>master_weight = 0, signers = [], thresholds = None\<rparr>"

definition empty_contract :: Contract where
  "empty_contract = \<lparr>ct_type = 0, payload = []\<rparr>"

definition empty_account :: Account where
  "empty_account = \<lparr>acc_address = [], acc_nonce = 0, acc_priv = empty_priv, metadatas_hash = [],
     assets_hash = [], acc_contract = None, acc_balance = 0\<rparr>"

definition thresholds_of :: "AccountPrivilege \<Rightarrow> AccountThreshold" where
  "thresholds_of p = (case thresholds p of None \<Rightarrow> empty_threshold | Some t \<Rightarrow> t)"

definition new_AccountFrm :: "Account \<Rightarrow> AccountFrm" where
  "new_AccountFrm a = \<lparr>account_info = a, assets = Map.empty, metadata = Map.empty\<rparr>"

definition with_info :: "(Account \<Rightarrow> Account) \<Rightarrow> AccountFrm \<Rightarrow> AccountFrm" where
  "with_info f frm = frm\<lparr>account_info := f (account_info frm)\<rparr>"

definition with_priv :: "(AccountPrivilege \<Rightarrow> AccountPrivilege) \<Rightarrow> AccountFrm \<Rightarrow> AccountFrm" where
  "with_priv f = with_info (\<lambda>a. a\<lparr>acc_priv := f (acc_priv a)\<rparr>)"

definition with_thresholds :: "(AccountThreshold \<Rightarrow> AccountThreshold) \<Rightarrow> AccountFrm \<Rightarrow> AccountFrm" where
  "with_thresholds f = with_priv (\<lambda>p. p\<lparr>thresholds := Some (f (thresholds_of p))\<rparr>)"

abbreviation balance :: "AccountFrm \<Rightarrow> int" where
  "balance frm \<equiv> acc_balance (account_info frm)"

abbreviation address :: "AccountFrm \<Rightarrow> cstring" where
  "address frm \<equiv> acc_address (account_info frm)"

definition contract_of :: "Account \<Rightarrow> Contract" where
  "contract_of a = (case acc_contract a of None \<Rightarrow> empty_contract | Some c \<Rightarrow> c)"

abbreviation code_of :: "AccountFrm \<Rightarrow> cstring" where
  "code_of frm \<equiv> payload (contract_of (account_info frm))"

section \<open>Operations\<close>

definition GetAccountBalance :: "AccountFrm \<Rightarrow> int" where
  "GetAccountBalance frm = acc_balance (account_info frm)"

definition set_balance :: "int \<Rightarrow> AccountFrm \<Rightarrow> AccountFrm" where
  "set_balance n = with_info (\<lambda>a. a\<lparr>acc_balance := n\<rparr>)"

definition AddBalance :: "int \<Rightarrow> AccountFrm \<Rightarrow> AccountFrm option" where
  "AddBalance amount frm =
     (case SafeIntAdd (acc_balance (account_info frm)) amount of
        None \<Rightarrow> None
      | Some b \<Rightarrow> Some (set_balance b frm))"

definition GetAccountNonce :: "AccountFrm \<Rightarrow> int" where
  "GetAccountNonce frm = acc_nonce (account_info frm)"

definition NonceIncrease_frm :: "AccountFrm \<Rightarrow> AccountFrm" where
  "NonceIncrease_frm = with_info (\<lambda>a. a\<lparr>acc_nonce := wrap64 (acc_nonce a + 1)\<rparr>)"

definition SetProtoMasterWeight :: "int \<Rightarrow> AccountFrm \<Rightarrow> AccountFrm" where
  "SetProtoMasterWeight weight = with_priv (\<lambda>p. p\<lparr>master_weight := weight\<rparr>)"

definition SetProtoTxThreshold :: "int \<Rightarrow> AccountFrm \<Rightarrow> AccountFrm" where
  "SetProtoTxThreshold t = with_thresholds (\<lambda>th. th\<lparr>tx_threshold := t\<rparr>)"

definition Signer_Limit_SIGNER :: int where "Signer_Limit_SIGNER = 100"

text \<open>
  \<^verbatim>\<open>UpdateSigner\<close>: a weight above zero is given to every entry of the signer, or to a new entry at
  the end; another weight removes its entries. The result is the return value.
\<close>

definition UpdateSigner :: "cstring \<Rightarrow> int \<Rightarrow> AccountFrm \<Rightarrow> bool \<times> AccountFrm" where
  "UpdateSigner signer weight frm =
     (let ss = signers (acc_priv (account_info frm)) in
      if weight > 0 then
        (if \<exists>s\<in>set ss. s_address s = signer then
           (True, with_priv (\<lambda>p. p\<lparr>signers := map (\<lambda>s. if s_address s = signer then s\<lparr>s_weight := weight\<rparr> else s) ss\<rparr>) frm)
         else if int (length ss) \<ge> Signer_Limit_SIGNER then (False, frm)
         else (True, with_priv (\<lambda>p. p\<lparr>signers := ss @ [\<lparr>s_address = signer, s_weight = weight\<rparr>]\<rparr>) frm))
      else (True, with_priv (\<lambda>p. p\<lparr>signers := filter (\<lambda>s. s_address s \<noteq> signer) ss\<rparr>) frm))"

definition GetTypeThreshold :: "int \<Rightarrow> AccountFrm \<Rightarrow> int" where
  "GetTypeThreshold type frm =
     (case filter (\<lambda>t. tt_type t = type) (type_thresholds (thresholds_of (acc_priv (account_info frm)))) of
        [] \<Rightarrow> 0 | t # _ \<Rightarrow> tt_threshold t)"

text \<open>The conjunction of the threshold with \<^verbatim>\<open>UINT64_MAX\<close> leaves it as it is.\<close>

definition UpdateTypeThreshold :: "int \<Rightarrow> int \<Rightarrow> AccountFrm \<Rightarrow> bool \<times> AccountFrm" where
  "UpdateTypeThreshold type threshold frm =
     (let ts = type_thresholds (thresholds_of (acc_priv (account_info frm))) in
      if threshold > 0 then
        (if \<exists>t\<in>set ts. tt_type t = type then
           (True, with_thresholds (\<lambda>th. th\<lparr>type_thresholds :=
               map (\<lambda>t. if tt_type t = type then t\<lparr>tt_threshold := threshold\<rparr> else t) ts\<rparr>) frm)
         else if int (length ts) \<ge> Signer_Limit_SIGNER then (False, with_thresholds id frm)
         else (True, with_thresholds (\<lambda>th. th\<lparr>type_thresholds := ts @ [\<lparr>tt_type = type, tt_threshold = threshold\<rparr>]\<rparr>) frm))
      else (True, with_thresholds (\<lambda>th. th\<lparr>type_thresholds := filter (\<lambda>t. tt_type t \<noteq> type) ts\<rparr>) frm))"

text \<open>A read puts what it found in the database into the cache, so it returns the changed frame.\<close>

definition GetAsset :: "ledger_db \<Rightarrow> AssetKey \<Rightarrow> AccountFrm \<Rightarrow> AssetStore option \<times> AccountFrm" where
  "GetAsset D key frm =
     (case assets frm key of
        Some r \<Rightarrow> (if action r = DEL then (None, frm) else (Some (cdata r), frm))
      | None \<Rightarrow>
          (case db_asset D (acc_address (account_info frm)) key of
             None \<Rightarrow> (None, frm)
           | Some a \<Rightarrow> (Some a, frm\<lparr>assets := (assets frm)(key \<mapsto> \<lparr>action = MOD, cdata = a\<rparr>)\<rparr>)))"

definition SetAsset :: "AssetStore \<Rightarrow> AccountFrm \<Rightarrow> AccountFrm" where
  "SetAsset a frm = frm\<lparr>assets := (assets frm)(as_key a \<mapsto> \<lparr>action = ADD, cdata = a\<rparr>)\<rparr>"

definition GetMetaData :: "ledger_db \<Rightarrow> cstring \<Rightarrow> AccountFrm \<Rightarrow> KeyPair option \<times> AccountFrm" where
  "GetMetaData D key frm =
     (case metadata frm key of
        Some r \<Rightarrow> (if action r = DEL then (None, frm) else (Some (cdata r), frm))
      | None \<Rightarrow>
          (case db_metadata D (acc_address (account_info frm)) key of
             None \<Rightarrow> (None, frm)
           | Some kp \<Rightarrow> (Some kp, frm\<lparr>metadata := (metadata frm)(key \<mapsto> \<lparr>action = MOD, cdata = kp\<rparr>)\<rparr>)))"

definition SetMetaData_frm :: "KeyPair \<Rightarrow> AccountFrm \<Rightarrow> AccountFrm" where
  "SetMetaData_frm kp frm = frm\<lparr>metadata := (metadata frm)(kp_key kp \<mapsto> \<lparr>action = ADD, cdata = kp\<rparr>)\<rparr>"

definition DeleteMetaData :: "KeyPair \<Rightarrow> AccountFrm \<Rightarrow> AccountFrm" where
  "DeleteMetaData kp frm = frm\<lparr>metadata := (metadata frm)(kp_key kp \<mapsto> \<lparr>action = DEL, cdata = kp\<rparr>)\<rparr>"

definition CreatAccountFrm :: "cstring \<Rightarrow> int \<Rightarrow> AccountFrm" where
  "CreatAccountFrm account_address b =
     SetProtoTxThreshold 1 (SetProtoMasterWeight 1
       (new_AccountFrm (empty_account\<lparr>acc_address := account_address, acc_nonce := 0, acc_balance := b\<rparr>)))"

end
