(* ===== verification/Environment.thy ===== *)
theory Environment
  imports Account Strings Ordered_Map
begin

text \<open>
  The environment of accounts and settings, \<^verbatim>\<open>Environment\<close> (src/src/ledger/environment.h,
  environment.cpp), in which transactions are applied. An environment is an \<^verbatim>\<open>AtomMap\<close> of accounts with a second one for the settings.

  The code that applies transactions holds a shared pointer to an account only while the change
  buffer it came from holds it too, so an account is modelled by its value: a write through the
  pointer is \<open>put_entry\<close> at its address. The section on refinement shows this against the store
  of shared pointers of theory Atom_Map. A world holds the maps by number, as there; an
  environment is the pair of its change buffer and its data. Accounts are never deleted.

  The settings are JSON documents under two keys: the voted fees, an object from fee types to
  prices, and the validators, a list of pairs of an address and an amount in decimal.
\<close>

record env_world =
  accts :: "nat \<Rightarrow> cstring \<rightharpoonup> AccountFrm"
  fee_docs :: "nat \<Rightarrow> (cstring \<times> int) list option"
  validator_docs :: "nat \<Rightarrow> (cstring \<times> cstring) list option"

record environment =
  e_buff :: nat
  e_data :: nat

section \<open>Accounts\<close>

definition AccountFromDB :: "ledger_db \<Rightarrow> cstring \<Rightarrow> AccountFrm option" where
  "AccountFromDB D key = map_option new_AccountFrm (db_account D key)"

definition put_entry :: "env_world \<Rightarrow> environment \<Rightarrow> cstring \<Rightarrow> AccountFrm \<Rightarrow> env_world" where
  "put_entry w e key frm = w\<lparr>accts := (accts w)(e_buff e := (accts w (e_buff e))(key \<mapsto> frm))\<rparr>"

definition GetEntry :: "ledger_db \<Rightarrow> env_world \<Rightarrow> environment \<Rightarrow> cstring \<Rightarrow> AccountFrm option \<times> env_world" where
  "GetEntry D w e key =
     (case accts w (e_buff e) key of
        Some frm \<Rightarrow> (Some frm, w)
      | None \<Rightarrow>
          (case accts w (e_data e) key of
             Some frm \<Rightarrow> (Some frm, put_entry w e key frm)
           | None \<Rightarrow>
               (case AccountFromDB D key of
                  None \<Rightarrow> (None, w)
                | Some frm \<Rightarrow> (Some frm, put_entry w e key frm))))"

definition AddEntry :: "env_world \<Rightarrow> environment \<Rightarrow> cstring \<Rightarrow> AccountFrm \<Rightarrow> env_world" where
  "AddEntry w e key frm = put_entry w e key frm"

text \<open>\<^verbatim>\<open>Commit\<close> and \<^verbatim>\<open>ClearChangeBuf\<close> treat the settings and the accounts alike.\<close>

definition Commit_env :: "env_world \<Rightarrow> environment \<Rightarrow> env_world" where
  "Commit_env w e = w
     \<lparr>accts := (accts w)(e_data e := accts w (e_data e) ++ accts w (e_buff e), e_buff e := Map.empty),
      fee_docs := (fee_docs w)(e_data e := (case fee_docs w (e_buff e) of None \<Rightarrow> fee_docs w (e_data e) | d \<Rightarrow> d), e_buff e := None),
      validator_docs := (validator_docs w)(e_data e := (case validator_docs w (e_buff e) of None \<Rightarrow> validator_docs w (e_data e) | d \<Rightarrow> d), e_buff e := None)\<rparr>"

definition ClearChangeBuf_env :: "env_world \<Rightarrow> environment \<Rightarrow> env_world" where
  "ClearChangeBuf_env w e = w
     \<lparr>accts := (accts w)(e_buff e := Map.empty),
      fee_docs := (fee_docs w)(e_buff e := None),
      validator_docs := (validator_docs w)(e_buff e := None)\<rparr>"

text \<open>A frame on top of \<open>e\<close> with the unused number \<open>i\<close> for its buffer.\<close>

definition NewStackFrameEnv :: "env_world \<Rightarrow> environment \<Rightarrow> nat \<Rightarrow> environment \<times> env_world" where
  "NewStackFrameEnv w e i =
     (let e' = \<lparr>e_buff = i, e_data = e_buff e\<rparr> in (e', ClearChangeBuf_env w e'))"

section \<open>Settings\<close>

text \<open>\<^verbatim>\<open>settings_.Get\<close>: a document of the data is copied into the buffer.\<close>

definition get_fees :: "env_world \<Rightarrow> environment \<Rightarrow> (cstring \<times> int) list option \<times> env_world" where
  "get_fees w e =
     (case fee_docs w (e_buff e) of
        Some d \<Rightarrow> (Some d, w)
      | None \<Rightarrow> (fee_docs w (e_data e), w\<lparr>fee_docs := (fee_docs w)(e_buff e := fee_docs w (e_data e))\<rparr>))"

definition get_validator_doc :: "env_world \<Rightarrow> environment \<Rightarrow> (cstring \<times> cstring) list option \<times> env_world" where
  "get_validator_doc w e =
     (case validator_docs w (e_buff e) of
        Some d \<Rightarrow> (Some d, w)
      | None \<Rightarrow> (validator_docs w (e_data e), w\<lparr>validator_docs := (validator_docs w)(e_buff e := validator_docs w (e_data e))\<rparr>))"

definition UpdateFeeConfig :: "(cstring \<times> int) list \<Rightarrow> env_world \<Rightarrow> environment \<Rightarrow> env_world" where
  "UpdateFeeConfig feeConfig w e =
     (let (fees, w1) = get_fees w e;
          new = (case fees of None \<Rightarrow> feeConfig | Some d \<Rightarrow> fold (\<lambda>(k, v). om_assign k v) feeConfig d)
      in w1\<lparr>fee_docs := (fee_docs w1)(e_buff e := Some new)\<rparr>)"

record FeeConfig =
  gas_price_cfg :: int
  base_reserve :: int

definition FeeConfig_Type_GAS_PRICE :: int where "FeeConfig_Type_GAS_PRICE = 1"
definition FeeConfig_Type_BASE_RESERVE :: int where "FeeConfig_Type_BASE_RESERVE = 2"

fun vote_fees :: "(cstring \<times> int) list \<Rightarrow> bool \<Rightarrow> FeeConfig \<Rightarrow> bool \<times> FeeConfig" where
  "vote_fees [] change new_fee = (change, new_fee)"
| "vote_fees ((name, price) # rest) change new_fee =
     (let fee_type = sint (Stoi name) in
      if fee_type = FeeConfig_Type_GAS_PRICE then
        (if gas_price_cfg new_fee \<noteq> price then vote_fees rest True (new_fee\<lparr>gas_price_cfg := price\<rparr>)
         else vote_fees rest change new_fee)
      else if fee_type = FeeConfig_Type_BASE_RESERVE then
        (if base_reserve new_fee \<noteq> price then vote_fees rest True (new_fee\<lparr>base_reserve := price\<rparr>)
         else vote_fees rest change new_fee)
      else vote_fees rest change new_fee)"

definition GetVotedFee :: "FeeConfig \<Rightarrow> env_world \<Rightarrow> environment \<Rightarrow> (bool \<times> FeeConfig) \<times> env_world" where
  "GetVotedFee old_fee w e =
     (let (fees, w1) = get_fees w e in
      case fees of None \<Rightarrow> ((False, old_fee), w1) | Some d \<Rightarrow> (vote_fees d False old_fee, w1))"

text \<open>\<open>current\<close> are the validators of the last closed ledger with their pledged coins.\<close>

definition GetValidators :: "(cstring \<times> int) list \<Rightarrow> env_world \<Rightarrow> environment \<Rightarrow> (cstring \<times> cstring) list \<times> env_world" where
  "GetValidators current w e =
     (let (doc, w1) = get_validator_doc w e in
      case doc of
        Some d \<Rightarrow> (d, w1)
      | None \<Rightarrow>
          let d = map (\<lambda>(a, n). (a, ToString_int64 (word_of_int n))) current
          in (d, w1\<lparr>validator_docs := (validator_docs w1)(e_buff e := Some d)\<rparr>))"

definition UpdateNewValidators :: "(cstring \<times> cstring) list \<Rightarrow> env_world \<Rightarrow> environment \<Rightarrow> env_world" where
  "UpdateNewValidators d w e = w\<lparr>validator_docs := (validator_docs w)(e_buff e := Some d)\<rparr>"

definition GetVotedValidators ::
  "(cstring \<times> int) list \<Rightarrow> env_world \<Rightarrow> environment \<Rightarrow> (bool \<times> (cstring \<times> int) list) \<times> env_world" where
  "GetVotedValidators old_validator w e =
     (let (doc, w1) = get_validator_doc w e in
      case doc of
        None \<Rightarrow> ((False, old_validator), w1)
      | Some d \<Rightarrow> ((True, map (\<lambda>(a, n). (a, sint (Stoi64 n))) d), w1))"

section \<open>What an environment shows\<close>

definition env_view :: "ledger_db \<Rightarrow> env_world \<Rightarrow> environment \<Rightarrow> cstring \<rightharpoonup> AccountFrm" where
  "env_view D w e key =
     (case accts w (e_buff e) key of Some f \<Rightarrow> Some f
      | None \<Rightarrow> (case accts w (e_data e) key of Some f \<Rightarrow> Some f | None \<Rightarrow> AccountFromDB D key))"

text \<open>What it shows once the buffer is cleared.\<close>

definition env_base :: "ledger_db \<Rightarrow> env_world \<Rightarrow> environment \<Rightarrow> cstring \<rightharpoonup> AccountFrm" where
  "env_base D w e key = (case accts w (e_data e) key of Some f \<Rightarrow> Some f | None \<Rightarrow> AccountFromDB D key)"

definition proper :: "environment \<Rightarrow> bool" where
  "proper e \<longleftrightarrow> e_buff e \<noteq> e_data e"

named_theorems env_simps \<open>the view of an environment under its operations\<close>

lemma GetEntry_fst [env_simps]: "fst (GetEntry D w e key) = env_view D w e key"
  by (auto simp: GetEntry_def env_view_def split: option.split)

lemma put_entry_view [env_simps]: "env_view D (put_entry w e key f) e = (env_view D w e)(key \<mapsto> f)"
  if "proper e"
  using that by (auto simp: env_view_def put_entry_def proper_def fun_eq_iff split: option.split)

lemma put_entry_base [env_simps]: "proper e \<Longrightarrow> env_base D (put_entry w e key f) e = env_base D w e"
  by (auto simp: env_base_def put_entry_def proper_def fun_eq_iff split: option.split)

lemma GetEntry_view [env_simps]: "proper e \<Longrightarrow> env_view D (snd (GetEntry D w e key)) e = env_view D w e"
  by (auto simp: GetEntry_def put_entry_view fun_eq_iff split: option.split) (auto simp: env_view_def)

lemma GetEntry_base [env_simps]: "proper e \<Longrightarrow> env_base D (snd (GetEntry D w e key)) e = env_base D w e"
  by (auto simp: GetEntry_def put_entry_base split: option.split)

lemma Commit_view [env_simps]: "proper e \<Longrightarrow> env_view D (Commit_env w e) e = env_view D w e"
  by (auto simp: env_view_def Commit_env_def proper_def fun_eq_iff map_add_def split: option.split)

lemma Commit_base [env_simps]: "proper e \<Longrightarrow> env_base D (Commit_env w e) e = env_view D w e"
  by (auto simp: env_view_def env_base_def Commit_env_def proper_def fun_eq_iff map_add_def split: option.split)

lemma Clear_view [env_simps]: "proper e \<Longrightarrow> env_view D (ClearChangeBuf_env w e) e = env_base D w e"
  by (auto simp: env_view_def env_base_def ClearChangeBuf_env_def proper_def fun_eq_iff split: option.split)

lemma Clear_base [env_simps]: "proper e \<Longrightarrow> env_base D (ClearChangeBuf_env w e) e = env_base D w e"
  by (auto simp: env_base_def ClearChangeBuf_env_def proper_def fun_eq_iff split: option.split)

section \<open>Refinement of the store of shared pointers\<close>

definition account_values :: "(cstring, AccountFrm) world \<Rightarrow> nat \<Rightarrow> cstring \<rightharpoonup> AccountFrm" where
  "account_values w i key = Option.bind (maps w i key) (rec_value w)"

definition sim :: "(cstring, AccountFrm) world \<Rightarrow> env_world \<Rightarrow> bool" where
  "sim w W \<longleftrightarrow> accts W = account_values w"

definition env_of :: "atom_map \<Rightarrow> environment" where
  "env_of m = \<lparr>e_buff = am_buff m, e_data = am_data m\<rparr>"

definition no_deletion :: "(cstring, AccountFrm) world \<Rightarrow> bool" where
  "no_deletion w \<longleftrightarrow> (\<forall>i k r. maps w i k = Some r \<longrightarrow> r_type r \<noteq> DEL)"

lemma values_some:
  assumes "wf_world w" and "no_deletion w" and "maps w i k = Some r"
  obtains p where "r_ptr r = Some p" and "p < next_cell w" and "account_values w i k = Some (cells w p)"
proof -
  have "wf_rec w r" "r_type r \<noteq> DEL" using assms by (auto simp: wf_world_def no_deletion_def)
  then obtain p where "r_ptr r = Some p" "p < next_cell w" by (auto simp: wf_rec_def split: option.splits)
  then show thesis using that assms(3) \<open>r_type r \<noteq> DEL\<close> by (simp add: account_values_def rec_value_def)
qed

lemma values_put_fresh:
  assumes "wf_world w" and "t \<noteq> DEL"
  shows "account_values (put_fresh m w key v t) =
         (account_values w)(am_buff m := (account_values w (am_buff m))(key \<mapsto> v))"
proof (intro ext)
  fix i k
  have "rec_value (put_fresh m w key v t) r = rec_value w r" if "maps w i k = Some r" for r
    using that assms(1) by (intro rec_value_put_fresh) (auto simp: wf_world_def)
  then show "account_values (put_fresh m w key v t) i k =
      ((account_values w)(am_buff m := (account_values w (am_buff m))(key \<mapsto> v))) i k"
    using assms(2) by (cases "maps w i k")
      (auto simp: account_values_def maps_put_fresh rec_value_def RecordPtr_def put_fresh_def world_simps)
qed

lemma below_values:
  assumes "wf_world w" and "no_deletion w" and "sim w W"
  shows "below (AccountFromDB D) m w key = env_base D W (env_of m) key"
proof (cases "maps w (am_data m) key")
  case None
  then show ?thesis using assms(3) by (simp add: below_def env_base_def env_of_def sim_def account_values_def)
next
  case (Some r)
  then obtain p where "account_values w (am_data m) key = Some (cells w p)"
    using values_some [OF assms(1,2)] by blast
  then show ?thesis using Some assms(3)
    by (simp add: below_def env_base_def env_of_def sim_def account_values_def)
qed

text \<open>Reading an entry.\<close>

lemma Get_sim:
  assumes "wf_world w" and "no_deletion w" and "sim w W" and "Get (AccountFromDB D) w m key = (w', res)"
  shows "sim w' (snd (GetEntry D W (env_of m) key))"
    and "map_option (cells w') res = fst (GetEntry D W (env_of m) key)"
proof -
  have "sim w' (snd (GetEntry D W (env_of m) key)) \<and> map_option (cells w') res = fst (GetEntry D W (env_of m) key)"
  proof (cases "maps w (am_buff m) key")
    case None
    let ?t = "if maps w (am_data m) key = None then ADD else MOD"
    have buff: "accts W (am_buff m) key = None" using None assms(3) by (simp add: sim_def account_values_def)
    have get: "GetEntry D W (env_of m) key =
        (case env_base D W (env_of m) key of None \<Rightarrow> (None, W) | Some f \<Rightarrow> (Some f, put_entry W (env_of m) key f))"
      using buff by (auto simp: GetEntry_def env_base_def env_of_def split: option.split)
    show ?thesis
    proof (cases "env_base D W (env_of m) key")
      case missing: None
      then show ?thesis
        using assms GetValue_miss [OF assms(1) None, of "AccountFromDB D"] get
        by (auto simp: Atom_Map.Get_def below_values [OF assms(1-3)])
    next
      case (Some f)
      then have g: "w' = put_fresh m w key f ?t" "res = Some (next_cell w)"
        using assms(4) GetValue_miss [OF assms(1) None, of "AccountFromDB D"]
        by (simp_all add: Atom_Map.Get_def below_values [OF assms(1-3)])
      then have "cells w' (next_cell w) = f" by (simp add: put_fresh_def world_simps)
      then show ?thesis
        using g get Some assms(3) values_put_fresh [OF assms(1), of ?t m key f]
        by (simp add: sim_def put_entry_def env_of_def)
    qed
  next
    case (Some r)
    obtain p where p: "r_ptr r = Some p" "account_values w (am_buff m) key = Some (cells w p)"
      using values_some [OF assms(1,2) Some] by blast
    have "r_type r \<noteq> DEL" using Some assms(2) by (auto simp: no_deletion_def)
    then have "w' = w" "res = Some p" using assms(4) p Some by (simp_all add: Atom_Map.Get_def GetValue_hit)
    then show ?thesis using p assms(3) by (simp add: GetEntry_def env_of_def sim_def)
  qed
  then show "sim w' (snd (GetEntry D W (env_of m) key))"
    and "map_option (cells w') res = fst (GetEntry D W (env_of m) key)" by simp_all
qed

text \<open>Writing through the pointer of an entry in the change buffer.\<close>

lemma assign_sim:
  assumes "separated w m" and "sim w W"
    and "maps w (am_buff m) key = Some r" and "r_type r \<noteq> DEL" and "r_ptr r = Some p"
  shows "sim (assign w p v) (put_entry W (env_of m) key v)"
proof -
  have other: "r_ptr r' \<noteq> Some p" if "maps w i k = Some r'" and "i \<noteq> am_buff m \<or> k \<noteq> key" for i k r'
    using separatedD [OF assms(1,3,5)] that by metis
  have "account_values (assign w p v) i k =
      ((account_values w)(am_buff m := (account_values w (am_buff m))(key \<mapsto> v))) i k" for i k
  proof (cases "i = am_buff m \<and> k = key")
    case True
    then show ?thesis using assms(3-5) by (simp add: account_values_def rec_value_def assign_def)
  next
    case False
    then have "account_values (assign w p v) i k = account_values w i k"
      using other [of i k] by (cases "maps w i k") (auto simp: account_values_def rec_value_assign_other)
    then show ?thesis using False by auto
  qed
  then show ?thesis using assms(2) by (auto simp: sim_def put_entry_def env_of_def fun_eq_iff)
qed

text \<open>A new account, a commit, a roll-back and a stack frame.\<close>

lemma put_sim: "wf_world w \<Longrightarrow> sim w W \<Longrightarrow> sim (put m w key v) (AddEntry W (env_of m) key v)"
  by (simp add: put_eq values_put_fresh sim_def AddEntry_def put_entry_def env_of_def)

lemma rec_value_same:
  "rec_value (Atom_Map.ClearChangeBuf w m) = rec_value w"
  "rec_value (fst (Atom_Map.Commit w m bak)) = rec_value w"
  "rec_value (fst (NewStackFrame w m i)) = rec_value w"
  by (simp_all add: fun_eq_iff) (simp add: NewStackFrame_def clear_map_def rec_value_def)

lemma Commit_sim:
  assumes "wf_world w" and "no_deletion w" and "sim w W" and "am_buff m \<noteq> am_data m"
  shows "sim (fst (Atom_Map.Commit w m bak)) (Commit_env W (env_of m))"
proof -
  have data: "account_values (fst (Atom_Map.Commit w m bak)) (am_data m) key =
      (account_values w (am_data m) ++ account_values w (am_buff m)) key" for key
  proof (cases "maps w (am_buff m) key")
    case None
    then show ?thesis
      using assms(4) by (simp add: account_values_def maps_commit rec_value_same map_add_def)
  next
    case (Some r)
    then obtain p where "account_values w (am_buff m) key = Some (cells w p)"
      using values_some [OF assms(1,2)] by blast
    then show ?thesis
      using Some assms(4) by (simp add: account_values_def maps_commit rec_value_same map_add_def)
  qed
  have "account_values (fst (Atom_Map.Commit w m bak)) =
      (account_values w)(am_data m := account_values w (am_data m) ++ account_values w (am_buff m), am_buff m := Map.empty)"
    using assms(4) by (intro ext) (auto simp: data, auto simp: account_values_def maps_commit rec_value_same)
  then show ?thesis using assms(3) by (simp add: sim_def Commit_env_def env_of_def)
qed

lemma Clear_sim: "sim w W \<Longrightarrow> sim (Atom_Map.ClearChangeBuf w m) (ClearChangeBuf_env W (env_of m))"
  by (auto simp: sim_def ClearChangeBuf_env_def env_of_def account_values_def maps_clear rec_value_same fun_eq_iff)

lemma frame_sim:
  assumes "sim w W"
  shows "sim (fst (NewStackFrame w m i)) (snd (NewStackFrameEnv W (env_of m) i))"
    and "fst (NewStackFrameEnv W (env_of m) i) = env_of (snd (NewStackFrame w m i))"
proof -
  have "maps (fst (NewStackFrame w m i)) = (maps w)(i := Map.empty)"
    by (simp add: NewStackFrame_def clear_map_def)
  then show "sim (fst (NewStackFrame w m i)) (snd (NewStackFrameEnv W (env_of m) i))"
    using assms by (auto simp: sim_def NewStackFrameEnv_def ClearChangeBuf_env_def Let_def
        account_values_def rec_value_same fun_eq_iff)
  show "fst (NewStackFrameEnv W (env_of m) i) = env_of (snd (NewStackFrame w m i))"
    by (simp add: NewStackFrameEnv_def NewStackFrame_def env_of_def Let_def)
qed

end
