(* ===== verification/Chain_Msg.thy ===== *)
theory Chain_Msg
  imports Environment
begin

text \<open>
  The messages of a transaction (src/src/proto/chain.proto), the error codes
  (src/src/proto/common.proto), the table of gas (src/src/ledger/fee_calculate.cpp), the constants
  of \<^verbatim>\<open>General\<close> (src/src/common/general.h, general.cpp) that the application of transactions uses,
  and \<open>ledger_cfg\<close>, what it reads from the rest of the node.

  An operation is the protobuf message: its type selects which of its parts is used. A part that
  is tested for presence (\<^verbatim>\<open>has_priv\<close>, \<^verbatim>\<open>has_asset\<close>, \<^verbatim>\<open>has_validation\<close>) is an option. The
  description texts of results are left out.
\<close>

datatype ErrCode =
    ERRCODE_SUCCESS | ERRCODE_INTERNAL_ERROR | ERRCODE_INVALID_PARAMETER | ERRCODE_ALREADY_EXIST
  | ERRCODE_NOT_EXIST | ERRCODE_TX_TIMEOUT | ERRCODE_ACCESS_DENIED | ERRCODE_MATH_OVERFLOW
  | ERRCODE_EXPR_CONDITION_RESULT_FALSE | ERRCODE_EXPR_CONDITION_SYNTAX_ERROR
  | ERRCODE_INVALID_PUBKEY | ERRCODE_INVALID_PRIKEY | ERRCODE_ASSET_INVALID
  | ERRCODE_INVALID_SIGNATURE | ERRCODE_INVALID_ADDRESS | ERRCODE_MISSING_OPERATIONS
  | ERRCODE_TOO_MANY_OPERATIONS | ERRCODE_BAD_SEQUENCE | ERRCODE_ACCOUNT_LOW_RESERVE
  | ERRCODE_ACCOUNT_SOURCEDEST_EQUAL | ERRCODE_ACCOUNT_DEST_EXIST | ERRCODE_ACCOUNT_NOT_EXIST
  | ERRCODE_ACCOUNT_ASSET_LOW_RESERVE | ERRCODE_ACCOUNT_ASSET_AMOUNT_TOO_LARGE
  | ERRCODE_ACCOUNT_INIT_LOW_RESERVE | ERRCODE_FEE_NOT_ENOUGH | ERRCODE_FEE_INVALID
  | ERRCODE_OUT_OF_TXCACHE | ERRCODE_WEIGHT_NOT_VALID | ERRCODE_THRESHOLD_NOT_VALID
  | ERRCODE_INVALID_DATAVERSION | ERRCODE_TX_SIZE_TOO_BIG | ERRCODE_CONTRACT_EXECUTE_FAIL
  | ERRCODE_CONTRACT_SYNTAX_ERROR | ERRCODE_CONTRACT_TOO_MANY_RECURSION
  | ERRCODE_CONTRACT_TOO_MANY_TRANSACTIONS | ERRCODE_CONTRACT_EXECUTE_EXPIRED
  | ERRCODE_TX_INSERT_QUEUE_FAIL

text \<open>
  \<^verbatim>\<open>Result\<close> without its description. The contract result is a JSON value: null (\<open>None\<close>), the
  object with the address of a new contract, or what a script returned.
\<close>

datatype contract_json = AddressValue cstring | ScriptValue cstring

record Result =
  code :: ErrCode
  contract_result :: "contract_json option"

definition new_Result :: Result where
  "new_Result = \<lparr>code = ERRCODE_SUCCESS, contract_result = None\<rparr>"

section \<open>Operations\<close>

record OperationCreateAccount =
  ca_dest_address :: cstring
  ca_contract :: Contract
  ca_priv :: "AccountPrivilege option"
  ca_metadatas :: "KeyPair list"
  ca_init_balance :: int
  ca_init_input :: cstring

record OperationIssueAsset =
  ia_code :: cstring
  ia_amount :: int

record Asset =
  a_key :: AssetKey
  a_amount :: int

record OperationPayAsset =
  pa_dest_address :: cstring
  pa_asset :: "Asset option"
  pa_input :: cstring

record OperationSetMetadata =
  sm_key :: cstring
  sm_value :: cstring
  sm_version :: int
  sm_delete_flag :: bool

record OperationSetSignerWeight =
  sw_master_weight :: int
  sw_signers :: "Signer list"

record OperationSetThreshold =
  st_tx_threshold :: int
  st_type_thresholds :: "OperationTypeThreshold list"

record OperationPayCoin =
  pc_dest_address :: cstring
  pc_amount :: int
  pc_input :: cstring

record OperationLog =
  log_topic :: cstring
  log_datas :: "cstring list"

record OperationSetPrivilege =
  sp_master_weight :: cstring
  sp_signers :: "Signer list"
  sp_tx_threshold :: cstring
  sp_type_thresholds :: "OperationTypeThreshold list"

record Operation =
  op_type :: int
  op_source_address :: cstring
  op_metadata :: cstring
  create_account :: OperationCreateAccount
  issue_asset :: OperationIssueAsset
  pay_asset :: OperationPayAsset
  set_metadata :: OperationSetMetadata
  set_signer_weight :: OperationSetSignerWeight
  set_threshold :: OperationSetThreshold
  pay_coin :: OperationPayCoin
  op_log :: OperationLog
  set_privilege :: OperationSetPrivilege

definition Type_UNKNOWN :: int where "Type_UNKNOWN = 0"
definition Type_CREATE_ACCOUNT :: int where "Type_CREATE_ACCOUNT = 1"
definition Type_ISSUE_ASSET :: int where "Type_ISSUE_ASSET = 2"
definition Type_PAY_ASSET :: int where "Type_PAY_ASSET = 3"
definition Type_SET_METADATA :: int where "Type_SET_METADATA = 4"
definition Type_SET_SIGNER_WEIGHT :: int where "Type_SET_SIGNER_WEIGHT = 5"
definition Type_SET_THRESHOLD :: int where "Type_SET_THRESHOLD = 6"
definition Type_PAY_COIN :: int where "Type_PAY_COIN = 7"
definition Type_LOG :: int where "Type_LOG = 8"
definition Type_SET_PRIVILEGE :: int where "Type_SET_PRIVILEGE = 9"

text \<open>The sentinels that the protobuf compiler adds to an enumeration.\<close>

definition Type_INT_MIN :: int where "Type_INT_MIN = - (2 ^ 31)"
definition Type_INT_MAX :: int where "Type_INT_MAX = 2 ^ 31 - 1"

lemmas op_types = Type_UNKNOWN_def Type_CREATE_ACCOUNT_def Type_ISSUE_ASSET_def Type_PAY_ASSET_def
  Type_SET_METADATA_def Type_SET_SIGNER_WEIGHT_def Type_SET_THRESHOLD_def Type_PAY_COIN_def
  Type_LOG_def Type_SET_PRIVILEGE_def Type_INT_MIN_def Type_INT_MAX_def

definition empty_operation :: Operation where
  "empty_operation = \<lparr>op_type = 0, op_source_address = [], op_metadata = [],
     create_account = \<lparr>ca_dest_address = [], ca_contract = empty_contract, ca_priv = None, ca_metadatas = [],
       ca_init_balance = 0, ca_init_input = []\<rparr>,
     issue_asset = \<lparr>ia_code = [], ia_amount = 0\<rparr>,
     pay_asset = \<lparr>pa_dest_address = [], pa_asset = None, pa_input = []\<rparr>,
     set_metadata = \<lparr>sm_key = [], sm_value = [], sm_version = 0, sm_delete_flag = False\<rparr>,
     set_signer_weight = \<lparr>sw_master_weight = 0, sw_signers = []\<rparr>,
     set_threshold = \<lparr>st_tx_threshold = 0, st_type_thresholds = []\<rparr>,
     pay_coin = \<lparr>pc_dest_address = [], pc_amount = 0, pc_input = []\<rparr>,
     op_log = \<lparr>log_topic = [], log_datas = []\<rparr>,
     set_privilege = \<lparr>sp_master_weight = [], sp_signers = [], sp_tx_threshold = [], sp_type_thresholds = []\<rparr>\<rparr>"

section \<open>Transactions and consensus values\<close>

record Transaction =
  tx_source_address :: cstring
  tx_nonce :: int
  fee_limit :: int
  gas_price :: int
  ceil_ledger_seq :: int
  tx_metadata :: cstring
  operations :: "Operation list"
  chain_id :: int

record Signature =
  sig_public_key :: cstring
  sign_data :: cstring

record TransactionEnv =
  transaction :: Transaction
  signatures :: "Signature list"

definition empty_transaction :: Transaction where
  "empty_transaction = \<lparr>tx_source_address = [], tx_nonce = 0, fee_limit = 0, gas_price = 0, ceil_ledger_seq = 0,
     tx_metadata = [], operations = [], chain_id = 0\<rparr>"

record ConsensusValueValidation =
  expire_tx_ids :: "int list"
  error_tx_ids :: "int list"

record ConsensusValue =
  txs :: "TransactionEnv list"
  close_time :: int
  ledger_seq :: int
  validation :: "ConsensusValueValidation option"

section \<open>What the ledger reads from the node\<close>

text \<open>
  The version and the sequence of the last closed ledger, the current fees, the configured list of
  forbidden addresses and the chain number; the validators of the previous ledger (absent when
  they cannot be read), those of the last closed ledger with their pledged coins, and the hash of a
  stored ledger; the checks and encodings over the cryptographic libraries and protobuf:
  the form of an address, the address of a public key, signatures, hashes, the size of a message,
  the address that is made up from a text (\<^verbatim>\<open>PublicKey::Init\<close>, \<^verbatim>\<open>GetEncAddress\<close>); and the
  syntax check of a contract by the script engine.
\<close>

record ledger_cfg =
  version :: int
  lcl_seq :: int
  fee_config :: FeeConfig
  forbid_addrs :: "cstring list"
  self_chain_id :: int
  prev_validators :: "cstring list option"
  cur_validators :: "(cstring \<times> int) list"
  ledger_hash :: "int \<Rightarrow> cstring option"
  IsAddressValid :: "cstring \<Rightarrow> bool"
  PubKeyValid :: "cstring \<Rightarrow> bool"
  EncAddress :: "cstring \<Rightarrow> cstring"
  RawAddress :: "cstring \<Rightarrow> cstring"
  Verify :: "cstring \<Rightarrow> cstring \<Rightarrow> cstring \<Rightarrow> bool"
  ser_tx :: "Transaction \<Rightarrow> cstring"
  tx_hash :: "cstring \<Rightarrow> cstring"
  ByteSize :: "TransactionEnv \<Rightarrow> int"
  lint :: "cstring \<Rightarrow> ErrCode"

definition CHECK_VERSION_GT_1000 :: "ledger_cfg \<Rightarrow> bool" where
  "CHECK_VERSION_GT_1000 C \<longleftrightarrow> version C > 1000"

definition CHECK_VERSION_GT_1001 :: "ledger_cfg \<Rightarrow> bool" where
  "CHECK_VERSION_GT_1001 C \<longleftrightarrow> version C > 1001"

definition CHECK_VERSION_GT_1002 :: "ledger_cfg \<Rightarrow> bool" where
  "CHECK_VERSION_GT_1002 C \<longleftrightarrow> version C > 1002"

definition CONTRACT_VALIDATOR_ADDRESS :: cstring where
  "CONTRACT_VALIDATOR_ADDRESS = lit ''cegQtxgoaDrVJGtoPT66YnA2S84yE8FbBqQDJ''"
definition CONTRACT_FEE_ADDRESS :: cstring where
  "CONTRACT_FEE_ADDRESS = lit ''cegQiQgRerQM1fUM3GkqUftpNxGzNg2AdJBpe''"
definition RESERVED_CREATOR_ADDRESS :: cstring where
  "RESERVED_CREATOR_ADDRESS = lit ''cegQgCBN4MSZMWRfJbksh9PWpKqgY3tSEMM4d''"
definition CONTRACT_DPOS_ADDRESS :: cstring where
  "CONTRACT_DPOS_ADDRESS = lit ''cegQqzdS9YSnokDjvzg4YaNatcFQfkgXqk6ss''"

definition RESERVED_ADDRESSES :: "cstring list" where
  "RESERVED_ADDRESSES = map lit
     [''cegQcHGxxpPDBcPKys8cD5NY1CAiyAfFBjgtg'', ''cegQraU2Y5niuYyDdS7FNfJYRrGe8q21RmWc3'',
      ''cegQXoma4baahLbAcnZdC7hFqCHoAxbnytYxd'', ''cegQVpA6eKpuDcNfubXsgG9ihN32psE1jyygm'',
      ''cegQa9pRC8B38zd8Z47q97D4X5WwqhMry3VEm'']"

definition GET_CONTRACT_VALIDATOR_ADDRESS :: "ledger_cfg \<Rightarrow> cstring" where
  "GET_CONTRACT_VALIDATOR_ADDRESS C =
     (if CHECK_VERSION_GT_1002 C then CONTRACT_DPOS_ADDRESS else CONTRACT_VALIDATOR_ADDRESS)"

definition GET_CONTRACT_FEE_ADDRESS :: "ledger_cfg \<Rightarrow> cstring" where
  "GET_CONTRACT_FEE_ADDRESS C =
     (if CHECK_VERSION_GT_1002 C then CONTRACT_DPOS_ADDRESS else CONTRACT_FEE_ADDRESS)"

definition UINT32_MAX :: int where "UINT32_MAX = 2 ^ 32 - 1"
definition METADATA_KEY_MAXSIZE :: int where "METADATA_KEY_MAXSIZE = 1024"
definition METADATA_MAX_VALUE_SIZE :: int where "METADATA_MAX_VALUE_SIZE = 256 * 1024"
definition ASSET_CODE_MAX_SIZE :: int where "ASSET_CODE_MAX_SIZE = 64"
definition CONTRACT_CODE_LIMIT :: int where "CONTRACT_CODE_LIMIT = 256 * 1024"
definition CONTRACT_MAX_RECURSIVE_DEPTH :: nat where "CONTRACT_MAX_RECURSIVE_DEPTH = 4"
definition CONTRACT_STEP_LIMIT :: int where "CONTRACT_STEP_LIMIT = 10 * 1024"
definition CONTRACT_MEMORY_LIMIT :: int where "CONTRACT_MEMORY_LIMIT = 30 * 1024 * 1024"
definition CONTRACT_STACK_LIMIT :: int where "CONTRACT_STACK_LIMIT = 256 * 1024"
definition TRANSACTION_LOG_TOPIC_MAXSIZE :: int where "TRANSACTION_LOG_TOPIC_MAXSIZE = 128"
definition TRANSACTION_LOG_DATA_MAXSIZE :: int where "TRANSACTION_LOG_DATA_MAXSIZE = 1024"
definition TRANSACTION_LIMIT_SIZE :: int where "TRANSACTION_LIMIT_SIZE = 1024 * 1024"
definition MAX_OPERATIONS_NUM_PER_TRANSACTION :: int where "MAX_OPERATIONS_NUM_PER_TRANSACTION = 100"
definition TX_EXECUTE_TIME_OUT :: int where "TX_EXECUTE_TIME_OUT = 1000000"
definition BLOCK_EXECUTE_TIME_OUT :: int where "BLOCK_EXECUTE_TIME_OUT = 5 * 1000000"
definition REWARD_PERIOD :: int where "REWARD_PERIOD = (5 * 365 * 24 * 60 * 60) div 10"
definition REWARD_INIT_VALUE :: int where "REWARD_INIT_VALUE = 8 * 100000000"

section \<open>Gas\<close>

definition gas_issue_asset :: int where "gas_issue_asset = 5000000"
definition gas_create_contract :: int where "gas_create_contract = 1000000"

text \<open>Every other entry of \<^verbatim>\<open>OperationGasConfigure\<close> is zero.\<close>

definition GetOperationTypeGas :: "Operation \<Rightarrow> int" where
  "GetOperationTypeGas oper =
     (if op_type oper = Type_CREATE_ACCOUNT then
        (if payload (ca_contract (create_account oper)) \<noteq> [] then gas_create_contract else 0)
      else if op_type oper = Type_ISSUE_ASSET then gas_issue_asset
      else 0)"

end
