(* ===== verification/Operation_Check.thy ===== *)
theory Operation_Check
  imports Chain_Msg Split
begin

text \<open>
  The checks of the parameters of an operation, \<^verbatim>\<open>OperationFrm::CheckValid\<close> and what it calls
  (src/src/ledger/operation_frm.cpp, the depth check of src/src/contract/contract_manager.cpp).
  A check returns the error code. A loop of the source that leaves only the loop when it finds an
  error is an option, \<open>None\<close> for no error; \<open>or_else\<close> is the assignment of its error to the result.
\<close>

definition or_else :: "ErrCode \<Rightarrow> ErrCode option \<Rightarrow> ErrCode" where
  "or_else r x = (case x of None \<Rightarrow> r | Some e \<Rightarrow> e)"

definition isReservedAddress :: "cstring \<Rightarrow> bool" where
  "isReservedAddress addr \<longleftrightarrow> addr = CONTRACT_DPOS_ADDRESS \<or> addr \<in> set RESERVED_ADDRESSES"

text \<open>All of these addresses have 37 characters, which evaluation tests first.\<close>

lemma isReservedAddress_code [code]:
  "isReservedAddress addr = (if length addr = 37 then addr = CONTRACT_DPOS_ADDRESS \<or> addr \<in> set RESERVED_ADDRESSES else False)"
  by (auto simp: isReservedAddress_def CONTRACT_DPOS_ADDRESS_def RESERVED_ADDRESSES_def lit_def)

definition ReservedAddrAvailable :: "ledger_db \<Rightarrow> cstring \<Rightarrow> cstring \<Rightarrow> bool" where
  "ReservedAddrAvailable D src dest \<longleftrightarrow>
     \<not> (isReservedAddress dest \<and> src \<noteq> RESERVED_CREATOR_ADDRESS \<and> AccountFromDB D dest = None)"

definition weight_valid :: "int \<Rightarrow> bool" where
  "weight_valid n \<longleftrightarrow> \<not> (n < 0 \<or> n > UINT32_MAX)"

text \<open>The loop over the signers of a new account or of \<^verbatim>\<open>SetPrivilege\<close>.\<close>

fun check_signers :: "ledger_cfg \<Rightarrow> cstring \<Rightarrow> Signer list \<Rightarrow> cstring set \<Rightarrow> ErrCode option" where
  "check_signers C addr [] duplicate_set = None"
| "check_signers C addr (s # ss) duplicate_set =
     (if \<not> weight_valid (s_weight s) then Some ERRCODE_WEIGHT_NOT_VALID
      else if s_address s = addr then Some ERRCODE_INVALID_ADDRESS
      else if \<not> IsAddressValid C (s_address s) then Some ERRCODE_INVALID_ADDRESS
      else if s_address s \<in> duplicate_set then Some ERRCODE_INVALID_PARAMETER
      else check_signers C addr ss (insert (s_address s) duplicate_set))"

text \<open>The loop of \<^verbatim>\<open>SetSignerWeight\<close>, which does not look for duplicates.\<close>

fun check_signer_weights :: "ledger_cfg \<Rightarrow> cstring \<Rightarrow> Signer list \<Rightarrow> ErrCode option" where
  "check_signer_weights C addr [] = None"
| "check_signer_weights C addr (s # ss) =
     (if \<not> weight_valid (s_weight s) then Some ERRCODE_WEIGHT_NOT_VALID
      else if s_address s = addr then Some ERRCODE_INVALID_ADDRESS
      else if \<not> IsAddressValid C (s_address s) then Some ERRCODE_INVALID_ADDRESS
      else check_signer_weights C addr ss)"

definition type_supported :: "int \<Rightarrow> bool" where
  "type_supported t \<longleftrightarrow> \<not> (t > 100 \<or> t \<le> 0)"

fun check_type_thresholds :: "OperationTypeThreshold list \<Rightarrow> int set \<Rightarrow> ErrCode option" where
  "check_type_thresholds [] duplicate_type = None"
| "check_type_thresholds (t # ts) duplicate_type =
     (if \<not> type_supported (tt_type t) then Some ERRCODE_INVALID_PARAMETER
      else if tt_threshold t < 0 then Some ERRCODE_THRESHOLD_NOT_VALID
      else if tt_type t \<in> duplicate_type then Some ERRCODE_INVALID_PARAMETER
      else check_type_thresholds ts (insert (tt_type t) duplicate_type))"

fun check_set_thresholds :: "OperationTypeThreshold list \<Rightarrow> ErrCode option" where
  "check_set_thresholds [] = None"
| "check_set_thresholds (t # ts) =
     (if \<not> type_supported (tt_type t) then Some ERRCODE_THRESHOLD_NOT_VALID
      else if tt_threshold t < 0 then Some ERRCODE_THRESHOLD_NOT_VALID
      else check_set_thresholds ts)"

text \<open>The loop over the metadata of a new account, which goes on after an error.\<close>

fun check_metadatas :: "KeyPair list \<Rightarrow> ErrCode \<Rightarrow> ErrCode" where
  "check_metadatas [] r = r"
| "check_metadatas (kp # kps) r =
     (let r1 = (if length (kp_key kp) = 0 \<or> int (length (kp_key kp)) > METADATA_KEY_MAXSIZE
                then ERRCODE_INVALID_PARAMETER else r);
          r2 = (if int (length (kp_value kp)) > METADATA_MAX_VALUE_SIZE then ERRCODE_INVALID_PARAMETER else r1)
      in check_metadatas kps r2)"

definition SourceCodeCheck :: "ledger_cfg \<Rightarrow> cstring \<Rightarrow> nat \<Rightarrow> ErrCode" where
  "SourceCodeCheck C src ldcontext_stack_size =
     (if CHECK_VERSION_GT_1001 C \<and> ldcontext_stack_size > CONTRACT_MAX_RECURSIVE_DEPTH
      then ERRCODE_CONTRACT_TOO_MANY_RECURSION
      else lint C src)"

definition plain_priv :: "int \<Rightarrow> AccountPrivilege \<Rightarrow> AccountThreshold \<Rightarrow> bool" where
  "plain_priv w p t \<longleftrightarrow> master_weight p = w \<and> length (signers p) = 0 \<and> tx_threshold t = 1 \<and> length (type_thresholds t) = 0"

section \<open>Creating an account\<close>

definition CheckCreateAccountGt1000 :: "ledger_cfg \<Rightarrow> OperationCreateAccount \<Rightarrow> nat \<Rightarrow> ErrCode" where
  "CheckCreateAccountGt1000 C ca ldcontext_stack_size =
     (let code = payload (ca_contract ca);
          is_create_contract = (code \<noteq> []);
          dest = ca_dest_address ca;
          unimportant = (dest \<noteq> GET_CONTRACT_VALIDATOR_ADDRESS C \<and> dest \<noteq> GET_CONTRACT_FEE_ADDRESS C) in
      if is_create_contract \<and> dest \<noteq> [] \<and> unimportant then ERRCODE_INVALID_ADDRESS
      else if \<not> is_create_contract \<and> \<not> IsAddressValid C dest then ERRCODE_INVALID_ADDRESS
      else case ca_priv ca of
        None \<Rightarrow> ERRCODE_INVALID_PARAMETER
      | Some priv \<Rightarrow>
          if \<not> weight_valid (master_weight priv) then ERRCODE_WEIGHT_NOT_VALID
          else case thresholds priv of
            None \<Rightarrow> ERRCODE_INVALID_PARAMETER
          | Some threshold \<Rightarrow>
              if tx_threshold threshold < 0 then ERRCODE_THRESHOLD_NOT_VALID
              else
                let r = or_else ERRCODE_SUCCESS (check_type_thresholds (type_thresholds threshold) {}) in
                if is_create_contract then
                  if int (length code) > CONTRACT_CODE_LIMIT then ERRCODE_INVALID_PARAMETER
                  else if \<not> plain_priv 0 priv threshold then ERRCODE_INVALID_PARAMETER
                  else check_metadatas (ca_metadatas ca) (SourceCodeCheck C code ldcontext_stack_size)
                else if \<not> plain_priv 1 priv threshold then ERRCODE_INVALID_PARAMETER
                else check_metadatas (ca_metadatas ca) r)"

text \<open>The check of ledger versions up to 1000.\<close>

definition check_create_account_1000 :: "ledger_cfg \<Rightarrow> ledger_db \<Rightarrow> OperationCreateAccount \<Rightarrow> cstring \<Rightarrow> nat \<Rightarrow> ErrCode" where
  "check_create_account_1000 C D ca source ldcontext_stack_size =
     (let code = payload (ca_contract ca) in
      if \<not> IsAddressValid C (ca_dest_address ca) then ERRCODE_INVALID_ADDRESS
      else if \<not> ReservedAddrAvailable D source (ca_dest_address ca) then ERRCODE_INVALID_ADDRESS
      else case ca_priv ca of
        None \<Rightarrow> ERRCODE_INVALID_PARAMETER
      | Some priv \<Rightarrow>
          if \<not> weight_valid (master_weight priv) then ERRCODE_WEIGHT_NOT_VALID
          else case check_signers C (ca_dest_address ca) (signers priv) {} of
            Some e \<Rightarrow> e
          | None \<Rightarrow>
              (case thresholds priv of
                 None \<Rightarrow> ERRCODE_INVALID_PARAMETER
               | Some threshold \<Rightarrow>
                   if tx_threshold threshold < 0 then ERRCODE_THRESHOLD_NOT_VALID
                   else
                     let r = or_else ERRCODE_SUCCESS (check_type_thresholds (type_thresholds threshold) {}) in
                     if code \<noteq> [] then
                       if int (length code) > CONTRACT_CODE_LIMIT then ERRCODE_INVALID_PARAMETER
                       else if \<not> plain_priv 0 priv threshold then ERRCODE_INVALID_PARAMETER
                       else check_metadatas (ca_metadatas ca) (SourceCodeCheck C code ldcontext_stack_size)
                     else check_metadatas (ca_metadatas ca) r))"

section \<open>Privileges\<close>

definition CheckSetPrivilege :: "ledger_cfg \<Rightarrow> OperationSetPrivilege \<Rightarrow> cstring \<Rightarrow> ErrCode" where
  "CheckSetPrivilege C sp source =
     (let weight_bad = sp_master_weight sp \<noteq> [] \<and>
            (case SafeStoi64 (sp_master_weight sp) of None \<Rightarrow> True | Some w \<Rightarrow> \<not> weight_valid (sint w));
          threshold_bad = sp_tx_threshold sp \<noteq> [] \<and>
            (case SafeStoi64 (sp_tx_threshold sp) of None \<Rightarrow> True | Some t \<Rightarrow> sint t < 0) in
      if weight_bad then ERRCODE_WEIGHT_NOT_VALID
      else case check_signers C source (sp_signers sp) {} of
        Some e \<Rightarrow> e
      | None \<Rightarrow>
          if threshold_bad then ERRCODE_THRESHOLD_NOT_VALID
          else or_else ERRCODE_SUCCESS (check_type_thresholds (sp_type_thresholds sp) {}))"

section \<open>Every operation\<close>

definition check_pay_asset :: "ledger_cfg \<Rightarrow> OperationPayAsset \<Rightarrow> cstring \<Rightarrow> ErrCode" where
  "check_pay_asset C pa source =
     (let asset_bad = (case pa_asset pa of None \<Rightarrow> False
            | Some a \<Rightarrow> ak_type (a_key a) \<noteq> 0 \<or> a_amount a \<le> 0 \<or>
                length (ak_code (a_key a)) = 0 \<or> int (length (ak_code (a_key a))) > ASSET_CODE_MAX_SIZE \<or>
                \<not> IsAddressValid C (ak_issuer (a_key a))) in
      if asset_bad then ERRCODE_ASSET_INVALID
      else if source = pa_dest_address pa then ERRCODE_ACCOUNT_SOURCEDEST_EQUAL
      else if \<not> IsAddressValid C (pa_dest_address pa) then ERRCODE_INVALID_ADDRESS
      else ERRCODE_SUCCESS)"

definition check_issue_asset :: "OperationIssueAsset \<Rightarrow> ErrCode" where
  "check_issue_asset ia =
     (let trim_code = Trim (ia_code ia) in
      if ia_amount ia \<le> 0 then ERRCODE_ASSET_INVALID
      else if length trim_code = 0 \<or> int (length trim_code) > ASSET_CODE_MAX_SIZE \<or> length trim_code \<noteq> length (ia_code ia)
      then ERRCODE_ASSET_INVALID
      else ERRCODE_SUCCESS)"

definition check_set_metadata :: "OperationSetMetadata \<Rightarrow> ErrCode" where
  "check_set_metadata sm =
     (if length (sm_key sm) = 0 \<or> int (length (sm_key sm)) > METADATA_KEY_MAXSIZE then ERRCODE_INVALID_PARAMETER
      else if int (length (sm_value sm)) > METADATA_MAX_VALUE_SIZE then ERRCODE_INVALID_PARAMETER
      else ERRCODE_SUCCESS)"

definition check_pay_coin :: "ledger_cfg \<Rightarrow> ledger_db \<Rightarrow> OperationPayCoin \<Rightarrow> cstring \<Rightarrow> ErrCode" where
  "check_pay_coin C D pc source =
     (if pc_amount pc < 0 then ERRCODE_INVALID_PARAMETER
      else if source = pc_dest_address pc then ERRCODE_ACCOUNT_SOURCEDEST_EQUAL
      else if \<not> IsAddressValid C (pc_dest_address pc) then ERRCODE_INVALID_ADDRESS
      else if \<not> ReservedAddrAvailable D source (pc_dest_address pc) then ERRCODE_INVALID_ADDRESS
      else ERRCODE_SUCCESS)"

definition check_log :: "OperationLog \<Rightarrow> ErrCode" where
  "check_log l =
     (if length (log_topic l) = 0 \<or> int (length (log_topic l)) > TRANSACTION_LOG_TOPIC_MAXSIZE then ERRCODE_INVALID_PARAMETER
      else if \<exists>d\<in>set (log_datas l). length d = 0 \<or> int (length d) > TRANSACTION_LOG_DATA_MAXSIZE then ERRCODE_INVALID_PARAMETER
      else ERRCODE_SUCCESS)"

definition CheckValid_op :: "ledger_cfg \<Rightarrow> ledger_db \<Rightarrow> Operation \<Rightarrow> cstring \<Rightarrow> nat \<Rightarrow> ErrCode" where
  "CheckValid_op C D oper source ldcontext_stack_size =
     (let type = op_type oper in
      if \<not> IsAddressValid C source then ERRCODE_INVALID_ADDRESS
      else if source \<in> set (forbid_addrs C) then ERRCODE_INVALID_ADDRESS
      else if type = Type_CREATE_ACCOUNT then
        (if CHECK_VERSION_GT_1000 C then
           (if \<not> ReservedAddrAvailable D source (ca_dest_address (create_account oper)) then ERRCODE_INVALID_ADDRESS
            else CheckCreateAccountGt1000 C (create_account oper) ldcontext_stack_size)
         else check_create_account_1000 C D (create_account oper) source ldcontext_stack_size)
      else if type = Type_PAY_ASSET then check_pay_asset C (pay_asset oper) source
      else if type = Type_ISSUE_ASSET then check_issue_asset (issue_asset oper)
      else if type = Type_SET_METADATA then check_set_metadata (set_metadata oper)
      else if type = Type_SET_SIGNER_WEIGHT then
        (let sw = set_signer_weight oper in
         if sw_master_weight sw < -1 \<or> sw_master_weight sw > UINT32_MAX then ERRCODE_WEIGHT_NOT_VALID
         else or_else ERRCODE_SUCCESS (check_signer_weights C source (sw_signers sw)))
      else if type = Type_SET_THRESHOLD then
        (let st = set_threshold oper in
         if st_tx_threshold st < -1 then ERRCODE_THRESHOLD_NOT_VALID
         else or_else ERRCODE_SUCCESS (check_set_thresholds (st_type_thresholds st)))
      else if type = Type_PAY_COIN then check_pay_coin C D (pay_coin oper) source
      else if type = Type_LOG then check_log (op_log oper)
      else if type = Type_SET_PRIVILEGE then CheckSetPrivilege C (set_privilege oper) source
      else if type = Type_INT_MIN \<or> type = Type_INT_MAX then ERRCODE_SUCCESS
      else ERRCODE_INVALID_PARAMETER)"

end
