(* ===== verification/Operation.thy ===== *)
theory Operation
  imports Operation_Check Hex
begin

text \<open>
  The effect of an operation, \<^verbatim>\<open>OperationFrm\<close> (src/src/ledger/operation_frm.cpp), on the state
  in which a ledger is applied.

  The state holds the world of environments, the transaction objects by number, and the stack of
  transactions of the ledger context with the top at the head. An operation reads the accounts by
  \<^verbatim>\<open>GetEntry\<close> and writes through the pointers it got, which is \<open>put_entry\<close> at the address;
  \<open>read_entry\<close> is the dereference of such a pointer.

  An operation on an account with a contract calls \<^verbatim>\<open>ContractManager::Execute\<close>, here the
  argument \<open>exec\<close>, which theory Contract_Exec supplies. Its result is \<open>None\<close> when the script does not
  come to an end.
\<close>

record tx_frm =
  tf_env :: TransactionEnv
  tf_valid_signature :: "cstring set"
  tf_result :: Result
  tf_actual_gas :: int
  tf_processing :: nat
  tf_environment :: "environment option"
  tf_instructions :: "(TransactionEnv \<times> ErrCode) list"
  tf_contract_step :: int
  tf_memory_usage :: int
  tf_stack_max :: int
  tf_stack_usage :: int
  tf_max_end_time :: int
  tf_enable_check :: bool

record ledger_st =
  world :: env_world
  next_env :: nat
  tx_frms :: "nat \<Rightarrow> tx_frm"
  next_tx :: nat
  tx_stack :: "nat list"
  total_fee :: int
  value_seq :: int
  value_close_time :: int

record ContractParameter =
  cp_init :: bool
  cp_code :: cstring
  cp_input :: cstring
  cp_this_address :: cstring
  cp_block_number :: int
  cp_block_timestamp :: int
  cp_tx_initiator :: cstring
  cp_tx_sender :: cstring
  cp_tx_gas_price :: int
  cp_tx_fee_limit :: int
  cp_tx_hash :: cstring
  cp_msg_initiator :: cstring
  cp_msg_sender :: cstring
  cp_msg_asset :: "Asset option"
  cp_msg_coin_amount :: int
  cp_msg_operation_index :: nat
  cp_msg_nonce :: int

type_synonym executor = "ContractParameter \<Rightarrow> ledger_st \<Rightarrow> (Result \<times> ledger_st) option"

section \<open>Accessors\<close>

definition GetBottomTx :: "ledger_st \<Rightarrow> nat" where
  "GetBottomTx st = last (tx_stack st)"

definition GetTopTx :: "ledger_st \<Rightarrow> nat" where
  "GetTopTx st = hd (tx_stack st)"

definition GetSourceAddress :: "tx_frm \<Rightarrow> cstring" where
  "GetSourceAddress t = tx_source_address (transaction (tf_env t))"

definition GetNonce :: "tx_frm \<Rightarrow> int" where
  "GetNonce t = tx_nonce (transaction (tf_env t))"

definition GetOperatingSourceAddress :: "tx_frm \<Rightarrow> cstring" where
  "GetOperatingSourceAddress t =
     (let tran = transaction (tf_env t) in
      if tf_processing t \<ge> length (operations tran) then []
      else let oper = operations tran ! tf_processing t
           in if op_source_address oper \<noteq> [] then op_source_address oper else tx_source_address tran)"

definition read_entry :: "env_world \<Rightarrow> environment \<Rightarrow> cstring \<Rightarrow> AccountFrm" where
  "read_entry w e key = (case accts w (e_buff e) key of Some f \<Rightarrow> f | None \<Rightarrow> new_AccountFrm empty_account)"

definition with_world :: "(env_world \<Rightarrow> env_world) \<Rightarrow> ledger_st \<Rightarrow> ledger_st" where
  "with_world f st = st\<lparr>world := f (world st)\<rparr>"

definition upd_entry :: "environment \<Rightarrow> cstring \<Rightarrow> (AccountFrm \<Rightarrow> AccountFrm) \<Rightarrow> ledger_st \<Rightarrow> ledger_st" where
  "upd_entry e key f st = with_world (\<lambda>w. put_entry w e key (f (read_entry w e key))) st"

definition fail :: "ErrCode \<Rightarrow> Result" where
  "fail c = new_Result\<lparr>code := c\<rparr>"

text \<open>The parameter of a contract: block and bottom transaction are set alike by all operations.\<close>

definition contract_parameter ::
  "ledger_cfg \<Rightarrow> nat \<Rightarrow> cstring \<Rightarrow> bool \<Rightarrow> cstring \<Rightarrow> cstring \<Rightarrow> cstring \<Rightarrow> Asset option \<Rightarrow> int \<Rightarrow> ledger_st \<Rightarrow> ContractParameter" where
  "contract_parameter C t sender init js input this_addr asset amount st =
     (let bottom = tx_frms st (GetBottomTx st); me = tx_frms st t; btran = transaction (tf_env bottom) in
      \<lparr>cp_init = init, cp_code = js, cp_input = input, cp_this_address = this_addr,
       cp_block_number = value_seq st, cp_block_timestamp = value_close_time st,
       cp_tx_initiator = GetSourceAddress bottom, cp_tx_sender = GetOperatingSourceAddress bottom,
       cp_tx_gas_price = gas_price btran, cp_tx_fee_limit = fee_limit btran,
       cp_tx_hash = BinToHexString (tx_hash C (ser_tx C btran)),
       cp_msg_initiator = GetSourceAddress me, cp_msg_sender = sender, cp_msg_asset = asset,
       cp_msg_coin_amount = amount, cp_msg_operation_index = tf_processing me, cp_msg_nonce = GetNonce me\<rparr>)"

section \<open>Operations on the source account\<close>

definition IssueAsset :: "ledger_db \<Rightarrow> environment \<Rightarrow> cstring \<Rightarrow> OperationIssueAsset \<Rightarrow> ledger_st \<Rightarrow> Result \<times> ledger_st" where
  "IssueAsset D e source ia st =
     (let frm = read_entry (world st) e source;
          key = \<lparr>ak_issuer = acc_address (account_info frm), ak_code = ia_code ia, ak_type = 0\<rparr>;
          (found, frm1) = GetAsset D key frm;
          st1 = upd_entry e source (\<lambda>_. frm1) st in
      case found of
        None \<Rightarrow> (new_Result, upd_entry e source (SetAsset \<lparr>as_key = key, as_amount = ia_amount ia\<rparr>) st1)
      | Some asset_e \<Rightarrow>
          (case SafeIntAdd (as_amount asset_e) (ia_amount ia) of
             None \<Rightarrow> (fail ERRCODE_MATH_OVERFLOW, st1)
           | Some amount \<Rightarrow> (new_Result, upd_entry e source (SetAsset (asset_e\<lparr>as_amount := amount\<rparr>)) st1)))"

definition SetMetaData :: "ledger_db \<Rightarrow> environment \<Rightarrow> cstring \<Rightarrow> OperationSetMetadata \<Rightarrow> ledger_st \<Rightarrow> Result \<times> ledger_st" where
  "SetMetaData D e source sm st =
     (let (found, frm1) = GetMetaData D (sm_key sm) (read_entry (world st) e source);
          st1 = upd_entry e source (\<lambda>_. frm1) st;
          v = sm_version sm in
      if sm_delete_flag sm then
        (case found of
           None \<Rightarrow> (fail ERRCODE_NOT_EXIST, st1)
         | Some kp \<Rightarrow>
             if v \<noteq> 0 \<and> kp_version kp \<noteq> v then (fail ERRCODE_INVALID_DATAVERSION, st1)
             else if sm_key sm = [] then (fail ERRCODE_INVALID_PARAMETER, st1)
             else (new_Result, upd_entry e source (DeleteMetaData kp) st1))
      else
        (case found of
           Some kp \<Rightarrow>
             if v \<noteq> 0 \<and> wrap64 (kp_version kp + 1) \<noteq> v then (fail ERRCODE_INVALID_DATAVERSION, st1)
             else (new_Result, upd_entry e source
                     (SetMetaData_frm (kp\<lparr>kp_version := wrap64 (kp_version kp + 1), kp_value := sm_value sm\<rparr>)) st1)
         | None \<Rightarrow>
             if v \<noteq> 1 \<and> v \<noteq> 0 then (fail ERRCODE_INVALID_DATAVERSION, st1)
             else (new_Result, upd_entry e source
                     (SetMetaData_frm \<lparr>kp_key = sm_key sm, kp_value = sm_value sm, kp_version = 1\<rparr>) st1)))"

text \<open>The return values of \<^verbatim>\<open>UpdateSigner\<close> and \<^verbatim>\<open>UpdateTypeThreshold\<close> are not looked at.\<close>

definition update_signers :: "Signer list \<Rightarrow> AccountFrm \<Rightarrow> AccountFrm" where
  "update_signers ss = fold (\<lambda>s frm. snd (UpdateSigner (s_address s) (s_weight s) frm)) ss"

definition update_type_thresholds :: "OperationTypeThreshold list \<Rightarrow> AccountFrm \<Rightarrow> AccountFrm" where
  "update_type_thresholds ts = fold (\<lambda>t frm. snd (UpdateTypeThreshold (tt_type t) (tt_threshold t) frm)) ts"

definition SetSignerWeight :: "environment \<Rightarrow> cstring \<Rightarrow> OperationSetSignerWeight \<Rightarrow> ledger_st \<Rightarrow> Result \<times> ledger_st" where
  "SetSignerWeight e source sw st =
     (new_Result, upd_entry e source (\<lambda>frm. update_signers (sw_signers sw)
        (if sw_master_weight sw \<ge> 0 then SetProtoMasterWeight (sw_master_weight sw) frm else frm)) st)"

definition SetThreshold :: "environment \<Rightarrow> cstring \<Rightarrow> OperationSetThreshold \<Rightarrow> ledger_st \<Rightarrow> Result \<times> ledger_st" where
  "SetThreshold e source t st =
     (new_Result, upd_entry e source (\<lambda>frm. update_type_thresholds (st_type_thresholds t)
        (if st_tx_threshold t \<ge> 0 then SetProtoTxThreshold (st_tx_threshold t) frm else frm)) st)"

definition SetPrivilege :: "environment \<Rightarrow> cstring \<Rightarrow> OperationSetPrivilege \<Rightarrow> ledger_st \<Rightarrow> Result \<times> ledger_st" where
  "SetPrivilege e source sp st =
     (let w = sint (Stoi64 (sp_master_weight sp)); t = sint (Stoi64 (sp_tx_threshold sp)) in
      (new_Result, upd_entry e source (\<lambda>frm.
         let frm1 = (if sp_master_weight sp \<noteq> [] \<and> w \<ge> 0 then SetProtoMasterWeight w frm else frm);
             frm2 = update_signers (sp_signers sp) frm1;
             frm3 = (if sp_tx_threshold sp \<noteq> [] \<and> t \<ge> 0 then SetProtoTxThreshold t frm2 else frm2)
         in update_type_thresholds (sp_type_thresholds sp) frm3) st))"

section \<open>Payments\<close>

definition run_contract ::
  "ledger_cfg \<Rightarrow> executor \<Rightarrow> nat \<Rightarrow> cstring \<Rightarrow> cstring \<Rightarrow> cstring \<Rightarrow> cstring \<Rightarrow> Asset option \<Rightarrow> int \<Rightarrow> ledger_st \<Rightarrow> (Result \<times> ledger_st) option" where
  "run_contract C exec t sender js input this_addr asset amount st =
     (if js = [] then Some (new_Result, st)
      else exec (contract_parameter C t sender False js input this_addr asset amount st) st)"

definition new_dest_account :: "cstring \<Rightarrow> AccountFrm" where
  "new_dest_account dest = new_AccountFrm (empty_account\<lparr>acc_balance := 0,
     acc_priv := \<lparr>master_weight = 1, signers = [], thresholds = Some \<lparr>tx_threshold = 1, type_thresholds = []\<rparr>\<rparr>,
     acc_address := dest\<rparr>)"

text \<open>The transfer of \<^verbatim>\<open>PayCoin\<close> between two accounts that are in the buffer.\<close>

definition move_coins :: "environment \<Rightarrow> cstring \<Rightarrow> cstring \<Rightarrow> int \<Rightarrow> ledger_st \<Rightarrow> ErrCode \<times> ledger_st" where
  "move_coins e source dest amount st =
     (case SafeIntSub (balance (read_entry (world st) e source)) amount of
        None \<Rightarrow> (ERRCODE_MATH_OVERFLOW, st)
      | Some src_balance \<Rightarrow>
          (let st1 = upd_entry e source (set_balance src_balance) st in
           case SafeIntAdd (balance (read_entry (world st1) e dest)) amount of
             None \<Rightarrow> (ERRCODE_MATH_OVERFLOW, st1)
           | Some dest_balance \<Rightarrow> (ERRCODE_SUCCESS, upd_entry e dest (set_balance dest_balance) st1)))"

definition PayCoin ::
  "ledger_cfg \<Rightarrow> ledger_db \<Rightarrow> executor \<Rightarrow> nat \<Rightarrow> environment \<Rightarrow> cstring \<Rightarrow> OperationPayCoin \<Rightarrow> ledger_st \<Rightarrow> (Result \<times> ledger_st) option" where
  "PayCoin C D exec t e source pc st =
     (let reserve_coin = base_reserve (fee_config C); dest = pc_dest_address pc; amount = pc_amount pc;
          src = read_entry (world st) e source in
      case SafeIntAdd amount reserve_coin of
        None \<Rightarrow> Some (fail ERRCODE_MATH_OVERFLOW, st)
      | Some min_balance \<Rightarrow>
          if balance src < min_balance then Some (fail ERRCODE_ACCOUNT_LOW_RESERVE, st)
          else
            let (found, w1) = GetEntry D (world st) e dest; st1 = st\<lparr>world := w1\<rparr> in
            if found = None \<and> amount < reserve_coin then Some (fail ERRCODE_ACCOUNT_INIT_LOW_RESERVE, st1)
            else
              let st2 = (if found = None then with_world (\<lambda>w. AddEntry w e dest (new_dest_account dest)) st1 else st1);
                  (c, st3) = move_coins e source dest amount st2 in
              if c \<noteq> ERRCODE_SUCCESS then Some (fail c, st3)
              else run_contract C exec t (address (read_entry (world st3) e source))
                     (code_of (read_entry (world st3) e dest)) (pc_input pc) dest None amount st3)"

text \<open>The transfer of \<^verbatim>\<open>PayAsset\<close>: the amount of the sender, then that of the receiver.\<close>

definition move_asset :: "ledger_db \<Rightarrow> environment \<Rightarrow> cstring \<Rightarrow> cstring \<Rightarrow> Asset \<Rightarrow> ledger_st \<Rightarrow> ErrCode \<times> ledger_st" where
  "move_asset D e source dest a st =
     (let key = a_key a;
          (found, frm1) = GetAsset D key (read_entry (world st) e source);
          st1 = upd_entry e source (\<lambda>_. frm1) st in
      case found of
        None \<Rightarrow> (ERRCODE_ACCOUNT_ASSET_LOW_RESERVE, st1)
      | Some asset_e \<Rightarrow>
          if ak_type key \<noteq> 0 then (ERRCODE_ASSET_INVALID, st1)
          else case SafeIntSub (as_amount asset_e) (a_amount a) of
            None \<Rightarrow> (ERRCODE_MATH_OVERFLOW, st1)
          | Some sender_amount \<Rightarrow>
              if sender_amount < 0 then (ERRCODE_ACCOUNT_ASSET_LOW_RESERVE, st1)
              else
                let st2 = upd_entry e source (SetAsset (asset_e\<lparr>as_amount := sender_amount\<rparr>)) st1;
                    (dest_found, frm2) = GetAsset D key (read_entry (world st2) e dest);
                    st3 = upd_entry e dest (\<lambda>_. frm2) st2 in
                (case dest_found of
                   None \<Rightarrow> (ERRCODE_SUCCESS, upd_entry e dest (SetAsset \<lparr>as_key = key, as_amount = a_amount a\<rparr>) st3)
                 | Some dest_asset \<Rightarrow>
                     (case SafeIntAdd (as_amount dest_asset) (a_amount a) of
                        None \<Rightarrow> (ERRCODE_MATH_OVERFLOW, st3)
                      | Some receiver_amount \<Rightarrow>
                          (ERRCODE_SUCCESS, upd_entry e dest (SetAsset (dest_asset\<lparr>as_amount := receiver_amount\<rparr>)) st3))))"

definition PayAsset ::
  "ledger_cfg \<Rightarrow> ledger_db \<Rightarrow> executor \<Rightarrow> nat \<Rightarrow> environment \<Rightarrow> cstring \<Rightarrow> OperationPayAsset \<Rightarrow> ledger_st \<Rightarrow> (Result \<times> ledger_st) option" where
  "PayAsset C D exec t e source pa st =
     (let dest = pa_dest_address pa; (found, w1) = GetEntry D (world st) e dest; st1 = st\<lparr>world := w1\<rparr> in
      if found = None then Some (fail ERRCODE_ACCOUNT_NOT_EXIST, st1)
      else
        let (c, st2) = (case pa_asset pa of None \<Rightarrow> (ERRCODE_SUCCESS, st1) | Some a \<Rightarrow> move_asset D e source dest a st1) in
        if c \<noteq> ERRCODE_SUCCESS then Some (fail c, st2)
        else run_contract C exec t (address (read_entry (world st2) e source))
               (code_of (read_entry (world st2) e dest)) (pa_input pa) dest (pa_asset pa) 0 st2)"

section \<open>Creating an account\<close>

definition raw_pkey :: "cstring \<Rightarrow> int \<Rightarrow> nat \<Rightarrow> cstring" where
  "raw_pkey source n index =
     source @ lit ''-'' @ ToString_int64 (word_of_int n) @ lit ''-'' @ ToString_int (word_of_int (int index))"

text \<open>The metadata of the new account; the flag is false when a version is neither 0 nor 1.\<close>

fun add_metadatas :: "KeyPair list \<Rightarrow> AccountFrm \<Rightarrow> bool \<times> AccountFrm" where
  "add_metadatas [] frm = (True, frm)"
| "add_metadatas (kp # kps) frm =
     (if kp_version kp \<noteq> 0 \<and> kp_version kp \<noteq> 1 then (False, frm)
      else add_metadatas kps (SetMetaData_frm (kp\<lparr>kp_version := 1\<rparr>) frm))"

definition ChangeCreateContractAmount :: "ledger_cfg \<Rightarrow> int \<Rightarrow> int \<Rightarrow> int" where
  "ChangeCreateContractAmount C init_amount changed_amount =
     (if CHECK_VERSION_GT_1001 C then init_amount else changed_amount)"

definition created_account :: "cstring \<Rightarrow> OperationCreateAccount \<Rightarrow> AccountFrm" where
  "created_account dest ca = new_AccountFrm (empty_account\<lparr>acc_balance := ca_init_balance ca,
     acc_priv := (case ca_priv ca of None \<Rightarrow> empty_priv | Some p \<Rightarrow> p), acc_address := dest, acc_contract := Some (ca_contract ca)\<rparr>)"

definition CreateAccount ::
  "ledger_cfg \<Rightarrow> ledger_db \<Rightarrow> executor \<Rightarrow> nat \<Rightarrow> nat \<Rightarrow> environment \<Rightarrow> cstring \<Rightarrow> OperationCreateAccount \<Rightarrow> ledger_st \<Rightarrow> (Result \<times> ledger_st) option" where
  "CreateAccount C D exec t index e source ca st =
     (let me = tx_frms st t;
          dest = (if ca_dest_address ca = [] then RawAddress C (raw_pkey (GetSourceAddress me) (GetNonce me) index)
                  else ca_dest_address ca);
          reserve = base_reserve (fee_config C); init = ca_init_balance ca;
          (found, w1) = GetEntry D (world st) e dest; st1 = st\<lparr>world := w1\<rparr>;
          src = read_entry (world st1) e source in
      if found \<noteq> None then Some (fail ERRCODE_ACCOUNT_DEST_EXIST, st1)
      else if init < reserve then Some (fail ERRCODE_ACCOUNT_INIT_LOW_RESERVE, st1)
      else case SafeIntSub (balance src) reserve of
        None \<Rightarrow> Some (fail ERRCODE_MATH_OVERFLOW, st1)
      | Some limit_balance \<Rightarrow>
          if limit_balance < init then Some (fail ERRCODE_ACCOUNT_LOW_RESERVE, st1)
          else case AddBalance (wrap64 (-1 * init)) src of
            None \<Rightarrow> Some (fail ERRCODE_MATH_OVERFLOW, st1)
          | Some src1 \<Rightarrow>
              let st2 = upd_entry e source (\<lambda>_. src1) st1;
                  (ok, frm) = add_metadatas (ca_metadatas ca) (created_account dest ca) in
              if \<not> ok then Some (fail ERRCODE_INVALID_DATAVERSION, st2)
              else
                let st3 = with_world (\<lambda>w. AddEntry w e dest frm) st2 in
                if payload (ca_contract ca) = [] then Some (new_Result, st3)
                else
                  (case exec (contract_parameter C t (address src1) True (payload (ca_contract ca)) (ca_init_input ca) dest None
                               (ChangeCreateContractAmount C init 0) st3) st3 of
                     None \<Rightarrow> None
                   | Some (r, st4) \<Rightarrow>
                       Some (if code r = ERRCODE_SUCCESS then r\<lparr>contract_result := Some (AddressValue dest)\<rparr> else r, st4)))"

section \<open>The dispatch\<close>

definition op_source :: "tx_frm \<Rightarrow> Operation \<Rightarrow> cstring" where
  "op_source me oper = (if op_source_address oper = [] then GetSourceAddress me else op_source_address oper)"

definition Apply_op ::
  "ledger_cfg \<Rightarrow> ledger_db \<Rightarrow> executor \<Rightarrow> nat \<Rightarrow> nat \<Rightarrow> environment \<Rightarrow> Operation \<Rightarrow> ledger_st \<Rightarrow> (Result \<times> ledger_st) option" where
  "Apply_op C D exec t index e oper st =
     (let source = op_source (tx_frms st t) oper;
          (found, w1) = GetEntry D (world st) e source; st1 = st\<lparr>world := w1\<rparr>; type = op_type oper in
      if found = None then Some (fail ERRCODE_ACCOUNT_NOT_EXIST, st1)
      else if type = Type_UNKNOWN then Some (new_Result, st1)
      else if type = Type_CREATE_ACCOUNT then CreateAccount C D exec t index e source (create_account oper) st1
      else if type = Type_PAY_ASSET then PayAsset C D exec t e source (pay_asset oper) st1
      else if type = Type_ISSUE_ASSET then Some (IssueAsset D e source (issue_asset oper) st1)
      else if type = Type_SET_METADATA then Some (SetMetaData D e source (set_metadata oper) st1)
      else if type = Type_SET_SIGNER_WEIGHT then Some (SetSignerWeight e source (set_signer_weight oper) st1)
      else if type = Type_SET_THRESHOLD then Some (SetThreshold e source (set_threshold oper) st1)
      else if type = Type_PAY_COIN then PayCoin C D exec t e source (pay_coin oper) st1
      else if type = Type_LOG then Some (new_Result, st1)
      else if type = Type_SET_PRIVILEGE then Some (SetPrivilege e source (set_privilege oper) st1)
      else if type = Type_INT_MIN \<or> type = Type_INT_MAX then Some (new_Result, st1)
      else Some (fail ERRCODE_INVALID_PARAMETER, st1))"

end
