(* ===== verification/Transaction_Frm.thy ===== *)
theory Transaction_Frm
  imports Operation
begin

text \<open>
  The transaction, \<^verbatim>\<open>TransactionFrm\<close> (src/src/ledger/transaction_frm.h, transaction_frm.cpp): its
  checks, its fee and its application. A transaction object is named by its number in the state.

  A function with an error code returns \<^verbatim>\<open>ERRCODE_SUCCESS\<close> for \<^verbatim>\<open>true\<close> and records another
  code in the transaction's result. The outer option is \<open>None\<close> where \<^verbatim>\<open>SafeIntMul\<close> traps or a
  contract does not come to an end. \<^verbatim>\<open>ValidForParameter\<close> is only called before \<^verbatim>\<open>Apply\<close> has set
  \<^verbatim>\<open>ledger_\<close>, so it compares with the sequence after the last closed ledger.
\<close>

section \<open>Construction\<close>

definition valid_signatures :: "ledger_cfg \<Rightarrow> TransactionEnv \<Rightarrow> cstring set" where
  "valid_signatures C env =
     (let data = ser_tx C (transaction env) in
      set (map (EncAddress C \<circ> sig_public_key)
        (filter (\<lambda>s. PubKeyValid C (sig_public_key s) \<and> Verify C data (sign_data s) (sig_public_key s)) (signatures env))))"

definition new_TransactionFrm :: "ledger_cfg \<Rightarrow> TransactionEnv \<Rightarrow> tx_frm" where
  "new_TransactionFrm C env =
     \<lparr>tf_env = env, tf_valid_signature = valid_signatures C env, tf_result = new_Result, tf_actual_gas = 0,
      tf_processing = 0, tf_environment = None, tf_instructions = [], tf_contract_step = 0,
      tf_memory_usage = 0, tf_stack_max = 0, tf_stack_usage = 0, tf_max_end_time = 0, tf_enable_check = False\<rparr>"

definition upd_tx :: "nat \<Rightarrow> (tx_frm \<Rightarrow> tx_frm) \<Rightarrow> ledger_st \<Rightarrow> ledger_st" where
  "upd_tx t f st = st\<lparr>tx_frms := (tx_frms st)(t := f (tx_frms st t))\<rparr>"

definition set_code :: "ErrCode \<Rightarrow> tx_frm \<Rightarrow> tx_frm" where
  "set_code c t = t\<lparr>tf_result := (tf_result t)\<lparr>code := c\<rparr>\<rparr>"

text \<open>A new transaction object; the result is its number.\<close>

definition alloc_tx :: "ledger_cfg \<Rightarrow> TransactionEnv \<Rightarrow> ledger_st \<Rightarrow> nat \<times> ledger_st" where
  "alloc_tx C env st =
     (next_tx st, st\<lparr>tx_frms := (tx_frms st)(next_tx st := new_TransactionFrm C env), next_tx := Suc (next_tx st)\<rparr>)"

section \<open>Limits of a contract\<close>

definition IsExpire :: "int \<Rightarrow> nat \<Rightarrow> ledger_st \<Rightarrow> bool \<times> ledger_st" where
  "IsExpire now t st =
     (let me = tx_frms st t in
      if \<not> tf_enable_check me then (False, st)
      else if tf_contract_step me > CONTRACT_STEP_LIMIT \<or>
              (tf_max_end_time me \<noteq> 0 \<and> now > tf_max_end_time me) \<or>
              tf_memory_usage me > CONTRACT_MEMORY_LIMIT \<or>
              tf_stack_usage me > CONTRACT_STACK_LIMIT
      then (True, upd_tx t (set_code ERRCODE_CONTRACT_EXECUTE_EXPIRED) st)
      else (False, st))"

definition ApplyExpireResult :: "nat \<Rightarrow> ledger_st \<Rightarrow> ledger_st" where
  "ApplyExpireResult t = upd_tx t (set_code ERRCODE_CONTRACT_EXECUTE_EXPIRED)"

section \<open>Signatures\<close>

text \<open>The loop over the signers, with the weight that is still missing.\<close>

fun signer_loop :: "cstring set \<Rightarrow> Signer list \<Rightarrow> int \<Rightarrow> bool" where
  "signer_loop valid [] threshold = False"
| "signer_loop valid (s # ss) threshold =
     (let th = (if s_address s \<in> valid then threshold - s_weight s else threshold)
      in if th \<le> 0 then True else signer_loop valid ss th)"

definition SignerHashPriv :: "cstring set \<Rightarrow> AccountFrm \<Rightarrow> int \<Rightarrow> bool" where
  "SignerHashPriv valid frm type =
     (let priv = acc_priv (account_info frm);
          type_threshold = GetTypeThreshold type frm;
          t0 = (if type_threshold > 0 then type_threshold else tx_threshold (thresholds_of priv));
          t1 = (if address frm \<in> valid then t0 - master_weight priv else t0)
      in if t1 \<le> 0 then True else signer_loop valid (signers priv) t1)"

definition CheckSignature :: "ledger_db \<Rightarrow> nat \<Rightarrow> environment \<Rightarrow> Operation \<Rightarrow> ledger_st \<Rightarrow> ErrCode \<times> ledger_st" where
  "CheckSignature D t e oper st =
     (let (found, w1) = GetEntry D (world st) e (op_source (tx_frms st t) oper); st1 = st\<lparr>world := w1\<rparr> in
      case found of
        None \<Rightarrow> (ERRCODE_ACCOUNT_NOT_EXIST, st1)
      | Some frm \<Rightarrow>
          if SignerHashPriv (tf_valid_signature (tx_frms st t)) frm (op_type oper)
          then (ERRCODE_SUCCESS, st1) else (ERRCODE_INVALID_SIGNATURE, st1))"

section \<open>Parameters and fees\<close>

definition GetSelfGas :: "ledger_cfg \<Rightarrow> tx_frm \<Rightarrow> int" where
  "GetSelfGas C t = ByteSize C (tf_env t) + sum_list (map GetOperationTypeGas (operations (transaction (tf_env t))))"

fun check_operations :: "ledger_cfg \<Rightarrow> ledger_db \<Rightarrow> cstring \<Rightarrow> nat \<Rightarrow> Operation list \<Rightarrow> ErrCode" where
  "check_operations C D source stack_size [] = ERRCODE_SUCCESS"
| "check_operations C D source stack_size (oper # opers) =
     (let ope_source = (if op_source_address oper \<noteq> [] then op_source_address oper else source);
          c = CheckValid_op C D oper ope_source stack_size in
      if \<not> IsAddressValid C ope_source then ERRCODE_INVALID_ADDRESS
      else if int (length (op_metadata oper)) > METADATA_MAX_VALUE_SIZE then ERRCODE_INVALID_PARAMETER
      else if c \<noteq> ERRCODE_SUCCESS then c
      else check_operations C D source stack_size opers)"

definition ValidForParameter :: "ledger_cfg \<Rightarrow> ledger_db \<Rightarrow> nat \<Rightarrow> TransactionEnv \<Rightarrow> ErrCode" where
  "ValidForParameter C D ldcontext_stack_size env =
     (let tran = transaction env; n = length (operations tran); current_ledger_seq = lcl_seq C + 1;
          first_tx = (ldcontext_stack_size = 0) in
      if ByteSize C env \<ge> TRANSACTION_LIMIT_SIZE then ERRCODE_TX_SIZE_TOO_BIG
      else if n = 0 then ERRCODE_MISSING_OPERATIONS
      else if int n > MAX_OPERATIONS_NUM_PER_TRANSACTION then ERRCODE_TOO_MANY_OPERATIONS
      else if int (length (tx_metadata tran)) > METADATA_MAX_VALUE_SIZE then ERRCODE_INVALID_PARAMETER
      else if ceil_ledger_seq tran > 0 \<and> ceil_ledger_seq tran < current_ledger_seq then ERRCODE_INVALID_PARAMETER
      else if ceil_ledger_seq tran < 0 then ERRCODE_INVALID_PARAMETER
      else if first_tx \<and> fee_limit tran < 0 then ERRCODE_INVALID_PARAMETER
      else if first_tx \<and> gas_price tran < max 0 (gas_price_cfg (fee_config C)) then ERRCODE_INVALID_PARAMETER
      else check_operations C D (tx_source_address tran) ldcontext_stack_size (operations tran))"

definition CheckFee :: "ledger_cfg \<Rightarrow> tx_frm \<Rightarrow> AccountFrm \<Rightarrow> ErrCode option" where
  "CheckFee C t frm =
     (let tran = transaction (tf_env t); self_gas = GetSelfGas C t in
      case SafeIntSub (balance frm) (fee_limit tran) of
        None \<Rightarrow> Some ERRCODE_MATH_OVERFLOW
      | Some limit_balance \<Rightarrow>
          if limit_balance < base_reserve (fee_config C) then Some ERRCODE_ACCOUNT_LOW_RESERVE
          else if mul_trap self_gas (gas_price tran) then None
          else case SafeIntMul self_gas (gas_price tran) of
            None \<Rightarrow> Some ERRCODE_INVALID_PARAMETER
          | Some tx_fee \<Rightarrow> Some (if fee_limit tran < tx_fee then ERRCODE_FEE_NOT_ENOUGH else ERRCODE_SUCCESS))"

text \<open>The gas of a transaction goes to the bottom one, whose fee limit it must not exceed.\<close>

definition AddActualFee :: "ledger_cfg \<Rightarrow> nat \<Rightarrow> ledger_st \<Rightarrow> (ErrCode \<times> ledger_st) option" where
  "AddActualFee C t st =
     (let b = GetBottomTx st;
          st1 = upd_tx b (\<lambda>x. x\<lparr>tf_actual_gas := wrap64 (tf_actual_gas x + GetSelfGas C (tx_frms st t))\<rparr>) st;
          gas = tf_actual_gas (tx_frms st1 b); tran = transaction (tf_env (tx_frms st1 b)) in
      if mul_trap gas (gas_price tran) then None
      else case SafeIntMul gas (gas_price tran) of
        None \<Rightarrow> Some (ERRCODE_MATH_OVERFLOW, upd_tx t (set_code ERRCODE_MATH_OVERFLOW) st1)
      | Some actual_fee \<Rightarrow>
          if actual_fee > fee_limit tran
          then Some (ERRCODE_FEE_NOT_ENOUGH, upd_tx t (set_code ERRCODE_FEE_NOT_ENOUGH) st1)
          else Some (ERRCODE_SUCCESS, st1))"

definition ValidForApply :: "ledger_cfg \<Rightarrow> ledger_db \<Rightarrow> nat \<Rightarrow> environment \<Rightarrow> bool \<Rightarrow> ledger_st \<Rightarrow> (ErrCode \<times> ledger_st) option" where
  "ValidForApply C D t e check_priv st =
     (let me = tx_frms st t; c = ValidForParameter C D 0 (tf_env me);
          (found, w1) = GetEntry D (world st) e (GetSourceAddress me); st1 = st\<lparr>world := w1\<rparr> in
      if c \<noteq> ERRCODE_SUCCESS then Some (c, upd_tx t (set_code c) st)
      else case found of
        None \<Rightarrow> Some (ERRCODE_ACCOUNT_NOT_EXIST, upd_tx t (set_code ERRCODE_ACCOUNT_NOT_EXIST) st1)
      | Some frm \<Rightarrow>
          if wrap64 (GetAccountNonce frm + 1) \<noteq> GetNonce me
          then Some (ERRCODE_BAD_SEQUENCE, upd_tx t (set_code ERRCODE_BAD_SEQUENCE) st1)
          else if check_priv \<and> \<not> SignerHashPriv (tf_valid_signature me) frm (-1)
          then Some (ERRCODE_INVALID_SIGNATURE, upd_tx t (set_code ERRCODE_INVALID_SIGNATURE) st1)
          else map_option (\<lambda>f. (f, if f = ERRCODE_SUCCESS then st1 else upd_tx t (set_code f) st1)) (CheckFee C me frm))"

text \<open>The check at the door of the transaction queue, against the database; the second component is
  the account's nonce, which the caller gets unless the account does not exist.\<close>

definition CheckValid_tx :: "ledger_cfg \<Rightarrow> ledger_db \<Rightarrow> int \<Rightarrow> bool \<Rightarrow> tx_frm \<Rightarrow> (ErrCode \<times> int option) option" where
  "CheckValid_tx C D last_seq check_priv t =
     (case AccountFromDB D (GetSourceAddress t) of
        None \<Rightarrow> Some (ERRCODE_ACCOUNT_NOT_EXIST, None)
      | Some frm \<Rightarrow>
          (let n = GetAccountNonce frm; c = ValidForParameter C D 0 (tf_env t) in
           if GetNonce t \<le> n then Some (ERRCODE_BAD_SEQUENCE, Some n)
           else if chain_id (transaction (tf_env t)) \<noteq> self_chain_id C then Some (ERRCODE_INVALID_PARAMETER, Some n)
           else if c \<noteq> ERRCODE_SUCCESS then Some (c, Some n)
           else if last_seq = 0 \<and> GetNonce t \<noteq> wrap64 (n + 1) then Some (ERRCODE_BAD_SEQUENCE, Some n)
           else if last_seq > 0 \<and> GetNonce t \<noteq> wrap64 (last_seq + 1) then Some (ERRCODE_BAD_SEQUENCE, Some n)
           else if check_priv \<and> \<not> SignerHashPriv (tf_valid_signature t) frm (-1) then Some (ERRCODE_INVALID_SIGNATURE, Some n)
           else map_option (\<lambda>f. (f, Some n)) (CheckFee C t frm)))"

text \<open>The fee limit is taken in advance; the total is changed before the balance is.\<close>

definition PayFee :: "ledger_db \<Rightarrow> nat \<Rightarrow> environment \<Rightarrow> ledger_st \<Rightarrow> bool \<times> ledger_st" where
  "PayFee D t e st =
     (let me = tx_frms st t; fee = fee_limit (transaction (tf_env me)); source = GetSourceAddress me;
          (found, w1) = GetEntry D (world st) e source; st1 = st\<lparr>world := w1\<rparr> in
      case found of
        None \<Rightarrow> (False, upd_tx t (set_code ERRCODE_ACCOUNT_NOT_EXIST) st1)
      | Some frm \<Rightarrow>
          (case SafeIntAdd (total_fee st1) fee of
             None \<Rightarrow> (False, upd_tx t (set_code ERRCODE_MATH_OVERFLOW) st1)
           | Some new_total \<Rightarrow>
               (let st2 = st1\<lparr>total_fee := new_total\<rparr> in
                case SafeIntSub (balance frm) fee of
                  None \<Rightarrow> (False, upd_tx t (set_code ERRCODE_MATH_OVERFLOW) st2)
                | Some new_balance \<Rightarrow> (True, upd_entry e source (set_balance new_balance) st2))))"

text \<open>What the transaction did not use is given back; the return value is not looked at.\<close>

definition ReturnFee :: "ledger_db \<Rightarrow> nat \<Rightarrow> environment \<Rightarrow> ledger_st \<Rightarrow> ledger_st option" where
  "ReturnFee D t e st =
     (let me = tx_frms st t; tran = transaction (tf_env me); source = GetSourceAddress me in
      if mul_trap (tf_actual_gas me) (gas_price tran) then None
      else case SafeIntMul (tf_actual_gas me) (gas_price tran) of
        None \<Rightarrow> Some (upd_tx t (set_code ERRCODE_MATH_OVERFLOW) st)
      | Some actual_fee \<Rightarrow>
          (case SafeIntSub (fee_limit tran) actual_fee of
             None \<Rightarrow> Some (upd_tx t (set_code ERRCODE_MATH_OVERFLOW) st)
           | Some fee \<Rightarrow>
               if code (tf_result me) \<noteq> ERRCODE_SUCCESS \<or> fee \<le> 0 then Some st
               else
                 let (found, w1) = GetEntry D (world st) e source; st1 = st\<lparr>world := w1\<rparr> in
                 case found of
                   None \<Rightarrow> Some (upd_tx t (set_code ERRCODE_ACCOUNT_NOT_EXIST) st1)
                 | Some frm \<Rightarrow>
                     (case SafeIntSub (total_fee st1) fee of
                        None \<Rightarrow> Some (upd_tx t (set_code ERRCODE_MATH_OVERFLOW) st1)
                      | Some rest \<Rightarrow>
                          (let st2 = st1\<lparr>total_fee := rest\<rparr> in
                           case SafeIntAdd (balance frm) fee of
                             None \<Rightarrow> Some (upd_tx t (set_code ERRCODE_MATH_OVERFLOW) st2)
                           | Some new_balance \<Rightarrow> Some (upd_entry e source (set_balance new_balance) st2)))))"

section \<open>Application\<close>

definition NonceIncrease :: "ledger_db \<Rightarrow> nat \<Rightarrow> environment \<Rightarrow> ledger_st \<Rightarrow> ledger_st" where
  "NonceIncrease D t e st =
     (let source = GetSourceAddress (tx_frms st t); (found, w1) = GetEntry D (world st) e source; st1 = st\<lparr>world := w1\<rparr> in
      case found of
        None \<Rightarrow> upd_tx t (set_code ERRCODE_ACCOUNT_NOT_EXIST) st1
      | Some _ \<Rightarrow> upd_entry e source NonceIncrease_frm st1)"

text \<open>The loop over the operations; signatures are checked unless \<open>trusted\<close> (a contract or a test).\<close>

fun apply_operations ::
  "ledger_cfg \<Rightarrow> ledger_db \<Rightarrow> executor \<Rightarrow> nat \<Rightarrow> environment \<Rightarrow> bool \<Rightarrow> nat \<Rightarrow> Operation list \<Rightarrow> ledger_st \<Rightarrow> (bool \<times> ledger_st) option" where
  "apply_operations C D exec t e trusted i [] st = Some (True, upd_tx t (\<lambda>x. x\<lparr>tf_processing := i\<rparr>) st)"
| "apply_operations C D exec t e trusted i (oper # opers) st =
     (let st1 = upd_tx t (\<lambda>x. x\<lparr>tf_processing := i\<rparr>) st;
          (c, st2) = (if trusted then (ERRCODE_SUCCESS, st1) else CheckSignature D t e oper st1) in
      if c \<noteq> ERRCODE_SUCCESS then Some (False, upd_tx t (\<lambda>x. x\<lparr>tf_result := fail c\<rparr>) st2)
      else case Apply_op C D exec t i e oper st2 of
        None \<Rightarrow> None
      | Some (r, st3) \<Rightarrow>
          if code r \<noteq> ERRCODE_SUCCESS then Some (False, upd_tx t (\<lambda>x. x\<lparr>tf_result := r\<rparr>) st3)
          else apply_operations C D exec t e trusted (Suc i) opers
                 (upd_tx t (\<lambda>x. x\<lparr>tf_result := (tf_result x)\<lparr>contract_result := contract_result r\<rparr>\<rparr>) st3))"

definition Apply_tx ::
  "ledger_cfg \<Rightarrow> ledger_db \<Rightarrow> executor \<Rightarrow> nat \<Rightarrow> environment \<Rightarrow> bool \<Rightarrow> ledger_st \<Rightarrow> (bool \<times> ledger_st) option" where
  "Apply_tx C D exec t e trusted st =
     (let st1 = upd_tx t (\<lambda>x. x\<lparr>tf_environment := Some e\<rparr>) st in
      case AddActualFee C t st1 of
        None \<Rightarrow> None
      | Some (c, st2) \<Rightarrow>
          if c \<noteq> ERRCODE_SUCCESS then Some (False, st2)
          else apply_operations C D exec t e trusted 0 (operations (transaction (tf_env (tx_frms st2 t)))) st2)"

end
