(* ===== verification/Contract_Exec.thy ===== *)
theory Contract_Exec
  imports Transaction_Frm
begin

text \<open>
  The execution of contracts: \<^verbatim>\<open>ContractManager::Execute\<close> (src/src/contract/contract_manager.cpp),
  the callbacks of \<^verbatim>\<open>V8Contract\<close> through which a script acts on the ledger
  (src/src/contract/v8_contract.cpp, v8_contract_write.cpp, v8_contract_read.cpp), and
  \<^verbatim>\<open>LedgerManager::DoTransaction\<close> (src/src/ledger/ledger_manager.cpp), which they call.

  The script engine is third-party code. It is the parameter \<open>vm\<close>: given the parameter of the
  contract and the answers to the calls made so far, what the script does next. A call has its
  arguments as strings; a call with arguments of another form has no effect on the ledger and is
  for the model a step inside the engine. The callbacks that only compute on their arguments are
  inside the engine too. The first argument of \<open>vm\<close> is \<^verbatim>\<open>readonly_\<close>: a script that is queried runs its
  entry \<^verbatim>\<open>query\<close> and has only the reading callbacks.

  A script may call for ever, so \<open>Execute\<close> has fuel, for the depth of the nesting and the number of
  calls; \<open>None\<close> is a script that has not come to an end, or a null pointer that is dereferenced.
\<close>

datatype js_call =
    JsPayCoin cstring cstring cstring cstring       \<comment> \<open>destination, amount, input, remark\<close>
  | JsPayAsset cstring cstring cstring cstring cstring cstring  \<comment> \<open>destination, issuer, code, amount, input, remark\<close>
  | JsIssueAsset cstring cstring                    \<comment> \<open>code, amount\<close>
  | JsStorageStore cstring cstring
  | JsStorageDel cstring
  | JsTlog cstring "cstring list"
  | JsContractCall cstring "(cstring \<times> cstring) option" cstring cstring  \<comment> \<open>destination, issuer and code, amount, input\<close>
  | JsContractCreate cstring cstring cstring        \<comment> \<open>balance, code, input\<close>
  | JsDelegateCall cstring cstring
  | JsConfigFee "(cstring \<times> int) list"
  | JsSetValidators "(cstring \<times> cstring) list"
  | JsGetBalance cstring
  | JsGetContractProperty cstring
  | JsGetAccountMetadata cstring cstring
  | JsStorageLoad cstring
  | JsGetAccountAsset cstring cstring cstring       \<comment> \<open>account, issuer, code\<close>
  | JsGetValidators
  | JsGetBlockHash int
  | JsContractQuery cstring cstring
  | JsDelegateQuery cstring cstring
  | JsCheckTime int int int                         \<comment> \<open>heap in use, stack that remains, the time\<close>

text \<open>An answer: an exception, \<^verbatim>\<open>false\<close>, a value, or the object that a query returns, with its result,
  with \<^verbatim>\<open>error\<close>, or with neither.\<close>

datatype js_answer = AnsThrow | AnsFalse | AnsTrue | AnsJson contract_json | AnsString cstring | AnsNumbers int nat
  | AnsValidators "(cstring \<times> cstring) list" | AnsResult cstring | AnsError | AnsNothing

text \<open>A script that cannot be compiled or whose top level fails, or whose entry function throws or returns.\<close>

datatype vm_step = VmCall js_call | VmReturn cstring | VmThrow | VmLoadFail | VmNoEntry

type_synonym vm = "bool \<Rightarrow> ContractParameter \<Rightarrow> js_answer list \<Rightarrow> vm_step"

section \<open>The operations that callbacks build\<close>

definition amount_arg :: "cstring \<Rightarrow> int option" where
  "amount_arg s = (case SafeStoi64 s of None \<Rightarrow> None | Some n \<Rightarrow> if sint n < 0 then None else Some (sint n))"

definition op_pay_coin :: "cstring \<Rightarrow> int \<Rightarrow> cstring \<Rightarrow> Operation" where
  "op_pay_coin dest amount input =
     empty_operation\<lparr>op_type := Type_PAY_COIN, pay_coin := \<lparr>pc_dest_address = dest, pc_amount = amount, pc_input = input\<rparr>\<rparr>"

definition op_pay_asset :: "cstring \<Rightarrow> cstring \<Rightarrow> cstring \<Rightarrow> int \<Rightarrow> cstring \<Rightarrow> Operation" where
  "op_pay_asset dest issuer acode amount input =
     empty_operation\<lparr>op_type := Type_PAY_ASSET, pay_asset := \<lparr>pa_dest_address = dest,
       pa_asset = Some \<lparr>a_key = \<lparr>ak_issuer = issuer, ak_code = acode, ak_type = 0\<rparr>, a_amount = amount\<rparr>, pa_input = input\<rparr>\<rparr>"

definition remark_arg :: "ledger_cfg \<Rightarrow> cstring \<Rightarrow> cstring" where
  "remark_arg C remark = (if CHECK_VERSION_GT_1002 C then remark else [])"

definition CallBackPayCoin :: "ledger_cfg \<Rightarrow> cstring \<Rightarrow> cstring \<Rightarrow> cstring \<Rightarrow> cstring \<Rightarrow> Operation option" where
  "CallBackPayCoin C dest amount input remark =
     map_option (\<lambda>n. (op_pay_coin dest n input)\<lparr>op_metadata := remark_arg C remark\<rparr>) (amount_arg amount)"

definition CallBackPayAsset :: "ledger_cfg \<Rightarrow> cstring \<Rightarrow> cstring \<Rightarrow> cstring \<Rightarrow> cstring \<Rightarrow> cstring \<Rightarrow> cstring \<Rightarrow> Operation option" where
  "CallBackPayAsset C dest issuer acode amount input remark =
     map_option (\<lambda>n. (op_pay_asset dest issuer acode n input)\<lparr>op_metadata := remark_arg C remark\<rparr>) (amount_arg amount)"

definition CallBackIssueAsset :: "cstring \<Rightarrow> cstring \<Rightarrow> Operation option" where
  "CallBackIssueAsset acode amount =
     map_option (\<lambda>n. empty_operation\<lparr>op_type := Type_ISSUE_ASSET, issue_asset := \<lparr>ia_code = acode, ia_amount = n\<rparr>\<rparr>)
       (amount_arg amount)"

definition storage_operation :: "bool \<Rightarrow> cstring \<Rightarrow> cstring \<Rightarrow> Operation option" where
  "storage_operation is_del key v =
     (if key = [] then None
      else Some (empty_operation\<lparr>op_type := Type_SET_METADATA,
             set_metadata := \<lparr>sm_key = key, sm_value = (if is_del then [] else v), sm_version = 0, sm_delete_flag = is_del\<rparr>\<rparr>))"

definition CallBackTopicLog :: "cstring \<Rightarrow> cstring list \<Rightarrow> Operation option" where
  "CallBackTopicLog topic datas =
     Some (empty_operation\<lparr>op_type := Type_LOG, op_log := \<lparr>log_topic = topic, log_datas = datas\<rparr>\<rparr>)"

definition CallBackCall :: "cstring \<Rightarrow> (cstring \<times> cstring) option \<Rightarrow> cstring \<Rightarrow> cstring \<Rightarrow> Operation option" where
  "CallBackCall dest asset amount input =
     map_option (\<lambda>n. case asset of None \<Rightarrow> op_pay_coin dest n input
                     | Some (issuer, acode) \<Rightarrow> op_pay_asset dest issuer acode n input) (amount_arg amount)"

definition CallBackCreate :: "cstring \<Rightarrow> cstring \<Rightarrow> cstring \<Rightarrow> Operation option" where
  "CallBackCreate bal js input =
     map_option (\<lambda>n. empty_operation\<lparr>op_type := Type_CREATE_ACCOUNT,
         create_account := \<lparr>ca_dest_address = [], ca_contract = \<lparr>ct_type = 0, payload = js\<rparr>,
           ca_priv = Some \<lparr>master_weight = 0, signers = [], thresholds = Some \<lparr>tx_threshold = 1, type_thresholds = []\<rparr>\<rparr>,
           ca_metadatas = [], ca_init_balance = n, ca_init_input = input\<rparr>\<rparr>) (amount_arg bal)"

fun callback_operation :: "ledger_cfg \<Rightarrow> js_call \<Rightarrow> Operation option" where
  "callback_operation C (JsPayCoin dest amount input remark) = CallBackPayCoin C dest amount input remark"
| "callback_operation C (JsPayAsset dest issuer acode amount input remark) = CallBackPayAsset C dest issuer acode amount input remark"
| "callback_operation C (JsIssueAsset acode amount) = CallBackIssueAsset acode amount"
| "callback_operation C (JsStorageStore key v) = storage_operation False key v"
| "callback_operation C (JsStorageDel key) = storage_operation True key []"
| "callback_operation C (JsTlog topic datas) = CallBackTopicLog topic datas"
| "callback_operation C (JsContractCall dest asset amount input) = CallBackCall dest asset amount input"
| "callback_operation C (JsContractCreate bal js input) = CallBackCreate bal js input"
| "callback_operation C _ = None"

section \<open>Nested transactions\<close>

definition CheckContractDepthSafe :: "ledger_cfg \<Rightarrow> nat \<Rightarrow> bool" where
  "CheckContractDepthSafe C tx_size \<longleftrightarrow> CHECK_VERSION_GT_1001 C \<or> tx_size < CONTRACT_MAX_RECURSIVE_DEPTH"

definition push_tx :: "nat \<Rightarrow> ledger_st \<Rightarrow> ledger_st" where
  "push_tx t st = st\<lparr>tx_stack := t # tx_stack st\<rparr>"

definition pop_tx :: "ledger_st \<Rightarrow> ledger_st" where
  "pop_tx st = st\<lparr>tx_stack := tl (tx_stack st)\<rparr>"

definition add_instructions :: "(TransactionEnv \<times> ErrCode) list \<Rightarrow> tx_frm \<Rightarrow> tx_frm" where
  "add_instructions xs t = t\<lparr>tf_instructions := tf_instructions t @ xs\<rparr>"

text \<open>
  The end of \<^verbatim>\<open>DoTransaction\<close> once the new transaction \<open>n\<close> has been applied or refused: a
  transaction without fee or with too many transactions below it ends the contract; another one
  is recorded with the caller, and committed into its environment when it succeeded.
\<close>

definition finish_transaction :: "ledger_cfg \<Rightarrow> nat \<Rightarrow> nat \<Rightarrow> ledger_st \<Rightarrow> Result \<times> ledger_st" where
  "finish_transaction C tp n st =
     (let new = tx_frms st n; c = code (tf_result new) in
      if c = ERRCODE_FEE_NOT_ENOUGH \<or> c = ERRCODE_CONTRACT_TOO_MANY_TRANSACTIONS
      then (tf_result new, if CHECK_VERSION_GT_1002 C then pop_tx st else st)
      else
        let st1 = (if c = ERRCODE_SUCCESS
                   then with_world (\<lambda>w. case tf_environment new of None \<Rightarrow> w | Some e \<Rightarrow> Commit_env w e)
                          (upd_tx tp (add_instructions (tf_instructions new)) st)
                   else st)
        in (tf_result new, pop_tx (upd_tx tp (add_instructions [(tf_env new, c)]) st1)))"

definition DoTransaction ::
  "ledger_cfg \<Rightarrow> ledger_db \<Rightarrow> executor \<Rightarrow> TransactionEnv \<Rightarrow> ledger_st \<Rightarrow> (Result \<times> ledger_st) option" where
  "DoTransaction C D exec env st =
     (let tp = GetTopTx st in
      case tf_environment (tx_frms st tp) of
        None \<Rightarrow> None
      | Some te \<Rightarrow>
          (case GetEntry D (world st) te (tx_source_address (transaction env)) of
             (None, _) \<Rightarrow> None
           | (Some frm, w1) \<Rightarrow>
               let env1 = env\<lparr>transaction := (transaction env)\<lparr>tx_nonce := wrap64 (GetAccountNonce frm + 1)\<rparr>\<rparr>;
                   (n, st1) = alloc_tx C env1 (st\<lparr>world := w1\<rparr>) in
               if \<not> CheckContractDepthSafe C (length (tx_stack st1)) then
                 let st2 = upd_tx n (set_code ERRCODE_CONTRACT_TOO_MANY_RECURSION) st1;
                     st3 = upd_tx (GetBottomTx st2) (\<lambda>x. x\<lparr>tf_actual_gas := wrap64 (tf_actual_gas x + GetSelfGas C (tx_frms st2 n))\<rparr>) st2;
                     st4 = upd_tx tp (add_instructions [(env1, ERRCODE_CONTRACT_TOO_MANY_RECURSION)]) st3
                 in Some (tf_result (tx_frms st4 n), st4)
               else
                 let st2 = NonceIncrease D n te (push_tx n st1);
                     c = ValidForParameter C D (length (tx_stack st2)) env1 in
                 if c = ERRCODE_SUCCESS then
                   let (ce, w2) = NewStackFrameEnv (world st2) te (next_env st2);
                       st3 = st2\<lparr>world := w2, next_env := Suc (next_env st2)\<rparr>
                   in map_option (\<lambda>(ok, st4). finish_transaction C tp n st4) (Apply_tx C D exec n ce True st3)
                 else map_option (\<lambda>(f, st4). finish_transaction C tp n st4) (AddActualFee C n (upd_tx n (set_code c) st2))))"

section \<open>Callbacks\<close>

definition contract_transaction :: "cstring \<Rightarrow> Operation \<Rightarrow> TransactionEnv" where
  "contract_transaction contractor oper =
     \<lparr>transaction = empty_transaction\<lparr>tx_source_address := contractor, operations := [oper]\<rparr>, signatures = []\<rparr>"

definition ContractStepInc :: "int \<Rightarrow> nat \<Rightarrow> ledger_st \<Rightarrow> ledger_st" where
  "ContractStepInc n t = upd_tx t (\<lambda>x. x\<lparr>tf_contract_step := tf_contract_step x + n\<rparr>)"

text \<open>Calls of contracts and their creation hand over the contract result, the others \<^verbatim>\<open>true\<close>.\<close>

fun hands_over :: "js_call \<Rightarrow> bool" where
  "hands_over (JsContractCall dest asset amount input) = True"
| "hands_over (JsContractCreate bal js input) = True"
| "hands_over (JsDelegateCall addr input) = True"
| "hands_over _ = False"

definition answer_of :: "js_call \<Rightarrow> Result \<Rightarrow> js_answer" where
  "answer_of call r =
     (if hands_over call then (case contract_result r of None \<Rightarrow> AnsTrue | Some j \<Rightarrow> AnsJson j) else AnsTrue)"

text \<open>A callback that has called \<^verbatim>\<open>DoTransaction\<close> or \<^verbatim>\<open>Execute\<close>: a failure is kept as the result
  of the contract, also when the script catches the exception.\<close>

definition take_result :: "js_call \<Rightarrow> Result \<Rightarrow> Result \<Rightarrow> js_answer \<times> Result" where
  "take_result call res r = (if code r \<noteq> ERRCODE_SUCCESS then (AnsThrow, r) else (answer_of call r, res))"

definition CallBackDelegateCall ::
  "ledger_cfg \<Rightarrow> ledger_db \<Rightarrow> executor \<Rightarrow> ContractParameter \<Rightarrow> cstring \<Rightarrow> cstring \<Rightarrow> Result \<Rightarrow> ledger_st \<Rightarrow> ((js_answer \<times> Result) \<times> ledger_st) option" where
  "CallBackDelegateCall C D exec p addr input res st =
     (let st1 = ContractStepInc 100 (GetBottomTx st) st; tp = GetTopTx st1 in
      case tf_environment (tx_frms st1 tp) of
        None \<Rightarrow> None
      | Some te \<Rightarrow>
          let (found, w1) = GetEntry D (world st1) te addr; st2 = st1\<lparr>world := w1\<rparr> in
          case found of
            None \<Rightarrow> Some ((AnsThrow, res), st2)
          | Some frm \<Rightarrow>
              if code_of frm = [] then Some ((AnsThrow, res), st2)
              else if ct_type (contract_of (account_info frm)) \<noteq> 0
              then Some (take_result (JsDelegateCall addr input) res
                     (fail (if CHECK_VERSION_GT_1001 C \<and> Suc (length (tx_stack st2)) > CONTRACT_MAX_RECURSIVE_DEPTH
                            then ERRCODE_CONTRACT_TOO_MANY_RECURSION else ERRCODE_CONTRACT_EXECUTE_FAIL)), st2)
              else map_option (\<lambda>(r, st3). (take_result (JsDelegateCall addr input) res r, pop_tx st3))
                     (exec (p\<lparr>cp_code := code_of frm, cp_init := False, cp_input := input\<rparr>) (push_tx tp st2)))"

definition read_callback ::
  "ledger_db \<Rightarrow> cstring \<Rightarrow> (AccountFrm option \<Rightarrow> js_answer \<times> AccountFrm option) \<Rightarrow> ledger_st \<Rightarrow> (js_answer \<times> ledger_st) option" where
  "read_callback D addr f st =
     (case tf_environment (tx_frms st (GetTopTx st)) of
        None \<Rightarrow> None
      | Some te \<Rightarrow>
          let (found, w1) = GetEntry D (world st) te addr; st1 = st\<lparr>world := w1\<rparr>; (a, change) = f found in
          Some (a, case change of None \<Rightarrow> st1 | Some frm \<Rightarrow> with_world (\<lambda>w. put_entry w te addr frm) st1))"

definition CallBackGetBalance :: "AccountFrm option \<Rightarrow> js_answer \<times> AccountFrm option" where
  "CallBackGetBalance found =
     (AnsString (case found of None \<Rightarrow> lit ''0'' | Some frm \<Rightarrow> ToString_int64 (word_of_int (balance frm))), None)"

definition CallBackGetContractProperty :: "AccountFrm option \<Rightarrow> js_answer \<times> AccountFrm option" where
  "CallBackGetContractProperty found =
     (case found of None \<Rightarrow> (AnsFalse, None)
      | Some frm \<Rightarrow>
          (case acc_contract (account_info frm) of
             None \<Rightarrow> (AnsNumbers (-1) 0, None)
           | Some c \<Rightarrow> (AnsNumbers (ct_type c) (length (payload c)), None)))"

definition CallBackGetAccountMetadata :: "ledger_db \<Rightarrow> cstring \<Rightarrow> AccountFrm option \<Rightarrow> js_answer \<times> AccountFrm option" where
  "CallBackGetAccountMetadata D key found =
     (case found of None \<Rightarrow> (AnsFalse, None)
      | Some frm \<Rightarrow>
          (case GetMetaData D key frm of
             (None, frm1) \<Rightarrow> (AnsFalse, Some frm1)
           | (Some kp, frm1) \<Rightarrow> (AnsString (kp_value kp), Some frm1)))"

definition CallBackGetAccountAsset :: "ledger_db \<Rightarrow> AssetKey \<Rightarrow> AccountFrm option \<Rightarrow> js_answer \<times> AccountFrm option" where
  "CallBackGetAccountAsset D key found =
     (case found of None \<Rightarrow> (AnsFalse, None)
      | Some frm \<Rightarrow>
          (case GetAsset D key frm of
             (None, frm1) \<Rightarrow> (AnsFalse, Some frm1)
           | (Some a, frm1) \<Rightarrow> (AnsString (ToString_int64 (word_of_int (as_amount a))), Some frm1)))"

text \<open>Unlike the others, \<^verbatim>\<open>storageLoad\<close> counts its steps for the top transaction.\<close>

definition CallBackStorageLoad :: "ledger_db \<Rightarrow> ContractParameter \<Rightarrow> cstring \<Rightarrow> ledger_st \<Rightarrow> (js_answer \<times> ledger_st) option" where
  "CallBackStorageLoad D p key st =
     read_callback D (cp_this_address p) (CallBackGetAccountMetadata D key) (ContractStepInc 100 (GetTopTx st) st)"

definition CallBackGetValidators :: "ledger_cfg \<Rightarrow> ledger_st \<Rightarrow> (js_answer \<times> ledger_st) option" where
  "CallBackGetValidators C st =
     (case tf_environment (tx_frms st (GetTopTx st)) of
        None \<Rightarrow> None
      | Some te \<Rightarrow> let (d, w1) = GetValidators (cur_validators C) (world st) te in Some (AnsValidators d, st\<lparr>world := w1\<rparr>))"

definition CallBackGetBlockHash :: "ledger_cfg \<Rightarrow> int \<Rightarrow> ledger_st \<Rightarrow> js_answer \<times> ledger_st" where
  "CallBackGetBlockHash C n st =
     (let seq = lcl_seq C - n in
      (if seq \<le> lcl_seq C - 1024 \<or> seq > lcl_seq C then AnsFalse
       else (case ledger_hash C seq of None \<Rightarrow> AnsFalse | Some h \<Rightarrow> AnsString (BinToHexString h)),
       ContractStepInc 100 (GetBottomTx st) st))"

text \<open>\<^verbatim>\<open>InternalCheckTime\<close>, which the engine calls as the script runs.\<close>

definition SetStackRemain :: "int \<Rightarrow> tx_frm \<Rightarrow> tx_frm" where
  "SetStackRemain remain_size x =
     (let m = max (tf_stack_max x) remain_size in x\<lparr>tf_stack_max := m, tf_stack_usage := m - remain_size\<rparr>)"

definition InternalCheckTime :: "int \<Rightarrow> int \<Rightarrow> int \<Rightarrow> ledger_st \<Rightarrow> js_answer \<times> ledger_st" where
  "InternalCheckTime heap remain now st =
     (let b = GetBottomTx st;
          st1 = upd_tx b (\<lambda>x. SetStackRemain remain (x\<lparr>tf_memory_usage := heap\<rparr>)) (ContractStepInc 1 b st);
          (expired, st2) = IsExpire now b st1
      in (if expired then AnsThrow else AnsTrue, st2))"

text \<open>Queries of another contract. A querier returns the result of the script, or nothing when it fails.\<close>

type_synonym querier = "ContractParameter \<Rightarrow> ledger_st \<Rightarrow> (cstring option \<times> ledger_st) option"

definition query_account :: "ledger_db \<Rightarrow> int \<Rightarrow> cstring \<Rightarrow> ledger_st \<Rightarrow> (AccountFrm option \<times> ledger_st) option" where
  "query_account D steps addr st =
     (let st1 = ContractStepInc steps (GetBottomTx st) st in
      case tf_environment (tx_frms st1 (GetTopTx st1)) of
        None \<Rightarrow> None
      | Some te \<Rightarrow>
          let (found, w1) = GetEntry D (world st1) te addr in
          Some (case found of None \<Rightarrow> None | Some frm \<Rightarrow> if code_of frm = [] then None else Some frm, st1\<lparr>world := w1\<rparr>))"

definition query_answer :: "cstring option \<Rightarrow> js_answer" where
  "query_answer r = (case r of None \<Rightarrow> AnsError | Some v \<Rightarrow> AnsResult v)"

definition run_pushed :: "querier \<Rightarrow> ContractParameter \<Rightarrow> ledger_st \<Rightarrow> (js_answer \<times> ledger_st) option" where
  "run_pushed query p st =
     map_option (\<lambda>(r, st1). (query_answer r, pop_tx st1)) (query p (push_tx (GetTopTx st) st))"

definition CallBackContractQuery ::
  "ledger_cfg \<Rightarrow> ledger_db \<Rightarrow> querier \<Rightarrow> ContractParameter \<Rightarrow> cstring \<Rightarrow> cstring \<Rightarrow> ledger_st \<Rightarrow> (js_answer \<times> ledger_st) option" where
  "CallBackContractQuery C D query p addr input st =
     (let gt_1001 = CHECK_VERSION_GT_1001 C in
      case query_account D (if gt_1001 then 100 else 1000) addr st of
        None \<Rightarrow> None
      | Some (None, st1) \<Rightarrow> Some (if gt_1001 then AnsError else AnsNothing, st1)
      | Some (Some frm, st1) \<Rightarrow>
          let p1 = p\<lparr>cp_code := code_of frm, cp_init := False, cp_input := input, cp_this_address := addr,
                     cp_msg_asset := None, cp_msg_coin_amount := 0, cp_msg_nonce := 0, cp_msg_operation_index := 0,
                     cp_msg_sender := cp_this_address p\<rparr> in
          if ct_type (contract_of (account_info frm)) \<noteq> 0 then Some (AnsError, st1)
          else if gt_1001 then run_pushed query p1 st1
          else map_option (\<lambda>(r, st2). (query_answer r, st2)) (query p1 st1))"

definition CallBackDelegateQuery ::
  "ledger_db \<Rightarrow> querier \<Rightarrow> ContractParameter \<Rightarrow> cstring \<Rightarrow> cstring \<Rightarrow> ledger_st \<Rightarrow> (js_answer \<times> ledger_st) option" where
  "CallBackDelegateQuery D query p addr input st =
     (case query_account D 100 addr st of
        None \<Rightarrow> None
      | Some (None, st1) \<Rightarrow> Some (AnsError, st1)
      | Some (Some frm, st1) \<Rightarrow>
          if ct_type (contract_of (account_info frm)) \<noteq> 0 then Some (AnsError, st1)
          else run_pushed query (p\<lparr>cp_code := code_of frm, cp_init := False, cp_input := input\<rparr>) st1)"

text \<open>The reading callbacks, all that a queried script has; another function does not exist there.\<close>

definition read_call ::
  "ledger_cfg \<Rightarrow> ledger_db \<Rightarrow> querier \<Rightarrow> ContractParameter \<Rightarrow> js_call \<Rightarrow> ledger_st \<Rightarrow> (js_answer \<times> ledger_st) option" where
  "read_call C D query p call st =
     (let st1 = ContractStepInc 100 (GetBottomTx st) st in
      case call of
        JsGetBalance addr \<Rightarrow> read_callback D addr CallBackGetBalance st1
      | JsGetContractProperty addr \<Rightarrow> read_callback D addr CallBackGetContractProperty st1
      | JsGetAccountMetadata addr key \<Rightarrow> read_callback D addr (CallBackGetAccountMetadata D key) st1
      | JsGetAccountAsset addr issuer acode \<Rightarrow>
          read_callback D addr (CallBackGetAccountAsset D \<lparr>ak_issuer = issuer, ak_code = acode, ak_type = 0\<rparr>) st1
      | JsStorageLoad key \<Rightarrow> CallBackStorageLoad D p key st
      | JsGetValidators \<Rightarrow> CallBackGetValidators C st
      | JsGetBlockHash n \<Rightarrow> Some (CallBackGetBlockHash C n st)
      | JsContractQuery addr input \<Rightarrow> CallBackContractQuery C D query p addr input st
      | JsDelegateQuery addr input \<Rightarrow> CallBackDelegateQuery D query p addr input st
      | JsCheckTime heap remain now \<Rightarrow> Some (InternalCheckTime heap remain now st)
      | _ \<Rightarrow> Some (AnsThrow, st))"

fun writes :: "js_call \<Rightarrow> bool" where
  "writes (JsPayCoin dest amount input remark) = True"
| "writes (JsPayAsset dest issuer acode amount input remark) = True"
| "writes (JsIssueAsset acode amount) = True"
| "writes (JsStorageStore key v) = True"
| "writes (JsStorageDel key) = True"
| "writes (JsTlog topic datas) = True"
| "writes (JsContractCall dest asset amount input) = True"
| "writes (JsContractCreate bal js input) = True"
| "writes _ = False"

definition CallBackConfigFee :: "ledger_cfg \<Rightarrow> ContractParameter \<Rightarrow> (cstring \<times> int) list \<Rightarrow> ledger_st \<Rightarrow> (js_answer \<times> ledger_st) option" where
  "CallBackConfigFee C p fees st =
     (if cp_this_address p \<noteq> GET_CONTRACT_FEE_ADDRESS C then Some (AnsThrow, st)
      else map_option (\<lambda>te. (AnsTrue, with_world (\<lambda>w. UpdateFeeConfig fees w te) st)) (tf_environment (tx_frms st (GetTopTx st))))"

definition CallBackSetValidators ::
  "ledger_cfg \<Rightarrow> ContractParameter \<Rightarrow> (cstring \<times> cstring) list \<Rightarrow> ledger_st \<Rightarrow> (js_answer \<times> ledger_st) option" where
  "CallBackSetValidators C p d st =
     (if cp_this_address p \<noteq> GET_CONTRACT_VALIDATOR_ADDRESS C then Some (AnsThrow, st)
      else map_option (\<lambda>te. (AnsTrue, with_world (\<lambda>w. UpdateNewValidators d w te) st)) (tf_environment (tx_frms st (GetTopTx st))))"

text \<open>The number of arguments of \<^verbatim>\<open>tlog\<close>, which is checked before a step is counted.\<close>

fun arity_ok :: "js_call \<Rightarrow> bool" where
  "arity_ok (JsTlog topic datas) \<longleftrightarrow> \<not> (length datas < 1 \<or> length datas > 5)"
| "arity_ok _ \<longleftrightarrow> True"

definition do_call ::
  "ledger_cfg \<Rightarrow> ledger_db \<Rightarrow> executor \<Rightarrow> querier \<Rightarrow> ContractParameter \<Rightarrow> js_call \<Rightarrow> Result \<Rightarrow> ledger_st \<Rightarrow> ((js_answer \<times> Result) \<times> ledger_st) option" where
  "do_call C D exec query p call res st =
     (if \<not> arity_ok call then Some ((AnsThrow, res), st)
      else if writes call then
        let st1 = ContractStepInc 100 (GetBottomTx st) st in
        case callback_operation C call of
          None \<Rightarrow> Some ((AnsThrow, res), st1)
        | Some oper \<Rightarrow>
            map_option (\<lambda>(r, st2). (take_result call res r, st2))
              (DoTransaction C D exec (contract_transaction (cp_this_address p) oper) st1)
      else case call of
        JsDelegateCall addr input \<Rightarrow> CallBackDelegateCall C D exec p addr input res st
      | JsConfigFee fees \<Rightarrow> map_option (\<lambda>(a, st1). ((a, res), st1)) (CallBackConfigFee C p fees st)
      | JsSetValidators d \<Rightarrow> map_option (\<lambda>(a, st1). ((a, res), st1)) (CallBackSetValidators C p d st)
      | _ \<Rightarrow> map_option (\<lambda>(a, st1). ((a, res), st1)) (read_call C D query p call st))"

section \<open>Execution\<close>

text \<open>A query: the script has no result object, a failure of any kind is only reported.\<close>

primrec run_query ::
  "nat \<Rightarrow> ledger_cfg \<Rightarrow> ledger_db \<Rightarrow> vm \<Rightarrow> querier \<Rightarrow> ContractParameter \<Rightarrow> js_answer list \<Rightarrow> ledger_st \<Rightarrow> (cstring option \<times> ledger_st) option" where
  "run_query 0 C D vm query p answers st = None"
| "run_query (Suc fuel) C D vm query p answers st =
     (case vm True p answers of
        VmReturn v \<Rightarrow> Some (Some v, st)
      | VmThrow \<Rightarrow> Some (None, st)
      | VmLoadFail \<Rightarrow> Some (None, st)
      | VmNoEntry \<Rightarrow> Some (None, st)
      | VmCall call \<Rightarrow>
          (case read_call C D query p call st of
             None \<Rightarrow> None
           | Some (a, st1) \<Rightarrow> run_query fuel C D vm query p (answers @ [a]) st1))"

primrec Query :: "nat \<Rightarrow> ledger_cfg \<Rightarrow> ledger_db \<Rightarrow> vm \<Rightarrow> querier" where
  "Query 0 C D vm p st = None"
| "Query (Suc fuel) C D vm p st =
     (if CHECK_VERSION_GT_1001 C \<and> length (tx_stack st) > CONTRACT_MAX_RECURSIVE_DEPTH then Some (None, st)
      else run_query fuel C D vm (Query fuel C D vm) p [] st)"

text \<open>The script from the answers it has got so far; \<open>res\<close> is the result of the contract object.\<close>

primrec run_script ::
  "nat \<Rightarrow> ledger_cfg \<Rightarrow> ledger_db \<Rightarrow> vm \<Rightarrow> executor \<Rightarrow> ContractParameter \<Rightarrow> js_answer list \<Rightarrow> Result \<Rightarrow> ledger_st \<Rightarrow> (Result \<times> ledger_st) option" where
  "run_script 0 C D vm exec p answers res st = None"
| "run_script (Suc fuel) C D vm exec p answers res st =
     (case vm False p answers of
        VmReturn v \<Rightarrow> Some (res\<lparr>contract_result := Some (ScriptValue v)\<rparr>, st)
      | VmThrow \<Rightarrow> Some (if code res = ERRCODE_SUCCESS then res\<lparr>code := ERRCODE_CONTRACT_EXECUTE_FAIL\<rparr> else res, st)
      | VmLoadFail \<Rightarrow>
          Some (if CHECK_VERSION_GT_1001 C \<and> code res = ERRCODE_SUCCESS then res\<lparr>code := ERRCODE_CONTRACT_EXECUTE_FAIL\<rparr> else res, st)
      | VmNoEntry \<Rightarrow> Some (res\<lparr>code := ERRCODE_CONTRACT_EXECUTE_FAIL\<rparr>, st)
      | VmCall call \<Rightarrow>
          (case do_call C D exec (Query fuel C D vm) p call res st of
             None \<Rightarrow> None
           | Some ((a, res1), st1) \<Rightarrow> run_script fuel C D vm exec p (answers @ [a]) res1 st1))"

primrec Execute :: "nat \<Rightarrow> ledger_cfg \<Rightarrow> ledger_db \<Rightarrow> vm \<Rightarrow> executor" where
  "Execute 0 C D vm p st = None"
| "Execute (Suc fuel) C D vm p st =
     (if CHECK_VERSION_GT_1001 C \<and> length (tx_stack st) > CONTRACT_MAX_RECURSIVE_DEPTH
      then Some (fail ERRCODE_CONTRACT_TOO_MANY_RECURSION, st)
      else run_script fuel C D vm (Execute fuel C D vm) p [] new_Result st)"

end
