(* ===== verification/Ledger_Frm.thy ===== *)
theory Ledger_Frm
  imports Contract_Exec
begin

text \<open>
  The application of a consensus value, \<^verbatim>\<open>LedgerFrm\<close> (src/src/ledger/ledger_frm.h,
  ledger_frm.cpp), and the block reward (src/src/common/general.cpp): the proposer's run, the
  run of a node that checks a proposal, the run of a node that follows an agreed value.

  The ledger's environment is \<open>base_env\<close>: the map 1 is its change buffer, the map 0 its own data.
  Time is a parameter: \<open>clock i\<close> has the readings taken for the transaction at position \<open>i\<close> before
  it is applied, when it is checked for expiry, and after it. A run is not cancelled from outside
  (\<^verbatim>\<open>enabled_\<close> stays true). A run returns \<open>None\<close> when a contract does not come to an end.
\<close>

record tx_times =
  at_start :: int
  at_check :: int
  at_end :: int

definition base_env :: environment where
  "base_env = \<lparr>e_buff = 1, e_data = 0\<rparr>"

definition empty_tx_frm :: tx_frm where
  "empty_tx_frm = \<lparr>tf_env = \<lparr>transaction = empty_transaction, signatures = []\<rparr>, tf_valid_signature = {},
     tf_result = new_Result, tf_actual_gas = 0, tf_processing = 0, tf_environment = None, tf_instructions = [],
     tf_contract_step = 0, tf_memory_usage = 0, tf_stack_max = 0, tf_stack_usage = 0, tf_max_end_time = 0, tf_enable_check = False\<rparr>"

definition new_ledger_st :: "ConsensusValue \<Rightarrow> ledger_st" where
  "new_ledger_st v = \<lparr>world = \<lparr>accts = (\<lambda>_. Map.empty), fee_docs = (\<lambda>_. None), validator_docs = (\<lambda>_. None)\<rparr>,
     next_env = 2, tx_frms = (\<lambda>_. empty_tx_frm), next_tx = 0, tx_stack = [], total_fee = 0,
     value_seq = ledger_seq v, value_close_time = close_time v\<rparr>"

section \<open>The reward of a block\<close>

primrec reward_loop :: "nat \<Rightarrow> int \<Rightarrow> int" where
  "reward_loop 0 result = result"
| "reward_loop (Suc n) result =
     (if result \<le> 0 then 0
      else if result < 4 then reward_loop n (result * 3 div 4)
      else reward_loop n (result - result div 4))"

definition GetBlockReward :: "int \<Rightarrow> int" where
  "GetBlockReward cur_block_height = reward_loop (nat (cur_block_height sdiv REWARD_PERIOD)) REWARD_INIT_VALUE"

text \<open>The loop over the validators; the flag is false when a balance overflows.\<close>

fun reward_validators :: "ledger_db \<Rightarrow> int \<Rightarrow> cstring list \<Rightarrow> int \<Rightarrow> ledger_st \<Rightarrow> (bool \<times> int) \<times> ledger_st" where
  "reward_validators D average_fee [] left st = ((True, left), st)"
| "reward_validators D average_fee (v # vs) left st =
     (let (found, w1) = GetEntry D (world st) base_env v;
          st1 = st\<lparr>world := (case found of None \<Rightarrow> AddEntry w1 base_env v (CreatAccountFrm v 0) | Some _ \<Rightarrow> w1)\<rparr>;
          left1 = left - average_fee in
      case SafeIntAdd (balance (read_entry (world st1) base_env v)) average_fee of
        None \<Rightarrow> ((False, left1), st1)
      | Some new_balance \<Rightarrow>
          reward_validators D average_fee vs left1 (upd_entry base_env v (set_balance new_balance) st1))"

definition AllocateRewardDirectly :: "ledger_cfg \<Rightarrow> ledger_db \<Rightarrow> int \<Rightarrow> ledger_st \<Rightarrow> bool \<times> ledger_st" where
  "AllocateRewardDirectly C D total_reward st =
     (case prev_validators C of
        None \<Rightarrow> (False, st)
      | Some vs \<Rightarrow>
          if vs = [] then (False, st)
          else
            let n = int (length vs);
                random = vs ! nat (value_seq st smod n);
                ((ok, left), st1) = reward_validators D (total_reward sdiv n) vs total_reward st in
            if \<not> ok then (False, st1)
            else if left > 0 then
              (case SafeIntAdd (balance (read_entry (world st1) base_env random)) left of
                 None \<Rightarrow> (False, st1)
               | Some new_balance \<Rightarrow> (True, upd_entry base_env random (set_balance new_balance) st1))
            else (True, st1))"

definition AllocateReward :: "ledger_cfg \<Rightarrow> ledger_db \<Rightarrow> bool \<Rightarrow> ledger_st \<Rightarrow> bool \<times> ledger_st" where
  "AllocateReward C D test_mode st =
     (let total_reward = wrap64 (total_fee st + GetBlockReward (value_seq st)) in
      if total_reward = 0 \<or> test_mode then (True, st)
      else
        let a = GET_CONTRACT_VALIDATOR_ADDRESS C;
            (ok, st1) =
              (if CHECK_VERSION_GT_1002 C then
                 let (found, w1) = GetEntry D (world st) base_env a; st0 = st\<lparr>world := w1\<rparr> in
                 case found of
                   None \<Rightarrow> AllocateRewardDirectly C D total_reward st0
                 | Some frm \<Rightarrow>
                     (case SafeIntAdd (balance frm) total_reward of
                        None \<Rightarrow> (False, st0)
                      | Some new_balance \<Rightarrow> (True, upd_entry base_env a (set_balance new_balance) st0))
               else AllocateRewardDirectly C D total_reward st) in
        if ok then (True, with_world (\<lambda>w. Commit_env w base_env) st1) else (False, st1))"

section \<open>The validation that a proposal carries\<close>

fun collect_ids :: "int \<Rightarrow> int list \<Rightarrow> int set \<Rightarrow> int set option" where
  "collect_ids tx_size [] seen = Some seen"
| "collect_ids tx_size (tid # ids) seen =
     (if tid \<ge> tx_size \<or> tid < 0 then None
      else if tid \<in> seen then None
      else collect_ids tx_size ids (insert tid seen))"

definition CheckConsValueValidation :: "ConsensusValue \<Rightarrow> (int set \<times> int set) option" where
  "CheckConsValueValidation v =
     (case validation v of
        None \<Rightarrow> Some ({}, {})
      | Some x \<Rightarrow>
          (let n = int (length (txs v)) in
           case collect_ids n (expire_tx_ids x) {} of
             None \<Rightarrow> None
           | Some seen \<Rightarrow>
               map_option (\<lambda>_. (set (expire_tx_ids x), set (error_tx_ids x))) (collect_ids n (error_tx_ids x) seen)))"

definition SetValidationToProto :: "int set \<Rightarrow> int set \<Rightarrow> ConsensusValueValidation" where
  "SetValidationToProto expire_txs error_txs =
     \<lparr>expire_tx_ids = sorted_list_of_set expire_txs, error_tx_ids = sorted_list_of_set error_txs\<rparr>"

section \<open>One transaction\<close>

datatype outcome = TxExpired | TxError | TxOk

text \<open>From the payment of the fee to the application: the nonce, and the commit of both.\<close>

definition start_tx :: "ledger_db \<Rightarrow> nat \<Rightarrow> ledger_st \<Rightarrow> ledger_st" where
  "start_tx D t st = with_world (\<lambda>w. Commit_env w base_env) (NonceIncrease D t base_env (push_tx t st))"

definition finish_tx :: "ledger_st \<Rightarrow> ledger_st" where
  "finish_tx st = pop_tx (with_world (\<lambda>w. ClearChangeBuf_env w base_env) st)"

definition refund_and_commit :: "ledger_db \<Rightarrow> nat \<Rightarrow> ledger_st \<Rightarrow> ledger_st option" where
  "refund_and_commit D t st =
     map_option (with_world (\<lambda>w. Commit_env w base_env)) (ReturnFee D t base_env st)"

text \<open>The application in a proposing or a checking run.\<close>

definition execute_tx ::
  "ledger_cfg \<Rightarrow> ledger_db \<Rightarrow> executor \<Rightarrow> bool \<Rightarrow> tx_times \<Rightarrow> nat \<Rightarrow> ledger_st \<Rightarrow> (outcome \<times> ledger_st) option" where
  "execute_tx C D exec test_mode tm t st =
     (let st1 = upd_tx t (\<lambda>x. x\<lparr>tf_enable_check := True, tf_max_end_time := at_start tm + TX_EXECUTE_TIME_OUT\<rparr>) (start_tx D t st) in
      case Apply_tx C D exec t base_env test_mode st1 of
        None \<Rightarrow> None
      | Some (ok, st2) \<Rightarrow>
          (let (expired, st3) = IsExpire (at_check tm) t st2 in
           if expired then Some (TxExpired, finish_tx st3)
           else if \<not> ok then Some (TxError, finish_tx st3)
           else map_option (\<lambda>st4. (TxOk, finish_tx st4)) (refund_and_commit D t st3)))"

text \<open>The application in a following run, which takes over what the proposal says of expiry.\<close>

definition follow_tx :: "ledger_cfg \<Rightarrow> ledger_db \<Rightarrow> executor \<Rightarrow> bool \<Rightarrow> nat \<Rightarrow> ledger_st \<Rightarrow> (outcome \<times> ledger_st) option" where
  "follow_tx C D exec expired t st =
     (let st1 = start_tx D t st in
      if expired then Some (TxExpired, finish_tx (ApplyExpireResult t st1))
      else case Apply_tx C D exec t base_env False st1 of
        None \<Rightarrow> None
      | Some (ok, st2) \<Rightarrow>
          if \<not> ok then Some (TxError, finish_tx st2)
          else map_option (\<lambda>st3. (TxOk, finish_tx st3)) (refund_and_commit D t st2))"

section \<open>The three runs\<close>

record run_acc =
  ra_expire :: "int set"
  ra_error :: "int set"
  ra_dropped :: "int set"
  ra_applied :: "nat list"

definition new_acc :: run_acc where
  "new_acc = \<lparr>ra_expire = {}, ra_error = {}, ra_dropped = {}, ra_applied = []\<rparr>"

definition note_outcome :: "int \<Rightarrow> nat \<Rightarrow> outcome \<Rightarrow> run_acc \<Rightarrow> run_acc" where
  "note_outcome i t out acc =
     (let acc1 = (case out of TxExpired \<Rightarrow> acc\<lparr>ra_expire := insert i (ra_expire acc)\<rparr>
                   | TxError \<Rightarrow> acc\<lparr>ra_error := insert i (ra_error acc)\<rparr> | TxOk \<Rightarrow> acc)
      in acc1\<lparr>ra_applied := ra_applied acc1 @ [t]\<rparr>)"

fun propose_loop ::
  "ledger_cfg \<Rightarrow> ledger_db \<Rightarrow> executor \<Rightarrow> bool \<Rightarrow> (nat \<Rightarrow> tx_times) \<Rightarrow> int \<Rightarrow> nat \<Rightarrow> TransactionEnv list \<Rightarrow> run_acc \<Rightarrow> ledger_st \<Rightarrow> ((bool \<times> run_acc) \<times> ledger_st) option" where
  "propose_loop C D exec test_mode clock start i [] acc st = Some ((True, acc), st)"
| "propose_loop C D exec test_mode clock start i (env # envs) acc st =
     (let (t, st1) = alloc_tx C env st; drop = acc\<lparr>ra_dropped := insert (int i) (ra_dropped acc)\<rparr> in
      case ValidForApply C D t base_env (\<not> test_mode) st1 of
        None \<Rightarrow> None
      | Some (c, st2) \<Rightarrow>
          if c \<noteq> ERRCODE_SUCCESS then propose_loop C D exec test_mode clock start (Suc i) envs drop st2
          else
            let (paid, st3) = PayFee D t base_env st2 in
            if \<not> paid then propose_loop C D exec test_mode clock start (Suc i) envs drop st3
            else case execute_tx C D exec test_mode (clock i) t st3 of
              None \<Rightarrow> None
            | Some (out, st4) \<Rightarrow>
                let acc1 = note_outcome (int i - int (card (ra_dropped acc))) t out acc in
                if at_end (clock i) - start > BLOCK_EXECUTE_TIME_OUT then Some ((False, acc1), st4)
                else propose_loop C D exec test_mode clock start (Suc i) envs acc1 st4)"

definition ApplyPropose ::
  "ledger_cfg \<Rightarrow> ledger_db \<Rightarrow> executor \<Rightarrow> bool \<Rightarrow> (nat \<Rightarrow> tx_times) \<Rightarrow> int \<Rightarrow> ConsensusValue \<Rightarrow>
     ((bool \<times> ConsensusValueValidation \<times> int set) \<times> ledger_st) option" where
  "ApplyPropose C D exec test_mode clock start v =
     (let st = new_ledger_st v; none = \<lparr>expire_tx_ids = [], error_tx_ids = []\<rparr> in
      if validation v \<noteq> None then Some ((False, none, {}), st)
      else case propose_loop C D exec test_mode clock start 0 (txs v) new_acc st of
        None \<Rightarrow> None
      | Some ((ok, acc), st1) \<Rightarrow>
          if \<not> ok then Some ((False, none, ra_dropped acc), st1)
          else Some ((True, SetValidationToProto (ra_expire acc) (ra_error acc), ra_dropped acc),
                 snd (AllocateReward C D test_mode st1)))"

fun check_loop ::
  "ledger_cfg \<Rightarrow> ledger_db \<Rightarrow> executor \<Rightarrow> bool \<Rightarrow> (nat \<Rightarrow> tx_times) \<Rightarrow> int \<Rightarrow> nat \<Rightarrow> TransactionEnv list \<Rightarrow> run_acc \<Rightarrow> ledger_st \<Rightarrow> ((bool \<times> run_acc) \<times> ledger_st) option" where
  "check_loop C D exec test_mode clock start i [] acc st = Some ((True, acc), st)"
| "check_loop C D exec test_mode clock start i (env # envs) acc st =
     (let (t, st1) = alloc_tx C env st in
      case ValidForApply C D t base_env (\<not> test_mode) st1 of
        None \<Rightarrow> None
      | Some (c, st2) \<Rightarrow>
          if c \<noteq> ERRCODE_SUCCESS then Some ((False, acc), st2)
          else
            let (paid, st3) = PayFee D t base_env st2 in
            if \<not> paid then Some ((False, acc), st3)
            else case execute_tx C D exec test_mode (clock i) t st3 of
              None \<Rightarrow> None
            | Some (out, st4) \<Rightarrow>
                let acc1 = note_outcome (int i) t out acc in
                if at_end (clock i) - start > BLOCK_EXECUTE_TIME_OUT then Some ((False, acc1), st4)
                else check_loop C D exec test_mode clock start (Suc i) envs acc1 st4)"

definition ApplyCheck ::
  "ledger_cfg \<Rightarrow> ledger_db \<Rightarrow> executor \<Rightarrow> bool \<Rightarrow> (nat \<Rightarrow> tx_times) \<Rightarrow> int \<Rightarrow> ConsensusValue \<Rightarrow> (bool \<times> ledger_st) option" where
  "ApplyCheck C D exec test_mode clock start v =
     (let st = new_ledger_st v in
      case CheckConsValueValidation v of
        None \<Rightarrow> Some (False, st)
      | Some (expire_check, error_check) \<Rightarrow>
          (case check_loop C D exec test_mode clock start 0 (txs v) new_acc st of
             None \<Rightarrow> None
           | Some ((ok, acc), st1) \<Rightarrow>
               if \<not> ok then Some (False, st1)
               else Some (ra_expire acc = expire_check \<and> ra_error acc = error_check,
                      snd (AllocateReward C D test_mode st1))))"

fun follow_loop ::
  "ledger_cfg \<Rightarrow> ledger_db \<Rightarrow> executor \<Rightarrow> int set \<Rightarrow> nat \<Rightarrow> TransactionEnv list \<Rightarrow> run_acc \<Rightarrow> ledger_st \<Rightarrow> (run_acc \<times> ledger_st) option" where
  "follow_loop C D exec expire_check i [] acc st = Some (acc, st)"
| "follow_loop C D exec expire_check i (env # envs) acc st =
     (let (t, st1) = alloc_tx C env st; (paid, st2) = PayFee D t base_env st1 in
      if \<not> paid then follow_loop C D exec expire_check (Suc i) envs acc st2
      else case follow_tx C D exec (int i \<in> expire_check) t st2 of
        None \<Rightarrow> None
      | Some (out, st3) \<Rightarrow> follow_loop C D exec expire_check (Suc i) envs (note_outcome (int i) t out acc) st3)"

text \<open>The transactions that a following run puts into its ledger.\<close>

fun follow_envs ::
  "ledger_cfg \<Rightarrow> ledger_db \<Rightarrow> executor \<Rightarrow> int set \<Rightarrow> nat \<Rightarrow> TransactionEnv list \<Rightarrow> ledger_st \<Rightarrow> TransactionEnv list" where
  "follow_envs C D exec expire_check i [] st = []"
| "follow_envs C D exec expire_check i (env # envs) st =
     (let (t, st1) = alloc_tx C env st; (paid, st2) = PayFee D t base_env st1 in
      if \<not> paid then follow_envs C D exec expire_check (Suc i) envs st2
      else case follow_tx C D exec (int i \<in> expire_check) t st2 of
        None \<Rightarrow> []
      | Some (out, st3) \<Rightarrow> env # follow_envs C D exec expire_check (Suc i) envs st3)"

definition ApplyFollow ::
  "ledger_cfg \<Rightarrow> ledger_db \<Rightarrow> executor \<Rightarrow> ConsensusValue \<Rightarrow> (bool \<times> ledger_st) option" where
  "ApplyFollow C D exec v =
     (let st = new_ledger_st v in
      case CheckConsValueValidation v of
        None \<Rightarrow> Some (False, st)
      | Some (expire_check, error_check) \<Rightarrow>
          map_option (\<lambda>(acc, st1). (True, snd (AllocateReward C D False st1)))
            (follow_loop C D exec expire_check 0 (txs v) new_acc st))"

end
