(* ===== verification/Ledger_Frame.thy ===== *)
theory Ledger_Frame
  imports Ledger_Frm
begin

text \<open>
  What the application of a transaction leaves alone, also when it runs contracts that start
  transactions of their own: the committed accounts and settings of the ledger, the fees collected
  so far, and the transaction objects that existed before. \<open>framed\<close> says so of two states;
  \<open>envs_ok\<close> is the invariant it rests on, that no transaction works on the committed map directly.

  The executor of contracts is an argument of the operations. The locale \<open>framed_executor\<close> has the
  law they rely on, and \<open>Execute\<close> obeys it for every fuel, by induction through the locale.
\<close>

definition framed :: "ledger_st \<Rightarrow> ledger_st \<Rightarrow> bool" where
  "framed st st' \<longleftrightarrow>
     accts (world st') 0 = accts (world st) 0 \<and> fee_docs (world st') 0 = fee_docs (world st) 0 \<and>
     validator_docs (world st') 0 = validator_docs (world st) 0 \<and>
     total_fee st' = total_fee st \<and> value_seq st' = value_seq st \<and> value_close_time st' = value_close_time st \<and>
     next_tx st \<le> next_tx st' \<and> next_env st \<le> next_env st' \<and>
     (\<forall>t<next_tx st. tf_env (tx_frms st' t) = tf_env (tx_frms st t) \<and>
        tf_environment (tx_frms st' t) = tf_environment (tx_frms st t))"

definition envs_ok :: "ledger_st \<Rightarrow> bool" where
  "envs_ok st \<longleftrightarrow> next_env st \<noteq> 0 \<and> (\<forall>t e. tf_environment (tx_frms st t) = Some e \<longrightarrow> e_buff e \<noteq> 0)"

definition steady :: "(tx_frm \<Rightarrow> tx_frm) \<Rightarrow> bool" where
  "steady f \<longleftrightarrow> (\<forall>x. tf_env (f x) = tf_env x \<and> tf_environment (f x) = tf_environment x)"

lemma envs_okD: "envs_ok st \<Longrightarrow> tf_environment (tx_frms st t) = Some e \<Longrightarrow> e_buff e \<noteq> 0"
  by (auto simp: envs_ok_def)

section \<open>Primitive changes\<close>

named_theorems frame_simps \<open>the frame and the invariant under primitive changes\<close>

lemma framed_refl [simp]: "framed st st"
  by (simp add: framed_def)

lemma framed_trans [trans]: "framed a b \<Longrightarrow> framed b c \<Longrightarrow> framed a c"
  unfolding framed_def by fastforce

lemma framed_fields:
  assumes "framed st st'"
  shows "t < next_tx st \<Longrightarrow> tf_environment (tx_frms st' t) = tf_environment (tx_frms st t)"
    and "t < next_tx st \<Longrightarrow> tf_env (tx_frms st' t) = tf_env (tx_frms st t)"
    and "accts (world st') 0 = accts (world st) 0" and "total_fee st' = total_fee st"
    and "next_tx st \<le> next_tx st'"
  using assms by (simp_all add: framed_def)

lemma put_entry_other [simp]:
  "i \<noteq> e_buff e \<Longrightarrow> accts (put_entry w e k f) i = accts w i"
  "fee_docs (put_entry w e k f) = fee_docs w"
  "validator_docs (put_entry w e k f) = validator_docs w"
  by (simp_all add: put_entry_def)

lemma GetEntry_other [simp]:
  "i \<noteq> e_buff e \<Longrightarrow> accts (snd (GetEntry D w e k)) i = accts w i"
  "fee_docs (snd (GetEntry D w e k)) = fee_docs w"
  "validator_docs (snd (GetEntry D w e k)) = validator_docs w"
  by (auto simp: GetEntry_def split: option.split)

lemma framed_world [frame_simps]:
  "accts w 0 = accts (world st') 0 \<Longrightarrow> fee_docs w 0 = fee_docs (world st') 0 \<Longrightarrow>
   validator_docs w 0 = validator_docs (world st') 0 \<Longrightarrow> framed st (st'\<lparr>world := w\<rparr>) = framed st st'"
  by (simp add: framed_def)

lemma framed_GetEntry [frame_simps]:
  "e_buff e \<noteq> 0 \<Longrightarrow> framed st (st'\<lparr>world := snd (GetEntry D (world st') e k)\<rparr>) = framed st st'"
  by (simp add: framed_def)

lemma framed_upd_entry [frame_simps]:
  "e_buff e \<noteq> 0 \<Longrightarrow> framed st (upd_entry e k f st') = framed st st'"
  by (simp add: framed_def upd_entry_def with_world_def)

lemma framed_AddEntry [frame_simps]:
  "e_buff e \<noteq> 0 \<Longrightarrow> framed st (with_world (\<lambda>w. AddEntry w e k f) st') = framed st st'"
  "e_buff e \<noteq> 0 \<Longrightarrow> framed st (with_world (\<lambda>w. put_entry w e k f) st') = framed st st'"
  by (simp_all add: framed_def AddEntry_def with_world_def)

lemma framed_upd_tx [frame_simps]: "steady f \<Longrightarrow> framed st (upd_tx t f st') = framed st st'"
  by (auto simp: framed_def upd_tx_def steady_def)

lemma framed_stack [frame_simps]:
  "framed st (push_tx t st') = framed st st'" "framed st (pop_tx st') = framed st st'"
  "framed (push_tx t st) st' = framed st st'" "framed (pop_tx st) st' = framed st st'"
  by (simp_all add: framed_def push_tx_def pop_tx_def)

lemma envs_ok_world [frame_simps]:
  "envs_ok (st\<lparr>world := w\<rparr>) = envs_ok st" "envs_ok (with_world g st) = envs_ok st"
  "envs_ok (upd_entry e k f st) = envs_ok st"
  "envs_ok (push_tx t st) = envs_ok st" "envs_ok (pop_tx st) = envs_ok st"
  by (simp_all add: envs_ok_def with_world_def upd_entry_def push_tx_def pop_tx_def)

lemma envs_ok_upd_tx [frame_simps]: "steady f \<Longrightarrow> envs_ok (upd_tx t f st) = envs_ok st"
  by (auto simp: envs_ok_def upd_tx_def steady_def)

lemma envs_ok_set_environment [frame_simps]:
  "envs_ok st \<Longrightarrow> e_buff e \<noteq> 0 \<Longrightarrow> envs_ok (upd_tx t (\<lambda>x. x\<lparr>tf_environment := Some e\<rparr>) st)"
  by (auto simp: envs_ok_def upd_tx_def)

lemma steady_simps [simp]:
  "steady (set_code c)" "steady (add_instructions xs)" "steady (SetStackRemain n)"
  "steady (\<lambda>x. x\<lparr>tf_processing := i\<rparr>)" "steady (\<lambda>x. x\<lparr>tf_result := r\<rparr>)"
  "steady (\<lambda>x. x\<lparr>tf_result := h (tf_result x)\<rparr>)"
  "steady (\<lambda>x. x\<lparr>tf_actual_gas := g x\<rparr>)" "steady (\<lambda>x. x\<lparr>tf_contract_step := g x\<rparr>)"
  "steady (\<lambda>x. SetStackRemain n (x\<lparr>tf_memory_usage := m\<rparr>))"
  "steady (\<lambda>x. x\<lparr>tf_enable_check := b, tf_max_end_time := n\<rparr>)"
  by (simp_all add: steady_def set_code_def add_instructions_def SetStackRemain_def Let_def)

lemma framed_alloc [frame_simps]: "framed st st' \<Longrightarrow> framed st (snd (alloc_tx C env st'))"
  by (auto simp: framed_def alloc_tx_def)

lemma envs_ok_alloc [frame_simps]: "envs_ok st \<Longrightarrow> envs_ok (snd (alloc_tx C env st))"
  by (simp add: envs_ok_def alloc_tx_def new_TransactionFrm_def)

section \<open>Steps without contracts\<close>

lemma ContractStepInc_frame [frame_simps]:
  "framed st (ContractStepInc n t st') = framed st st'" "envs_ok (ContractStepInc n t st) = envs_ok st"
  by (simp_all add: ContractStepInc_def frame_simps)

lemma IsExpire_frame [frame_simps]:
  "framed st (snd (IsExpire now t st')) = framed st st'" "envs_ok (snd (IsExpire now t st)) = envs_ok st"
  by (simp_all add: IsExpire_def Let_def frame_simps)

lemma NonceIncrease_frame [frame_simps]:
  "e_buff e \<noteq> 0 \<Longrightarrow> framed st (NonceIncrease D t e st') = framed st st'"
  "envs_ok (NonceIncrease D t e st) = envs_ok st"
  by (simp_all add: NonceIncrease_def Let_def split_beta frame_simps split: option.split)

lemma AddActualFee_frame:
  assumes "AddActualFee C t st = Some (c, st')"
  shows "framed st0 st' = framed st0 st" and "envs_ok st' = envs_ok st"
  using assms by (auto simp: AddActualFee_def Let_def frame_simps split: if_splits option.splits)

lemma CheckSignature_frame [frame_simps]:
  "e_buff e \<noteq> 0 \<Longrightarrow> framed st (snd (CheckSignature D t e oper st')) = framed st st'"
  "envs_ok (snd (CheckSignature D t e oper st)) = envs_ok st"
  by (simp_all add: CheckSignature_def Let_def split_beta frame_simps split: option.split)

lemma IssueAsset_frame [frame_simps]:
  "e_buff e \<noteq> 0 \<Longrightarrow> framed st (snd (IssueAsset D e s ia st')) = framed st st'"
  "envs_ok (snd (IssueAsset D e s ia st)) = envs_ok st"
  by (simp_all add: IssueAsset_def Let_def split_beta frame_simps split: option.split)

lemma SetMetaData_frame [frame_simps]:
  "e_buff e \<noteq> 0 \<Longrightarrow> framed st (snd (SetMetaData D e s sm st')) = framed st st'"
  "envs_ok (snd (SetMetaData D e s sm st)) = envs_ok st"
  by (simp_all add: SetMetaData_def Let_def split_beta frame_simps split: option.split)

lemma settings_frame [frame_simps]:
  "e_buff e \<noteq> 0 \<Longrightarrow> framed st (snd (SetSignerWeight e s sw st')) = framed st st'"
  "e_buff e \<noteq> 0 \<Longrightarrow> framed st (snd (SetThreshold e s t st')) = framed st st'"
  "e_buff e \<noteq> 0 \<Longrightarrow> framed st (snd (SetPrivilege e s sp st')) = framed st st'"
  "envs_ok (snd (SetSignerWeight e s sw st)) = envs_ok st"
  "envs_ok (snd (SetThreshold e s t st)) = envs_ok st"
  "envs_ok (snd (SetPrivilege e s sp st)) = envs_ok st"
  by (simp_all add: SetSignerWeight_def SetThreshold_def SetPrivilege_def Let_def frame_simps)

lemma move_coins_frame [frame_simps]:
  "e_buff e \<noteq> 0 \<Longrightarrow> framed st (snd (move_coins e s d n st')) = framed st st'"
  "envs_ok (snd (move_coins e s d n st)) = envs_ok st"
  by (simp_all add: move_coins_def Let_def frame_simps split: option.split)

lemma move_asset_frame [frame_simps]:
  "e_buff e \<noteq> 0 \<Longrightarrow> framed st (snd (move_asset D e s d a st')) = framed st st'"
  "envs_ok (snd (move_asset D e s d a st)) = envs_ok st"
  by (simp_all add: move_asset_def Let_def split_beta frame_simps split: option.split)

section \<open>Reading callbacks and queries\<close>

lemma read_callback_frame:
  assumes "read_callback D addr f st = Some (a, st')" and "envs_ok st" and "framed st0 st"
  shows "framed st0 st' \<and> envs_ok st'"
  using assms
  by (auto simp: read_callback_def Let_def split_beta frame_simps split: option.splits dest: envs_okD)

lemma InternalCheckTime_frame [frame_simps]:
  "framed st (snd (InternalCheckTime h r n st')) = framed st st'"
  "envs_ok (snd (InternalCheckTime h r n st)) = envs_ok st"
  by (simp_all add: InternalCheckTime_def Let_def split_beta frame_simps)

lemma GetValidators_frame:
  "e_buff e \<noteq> 0 \<Longrightarrow> framed st (st'\<lparr>world := snd (GetValidators vs (world st') e)\<rparr>) = framed st st'"
  "envs_ok (st\<lparr>world := w\<rparr>) = envs_ok st"
  by (auto simp: GetValidators_def get_validator_doc_def framed_def envs_ok_def Let_def split: option.split)

lemma query_account_frame:
  assumes "query_account D n addr st = Some (r, st')" and "envs_ok st"
  shows "framed st st' \<and> envs_ok st'"
proof -
  let ?st1 = "ContractStepInc n (GetBottomTx st) st"
  obtain te where te: "tf_environment (tx_frms ?st1 (GetTopTx ?st1)) = Some te"
    using assms(1) by (auto simp: query_account_def Let_def split: option.splits)
  have "e_buff te \<noteq> 0" using envs_okD [OF _ te] assms(2) by (simp add: frame_simps)
  then show ?thesis using assms te by (auto simp: query_account_def Let_def split_beta frame_simps)
qed

locale framed_querier =
  fixes query :: querier
  assumes query_framed: "query p st = Some (r, st') \<Longrightarrow> envs_ok st \<Longrightarrow> framed st st' \<and> envs_ok st'"
begin

lemma query_framed_from:
  "query p st = Some (r, st') \<Longrightarrow> envs_ok st \<Longrightarrow> framed st0 st \<Longrightarrow> framed st0 st' \<and> envs_ok st'"
  using query_framed framed_trans by blast

lemma run_pushed_frame:
  "run_pushed query p st = Some (a, st') \<Longrightarrow> envs_ok st \<Longrightarrow> framed st0 st \<Longrightarrow> framed st0 st' \<and> envs_ok st'"
  by (auto simp: run_pushed_def frame_simps dest!: query_framed_from [where ?st0.0 = st0])

lemma read_call_frame:
  assumes call: "read_call C D query p call st = Some (a, st')" and ok: "envs_ok st"
  shows "framed st st' \<and> envs_ok st'"
proof -
  have read: ?thesis if "read_callback D addr f (ContractStepInc 100 t st) = Some (a, st')" for addr f t
    using read_callback_frame [OF that, of st] ok by (simp add: frame_simps)
  have found: ?thesis if "query_account D n addr st = Some (r, st')" for n addr r
    using query_account_frame [OF that ok] .
  have pushed: ?thesis if "query_account D n addr st = Some (r, st1)" "run_pushed query p1 st1 = Some (a, st')" for n addr r st1 p1
    using query_account_frame [OF that(1) ok] run_pushed_frame [OF that(2)] by blast
  have plain: ?thesis if "query_account D n addr st = Some (r, st1)" "query p1 st1 = Some (x, st')" for n addr r st1 p1 x
    using query_account_frame [OF that(1) ok] query_framed_from [OF that(2)] by blast
  show ?thesis
  proof (cases call)
    case JsGetValidators
    then show ?thesis
      using call ok by (auto simp: read_call_def CallBackGetValidators_def split_beta GetValidators_frame split: option.splits dest: envs_okD)
  next
    case (JsContractQuery addr input)
    then have "CallBackContractQuery C D query p addr input st = Some (a, st')" using call by (simp add: read_call_def)
    then show ?thesis
      by (auto simp: CallBackContractQuery_def Let_def split: option.splits if_splits dest: found pushed plain)
  next
    case (JsDelegateQuery addr input)
    then have "CallBackDelegateQuery D query p addr input st = Some (a, st')" using call by (simp add: read_call_def)
    then show ?thesis
      by (auto simp: CallBackDelegateQuery_def split: option.splits if_splits dest: found pushed)
  next
    case (JsCheckTime h r n)
    then have "st' = snd (InternalCheckTime h r n st)" using call by (simp add: read_call_def)
    then show ?thesis using ok by (simp add: frame_simps)
  qed (use call ok in \<open>auto simp: read_call_def CallBackGetBlockHash_def CallBackStorageLoad_def Let_def frame_simps dest: read\<close>)
qed

lemma run_query_frame:
  assumes "run_query fuel C D vm query p answers st = Some (r, st')" and "envs_ok st" and "framed st0 st"
  shows "framed st0 st' \<and> envs_ok st'"
  using assms
proof (induction fuel arbitrary: answers st)
  case (Suc fuel)
  show ?case
  proof (cases "vm True p answers")
    case (VmCall call)
    then obtain a st1 where call: "read_call C D query p call st = Some (a, st1)"
      and rest: "run_query fuel C D vm query p (answers @ [a]) st1 = Some (r, st')"
      using Suc.prems(1) by (auto split: option.splits)
    show ?thesis
      using Suc.IH [OF rest] read_call_frame [OF call Suc.prems(2)] Suc.prems(3) framed_trans by blast
  qed (use Suc.prems in auto)
qed simp

end

lemma framed_Query: "framed_querier (Query fuel C D vm)"
proof (induction fuel)
  case 0
  show ?case by unfold_locales simp_all
next
  case (Suc fuel)
  show ?case
  proof
    fix p st r st'
    assume "Query (Suc fuel) C D vm p st = Some (r, st')" and "envs_ok st"
    then show "framed st st' \<and> envs_ok st'"
      by (auto split: if_splits dest!: framed_querier.run_query_frame [OF Suc, where ?st0.0 = st])
  qed
qed

interpretation queries: framed_querier "Query fuel C D vm" for fuel C D vm
  by (rule framed_Query)

section \<open>Steps that may run contracts\<close>

locale framed_executor =
  fixes exec :: executor
  assumes exec_framed: "exec p st = Some (r, st') \<Longrightarrow> envs_ok st \<Longrightarrow> framed st st' \<and> envs_ok st'"
begin

lemma exec_framed_from:
  "exec p st = Some (r, st') \<Longrightarrow> envs_ok st \<Longrightarrow> framed st0 st \<Longrightarrow> framed st0 st' \<and> envs_ok st'"
  using exec_framed framed_trans by blast

lemma run_contract_frame:
  assumes "run_contract C exec t sender js input this asset amount st = Some (r, st')"
    and "envs_ok st" and "framed st0 st"
  shows "framed st0 st' \<and> envs_ok st'"
  using assms exec_framed_from by (auto simp: run_contract_def split: if_splits)

lemma PayCoin_frame:
  assumes "PayCoin C D exec t e source pc st = Some (r, st')"
    and "e_buff e \<noteq> 0" and "envs_ok st" and "framed st0 st"
  shows "framed st0 st' \<and> envs_ok st'"
  using assms
  by (auto simp: PayCoin_def Let_def split_beta frame_simps split: if_splits option.splits
      dest!: run_contract_frame [where ?st0.0 = st0])

lemma PayAsset_frame:
  assumes "PayAsset C D exec t e source pa st = Some (r, st')"
    and "e_buff e \<noteq> 0" and "envs_ok st" and "framed st0 st"
  shows "framed st0 st' \<and> envs_ok st'"
  using assms
  by (auto simp: PayAsset_def Let_def split_beta frame_simps split: if_splits option.splits
      dest!: run_contract_frame [where ?st0.0 = st0])

lemma CreateAccount_frame:
  assumes "CreateAccount C D exec t index e source ca st = Some (r, st')"
    and "e_buff e \<noteq> 0" and "envs_ok st" and "framed st0 st"
  shows "framed st0 st' \<and> envs_ok st'"
  using assms
  by (auto simp: CreateAccount_def Let_def split_beta frame_simps split: if_splits option.splits
      dest!: exec_framed_from [where ?st0.0 = st0])

lemma Apply_op_frame:
  assumes "Apply_op C D exec t index e oper st = Some (r, st')"
    and "e_buff e \<noteq> 0" and "envs_ok st" and "framed st0 st"
  shows "framed st0 st' \<and> envs_ok st'"
  using assms
  by (auto simp: Apply_op_def Let_def split_beta frame_simps prod_eq_iff [of _ "(r, st')"] split: if_splits
      dest!: PayCoin_frame [where ?st0.0 = st0] PayAsset_frame [where ?st0.0 = st0] CreateAccount_frame [where ?st0.0 = st0])

lemma apply_operations_frame:
  assumes "apply_operations C D exec t e trusted i opers st = Some (ok, st')"
    and "e_buff e \<noteq> 0" and "envs_ok st" and "framed st0 st"
  shows "framed st0 st' \<and> envs_ok st'"
  using assms
proof (induction opers arbitrary: i st)
  case Nil
  then show ?case by (auto simp: frame_simps)
next
  case (Cons oper opers)
  let ?st1 = "upd_tx t (\<lambda>x. x\<lparr>tf_processing := i\<rparr>) st"
  let ?check = "if trusted then (ERRCODE_SUCCESS, ?st1) else CheckSignature D t e oper ?st1"
  have checked: "framed st0 (snd ?check)" "envs_ok (snd ?check)"
    using Cons.prems by (simp_all add: frame_simps)
  show ?case
  proof (cases "fst ?check = ERRCODE_SUCCESS")
    case False
    then show ?thesis using Cons.prems(1) checked by (auto simp: split_beta Let_def frame_simps split: if_splits)
  next
    case True
    then obtain r st3 where op: "Apply_op C D exec t i e oper (snd ?check) = Some (r, st3)"
      using Cons.prems(1) by (auto simp: split_beta Let_def split: option.splits)
    then have st3: "framed st0 st3" "envs_ok st3" using Apply_op_frame Cons.prems(2) checked by blast+
    show ?thesis
    proof (cases "code r = ERRCODE_SUCCESS")
      case False
      then show ?thesis using Cons.prems(1) True op st3 by (auto simp: split_beta Let_def frame_simps)
    next
      case success: True
      then show ?thesis
        using Cons.prems(1,2) True op st3
        by (intro Cons.IH [of "Suc i" "upd_tx t (\<lambda>x. x\<lparr>tf_result := (tf_result x)\<lparr>contract_result := contract_result r\<rparr>\<rparr>) st3"])
          (auto simp: split_beta Let_def frame_simps)
    qed
  qed
qed

text \<open>The transaction gets its environment first; the rest is framed.\<close>

lemma Apply_tx_frame:
  assumes "Apply_tx C D exec t e trusted st = Some (ok, st')" and "e_buff e \<noteq> 0" and "envs_ok st"
  shows "framed (upd_tx t (\<lambda>x. x\<lparr>tf_environment := Some e\<rparr>) st) st' \<and> envs_ok st'"
proof -
  let ?st1 = "upd_tx t (\<lambda>x. x\<lparr>tf_environment := Some e\<rparr>) st"
  obtain c st2 where fee: "AddActualFee C t ?st1 = Some (c, st2)"
    using assms(1) by (auto simp: Apply_tx_def Let_def split: option.splits)
  have "framed ?st1 st2" "envs_ok st2"
    using AddActualFee_frame [OF fee] assms(2,3) by (simp_all add: frame_simps)
  then show ?thesis
    using assms(1,2) fee apply_operations_frame by (fastforce simp: Apply_tx_def Let_def split: if_splits)
qed

text \<open>A nested transaction: its frame lies on the caller's buffer, so its commit does not reach the ledger's data.\<close>

lemma finish_transaction_frame:
  assumes "framed st0 st" and "envs_ok st"
    and "\<And>e. tf_environment (tx_frms st n) = Some e \<Longrightarrow> e_data e \<noteq> 0"
  shows "framed st0 (snd (finish_transaction C tp n st)) \<and> envs_ok (snd (finish_transaction C tp n st))"
proof -
  have buff: "e_buff e \<noteq> 0" if "tf_environment (tx_frms st n) = Some e" for e
    using assms(2) that by (auto simp: envs_ok_def)
  have commit: "framed st0 (with_world (\<lambda>w. case tf_environment (tx_frms st n) of None \<Rightarrow> w | Some e \<Rightarrow> Commit_env w e) s)"
    if "framed st0 s" for s
    using that buff assms(3)
    by (cases "tf_environment (tx_frms st n)") (auto simp: framed_def with_world_def Commit_env_def)
  show ?thesis
    using assms(1,2) by (auto simp: finish_transaction_def Let_def frame_simps commit)
qed

lemma DoTransaction_frame:
  assumes call: "DoTransaction C D exec env st = Some (r, st')" and ok: "envs_ok st"
  shows "framed st st' \<and> envs_ok st'"
proof -
  let ?tp = "GetTopTx st"
  obtain te where te: "tf_environment (tx_frms st ?tp) = Some te"
    using call by (auto simp: DoTransaction_def Let_def split: option.splits)
  then have buff: "e_buff te \<noteq> 0" using ok by (auto simp: envs_ok_def)
  obtain frm w1 where get: "GetEntry D (world st) te (tx_source_address (transaction env)) = (Some frm, w1)"
    using call te by (auto simp: DoTransaction_def Let_def split: option.splits prod.splits)
  define env1 where "env1 = env\<lparr>transaction := (transaction env)\<lparr>tx_nonce := wrap64 (GetAccountNonce frm + 1)\<rparr>\<rparr>"
  define st1 where "st1 = snd (alloc_tx C env1 (st\<lparr>world := w1\<rparr>))"
  define n where "n = next_tx st"
  have w1: "w1 = snd (GetEntry D (world st) te (tx_source_address (transaction env)))" using get by simp
  have st1: "framed st st1" "envs_ok st1"
    unfolding st1_def w1 using buff ok by (simp_all add: frame_simps)
  have alloc: "alloc_tx C env1 (st\<lparr>world := w1\<rparr>) = (n, st1)" by (simp add: st1_def n_def alloc_tx_def)
  have n: "n < next_tx st1" "tf_environment (tx_frms st1 n) = None"
    by (simp_all add: st1_def n_def alloc_tx_def new_TransactionFrm_def)
  define st2 where "st2 = NonceIncrease D n te (push_tx n st1)"
  have st2: "framed st st2" "envs_ok st2" "framed st1 st2" unfolding st2_def using buff st1 by (simp_all add: frame_simps)
  have n2: "n < next_tx st2" "tf_environment (tx_frms st2 n) = None"
    using framed_fields(1,5) [OF st2(3)] n by auto
  let ?c = "ValidForParameter C D (length (tx_stack st2)) env1"
  note body = call [unfolded DoTransaction_def Let_def te get option.case prod.case env1_def [symmetric] alloc st2_def [symmetric]]
  consider (deep) "\<not> CheckContractDepthSafe C (length (tx_stack st1))"
    | (run) "CheckContractDepthSafe C (length (tx_stack st1))" "?c = ERRCODE_SUCCESS"
    | (refused) "CheckContractDepthSafe C (length (tx_stack st1))" "?c \<noteq> ERRCODE_SUCCESS" by blast
  then show ?thesis
  proof cases
    case deep
    then show ?thesis using body st1 by (auto simp: frame_simps)
  next
    case run
    define ce where "ce = fst (NewStackFrameEnv (world st2) te (next_env st2))"
    define st3 where "st3 = st2\<lparr>world := snd (NewStackFrameEnv (world st2) te (next_env st2)), next_env := Suc (next_env st2)\<rparr>"
    have ce: "e_buff ce = next_env st2" "e_data ce = e_buff te" by (simp_all add: ce_def NewStackFrameEnv_def Let_def)
    have nz: "next_env st2 \<noteq> 0" using st2(2) by (simp add: envs_ok_def)
    have st3: "framed st st3" "envs_ok st3" "next_tx st3 = next_tx st2"
      using st2 nz by (auto simp: st3_def framed_def envs_ok_def NewStackFrameEnv_def ClearChangeBuf_env_def Let_def)
    obtain ok4 st4 where tx: "Apply_tx C D exec n ce True st3 = Some (ok4, st4)"
      and st': "st' = snd (finish_transaction C ?tp n st4)"
      using body run by (auto simp: split_beta ce_def st3_def prod_eq_iff [of _ "(r, st')"])
    let ?s = "upd_tx n (\<lambda>x. x\<lparr>tf_environment := Some ce\<rparr>) st3"
    have st4: "framed ?s st4" "envs_ok st4" using Apply_tx_frame [OF tx] ce nz st3 by auto
    have "framed st ?s" using st3(1) by (auto simp: framed_def upd_tx_def n_def)
    then have "framed st st4" using st4(1) framed_trans by blast
    moreover have "tf_environment (tx_frms st4 n) = Some ce"
      using framed_fields(1) [OF st4(1), of n] n2 st3(3) by (simp add: upd_tx_def)
    ultimately show ?thesis
      unfolding st' using finish_transaction_frame st4(2) ce(2) buff by (metis option.inject)
  next
    case refused
    let ?s = "upd_tx n (set_code ?c) st2"
    obtain f st4 where fee: "AddActualFee C n ?s = Some (f, st4)" and st': "st' = snd (finish_transaction C ?tp n st4)"
      using body refused by (auto simp: split_beta prod_eq_iff [of _ "(r, st')"])
    have st4: "framed st st4" "envs_ok st4" "framed st2 st4"
      using AddActualFee_frame [OF fee] st2 by (simp_all add: frame_simps)
    then have "tf_environment (tx_frms st4 n) = None" using framed_fields(1) n2 by fastforce
    then show ?thesis unfolding st' by (intro finish_transaction_frame st4) simp
  qed
qed

lemma CallBackDelegateCall_frame:
  assumes "CallBackDelegateCall C D exec p addr input res st = Some (a, st')" and "envs_ok st"
  shows "framed st st' \<and> envs_ok st'"
proof -
  let ?st1 = "ContractStepInc 100 (GetBottomTx st) st"
  have ok: "envs_ok ?st1" using assms(2) by (simp add: frame_simps)
  obtain te where te: "tf_environment (tx_frms ?st1 (GetTopTx ?st1)) = Some te"
    using assms(1) by (auto simp: CallBackDelegateCall_def Let_def split: option.splits)
  have "e_buff te \<noteq> 0" using envs_okD [OF ok te] .
  then show ?thesis
    using assms te by (auto simp: CallBackDelegateCall_def Let_def split_beta frame_simps
        split: option.splits if_splits dest!: exec_framed_from [where ?st0.0 = st])
qed

lemma DoTransaction_frame_from:
  "DoTransaction C D exec env st = Some (r, st') \<Longrightarrow> envs_ok st \<Longrightarrow> framed st0 st \<Longrightarrow> framed st0 st' \<and> envs_ok st'"
  using DoTransaction_frame framed_trans by blast

lemma settings_call_frame:
  "e_buff e \<noteq> 0 \<Longrightarrow> framed st (with_world (\<lambda>w. UpdateFeeConfig fees w e) st') = framed st st'"
  "e_buff e \<noteq> 0 \<Longrightarrow> framed st (with_world (\<lambda>w. UpdateNewValidators d w e) st') = framed st st'"
  by (auto simp: framed_def with_world_def UpdateFeeConfig_def UpdateNewValidators_def get_fees_def Let_def
      split: option.split)

lemma do_call_frame:
  assumes "do_call C D exec (Query n C D vm) p call res st = Some (a, st')" and "envs_ok st"
  shows "framed st st' \<and> envs_ok st'"
proof -
  consider (bad) "\<not> arity_ok call" | (writing) "arity_ok call" "writes call" | (other) "arity_ok call" "\<not> writes call" by blast
  then show ?thesis
  proof cases
    case bad
    then show ?thesis using assms by (simp add: do_call_def)
  next
    case writing
    then show ?thesis
      using assms by (auto simp: do_call_def Let_def frame_simps split: option.splits dest!: DoTransaction_frame_from [where ?st0.0 = st])
  next
    case other
    have read: ?thesis if "map_option (\<lambda>(a, st1). ((a, res), st1)) (read_call C D (Query n C D vm) p call st) = Some (a, st')"
      using that assms(2) queries.read_call_frame by (auto simp: split_beta)
    show ?thesis
    proof (cases call)
      case (JsDelegateCall addr input)
      then show ?thesis using assms CallBackDelegateCall_frame by (auto simp: do_call_def)
    next
      case (JsConfigFee fees)
      then show ?thesis
        using assms by (auto simp: do_call_def CallBackConfigFee_def CallBackSetValidators_def frame_simps settings_call_frame split: if_splits dest: envs_okD)
    next
      case (JsSetValidators d)
      then show ?thesis
        using assms by (auto simp: do_call_def CallBackConfigFee_def CallBackSetValidators_def frame_simps settings_call_frame split: if_splits dest: envs_okD)
    qed (use assms(1) other in \<open>simp_all add: do_call_def read del: map_option_eq_Some\<close>)
  qed
qed

lemma run_script_frame:
  assumes "run_script fuel C D vm exec p answers res st = Some (r, st')" and "envs_ok st" and "framed st0 st"
  shows "framed st0 st' \<and> envs_ok st'"
  using assms
proof (induction fuel arbitrary: answers res st)
  case (Suc fuel)
  show ?case
  proof (cases "vm False p answers")
    case (VmCall call)
    then obtain a res1 st1 where call: "do_call C D exec (Query fuel C D vm) p call res st = Some ((a, res1), st1)"
      and rest: "run_script fuel C D vm exec p (answers @ [a]) res1 st1 = Some (r, st')"
      using Suc.prems(1) by (auto split: option.splits)
    show ?thesis using Suc.IH [OF rest] do_call_frame [OF call Suc.prems(2)] Suc.prems(3) framed_trans by blast
  qed (use Suc.prems in auto)
qed simp

end

section \<open>The executor of contracts\<close>

lemma framed_Execute: "framed_executor (Execute fuel C D vm)"
proof (induction fuel)
  case 0
  show ?case by unfold_locales simp_all
next
  case (Suc fuel)
  show ?case
  proof
    fix p st r st'
    assume "Execute (Suc fuel) C D vm p st = Some (r, st')" and "envs_ok st"
    then show "framed st st' \<and> envs_ok st'"
      by (auto split: if_splits dest!: framed_executor.run_script_frame [OF Suc, where ?st0.0 = st])
  qed
qed

interpretation contracts: framed_executor "Execute fuel C D vm" for fuel C D vm
  by (rule framed_Execute)

end
