(* ===== verification/Ledger_Atomic.thy ===== *)
theory Ledger_Atomic
  imports Ledger_Frame
begin

text \<open>
  A transaction is atomic: one that fails or runs out of its time leaves of all its work, and of
  all the work of the contracts it called, nothing but its fee and its nonce.
\<close>

abbreviation ledger_view :: "ledger_db \<Rightarrow> ledger_st \<Rightarrow> cstring \<rightharpoonup> AccountFrm" where
  "ledger_view D st \<equiv> env_view D (world st) base_env"

abbreviation ledger_base :: "ledger_db \<Rightarrow> ledger_st \<Rightarrow> cstring \<rightharpoonup> AccountFrm" where
  "ledger_base D st \<equiv> env_base D (world st) base_env"

lemma base_env_simps [simp]: "proper base_env" "e_buff base_env = 1" "e_data base_env = 0"
  by (simp_all add: base_env_def proper_def)

section \<open>The view of the ledger under the steps of a run\<close>

lemma framed_base: "framed st st' \<Longrightarrow> ledger_base D st' = ledger_base D st"
  by (simp add: framed_def env_base_def fun_eq_iff)

lemma view_upd_tx [simp]:
  "world (upd_tx t f st) = world st" "world (push_tx t st) = world st" "world (pop_tx st) = world st"
  "world (snd (alloc_tx C env st)) = world st" "world (snd (IsExpire n t st)) = world st"
  "world (ApplyExpireResult t st) = world st" "world (ContractStepInc n t st) = world st"
  by (simp_all add: upd_tx_def push_tx_def pop_tx_def alloc_tx_def IsExpire_def ApplyExpireResult_def Let_def ContractStepInc_def)

lemma fee_upd_tx [simp]:
  "total_fee (upd_tx t f st) = total_fee st" "total_fee (push_tx t st) = total_fee st" "total_fee (pop_tx st) = total_fee st"
  "total_fee (snd (alloc_tx C env st)) = total_fee st" "total_fee (snd (IsExpire n t st)) = total_fee st"
  "total_fee (ApplyExpireResult t st) = total_fee st" "total_fee (with_world g st) = total_fee st"
  "total_fee (upd_entry e k g2 st) = total_fee st"
  by (simp_all add: upd_tx_def push_tx_def pop_tx_def alloc_tx_def IsExpire_def ApplyExpireResult_def Let_def
      with_world_def upd_entry_def)

text \<open>An account that was read or written is in the buffer, where the pointer to it leads.\<close>

lemma GetEntry_loaded:
  "GetEntry D w e k = (Some f, w') \<Longrightarrow> accts w' (e_buff e) k = Some f"
  by (auto simp: GetEntry_def put_entry_def split: option.splits)

lemma read_entry_loaded: "accts w (e_buff e) k = Some f \<Longrightarrow> read_entry w e k = f"
  by (simp add: read_entry_def)

lemma GetEntry_read: "GetEntry D w e k = (Some f, w') \<Longrightarrow> read_entry w' e k = f"
  by (simp add: read_entry_loaded GetEntry_loaded)

lemma upd_entry_view [env_simps]:
  assumes "proper e"
  shows "env_view D (world (upd_entry e k f st)) e = (env_view D (world st) e)(k \<mapsto> f (read_entry (world st) e k))"
  using assms by (simp add: upd_entry_def with_world_def put_entry_view)

lemma loaded_view: "accts w (e_buff e) k = Some f \<Longrightarrow> env_view D w e k = Some f"
  by (simp add: env_view_def)

lemma with_world_world [simp]: "world (with_world g st) = g (world st)"
  by (simp add: with_world_def)

section \<open>Fees and nonces\<close>

lemma NonceIncrease_view:
  assumes "ledger_view D st (GetSourceAddress (tx_frms st t)) = Some frm"
  shows "ledger_view D (NonceIncrease D t base_env st) =
    (ledger_view D st)(GetSourceAddress (tx_frms st t) \<mapsto> NonceIncrease_frm frm)"
proof -
  let ?s = "GetSourceAddress (tx_frms st t)"
  obtain w1 where get: "GetEntry D (world st) base_env ?s = (Some frm, w1)"
    using assms GetEntry_fst [of D "world st" base_env ?s] by (cases "GetEntry D (world st) base_env ?s") auto
  have "env_view D w1 base_env = ledger_view D st" using get GetEntry_view [of base_env D "world st" ?s] by simp
  then show ?thesis
    using get by (simp add: NonceIncrease_def Let_def upd_entry_view GetEntry_read)
qed

lemma PayFee_view:
  assumes "PayFee D t base_env st = (True, st')"
  obtains frm b where "ledger_view D st (GetSourceAddress (tx_frms st t)) = Some frm"
    and "SafeIntSub (balance frm) (fee_limit (transaction (tf_env (tx_frms st t)))) = Some b"
    and "SafeIntAdd (total_fee st) (fee_limit (transaction (tf_env (tx_frms st t)))) = Some (total_fee st')"
    and "ledger_view D st' = (ledger_view D st)(GetSourceAddress (tx_frms st t) \<mapsto> set_balance b frm)"
    and "tx_frms st' = tx_frms st"
proof -
  let ?s = "GetSourceAddress (tx_frms st t)"
  obtain found w1 where get: "GetEntry D (world st) base_env ?s = (found, w1)" by fastforce
  obtain frm where frm: "found = Some frm" using assms get by (auto simp: PayFee_def Let_def split: option.splits)
  have view: "ledger_view D st ?s = Some frm" "env_view D w1 base_env = ledger_view D st"
    using get frm GetEntry_fst [of D "world st" base_env ?s] GetEntry_view [of base_env D "world st" ?s] by simp_all
  show thesis
    using assms get frm view GetEntry_read [OF get [unfolded frm]]
    by (auto simp: PayFee_def Let_def upd_entry_def with_world_def put_entry_view
        split: option.splits intro!: that)
qed

section \<open>The run of one transaction\<close>

lemma start_tx_base:
  assumes "ledger_view D st (GetSourceAddress (tx_frms st t)) = Some frm"
  shows "ledger_base D (start_tx D t st) =
    (ledger_view D st)(GetSourceAddress (tx_frms st t) \<mapsto> NonceIncrease_frm frm)"
proof -
  have s: "tx_frms (push_tx t st) = tx_frms st" by (simp add: push_tx_def)
  show ?thesis
    using NonceIncrease_view [of D "push_tx t st" t frm] assms
    by (simp add: start_tx_def Commit_base s)
qed

lemma start_tx_envs [simp]: "envs_ok (start_tx D t st) = envs_ok st"
  by (simp add: start_tx_def frame_simps)

lemma start_tx_fee [simp]: "total_fee (start_tx D t st) = total_fee st"
  by (simp add: start_tx_def NonceIncrease_def Let_def split_beta split: option.split)

lemma finish_tx_view: "ledger_view D (finish_tx st) = ledger_base D st"
  by (simp add: finish_tx_def Clear_view)

lemma finish_tx_fee [simp]: "total_fee (finish_tx st) = total_fee st"
  by (simp add: finish_tx_def)

lemma framed_total_fee: "framed st st' \<Longrightarrow> total_fee st' = total_fee st"
  by (simp add: framed_def)

lemma framed_env_set: "framed (upd_tx t (\<lambda>x. x\<lparr>tf_environment := Some e\<rparr>) st) st' \<Longrightarrow> ledger_base D st' = ledger_base D st \<and> total_fee st' = total_fee st"
  using framed_base [of "upd_tx t (\<lambda>x. x\<lparr>tf_environment := Some e\<rparr>) st" st' D] by (simp add: framed_total_fee)

context framed_executor
begin

lemma Apply_tx_base:
  assumes "Apply_tx C D exec t base_env trusted st = Some (ok, st')" and "envs_ok st"
  shows "ledger_base D' st' = ledger_base D' st" and "total_fee st' = total_fee st" and "envs_ok st'"
  using Apply_tx_frame [OF assms(1)] assms(2) framed_env_set [of t base_env st st' D'] by simp_all

lemma execute_tx_failed:
  assumes run: "execute_tx C D exec test_mode tm t st = Some (out, st')" and out: "out \<noteq> TxOk" and ok: "envs_ok st"
  shows "ledger_view D st' = ledger_base D (start_tx D t st) \<and> total_fee st' = total_fee st"
proof -
  let ?st1 = "upd_tx t (\<lambda>x. x\<lparr>tf_enable_check := True, tf_max_end_time := at_start tm + TX_EXECUTE_TIME_OUT\<rparr>) (start_tx D t st)"
  obtain done_ok st2 where tx: "Apply_tx C D exec t base_env test_mode ?st1 = Some (done_ok, st2)"
    using run by (auto simp: execute_tx_def Let_def split: option.splits)
  have "envs_ok ?st1" using ok by (simp add: frame_simps)
  then have "ledger_base D st2 = ledger_base D (start_tx D t st)" "total_fee st2 = total_fee st"
    using Apply_tx_base [OF tx] by simp_all
  moreover have "st' = finish_tx (snd (IsExpire (at_check tm) t st2))"
    using run tx out by (auto simp: execute_tx_def Let_def split_beta split: if_splits)
  ultimately show ?thesis by (simp add: finish_tx_view)
qed

lemma follow_tx_failed:
  assumes run: "follow_tx C D exec expired t st = Some (out, st')" and out: "out \<noteq> TxOk" and ok: "envs_ok st"
  shows "ledger_view D st' = ledger_base D (start_tx D t st) \<and> total_fee st' = total_fee st"
proof (cases expired)
  case True
  then show ?thesis using run by (auto simp: follow_tx_def Let_def finish_tx_view)
next
  case False
  obtain done_ok st2 where tx: "Apply_tx C D exec t base_env False (start_tx D t st) = Some (done_ok, st2)"
    using run False by (auto simp: follow_tx_def Let_def split: option.splits)
  then have "ledger_base D st2 = ledger_base D (start_tx D t st)" "total_fee st2 = total_fee st"
    using Apply_tx_base [OF tx] ok by simp_all
  moreover have "st' = finish_tx st2"
    using run tx out False by (auto simp: follow_tx_def Let_def split: if_splits)
  ultimately show ?thesis by (simp add: finish_tx_view)
qed

end

end
