(* ===== verification/Ledger_Coins.thy ===== *)
theory Ledger_Coins
  imports Ledger_Atomic
begin

text \<open>
  The coins of the ledger. A \<open>book\<close> has of an account what concerns coins: its balance and its
  nonce. \<open>book_step\<close> is the abstract specification of what the operations of a transaction may do
  to it: open an account with nothing in it, and move coins that the payer has. The operations of
  theory Operation refine it as long as they call no contract.

  A run that calls no contract is a run with the executor \<open>no_contracts\<close>, which never returns; it
  is then the same run with every other executor.
\<close>

type_synonym book = "cstring \<rightharpoonup> int \<times> int"

abbreviation nonce_of_frm :: "AccountFrm \<Rightarrow> int" where
  "nonce_of_frm frm \<equiv> acc_nonce (account_info frm)"

definition book :: "ledger_db \<Rightarrow> environment \<Rightarrow> ledger_st \<Rightarrow> book" where
  "book D e st a = map_option (\<lambda>f. (balance f, nonce_of_frm f)) (env_view D (world st) e a)"

inductive book_step :: "book \<Rightarrow> book \<Rightarrow> bool" where
  Open: "B a = None \<Longrightarrow> book_step B (B(a \<mapsto> (0, 0)))"
| Transfer: "B a = Some (x, n) \<Longrightarrow> B b = Some (y, m) \<Longrightarrow> a \<noteq> b \<Longrightarrow> 0 \<le> k \<Longrightarrow> k \<le> x \<Longrightarrow>
    book_step B (B(a \<mapsto> (x - k, n), b \<mapsto> (y + k, m)))"

definition coins :: "book \<Rightarrow> int" where
  "coins B = (\<Sum>a\<in>dom B. fst (the (B a)))"

definition coins_of :: "book \<Rightarrow> cstring \<Rightarrow> int" where
  "coins_of B a = (case B a of None \<Rightarrow> 0 | Some (x, n) \<Rightarrow> x)"

definition nonce_of :: "book \<Rightarrow> cstring \<Rightarrow> int" where
  "nonce_of B a = (case B a of None \<Rightarrow> 0 | Some (x, n) \<Rightarrow> n)"

definition solvent :: "book \<Rightarrow> bool" where
  "solvent B \<longleftrightarrow> finite (dom B) \<and> (\<forall>a. 0 \<le> coins_of B a)"

section \<open>Books\<close>

lemma coins_upd:
  assumes "finite (dom B)"
  shows "coins (B(a \<mapsto> (x, n))) = coins B - coins_of B a + x"
proof -
  have rest: "(\<Sum>b\<in>dom B - {a}. fst (the ((B(a \<mapsto> (x, n))) b))) = (\<Sum>b\<in>dom B - {a}. fst (the (B b)))"
    by (intro sum.cong) auto
  show ?thesis
    using assms rest
    by (cases "B a") (auto simp: coins_def coins_of_def sum.insert_remove domIff sum.remove [of "dom B" a])
qed

lemma coins_of_upd [simp]: "coins_of (B(a \<mapsto> (x, n))) b = (if b = a then x else coins_of B b)"
  by (simp add: coins_of_def)

lemma nonce_of_upd [simp]: "nonce_of (B(a \<mapsto> (x, n))) b = (if b = a then n else nonce_of B b)"
  by (simp add: nonce_of_def)

lemma book_entry [simp]: "B a = Some (x, n) \<Longrightarrow> coins_of B a = x" "B a = Some (x, n) \<Longrightarrow> nonce_of B a = n"
  by (simp_all add: coins_of_def nonce_of_def)

lemma solvent_upd: "solvent B \<Longrightarrow> 0 \<le> x \<Longrightarrow> solvent (B(a \<mapsto> (x, n)))"
  by (simp add: solvent_def)

lemma coins_of_le:
  assumes "solvent B"
  shows "coins_of B a \<le> coins B"
proof (cases "B a")
  case None
  have "0 \<le> fst (the (B b))" if "b \<in> dom B" for b
    using assms that by (auto simp: solvent_def coins_of_def split: option.splits dest: spec [of _ b])
  then show ?thesis using None by (simp add: coins_of_def coins_def sum_nonneg)
next
  case (Some p)
  have nonneg: "0 \<le> fst (the (B b))" if "b \<in> dom B" for b
    using assms that by (auto simp: solvent_def coins_of_def split: option.splits dest: spec [of _ b])
  have "fst (the (B a)) \<le> coins B"
    unfolding coins_def using Some assms nonneg by (intro member_le_sum) (auto simp: solvent_def)
  then show ?thesis using Some by (cases p) (simp add: coins_of_def)
qed

lemma book_step_safe:
  assumes "book_step B B'" and "solvent B"
  shows "solvent B' \<and> coins B' = coins B \<and> nonce_of B' = nonce_of B"
  using assms(1)
proof cases
  case (Open a)
  then show ?thesis
    using assms(2) by (auto simp: solvent_upd coins_upd solvent_def coins_of_def nonce_of_def)
next
  case (Transfer a x n b y m k)
  have "0 \<le> y" using assms(2) Transfer(3) by (auto simp: solvent_def dest: spec [of _ b])
  then have "solvent B'" using assms(2) Transfer by (auto intro!: solvent_upd)
  moreover have "coins B' = coins B" using assms(2) Transfer by (simp add: coins_upd solvent_def)
  moreover have "nonce_of B' = nonce_of B" using Transfer(2-) unfolding Transfer(1) by (intro ext) auto
  ultimately show ?thesis by blast
qed

lemma book_steps_safe:
  assumes "book_step\<^sup>*\<^sup>* B B'" and "solvent B"
  shows "solvent B' \<and> coins B' = coins B \<and> nonce_of B' = nonce_of B"
  using assms by (induction rule: rtranclp_induct) (auto simp: book_step_safe)

section \<open>Accounts in the buffer\<close>

definition loaded :: "environment \<Rightarrow> cstring \<Rightarrow> ledger_st \<Rightarrow> bool" where
  "loaded e k st \<longleftrightarrow> accts (world st) (e_buff e) k \<noteq> None"

named_theorems loaded_simps \<open>the buffer and the book under primitive changes\<close>

lemma loaded_upd [loaded_simps]:
  "loaded e k (upd_entry e a f st) \<longleftrightarrow> k = a \<or> loaded e k st"
  "loaded e k (with_world (\<lambda>w. AddEntry w e a g) st) \<longleftrightarrow> k = a \<or> loaded e k st"
  "loaded e k (upd_tx t h st) = loaded e k st"
  by (auto simp: loaded_def upd_entry_def with_world_def put_entry_def AddEntry_def upd_tx_def)

lemma loaded_GetEntry [loaded_simps]:
  "loaded e k (st\<lparr>world := snd (GetEntry D (world st) e a)\<rparr>) \<longleftrightarrow>
   loaded e k st \<or> k = a \<and> fst (GetEntry D (world st) e a) \<noteq> None"
  by (auto simp: loaded_def GetEntry_def put_entry_def split: option.splits)

lemma loaded_read: "loaded e k st \<Longrightarrow> env_view D (world st) e k = Some (read_entry (world st) e k)"
  by (auto simp: loaded_def read_entry_def env_view_def)

lemma loaded_book: "loaded e k st \<Longrightarrow> book D e st k = Some (balance (read_entry (world st) e k), nonce_of_frm (read_entry (world st) e k))"
  by (simp add: book_def loaded_read)

lemma read_upd [loaded_simps]:
  "read_entry (world (upd_entry e a f st)) e k = (if k = a then f (read_entry (world st) e a) else read_entry (world st) e k)"
  "read_entry (AddEntry w e a g) e k = (if k = a then g else read_entry w e k)"
  by (simp_all add: read_entry_def upd_entry_def put_entry_def AddEntry_def)

lemma read_GetEntry [loaded_simps]:
  "loaded e k st \<Longrightarrow> read_entry (snd (GetEntry D (world st) e a)) e k = read_entry (world st) e k"
  by (auto simp: loaded_def read_entry_def GetEntry_def put_entry_def split: option.split)

lemma book_upd [loaded_simps]:
  "proper e \<Longrightarrow> book D e (upd_entry e a f st) =
     (book D e st)(a \<mapsto> (balance (f (read_entry (world st) e a)), nonce_of_frm (f (read_entry (world st) e a))))"
  by (auto simp: book_def upd_entry_view fun_eq_iff)

lemma book_AddEntry [loaded_simps]:
  "proper e \<Longrightarrow> book D e (with_world (\<lambda>w. AddEntry w e a f) st) = (book D e st)(a \<mapsto> (balance f, nonce_of_frm f))"
  by (auto simp: book_def AddEntry_def put_entry_view fun_eq_iff)

lemma book_world [loaded_simps]:
  "proper e \<Longrightarrow> book D e (st\<lparr>world := snd (GetEntry D (world st) e a)\<rparr>) = book D e st"
  "book D e (upd_tx t h st) = book D e st"
  by (auto simp: book_def GetEntry_view fun_eq_iff)

lemma GetEntry_book: "fst (GetEntry D (world st) e a) = None \<longleftrightarrow> book D e st a = None"
  by (simp add: GetEntry_fst book_def)

text \<open>An edit that leaves balance and nonce alone.\<close>

lemma book_edit:
  assumes "proper e" and "loaded e a st" and "\<And>frm. balance (f frm) = balance frm" and "\<And>frm. nonce_of_frm (f frm) = nonce_of_frm frm"
  shows "book D e (upd_entry e a f st) = book D e st"
  using assms loaded_book [OF assms(2), of D] by (simp add: book_upd fun_upd_idem)

section \<open>Operations that leave the coins alone\<close>

lemma info_kept [simp]:
  "account_info (snd (GetAsset D key frm)) = account_info frm"
  "account_info (SetAsset a frm) = account_info frm"
  "account_info (snd (GetMetaData D k frm)) = account_info frm"
  "account_info (SetMetaData_frm kp frm) = account_info frm"
  "account_info (DeleteMetaData kp frm) = account_info frm"
  by (auto simp: GetAsset_def SetAsset_def GetMetaData_def SetMetaData_frm_def DeleteMetaData_def split: option.split)

definition same_coins :: "AccountFrm \<Rightarrow> AccountFrm \<Rightarrow> bool" where
  "same_coins f g \<longleftrightarrow> balance f = balance g \<and> nonce_of_frm f = nonce_of_frm g"

lemma same_coins_info [simp]:
  "same_coins f f" "same_coins (with_priv h f) g = same_coins f g" "same_coins (with_thresholds h2 f) g = same_coins f g"
  "same_coins (SetProtoMasterWeight n f) g = same_coins f g" "same_coins (SetProtoTxThreshold n f) g = same_coins f g"
  by (simp_all add: same_coins_def with_priv_def with_info_def with_thresholds_def SetProtoMasterWeight_def SetProtoTxThreshold_def)

lemma same_coins_UpdateSigner [simp]: "same_coins (snd (UpdateSigner a n f)) g = same_coins f g"
  by (simp add: UpdateSigner_def Let_def)

lemma same_coins_UpdateTypeThreshold [simp]: "same_coins (snd (UpdateTypeThreshold a n f)) g = same_coins f g"
  by (simp add: UpdateTypeThreshold_def Let_def)

lemma same_coins_updates [simp]:
  "same_coins (update_signers ss f) g = same_coins f g" "same_coins (update_type_thresholds ts f) g = same_coins f g"
  by (induction ss arbitrary: f; simp add: update_signers_def)
     (induction ts arbitrary: f; simp add: update_type_thresholds_def)

lemma book_edit_coins:
  assumes "proper e" and "loaded e a st" and "same_coins (f (read_entry (world st) e a)) (read_entry (world st) e a)"
  shows "book D e (upd_entry e a f st) = book D e st"
  using assms loaded_book [OF assms(2), of D] by (simp add: book_upd same_coins_def fun_upd_idem)

lemma IssueAsset_book:
  assumes "proper e" and "loaded e s st"
  shows "book D e (snd (IssueAsset D e s ia st)) = book D e st"
  using assms by (auto simp: IssueAsset_def Let_def split_beta book_edit_coins same_coins_def loaded_simps
      loaded_book fun_upd_idem split: option.split)

lemma SetMetaData_book:
  assumes "proper e" and "loaded e s st"
  shows "book D e (snd (SetMetaData D e s sm st)) = book D e st"
  using assms by (auto simp: SetMetaData_def Let_def split_beta same_coins_def loaded_simps
      loaded_book fun_upd_idem split: option.split)

lemma settings_book:
  assumes "proper e" and "loaded e s st"
  shows "book D e (snd (SetSignerWeight e s sw st)) = book D e st"
    and "book D e (snd (SetThreshold e s th st)) = book D e st"
    and "book D e (snd (SetPrivilege e s sp st)) = book D e st"
  using assms by (simp_all add: SetSignerWeight_def SetThreshold_def SetPrivilege_def Let_def book_edit_coins)

lemma move_asset_book:
  assumes "proper e" and "loaded e s st" and "loaded e d st"
  shows "book D e (snd (move_asset D e s d a st)) = book D e st"
  using assms by (simp add: move_asset_def Let_def split_beta book_edit_coins same_coins_def loaded_upd read_upd
      split: option.split)

section \<open>Payments\<close>

lemma set_balance_simps [simp]:
  "balance (set_balance n f) = n" "nonce_of_frm (set_balance n f) = nonce_of_frm f"
  by (simp_all add: set_balance_def with_info_def)

lemma move_coins_book:
  assumes move: "move_coins e s d n st = (ERRCODE_SUCCESS, st')" and e: "proper e" and "loaded e s st" and "loaded e d st"
    and typed: "int64 n" "\<And>a. int64 (coins_of (book D e st) a)" and n: "0 \<le> n" "n \<le> coins_of (book D e st) s"
  shows "book_step\<^sup>*\<^sup>* (book D e st) (book D e st')"
proof -
  let ?x = "balance (read_entry (world st) e s)" and ?y = "balance (read_entry (world st) e d)"
  have s: "book D e st s = Some (?x, nonce_of_frm (read_entry (world st) e s))"
    and d: "book D e st d = Some (?y, nonce_of_frm (read_entry (world st) e d))"
    using assms(3,4) by (simp_all add: loaded_book)
  have x: "int64 ?x" "n \<le> ?x" and y: "int64 ?y" using typed(2) [of s] typed(2) [of d] n s d by simp_all
  have sub: "SafeIntSub ?x n = Some (?x - n)" using x typed(1) n by (auto simp: SafeIntSub_exact) (simp add: int64_def)
  have "int64 (?x - n)" using x n by (simp add: int64_def)
  show ?thesis
  proof (cases "d = s")
    case True
    then have "book D e st' = book D e st"
      using move e assms(3) \<open>int64 (?x - n)\<close> typed(1) s
      by (auto simp: move_coins_def sub Let_def loaded_simps SafeIntAdd_exact fun_upd_idem split: option.splits if_splits)
    then show ?thesis by simp
  next
    case False
    then have "book D e st' = (book D e st)(s \<mapsto> (?x - n, nonce_of_frm (read_entry (world st) e s)),
        d \<mapsto> (?y + n, nonce_of_frm (read_entry (world st) e d)))"
      using move e y typed(1)
      by (auto simp: move_coins_def sub Let_def loaded_simps SafeIntAdd_exact split: option.splits if_splits)
    then show ?thesis using book_step.Transfer [OF s d] False n x by auto
  qed
qed

section \<open>Runs without contracts\<close>

definition no_contracts :: executor where
  "no_contracts p st = None"

interpretation silent: framed_executor no_contracts
  by unfold_locales (simp_all add: no_contracts_def)

lemma run_no_contract:
  "run_contract C no_contracts t sender js input this asset amount st = Some (r, st') \<Longrightarrow> r = new_Result \<and> st' = st"
  by (auto simp: run_contract_def no_contracts_def split: if_splits)

definition affordable :: "book \<Rightarrow> bool" where
  "affordable B \<longleftrightarrow> solvent B \<and> coins B < 2 ^ 63"

lemma affordable_int64: "affordable B \<Longrightarrow> 0 \<le> coins_of B a \<and> int64 (coins_of B a)"
  using coins_of_le [of B a] by (auto simp: affordable_def solvent_def int64_def intro: order_trans [of _ 0])

lemma affordable_steps: "book_step\<^sup>*\<^sup>* B B' \<Longrightarrow> affordable B \<Longrightarrow> affordable B'"
  by (simp add: affordable_def book_steps_safe)

definition fees_ok :: "ledger_cfg \<Rightarrow> bool" where
  "fees_ok C \<longleftrightarrow> 0 \<le> base_reserve (fee_config C) \<and> int64 (base_reserve (fee_config C))"

lemma PayCoin_book:
  assumes pay: "PayCoin C D no_contracts t e s pc st = Some (r, st')" and r: "code r = ERRCODE_SUCCESS"
    and e: "proper e" and s: "loaded e s st" and B: "affordable (book D e st)" and C: "fees_ok C"
    and n: "0 \<le> pc_amount pc" "int64 (pc_amount pc)"
  shows "book_step\<^sup>*\<^sup>* (book D e st) (book D e st')"
proof -
  let ?n = "pc_amount pc" and ?d = "pc_dest_address pc" and ?b = "balance (read_entry (world st) e s)"
  let ?get = "GetEntry D (world st) e ?d"
  let ?st1 = "st\<lparr>world := snd ?get\<rparr>"
  let ?st2 = "if fst ?get = None then with_world (\<lambda>w. AddEntry w e ?d (new_dest_account ?d)) ?st1 else ?st1"
  have rich: "?n \<le> ?b" "\<not> (fst ?get = None \<and> ?n < base_reserve (fee_config C))"
    and move: "move_coins e s ?d ?n ?st2 = (ERRCODE_SUCCESS, st')"
    using pay r n C by (auto simp: PayCoin_def Let_def split_beta fail_def SafeIntAdd_exact fees_ok_def prod_eq_iff
        split: option.splits if_splits dest!: run_no_contract)
  have opened: "book_step\<^sup>*\<^sup>* (book D e st) (book D e ?st2)"
    using e GetEntry_book [of D st e ?d] by (auto simp: loaded_simps new_dest_account_def new_AccountFrm_def empty_account_def
        intro!: r_into_rtranclp book_step.Open)
  have "loaded e s ?st2" "loaded e ?d ?st2" using s by (auto simp: loaded_simps)
  moreover have "?n \<le> coins_of (book D e ?st2) s"
    using rich(1) loaded_book [OF s, of D] GetEntry_book [of D st e ?d] e by (auto simp: loaded_simps)
  ultimately have "book_step\<^sup>*\<^sup>* (book D e ?st2) (book D e st')"
    using move_coins_book [OF move e] n affordable_int64 [OF affordable_steps [OF opened B]] by blast
  then show ?thesis using opened by (rule rtranclp_trans [rotated])
qed

lemma add_metadatas_info: "account_info (snd (add_metadatas kps frm)) = account_info frm"
  by (induction kps frm rule: add_metadatas.induct) simp_all

lemma CreateAccount_book:
  assumes create: "CreateAccount C D no_contracts t i e s ca st = Some (r, st')" and r: "code r = ERRCODE_SUCCESS"
    and e: "proper e" and s: "loaded e s st" and B: "affordable (book D e st)" and C: "fees_ok C"
    and n: "int64 (ca_init_balance ca)"
  shows "book_step\<^sup>*\<^sup>* (book D e st) (book D e st')"
proof -
  let ?n = "ca_init_balance ca" and ?me = "tx_frms st t" and ?src = "read_entry (world st) e s"
  let ?R = "base_reserve (fee_config C)"
  define d where "d = (if ca_dest_address ca = [] then RawAddress C (raw_pkey (GetSourceAddress ?me) (GetNonce ?me) i) else ca_dest_address ca)"
  let ?st1 = "st\<lparr>world := snd (GetEntry D (world st) e d)\<rparr>"
  let ?frm = "snd (add_metadatas (ca_metadatas ca) (created_account d ca))"
  let ?x = "balance ?src" and ?m = "nonce_of_frm ?src"
  have src: "read_entry (world ?st1) e s = ?src" using s by (simp add: loaded_simps)
  have x: "book D e st s = Some (?x, ?m)" using s by (rule loaded_book)
  have int: "int64 ?x" "0 \<le> ?x" "int64 ?R" "0 \<le> ?R"
    using affordable_int64 [OF B, of s] x C by (simp_all add: fees_ok_def)
  have limit: "SafeIntSub ?x ?R = Some (?x - ?R)" using int by (auto simp: SafeIntSub_exact) (simp add: int64_def)
  note body = create [unfolded CreateAccount_def Let_def split_beta d_def [symmetric] src limit option.case]
  have enough: "?R \<le> ?n" "?n \<le> ?x - ?R" using body r by (auto simp: fail_def split: if_splits)
  have new: "book D e st d = None"
    using body r by (cases "book D e st d") (auto simp: fail_def GetEntry_book)
  have "int64 (- ?n)" using enough int by (simp add: int64_def)
  then have "wrap64 (-1 * ?n) = - ?n" by simp
  then have add: "AddBalance (wrap64 (-1 * ?n)) ?src = Some (set_balance (?x - ?n) ?src)"
    using int enough by (simp add: AddBalance_def SafeIntAdd_exact int64_def)
  have "st' = with_world (\<lambda>w. AddEntry w e d ?frm) (upd_entry e s (\<lambda>_. set_balance (?x - ?n) ?src) ?st1)"
    using body r enough new by (auto simp: add [simplified] fail_def GetEntry_book no_contracts_def split: if_splits option.splits)
  moreover have "balance ?frm = ?n" "nonce_of_frm ?frm = 0"
    by (simp_all add: add_metadatas_info created_account_def new_AccountFrm_def empty_account_def)
  ultimately have st': "book D e st' = (book D e st)(s \<mapsto> (?x - ?n, ?m), d \<mapsto> (?n, 0))"
    using e by (simp add: loaded_simps)
  let ?B = "(book D e st)(d \<mapsto> (0, 0))"
  have "s \<noteq> d" using x new by auto
  then have "book_step ?B (?B(s \<mapsto> (?x - ?n, ?m), d \<mapsto> (0 + ?n, 0)))"
    using x enough int by (intro book_step.Transfer) auto
  also have "?B(s \<mapsto> (?x - ?n, ?m), d \<mapsto> (0 + ?n, 0)) = book D e st'"
    using \<open>s \<noteq> d\<close> by (simp add: st' fun_upd_twist)
  finally show ?thesis using book_step.Open [of "book D e st" d] new by (meson converse_rtranclp_into_rtranclp r_into_rtranclp)
qed

section \<open>The operations of a transaction\<close>

text \<open>The amounts of a message are 64-bit integers; a payment of a checked operation is not negative.\<close>

definition op_int64 :: "Operation \<Rightarrow> bool" where
  "op_int64 oper \<longleftrightarrow> int64 (pc_amount (pay_coin oper)) \<and> int64 (ca_init_balance (create_account oper))"

definition op_fit :: "Operation \<Rightarrow> bool" where
  "op_fit oper \<longleftrightarrow> op_int64 oper \<and> (op_type oper = Type_PAY_COIN \<longrightarrow> 0 \<le> pc_amount (pay_coin oper))"

lemma CheckValid_op_fit:
  assumes "CheckValid_op C D oper source n = ERRCODE_SUCCESS" and "op_int64 oper"
  shows "op_fit oper"
  using assms by (auto simp: CheckValid_op_def op_fit_def Let_def op_types check_pay_coin_def split: if_splits)

lemma check_operations_fit:
  "check_operations C D source n opers = ERRCODE_SUCCESS \<Longrightarrow> list_all op_int64 opers \<Longrightarrow> list_all op_fit opers"
  by (induction opers) (auto simp: Let_def CheckValid_op_fit split: if_splits)

lemma Apply_op_book:
  assumes run: "Apply_op C D no_contracts t i e oper st = Some (r, st')" and r: "code r = ERRCODE_SUCCESS"
    and e: "proper e" and B: "affordable (book D e st)" and C: "fees_ok C" and oper: "op_fit oper"
  shows "book_step\<^sup>*\<^sup>* (book D e st) (book D e st')"
proof -
  let ?s = "op_source (tx_frms st t) oper"
  let ?st1 = "st\<lparr>world := snd (GetEntry D (world st) e ?s)\<rparr>"
  have found: "fst (GetEntry D (world st) e ?s) \<noteq> None"
    using run r by (intro notI) (auto simp: Apply_op_def Let_def split_beta fail_def)
  have s: "loaded e ?s ?st1" using found by (simp add: loaded_simps)
  have same: "book D e ?st1 = book D e st" using e by (simp add: loaded_simps)
  have B1: "affordable (book D e ?st1)" using B same by simp
  note payments = PayCoin_book [OF _ r e s B1 C] CreateAccount_book [OF _ r e s B1 C]
  note edits = IssueAsset_book [OF e s] SetMetaData_book [OF e s] settings_book [OF e s]
  consider (coin) "op_type oper = Type_PAY_COIN" | (create) "op_type oper = Type_CREATE_ACCOUNT"
    | (asset) "op_type oper = Type_PAY_ASSET" | (other) "op_type oper \<notin> {Type_PAY_COIN, Type_CREATE_ACCOUNT, Type_PAY_ASSET}"
    by blast
  then show ?thesis
  proof cases
    case coin
    then have "PayCoin C D no_contracts t e ?s (pay_coin oper) ?st1 = Some (r, st')"
      using run found by (simp add: Apply_op_def Let_def split_beta op_types)
    then show ?thesis using payments(1) oper coin same by (auto simp: op_fit_def op_int64_def)
  next
    case create
    then have "CreateAccount C D no_contracts t i e ?s (create_account oper) ?st1 = Some (r, st')"
      using run found by (simp add: Apply_op_def Let_def split_beta op_types)
    then show ?thesis using payments(2) oper same by (auto simp: op_fit_def op_int64_def)
  next
    case asset
    let ?d = "pa_dest_address (pay_asset oper)"
    let ?st2 = "?st1\<lparr>world := snd (GetEntry D (world ?st1) e ?d)\<rparr>"
    have "PayAsset C D no_contracts t e ?s (pay_asset oper) ?st1 = Some (r, st')"
      using run found asset by (simp add: Apply_op_def Let_def split_beta op_types)
    then have d: "fst (GetEntry D (world ?st1) e ?d) \<noteq> None"
      and st': "st' = ?st2 \<or> (\<exists>a. st' = snd (move_asset D e ?s ?d a ?st2))"
      using r by (auto simp: PayAsset_def Let_def split_beta fail_def split: if_splits option.splits dest!: run_no_contract)
    have "loaded e ?s ?st2" "loaded e ?d ?st2" using s d loaded_GetEntry [where st = ?st1 and D = D and a = ?d] by auto
    moreover have "book D e ?st2 = book D e st" using book_world(1) [OF e, where st = ?st1 and a = ?d and D = D] same by simp
    ultimately have "book D e st' = book D e st" using st' move_asset_book [OF e] by auto
    then show ?thesis by simp
  next
    case other
    then have "book D e st' = book D e st"
      using run found r same edits [of D] by (auto simp: Apply_op_def Let_def split_beta fail_def prod_eq_iff split: if_splits)
    then show ?thesis by simp
  qed
qed

lemma CheckSignature_book: "proper e \<Longrightarrow> book D e (snd (CheckSignature D t e oper st)) = book D e st"
  by (simp add: CheckSignature_def Let_def split_beta loaded_simps split: option.split)

lemma apply_operations_book:
  assumes "apply_operations C D no_contracts t e trusted i opers st = Some (True, st')"
    and "proper e" and "affordable (book D e st)" and "fees_ok C" and "list_all op_fit opers"
  shows "book_step\<^sup>*\<^sup>* (book D e st) (book D e st')"
  using assms
proof (induction opers arbitrary: i st)
  case Nil
  then show ?case by (auto simp: loaded_simps)
next
  case (Cons oper opers)
  let ?st1 = "upd_tx t (\<lambda>x. x\<lparr>tf_processing := i\<rparr>) st"
  let ?st2 = "snd (if trusted then (ERRCODE_SUCCESS, ?st1) else CheckSignature D t e oper ?st1)"
  have st2: "book D e ?st2 = book D e st" using Cons.prems(2) by (simp add: CheckSignature_book loaded_simps)
  obtain r st3 where op: "Apply_op C D no_contracts t i e oper ?st2 = Some (r, st3)" "code r = ERRCODE_SUCCESS"
    and rest: "apply_operations C D no_contracts t e trusted (Suc i) opers
      (upd_tx t (\<lambda>x. x\<lparr>tf_result := (tf_result x)\<lparr>contract_result := contract_result r\<rparr>\<rparr>) st3) = Some (True, st')"
    using Cons.prems(1) by (auto simp: Let_def split_beta split: option.splits if_splits)
  have step: "book_step\<^sup>*\<^sup>* (book D e st) (book D e st3)"
    using Apply_op_book [OF op] Cons.prems st2 by simp
  have "book_step\<^sup>*\<^sup>* (book D e st3) (book D e st')"
    using Cons.IH [OF rest] Cons.prems affordable_steps [OF step] by (simp add: loaded_simps)
  then show ?case using step by (rule rtranclp_trans [rotated])
qed

end
