(* ===== verification/Ledger_Run.thy ===== *)
theory Ledger_Run
  imports Ledger_Coins
begin

text \<open>
  A run over the transactions of a consensus value that calls no contract. \<open>calm\<close> says of two
  states that the stack of transactions and what the transaction objects have of messages, gas and
  limits are the same, as the operations leave them. \<open>run_ok\<close> is the invariant of the loop over
  the transactions: the coins of the accounts and the collected fees make up a fixed supply.
\<close>

section \<open>Transaction objects under operations\<close>

definition calm_tx :: "tx_frm \<Rightarrow> tx_frm \<Rightarrow> bool" where
  "calm_tx x y \<longleftrightarrow> tf_env x = tf_env y \<and> tf_valid_signature x = tf_valid_signature y \<and> tf_actual_gas x = tf_actual_gas y \<and>
     tf_contract_step x = tf_contract_step y \<and> tf_memory_usage x = tf_memory_usage y \<and> tf_stack_usage x = tf_stack_usage y \<and>
     tf_enable_check x = tf_enable_check y \<and> tf_max_end_time x = tf_max_end_time y"

definition calm :: "ledger_st \<Rightarrow> ledger_st \<Rightarrow> bool" where
  "calm st st' \<longleftrightarrow> tx_stack st' = tx_stack st \<and> next_tx st' = next_tx st \<and> (\<forall>t. calm_tx (tx_frms st' t) (tx_frms st t))"

definition calm_upd :: "(tx_frm \<Rightarrow> tx_frm) \<Rightarrow> bool" where
  "calm_upd f \<longleftrightarrow> (\<forall>x. calm_tx (f x) x)"

named_theorems calm_simps \<open>\<open>calm\<close> under primitive changes\<close>

lemma calm_refl [simp]: "calm st st"
  by (simp add: calm_def calm_tx_def)

lemma calm_trans: "calm a b \<Longrightarrow> calm b c \<Longrightarrow> calm a c"
  by (simp add: calm_def calm_tx_def)

lemma calm_world [calm_simps]:
  "calm st (st'\<lparr>world := w\<rparr>) = calm st st'" "calm st (with_world g st') = calm st st'"
  "calm st (upd_entry e k h st') = calm st st'"
  by (simp_all add: calm_def with_world_def upd_entry_def)

lemma calm_upd_tx [calm_simps]: "calm_upd f \<Longrightarrow> calm st (upd_tx t f st') = calm st st'"
  unfolding calm_def calm_upd_def upd_tx_def calm_tx_def by auto

lemma calm_upd_simps [simp]:
  "calm_upd (set_code c)" "calm_upd (\<lambda>x. x\<lparr>tf_processing := i\<rparr>)" "calm_upd (\<lambda>x. x\<lparr>tf_result := r\<rparr>)"
  "calm_upd (\<lambda>x. x\<lparr>tf_result := h (tf_result x)\<rparr>)" "calm_upd (\<lambda>x. x\<lparr>tf_environment := en\<rparr>)"
  by (simp_all add: calm_upd_def calm_tx_def set_code_def)

lemma calm_ops [calm_simps]:
  "calm st (snd (IssueAsset D e s ia st')) = calm st st'"
  "calm st (snd (SetMetaData D e s sm st')) = calm st st'"
  "calm st (snd (SetSignerWeight e s sw st')) = calm st st'"
  "calm st (snd (SetThreshold e s th st')) = calm st st'"
  "calm st (snd (SetPrivilege e s sp st')) = calm st st'"
  "calm st (snd (move_coins e s d n st')) = calm st st'"
  "calm st (snd (CheckSignature D t e oper st')) = calm st st'"
  by (simp_all add: IssueAsset_def SetMetaData_def SetSignerWeight_def SetThreshold_def SetPrivilege_def move_coins_def
      CheckSignature_def Let_def split_beta calm_simps split: option.split)

lemma calm_move_asset [calm_simps]: "calm st (snd (move_asset D e s d a st')) = calm st st'"
  by (simp add: move_asset_def Let_def split_beta calm_simps split: option.split)

lemma PayCoin_calm:
  "PayCoin C D no_contracts t e s pc st = Some (r, st') \<Longrightarrow> calm st0 st' = calm st0 st"
  by (auto simp: PayCoin_def Let_def split_beta calm_simps split: if_splits option.splits dest!: run_no_contract)

lemma PayAsset_calm:
  "PayAsset C D no_contracts t e s pa st = Some (r, st') \<Longrightarrow> calm st0 st' = calm st0 st"
  by (auto simp: PayAsset_def Let_def split_beta calm_simps split: if_splits option.splits dest!: run_no_contract)

lemma CreateAccount_calm:
  "CreateAccount C D no_contracts t i e s ca st = Some (r, st') \<Longrightarrow> calm st0 st' = calm st0 st"
  by (auto simp: CreateAccount_def Let_def split_beta calm_simps no_contracts_def split: if_splits option.splits)

lemma Apply_op_calm:
  "Apply_op C D no_contracts t i e oper st = Some (r, st') \<Longrightarrow> calm st0 st' = calm st0 st"
  by (auto simp: Apply_op_def Let_def split_beta calm_simps prod_eq_iff [of _ "(r, st')"] split: if_splits
      dest!: PayCoin_calm [of _ _ _ _ _ _ _ _ _ st0] PayAsset_calm [of _ _ _ _ _ _ _ _ _ st0] CreateAccount_calm [of _ _ _ _ _ _ _ _ _ _ st0])

lemma apply_operations_calm:
  "apply_operations C D no_contracts t e trusted i opers st = Some (ok, st') \<Longrightarrow> calm st0 st' = calm st0 st"
proof (induction opers arbitrary: i st)
  case (Cons oper opers)
  let ?st1 = "upd_tx t (\<lambda>x. x\<lparr>tf_processing := i\<rparr>) st"
  let ?check = "if trusted then (ERRCODE_SUCCESS, ?st1) else CheckSignature D t e oper ?st1"
  have "calm st0 (snd ?check) = calm st0 st" by (simp add: calm_simps)
  then show ?case
    using Cons.prems Apply_op_calm [where ?st0.0 = st0] Cons.IH
    by (fastforce simp: Let_def split_beta calm_simps split: if_splits option.splits)
qed (auto simp: calm_simps)

lemma Apply_tx_calm:
  assumes "Apply_tx C D no_contracts t e trusted st = Some (ok, st')" and "tx_stack st = [t]"
  shows "calm (upd_tx t (\<lambda>x. x\<lparr>tf_actual_gas := wrap64 (tf_actual_gas x + GetSelfGas C x)\<rparr>) st) st'"
proof -
  let ?gas = "upd_tx t (\<lambda>x. x\<lparr>tf_actual_gas := wrap64 (tf_actual_gas x + GetSelfGas C x)\<rparr>) st"
  let ?st1 = "upd_tx t (\<lambda>x. x\<lparr>tf_environment := Some e\<rparr>) st"
  obtain c st2 where fee: "AddActualFee C t ?st1 = Some (c, st2)"
    using assms(1) by (auto simp: Apply_tx_def Let_def split: option.splits)
  have "GetBottomTx ?st1 = t" using assms(2) by (simp add: GetBottomTx_def upd_tx_def)
  moreover have "calm ?gas (upd_tx t (\<lambda>x. x\<lparr>tf_actual_gas := wrap64 (tf_actual_gas x + GetSelfGas C (tx_frms ?st1 t))\<rparr>) ?st1)"
    by (auto simp: calm_def calm_tx_def upd_tx_def GetSelfGas_def)
  ultimately have "calm ?gas st2"
    using fee by (auto simp: AddActualFee_def Let_def calm_simps split: if_splits option.splits)
  then show ?thesis
    using assms(1) fee apply_operations_calm [where ?st0.0 = ?gas] by (fastforce simp: Apply_tx_def Let_def split: if_splits)
qed

section \<open>What the checks before a transaction give\<close>

text \<open>The integers of a transaction message have 64 bits; a message has a size.\<close>

definition env_int64 :: "TransactionEnv \<Rightarrow> bool" where
  "env_int64 env \<longleftrightarrow> int64 (fee_limit (transaction env)) \<and> int64 (gas_price (transaction env)) \<and>
     list_all op_int64 (operations (transaction env))"

definition sized :: "ledger_cfg \<Rightarrow> bool" where
  "sized C \<longleftrightarrow> fees_ok C \<and> (\<forall>env. 0 \<le> ByteSize C env)"

lemma ValidForParameter_success:
  assumes "ValidForParameter C D 0 env = ERRCODE_SUCCESS" and "env_int64 env"
  shows "ByteSize C env < TRANSACTION_LIMIT_SIZE" and "length (operations (transaction env)) \<le> 100"
    and "0 \<le> fee_limit (transaction env)" and "0 \<le> gas_price (transaction env)"
    and "list_all op_fit (operations (transaction env))"
  using assms by (auto simp: ValidForParameter_def Let_def env_int64_def MAX_OPERATIONS_NUM_PER_TRANSACTION_def
      intro: check_operations_fit split: if_splits)

lemma operation_gas_bounds: "0 \<le> GetOperationTypeGas oper \<and> GetOperationTypeGas oper \<le> 5000000"
  by (simp add: GetOperationTypeGas_def gas_issue_asset_def gas_create_contract_def)

lemma operations_gas_bounds:
  "0 \<le> sum_list (map GetOperationTypeGas opers) \<and> sum_list (map GetOperationTypeGas opers) \<le> 5000000 * int (length opers)"
  by (induction opers) (use operation_gas_bounds in \<open>auto simp: algebra_simps intro: add_mono\<close>)

lemma self_gas_int64:
  assumes "ValidForParameter C D 0 (tf_env t) = ERRCODE_SUCCESS" and "env_int64 (tf_env t)" and "sized C"
  shows "0 \<le> GetSelfGas C t \<and> int64 (GetSelfGas C t)"
proof -
  let ?ops = "operations (transaction (tf_env t))"
  have "0 \<le> ByteSize C (tf_env t)" "ByteSize C (tf_env t) < 1048576" "length ?ops \<le> 100"
    using assms ValidForParameter_success(1,2) by (auto simp: sized_def TRANSACTION_LIMIT_SIZE_def)
  then show ?thesis using operations_gas_bounds [of ?ops] by (simp add: GetSelfGas_def int64_def)
qed

lemma ValidForApply_success:
  assumes "ValidForApply C D t e check_priv st = Some (ERRCODE_SUCCESS, st')"
  obtains frm where "ValidForParameter C D 0 (tf_env (tx_frms st t)) = ERRCODE_SUCCESS"
    and "env_view D (world st) e (GetSourceAddress (tx_frms st t)) = Some frm"
    and "wrap64 (nonce_of_frm frm + 1) = GetNonce (tx_frms st t)"
    and "CheckFee C (tx_frms st t) frm = Some ERRCODE_SUCCESS"
    and "check_priv \<Longrightarrow> SignerHashPriv (tf_valid_signature (tx_frms st t)) frm (-1)"
    and "st' = st\<lparr>world := snd (GetEntry D (world st) e (GetSourceAddress (tx_frms st t)))\<rparr>"
  using assms
  by (auto simp: ValidForApply_def Let_def split_beta GetEntry_fst GetAccountNonce_def split: if_splits option.splits intro: that)

lemma CheckFee_success:
  assumes "CheckFee C t frm = Some ERRCODE_SUCCESS" and "int64 (balance frm)" and "int64 (fee_limit (transaction (tf_env t)))"
  shows "base_reserve (fee_config C) \<le> balance frm - fee_limit (transaction (tf_env t))"
  using assms by (auto simp: CheckFee_def Let_def SafeIntSub_exact split: if_splits option.splits)

section \<open>One transaction\<close>

abbreviation ledger_book :: "ledger_db \<Rightarrow> ledger_st \<Rightarrow> book" where
  "ledger_book D st \<equiv> book D base_env st"

definition balanced :: "ledger_db \<Rightarrow> int \<Rightarrow> ledger_st \<Rightarrow> bool" where
  "balanced D S st \<longleftrightarrow> solvent (ledger_book D st) \<and> 0 \<le> total_fee st \<and> coins (ledger_book D st) + total_fee st = S"

lemma balanced_affordable: "balanced D S st \<Longrightarrow> S < 2 ^ 63 \<Longrightarrow> affordable (ledger_book D st)"
  by (simp add: balanced_def affordable_def)

lemma book_view: "ledger_view D st = ledger_view D st' \<Longrightarrow> ledger_book D st = ledger_book D st'"
  by (simp add: book_def fun_eq_iff)

lemma book_of_view: "ledger_view D st s = Some frm \<Longrightarrow> ledger_book D st s = Some (balance frm, nonce_of_frm frm)"
  by (simp add: book_def)

lemma balanced_change:
  assumes "balanced D S st" and "ledger_book D st s = Some (x, n)"
    and st': "ledger_book D st' = (ledger_book D st)(s \<mapsto> (x + k, m))" "total_fee st' = total_fee st - k"
    and "0 \<le> x + k" and "k \<le> total_fee st"
  shows "balanced D S st'" and "nonce_of (ledger_book D st') = (nonce_of (ledger_book D st))(s := m)"
proof -
  have fin: "finite (dom (ledger_book D st))" "solvent (ledger_book D st)"
    using assms(1) by (simp_all add: balanced_def solvent_def)
  show "balanced D S st'"
    unfolding balanced_def st' using assms(1,2,5,6) solvent_upd [OF fin(2)] by (simp add: coins_upd [OF fin(1)] balanced_def)
  show "nonce_of (ledger_book D st') = (nonce_of (ledger_book D st))(s := m)"
    unfolding st' by (intro ext) simp
qed

lemma ReturnFee_book:
  assumes refund: "ReturnFee D t base_env st = Some st'" and B: "balanced D S st" "S < 2 ^ 63"
    and limit: "0 \<le> fee_limit (transaction (tf_env (tx_frms st t)))" "fee_limit (transaction (tf_env (tx_frms st t))) \<le> total_fee st"
    and gas: "0 \<le> tf_actual_gas (tx_frms st t)" "int64 (tf_actual_gas (tx_frms st t))"
    and price: "0 \<le> gas_price (transaction (tf_env (tx_frms st t)))"
  shows "balanced D S st' \<and> nonce_of (ledger_book D st') = nonce_of (ledger_book D st)"
proof -
  let ?me = "tx_frms st t" and ?tran = "transaction (tf_env (tx_frms st t))"
  let ?fee = "tf_actual_gas ?me * gas_price ?tran" and ?s = "GetSourceAddress (tx_frms st t)"
  let ?k = "fee_limit ?tran - ?fee"
  let ?st1 = "st\<lparr>world := snd (GetEntry D (world st) base_env ?s)\<rparr>"
  have b: "0 \<le> coins (ledger_book D st)"
    using B(1) by (auto simp: balanced_def solvent_def intro: order_trans [OF _ coins_of_le])
  have small: "total_fee st < 2 ^ 63" using B b by (simp add: balanced_def)
  have same: "ledger_book D ?st1 = ledger_book D st" by (simp add: loaded_simps)
  have quiet: ?thesis if "ledger_book D st' = ledger_book D st" "total_fee st' = total_fee st"
    using that B(1) by (simp add: balanced_def)
  have nonneg: "0 \<le> ?fee" using gas(1) price by simp
  show ?thesis
  proof (cases "int64 ?fee \<and> code (tf_result ?me) = ERRCODE_SUCCESS \<and> 0 < ?k \<and> fst (GetEntry D (world st) base_env ?s) \<noteq> None")
    case False
    then show ?thesis
      using refund gas same small limit nonneg
      by (intro quiet)
         (auto simp: ReturnFee_def Let_def split_beta SafeIntMul_exact SafeIntSub_def loaded_simps
           split: if_splits option.splits, auto simp: int64_def)
  next
    case True
    let ?frm = "read_entry (world ?st1) base_env ?s"
    have loaded: "loaded base_env ?s ?st1" using True by (simp add: loaded_simps)
    have x: "ledger_book D st ?s = Some (balance ?frm, nonce_of_frm ?frm)" using loaded_book [OF loaded, of D] same by simp
    have frm: "fst (GetEntry D (world st) base_env ?s) = Some ?frm"
      using loaded_read [OF loaded, of D] GetEntry_view [of base_env D "world st" ?s] by (simp add: GetEntry_fst)
    have k: "0 < ?k" "?k \<le> total_fee st" "int64 ?k" using True limit nonneg small by (auto simp: int64_def)
    have le: "0 \<le> balance ?frm" "balance ?frm \<le> coins (ledger_book D st)"
      using B(1) x coins_of_le [of "ledger_book D st" ?s] by (auto simp: balanced_def solvent_def dest: spec [of _ ?s])
    then have fits: "int64 (balance ?frm)" "int64 (balance ?frm + ?k)" "int64 (total_fee st)" "int64 (total_fee st - ?k)"
      using B k small by (auto simp: balanced_def int64_def)
    have fl: "int64 (fee_limit ?tran)" using limit small by (simp add: int64_def)
    have "st' = upd_entry base_env ?s (set_balance (balance ?frm + ?k)) (?st1\<lparr>total_fee := total_fee st - ?k\<rparr>)"
      using refund True gas(2) frm k fits fl
      by (auto simp: ReturnFee_def Let_def split_beta SafeIntMul_exact SafeIntSub_exact SafeIntAdd_exact split: if_splits)
    moreover have "ledger_book D (?st1\<lparr>total_fee := total_fee st - ?k\<rparr>) = ledger_book D st"
      using same by (simp add: book_def fun_eq_iff)
    ultimately have "ledger_book D st' = (ledger_book D st)(?s \<mapsto> (balance ?frm + ?k, nonce_of_frm ?frm))"
      and "total_fee st' = total_fee st - ?k" by (simp_all add: loaded_simps)
    note change = balanced_change [OF B(1) x this]
    show ?thesis using change k le x by (simp add: fun_upd_idem)
  qed
qed

lemma start_tx_book:
  assumes "ledger_book D st (GetSourceAddress (tx_frms st t)) = Some (x, n)"
  shows "ledger_book D (start_tx D t st) = (ledger_book D st)(GetSourceAddress (tx_frms st t) \<mapsto> (x, wrap64 (n + 1)))"
proof -
  obtain frm where frm: "ledger_view D st (GetSourceAddress (tx_frms st t)) = Some frm" "balance frm = x" "nonce_of_frm frm = n"
    using assms by (auto simp: book_def)
  have "ledger_view D (start_tx D t st) = ledger_base D (start_tx D t st)"
    by (simp add: start_tx_def Commit_base Commit_view)
  then show ?thesis
    using start_tx_base [OF frm(1)] frm(2,3) by (auto simp: book_def fun_eq_iff NonceIncrease_frm_def with_info_def)
qed

lemma start_tx_stack [simp]: "tx_stack (start_tx D t st) = t # tx_stack st"
  by (simp add: start_tx_def with_world_def NonceIncrease_def Let_def split_beta push_tx_def upd_entry_def upd_tx_def split: option.split)

lemma start_tx_calm: "calm (push_tx t st) (start_tx D t st)"
  by (simp add: start_tx_def NonceIncrease_def Let_def split_beta calm_simps split: option.split)

lemma finish_tx_stack [simp]: "tx_stack (finish_tx st) = tl (tx_stack st)"
  by (simp add: finish_tx_def pop_tx_def with_world_def)

lemma finish_tx_envs [simp]: "envs_ok (finish_tx st) = envs_ok st"
  by (simp add: finish_tx_def frame_simps)

lemma ReturnFee_other:
  assumes "ReturnFee D t base_env st = Some st'"
  shows "tx_stack st' = tx_stack st" and "envs_ok st' = envs_ok st"
proof -
  have fee: "envs_ok (st\<lparr>world := w, total_fee := f\<rparr>) = envs_ok st" for w f by (simp add: envs_ok_def)
  show "tx_stack st' = tx_stack st"
    using assms by (auto simp: ReturnFee_def Let_def split_beta upd_tx_def upd_entry_def with_world_def split: if_splits option.splits)
  show "envs_ok st' = envs_ok st"
    using assms by (auto simp: ReturnFee_def Let_def split_beta frame_simps fee split: if_splits option.splits)
qed

lemma Apply_tx_book:
  assumes run: "Apply_tx C D no_contracts t base_env trusted st = Some (True, st')"
    and "affordable (ledger_book D st)" and "fees_ok C" and "list_all op_fit (operations (transaction (tf_env (tx_frms st t))))"
  shows "book_step\<^sup>*\<^sup>* (ledger_book D st) (ledger_book D st')"
proof -
  let ?st1 = "upd_tx t (\<lambda>x. x\<lparr>tf_environment := Some base_env\<rparr>) st"
  obtain st2 where fee: "AddActualFee C t ?st1 = Some (ERRCODE_SUCCESS, st2)"
    and ops: "apply_operations C D no_contracts t base_env trusted 0 (operations (transaction (tf_env (tx_frms st2 t)))) st2 = Some (True, st')"
    using run by (auto simp: Apply_tx_def Let_def split: option.splits if_splits)
  have "tf_env (tx_frms st2 t) = tf_env (tx_frms st t)" "ledger_book D st2 = ledger_book D st"
    using fee by (auto simp: AddActualFee_def Let_def upd_tx_def book_def fun_eq_iff split: if_splits option.splits)
  then show ?thesis using apply_operations_book [OF ops] assms(2-) by simp
qed

lemma Apply_tx_gas:
  assumes "Apply_tx C D no_contracts t e trusted st = Some (ok, st')" and "tx_stack st = [t]"
  shows "tx_stack st' = [t]" and "tf_env (tx_frms st' t) = tf_env (tx_frms st t)"
    and "tf_actual_gas (tx_frms st' t) = wrap64 (tf_actual_gas (tx_frms st t) + GetSelfGas C (tx_frms st t))"
proof -
  note calm = Apply_tx_calm [OF assms, unfolded calm_def]
  show "tx_stack st' = [t]" using calm assms(2) by (simp add: upd_tx_def)
  show "tf_env (tx_frms st' t) = tf_env (tx_frms st t)"
    and "tf_actual_gas (tx_frms st' t) = wrap64 (tf_actual_gas (tx_frms st t) + GetSelfGas C (tx_frms st t))"
    using calm [THEN conjunct2, THEN conjunct2, THEN spec, of t] by (simp_all add: calm_tx_def upd_tx_def)
qed

text \<open>The state in which the operations begin, and the one in which they end.\<close>

definition timed_start :: "ledger_db \<Rightarrow> tx_times \<Rightarrow> nat \<Rightarrow> ledger_st \<Rightarrow> ledger_st" where
  "timed_start D tm t st =
     upd_tx t (\<lambda>x. x\<lparr>tf_enable_check := True, tf_max_end_time := at_start tm + TX_EXECUTE_TIME_OUT\<rparr>) (start_tx D t st)"

lemma timed_start_simps:
  assumes "tx_stack st = []"
  shows "tx_stack (timed_start D tm t st) = [t]" and "envs_ok (timed_start D tm t st) = envs_ok st"
    and "tf_env (tx_frms (timed_start D tm t st) t) = tf_env (tx_frms st t)"
    and "tf_actual_gas (tx_frms (timed_start D tm t st) t) = tf_actual_gas (tx_frms st t)"
    and "ledger_book D (timed_start D tm t st) = ledger_book D (start_tx D t st)"
    and "ledger_base D (timed_start D tm t st) = ledger_base D (start_tx D t st)"
    and "total_fee (timed_start D tm t st) = total_fee st"
proof -
  have "calm_tx (tx_frms (start_tx D t st) t) (tx_frms st t)" using start_tx_calm [of t st D] by (simp add: calm_def push_tx_def)
  then show "tf_env (tx_frms (timed_start D tm t st) t) = tf_env (tx_frms st t)"
    and "tf_actual_gas (tx_frms (timed_start D tm t st) t) = tf_actual_gas (tx_frms st t)"
    by (simp_all add: timed_start_def upd_tx_def calm_tx_def)
  show "tx_stack (timed_start D tm t st) = [t]" using assms by (simp add: timed_start_def upd_tx_def)
qed (simp_all add: timed_start_def frame_simps loaded_simps)

lemma execute_tx_cases:
  assumes "execute_tx C D exec test_mode tm t st = Some (out, st')"
  obtains (failed) ok st2 where "Apply_tx C D exec t base_env test_mode (timed_start D tm t st) = Some (ok, st2)"
      and "out \<noteq> TxOk" and "st' = finish_tx (snd (IsExpire (at_check tm) t st2))"
    | (ok) st2 st3 where "Apply_tx C D exec t base_env test_mode (timed_start D tm t st) = Some (True, st2)"
      and "out = TxOk" and "\<not> fst (IsExpire (at_check tm) t st2)" and "ReturnFee D t base_env st2 = Some st3"
      and "st' = finish_tx (with_world (\<lambda>w. Commit_env w base_env) st3)"
proof -
  obtain done_ok st2 where tx: "Apply_tx C D exec t base_env test_mode (timed_start D tm t st) = Some (done_ok, st2)"
    using assms by (auto simp: execute_tx_def timed_start_def Let_def split: option.splits)
  have expired: "snd (IsExpire (at_check tm) t st2) = st2" if "\<not> fst (IsExpire (at_check tm) t st2)"
    using that by (auto simp: IsExpire_def Let_def split: if_splits)
  show thesis
  proof (cases "fst (IsExpire (at_check tm) t st2) \<or> \<not> done_ok")
    case True
    then show thesis
      using assms tx failed [OF tx] by (auto simp: execute_tx_def timed_start_def Let_def split_beta split: if_splits)
  next
    case False
    then show thesis
      using assms tx ok expired
      by (auto simp: execute_tx_def timed_start_def [symmetric] Let_def split_beta refund_and_commit_def)
  qed
qed

lemma execute_tx_book:
  assumes run: "execute_tx C D no_contracts test_mode tm t st = Some (out, st')"
    and stack: "tx_stack st = []" and ok: "envs_ok st" and gas: "tf_actual_gas (tx_frms st t) = 0"
    and valid: "ValidForParameter C D 0 (tf_env (tx_frms st t)) = ERRCODE_SUCCESS" "env_int64 (tf_env (tx_frms st t))" "sized C"
    and src: "ledger_book D st (GetSourceAddress (tx_frms st t)) = Some (x, n)"
    and B: "balanced D S st" "S < 2 ^ 63" "fee_limit (transaction (tf_env (tx_frms st t))) \<le> total_fee st"
  shows "balanced D S st' \<and> envs_ok st' \<and> tx_stack st' = [] \<and>
    nonce_of (ledger_book D st') = (nonce_of (ledger_book D st))(GetSourceAddress (tx_frms st t) := wrap64 (n + 1))"
proof -
  let ?s = "GetSourceAddress (tx_frms st t)" and ?st1 = "timed_start D tm t st"
  note st1 = timed_start_simps [OF stack, of D tm t]
  have start: "ledger_book D ?st1 = (ledger_book D st)(?s \<mapsto> (x + 0, wrap64 (n + 1)))" "total_fee ?st1 = total_fee st - 0"
    using start_tx_book [OF src] st1 by simp_all
  have "0 \<le> x" using B(1) src by (auto simp: balanced_def solvent_def dest: spec [of _ ?s])
  then have bal1: "balanced D S ?st1"
    and nonce1: "nonce_of (ledger_book D ?st1) = (nonce_of (ledger_book D st))(?s := wrap64 (n + 1))"
    using balanced_change [OF B(1) src start] B(1) by (simp_all add: balanced_def)
  show ?thesis
    using run
  proof (cases rule: execute_tx_cases)
    case (failed done_ok st2)
    have "ledger_view D st' = ledger_base D (start_tx D t st)" "total_fee st' = total_fee st"
      using silent.execute_tx_failed [OF run failed(2) ok] by simp_all
    moreover have "ledger_base D (start_tx D t st) = ledger_view D (start_tx D t st)"
      by (simp add: start_tx_def Commit_base Commit_view)
    ultimately have "ledger_book D st' = ledger_book D ?st1" using st1(5) by (simp add: book_def fun_eq_iff)
    moreover have "tx_stack (snd (IsExpire (at_check tm) t st2)) = [t]"
      using Apply_tx_gas(1) [OF failed(1) st1(1)] by (simp add: IsExpire_def Let_def upd_tx_def)
    moreover have "envs_ok st2" using silent.Apply_tx_base(3) [OF failed(1)] ok st1(2) by simp
    ultimately show ?thesis
      using bal1 nonce1 failed(3) \<open>total_fee st' = total_fee st\<close> st1(7) by (simp add: balanced_def frame_simps)
  next
    case (ok st2 st3)
    have self: "0 \<le> GetSelfGas C (tx_frms ?st1 t)" "int64 (GetSelfGas C (tx_frms ?st1 t))"
      using self_gas_int64 [of C D "tx_frms ?st1 t"] valid st1(3) by simp_all
    have st2: "total_fee st2 = total_fee st" "envs_ok st2"
      using silent.Apply_tx_base [OF ok(1)] assms(3) st1 by simp_all
    note t2 = Apply_tx_gas [OF ok(1) st1(1)]
    have fit: "list_all op_fit (operations (transaction (tf_env (tx_frms ?st1 t))))"
      using ValidForParameter_success(5) [OF valid(1,2)] st1(3) by simp
    have "book_step\<^sup>*\<^sup>* (ledger_book D ?st1) (ledger_book D st2)"
      using Apply_tx_book [OF ok(1) _ _ fit] balanced_affordable [OF bal1 B(2)] valid(3) by (simp add: sized_def)
    then have B2: "balanced D S st2" and nonce2: "nonce_of (ledger_book D st2) = nonce_of (ledger_book D ?st1)"
      using book_steps_safe [of "ledger_book D ?st1" "ledger_book D st2"] bal1 st2(1) st1(7) by (auto simp: balanced_def)
    have "balanced D S st3 \<and> nonce_of (ledger_book D st3) = nonce_of (ledger_book D st2)"
      using ReturnFee_book [OF ok(4) B2 B(2)] ValidForParameter_success(3,4) [OF valid(1,2)] t2 self B(3) st2(1) st1 gas by simp
    moreover have "ledger_book D st' = ledger_book D st3"
      by (intro book_view) (simp add: ok(5) finish_tx_view Commit_base)
    moreover have "total_fee st' = total_fee st3" "envs_ok st' = envs_ok st3" "tx_stack st' = tl (tx_stack st3)"
      unfolding ok(5) by (simp_all add: frame_simps) (simp add: with_world_def)
    ultimately show ?thesis
      using nonce1 nonce2 ReturnFee_other [OF ok(4)] t2(1) st2(2) by (simp add: balanced_def)
  qed
qed

lemma PayFee_book:
  assumes pay: "PayFee D t base_env st = (True, st')" and src: "ledger_book D st (GetSourceAddress (tx_frms st t)) = Some (x, n)"
    and B: "balanced D S st" "S < 2 ^ 63" and limit: "0 \<le> fee_limit (transaction (tf_env (tx_frms st t)))"
    "fee_limit (transaction (tf_env (tx_frms st t))) \<le> x"
  shows "balanced D S st' \<and> nonce_of (ledger_book D st') = nonce_of (ledger_book D st) \<and> tx_frms st' = tx_frms st \<and>
    ledger_book D st' (GetSourceAddress (tx_frms st t)) = Some (x - fee_limit (transaction (tf_env (tx_frms st t))), n) \<and>
    total_fee st' = total_fee st + fee_limit (transaction (tf_env (tx_frms st t)))"
proof -
  let ?s = "GetSourceAddress (tx_frms st t)" and ?f = "fee_limit (transaction (tf_env (tx_frms st t)))"
  obtain frm b where frm: "ledger_view D st ?s = Some frm" "SafeIntSub (balance frm) ?f = Some b"
    "SafeIntAdd (total_fee st) ?f = Some (total_fee st')" "ledger_view D st' = (ledger_view D st)(?s \<mapsto> set_balance b frm)"
    "tx_frms st' = tx_frms st"
    using PayFee_view [OF pay] by blast
  have x: "balance frm = x" "nonce_of_frm frm = n" using frm(1) src by (simp_all add: book_def)
  have le: "x \<le> coins (ledger_book D st)" using coins_of_le [of "ledger_book D st" ?s] src B(1) by (simp add: balanced_def)
  have int: "int64 x" "int64 ?f" "int64 (x - ?f)" "int64 (total_fee st)" "int64 (total_fee st + ?f)"
    using limit le B by (auto simp: balanced_def int64_def)
  have st': "ledger_book D st' = (ledger_book D st)(?s \<mapsto> (x + - ?f, n))" "total_fee st' = total_fee st - - ?f"
    using frm x int by (auto simp: book_def fun_eq_iff SafeIntSub_exact SafeIntAdd_exact)
  show ?thesis
    using balanced_change [OF B(1) src st'] st' limit frm(5) B(1) src by (simp add: balanced_def fun_upd_idem)
qed

lemma paid_ok:
  assumes "ValidForApply C D t base_env check_priv (snd (alloc_tx C env st)) = Some (ERRCODE_SUCCESS, st2)"
    and "t = next_tx st" and "PayFee D t base_env st2 = (True, st3)" and "envs_ok st"
  shows "envs_ok st3" and "tx_stack st3 = tx_stack st"
proof -
  obtain w where st2: "st2 = (snd (alloc_tx C env st))\<lparr>world := w\<rparr>" by (rule ValidForApply_success [OF assms(1)])
  show "envs_ok st3" "tx_stack st3 = tx_stack st"
    using assms(3,4) by (auto simp: st2 PayFee_def Let_def split_beta alloc_tx_def upd_entry_def with_world_def upd_tx_def envs_ok_def
        new_TransactionFrm_def split: option.splits if_splits)
qed

lemma round_book:
  assumes valid: "ValidForApply C D t base_env check_priv (snd (alloc_tx C env st)) = Some (ERRCODE_SUCCESS, st2)"
    and t: "t = next_tx st"
    and pay: "PayFee D t base_env st2 = (True, st3)" and run: "execute_tx C D no_contracts test_mode tm t st3 = Some (out, st4)"
    and inv: "balanced D S st" "envs_ok st" "tx_stack st = []" and S: "S < 2 ^ 63" and C: "sized C" and env: "env_int64 env"
  shows "balanced D S st4 \<and> envs_ok st4 \<and> tx_stack st4 = [] \<and>
    nonce_of (ledger_book D st4) = (nonce_of (ledger_book D st))(tx_source_address (transaction env) := tx_nonce (transaction env)) \<and>
    tx_nonce (transaction env) = wrap64 (nonce_of (ledger_book D st) (tx_source_address (transaction env)) + 1)"
proof -
  let ?st1 = "snd (alloc_tx C env st)" and ?s = "tx_source_address (transaction env)"
  have me: "tx_frms ?st1 t = new_TransactionFrm C env" by (simp add: alloc_tx_def t)
  obtain frm where par: "ValidForParameter C D 0 env = ERRCODE_SUCCESS" and frm: "ledger_view D ?st1 ?s = Some frm"
    and nonce: "wrap64 (nonce_of_frm frm + 1) = tx_nonce (transaction env)"
    and fee: "CheckFee C (new_TransactionFrm C env) frm = Some ERRCODE_SUCCESS"
    and st2: "st2 = ?st1\<lparr>world := snd (GetEntry D (world ?st1) base_env ?s)\<rparr>"
    by (rule ValidForApply_success [OF valid]) (simp add: me new_TransactionFrm_def GetSourceAddress_def GetNonce_def)
  have me2: "tx_frms st2 t = new_TransactionFrm C env" and s2: "GetSourceAddress (tx_frms st2 t) = ?s"
    and env2: "tf_env (tx_frms st2 t) = env"
    using me by (simp_all add: st2 GetSourceAddress_def new_TransactionFrm_def)
  have same: "ledger_book D st2 = ledger_book D st" "total_fee st2 = total_fee st"
    unfolding st2 using GetEntry_view [of base_env D "world ?st1" ?s] by (simp_all add: book_def fun_eq_iff)
  have src: "ledger_book D st2 ?s = Some (balance frm, nonce_of_frm frm)" using frm same(1) by (simp add: book_def)
  have bal2: "balanced D S st2" using inv(1) same by (simp add: balanced_def)
  have int: "int64 (balance frm)" using affordable_int64 [OF balanced_affordable [OF bal2 S], of ?s] src by simp
  have "fee_limit (transaction env) \<le> balance frm"
    using CheckFee_success [OF fee int] env C by (auto simp: new_TransactionFrm_def env_int64_def sized_def fees_ok_def)
  then have st3: "balanced D S st3" "nonce_of (ledger_book D st3) = nonce_of (ledger_book D st)" "tx_frms st3 = tx_frms st2"
    "\<exists>x. ledger_book D st3 ?s = Some (x, nonce_of_frm frm)" "fee_limit (transaction env) \<le> total_fee st3"
    using PayFee_book [OF pay _ bal2 S] src s2 env2 same ValidForParameter_success(3) [OF par env] inv(1)
    by (auto simp: balanced_def)
  have other: "tx_stack st3 = []" "envs_ok st3"
    using paid_ok [OF valid t pay inv(2)] inv(3) by simp_all
  obtain x where "ledger_book D st3 (GetSourceAddress (tx_frms st3 t)) = Some (x, nonce_of_frm frm)" using st3(3,4) s2 by auto
  then show ?thesis
    using execute_tx_book [OF run other _ _ _ C _ st3(1) S] par env env2 me2 st3 s2 nonce frm
      book_of_view [OF frm] same(1) src by (auto simp: new_TransactionFrm_def)
qed

end
