(* ===== verification/Ledger_Reward.thy ===== *)
theory Ledger_Reward
  imports Ledger_Run
begin

text \<open>
  The loop over the transactions of a value, and the distribution of the collected fees and of the
  block reward at its end.
\<close>

section \<open>The loop of a checking run\<close>

definition txs_of :: "cstring \<Rightarrow> TransactionEnv list \<Rightarrow> TransactionEnv list" where
  "txs_of a = filter (\<lambda>env. tx_source_address (transaction env) = a)"

definition nonces_of :: "cstring \<Rightarrow> TransactionEnv list \<Rightarrow> int list" where
  "nonces_of a envs = map (tx_nonce \<circ> transaction) (txs_of a envs)"

lemma check_loop_step:
  assumes "check_loop C D exec test_mode clock start i (env # envs) acc st = Some ((True, acc'), st')"
  obtains st2 st3 out st4 where
    "ValidForApply C D (next_tx st) base_env (\<not> test_mode) (snd (alloc_tx C env st)) = Some (ERRCODE_SUCCESS, st2)"
    and "PayFee D (next_tx st) base_env st2 = (True, st3)"
    and "execute_tx C D exec test_mode (clock i) (next_tx st) st3 = Some (out, st4)"
    and "check_loop C D exec test_mode clock start (Suc i) envs (note_outcome (int i) (next_tx st) out acc) st4 = Some ((True, acc'), st')"
proof -
  have alloc: "fst (alloc_tx C env st) = next_tx st" by (simp add: alloc_tx_def)
  obtain st2 where valid: "ValidForApply C D (next_tx st) base_env (\<not> test_mode) (snd (alloc_tx C env st)) = Some (ERRCODE_SUCCESS, st2)"
    using assms alloc by (auto simp: Let_def split_beta split: option.splits if_splits)
  obtain paid st3 where pay: "PayFee D (next_tx st) base_env st2 = (paid, st3)" by fastforce
  show thesis
    using assms alloc valid pay by (auto simp: Let_def split_beta split: option.splits if_splits intro: that [OF valid])
qed

lemma check_loop_balanced:
  assumes "check_loop C D no_contracts test_mode clock start i envs acc st = Some ((True, acc'), st')"
    and "balanced D S st" and "envs_ok st" and "tx_stack st = []" and "S < 2 ^ 63" and "sized C" and "list_all env_int64 envs"
  shows "balanced D S st' \<and> envs_ok st' \<and> tx_stack st' = []"
  using assms
proof (induction envs arbitrary: i acc st)
  case (Cons env envs)
  obtain st2 st3 out st4 where step:
    "ValidForApply C D (next_tx st) base_env (\<not> test_mode) (snd (alloc_tx C env st)) = Some (ERRCODE_SUCCESS, st2)"
    "PayFee D (next_tx st) base_env st2 = (True, st3)"
    "execute_tx C D no_contracts test_mode (clock i) (next_tx st) st3 = Some (out, st4)"
    "check_loop C D no_contracts test_mode clock start (Suc i) envs (note_outcome (int i) (next_tx st) out acc) st4 = Some ((True, acc'), st')"
    by (rule check_loop_step [OF Cons.prems(1)])
  then show ?case
    using round_book [OF step(1) refl step(2,3) Cons.prems(2-6)] Cons.prems Cons.IH [OF step(4)] by simp
qed simp

lemma check_loop_nonces:
  assumes "check_loop C D no_contracts test_mode clock start i envs acc st = Some ((True, acc'), st')"
    and "balanced D S st" and "envs_ok st" and "tx_stack st = []" and "S < 2 ^ 63" and "sized C" and "list_all env_int64 envs"
    and "\<And>a. 0 \<le> nonce_of (ledger_book D st) a \<and> nonce_of (ledger_book D st) a + int (length envs) < 2 ^ 63"
  shows "nonces_of a envs = [nonce_of (ledger_book D st) a + 1 .. nonce_of (ledger_book D st) a + int (length (txs_of a envs))] \<and>
    nonce_of (ledger_book D st') a = nonce_of (ledger_book D st) a + int (length (txs_of a envs))"
  using assms
proof (induction envs arbitrary: i acc st)
  case (Cons env envs)
  let ?s = "tx_source_address (transaction env)" and ?B = "ledger_book D st"
  obtain st2 st3 out st4 where step:
    "ValidForApply C D (next_tx st) base_env (\<not> test_mode) (snd (alloc_tx C env st)) = Some (ERRCODE_SUCCESS, st2)"
    "PayFee D (next_tx st) base_env st2 = (True, st3)"
    "execute_tx C D no_contracts test_mode (clock i) (next_tx st) st3 = Some (out, st4)"
    "check_loop C D no_contracts test_mode clock start (Suc i) envs (note_outcome (int i) (next_tx st) out acc) st4 = Some ((True, acc'), st')"
    by (rule check_loop_step [OF Cons.prems(1)])
  have "env_int64 env" "list_all env_int64 envs" using Cons.prems(7) by simp_all
  note round = round_book [OF step(1) refl step(2,3) Cons.prems(2-6) this(1)]
  have "int64 (nonce_of ?B ?s + 1)" using Cons.prems(8) [of ?s] by (simp add: int64_def)
  then have nonce: "tx_nonce (transaction env) = nonce_of ?B ?s + 1"
    and st4: "nonce_of (ledger_book D st4) = (nonce_of ?B)(?s := nonce_of ?B ?s + 1)" using round by simp_all
  have "0 \<le> nonce_of (ledger_book D st4) b \<and> nonce_of (ledger_book D st4) b + int (length envs) < 2 ^ 63" for b
    using Cons.prems(8) [of b] by (auto simp: st4)
  note IH = Cons.IH [OF step(4) _ _ _ Cons.prems(5,6) \<open>list_all env_int64 envs\<close> this]
  show ?case
  proof (cases "a = ?s")
    case True
    let ?k = "int (length (txs_of a envs))"
    have "[nonce_of ?B a + 1 .. nonce_of ?B a + (?k + 1)] = (nonce_of ?B a + 1) # [nonce_of ?B a + 1 + 1 .. nonce_of ?B a + 1 + ?k]"
      by (subst upto_rec1) (simp_all add: algebra_simps)
    then show ?thesis using True IH round nonce st4 by (simp add: nonces_of_def txs_of_def algebra_simps)
  next
    case False
    then show ?thesis using IH round st4 by (simp add: nonces_of_def txs_of_def)
  qed
qed (simp add: nonces_of_def txs_of_def)

section \<open>The block reward\<close>

lemma reward_loop_bounds: "0 \<le> r \<Longrightarrow> 0 \<le> reward_loop n r \<and> reward_loop n r \<le> r"
proof (induction n arbitrary: r)
  case (Suc n)
  have "0 \<le> r * 3 div 4 \<and> r * 3 div 4 \<le> r" "0 \<le> r - r div 4 \<and> r - r div 4 \<le> r" using Suc.prems by auto
  then show ?case using Suc.IH [of "r * 3 div 4"] Suc.IH [of "r - r div 4"] Suc.prems by auto
qed simp

lemma GetBlockReward_bounds: "0 \<le> GetBlockReward h \<and> GetBlockReward h \<le> REWARD_INIT_VALUE"
  by (simp add: GetBlockReward_def reward_loop_bounds REWARD_INIT_VALUE_def)

lemma reward_one:
  assumes "0 \<le> k" and "solvent (ledger_book D st)" and "coins (ledger_book D st) + k < 2 ^ 63" and "loaded base_env v st"
  obtains b where "SafeIntAdd (balance (read_entry (world st) base_env v)) k = Some b"
    and "solvent (ledger_book D (upd_entry base_env v (set_balance b) st))"
    and "coins (ledger_book D (upd_entry base_env v (set_balance b) st)) = coins (ledger_book D st) + k"
    and "nonce_of (ledger_book D (upd_entry base_env v (set_balance b) st)) = nonce_of (ledger_book D st)"
proof -
  let ?x = "balance (read_entry (world st) base_env v)" and ?n = "nonce_of_frm (read_entry (world st) base_env v)"
  have x: "ledger_book D st v = Some (?x, ?n)" using assms(4) by (rule loaded_book)
  have le: "0 \<le> ?x" "?x \<le> coins (ledger_book D st)"
    using assms(2) coins_of_le [OF assms(2), of v] x by (auto simp: solvent_def dest: spec [of _ v])
  then have "int64 ?x" "int64 k" "int64 (?x + k)" using assms(1,3) by (auto simp: int64_def)
  then have add: "SafeIntAdd ?x k = Some (?x + k)" by (simp add: SafeIntAdd_exact)
  have book: "ledger_book D (upd_entry base_env v (set_balance (?x + k)) st) = (ledger_book D st)(v \<mapsto> (?x + k, ?n))"
    by (simp add: loaded_simps)
  have nonce: "nonce_of ((ledger_book D st)(v \<mapsto> (?x + k, ?n))) = nonce_of (ledger_book D st)" using x by (intro ext) simp
  show thesis
    using that [OF add] assms(1,2) le x solvent_upd [of "ledger_book D st"] unfolding book
    by (simp add: coins_upd solvent_def nonce)
qed

lemma reward_validators_coins:
  assumes "0 \<le> avg" and "solvent (ledger_book D st)" and "coins (ledger_book D st) + avg * int (length vs) < 2 ^ 63"
  shows "\<exists>st'. reward_validators D avg vs left st = ((True, left - avg * int (length vs)), st') \<and>
    solvent (ledger_book D st') \<and> coins (ledger_book D st') = coins (ledger_book D st) + avg * int (length vs) \<and>
    nonce_of (ledger_book D st') = nonce_of (ledger_book D st) \<and>
    (\<forall>v. v \<in> set vs \<or> loaded base_env v st \<longrightarrow> loaded base_env v st')"
  using assms
proof (induction vs arbitrary: left st)
  case (Cons v vs)
  let ?get = "GetEntry D (world st) base_env v"
  let ?st1 = "st\<lparr>world := (case fst ?get of None \<Rightarrow> AddEntry (snd ?get) base_env v (CreatAccountFrm v 0) | Some _ \<Rightarrow> snd ?get)\<rparr>"
  have frm: "balance (CreatAccountFrm v 0) = 0" "nonce_of_frm (CreatAccountFrm v 0) = 0"
    by (simp_all add: CreatAccountFrm_def SetProtoTxThreshold_def SetProtoMasterWeight_def with_thresholds_def with_priv_def
        with_info_def new_AccountFrm_def empty_account_def)
  have new: "?st1 = (if fst ?get = None then with_world (\<lambda>w. AddEntry w base_env v (CreatAccountFrm v 0)) (st\<lparr>world := snd ?get\<rparr>)
      else st\<lparr>world := snd ?get\<rparr>)" by (auto simp: with_world_def)
  have loaded1: "loaded base_env v ?st1" "\<And>a. loaded base_env a st \<Longrightarrow> loaded base_env a ?st1"
    unfolding new by (auto simp: loaded_simps)
  have "ledger_book D ?st1 = (if ledger_book D st v = None then (ledger_book D st)(v \<mapsto> (0, 0)) else ledger_book D st)"
    unfolding new using GetEntry_book [of D st base_env v] frm by (simp add: loaded_simps)
  moreover have fin: "finite (dom (ledger_book D st))" using Cons.prems(2) by (simp add: solvent_def)
  ultimately have book1: "solvent (ledger_book D ?st1)" "coins (ledger_book D ?st1) = coins (ledger_book D st)"
    "nonce_of (ledger_book D ?st1) = nonce_of (ledger_book D st)"
    using Cons.prems(2) by (auto simp: solvent_upd coins_upd [OF fin] coins_of_def nonce_of_def)
  have len: "0 \<le> avg * int (length vs)" "avg * int (length (v # vs)) = avg + avg * int (length vs)"
    using Cons.prems(1) by (auto simp: algebra_simps)
  then have bound: "coins (ledger_book D ?st1) + avg < 2 ^ 63" using Cons.prems(3) book1(2) by linarith
  obtain b where b: "SafeIntAdd (balance (read_entry (world ?st1) base_env v)) avg = Some b"
    "solvent (ledger_book D (upd_entry base_env v (set_balance b) ?st1))"
    "coins (ledger_book D (upd_entry base_env v (set_balance b) ?st1)) = coins (ledger_book D ?st1) + avg"
    "nonce_of (ledger_book D (upd_entry base_env v (set_balance b) ?st1)) = nonce_of (ledger_book D ?st1)"
    by (rule reward_one [OF Cons.prems(1) book1(1) bound loaded1(1)])
  let ?st2 = "upd_entry base_env v (set_balance b) ?st1"
  have bound2: "coins (ledger_book D ?st2) + avg * int (length vs) < 2 ^ 63"
    using Cons.prems(3) b(3) book1(2) len by linarith
  obtain st' where st': "reward_validators D avg vs (left - avg) ?st2 = ((True, left - avg - avg * int (length vs)), st')"
    "solvent (ledger_book D st')" "coins (ledger_book D st') = coins (ledger_book D ?st2) + avg * int (length vs)"
    "\<forall>a. a \<in> set vs \<or> loaded base_env a ?st2 \<longrightarrow> loaded base_env a st'"
    "nonce_of (ledger_book D st') = nonce_of (ledger_book D ?st2)"
    using Cons.IH [OF Cons.prems(1) b(2) bound2, of "left - avg"] by blast
  have "reward_validators D avg (v # vs) left st = ((True, left - avg * int (length (v # vs))), st')"
    using st'(1) b(1) len(2) by (simp add: Let_def split_beta)
  moreover have "coins (ledger_book D st') = coins (ledger_book D st) + avg * int (length (v # vs))"
    using st'(3) b(3) book1(2) len(2) by linarith
  moreover have "loaded base_env a st'" if "a \<in> set (v # vs) \<or> loaded base_env a st" for a
    using that st'(4) loaded1 by (auto simp: loaded_simps)
  moreover have "nonce_of (ledger_book D st') = nonce_of (ledger_book D st)" using st'(5) b(4) book1(3) by (simp only:)
  ultimately show ?case using st'(2) by blast
qed simp

lemma AllocateRewardDirectly_coins:
  assumes vs: "prev_validators C = Some vs" "vs \<noteq> []" and seq: "0 \<le> value_seq st" and T: "0 < T"
    and B: "solvent (ledger_book D st)" "coins (ledger_book D st) + T < 2 ^ 63"
  shows "\<exists>st'. AllocateRewardDirectly C D T st = (True, st') \<and> solvent (ledger_book D st') \<and>
    coins (ledger_book D st') = coins (ledger_book D st) + T \<and> nonce_of (ledger_book D st') = nonce_of (ledger_book D st)"
proof -
  let ?n = "int (length vs)" and ?avg = "T div int (length vs)"
  let ?r = "vs ! nat (value_seq st smod ?n)"
  have n: "0 < ?n" using vs(2) by simp
  have avg: "T sdiv ?n = ?avg" using T n by (simp add: signed_divide_int_def)
  have "value_seq st smod ?n = value_seq st mod ?n"
    using seq n by (cases "value_seq st = 0") (simp_all add: signed_modulo_int_def)
  then have r: "?r \<in> set vs" using n by (intro nth_mem) (simp add: nat_less_iff)
  have rest: "?avg * ?n = T - T mod ?n" "0 \<le> T mod ?n" "0 \<le> ?avg"
    using T n by (simp_all add: minus_mod_eq_div_mult pos_imp_zdiv_nonneg_iff)
  then have "coins (ledger_book D st) + ?avg * ?n < 2 ^ 63" using B(2) by linarith
  then obtain st1 where st1: "reward_validators D ?avg vs T st = ((True, T mod ?n), st1)" "solvent (ledger_book D st1)"
    "coins (ledger_book D st1) = coins (ledger_book D st) + (T - T mod ?n)" "loaded base_env ?r st1"
    "nonce_of (ledger_book D st1) = nonce_of (ledger_book D st)"
    using reward_validators_coins [OF rest(3) B(1), of vs T] r rest(1) by auto
  show ?thesis
  proof (cases "0 < T mod ?n")
    case False
    then show ?thesis using st1 vs avg rest by (simp add: AllocateRewardDirectly_def Let_def)
  next
    case True
    have "coins (ledger_book D st1) + T mod ?n < 2 ^ 63" using st1(3) B(2) by linarith
    then obtain b where "SafeIntAdd (balance (read_entry (world st1) base_env ?r)) (T mod ?n) = Some b"
      "solvent (ledger_book D (upd_entry base_env ?r (set_balance b) st1))"
      "coins (ledger_book D (upd_entry base_env ?r (set_balance b) st1)) = coins (ledger_book D st1) + T mod ?n"
      "nonce_of (ledger_book D (upd_entry base_env ?r (set_balance b) st1)) = nonce_of (ledger_book D st1)"
      using reward_one [OF rest(2) st1(2) _ st1(4)] by blast
    then show ?thesis using st1 vs avg True by (simp add: AllocateRewardDirectly_def Let_def)
  qed
qed

lemma AllocateReward_coins:
  assumes vs: "prev_validators C = Some vs" "vs \<noteq> []" and seq: "0 \<le> value_seq st"
    and B: "balanced D S st" and S: "S + GetBlockReward (value_seq st) < 2 ^ 63"
  shows "\<exists>st'. AllocateReward C D False st = (True, st') \<and> solvent (ledger_book D st') \<and>
    coins (ledger_book D st') = S + GetBlockReward (value_seq st) \<and> nonce_of (ledger_book D st') = nonce_of (ledger_book D st)"
proof -
  let ?T = "total_fee st + GetBlockReward (value_seq st)" and ?a = "GET_CONTRACT_VALIDATOR_ADDRESS C"
  let ?st0 = "st\<lparr>world := snd (GetEntry D (world st) base_env ?a)\<rparr>"
  have b: "0 \<le> coins (ledger_book D st)"
    using B by (auto simp: balanced_def solvent_def intro: order_trans [OF _ coins_of_le])
  have T: "0 \<le> ?T" "int64 ?T" using B S b GetBlockReward_bounds [of "value_seq st"] by (auto simp: balanced_def int64_def)
  have total: "coins (ledger_book D st) + ?T = S + GetBlockReward (value_seq st)" using B by (simp add: balanced_def)
  show ?thesis
  proof (cases "?T = 0")
    case True
    then show ?thesis using B total T by (simp add: AllocateReward_def Let_def balanced_def)
  next
    case False
    then have pos: "0 < ?T" using T by linarith
    have same: "ledger_book D ?st0 = ledger_book D st" by (simp add: loaded_simps)
    have sol: "solvent (ledger_book D st)" using B by (simp add: balanced_def)
    have bound: "coins (ledger_book D st) + ?T < 2 ^ 63" using total S by simp
    let ?direct = "\<lambda>s. AllocateRewardDirectly C D ?T s"
    let ?good = "\<lambda>s. solvent (ledger_book D s) \<and> coins (ledger_book D s) = coins (ledger_book D st) + ?T \<and>
      nonce_of (ledger_book D s) = nonce_of (ledger_book D st)"
    have direct: "\<exists>st'. ?direct st = (True, st') \<and> ?good st'" "\<exists>st'. ?direct ?st0 = (True, st') \<and> ?good st'"
      using AllocateRewardDirectly_coins [OF vs seq pos sol bound]
        AllocateRewardDirectly_coins [OF vs _ pos, of ?st0 D] seq sol bound same by simp_all
    have dpos: "\<exists>b. SafeIntAdd (balance frm) ?T = Some b \<and> ?good (upd_entry base_env ?a (set_balance b) ?st0)"
      if "fst (GetEntry D (world st) base_env ?a) = Some frm" for frm
    proof -
      have "loaded base_env ?a ?st0" using that by (simp add: loaded_simps)
      moreover have "read_entry (world ?st0) base_env ?a = frm"
        using that GetEntry_read [of D "world st" base_env ?a frm] by (simp add: prod_eq_iff)
      ultimately show ?thesis using reward_one [of ?T D ?st0 ?a] T sol bound same by auto
    qed
    have commit: "ledger_book D (with_world (\<lambda>w. Commit_env w base_env) s) = ledger_book D s" for s
      by (intro book_view) (simp add: Commit_view)
    have "\<exists>st1. (if CHECK_VERSION_GT_1002 C
        then case fst (GetEntry D (world st) base_env ?a) of None \<Rightarrow> ?direct ?st0
          | Some frm \<Rightarrow> (case SafeIntAdd (balance frm) ?T of None \<Rightarrow> (False, ?st0)
              | Some n \<Rightarrow> (True, upd_entry base_env ?a (set_balance n) ?st0))
        else ?direct st) = (True, st1) \<and> ?good st1"
      using direct dpos by (cases "fst (GetEntry D (world st) base_env ?a)") auto
    then show ?thesis
      using False T(2) total by (auto simp: AllocateReward_def Let_def split_beta commit)
  qed
qed

end
