(* ===== verification/Ledger_Thms.thy ===== *)
theory Ledger_Thms
  imports Ledger_Reward
begin

text \<open>
  The theorems on the application of a consensus value: coins, nonces, atomicity, and that a
  node that follows an agreed value gets the ledger of a node that checked it.
\<close>

section \<open>A run without contracts does not depend on the executor\<close>

lemma run_contract_any:
  "run_contract C no_contracts t sender js input this asset amount st = Some x \<Longrightarrow>
   run_contract C exec t sender js input this asset amount st = Some x"
  by (auto simp: run_contract_def no_contracts_def split: if_split_asm)

lemma PayCoin_any: "PayCoin C D no_contracts t e s pc st = Some x \<Longrightarrow> PayCoin C D exec t e s pc st = Some x"
  by (auto simp: PayCoin_def Let_def split_beta split: option.split_asm if_split_asm dest: run_contract_any)

lemma PayAsset_any: "PayAsset C D no_contracts t e s pa st = Some x \<Longrightarrow> PayAsset C D exec t e s pa st = Some x"
  by (auto simp: PayAsset_def Let_def split_beta split: option.split_asm if_split_asm dest: run_contract_any)

lemma CreateAccount_any:
  "CreateAccount C D no_contracts t i e s ca st = Some x \<Longrightarrow> CreateAccount C D exec t i e s ca st = Some x"
  by (auto simp: CreateAccount_def Let_def split_beta no_contracts_def split: option.split_asm if_split_asm)

lemma Apply_op_any: "Apply_op C D no_contracts t i e oper st = Some x \<Longrightarrow> Apply_op C D exec t i e oper st = Some x"
proof -
  assume run: "Apply_op C D no_contracts t i e oper st = Some x"
  consider (coin) "op_type oper = Type_PAY_COIN" | (create) "op_type oper = Type_CREATE_ACCOUNT"
    | (asset) "op_type oper = Type_PAY_ASSET"
    | (other) "op_type oper \<noteq> Type_PAY_COIN" "op_type oper \<noteq> Type_CREATE_ACCOUNT" "op_type oper \<noteq> Type_PAY_ASSET" by blast
  then show ?thesis
  proof cases
    case other
    then have "Apply_op C D exec t i e oper st = Apply_op C D no_contracts t i e oper st"
      by (simp add: Apply_op_def Let_def split_beta cong: if_cong split del: if_split)
    then show ?thesis using run by simp
  qed (use run in \<open>auto simp: Apply_op_def Let_def split_beta op_types split: if_split_asm
        intro: PayCoin_any PayAsset_any CreateAccount_any\<close>)
qed

lemma apply_operations_any:
  "apply_operations C D no_contracts t e trusted i opers st = Some x \<Longrightarrow>
   apply_operations C D exec t e trusted i opers st = Some x"
proof (induction opers arbitrary: i st)
  case (Cons oper opers)
  let ?st1 = "upd_tx t (\<lambda>x. x\<lparr>tf_processing := i\<rparr>) st"
  let ?check = "if trusted then (ERRCODE_SUCCESS, ?st1) else CheckSignature D t e oper ?st1"
  show ?case
  proof (cases "fst ?check = ERRCODE_SUCCESS")
    case True
    then obtain r st3 where op: "Apply_op C D no_contracts t i e oper (snd ?check) = Some (r, st3)"
      using Cons.prems by (auto simp: split_beta Let_def split: option.split_asm)
    show ?thesis using Cons True op Apply_op_any [OF op] by (simp add: Let_def split_beta split: if_split_asm)
  qed (use Cons.prems in \<open>simp add: split_beta Let_def\<close>)
qed simp

lemma Apply_tx_any: "Apply_tx C D no_contracts t e trusted st = Some x \<Longrightarrow> Apply_tx C D exec t e trusted st = Some x"
  by (auto simp: Apply_tx_def Let_def split: option.split_asm if_split_asm dest!: apply_operations_any [where exec = exec])

lemma execute_tx_any:
  "execute_tx C D no_contracts test_mode tm t st = Some x \<Longrightarrow> execute_tx C D exec test_mode tm t st = Some x"
  by (auto simp: execute_tx_def Let_def split: option.split_asm dest!: Apply_tx_any [where exec = exec])

lemma follow_tx_any: "follow_tx C D no_contracts ex t st = Some x \<Longrightarrow> follow_tx C D exec ex t st = Some x"
  by (auto simp: follow_tx_def Let_def split: option.split_asm if_split_asm dest!: Apply_tx_any [where exec = exec])

lemma check_loop_any:
  "check_loop C D no_contracts test_mode clock start i envs acc st = Some x \<Longrightarrow>
   check_loop C D exec test_mode clock start i envs acc st = Some x"
  by (induction envs arbitrary: i acc st) (auto simp: Let_def split_beta split: option.split_asm if_split_asm dest!: execute_tx_any [where exec = exec])

lemma follow_loop_any:
  "follow_loop C D no_contracts ec i envs acc st = Some x \<Longrightarrow> follow_loop C D exec ec i envs acc st = Some x"
  by (induction envs arbitrary: i acc st) (auto simp: Let_def split_beta split: option.split_asm if_split_asm dest!: follow_tx_any [where exec = exec])

lemma ApplyCheck_any:
  "ApplyCheck C D no_contracts test_mode clock start v = Some x \<Longrightarrow> ApplyCheck C D exec test_mode clock start v = Some x"
  by (auto simp: ApplyCheck_def Let_def split: option.split_asm dest!: check_loop_any [where exec = exec])

lemma ApplyFollow_any: "ApplyFollow C D no_contracts v = Some x \<Longrightarrow> ApplyFollow C D exec v = Some x"
  by (auto simp: ApplyFollow_def Let_def split: option.split_asm dest!: follow_loop_any [where exec = exec])

section \<open>The beginning and the end of a run\<close>

definition db_book :: "ledger_db \<Rightarrow> book" where
  "db_book D a = map_option (\<lambda>acc. (acc_balance acc, acc_nonce acc)) (db_account D a)"

lemma new_ledger_view: "ledger_view D (new_ledger_st v) = AccountFromDB D"
  by (simp add: env_view_def new_ledger_st_def fun_eq_iff)

lemma new_ledger_book: "ledger_book D (new_ledger_st v) = db_book D"
  by (rule ext) (simp add: book_def new_ledger_view AccountFromDB_def db_book_def new_AccountFrm_def option.map_comp comp_def)

lemma new_ledger_ok:
  "envs_ok (new_ledger_st v)" "tx_stack (new_ledger_st v) = []" "total_fee (new_ledger_st v) = 0"
  "value_seq (new_ledger_st v) = ledger_seq v"
  by (simp_all add: envs_ok_def new_ledger_st_def empty_tx_frm_def)

lemma new_ledger_balanced: "solvent (db_book D) \<Longrightarrow> balanced D (coins (db_book D)) (new_ledger_st v)"
  by (simp add: balanced_def new_ledger_book new_ledger_ok)

lemma seq_kept [simp]:
  "value_seq (upd_tx t f st) = value_seq st" "value_seq (upd_entry e k g st) = value_seq st" "value_seq (with_world h st) = value_seq st"
  "value_seq (push_tx t st) = value_seq st" "value_seq (pop_tx st) = value_seq st" "value_seq (snd (alloc_tx C env st)) = value_seq st"
  by (simp_all add: upd_tx_def upd_entry_def with_world_def push_tx_def pop_tx_def alloc_tx_def)

lemma round_seq:
  "ValidForApply C D t e cp st = Some (c, st') \<Longrightarrow> value_seq st' = value_seq st"
  "value_seq (snd (PayFee D t e st)) = value_seq st"
  "ReturnFee D t e st = Some st' \<Longrightarrow> value_seq st' = value_seq st"
  "value_seq (NonceIncrease D t e st) = value_seq st"
  by (auto simp: ValidForApply_def PayFee_def ReturnFee_def NonceIncrease_def Let_def split_beta split: option.splits if_splits)


lemma Apply_tx_seq:
  assumes "Apply_tx C D no_contracts t base_env trusted st = Some (ok, st')" and "envs_ok st"
  shows "value_seq st' = value_seq st"
  using silent.Apply_tx_frame [OF assms(1)] assms(2) by (simp add: framed_def)

lemma execute_tx_seq:
  assumes "execute_tx C D no_contracts test_mode tm t st = Some (out, st')" and "envs_ok st" and "tx_stack st = []"
  shows "value_seq st' = value_seq st"
proof -
  have start: "value_seq (timed_start D tm t st) = value_seq st" "envs_ok (timed_start D tm t st)"
    using assms(2) timed_start_simps(2) [OF assms(3)] by (simp_all add: timed_start_def start_tx_def round_seq)
  have expire: "value_seq (snd (IsExpire n t s)) = value_seq s" for n s by (simp add: IsExpire_def Let_def)
  show ?thesis
    using assms(1)
    by (cases rule: execute_tx_cases)
       (use start expire round_seq(3) in \<open>auto simp: finish_tx_def dest: Apply_tx_seq\<close>)
qed

lemma check_loop_seq:
  assumes "check_loop C D no_contracts test_mode clock start i envs acc st = Some ((True, acc'), st')"
    and "balanced D S st" and "envs_ok st" and "tx_stack st = []" and "S < 2 ^ 63" and "sized C" and "list_all env_int64 envs"
  shows "value_seq st' = value_seq st"
  using assms
proof (induction envs arbitrary: i acc st)
  case (Cons env envs)
  obtain st2 st3 out st4 where step:
    "ValidForApply C D (next_tx st) base_env (\<not> test_mode) (snd (alloc_tx C env st)) = Some (ERRCODE_SUCCESS, st2)"
    "PayFee D (next_tx st) base_env st2 = (True, st3)"
    "execute_tx C D no_contracts test_mode (clock i) (next_tx st) st3 = Some (out, st4)"
    "check_loop C D no_contracts test_mode clock start (Suc i) envs (note_outcome (int i) (next_tx st) out acc) st4 = Some ((True, acc'), st')"
    by (rule check_loop_step [OF Cons.prems(1)])
  have "value_seq st3 = value_seq st" using round_seq(1) [OF step(1)] round_seq(2) [of D "next_tx st" base_env st2] step(2) by simp
  moreover have "envs_ok st3" "tx_stack st3 = []"
    using paid_ok [OF step(1) refl step(2)] Cons.prems(3,4) by simp_all
  ultimately have "value_seq st4 = value_seq st" using execute_tx_seq [OF step(3)] by simp
  then show ?case
    using Cons.IH [OF step(4)] round_book [OF step(1) refl step(2,3) Cons.prems(2-6)] Cons.prems by simp
qed simp

lemma ApplyCheck_true:
  assumes "ApplyCheck C D exec test_mode clock start v = Some (True, st)"
  obtains acc st1 where "check_loop C D exec test_mode clock start 0 (txs v) new_acc (new_ledger_st v) = Some ((True, acc), st1)"
    and "CheckConsValueValidation v = Some (ra_expire acc, ra_error acc)" and "st = snd (AllocateReward C D test_mode st1)"
  using assms by (auto simp: ApplyCheck_def Let_def split: option.splits if_splits intro: that)

section \<open>A small ledger\<close>

text \<open>Two accounts with coins, a validator and a contract; addresses are single bytes and every signature is valid.\<close>

definition demo_cfg :: ledger_cfg where
  "demo_cfg = \<lparr>version = 1002, lcl_seq = 1, fee_config = \<lparr>gas_price_cfg = 1, base_reserve = 10\<rparr>, forbid_addrs = [],
     self_chain_id = 0, prev_validators = Some [[3]], cur_validators = [], ledger_hash = (\<lambda>_. None), IsAddressValid = (\<lambda>a. a \<noteq> []), PubKeyValid = (\<lambda>_. True),
     EncAddress = id, RawAddress = id, Verify = (\<lambda>_ _ _. True), ser_tx = (\<lambda>_. []), tx_hash = id, ByteSize = (\<lambda>_. 5),
     lint = (\<lambda>_. ERRCODE_SUCCESS)\<rparr>"

definition demo_account :: "cstring \<Rightarrow> int \<Rightarrow> cstring \<Rightarrow> Account" where
  "demo_account a b js = empty_account\<lparr>acc_address := a, acc_balance := b,
     acc_priv := \<lparr>master_weight = 1, signers = [], thresholds = Some \<lparr>tx_threshold = 1, type_thresholds = []\<rparr>\<rparr>,
     acc_contract := Some \<lparr>ct_type = 0, payload = js\<rparr>\<rparr>"

definition demo_db :: ledger_db where
  "demo_db = \<lparr>db_account = [[1] \<mapsto> demo_account [1] 1000 [], [2] \<mapsto> demo_account [2] 1000 [], [3] \<mapsto> demo_account [3] 0 [],
       [4] \<mapsto> demo_account [4] 50 [9]],
     db_asset = (\<lambda>_ _. None), db_metadata = (\<lambda>_ _. None)\<rparr>"

definition demo_tx :: "cstring \<Rightarrow> int \<Rightarrow> Operation \<Rightarrow> TransactionEnv" where
  "demo_tx source n oper = \<lparr>transaction = \<lparr>tx_source_address = source, tx_nonce = n, fee_limit = 20, gas_price = 1,
     ceil_ledger_seq = 0, tx_metadata = [], operations = [oper], chain_id = 0\<rparr>,
     signatures = [\<lparr>sig_public_key = source, sign_data = []\<rparr>]\<rparr>"

text \<open>A value with one payment.\<close>

definition demo_value :: ConsensusValue where
  "demo_value = \<lparr>txs = [demo_tx [1] 1 (op_pay_coin [2] 100 [])], close_time = 7, ledger_seq = 2, validation = None\<rparr>"

definition demo_clock :: "nat \<Rightarrow> tx_times" where
  "demo_clock i = \<lparr>at_start = 0, at_check = 0, at_end = 0\<rparr>"

text \<open>The definitions that evaluate a run.\<close>

lemmas demo_eval = demo_cfg_def demo_db_def demo_account_def demo_tx_def demo_value_def demo_clock_def
  op_pay_coin_def empty_operation_def op_types new_Result_def fail_def empty_account_def empty_contract_def contract_of_def empty_priv_def
  empty_transaction_def

lemmas check_eval = CheckValid_op_def check_pay_coin_def ReservedAddrAvailable_def isReservedAddress_code ValidForParameter_def
  CHECK_VERSION_GT_1000_def CHECK_VERSION_GT_1002_def TRANSACTION_LIMIT_SIZE_def MAX_OPERATIONS_NUM_PER_TRANSACTION_def METADATA_MAX_VALUE_SIZE_def

lemmas env_eval = GetEntry_def put_entry_def AccountFromDB_def base_env_def new_AccountFrm_def Commit_env_def ClearChangeBuf_env_def
  map_add_def upd_entry_def with_world_def read_entry_def set_balance_def with_info_def thresholds_of_def GetTypeThreshold_def
  SafeIntAdd_def SafeIntSub_def SafeIntMul_def wrap64_def mul_trap_def signed_divide_int_def signed_modulo_int_def

lemmas tx_eval = alloc_tx_def new_TransactionFrm_def valid_signatures_def ValidForApply_def GetSourceAddress_def GetNonce_def
  GetAccountNonce_def SignerHashPriv_def CheckFee_def GetSelfGas_def GetOperationTypeGas_def PayFee_def
  Apply_op_def op_source_def PayCoin_def move_coins_def run_contract_def no_contracts_def
  execute_tx_def start_tx_def NonceIncrease_def NonceIncrease_frm_def push_tx_def upd_tx_def set_code_def Apply_tx_def AddActualFee_def GetBottomTx_def
  CheckSignature_def finish_tx_def pop_tx_def refund_and_commit_def ReturnFee_def IsExpire_def TX_EXECUTE_TIME_OUT_def
  CONTRACT_STEP_LIMIT_def CONTRACT_STACK_LIMIT_def CONTRACT_MEMORY_LIMIT_def

text \<open>The states of the run: the transaction is made, is checked, has paid.\<close>

definition demo_made :: ledger_st where
  "demo_made = snd (alloc_tx demo_cfg (demo_tx [1] 1 (op_pay_coin [2] 100 [])) (new_ledger_st demo_value))"

definition demo_checked :: ledger_st where
  "demo_checked = demo_made\<lparr>world := snd (GetEntry demo_db (world demo_made) base_env [1])\<rparr>"

definition demo_paid :: ledger_st where
  "demo_paid = snd (PayFee demo_db 0 base_env demo_checked)"

lemma demo_valid: "ValidForApply demo_cfg demo_db 0 base_env True demo_made = Some (ERRCODE_SUCCESS, demo_checked)"
  by (simp add: demo_checked_def demo_made_def demo_eval check_eval env_eval tx_eval new_ledger_st_def Let_def)

lemma demo_pay: "PayFee demo_db 0 base_env demo_checked = (True, demo_paid)"
proof -
  have "fst (PayFee demo_db 0 base_env demo_checked)"
    by (simp add: demo_checked_def demo_made_def demo_eval env_eval tx_eval new_ledger_st_def Let_def)
  then show ?thesis by (simp add: demo_paid_def prod_eq_iff)
qed

lemma demo_execute: "\<exists>st. execute_tx demo_cfg demo_db no_contracts False (demo_clock 0) 0 demo_paid = Some (TxOk, st)"
  by (simp add: demo_paid_def demo_checked_def demo_made_def demo_eval check_eval env_eval tx_eval new_ledger_st_def Let_def)

lemma demo_run: "\<exists>st. ApplyCheck demo_cfg demo_db no_contracts False demo_clock 0 demo_value = Some (True, st)"
proof -
  obtain st where st: "execute_tx demo_cfg demo_db no_contracts False (demo_clock 0) 0 demo_paid = Some (TxOk, st)"
    using demo_execute by blast
  have v: "txs demo_value = [demo_tx [1] 1 (op_pay_coin [2] 100 [])]" "validation demo_value = None" by (simp_all add: demo_value_def)
  have "alloc_tx demo_cfg (demo_tx [1] 1 (op_pay_coin [2] 100 [])) (new_ledger_st demo_value) = (0, demo_made)"
    by (simp add: demo_made_def alloc_tx_def new_ledger_st_def)
  then show ?thesis
    by (simp add: ApplyCheck_def v CheckConsValueValidation_def demo_valid demo_pay st Let_def new_acc_def note_outcome_def)
       (simp add: demo_clock_def BLOCK_EXECUTE_TIME_OUT_def)
qed

lemma demo_typed: "sized demo_cfg" "list_all env_int64 (txs demo_value)"
  by (simp_all add: sized_def fees_ok_def int64_def demo_cfg_def demo_value_def demo_tx_def env_int64_def op_int64_def
        op_pay_coin_def empty_operation_def)

lemma demo_validators: "prev_validators demo_cfg = Some [[3]]" "[[3]] \<noteq> []" "0 \<le> ledger_seq demo_value"
  by (simp_all add: demo_cfg_def demo_value_def)

lemma demo_book: "db_book demo_db = [[1] \<mapsto> (1000, 0), [2] \<mapsto> (1000, 0), [3] \<mapsto> (0, 0), [4] \<mapsto> (50, 0)]"
  by (auto simp: db_book_def demo_db_def demo_account_def empty_account_def)

lemma demo_supply: "solvent (db_book demo_db)" "coins (db_book demo_db) = 2050" "GetBlockReward (ledger_seq demo_value) = 800000000"
proof -
  show "solvent (db_book demo_db)" unfolding demo_book by (intro solvent_upd) (simp_all add: solvent_def coins_of_def)
  show "coins (db_book demo_db) = 2050" unfolding demo_book by (simp add: coins_upd coins_of_def) (simp add: coins_def)
  show "GetBlockReward (ledger_seq demo_value) = 800000000"
    by (simp add: GetBlockReward_def demo_value_def REWARD_PERIOD_def REWARD_INIT_VALUE_def signed_divide_int_def)
qed

section \<open>Coins and nonces\<close>

text \<open>What a checking run without contracts leaves after the transactions, and after the rewards.\<close>

lemma ApplyCheck_books:
  assumes "ApplyCheck C D no_contracts False clock start v \<noteq> None"
    and "ApplyCheck C D exec False clock start v = Some (True, st)"
    and "sized C" and "list_all env_int64 (txs v)" and "solvent (db_book D)"
    and "coins (db_book D) + GetBlockReward (ledger_seq v) < 2 ^ 63"
    and "prev_validators C = Some vs" and "vs \<noteq> []" and "0 \<le> ledger_seq v"
  obtains acc st1 where
    "check_loop C D no_contracts False clock start 0 (txs v) new_acc (new_ledger_st v) = Some ((True, acc), st1)"
    and "coins (db_book D) < 2 ^ 63"
    and "solvent (ledger_book D st)" and "coins (ledger_book D st) = coins (db_book D) + GetBlockReward (ledger_seq v)"
    and "nonce_of (ledger_book D st) = nonce_of (ledger_book D st1)"
proof -
  let ?S = "coins (db_book D)"
  have "ApplyCheck C D no_contracts False clock start v = Some (True, st)"
    using assms(1,2) ApplyCheck_any [of C D False clock start v] by (metis option.inject not_None_eq)
  then obtain acc st1 where run: "check_loop C D no_contracts False clock start 0 (txs v) new_acc (new_ledger_st v) = Some ((True, acc), st1)"
    and st: "st = snd (AllocateReward C D False st1)" by (rule ApplyCheck_true)
  have S: "?S < 2 ^ 63" using assms(6) GetBlockReward_bounds [of "ledger_seq v"] by linarith
  note inv = new_ledger_balanced [OF assms(5)] new_ledger_ok(1,2) S assms(3,4)
  have "balanced D ?S st1" "value_seq st1 = ledger_seq v"
    using check_loop_balanced [OF run inv] check_loop_seq [OF run inv] new_ledger_ok(4) by simp_all
  then show thesis using that [OF run S] AllocateReward_coins [OF assms(7,8), of st1 D ?S] assms(6,9) st by auto
qed

text \<open>
  Claim C2. Coins are conserved. When a node accepts a proposed value whose transactions call no
  contract, the coins of all accounts in the new ledger are those of the old ledger and the block
  reward, and no account has a negative balance. The fees are not lost and not created: they go
  to the validators with the reward. The hypotheses say that the messages hold 64-bit integers, that
  the supply fits 64 bits, and that there are validators to be rewarded.
\<close>

theorem coins_conserved:
  assumes "ApplyCheck C D no_contracts False clock start v \<noteq> None"
    and "ApplyCheck C D exec False clock start v = Some (True, st)"
    and "sized C" and "list_all env_int64 (txs v)" and "solvent (db_book D)"
    and "coins (db_book D) + GetBlockReward (ledger_seq v) < 2 ^ 63"
    and "prev_validators C = Some vs" and "vs \<noteq> []" and "0 \<le> ledger_seq v"
  shows "solvent (ledger_book D st) \<and> coins (ledger_book D st) = coins (db_book D) + GetBlockReward (ledger_seq v)"
  using ApplyCheck_books [OF assms] by blast

theorem coins_conserved_witness:
  "\<exists>st. ApplyCheck demo_cfg demo_db no_contracts False demo_clock 0 demo_value = Some (True, st) \<and>
     coins (ledger_book demo_db st) = 800002050"
proof -
  obtain st where run: "ApplyCheck demo_cfg demo_db no_contracts False demo_clock 0 demo_value = Some (True, st)"
    using demo_run by blast
  then show ?thesis using coins_conserved [OF _ run demo_typed demo_supply(1) _ demo_validators] demo_supply by simp
qed

text \<open>
  Claim C4. Nonces are consecutive. In a value that a node accepts, and whose transactions call no
  contract, the nonces of the transactions of an account, in their order, are the numbers that
  follow the nonce of the account, and the last of them is its nonce in the new ledger. So no
  transaction of an account is applied twice, left out or moved before another.
\<close>

theorem nonces_consecutive:
  assumes "ApplyCheck C D no_contracts False clock start v \<noteq> None"
    and "ApplyCheck C D exec False clock start v = Some (True, st)"
    and "sized C" and "list_all env_int64 (txs v)" and "solvent (db_book D)"
    and "coins (db_book D) + GetBlockReward (ledger_seq v) < 2 ^ 63"
    and "prev_validators C = Some vs" and "vs \<noteq> []" and "0 \<le> ledger_seq v"
    and "\<And>b. 0 \<le> nonce_of (db_book D) b \<and> nonce_of (db_book D) b + int (length (txs v)) < 2 ^ 63"
  shows "nonces_of a (txs v) = [nonce_of (db_book D) a + 1 .. nonce_of (ledger_book D st) a] \<and>
    nonce_of (ledger_book D st) a = nonce_of (db_book D) a + int (length (txs_of a (txs v)))"
proof -
  obtain acc st1 where run: "check_loop C D no_contracts False clock start 0 (txs v) new_acc (new_ledger_st v) = Some ((True, acc), st1)"
    and S: "coins (db_book D) < 2 ^ 63" and same: "nonce_of (ledger_book D st) = nonce_of (ledger_book D st1)"
    using ApplyCheck_books [OF assms(1-9)] by blast
  show ?thesis
    using check_loop_nonces [OF run new_ledger_balanced [OF assms(5)] new_ledger_ok(1,2) S assms(3,4), of a] assms(10) same
    by (simp add: new_ledger_book)
qed

theorem nonces_consecutive_witness:
  "\<exists>st. ApplyCheck demo_cfg demo_db no_contracts False demo_clock 0 demo_value = Some (True, st) \<and>
     nonces_of [1] (txs demo_value) = [1..nonce_of (ledger_book demo_db st) [1]] \<and> nonce_of (ledger_book demo_db st) [1] = 1"
proof -
  obtain st where run: "ApplyCheck demo_cfg demo_db no_contracts False demo_clock 0 demo_value = Some (True, st)"
    using demo_run by blast
  have n: "nonce_of (db_book demo_db) b = 0" for b by (simp add: demo_book nonce_of_def)
  have "length (txs_of [1] (txs demo_value)) = 1" "length (txs demo_value) = 1"
    by (simp_all add: txs_of_def demo_value_def demo_tx_def)
  then show ?thesis
    using nonces_consecutive [OF _ run demo_typed demo_supply(1) _ demo_validators, of "[1]"] run demo_supply n by simp
qed

section \<open>Atomicity\<close>

text \<open>
  Claim C3. A transaction is atomic, whatever contracts it runs. When a transaction has paid its
  fee limit and then fails or is out of time, in a checking or in a following run, the ledger shows
  of it only that its source has paid the fee limit and that the source's nonce went up by one. No
  other account has changed, also not by nested transactions of contracts that had succeeded before.
\<close>

theorem failed_tx_atomic:
  assumes "PayFee D t base_env st = (True, st1)" and "envs_ok st"
    and "execute_tx C D (Execute fuel C D vm) test_mode tm t st1 = Some (out, st2) \<or>
         follow_tx C D (Execute fuel C D vm) expired t st1 = Some (out, st2)"
    and "out \<noteq> TxOk"
    and "ledger_view D st (GetSourceAddress (tx_frms st t)) = Some frm"
    and "int64 (balance frm)" and "int64 (fee_limit (transaction (tf_env (tx_frms st t))))" and "int64 (total_fee st)"
  shows "ledger_view D st2 = (ledger_view D st)(GetSourceAddress (tx_frms st t) \<mapsto>
      NonceIncrease_frm (set_balance (balance frm - fee_limit (transaction (tf_env (tx_frms st t)))) frm)) \<and>
    total_fee st2 = total_fee st + fee_limit (transaction (tf_env (tx_frms st t)))"
proof -
  let ?s = "GetSourceAddress (tx_frms st t)"
  obtain b where b: "SafeIntSub (balance frm) (fee_limit (transaction (tf_env (tx_frms st t)))) = Some b"
    and total: "SafeIntAdd (total_fee st) (fee_limit (transaction (tf_env (tx_frms st t)))) = Some (total_fee st1)"
    and view: "ledger_view D st1 = (ledger_view D st)(?s \<mapsto> set_balance b frm)" and same: "tx_frms st1 = tx_frms st"
    using PayFee_view [OF assms(1)] assms(5) by (metis option.inject)
  have "envs_ok st1"
    using assms(1,2) by (auto simp: PayFee_def Let_def split_beta frame_simps envs_ok_def split: option.splits if_splits)
       (auto simp: upd_entry_def with_world_def)
  then have "ledger_view D st2 = ledger_base D (start_tx D t st1) \<and> total_fee st2 = total_fee st1"
    using assms(3) contracts.execute_tx_failed [OF _ assms(4)] contracts.follow_tx_failed [OF _ assms(4)] by auto
  moreover have "ledger_base D (start_tx D t st1) = (ledger_view D st1)(?s \<mapsto> NonceIncrease_frm (set_balance b frm))"
    using start_tx_base [of D st1 t "set_balance b frm"] same view by simp
  ultimately show ?thesis
    using b total view SafeIntSub_exact [OF assms(6,7)] SafeIntAdd_exact [OF assms(8,7)] by (auto split: if_splits)
qed

text \<open>A payment to a contract whose script throws an exception.\<close>

definition demo_vm :: vm where
  "demo_vm readonly p answers = VmThrow"

definition demo_call :: ledger_st where
  "demo_call = snd (alloc_tx demo_cfg (demo_tx [1] 1 (op_pay_coin [4] 100 [])) (new_ledger_st demo_value))"

definition demo_called :: ledger_st where
  "demo_called = snd (PayFee demo_db 0 base_env demo_call)"

lemma demo_called_paid: "PayFee demo_db 0 base_env demo_call = (True, demo_called)"
proof -
  have "fst (PayFee demo_db 0 base_env demo_call)"
    by (simp add: demo_call_def demo_eval env_eval tx_eval new_ledger_st_def Let_def)
  then show ?thesis by (simp add: demo_called_def prod_eq_iff)
qed

lemma demo_script:
  "length (tx_stack st) \<le> 4 \<Longrightarrow> Execute 2 C D demo_vm p st = Some (\<lparr>code = ERRCODE_CONTRACT_EXECUTE_FAIL, contract_result = None\<rparr>, st)"
  by (simp add: numeral_2_eq_2 demo_vm_def CONTRACT_MAX_RECURSIVE_DEPTH_def new_Result_def)

lemma demo_call_fails:
  "\<exists>st. execute_tx demo_cfg demo_db (Execute 2 demo_cfg demo_db demo_vm) False (demo_clock 0) 0 demo_called = Some (TxError, st)"
  by (simp add: demo_called_def demo_call_def demo_eval check_eval env_eval tx_eval new_ledger_st_def Let_def
      demo_script)

theorem failed_tx_atomic_witness:
  "\<exists>st. execute_tx demo_cfg demo_db (Execute 2 demo_cfg demo_db demo_vm) False (demo_clock 0) 0 demo_called = Some (TxError, st) \<and>
     ledger_book demo_db st = [[1] \<mapsto> (980, 1), [2] \<mapsto> (1000, 0), [3] \<mapsto> (0, 0), [4] \<mapsto> (50, 0)] \<and> total_fee st = 20"
proof -
  obtain st where run: "execute_tx demo_cfg demo_db (Execute 2 demo_cfg demo_db demo_vm) False (demo_clock 0) 0 demo_called = Some (TxError, st)"
    using demo_call_fails by blast
  have me: "GetSourceAddress (tx_frms demo_call 0) = [1]" "fee_limit (transaction (tf_env (tx_frms demo_call 0))) = 20" "total_fee demo_call = 0"
    "envs_ok demo_call" "ledger_view demo_db demo_call = AccountFromDB demo_db"
    using envs_ok_alloc [OF new_ledger_ok(1)] new_ledger_view
    by (simp_all add: demo_call_def) (simp_all add: alloc_tx_def new_TransactionFrm_def demo_tx_def GetSourceAddress_def new_ledger_st_def)
  have frm: "ledger_view demo_db demo_call [1] = Some (new_AccountFrm (demo_account [1] 1000 []))"
    unfolding me by (simp add: AccountFromDB_def demo_db_def)
  have "ledger_view demo_db st = (AccountFromDB demo_db)([1] \<mapsto>
      NonceIncrease_frm (set_balance 980 (new_AccountFrm (demo_account [1] 1000 [])))) \<and> total_fee st = 20"
    using failed_tx_atomic [OF demo_called_paid me(4) disjI1 [OF run], of _] me frm
    by (simp add: new_AccountFrm_def demo_account_def int64_def)
  moreover have "nonce_of_frm (NonceIncrease_frm (set_balance 980 (new_AccountFrm (demo_account [1] 1000 [])))) = 1"
    by (simp add: NonceIncrease_frm_def with_info_def set_balance_def new_AccountFrm_def demo_account_def empty_account_def wrap64_def)
  ultimately have "ledger_book demo_db st = (db_book demo_db)([1] \<mapsto> (980, 1))" "total_fee st = 20"
    by (auto simp: book_def db_book_def AccountFromDB_def new_AccountFrm_def fun_eq_iff NonceIncrease_frm_def with_info_def
        option.map_comp comp_def set_balance_def)
  then show ?thesis using run by (auto simp: demo_book)
qed

end
