(* ===== verification/Ledger_Sim.thy ===== *)
theory Ledger_Sim
  imports Ledger_Thms
begin

text \<open>
  Two runs of one ledger side by side. Their states differ in the objects of the transactions that
  are done, in the number and the time limits of the current one, and in which accounts a run has
  loaded. \<open>current p t st\<close> keeps of a state what the application of transaction \<open>t\<close> can read, where
  \<open>p\<close> says what is kept of the world; \<open>bare p st\<close> is what is left between two transactions.

  The locale \<open>world_sim\<close> states what \<open>p\<close> must respect: reading an account, writing it, commit and
  roll-back. It is interpreted with the identity, for the run of a node that follows an agreed
  value, and with \<open>filled\<close>, for the run of a node that checks a proposal.
\<close>

definition unflag :: "tx_frm \<Rightarrow> tx_frm" where
  "unflag x = x\<lparr>tf_enable_check := False, tf_max_end_time := 0\<rparr>"

definition current :: "(env_world \<Rightarrow> env_world) \<Rightarrow> nat \<Rightarrow> ledger_st \<Rightarrow> ledger_st" where
  "current p t st = st\<lparr>world := p (world st), tx_frms := \<lambda>_. unflag (tx_frms st t),
     tx_stack := map (\<lambda>_. 0) (tx_stack st), next_tx := 0\<rparr>"

definition bare :: "(env_world \<Rightarrow> env_world) \<Rightarrow> ledger_st \<Rightarrow> ledger_st" where
  "bare p st = st\<lparr>world := p (world st), tx_frms := \<lambda>_. empty_tx_frm, tx_stack := map (\<lambda>_. 0) (tx_stack st), next_tx := 0\<rparr>"

definition rolled :: "(env_world \<Rightarrow> env_world) \<Rightarrow> ledger_st \<Rightarrow> ledger_st" where
  "rolled p st = bare p (with_world (\<lambda>w. ClearChangeBuf_env w base_env) st)"

definition plain_upd :: "(tx_frm \<Rightarrow> tx_frm) \<Rightarrow> bool" where
  "plain_upd f \<longleftrightarrow> (\<forall>x. unflag (f (unflag x)) = unflag (f x))"

named_theorems current_simps \<open>reading and writing the current part of a state\<close>
named_theorems rolled_simps \<open>a roll-back undoes what happened in the buffer\<close>

lemma current_fields [current_simps]:
  "world (current p t st) = p (world st)" "total_fee (current p t st) = total_fee st"
  "tx_stack (current p t st) = map (\<lambda>_. 0) (tx_stack st)"
  "value_seq (current p t st) = value_seq st" "tx_frms (current p t st) u = unflag (tx_frms st t)"
  by (simp_all add: current_def)

lemma unflag_fields [current_simps]:
  "tf_env (unflag x) = tf_env x" "tf_valid_signature (unflag x) = tf_valid_signature x" "tf_result (unflag x) = tf_result x"
  "tf_actual_gas (unflag x) = tf_actual_gas x" "tf_processing (unflag x) = tf_processing x"
  "tf_contract_step (unflag x) = tf_contract_step x" "tf_memory_usage (unflag x) = tf_memory_usage x"
  "tf_stack_usage (unflag x) = tf_stack_usage x"
  "GetSourceAddress (unflag x) = GetSourceAddress x" "GetNonce (unflag x) = GetNonce x" "op_source (unflag x) oper = op_source x oper"
  "GetSelfGas C (unflag x) = GetSelfGas C x" "CheckFee C (unflag x) frm = CheckFee C x frm"
  by (simp_all add: unflag_def GetSourceAddress_def GetNonce_def op_source_def GetSelfGas_def CheckFee_def)

lemma plain_upd_simps [simp]:
  "plain_upd (set_code c)" "plain_upd (\<lambda>x. x\<lparr>tf_processing := i\<rparr>)" "plain_upd (\<lambda>x. x\<lparr>tf_result := r\<rparr>)"
  "plain_upd (\<lambda>x. x\<lparr>tf_result := h (tf_result x)\<rparr>)" "plain_upd (\<lambda>x. x\<lparr>tf_environment := en\<rparr>)"
  "plain_upd (\<lambda>x. x\<lparr>tf_actual_gas := wrap64 (tf_actual_gas x + n)\<rparr>)"
  by (simp_all add: plain_upd_def unflag_def set_code_def)

lemma current_upd_tx [current_simps]:
  "plain_upd f \<Longrightarrow> (\<And>w. p (p w) = p w) \<Longrightarrow> current p u (upd_tx u f (current p t st)) = current p t (upd_tx t f st)"
  by (simp add: current_def upd_tx_def plain_upd_def comp_def)

lemma current_eqD:
  assumes "current p t' st' = current p t st"
  shows "p (world st') = p (world st)" and "total_fee st' = total_fee st" and "length (tx_stack st') = length (tx_stack st)"
    and "value_seq st' = value_seq st" and "unflag (tx_frms st' t') = unflag (tx_frms st t)"
    and "tf_env (tx_frms st' t') = tf_env (tx_frms st t)" and "tf_result (tx_frms st' t') = tf_result (tx_frms st t)"
    and "tf_actual_gas (tx_frms st' t') = tf_actual_gas (tx_frms st t)"
proof -
  have tx: "unflag (tx_frms st' t') = unflag (tx_frms st t)"
    using arg_cong [OF assms, of "\<lambda>s. tx_frms s t"] by (simp add: current_def)
  then show "unflag (tx_frms st' t') = unflag (tx_frms st t)" .
  show "tf_env (tx_frms st' t') = tf_env (tx_frms st t)" "tf_result (tx_frms st' t') = tf_result (tx_frms st t)"
    "tf_actual_gas (tx_frms st' t') = tf_actual_gas (tx_frms st t)"
    using arg_cong [OF tx, of tf_env] arg_cong [OF tx, of tf_result] arg_cong [OF tx, of tf_actual_gas]
    by (simp_all add: current_simps)
  show "p (world st') = p (world st)" "total_fee st' = total_fee st" "value_seq st' = value_seq st"
    using arg_cong [OF assms, of world] arg_cong [OF assms, of total_fee] arg_cong [OF assms, of value_seq]
    by (simp_all add: current_simps)
  show "length (tx_stack st') = length (tx_stack st)"
    using arg_cong [OF assms, of "\<lambda>s. length (tx_stack s)"] by (simp add: current_simps)
qed

lemma bare_fields:
  assumes "bare p st' = bare p st"
  shows "p (world st') = p (world st)" and "total_fee st' = total_fee st" and "length (tx_stack st') = length (tx_stack st)"
    and "value_seq st' = value_seq st"
  using arg_cong [OF assms, of world] arg_cong [OF assms, of total_fee] arg_cong [OF assms, of "\<lambda>s. length (tx_stack s)"]
    arg_cong [OF assms, of value_seq] by (simp_all add: bare_def)

lemma GetEntry_again:
  "GetEntry D (snd (GetEntry D w e k)) e k = GetEntry D w e k"
  by (auto simp: GetEntry_def put_entry_def split: option.split)

lemma PayFee_checked:
  "PayFee D t e (st\<lparr>world := snd (GetEntry D (world st) e (GetSourceAddress (tx_frms st t)))\<rparr>) = PayFee D t e st"
  by (simp add: PayFee_def Let_def split_beta GetEntry_again split: option.split)

lemma PayFee_stack: "PayFee D t e st = (ok, st') \<Longrightarrow> tx_stack st' = tx_stack st"
  by (auto simp: PayFee_def Let_def split_beta upd_entry_def with_world_def upd_tx_def split: option.splits)

lemma execute_tx_stack:
  assumes "execute_tx C D no_contracts test_mode tm t st = Some (out, st')" and "tx_stack st = []"
  shows "tx_stack st' = []"
  using assms(1)
proof (cases rule: execute_tx_cases)
  case (failed done_ok s2)
  then show ?thesis
    using Apply_tx_gas(1) [OF failed(1) timed_start_simps(1) [OF assms(2)]]
    by (simp add: IsExpire_def Let_def upd_tx_def finish_tx_def pop_tx_def with_world_def)
next
  case (ok s2 s3)
  then show ?thesis
    using Apply_tx_gas(1) [OF ok(1) timed_start_simps(1) [OF assms(2)]] ReturnFee_other(1) [OF ok(4)]
    by (simp add: with_world_def finish_tx_def pop_tx_def)
qed

section \<open>What a roll-back leaves\<close>

lemma rolled_changes [rolled_simps]:
  "rolled p (upd_entry base_env k f st) = rolled p st"
  "rolled p (st\<lparr>world := snd (GetEntry D (world st) base_env k)\<rparr>) = rolled p st"
  "rolled p (with_world (\<lambda>w. AddEntry w base_env k g) st) = rolled p st" "rolled p (upd_tx t h st) = rolled p st"
  by (auto simp: rolled_def bare_def upd_entry_def with_world_def AddEntry_def GetEntry_def put_entry_def ClearChangeBuf_env_def upd_tx_def
      split: option.split)

lemma rolled_ops [rolled_simps]:
  "rolled p (snd (IssueAsset D base_env s ia st)) = rolled p st"
  "rolled p (snd (SetMetaData D base_env s sm st)) = rolled p st"
  "rolled p (snd (SetSignerWeight base_env s sw st)) = rolled p st"
  "rolled p (snd (SetThreshold base_env s th st)) = rolled p st"
  "rolled p (snd (SetPrivilege base_env s sp st)) = rolled p st"
  "rolled p (snd (move_coins base_env s d n st)) = rolled p st"
  "rolled p (snd (CheckSignature D t base_env oper st)) = rolled p st"
  by (simp_all add: IssueAsset_def SetMetaData_def SetSignerWeight_def SetThreshold_def SetPrivilege_def move_coins_def
      CheckSignature_def Let_def split_beta rolled_simps split: option.split)

lemma rolled_move_asset [rolled_simps]: "rolled p (snd (move_asset D base_env s d a st)) = rolled p st"
  by (simp add: move_asset_def Let_def split_beta rolled_simps split: option.split)

lemma PayCoin_rolled: "PayCoin C D no_contracts t base_env s pc st = Some (r, st') \<Longrightarrow> rolled p st' = rolled p st"
  by (auto simp: PayCoin_def Let_def split_beta rolled_simps split: if_splits option.splits dest!: run_no_contract)

lemma PayAsset_rolled: "PayAsset C D no_contracts t base_env s pa st = Some (r, st') \<Longrightarrow> rolled p st' = rolled p st"
  by (auto simp: PayAsset_def Let_def split_beta rolled_simps split: if_splits option.splits dest!: run_no_contract)

lemma CreateAccount_rolled: "CreateAccount C D no_contracts t i base_env s ca st = Some (r, st') \<Longrightarrow> rolled p st' = rolled p st"
  by (auto simp: CreateAccount_def Let_def split_beta rolled_simps no_contracts_def split: if_splits option.splits)

lemma Apply_op_rolled: "Apply_op C D no_contracts t i base_env oper st = Some (r, st') \<Longrightarrow> rolled p st' = rolled p st"
  by (auto simp: Apply_op_def Let_def split_beta rolled_simps prod_eq_iff [of _ "(r, st')"] split: if_splits
      dest!: PayCoin_rolled [where p = p] PayAsset_rolled [where p = p] CreateAccount_rolled [where p = p])

lemma apply_operations_rolled:
  "apply_operations C D no_contracts t base_env trusted i opers st = Some (ok, st') \<Longrightarrow> rolled p st' = rolled p st"
proof (induction opers arbitrary: i st)
  case (Cons oper opers)
  let ?st1 = "upd_tx t (\<lambda>x. x\<lparr>tf_processing := i\<rparr>) st"
  let ?check = "if trusted then (ERRCODE_SUCCESS, ?st1) else CheckSignature D t base_env oper ?st1"
  have "rolled p (snd ?check) = rolled p st" by (simp add: rolled_simps)
  then show ?case
    using Cons.prems Apply_op_rolled [where p = p] Cons.IH
    by (fastforce simp: Let_def split_beta rolled_simps split: if_splits option.splits)
qed (auto simp: rolled_simps)

lemma Apply_tx_rolled:
  assumes "Apply_tx C D no_contracts t base_env trusted st = Some (ok, st')"
  shows "rolled p st' = rolled p st"
proof -
  let ?u = "upd_tx t (\<lambda>x. x\<lparr>tf_environment := Some base_env\<rparr>) st"
  obtain c st2 where fee: "AddActualFee C t ?u = Some (c, st2)"
    using assms by (auto simp: Apply_tx_def Let_def split: option.splits)
  then have "rolled p st2 = rolled p st"
    by (auto simp: AddActualFee_def Let_def rolled_simps split: if_splits option.splits)
  then show ?thesis
    using assms fee apply_operations_rolled [where p = p] by (fastforce simp: Apply_tx_def Let_def split: if_splits)
qed

lemma finish_tx_bare: "bare p (finish_tx st) = pop_tx (rolled p st)"
  by (simp add: finish_tx_def bare_def rolled_def pop_tx_def with_world_def map_tl)

section \<open>Steps on the current part\<close>

locale world_sim =
  fixes D :: ledger_db and p :: "env_world \<Rightarrow> env_world"
  assumes get: "GetEntry D (p w) base_env k = apsnd p (GetEntry D w base_env k)"
    and put: "put_entry (p w) base_env k f = p (put_entry w base_env k f)"
    and read: "read_entry (p w) base_env k = read_entry w base_env k"
    and commit: "Commit_env (p w) base_env = p (Commit_env w base_env)"
    and clear: "ClearChangeBuf_env (p w) base_env = p (ClearChangeBuf_env w base_env)"
    and idem: "p (p w) = p w"
begin

lemma current_world:
  "(current p t st)\<lparr>world := p w\<rparr> = current p t (st\<lparr>world := w\<rparr>)"
  "with_world (\<lambda>w. AddEntry w base_env k g) (current p t st) = current p t (with_world (\<lambda>w. AddEntry w base_env k g) st)"
  "with_world (\<lambda>w. Commit_env w base_env) (current p t st) = current p t (with_world (\<lambda>w. Commit_env w base_env) st)"
  "with_world (\<lambda>w. ClearChangeBuf_env w base_env) (current p t st) = current p t (with_world (\<lambda>w. ClearChangeBuf_env w base_env) st)"
  "upd_entry base_env k f (current p t st) = current p t (upd_entry base_env k f st)"
  by (simp_all add: current_def with_world_def upd_entry_def AddEntry_def put read commit clear)

lemmas steps = current_simps current_world get read idem

lemma current_edits:
  "IssueAsset D base_env s ia (current p t st) = apsnd (current p t) (IssueAsset D base_env s ia st)"
  "SetMetaData D base_env s sm (current p t st) = apsnd (current p t) (SetMetaData D base_env s sm st)"
  "SetSignerWeight base_env s sw (current p t st) = apsnd (current p t) (SetSignerWeight base_env s sw st)"
  "SetThreshold base_env s th (current p t st) = apsnd (current p t) (SetThreshold base_env s th st)"
  "SetPrivilege base_env s sp (current p t st) = apsnd (current p t) (SetPrivilege base_env s sp st)"
  "move_coins base_env s d n (current p t st) = apsnd (current p t) (move_coins base_env s d n st)"
  "move_asset D base_env s d a (current p t st) = apsnd (current p t) (move_asset D base_env s d a st)"
  by (simp_all add: IssueAsset_def SetMetaData_def SetSignerWeight_def SetThreshold_def SetPrivilege_def move_coins_def move_asset_def
      Let_def split_beta steps split: option.split)

lemma current_run_contract:
  "run_contract C no_contracts v sender js input this asset amount (current p u st) =
   map_option (apsnd (current p u)) (run_contract C no_contracts t sender js input this asset amount st)"
  by (simp add: run_contract_def no_contracts_def)

lemma current_PayCoin:
  "PayCoin C D no_contracts v base_env s pc (current p u st) =
   map_option (apsnd (current p u)) (PayCoin C D no_contracts u base_env s pc st)"
  by (simp add: PayCoin_def Let_def split_beta steps current_edits current_run_contract [where t = u] split: option.split)

lemma current_PayAsset:
  "PayAsset C D no_contracts v base_env s pa (current p u st) =
   map_option (apsnd (current p u)) (PayAsset C D no_contracts u base_env s pa st)"
  by (simp add: PayAsset_def Let_def split_beta steps current_edits current_run_contract [where t = u] split: option.split)

lemma current_CreateAccount:
  "CreateAccount C D no_contracts v i base_env s ca (current p t st) =
   map_option (apsnd (current p t)) (CreateAccount C D no_contracts t i base_env s ca st)"
  unfolding CreateAccount_def Let_def split_beta no_contracts_def
  by (cases "ca_dest_address ca = []") (auto simp: steps split: option.split)

lemma current_Apply_op:
  "Apply_op C D no_contracts v i base_env oper (current p t st) =
   map_option (apsnd (current p t)) (Apply_op C D no_contracts t i base_env oper st)"
  by (simp add: Apply_op_def Let_def split_beta steps current_edits current_PayCoin current_PayAsset current_CreateAccount)

lemma current_CheckSignature:
  "CheckSignature D v base_env oper (current p t st) = apsnd (current p t) (CheckSignature D t base_env oper st)"
  by (simp add: CheckSignature_def Let_def split_beta steps split: option.split)

lemma current_pair:
  assumes "\<And>u v s. f v (current p u s) = apsnd (current p u) (f u s)" and "current p t' st' = current p t st"
  shows "fst (f t' st') = fst (f t st)" and "current p t' (snd (f t' st')) = current p t (snd (f t st))"
  using assms(1) [of 0 t st] assms(1) [of 0 t' st'] assms(2) by (metis fst_apsnd, metis snd_apsnd)

lemma current_option:
  assumes "\<And>u v s. f v (current p u s) = map_option (apsnd (current p u)) (f u s)" and "current p t' st' = current p t st"
    and "f t st = Some (r, s)"
  obtains s' where "f t' st' = Some (r, s')" and "current p t' s' = current p t s"
proof -
  have "map_option (apsnd (current p t')) (f t' st') = map_option (apsnd (current p t)) (f t st)"
    using assms(1) [of 0 t st] assms(1) [of 0 t' st'] assms(2) by simp
  then show thesis using assms(3) that by auto
qed

lemma current_upd_eq:
  "plain_upd f \<Longrightarrow> current p t' st' = current p t st \<Longrightarrow> current p t' (upd_tx t' f st') = current p t (upd_tx t f st)"
  using current_upd_tx [of f p 0 t st] current_upd_tx [of f p 0 t' st'] idem by simp

lemma apply_operations_alike:
  assumes "apply_operations C D no_contracts t base_env trusted i opers st = Some (ok, s)" and "current p t' st' = current p t st"
  shows "\<exists>s'. apply_operations C D no_contracts t' base_env trusted i opers st' = Some (ok, s') \<and> current p t' s' = current p t s"
  using assms
proof (induction opers arbitrary: i st st')
  case Nil
  then show ?case by (auto intro!: current_upd_eq)
next
  case (Cons oper opers)
  let ?check = "\<lambda>u z. if trusted then (ERRCODE_SUCCESS, z) else CheckSignature D u base_env oper z"
  let ?u = "\<lambda>u. upd_tx u (\<lambda>x. x\<lparr>tf_processing := i\<rparr>)"
  have u: "current p t' (?u t' st') = current p t (?u t st)" using Cons.prems(2) by (rule current_upd_eq [rotated]) simp
  have check: "fst (?check t' (?u t' st')) = fst (?check t (?u t st))"
    "current p t' (snd (?check t' (?u t' st'))) = current p t (snd (?check t (?u t st)))"
    using current_pair [of ?check, OF _ u] by (simp_all add: current_CheckSignature)
  show ?case
  proof (cases "fst (?check t (?u t st)) = ERRCODE_SUCCESS")
    case False
    then show ?thesis using Cons.prems(1) check by (auto simp: split_beta Let_def intro!: current_upd_eq)
  next
    case True
    then obtain r s3 where op: "Apply_op C D no_contracts t i base_env oper (snd (?check t (?u t st))) = Some (r, s3)"
      using Cons.prems(1) by (auto simp: split_beta Let_def split: option.splits)
    obtain s3' where op': "Apply_op C D no_contracts t' i base_env oper (snd (?check t' (?u t' st'))) = Some (r, s3')"
      "current p t' s3' = current p t s3"
      using current_option [where f = "\<lambda>u. Apply_op C D no_contracts u i base_env oper", OF current_Apply_op check(2) op] .
    have upd: "current p t' (upd_tx t' h s3') = current p t (upd_tx t h s3)" if "plain_upd h" for h
      using current_upd_eq [OF that op'(2)] .
    show ?thesis
    proof (cases "code r = ERRCODE_SUCCESS")
      case False
      then show ?thesis using Cons.prems(1) True check op op' upd by (auto simp: split_beta Let_def)
    next
      case success: True
      let ?w = "\<lambda>x. x\<lparr>tf_result := (tf_result x)\<lparr>contract_result := contract_result r\<rparr>\<rparr>"
      have "apply_operations C D no_contracts t base_env trusted (Suc i) opers (upd_tx t ?w s3) = Some (ok, s)"
        using Cons.prems(1) True op success by (simp add: split_beta Let_def)
      then show ?thesis using Cons.IH [OF _ upd [of ?w]] True check op' success by (simp add: split_beta Let_def)
    qed
  qed
qed

lemma AddActualFee_alike:
  assumes "AddActualFee C t st = Some (c, s)" and "current p t' st' = current p t st" and "tx_stack st = [t]" and "tx_stack st' = [t']"
  shows "\<exists>s'. AddActualFee C t' st' = Some (c, s') \<and> current p t' s' = current p t s"
proof -
  let ?g = "\<lambda>u. upd_tx u (\<lambda>x. x\<lparr>tf_actual_gas := wrap64 (tf_actual_gas x + GetSelfGas C (tx_frms st t))\<rparr>)"
  have b: "GetBottomTx st = t" "GetBottomTx st' = t'" and same: "tf_env (tx_frms st' t') = tf_env (tx_frms st t)"
    using assms(3,4) current_eqD [OF assms(2)] by (simp_all add: GetBottomTx_def)
  have self: "GetSelfGas C (tx_frms st' t') = GetSelfGas C (tx_frms st t)" using same by (simp add: GetSelfGas_def)
  have g: "current p t' (?g t' st') = current p t (?g t st)" using assms(2) by (intro current_upd_eq) simp_all
  then have "tf_actual_gas (tx_frms (?g t' st') t') = tf_actual_gas (tx_frms (?g t st) t)"
    "tf_env (tx_frms (?g t' st') t') = tf_env (tx_frms (?g t st) t)" using current_eqD(6,8) [OF g] by simp_all
  then show ?thesis
    using assms(1) g unfolding AddActualFee_def Let_def b self
    by (auto split: if_splits option.splits intro!: current_upd_eq)
qed

lemma Apply_tx_alike:
  assumes run: "Apply_tx C D no_contracts t base_env trusted st = Some (ok, s)" and same: "current p t' st' = current p t st"
    and stack: "tx_stack st = [t]" "tx_stack st' = [t']"
  shows "\<exists>s'. Apply_tx C D no_contracts t' base_env trusted st' = Some (ok, s') \<and> current p t' s' = current p t s"
proof -
  let ?u = "\<lambda>u. upd_tx u (\<lambda>x. x\<lparr>tf_environment := Some base_env\<rparr>)"
  have u: "current p t' (?u t' st') = current p t (?u t st)" using same by (intro current_upd_eq) simp_all
  obtain c s2 where fee: "AddActualFee C t (?u t st) = Some (c, s2)"
    using run by (auto simp: Apply_tx_def Let_def split: option.splits)
  obtain s2' where fee': "AddActualFee C t' (?u t' st') = Some (c, s2')" "current p t' s2' = current p t s2"
    using AddActualFee_alike [OF fee u] stack by (auto simp: upd_tx_def)
  show ?thesis
    using run fee fee' apply_operations_alike [OF _ fee'(2)] current_eqD(6) [OF fee'(2)]
    by (auto simp: Apply_tx_def Let_def split: if_splits)
qed

lemma bare_current:
  assumes "current p t' st' = current p t st"
  shows "bare p st' = bare p st"
proof -
  have "bare p x = bare id (current p u x)" for x u by (simp add: bare_def current_def comp_def)
  then show ?thesis using assms by metis
qed

lemma rolled_bare: "bare p st' = bare p st \<Longrightarrow> rolled p st' = rolled p st"
proof -
  have "rolled p x = with_world (\<lambda>w. ClearChangeBuf_env w base_env) (bare p x)" for x
    by (simp add: rolled_def bare_def with_world_def clear)
  then show "bare p st' = bare p st \<Longrightarrow> rolled p st' = rolled p st" by metis
qed

lemma rolled_current: "current p t' s' = current p t s \<Longrightarrow> rolled p s' = rolled p s"
  using bare_current rolled_bare by blast

lemma alloc_current:
  assumes "bare p st' = bare p st"
  shows "current p (next_tx st') (snd (alloc_tx C env st')) = current p (next_tx st) (snd (alloc_tx C env st))"
proof -
  have "current p (next_tx x) (snd (alloc_tx C env x)) = (bare p x)\<lparr>tx_frms := \<lambda>_. unflag (new_TransactionFrm C env)\<rparr>" for x
    by (simp add: alloc_tx_def current_def bare_def)
  then show ?thesis using assms by metis
qed

lemma PayFee_alike:
  assumes "PayFee D t base_env st = (True, s)" and "current p t' st' = current p t st"
  shows "\<exists>s'. PayFee D t' base_env st' = (True, s') \<and> current p t' s' = current p t s"
proof -
  have fee: "(current p t x)\<lparr>total_fee := n\<rparr> = current p t (x\<lparr>total_fee := n\<rparr>)" for t x n
    by (simp add: current_def)
  have "PayFee D 0 base_env (current p t x) = (True, current p t y)" if "PayFee D t base_env x = (True, y)" for t x y
    using that by (auto simp: PayFee_def Let_def split_beta steps fee split: option.splits)
  moreover have "\<exists>y. PayFee D t base_env x = (True, y)" if "PayFee D 0 base_env (current p t x) = (True, z)" for t x z
    using that by (auto simp: PayFee_def Let_def split_beta steps split: option.splits)
  ultimately show ?thesis using assms by (metis prod.inject)
qed

lemma start_tx_alike:
  assumes "current p t' st' = current p t st"
  shows "current p t' (start_tx D t' st') = current p t (start_tx D t st)"
proof -
  have "current p 0 (start_tx D 0 (current p u x)) = current p u (start_tx D u x)" for u x
  proof -
    have push: "push_tx 0 (current p u x) = current p u (push_tx u x)" by (simp add: push_tx_def current_def)
    have again: "current p 0 (current p u y) = current p u y" for y
      by (simp add: current_def unflag_def comp_def idem)
    let ?c = "set_code ERRCODE_ACCOUNT_NOT_EXIST"
    have code: "current p 0 (with_world (\<lambda>w. Commit_env w base_env) (upd_tx 0 ?c (current p u y))) =
        current p u (with_world (\<lambda>w. Commit_env w base_env) (upd_tx u ?c y))" for y
      using current_upd_tx [of ?c p 0 u y] idem current_world(3) plain_upd_simps(1) by metis
    show ?thesis
      unfolding start_tx_def push NonceIncrease_def
      by (simp add: Let_def split_beta steps code again split: option.split)
  qed
  then show ?thesis using assms by metis
qed

lemma ReturnFee_alike:
  assumes "ReturnFee D t base_env st = Some s" and "current p t' st' = current p t st"
  shows "\<exists>s'. ReturnFee D t' base_env st' = Some s' \<and> current p t' s' = current p t s"
proof -
  have fee: "(current p t x)\<lparr>total_fee := n\<rparr> = current p t (x\<lparr>total_fee := n\<rparr>)" for t x n
    by (simp add: current_def)
  have again: "current p 0 (current p u y) = current p u y" for u y
    by (simp add: current_def unflag_def comp_def idem)
  have "map_option (current p 0) (ReturnFee D 0 base_env (current p t x)) = map_option (current p t) (ReturnFee D t base_env x)" for t x
    by (simp add: ReturnFee_def Let_def split_beta steps fee again split: option.split)
  then have "map_option (current p t') (ReturnFee D t' base_env st') = map_option (current p t) (ReturnFee D t base_env st)"
    using assms(2) by metis
  then show ?thesis using assms(1) by auto
qed

lemma commit_alike:
  "current p t' s' = current p t s \<Longrightarrow>
   bare p (finish_tx (with_world (\<lambda>w. Commit_env w base_env) s')) = bare p (finish_tx (with_world (\<lambda>w. Commit_env w base_env) s))"
  unfolding finish_tx_bare using current_world(3) rolled_current by metis

lemma timed_current: "current p t (timed_start D tm t st) = current p t (start_tx D t st)"
  by (simp add: timed_start_def current_def upd_tx_def unflag_def)

end

end
