(* ===== verification/Ledger_Follow.thy ===== *)
theory Ledger_Follow
  imports Ledger_Sim
begin

text \<open>
  A node that follows an agreed value repeats neither the checks before a transaction nor the
  measurement of its time; it takes over which transactions were out of time. The simulation of
  theory Ledger_Sim carries over from the run of a node that checked the proposal, with nothing
  of the world left out.
\<close>

interpretation same_world: world_sim D id for D
  by unfold_locales simp_all

section \<open>One transaction in the two runs\<close>

context world_sim
begin

lemma execute_follow:
  assumes run: "execute_tx C D no_contracts False tm t st = Some (out, s)" and same: "current p t' st' = current p t st"
    and stack: "tx_stack st = []" "tx_stack st' = []"
  shows "\<exists>s'. follow_tx C D no_contracts (out = TxExpired) t' st' = Some (out, s') \<and> bare p s' = bare p s"
proof -
  let ?st1 = "timed_start D tm t st" and ?st1' = "start_tx D t' st'"
  have start: "current p t' ?st1' = current p t ?st1"
    using start_tx_alike [OF same] timed_current by simp
  have "tx_stack ?st1' = [t']" using timed_start_simps(1) [OF stack(2), of D tm t'] by (simp add: timed_start_def upd_tx_def)
  note stack1 = timed_start_simps(1) [OF stack(1), of D tm t] this
  have pop: "rolled p (snd (IsExpire n t s2)) = rolled p s2" for n s2
    by (simp add: IsExpire_def Let_def rolled_simps)
  show ?thesis
    using run
  proof (cases rule: execute_tx_cases)
    case (failed done_ok s2)
    have "bare p s = pop_tx (rolled p ?st1)"
      unfolding failed(3) using Apply_tx_rolled [OF failed(1), of p] pop by (simp add: finish_tx_bare)
    moreover have "rolled p ?st1' = rolled p ?st1" using rolled_current [OF start] .
    moreover obtain s2' where tx': "Apply_tx C D no_contracts t' base_env False ?st1' = Some (done_ok, s2')"
      using Apply_tx_alike [OF failed(1) start stack1] by blast
    moreover have "out = TxExpired \<or> (out = TxError \<and> \<not> done_ok)"
      using run failed(1,2) by (auto simp: execute_tx_def timed_start_def Let_def split_beta split: if_splits)
    ultimately show ?thesis
      using Apply_tx_rolled [OF tx', of p]
      by (auto simp: follow_tx_def Let_def finish_tx_bare ApplyExpireResult_def rolled_simps)
  next
    case (ok s2 s3)
    obtain s2' where tx': "Apply_tx C D no_contracts t' base_env False ?st1' = Some (True, s2')" "current p t' s2' = current p t s2"
      using Apply_tx_alike [OF ok(1) start stack1] by blast
    obtain s3' where fee': "ReturnFee D t' base_env s2' = Some s3'" "current p t' s3' = current p t s3"
      using ReturnFee_alike [OF ok(4) tx'(2)] by blast
    show ?thesis
      using tx'(1) fee'(1) ok(2) commit_alike [OF fee'(2)] by (simp add: follow_tx_def refund_and_commit_def ok(5))
  qed
qed

lemma round_follow:
  assumes valid: "ValidForApply C D (next_tx st) base_env True (snd (alloc_tx C env st)) = Some (ERRCODE_SUCCESS, st2)"
    and pay: "PayFee D (next_tx st) base_env st2 = (True, st3)"
    and run: "execute_tx C D no_contracts False tm (next_tx st) st3 = Some (out, st4)"
    and same: "bare p st' = bare p st" and stack: "tx_stack st = []"
  shows "\<exists>st3' st4'. PayFee D (next_tx st') base_env (snd (alloc_tx C env st')) = (True, st3') \<and>
    follow_tx C D no_contracts (out = TxExpired) (next_tx st') st3' = Some (out, st4') \<and> bare p st4' = bare p st4 \<and> tx_stack st4 = []"
proof -
  let ?t = "next_tx st" and ?st1 = "snd (alloc_tx C env st)"
  have "st2 = ?st1\<lparr>world := snd (GetEntry D (world ?st1) base_env (GetSourceAddress (tx_frms ?st1 ?t)))\<rparr>"
    by (rule ValidForApply_success [OF valid])
  then have pay1: "PayFee D ?t base_env ?st1 = (True, st3)" using pay PayFee_checked by metis
  obtain st3' where pay': "PayFee D (next_tx st') base_env (snd (alloc_tx C env st')) = (True, st3')"
    "current p (next_tx st') st3' = current p ?t st3"
    using PayFee_alike [OF pay1 alloc_current [OF same]] by blast
  have stack3: "tx_stack st3 = []" using pay1 stack PayFee_stack by (simp add: alloc_tx_def)
  then have "tx_stack st3' = []" using current_eqD(3) [OF pay'(2)] by simp
  then show ?thesis
    using execute_follow [OF run pay'(2) stack3] pay'(1) execute_tx_stack [OF run stack3] by blast
qed

end

section \<open>The loops\<close>

text \<open>The positions that a checking run notes as out of time.\<close>

lemma check_loop_expired:
  assumes "check_loop C D no_contracts False clock start i envs acc st = Some ((True, acc'), st')" and "j < int i"
  shows "j \<in> ra_expire acc' \<longleftrightarrow> j \<in> ra_expire acc"
  using assms
proof (induction envs arbitrary: i acc st)
  case (Cons env envs)
  show ?case
    by (rule check_loop_step [OF Cons.prems(1)], drule Cons.IH)
       (use Cons.prems(2) in \<open>auto simp: note_outcome_def Let_def split: outcome.splits\<close>)
qed simp

lemma check_follow:
  assumes "check_loop C D no_contracts False clock start i envs acc st = Some ((True, acc'), s)"
    and "bare id st' = bare id st" and "tx_stack st = []" and "\<And>j. j \<in> ra_expire acc \<Longrightarrow> j < int i"
  shows "\<exists>acc2 s'. follow_loop C D no_contracts (ra_expire acc') i envs acc1 st' = Some (acc2, s') \<and> bare id s' = bare id s \<and>
    follow_envs C D no_contracts (ra_expire acc') i envs st' = envs"
  using assms
proof (induction envs arbitrary: i acc acc1 st st')
  case (Cons env envs)
  obtain st2 st3 out st4 where step:
    "ValidForApply C D (next_tx st) base_env True (snd (alloc_tx C env st)) = Some (ERRCODE_SUCCESS, st2)"
    "PayFee D (next_tx st) base_env st2 = (True, st3)"
    "execute_tx C D no_contracts False (clock i) (next_tx st) st3 = Some (out, st4)"
    "check_loop C D no_contracts False clock start (Suc i) envs (note_outcome (int i) (next_tx st) out acc) st4 = Some ((True, acc'), s)"
    using check_loop_step [OF Cons.prems(1)] by (metis (full_types))
  obtain st3' st4' where st4': "PayFee D (next_tx st') base_env (snd (alloc_tx C env st')) = (True, st3')"
    "follow_tx C D no_contracts (out = TxExpired) (next_tx st') st3' = Some (out, st4')" "bare id st4' = bare id st4" "tx_stack st4 = []"
    using same_world.round_follow [OF step(1-3) Cons.prems(2,3)] by blast
  have "int i \<notin> ra_expire acc" using Cons.prems(4) by blast
  then have "int i \<in> ra_expire acc' \<longleftrightarrow> out = TxExpired"
    using check_loop_expired [OF step(4), of "int i"] by (auto simp: note_outcome_def Let_def split: outcome.splits)
  moreover have "j < int (Suc i)" if "j \<in> ra_expire (note_outcome (int i) (next_tx st) out acc)" for j
    using that Cons.prems(4) [of j] by (auto simp: note_outcome_def Let_def split: outcome.splits)
  moreover have "fst (alloc_tx C env st') = next_tx st'" by (simp add: alloc_tx_def)
  ultimately show ?case
    using Cons.IH [OF step(4) st4'(3,4), of "note_outcome (int i) (next_tx st') out acc1"] st4'(1,2)
    by (simp add: split_beta Let_def)
qed auto

section \<open>The rewards\<close>

lemma bare_simps:
  "(bare id st)\<lparr>world := w\<rparr> = bare id (st\<lparr>world := w\<rparr>)" "upd_entry e k f (bare id st) = bare id (upd_entry e k f st)"
  "with_world g (bare id st) = bare id (with_world g st)" "world (bare id st) = world st" "total_fee (bare id st) = total_fee st"
  "value_seq (bare id st) = value_seq st"
  by (simp_all add: bare_def upd_entry_def with_world_def)

lemma reward_validators_bare: "reward_validators D avg vs left (bare id st) = apsnd (bare id) (reward_validators D avg vs left st)"
  by (induction vs arbitrary: left st) (simp_all add: Let_def split_beta bare_simps split: option.split)

lemma AllocateRewardDirectly_bare: "AllocateRewardDirectly C D n (bare id st) = apsnd (bare id) (AllocateRewardDirectly C D n st)"
  by (simp add: AllocateRewardDirectly_def Let_def split_beta bare_simps reward_validators_bare split: option.split)

lemma AllocateReward_bare: "AllocateReward C D test_mode (bare id st) = apsnd (bare id) (AllocateReward C D test_mode st)"
  by (simp add: AllocateReward_def Let_def split_beta bare_simps AllocateRewardDirectly_bare split: option.split)

lemma AllocateReward_alike:
  assumes "bare id st' = bare id st"
  shows "bare id (snd (AllocateReward C D test_mode st')) = bare id (snd (AllocateReward C D test_mode st))"
  using AllocateReward_bare [of C D test_mode st] AllocateReward_bare [of C D test_mode st'] assms by (metis snd_apsnd)

section \<open>The two runs agree\<close>

lemma check_then_follow:
  assumes "ApplyCheck C D no_contracts False clock start v \<noteq> None"
    and "ApplyCheck C D exec False clock start v = Some (True, st)"
  shows "\<exists>st'. ApplyFollow C D exec v = Some (True, st') \<and> world st' = world st \<and> total_fee st' = total_fee st"
    and "\<exists>ec er. CheckConsValueValidation v = Some (ec, er) \<and> follow_envs C D no_contracts ec 0 (txs v) (new_ledger_st v) = txs v"
proof -
  have "ApplyCheck C D no_contracts False clock start v = Some (True, st)"
    using assms(1,2) ApplyCheck_any [of C D False clock start v] by (metis option.inject not_None_eq)
  then obtain acc st1 where run: "check_loop C D no_contracts False clock start 0 (txs v) new_acc (new_ledger_st v) = Some ((True, acc), st1)"
    and val: "CheckConsValueValidation v = Some (ra_expire acc, ra_error acc)" and st: "st = snd (AllocateReward C D False st1)"
    by (rule ApplyCheck_true)
  obtain acc2 s' where loop: "follow_loop C D no_contracts (ra_expire acc) 0 (txs v) new_acc (new_ledger_st v) = Some (acc2, s')" "bare id s' = bare id st1"
    and paid: "follow_envs C D no_contracts (ra_expire acc) 0 (txs v) (new_ledger_st v) = txs v"
    using check_follow [OF run refl new_ledger_ok(2), of new_acc] by (auto simp: new_acc_def)
  then have "ApplyFollow C D no_contracts v = Some (True, snd (AllocateReward C D False s'))"
    using val by (simp add: ApplyFollow_def)
  moreover have "world (snd (AllocateReward C D False s')) = world st" "total_fee (snd (AllocateReward C D False s')) = total_fee st"
    using bare_fields(1,2) [OF AllocateReward_alike [OF loop(2), of C D False]] st by simp_all
  ultimately show "\<exists>st'. ApplyFollow C D exec v = Some (True, st') \<and> world st' = world st \<and> total_fee st' = total_fee st"
    using ApplyFollow_any by blast
  show "\<exists>ec er. CheckConsValueValidation v = Some (ec, er) \<and> follow_envs C D no_contracts ec 0 (txs v) (new_ledger_st v) = txs v"
    using val paid by blast
qed

text \<open>
  Claim C5. A follower computes the ledger of the nodes that checked the proposal. When a node
  accepts a value whose transactions call no contract, another node that takes over the agreed value
  without the checks, at whatever time, gets the same accounts and settings: the committed ones and
  those of the change buffer, and the same sum of fees.
\<close>

theorem follow_agrees_with_check:
  assumes "ApplyCheck C D no_contracts False clock start v \<noteq> None"
    and "ApplyCheck C D exec False clock start v = Some (True, st)"
  shows "\<exists>st'. ApplyFollow C D exec v = Some (True, st') \<and> world st' = world st \<and> total_fee st' = total_fee st"
  using check_then_follow(1) [OF assms] .

theorem follow_agrees_with_check_witness:
  "\<exists>st st'. ApplyCheck demo_cfg demo_db no_contracts False demo_clock 0 demo_value = Some (True, st) \<and>
     ApplyFollow demo_cfg demo_db no_contracts demo_value = Some (True, st') \<and> world st' = world st"
proof -
  obtain st where run: "ApplyCheck demo_cfg demo_db no_contracts False demo_clock 0 demo_value = Some (True, st)"
    using demo_run by blast
  then show ?thesis using follow_agrees_with_check [OF _ run] by auto
qed

end
