(* ===== verification/Ledger_Auth.thy ===== *)
theory Ledger_Auth
  imports Ledger_Thms
begin

text \<open>
  Who may act for an account. The signatures of a transaction authorise an operation when their
  weights reach the threshold of the account; the weights and thresholds are kept well-formed by
  every operation, also by those of contracts, so that no signer counts twice and no weight is
  negative.
\<close>

section \<open>Signatures and thresholds\<close>

definition required_weight :: "AccountFrm \<Rightarrow> int \<Rightarrow> int" where
  "required_weight frm type =
     (if GetTypeThreshold type frm > 0 then GetTypeThreshold type frm
      else tx_threshold (thresholds_of (acc_priv (account_info frm))))"

definition signed_weight :: "cstring set \<Rightarrow> AccountFrm \<Rightarrow> int" where
  "signed_weight valid frm =
     (if address frm \<in> valid then master_weight (acc_priv (account_info frm)) else 0) +
     (\<Sum>s\<leftarrow>filter (\<lambda>s. s_address s \<in> valid) (signers (acc_priv (account_info frm))). s_weight s)"

lemma signer_loop_iff:
  assumes "list_all (\<lambda>s. 0 \<le> s_weight s) ss" and "0 < threshold"
  shows "signer_loop valid ss threshold \<longleftrightarrow> threshold \<le> (\<Sum>s\<leftarrow>filter (\<lambda>s. s_address s \<in> valid) ss. s_weight s)"
  using assms
proof (induction ss arbitrary: threshold)
  case (Cons s ss)
  have "0 \<le> (\<Sum>s\<leftarrow>filter (\<lambda>s. s_address s \<in> valid) ss. s_weight s)"
    using Cons.prems(1) by (intro sum_list_nonneg) (auto simp: list_all_iff)
  then show ?case using Cons by (auto simp: Let_def)
qed simp

section \<open>Well-formed privileges\<close>

definition priv_wf :: "AccountPrivilege \<Rightarrow> bool" where
  "priv_wf p \<longleftrightarrow> weight_valid (master_weight p) \<and> distinct (map s_address (signers p)) \<and>
     list_all (\<lambda>s. weight_valid (s_weight s)) (signers p) \<and>
     0 \<le> tx_threshold (thresholds_of p) \<and> distinct (map tt_type (type_thresholds (thresholds_of p))) \<and>
     list_all (\<lambda>t. type_supported (tt_type t) \<and> 0 \<le> tt_threshold t) (type_thresholds (thresholds_of p))"

abbreviation acc_wf :: "AccountFrm \<Rightarrow> bool" where
  "acc_wf frm \<equiv> priv_wf (acc_priv (account_info frm))"

definition types_wf :: "OperationTypeThreshold list \<Rightarrow> bool" where
  "types_wf ts \<longleftrightarrow> distinct (map tt_type ts) \<and> list_all (\<lambda>t. type_supported (tt_type t) \<and> 0 \<le> tt_threshold t) ts"

definition signers_wf :: "Signer list \<Rightarrow> bool" where
  "signers_wf ss \<longleftrightarrow> distinct (map s_address ss) \<and> list_all (\<lambda>s. weight_valid (s_weight s)) ss"

lemma priv_wf_parts: "priv_wf p \<longleftrightarrow> weight_valid (master_weight p) \<and> signers_wf (signers p) \<and>
    0 \<le> tx_threshold (thresholds_of p) \<and> types_wf (type_thresholds (thresholds_of p))"
  by (auto simp: priv_wf_def signers_wf_def types_wf_def)

lemma thresholds_of_simps [simp]:
  "thresholds_of (p\<lparr>thresholds := Some t\<rparr>) = t" "thresholds_of (p\<lparr>master_weight := w\<rparr>) = thresholds_of p"
  "thresholds_of (p\<lparr>signers := ss\<rparr>) = thresholds_of p"
  by (simp_all add: thresholds_of_def)

lemma priv_of_edit [simp]:
  "acc_priv (account_info (with_priv f frm)) = f (acc_priv (account_info frm))"
  "acc_priv (account_info (with_thresholds g frm)) =
     (acc_priv (account_info frm))\<lparr>thresholds := Some (g (thresholds_of (acc_priv (account_info frm))))\<rparr>"
  by (simp_all add: with_priv_def with_info_def with_thresholds_def)

lemma signers_wf_edits:
  assumes "signers_wf ss" and "weight_valid w"
  shows "signers_wf (map (\<lambda>s. if s_address s = a then s\<lparr>s_weight := w\<rparr> else s) ss)"
    and "signers_wf (filter P ss)"
    and "\<forall>s\<in>set ss. s_address s \<noteq> a \<Longrightarrow> signers_wf (ss @ [\<lparr>s_address = a, s_weight = w\<rparr>])"
proof -
  have "map s_address (map (\<lambda>s. if s_address s = a then s\<lparr>s_weight := w\<rparr> else s) ss) = map s_address ss" by simp
  then show "signers_wf (map (\<lambda>s. if s_address s = a then s\<lparr>s_weight := w\<rparr> else s) ss)"
    using assms unfolding signers_wf_def by (simp only:) (auto simp: list_all_iff)
qed (use assms in \<open>auto simp: signers_wf_def list_all_iff distinct_map_filter\<close>)

lemma types_wf_edits:
  assumes "types_wf ts" and "type_supported ty" and "0 \<le> n"
  shows "types_wf (map (\<lambda>t. if tt_type t = ty then t\<lparr>tt_threshold := n\<rparr> else t) ts)"
    and "types_wf (filter P ts)"
    and "\<forall>t\<in>set ts. tt_type t \<noteq> ty \<Longrightarrow> types_wf (ts @ [\<lparr>tt_type = ty, tt_threshold = n\<rparr>])"
proof -
  have "map tt_type (map (\<lambda>t. if tt_type t = ty then t\<lparr>tt_threshold := n\<rparr> else t) ts) = map tt_type ts" by simp
  then show "types_wf (map (\<lambda>t. if tt_type t = ty then t\<lparr>tt_threshold := n\<rparr> else t) ts)"
    using assms unfolding types_wf_def by (simp only:) (auto simp: list_all_iff)
qed (use assms in \<open>auto simp: types_wf_def list_all_iff distinct_map_filter\<close>)

lemma wf_UpdateSigner:
  assumes "acc_wf frm" and "weight_valid w"
  shows "acc_wf (snd (UpdateSigner a w frm))"
  using assms signers_wf_edits [OF _ assms(2)]
  by (auto simp: UpdateSigner_def Let_def priv_wf_parts)

lemma wf_UpdateTypeThreshold:
  assumes "acc_wf frm" and "type_supported ty" and "0 \<le> n"
  shows "acc_wf (snd (UpdateTypeThreshold ty n frm))"
  using assms types_wf_edits [OF _ assms(2,3)]
  by (auto simp: UpdateTypeThreshold_def Let_def priv_wf_parts)

lemma wf_update_signers:
  "acc_wf frm \<Longrightarrow> list_all (\<lambda>s. weight_valid (s_weight s)) ss \<Longrightarrow> acc_wf (update_signers ss frm)"
  unfolding update_signers_def by (induction ss arbitrary: frm) (auto simp: wf_UpdateSigner)

lemma wf_update_type_thresholds:
  "acc_wf frm \<Longrightarrow> list_all (\<lambda>t. type_supported (tt_type t) \<and> 0 \<le> tt_threshold t) ts \<Longrightarrow> acc_wf (update_type_thresholds ts frm)"
  unfolding update_type_thresholds_def by (induction ts arbitrary: frm) (auto simp: wf_UpdateTypeThreshold)

lemma wf_setters:
  "acc_wf frm \<Longrightarrow> weight_valid w \<Longrightarrow> acc_wf (SetProtoMasterWeight w frm)"
  "acc_wf frm \<Longrightarrow> 0 \<le> n \<Longrightarrow> acc_wf (SetProtoTxThreshold n frm)"
  by (simp_all add: SetProtoMasterWeight_def SetProtoTxThreshold_def priv_wf_parts)

lemma wf_empty_priv [simp]: "priv_wf empty_priv"
  by (simp add: priv_wf_def empty_priv_def thresholds_of_def empty_threshold_def weight_valid_def UINT32_MAX_def)

lemma wf_new_accounts [simp]:
  "acc_wf (new_dest_account a)" "acc_wf (new_AccountFrm empty_account)"
  by (simp_all add: new_dest_account_def new_AccountFrm_def empty_account_def)
     (simp add: priv_wf_def thresholds_of_def weight_valid_def UINT32_MAX_def)

lemma wf_CreatAccountFrm [simp]: "acc_wf (CreatAccountFrm a b)"
  unfolding CreatAccountFrm_def
  by (intro wf_setters) (simp_all add: new_AccountFrm_def empty_account_def weight_valid_def UINT32_MAX_def)

lemma wf_balance [simp]: "acc_priv (account_info (set_balance n frm)) = acc_priv (account_info frm)"
  "acc_priv (account_info (NonceIncrease_frm frm)) = acc_priv (account_info frm)"
  by (simp_all add: set_balance_def NonceIncrease_frm_def with_info_def)

section \<open>What the checks of an operation give\<close>

definition op_wf :: "Operation \<Rightarrow> bool" where
  "op_wf oper \<longleftrightarrow>
     (op_type oper = Type_CREATE_ACCOUNT \<longrightarrow> pred_option priv_wf (ca_priv (create_account oper))) \<and>
     (op_type oper = Type_SET_SIGNER_WEIGHT \<longrightarrow> sw_master_weight (set_signer_weight oper) \<le> UINT32_MAX \<and>
        list_all (\<lambda>s. weight_valid (s_weight s)) (sw_signers (set_signer_weight oper))) \<and>
     (op_type oper = Type_SET_THRESHOLD \<longrightarrow>
        list_all (\<lambda>t. type_supported (tt_type t) \<and> 0 \<le> tt_threshold t) (st_type_thresholds (set_threshold oper))) \<and>
     (op_type oper = Type_SET_PRIVILEGE \<longrightarrow>
        (let sp = set_privilege oper in
         (sp_master_weight sp \<noteq> [] \<longrightarrow> weight_valid (sint (Stoi64 (sp_master_weight sp)))) \<and>
         (sp_tx_threshold sp \<noteq> [] \<longrightarrow> 0 \<le> sint (Stoi64 (sp_tx_threshold sp))) \<and>
         list_all (\<lambda>s. weight_valid (s_weight s)) (sp_signers sp) \<and>
         list_all (\<lambda>t. type_supported (tt_type t) \<and> 0 \<le> tt_threshold t) (sp_type_thresholds sp)))"

lemma check_signers_wf:
  "check_signers C a ss seen = None \<Longrightarrow> list_all (\<lambda>s. weight_valid (s_weight s)) ss \<and> distinct (map s_address ss) \<and> seen \<inter> s_address ` set ss = {}"
  by (induction ss arbitrary: seen) (auto split: if_splits)

lemma check_signer_weights_wf: "check_signer_weights C a ss = None \<Longrightarrow> list_all (\<lambda>s. weight_valid (s_weight s)) ss"
  by (induction ss) (auto split: if_splits)

lemma check_type_thresholds_wf:
  "check_type_thresholds ts seen = None \<Longrightarrow>
   list_all (\<lambda>t. type_supported (tt_type t) \<and> 0 \<le> tt_threshold t) ts \<and> distinct (map tt_type ts) \<and> seen \<inter> tt_type ` set ts = {}"
  by (induction ts arbitrary: seen) (auto split: if_splits)

lemma check_set_thresholds_wf:
  "check_set_thresholds ts = None \<Longrightarrow> list_all (\<lambda>t. type_supported (tt_type t) \<and> 0 \<le> tt_threshold t) ts"
  by (induction ts) (auto split: if_splits)

lemma check_metadatas_success: "check_metadatas kps r = ERRCODE_SUCCESS \<Longrightarrow> r = ERRCODE_SUCCESS"
proof (induction kps arbitrary: r)
  case (Cons kp kps)
  show ?case
    using Cons.IH [OF Cons.prems [unfolded check_metadatas.simps Let_def]] by (simp split: if_splits)
qed simp

lemma or_else_success: "or_else ERRCODE_SUCCESS (check_type_thresholds ts seen) = ERRCODE_SUCCESS \<Longrightarrow> check_type_thresholds ts seen = None"
proof -
  have "check_type_thresholds ts seen \<noteq> Some ERRCODE_SUCCESS" by (induction ts arbitrary: seen) auto
  then show "or_else ERRCODE_SUCCESS (check_type_thresholds ts seen) = ERRCODE_SUCCESS \<Longrightarrow> check_type_thresholds ts seen = None"
    by (auto simp: or_else_def split: option.splits)
qed

lemma check_loops_fail [simp]:
  "check_signers C a ss seen \<noteq> Some ERRCODE_SUCCESS" "check_signer_weights C a ss \<noteq> Some ERRCODE_SUCCESS"
  "check_set_thresholds ts \<noteq> Some ERRCODE_SUCCESS"
  subgoal by (induction ss arbitrary: seen) auto
  subgoal by (induction ss) auto
  subgoal by (induction ts) auto
  done

lemma check_create_wf:
  assumes "CheckValid_op C D oper source n = ERRCODE_SUCCESS" and "op_type oper = Type_CREATE_ACCOUNT"
  shows "pred_option priv_wf (ca_priv (create_account oper))"
proof -
  let ?ca = "create_account oper"
  have plain: "priv_wf p" if "plain_priv w p t" "thresholds p = Some t" "w = 0 \<or> w = 1" for w p t
    using that by (auto simp: plain_priv_def priv_wf_def thresholds_of_def weight_valid_def UINT32_MAX_def)
  consider (new) "CheckCreateAccountGt1000 C ?ca n = ERRCODE_SUCCESS" | (old) "check_create_account_1000 C D ?ca source n = ERRCODE_SUCCESS"
    using assms by (auto simp: CheckValid_op_def Let_def split: if_splits)
  then show ?thesis
  proof cases
    case new
    then obtain p t where "ca_priv ?ca = Some p" "thresholds p = Some t" "plain_priv 0 p t \<or> plain_priv 1 p t"
      by (auto simp: CheckCreateAccountGt1000_def Let_def split: if_splits option.splits)
    then show ?thesis using plain by auto
  next
    case old
    obtain p where p: "ca_priv ?ca = Some p" using old by (auto simp: check_create_account_1000_def Let_def split: if_splits option.splits)
    note body = old [unfolded check_create_account_1000_def Let_def p option.case]
    have signers: "check_signers C (ca_dest_address ?ca) (signers p) {} = None"
      using body by (cases "check_signers C (ca_dest_address ?ca) (signers p) {}") (auto split: if_splits)
    obtain t where t: "thresholds p = Some t" using body signers by (cases "thresholds p") (auto split: if_splits)
    note body2 = body [unfolded signers t option.case]
    have base: "weight_valid (master_weight p)" "0 \<le> tx_threshold t" using body2 by (auto split: if_splits)
    have "plain_priv 0 p t \<or>
        check_metadatas (ca_metadatas ?ca) (or_else ERRCODE_SUCCESS (check_type_thresholds (type_thresholds t) {})) = ERRCODE_SUCCESS"
      using body2 by (auto split: if_splits)
    then have "plain_priv 0 p t \<or> check_type_thresholds (type_thresholds t) {} = None"
      using or_else_success [OF check_metadatas_success] by metis
    then have "priv_wf p"
      using plain [of 0 p t] t base check_signers_wf [OF signers] check_type_thresholds_wf [of "type_thresholds t" "{}"]
      by (auto simp: priv_wf_def thresholds_of_def)
    then show ?thesis using p by simp
  qed
qed

lemma CheckValid_op_wf:
  assumes "CheckValid_op C D oper source n = ERRCODE_SUCCESS"
  shows "op_wf oper"
proof -
  have number: "Stoi64 x = y" if "SafeStoi64 x = Some y" for x y using that by (auto simp: SafeStoi64_def Let_def split: if_splits)
  consider "op_type oper = Type_CREATE_ACCOUNT" | (sw) "op_type oper = Type_SET_SIGNER_WEIGHT" | (th) "op_type oper = Type_SET_THRESHOLD"
    | (sp) "op_type oper = Type_SET_PRIVILEGE"
    | "op_type oper \<notin> {Type_CREATE_ACCOUNT, Type_SET_SIGNER_WEIGHT, Type_SET_THRESHOLD, Type_SET_PRIVILEGE}" by blast
  then show ?thesis
  proof cases
    case sw
    then show ?thesis
      using assms check_signer_weights_wf by (auto simp: op_wf_def CheckValid_op_def Let_def op_types or_else_def split: if_splits option.splits)
  next
    case th
    then show ?thesis
      using assms check_set_thresholds_wf by (auto simp: op_wf_def CheckValid_op_def Let_def op_types or_else_def split: if_splits option.splits)
  next
    case sp
    then have check: "CheckSetPrivilege C (set_privilege oper) source = ERRCODE_SUCCESS"
      using assms by (auto simp: CheckValid_op_def Let_def op_types split: if_splits)
    have "check_signers C source (sp_signers (set_privilege oper)) {} = None"
      "check_type_thresholds (sp_type_thresholds (set_privilege oper)) {} = None"
      using check or_else_success by (auto simp: CheckSetPrivilege_def Let_def split: if_splits option.splits)
    then show ?thesis
      using sp check check_signers_wf check_type_thresholds_wf number
      by (auto simp: op_wf_def Let_def op_types CheckSetPrivilege_def split: if_splits option.splits)
  qed (use check_create_wf [OF assms] in \<open>auto simp: op_wf_def op_types\<close>)
qed

lemma check_operations_wf: "check_operations C D source n opers = ERRCODE_SUCCESS \<Longrightarrow> list_all op_wf opers"
  by (induction opers) (auto simp: Let_def CheckValid_op_wf split: if_splits)

lemma ValidForParameter_wf: "ValidForParameter C D n env = ERRCODE_SUCCESS \<Longrightarrow> list_all op_wf (operations (transaction env))"
  by (auto simp: ValidForParameter_def Let_def check_operations_wf split: if_splits)

section \<open>Every account of every environment\<close>

definition db_wf :: "ledger_db \<Rightarrow> bool" where
  "db_wf D \<longleftrightarrow> (\<forall>a acc. db_account D a = Some acc \<longrightarrow> priv_wf (acc_priv acc))"

definition world_wf :: "ledger_db \<Rightarrow> env_world \<Rightarrow> bool" where
  "world_wf D w \<longleftrightarrow> db_wf D \<and> (\<forall>i a f. accts w i a = Some f \<longrightarrow> acc_wf f)"

named_theorems wf_intros \<open>changes that keep every account well-formed\<close>

lemma wf_put [wf_intros]: "world_wf D w \<Longrightarrow> acc_wf f \<Longrightarrow> world_wf D (put_entry w e k f)"
  by (auto simp: world_wf_def put_entry_def)

lemma wf_AddEntry [wf_intros]: "world_wf D w \<Longrightarrow> acc_wf f \<Longrightarrow> world_wf D (AddEntry w e k f)"
  by (simp add: AddEntry_def wf_put)

lemma wf_read [wf_intros]: "world_wf D w \<Longrightarrow> acc_wf (read_entry w e k)"
  by (auto simp: world_wf_def read_entry_def split: option.split)

lemma wf_Commit [wf_intros]: "world_wf D w \<Longrightarrow> world_wf D (Commit_env w e)"
  by (auto simp: world_wf_def Commit_env_def map_add_Some_iff)

lemma wf_Clear [wf_intros]: "world_wf D w \<Longrightarrow> world_wf D (ClearChangeBuf_env w e)"
  by (auto simp: world_wf_def ClearChangeBuf_env_def)

lemma wf_frame [wf_intros]: "world_wf D w \<Longrightarrow> world_wf D (snd (NewStackFrameEnv w e i))"
  by (simp add: NewStackFrameEnv_def Let_def wf_Clear)

lemma wf_docs [wf_intros]:
  "world_wf D w \<Longrightarrow> world_wf D (UpdateFeeConfig fees w e)" "world_wf D w \<Longrightarrow> world_wf D (UpdateNewValidators d w e)"
  by (auto simp: world_wf_def UpdateFeeConfig_def UpdateNewValidators_def get_fees_def Let_def split: option.split)

lemma wf_entry:
  assumes "world_wf D w"
  shows "fst (GetEntry D w e k) = Some f \<Longrightarrow> acc_wf f" and "world_wf D (snd (GetEntry D w e k))"
proof -
  have db: "acc_wf g" if "AccountFromDB D k = Some g" for g
    using assms that by (auto simp: AccountFromDB_def world_wf_def db_wf_def new_AccountFrm_def)
  show "fst (GetEntry D w e k) = Some f \<Longrightarrow> acc_wf f"
    using assms db by (auto simp: GetEntry_def world_wf_def split: option.splits)
  show "world_wf D (snd (GetEntry D w e k))"
    using assms db by (auto simp: GetEntry_def world_wf_def put_entry_def split: option.splits)
qed

lemma wf_upd_entry [wf_intros]:
  "world_wf D (world st) \<Longrightarrow> acc_wf (f (read_entry (world st) e k)) \<Longrightarrow> world_wf D (world (upd_entry e k f st))"
  by (simp add: upd_entry_def wf_put)

lemma world_other [simp]:
  "world (st\<lparr>total_fee := n\<rparr>) = world st" "world (snd (InternalCheckTime h r m st)) = world st"
  by (simp_all add: InternalCheckTime_def Let_def split_beta)

lemma wf_assets [simp]:
  "acc_wf (snd (GetAsset D key frm)) = acc_wf frm" "acc_wf (SetAsset a frm) = acc_wf frm"
  "acc_wf (snd (GetMetaData D k frm)) = acc_wf frm" "acc_wf (SetMetaData_frm kp frm) = acc_wf frm"
  "acc_wf (DeleteMetaData kp frm) = acc_wf frm"
  by simp_all

section \<open>Operations keep the accounts well-formed\<close>

lemma GetEntry_wf [wf_intros]: "world_wf D w \<Longrightarrow> world_wf D (snd (GetEntry D w e k))"
  using wf_entry by blast

lemma IssueAsset_wf [wf_intros]: "world_wf D (world st) \<Longrightarrow> world_wf D (world (snd (IssueAsset D e s ia st)))"
  by (auto simp: IssueAsset_def Let_def split_beta split: option.split intro!: wf_intros)

lemma SetMetaData_wf [wf_intros]: "world_wf D (world st) \<Longrightarrow> world_wf D (world (snd (SetMetaData D e s sm st)))"
  by (auto simp: SetMetaData_def Let_def split_beta split: option.split intro!: wf_intros)

lemma move_asset_wf [wf_intros]: "world_wf D (world st) \<Longrightarrow> world_wf D (world (snd (move_asset D e s d a st)))"
  by (auto simp: move_asset_def Let_def split_beta split: option.split intro!: wf_intros)

lemma move_coins_wf [wf_intros]: "world_wf D (world st) \<Longrightarrow> world_wf D (world (snd (move_coins e s d n st)))"
  by (auto simp: move_coins_def Let_def split: option.split intro!: wf_intros)

lemma NonceIncrease_wf [wf_intros]: "world_wf D (world st) \<Longrightarrow> world_wf D (world (NonceIncrease D t e st))"
  by (auto simp: NonceIncrease_def Let_def split_beta split: option.split intro!: wf_intros)

lemma CheckSignature_wf [wf_intros]: "world_wf D (world st) \<Longrightarrow> world_wf D (world (snd (CheckSignature D t e oper st)))"
  by (auto simp: CheckSignature_def Let_def split_beta split: option.split intro!: wf_intros)

lemma wf_if: "(P \<Longrightarrow> acc_wf a) \<Longrightarrow> (\<not> P \<Longrightarrow> acc_wf b) \<Longrightarrow> acc_wf (if P then a else b)"
  by simp

lemmas priv_intros = wf_upd_entry wf_update_signers wf_update_type_thresholds wf_setters wf_if wf_read

lemma SetSignerWeight_wf:
  assumes "world_wf D (world st)" and "op_wf oper" and "op_type oper = Type_SET_SIGNER_WEIGHT"
  shows "world_wf D (world (snd (SetSignerWeight e s (set_signer_weight oper) st)))"
  unfolding SetSignerWeight_def snd_conv using assms
  by (intro priv_intros) (simp_all add: op_wf_def weight_valid_def)

lemma SetThreshold_wf:
  assumes "world_wf D (world st)" and "op_wf oper" and "op_type oper = Type_SET_THRESHOLD"
  shows "world_wf D (world (snd (SetThreshold e s (set_threshold oper) st)))"
  unfolding SetThreshold_def snd_conv using assms by (intro priv_intros) (simp_all add: op_wf_def)

lemma SetPrivilege_wf:
  assumes "world_wf D (world st)" and "op_wf oper" and "op_type oper = Type_SET_PRIVILEGE"
  shows "world_wf D (world (snd (SetPrivilege e s (set_privilege oper) st)))"
  unfolding SetPrivilege_def Let_def snd_conv using assms by (intro priv_intros) (simp_all add: op_wf_def Let_def)

section \<open>Reading callbacks and queries\<close>

lemma read_callback_wf:
  assumes "read_callback D addr f st = Some (a, st')" and "world_wf D (world st)"
    and "\<And>frm frm'. snd (f (Some frm)) = Some frm' \<Longrightarrow> acc_wf frm \<Longrightarrow> acc_wf frm'" and "snd (f None) = None"
  shows "world_wf D (world st')"
proof -
  obtain te where te: "tf_environment (tx_frms st (GetTopTx st)) = Some te"
    using assms(1) by (auto simp: read_callback_def split: option.splits)
  let ?get = "GetEntry D (world st) te addr"
  have "acc_wf frm'" if "snd (f (fst ?get)) = Some frm'" for frm'
    using that assms(3,4) wf_entry(1) [OF assms(2), of te addr] by (cases "fst ?get") auto
  then show ?thesis
    using assms(1,2) te by (auto simp: read_callback_def Let_def split_beta split: option.splits intro!: wf_intros)
qed

lemma read_callbacks:
  "snd (CallBackGetBalance found) = None" "snd (CallBackGetContractProperty found) = None"
  "snd (CallBackGetAccountMetadata D key None) = None" "snd (CallBackGetAccountAsset D akey None) = None"
  by (simp_all add: CallBackGetBalance_def CallBackGetContractProperty_def CallBackGetAccountMetadata_def CallBackGetAccountAsset_def
      split: option.split)

lemma cached_reads:
  "snd (CallBackGetAccountMetadata D key (Some frm)) = Some frm' \<Longrightarrow> acc_wf frm \<Longrightarrow> acc_wf frm'"
  "snd (CallBackGetAccountAsset D akey (Some frm)) = Some frm' \<Longrightarrow> acc_wf frm \<Longrightarrow> acc_wf frm'"
  using wf_assets(1) [of D akey frm] wf_assets(3) [of D key frm]
  by (cases "GetMetaData D key frm"; cases "GetAsset D akey frm";
      auto simp: CallBackGetAccountMetadata_def CallBackGetAccountAsset_def split: option.splits)+

lemma query_account_wf: "query_account D n addr st = Some (r, st') \<Longrightarrow> world_wf D (world st) \<Longrightarrow> world_wf D (world st')"
  by (auto simp: query_account_def Let_def split_beta split: option.splits intro!: wf_intros)

lemma GetValidators_wf: "world_wf D w \<Longrightarrow> world_wf D (snd (GetValidators vs w e))"
  by (auto simp: GetValidators_def get_validator_doc_def Let_def world_wf_def split: option.split)

locale wf_querier =
  fixes D :: ledger_db and query :: querier
  assumes query_wf: "query p st = Some (r, st') \<Longrightarrow> world_wf D (world st) \<Longrightarrow> world_wf D (world st')"
begin

lemma run_pushed_wf: "run_pushed query p st = Some (a, st') \<Longrightarrow> world_wf D (world st) \<Longrightarrow> world_wf D (world st')"
  by (auto simp: run_pushed_def dest!: query_wf)

lemma read_call_wf:
  assumes call: "read_call C D query p call st = Some (a, st')" and wf: "world_wf D (world st)"
  shows "world_wf D (world st')"
proof -
  have read: ?thesis
    if "read_callback D addr f (ContractStepInc 100 t st) = Some (a, st')"
      and "f = CallBackGetBalance \<or> f = CallBackGetContractProperty \<or> (\<exists>key. f = CallBackGetAccountMetadata D key) \<or>
           (\<exists>key. f = CallBackGetAccountAsset D key)" for addr f t
    using that(2) read_callback_wf [OF that(1)] wf read_callbacks cached_reads by auto
  have found: ?thesis if "query_account D n addr st = Some (r, st')" for n addr r
    using query_account_wf [OF that wf] .
  have pushed: ?thesis if "query_account D n addr st = Some (r, st1)" "run_pushed query p1 st1 = Some (a, st')" for n addr r st1 p1
    using run_pushed_wf [OF that(2) query_account_wf [OF that(1) wf]] .
  have plain: ?thesis if "query_account D n addr st = Some (r, st1)" "query p1 st1 = Some (x, st')" for n addr r st1 p1 x
    using query_wf [OF that(2) query_account_wf [OF that(1) wf]] .
  show ?thesis
  proof (cases call)
    case JsGetValidators
    then show ?thesis
      using call wf by (auto simp: read_call_def CallBackGetValidators_def split_beta GetValidators_wf split: option.splits)
  next
    case (JsContractQuery addr input)
    then have "CallBackContractQuery C D query p addr input st = Some (a, st')" using call by (simp add: read_call_def)
    then show ?thesis
      by (auto simp: CallBackContractQuery_def Let_def split: option.splits if_splits dest: found pushed plain)
  next
    case (JsDelegateQuery addr input)
    then have "CallBackDelegateQuery D query p addr input st = Some (a, st')" using call by (simp add: read_call_def)
    then show ?thesis
      by (auto simp: CallBackDelegateQuery_def split: option.splits if_splits dest: found pushed)
  next
    case (JsCheckTime h r n)
    then have "st' = snd (InternalCheckTime h r n st)" using call by (simp add: read_call_def)
    then show ?thesis using wf by simp
  qed (use call wf in \<open>auto simp: read_call_def CallBackGetBlockHash_def CallBackStorageLoad_def Let_def intro: read\<close>)
qed

lemma run_query_wf:
  assumes "run_query fuel C D vm query p answers st = Some (r, st')" and "world_wf D (world st)"
  shows "world_wf D (world st')"
  using assms
proof (induction fuel arbitrary: answers st)
  case (Suc fuel)
  show ?case
  proof (cases "vm True p answers")
    case (VmCall call)
    then obtain a st1 where call: "read_call C D query p call st = Some (a, st1)"
      and rest: "run_query fuel C D vm query p (answers @ [a]) st1 = Some (r, st')"
      using Suc.prems(1) by (auto split: option.splits)
    show ?thesis using Suc.IH [OF rest read_call_wf [OF call Suc.prems(2)]] .
  qed (use Suc.prems in auto)
qed simp

end

lemma wf_Query: "wf_querier D (Query fuel C D vm)"
proof (induction fuel)
  case 0
  show ?case by unfold_locales simp_all
next
  case (Suc fuel)
  show ?case
  proof
    fix p st r st'
    assume "Query (Suc fuel) C D vm p st = Some (r, st')" and "world_wf D (world st)"
    then show "world_wf D (world st')" by (auto split: if_splits dest: wf_querier.run_query_wf [OF Suc])
  qed
qed

interpretation lookups: wf_querier D "Query fuel C D vm" for D fuel C vm
  by (rule wf_Query)

section \<open>Operations that may run contracts\<close>

text \<open>The law that the operations need of the executor of contracts.\<close>

locale wf_executor =
  fixes D :: ledger_db and exec :: executor
  assumes exec_wf: "exec p st = Some (r, st') \<Longrightarrow> world_wf D (world st) \<Longrightarrow> world_wf D (world st')"
begin

lemma run_contract_wf:
  "run_contract C exec t sender js input this asset amount st = Some (r, st') \<Longrightarrow> world_wf D (world st) \<Longrightarrow> world_wf D (world st')"
  using exec_wf by (auto simp: run_contract_def split: if_splits)

lemma PayCoin_wf: "PayCoin C D exec t e s pc st = Some (r, st') \<Longrightarrow> world_wf D (world st) \<Longrightarrow> world_wf D (world st')"
  by (auto simp: PayCoin_def Let_def split_beta split: if_splits option.splits intro!: wf_intros dest!: run_contract_wf)

lemma PayAsset_wf: "PayAsset C D exec t e s pa st = Some (r, st') \<Longrightarrow> world_wf D (world st) \<Longrightarrow> world_wf D (world st')"
  by (auto simp: PayAsset_def Let_def split_beta split: if_splits option.splits intro!: wf_intros dest!: run_contract_wf)

lemma created_wf: "pred_option priv_wf (ca_priv ca) \<Longrightarrow> acc_wf (snd (add_metadatas kps (created_account d ca)))"
  by (cases "ca_priv ca") (simp_all add: add_metadatas_info created_account_def new_AccountFrm_def)

lemma AddBalance_wf: "AddBalance n frm = Some frm' \<Longrightarrow> acc_wf frm' = acc_wf frm"
  by (auto simp: AddBalance_def split: option.splits)

lemma CreateAccount_wf:
  assumes run: "CreateAccount C D exec t i e s ca st = Some (r, st')" and st: "world_wf D (world st)"
    and ca: "pred_option priv_wf (ca_priv ca)"
  shows "world_wf D (world st')"
proof -
  define d where "d = (if ca_dest_address ca = [] then RawAddress C (raw_pkey (GetSourceAddress (tx_frms st t)) (GetNonce (tx_frms st t)) i)
    else ca_dest_address ca)"
  let ?st1 = "st\<lparr>world := snd (GetEntry D (world st) e d)\<rparr>"
  have st1: "world_wf D (world ?st1)" using st by (simp add: wf_intros)
  have paid: "acc_wf frm" if "AddBalance n (read_entry (world ?st1) e s) = Some frm" for n frm
    using st1 AddBalance_wf [OF that] by (simp add: wf_read)
  show ?thesis
    using run [unfolded CreateAccount_def Let_def split_beta d_def [symmetric]] st1 paid created_wf [OF ca]
    by (auto split: if_splits option.splits intro!: wf_intros dest!: exec_wf)
qed

lemma Apply_op_wf:
  assumes run: "Apply_op C D exec t i e oper st = Some (r, st')" and st: "world_wf D (world st)" and oper: "op_wf oper"
  shows "world_wf D (world st')"
proof -
  let ?s = "op_source (tx_frms st t) oper"
  let ?st1 = "st\<lparr>world := snd (GetEntry D (world st) e ?s)\<rparr>"
  have st1: "world_wf D (world ?st1)" using st by (simp add: wf_intros)
  note privileges = SetSignerWeight_wf [OF st1 oper] SetThreshold_wf [OF st1 oper] SetPrivilege_wf [OF st1 oper]
  note edits = IssueAsset_wf [OF st1] SetMetaData_wf [OF st1] privileges
  have create: "world_wf D (world st')" if "CreateAccount C D exec t i e ?s (create_account oper) ?st1 = Some (r, st')" "op_type oper = Type_CREATE_ACCOUNT"
    using CreateAccount_wf [OF that(1) st1] oper that(2) by (simp add: op_wf_def)
  show ?thesis
    using run [unfolded Apply_op_def Let_def split_beta] st1 edits create PayCoin_wf [OF _ st1] PayAsset_wf [OF _ st1]
    by (auto simp: prod_eq_iff [of _ "(r, st')"] split: if_splits)
qed

lemma apply_operations_wf:
  assumes "apply_operations C D exec t e trusted i opers st = Some (ok, st')" and "world_wf D (world st)" and "list_all op_wf opers"
  shows "world_wf D (world st')"
  using assms
proof (induction opers arbitrary: i st)
  case (Cons oper opers)
  let ?st1 = "upd_tx t (\<lambda>x. x\<lparr>tf_processing := i\<rparr>) st"
  let ?check = "if trusted then (ERRCODE_SUCCESS, ?st1) else CheckSignature D t e oper ?st1"
  have "world_wf D (world (snd ?check))" using Cons.prems(2) by (simp add: wf_intros)
  then have step: "world_wf D (world st3)" if "Apply_op C D exec t i e oper (snd ?check) = Some (r, st3)" for r st3
    using Apply_op_wf [OF that] Cons.prems(3) by simp
  show ?case
    using Cons.prems Cons.IH step \<open>world_wf D (world (snd ?check))\<close>
    by (fastforce simp: Let_def split_beta split: if_splits option.splits)
qed auto

lemma Apply_tx_wf:
  assumes run: "Apply_tx C D exec t e trusted st = Some (ok, st')" and "world_wf D (world st)"
    and "list_all op_wf (operations (transaction (tf_env (tx_frms st t))))"
  shows "world_wf D (world st')"
proof -
  let ?st1 = "upd_tx t (\<lambda>x. x\<lparr>tf_environment := Some e\<rparr>) st"
  obtain c st2 where fee: "AddActualFee C t ?st1 = Some (c, st2)"
    using run by (auto simp: Apply_tx_def Let_def split: option.splits)
  have "world st2 = world st" "tf_env (tx_frms st2 t) = tf_env (tx_frms st t)"
    using fee by (auto simp: AddActualFee_def Let_def upd_tx_def set_code_def split: if_splits option.splits)
  then show ?thesis
    using run fee assms(2,3) apply_operations_wf by (fastforce simp: Apply_tx_def Let_def split: if_splits)
qed

lemma finish_transaction_wf: "world_wf D (world st) \<Longrightarrow> world_wf D (world (snd (finish_transaction C tp n st)))"
  by (simp add: finish_transaction_def Let_def wf_intros split: option.split)

lemma AddActualFee_world: "AddActualFee C t st = Some (c, st') \<Longrightarrow> world st' = world st"
  by (auto simp: AddActualFee_def Let_def split: if_splits option.splits)

lemma DoTransaction_wf:
  assumes call: "DoTransaction C D exec env st = Some (r, st')" and st: "world_wf D (world st)"
  shows "world_wf D (world st')"
proof -
  obtain te where te: "tf_environment (tx_frms st (GetTopTx st)) = Some te"
    using call by (auto simp: DoTransaction_def Let_def split: option.splits)
  obtain frm w1 where get: "GetEntry D (world st) te (tx_source_address (transaction env)) = (Some frm, w1)"
    using call te by (auto simp: DoTransaction_def Let_def split: option.splits prod.splits)
  define env1 where "env1 = env\<lparr>transaction := (transaction env)\<lparr>tx_nonce := wrap64 (GetAccountNonce frm + 1)\<rparr>\<rparr>"
  define st1 where "st1 = snd (alloc_tx C env1 (st\<lparr>world := w1\<rparr>))"
  let ?n = "next_tx st"
  have w1: "world_wf D w1" using GetEntry_wf [OF st, of te "tx_source_address (transaction env)"] get by simp
  have st1: "world st1 = w1" "tf_env (tx_frms st1 ?n) = env1" by (simp_all add: st1_def) (simp add: alloc_tx_def new_TransactionFrm_def)
  have alloc: "alloc_tx C env1 (st\<lparr>world := w1\<rparr>) = (?n, st1)" by (simp add: st1_def alloc_tx_def)
  define st2 where "st2 = NonceIncrease D ?n te (push_tx ?n st1)"
  have st2: "world_wf D (world st2)" "tf_env (tx_frms st2 ?n) = env1"
    unfolding st2_def using w1 st1 by (simp_all add: wf_intros)
      (simp add: NonceIncrease_def Let_def split_beta push_tx_def upd_tx_def upd_entry_def with_world_def set_code_def split: option.split)
  note body = call [unfolded DoTransaction_def Let_def te get option.case prod.case env1_def [symmetric] alloc st2_def [symmetric]]
  let ?c = "ValidForParameter C D (length (tx_stack st2)) env1"
  define ce where "ce = fst (NewStackFrameEnv (world st2) te (next_env st2))"
  define st3 where "st3 = st2\<lparr>world := snd (NewStackFrameEnv (world st2) te (next_env st2)), next_env := Suc (next_env st2)\<rparr>"
  have st3: "world_wf D (world st3)" "tf_env (tx_frms st3 ?n) = env1" using st2 by (simp_all add: st3_def wf_intros)
  have "world_wf D (world st4)" if "Apply_tx C D exec ?n ce True st3 = Some (ok, st4)" "?c = ERRCODE_SUCCESS" for ok st4
    using Apply_tx_wf [OF that(1) st3(1)] ValidForParameter_wf [OF that(2)] st3(2) by simp
  moreover have "world_wf D (world st4)" if "AddActualFee C ?n (upd_tx ?n (set_code ?c) st2) = Some (f, st4)" for f st4
    using AddActualFee_world [OF that] st2(1) by simp
  ultimately show ?thesis
    using body w1 st1(1) by (auto simp: split_beta ce_def [symmetric] st3_def [symmetric] prod_eq_iff [of _ "(r, st')"]
        split: if_splits intro: finish_transaction_wf)
qed

lemma CallBackDelegateCall_wf:
  "CallBackDelegateCall C D exec p addr input res st = Some (a, st') \<Longrightarrow> world_wf D (world st) \<Longrightarrow> world_wf D (world st')"
  by (auto simp: CallBackDelegateCall_def Let_def split_beta split: option.splits if_splits intro!: wf_intros dest!: exec_wf)

lemma do_call_wf:
  assumes "do_call C D exec (Query n C D vm) p call res st = Some (a, st')" and "world_wf D (world st)"
  shows "world_wf D (world st')"
proof -
  consider (bad) "\<not> arity_ok call" | (writing) "arity_ok call" "writes call" | (other) "arity_ok call" "\<not> writes call" by blast
  then show ?thesis
  proof cases
    case bad
    then show ?thesis using assms by (simp add: do_call_def)
  next
    case writing
    then show ?thesis using assms by (auto simp: do_call_def Let_def split: option.splits dest!: DoTransaction_wf)
  next
    case other
    have read: ?thesis if "map_option (\<lambda>(a, st1). ((a, res), st1)) (read_call C D (Query n C D vm) p call st) = Some (a, st')"
      using that assms(2) lookups.read_call_wf by (auto simp: split_beta)
    show ?thesis
    proof (cases call)
      case (JsDelegateCall addr input)
      then show ?thesis using assms CallBackDelegateCall_wf by (auto simp: do_call_def)
    next
      case (JsConfigFee fees)
      then show ?thesis using assms by (auto simp: do_call_def CallBackConfigFee_def CallBackSetValidators_def wf_docs split: if_splits)
    next
      case (JsSetValidators d)
      then show ?thesis using assms by (auto simp: do_call_def CallBackConfigFee_def CallBackSetValidators_def wf_docs split: if_splits)
    qed (use assms(1) other in \<open>simp_all add: do_call_def read del: map_option_eq_Some\<close>)
  qed
qed

lemma run_script_wf:
  assumes "run_script fuel C D vm exec p answers res st = Some (r, st')" and "world_wf D (world st)"
  shows "world_wf D (world st')"
  using assms
proof (induction fuel arbitrary: answers res st)
  case (Suc fuel)
  show ?case
  proof (cases "vm False p answers")
    case (VmCall call)
    then obtain a res1 st1 where call: "do_call C D exec (Query fuel C D vm) p call res st = Some ((a, res1), st1)"
      and rest: "run_script fuel C D vm exec p (answers @ [a]) res1 st1 = Some (r, st')"
      using Suc.prems(1) by (auto split: option.splits)
    show ?thesis using Suc.IH [OF rest do_call_wf [OF call Suc.prems(2)]] .
  qed (use Suc.prems in auto)
qed simp

end

lemma wf_Execute: "wf_executor D (Execute fuel C D vm)"
proof (induction fuel)
  case 0
  show ?case by unfold_locales simp_all
next
  case (Suc fuel)
  show ?case
  proof
    fix p st r st'
    assume "Execute (Suc fuel) C D vm p st = Some (r, st')" and "world_wf D (world st)"
    then show "world_wf D (world st')" by (auto split: if_splits dest: wf_executor.run_script_wf [OF Suc])
  qed
qed

interpretation scripts: wf_executor D "Execute fuel C D vm" for D fuel C vm
  by (rule wf_Execute)

section \<open>Runs keep the accounts well-formed\<close>

lemma PayFee_wf: "world_wf D (world st) \<Longrightarrow> world_wf D (world (snd (PayFee D t e st)))"
  by (auto simp: PayFee_def Let_def split_beta split: option.split intro!: wf_intros)

lemma ReturnFee_wf: "ReturnFee D t e st = Some st' \<Longrightarrow> world_wf D (world st) \<Longrightarrow> world_wf D (world st')"
  by (auto simp: ReturnFee_def Let_def split_beta split: option.splits if_splits intro!: wf_intros)

lemma ValidForApply_wf: "ValidForApply C D t e cp st = Some (c, st') \<Longrightarrow> world_wf D (world st) \<Longrightarrow> world_wf D (world st')"
  by (auto simp: ValidForApply_def Let_def split_beta split: option.splits if_splits intro!: wf_intros)

lemma start_tx_wf: "world_wf D (world st) \<Longrightarrow> world_wf D (world (start_tx D t st))"
  by (auto simp: start_tx_def intro!: wf_intros)

lemma finish_tx_wf: "world_wf D (world st) \<Longrightarrow> world_wf D (world (finish_tx st))"
  by (auto simp: finish_tx_def intro!: wf_intros)

context wf_executor
begin

lemma execute_tx_wf:
  assumes run: "execute_tx C D exec test_mode tm t st = Some (out, st')" and st: "world_wf D (world st)"
    and ops: "list_all op_wf (operations (transaction (tf_env (tx_frms st t))))"
  shows "world_wf D (world st')"
proof -
  let ?st1 = "timed_start D tm t st"
  have "calm_tx (tx_frms (start_tx D t st) t) (tx_frms st t)" using start_tx_calm [of t st D] by (simp add: calm_def push_tx_def)
  then have "tf_env (tx_frms ?st1 t) = tf_env (tx_frms st t)" by (simp add: timed_start_def upd_tx_def calm_tx_def)
  moreover have "world_wf D (world ?st1)" using start_tx_wf [OF st] by (simp add: timed_start_def)
  ultimately have applied: "world_wf D (world st2)" if "Apply_tx C D exec t base_env test_mode ?st1 = Some (ok, st2)" for ok st2
    using Apply_tx_wf [OF that] ops by simp
  show ?thesis
    using run
  proof (cases rule: execute_tx_cases)
    case (failed ok st2)
    then show ?thesis using applied finish_tx_wf by simp
  next
    case (ok st2 st3)
    then show ?thesis using applied [OF ok(1)] ReturnFee_wf by (auto intro!: finish_tx_wf wf_intros)
  qed
qed

text \<open>From the making of the transaction object to its end.\<close>

lemma round_wf:
  assumes valid: "ValidForApply C D (next_tx st) base_env check_priv (snd (alloc_tx C env st)) = Some (ERRCODE_SUCCESS, st2)"
    and pay: "PayFee D (next_tx st) base_env st2 = (True, st3)"
    and run: "execute_tx C D exec test_mode tm (next_tx st) st3 = Some (out, st4)" and st: "world_wf D (world st)"
  shows "world_wf D (world st4)"
proof -
  let ?t = "next_tx st" and ?st1 = "snd (alloc_tx C env st)"
  have env: "tf_env (tx_frms ?st1 ?t) = env" by (simp add: alloc_tx_def new_TransactionFrm_def)
  have par: "ValidForParameter C D 0 env = ERRCODE_SUCCESS"
    and st2: "tx_frms st2 = tx_frms ?st1"
    by (rule ValidForApply_success [OF valid]; simp add: env)+
  have "world_wf D (world st2)" using ValidForApply_wf [OF valid] st by simp
  then have "world_wf D (world st3)" using PayFee_wf [of D st2 ?t base_env] pay by simp
  moreover have "tx_frms st3 = tx_frms st2" by (rule PayFee_view [OF pay])
  ultimately show ?thesis using execute_tx_wf [OF run] ValidForParameter_wf [OF par] env st2 by simp
qed

lemma round_states_wf:
  assumes valid: "ValidForApply C D (next_tx st) base_env check_priv (snd (alloc_tx C env st)) = Some (c, st2)"
    and st: "world_wf D (world st)"
  shows "world_wf D (world st2)" and "world_wf D (world (snd (PayFee D (next_tx st) base_env st2)))"
    and "c = ERRCODE_SUCCESS \<Longrightarrow> fst (PayFee D (next_tx st) base_env st2) \<Longrightarrow>
      execute_tx C D exec test_mode tm (next_tx st) (snd (PayFee D (next_tx st) base_env st2)) = Some (out, st4) \<Longrightarrow>
      world_wf D (world st4)"
proof -
  show st2: "world_wf D (world st2)" using ValidForApply_wf [OF valid] st by simp
  show "world_wf D (world (snd (PayFee D (next_tx st) base_env st2)))" using PayFee_wf [OF st2] .
  assume "c = ERRCODE_SUCCESS" and "fst (PayFee D (next_tx st) base_env st2)"
    and run: "execute_tx C D exec test_mode tm (next_tx st) (snd (PayFee D (next_tx st) base_env st2)) = Some (out, st4)"
  then have ok: "ValidForApply C D (next_tx st) base_env check_priv (snd (alloc_tx C env st)) = Some (ERRCODE_SUCCESS, st2)"
    "PayFee D (next_tx st) base_env st2 = (True, snd (PayFee D (next_tx st) base_env st2))"
    using valid by (simp_all add: prod_eq_iff)
  show "world_wf D (world st4)" by (rule round_wf [OF ok run st])
qed

lemma check_loop_wf:
  assumes "check_loop C D exec test_mode clock start i envs acc st = Some (res, st')" and "world_wf D (world st)"
  shows "world_wf D (world st')"
  using assms
proof (induction envs arbitrary: i acc st)
  case (Cons env envs)
  let ?t = "next_tx st" and ?st1 = "snd (alloc_tx C env st)"
  have t: "fst (alloc_tx C env st) = ?t" by (simp add: alloc_tx_def)
  obtain c st2 where valid: "ValidForApply C D ?t base_env (\<not> test_mode) ?st1 = Some (c, st2)"
    using Cons.prems(1) t by (auto simp: Let_def split_beta split: option.splits)
  show ?case
    using Cons.prems(1) t valid round_states_wf [OF valid Cons.prems(2)] Cons.IH
    by (auto simp: Let_def split_beta split: option.splits if_splits)
qed simp

lemma propose_loop_wf:
  assumes "propose_loop C D exec test_mode clock start i envs acc st = Some (res, st')" and "world_wf D (world st)"
  shows "world_wf D (world st')"
  using assms
proof (induction envs arbitrary: i acc st)
  case (Cons env envs)
  let ?t = "next_tx st" and ?st1 = "snd (alloc_tx C env st)"
  have t: "fst (alloc_tx C env st) = ?t" by (simp add: alloc_tx_def)
  obtain c st2 where valid: "ValidForApply C D ?t base_env (\<not> test_mode) ?st1 = Some (c, st2)"
    using Cons.prems(1) t by (auto simp: Let_def split_beta split: option.splits)
  show ?case
    using Cons.prems(1) t valid round_states_wf [OF valid Cons.prems(2)] Cons.IH
    by (auto simp: Let_def split_beta split: option.splits if_splits)
qed simp

end

lemma reward_validators_wf: "world_wf D (world st) \<Longrightarrow> world_wf D (world (snd (reward_validators D avg vs left st)))"
proof (induction vs arbitrary: left st)
  case (Cons v vs)
  let ?get = "GetEntry D (world st) base_env v"
  let ?st1 = "st\<lparr>world := (case fst ?get of None \<Rightarrow> AddEntry (snd ?get) base_env v (CreatAccountFrm v 0) | Some _ \<Rightarrow> snd ?get)\<rparr>"
  have st1: "world_wf D (world ?st1)" using Cons.prems by (auto split: option.split intro!: wf_intros)
  have "world_wf D (world (upd_entry base_env v (set_balance b) ?st1))" for b
    using wf_upd_entry [OF st1] wf_read [OF st1] by simp
  then show ?case using st1 Cons.IH by (simp add: Let_def split_beta split: option.split)
qed simp

lemma AllocateReward_wf:
  assumes "world_wf D (world st)"
  shows "world_wf D (world (snd (AllocateReward C D test_mode st)))"
proof -
  have direct: "world_wf D (world (snd (AllocateRewardDirectly C D n s)))" if "world_wf D (world s)" for n s
    using reward_validators_wf [OF that] that
    by (auto simp: AllocateRewardDirectly_def Let_def split_beta split: option.split intro!: wf_intros)
  have "world_wf D (world (st\<lparr>world := snd (GetEntry D (world st) base_env a)\<rparr>))" for a
    using assms by (auto intro!: wf_intros)
  then show ?thesis
    using assms direct by (auto simp: AllocateReward_def Let_def split_beta split: option.split intro!: wf_intros)
qed

section \<open>Theorems\<close>

text \<open>
  Claim C18. Privileges keep their type. When the accounts of the old ledger have well-formed
  privileges (weights between 0 and \<open>UINT32_MAX\<close>, every signer once, thresholds not negative, every
  operation type once and within its range), so has every account that a proposing or a checking run
  leaves, whether the run succeeds or not, and whatever contracts its transactions run.
\<close>

theorem privileges_well_formed:
  assumes "db_wf D"
    and "ApplyCheck C D (Execute fuel C D vm) test_mode clock start v = Some (ok, st) \<or>
         ApplyPropose C D (Execute fuel C D vm) test_mode clock start v = Some (res, st)"
    and "ledger_view D st a = Some frm"
  shows "priv_wf (acc_priv (account_info frm))"
proof -
  have new: "world_wf D (world (new_ledger_st v))" using assms(1) by (simp add: world_wf_def new_ledger_st_def)
  have "world_wf D (world st)"
    using assms(2) new scripts.check_loop_wf [OF _ new] scripts.propose_loop_wf [OF _ new]
    by (auto simp: ApplyCheck_def ApplyPropose_def Let_def split: option.splits if_splits intro!: AllocateReward_wf)
  then show ?thesis
    using assms(3) wf_entry(1) [of D "world st" base_env a frm] by (simp add: GetEntry_fst)
qed

theorem privileges_well_formed_witness:
  "\<exists>st. ApplyCheck demo_cfg demo_db (Execute 0 demo_cfg demo_db demo_vm) False demo_clock 0 demo_value = Some (True, st) \<and>
     (\<exists>frm. ledger_view demo_db st [1] = Some frm \<and> priv_wf (acc_priv (account_info frm)))"
proof -
  obtain st where run: "ApplyCheck demo_cfg demo_db no_contracts False demo_clock 0 demo_value = Some (True, st)"
    using demo_run by blast
  note run' = ApplyCheck_any [OF run, of "Execute 0 demo_cfg demo_db demo_vm"]
  have wf: "db_wf demo_db"
    by (auto simp: db_wf_def demo_db_def demo_account_def priv_wf_def thresholds_of_def weight_valid_def UINT32_MAX_def split: if_splits)
  obtain acc st1 where loop: "check_loop demo_cfg demo_db no_contracts False demo_clock 0 0 (txs demo_value) new_acc (new_ledger_st demo_value) =
      Some ((True, acc), st1)" and same: "nonce_of (ledger_book demo_db st) = nonce_of (ledger_book demo_db st1)"
    by (rule ApplyCheck_books [OF _ run demo_typed demo_supply(1) _ demo_validators]) (simp_all add: run demo_supply)
  have n: "nonce_of (db_book demo_db) b = 0" for b by (simp add: demo_book nonce_of_def)
  have "length (txs_of [1] (txs demo_value)) = 1" "length (txs demo_value) = 1"
    by (simp_all add: txs_of_def demo_value_def demo_tx_def)
  then have "nonce_of (ledger_book demo_db st) [1] = 1"
    using check_loop_nonces [OF loop new_ledger_balanced [OF demo_supply(1)] new_ledger_ok(1,2) _ demo_typed, of "[1]"] n same demo_supply(2)
    by (simp add: new_ledger_book)
  then obtain frm where "ledger_view demo_db st [1] = Some frm" by (auto simp: nonce_of_def book_def split: option.splits)
  then show ?thesis using privileges_well_formed [OF wf disjI1 [OF run']] run' by blast
qed

text \<open>
  Claim C19. Signatures are weighed exactly. For an account with well-formed privileges, the loop of
  \<open>SignerHashPriv\<close>, which stops as soon as the threshold is used up, accepts a set of signatures for
  an operation type exactly when the weights of the master key and of the signers that have signed
  add up to the threshold: that of the operation type, or that of the transaction when the type has
  none.
\<close>

theorem SignerHashPriv_exact:
  assumes "priv_wf (acc_priv (account_info frm))"
  shows "SignerHashPriv valid frm type \<longleftrightarrow> required_weight frm type \<le> signed_weight valid frm"
proof -
  let ?p = "acc_priv (account_info frm)"
  let ?m = "if address frm \<in> valid then master_weight ?p else 0"
  let ?sum = "\<Sum>s\<leftarrow>filter (\<lambda>s. s_address s \<in> valid) (signers ?p). s_weight s"
  have weights: "list_all (\<lambda>s. 0 \<le> s_weight s) (signers ?p)"
    using assms by (auto simp: priv_wf_def weight_valid_def list_all_iff)
  have "0 \<le> ?sum" using weights by (intro sum_list_nonneg) (auto simp: list_all_iff)
  moreover have "SignerHashPriv valid frm type \<longleftrightarrow>
      (let t = required_weight frm type - ?m in t \<le> 0 \<or> signer_loop valid (signers ?p) t)"
    by (auto simp: SignerHashPriv_def required_weight_def Let_def)
  ultimately show ?thesis
    using signer_loop_iff [OF weights, of "required_weight frm type - ?m" valid]
    by (cases "required_weight frm type - ?m \<le> 0") (auto simp: signed_weight_def Let_def)
qed

theorem SignerHashPriv_exact_witness:
  "SignerHashPriv {[1], [7]} (new_AccountFrm ((demo_account [1] 0 [])\<lparr>acc_priv :=
      \<lparr>master_weight = 1, signers = [\<lparr>s_address = [7], s_weight = 2\<rparr>], thresholds = Some \<lparr>tx_threshold = 3, type_thresholds = []\<rparr>\<rparr>\<rparr>)) (-1)"
  by (subst SignerHashPriv_exact)
     (simp_all add: new_AccountFrm_def demo_account_def empty_account_def priv_wf_def thresholds_of_def weight_valid_def UINT32_MAX_def
       required_weight_def signed_weight_def GetTypeThreshold_def)

end
