(* ===== verification/Ledger_Propose.thy ===== *)
theory Ledger_Propose
  imports Ledger_Sim
begin

text \<open>
  What a leader proposes, other nodes accept. The proposing run drops the transactions it cannot
  apply; the leader takes them out of the value and adds which transactions failed
  (\<^verbatim>\<open>GlueManager::StartConsensus\<close>, src/src/glue/glue_manager.cpp). A node that checks this value
  runs without the dropped ones.

  A dropped transaction leaves no change, but the accounts it read stay in the maps of the
  environment. So the two runs agree in what the environment shows, not in what it has loaded: they
  are related by theory Ledger_Sim with \<open>filled\<close>, which fills the committed map from the database.
\<close>

section \<open>The proposal\<close>

fun keep_txs :: "int set \<Rightarrow> nat \<Rightarrow> TransactionEnv list \<Rightarrow> TransactionEnv list" where
  "keep_txs dropped i [] = []"
| "keep_txs dropped i (env # envs) =
     (if int i \<in> dropped then keep_txs dropped (Suc i) envs else env # keep_txs dropped (Suc i) envs)"

fun drop_txs :: "int set \<Rightarrow> nat \<Rightarrow> TransactionEnv list \<Rightarrow> TransactionEnv list" where
  "drop_txs dropped i [] = []"
| "drop_txs dropped i (env # envs) =
     (if int i \<in> dropped then env # drop_txs dropped (Suc i) envs else drop_txs dropped (Suc i) envs)"

definition proposed_validation :: "ConsensusValueValidation \<Rightarrow> ConsensusValueValidation option" where
  "proposed_validation val = (if length (error_tx_ids val) > 0 \<or> length (expire_tx_ids val) > 0 then Some val else None)"

definition proposal :: "ConsensusValue \<Rightarrow> ConsensusValueValidation \<Rightarrow> int set \<Rightarrow> ConsensusValue" where
  "proposal v val dropped = v\<lparr>txs := keep_txs dropped 0 (txs v), validation := proposed_validation val\<rparr>"

section \<open>Worlds up to what is loaded\<close>

definition filled :: "ledger_db \<Rightarrow> env_world \<Rightarrow> env_world" where
  "filled D w = w\<lparr>accts := (accts w)(e_data base_env := env_base D w base_env)\<rparr>"

interpretation filled_world: world_sim D "filled D" for D
proof
  fix w k f
  show "GetEntry D (filled D w) base_env k = apsnd (filled D) (GetEntry D w base_env k)"
    by (auto simp: GetEntry_def filled_def env_base_def put_entry_def base_env_def fun_eq_iff split: option.split)
  show "put_entry (filled D w) base_env k f = filled D (put_entry w base_env k f)"
    "read_entry (filled D w) base_env k = read_entry w base_env k"
    "filled D (filled D w) = filled D w"
    "ClearChangeBuf_env (filled D w) base_env = filled D (ClearChangeBuf_env w base_env)"
    by (auto simp: filled_def env_base_def put_entry_def read_entry_def base_env_def ClearChangeBuf_env_def fun_eq_iff split: option.split)
  show "Commit_env (filled D w) base_env = filled D (Commit_env w base_env)"
    by (auto simp: filled_def env_base_def Commit_env_def base_env_def map_add_def fun_eq_iff split: option.split)
qed

text \<open>A buffer that holds only what was read.\<close>

definition clean :: "ledger_db \<Rightarrow> env_world \<Rightarrow> bool" where
  "clean D w \<longleftrightarrow> (\<forall>k f. accts w (e_buff base_env) k = Some f \<longrightarrow> env_base D w base_env k = Some f) \<and>
     fee_docs w (e_buff base_env) = None \<and> validator_docs w (e_buff base_env) = None"

lemma clean_new: "clean D (world (new_ledger_st v))"
  by (simp add: clean_def new_ledger_st_def)

lemma clean_cleared [simp]: "clean D (ClearChangeBuf_env w base_env)"
  by (simp add: clean_def ClearChangeBuf_env_def)

lemma clean_finish [simp]: "clean D (world (finish_tx st))"
  by (simp add: finish_tx_def pop_tx_def with_world_def)

lemma GetEntry_clean:
  assumes "clean D w"
  shows "GetEntry D w base_env k =
    (case env_base D w base_env k of None \<Rightarrow> (None, w) | Some f \<Rightarrow> (Some f, put_entry w base_env k f))"
proof (cases "accts w (e_buff base_env) k")
  case None
  then show ?thesis by (auto simp: GetEntry_def env_base_def split: option.split)
next
  case (Some f)
  then have "env_base D w base_env k = Some f" using assms by (simp add: clean_def)
  moreover have "put_entry w base_env k f = w"
    using Some by (auto simp: put_entry_def fun_upd_idem)
  ultimately show ?thesis using Some by (simp add: GetEntry_def)
qed

lemma put_again [simp]:
  "put_entry (put_entry w e k f) e k g = put_entry w e k g" "read_entry (put_entry w e k f) e k = f"
  by (simp_all add: put_entry_def read_entry_def)

lemma clean_put: "clean D w \<Longrightarrow> env_base D w base_env k = Some f \<Longrightarrow> clean D (put_entry w base_env k f)"
  by (auto simp: clean_def put_entry_def env_base_def base_env_def)

lemma clean_get: "clean D w \<Longrightarrow> clean D (snd (GetEntry D w base_env k))"
  by (simp add: GetEntry_clean clean_put split: option.split)

lemma PayFee_clean:
  assumes "PayFee D t base_env st = (True, s)" and "clean D (world st)"
  obtains f b n where "env_base D (world st) base_env (GetSourceAddress (tx_frms st t)) = Some f"
    and "s = st\<lparr>world := put_entry (world st) base_env (GetSourceAddress (tx_frms st t)) (set_balance b f), total_fee := n\<rparr>"
    and "SafeIntAdd (total_fee st) (fee_limit (transaction (tf_env (tx_frms st t)))) = Some n"
    and "SafeIntSub (balance f) (fee_limit (transaction (tf_env (tx_frms st t)))) = Some b"
  using assms
  by (auto simp: PayFee_def Let_def split_beta GetEntry_clean upd_entry_def with_world_def split: option.splits intro!: that)

lemma commit_clean:
  assumes "clean D w"
  shows "filled D (Commit_env (put_entry (ClearChangeBuf_env w base_env) base_env k f) base_env) =
    filled D (Commit_env (put_entry w base_env k f) base_env)"
  using assms
  by (auto simp: filled_def Commit_env_def put_entry_def ClearChangeBuf_env_def clean_def env_base_def base_env_def map_add_def fun_eq_iff
      split: option.splits)

text \<open>From a clean buffer a transaction starts as from an empty one.\<close>

lemma start_clean:
  assumes pay: "PayFee D t base_env st = (True, s)" and clean: "clean D (world st)"
  shows "\<exists>s'. PayFee D t base_env (with_world (\<lambda>w. ClearChangeBuf_env w base_env) st) = (True, s') \<and>
    current (filled D) t (start_tx D t s') = current (filled D) t (start_tx D t s)"
proof -
  let ?a = "GetSourceAddress (tx_frms st t)" and ?c = "with_world (\<lambda>w. ClearChangeBuf_env w base_env) st"
  obtain f b n where s: "env_base D (world st) base_env ?a = Some f"
      "s = st\<lparr>world := put_entry (world st) base_env ?a (set_balance b f), total_fee := n\<rparr>"
      "SafeIntAdd (total_fee st) (fee_limit (transaction (tf_env (tx_frms st t)))) = Some n"
      "SafeIntSub (balance f) (fee_limit (transaction (tf_env (tx_frms st t)))) = Some b"
    using PayFee_clean [OF pay clean] by metis
  let ?s' = "?c\<lparr>world := put_entry (world ?c) base_env ?a (set_balance b f), total_fee := n\<rparr>"
  have c: "world ?c = ClearChangeBuf_env (world st) base_env" "tx_frms ?c = tx_frms st" "total_fee ?c = total_fee st"
    by (simp_all add: with_world_def)
  have "env_base D (world ?c) base_env = env_base D (world st) base_env"
    by (auto simp: c env_base_def ClearChangeBuf_env_def base_env_def)
  then have "PayFee D t base_env ?c = (True, ?s')"
    using s c by (simp add: PayFee_def Let_def GetEntry_clean upd_entry_def with_world_def)
  moreover have "start_tx D t (x\<lparr>world := put_entry w base_env ?a g, total_fee := n\<rparr>) =
      (push_tx t x)\<lparr>world := Commit_env (put_entry w base_env ?a (NonceIncrease_frm g)) base_env, total_fee := n\<rparr>"
    if "tx_frms x = tx_frms st" for x w g
    using that by (simp add: start_tx_def NonceIncrease_def Let_def GetEntry_def push_tx_def upd_entry_def with_world_def put_entry_def
        read_entry_def base_env_def)
  ultimately show ?thesis
    using commit_clean [OF clean, of ?a "NonceIncrease_frm (set_balance b f)"] s(2) c
    by (auto simp: current_def push_tx_def with_world_def)
qed

lemma start_clean_back:
  assumes pay: "PayFee D t base_env (with_world (\<lambda>w. ClearChangeBuf_env w base_env) st) = (True, s')" and clean: "clean D (world st)"
  shows "\<exists>s. PayFee D t base_env st = (True, s) \<and>
    current (filled D) t (start_tx D t s') = current (filled D) t (start_tx D t s)"
proof -
  let ?c = "with_world (\<lambda>w. ClearChangeBuf_env w base_env) st"
  have c: "world ?c = ClearChangeBuf_env (world st) base_env" "tx_frms ?c = tx_frms st" "total_fee ?c = total_fee st"
    by (simp_all add: with_world_def)
  have "env_base D (world ?c) base_env = env_base D (world st) base_env"
    by (auto simp: c env_base_def ClearChangeBuf_env_def base_env_def)
  moreover obtain f b n where "env_base D (world ?c) base_env (GetSourceAddress (tx_frms ?c t)) = Some f"
      "SafeIntAdd (total_fee ?c) (fee_limit (transaction (tf_env (tx_frms ?c t)))) = Some n"
      "SafeIntSub (balance f) (fee_limit (transaction (tf_env (tx_frms ?c t)))) = Some b"
    using PayFee_clean [OF pay] c(1) by (metis clean_cleared)
  ultimately have "fst (PayFee D t base_env st)"
    using clean by (simp add: c PayFee_def Let_def split_beta GetEntry_clean)
  then obtain s where "PayFee D t base_env st = (True, s)" by (cases "PayFee D t base_env st") simp
  then show ?thesis using start_clean [OF _ clean] pay by (metis prod.inject)
qed

section \<open>One transaction in the two runs\<close>

text \<open>No transaction and no block is out of time.\<close>

definition in_time :: "(nat \<Rightarrow> tx_times) \<Rightarrow> int \<Rightarrow> bool" where
  "in_time clock start \<longleftrightarrow>
     (\<forall>i. at_check (clock i) \<le> at_start (clock i) + TX_EXECUTE_TIME_OUT \<and> at_end (clock i) - start \<le> BLOCK_EXECUTE_TIME_OUT)"

lemma limits_kept:
  assumes "Apply_tx C D no_contracts t base_env False (timed_start D tm t st) = Some (ok, s2)" and "tx_stack st = []"
  shows "tf_enable_check (tx_frms s2 t)" and "tf_max_end_time (tx_frms s2 t) = at_start tm + TX_EXECUTE_TIME_OUT"
  using Apply_tx_calm [OF assms(1) timed_start_simps(1) [OF assms(2)], unfolded calm_def, THEN conjunct2, THEN conjunct2, THEN spec, of t]
  by (simp_all add: calm_tx_def timed_start_def upd_tx_def)

context world_sim
begin

lemma execute_alike:
  assumes run: "execute_tx C D no_contracts False tm t st = Some (out, s)" and "out \<noteq> TxExpired"
    and start: "current p t' (start_tx D t' st') = current p t (start_tx D t st)"
    and stack: "tx_stack st = []" "tx_stack st' = []"
    and time: "at_check tm' \<le> at_start tm' + TX_EXECUTE_TIME_OUT"
  shows "\<exists>s'. execute_tx C D no_contracts False tm' t' st' = Some (out, s') \<and> bare p s' = bare p s"
proof -
  let ?st1 = "timed_start D tm t st" and ?st1' = "timed_start D tm' t' st'"
  have start1: "current p t' ?st1' = current p t ?st1" using start by (simp add: timed_current)
  note stacks = timed_start_simps(1) [OF stack(1)] timed_start_simps(1) [OF stack(2)]
  obtain done_ok s2 where tx: "Apply_tx C D no_contracts t base_env False ?st1 = Some (done_ok, s2)"
    using run by (auto simp: execute_tx_def timed_start_def Let_def split: option.splits)
  obtain s2' where tx': "Apply_tx C D no_contracts t' base_env False ?st1' = Some (done_ok, s2')" "current p t' s2' = current p t s2"
    using Apply_tx_alike [OF tx start1 stacks] by blast
  have live: "IsExpire (at_check tm) t s2 = (False, s2)"
    using run tx assms(2) by (auto simp: execute_tx_def timed_start_def Let_def split_beta IsExpire_def split: if_splits)
  have "unflag (tx_frms s2' t') = unflag (tx_frms s2 t)" using current_eqD(5) [OF tx'(2)] .
  then have "tf_contract_step (tx_frms s2' t') = tf_contract_step (tx_frms s2 t)"
    "tf_memory_usage (tx_frms s2' t') = tf_memory_usage (tx_frms s2 t)" "tf_stack_usage (tx_frms s2' t') = tf_stack_usage (tx_frms s2 t)"
    by (metis unflag_fields(6-8))+
  then have live': "IsExpire (at_check tm') t' s2' = (False, s2')"
    using live limits_kept [OF tx stack(1)] limits_kept [OF tx'(1) stack(2)] time
    by (auto simp: IsExpire_def Let_def split: if_splits)
  show ?thesis
  proof (cases done_ok)
    case False
    then have "out = TxError" "s = finish_tx s2"
      using run tx live by (simp_all add: execute_tx_def timed_start_def Let_def)
    moreover have "execute_tx C D no_contracts False tm' t' st' = Some (TxError, finish_tx s2')"
      using tx'(1) live' False by (simp add: execute_tx_def timed_start_def Let_def)
    ultimately show ?thesis using rolled_current [OF tx'(2)] by (simp add: finish_tx_bare)
  next
    case True
    then obtain s3 where fee: "ReturnFee D t base_env s2 = Some s3" "out = TxOk"
      "s = finish_tx (with_world (\<lambda>w. Commit_env w base_env) s3)"
      using run tx live by (auto simp: execute_tx_def timed_start_def Let_def refund_and_commit_def)
    obtain s3' where fee': "ReturnFee D t' base_env s2' = Some s3'" "current p t' s3' = current p t s3"
      using ReturnFee_alike [OF fee(1) tx'(2)] by blast
    then show ?thesis
      using tx'(1) live' True fee(2,3) commit_alike [OF fee'(2)]
      by (simp add: execute_tx_def timed_start_def Let_def refund_and_commit_def)
  qed
qed

end

section \<open>The loops\<close>

lemma propose_loop_step:
  assumes "propose_loop C D exec test_mode clock start i (env # envs) acc st = Some ((True, acc'), s)"
  obtains (invalid) c st2 where
      "ValidForApply C D (next_tx st) base_env (\<not> test_mode) (snd (alloc_tx C env st)) = Some (c, st2)" and "c \<noteq> ERRCODE_SUCCESS"
      and "propose_loop C D exec test_mode clock start (Suc i) envs (acc\<lparr>ra_dropped := insert (int i) (ra_dropped acc)\<rparr>) st2 = Some ((True, acc'), s)"
  | (unpaid) st2 st3 where
      "ValidForApply C D (next_tx st) base_env (\<not> test_mode) (snd (alloc_tx C env st)) = Some (ERRCODE_SUCCESS, st2)"
      and "PayFee D (next_tx st) base_env st2 = (False, st3)"
      and "propose_loop C D exec test_mode clock start (Suc i) envs (acc\<lparr>ra_dropped := insert (int i) (ra_dropped acc)\<rparr>) st3 = Some ((True, acc'), s)"
  | (applied) st2 st3 out st4 where
      "ValidForApply C D (next_tx st) base_env (\<not> test_mode) (snd (alloc_tx C env st)) = Some (ERRCODE_SUCCESS, st2)"
      and "PayFee D (next_tx st) base_env st2 = (True, st3)"
      and "execute_tx C D exec test_mode (clock i) (next_tx st) st3 = Some (out, st4)"
      and "propose_loop C D exec test_mode clock start (Suc i) envs
             (note_outcome (int i - int (card (ra_dropped acc))) (next_tx st) out acc) st4 = Some ((True, acc'), s)"
proof -
  have alloc: "fst (alloc_tx C env st) = next_tx st" by (simp add: alloc_tx_def)
  obtain c st2 where valid: "ValidForApply C D (next_tx st) base_env (\<not> test_mode) (snd (alloc_tx C env st)) = Some (c, st2)"
    using assms alloc by (auto simp: Let_def split_beta split: option.splits)
  obtain paid st3 where pay: "PayFee D (next_tx st) base_env st2 = (paid, st3)" by fastforce
  show thesis
  proof (cases "c = ERRCODE_SUCCESS \<and> paid")
    case True
    then obtain out st4 where "execute_tx C D exec test_mode (clock i) (next_tx st) st3 = Some (out, st4)"
      using assms alloc valid pay by (auto simp: Let_def split_beta split: option.splits)
    then show thesis
      using True assms alloc valid pay by (auto intro!: applied simp: Let_def split_beta split: if_splits)
  next
    case False
    then show thesis
      using assms alloc valid pay by (cases "c = ERRCODE_SUCCESS") (auto intro: invalid unpaid simp: Let_def split_beta)
  qed
qed

lemma note_outcome_fields:
  "ra_dropped (note_outcome i t out acc) = ra_dropped acc"
  "ra_expire (note_outcome i t out acc) = (if out = TxExpired then insert i (ra_expire acc) else ra_expire acc)"
  "ra_error (note_outcome i t out acc) = (if out = TxError then insert i (ra_error acc) else ra_error acc)"
  by (simp_all add: note_outcome_def Let_def split: outcome.split)

text \<open>The marks of a run only grow, and a later step drops only its own position.\<close>

lemma propose_loop_marks:
  assumes "propose_loop C D exec test_mode clock start i envs acc st = Some ((True, acc'), s)"
  shows "ra_expire acc \<subseteq> ra_expire acc' \<and> (finite (ra_expire acc) \<longrightarrow> finite (ra_expire acc')) \<and>
    (\<forall>j < int i. j \<in> ra_dropped acc' \<longleftrightarrow> j \<in> ra_dropped acc)"
  using assms
proof (induction envs arbitrary: i acc st)
  case (Cons env envs)
  from Cons.prems show ?case
    by (cases rule: propose_loop_step) (drule Cons.IH; force simp: note_outcome_fields split: if_splits)+
qed simp

lemma check_loop_errors:
  assumes "check_loop C D exec test_mode clock start i envs acc st = Some ((True, acc'), s)"
  shows "ra_error acc' \<subseteq> ra_error acc \<union> {int i..<int i + int (length envs)}"
  using assms
proof (induction envs arbitrary: i acc st)
  case (Cons env envs)
  obtain out st4 where
    "check_loop C D exec test_mode clock start (Suc i) envs (note_outcome (int i) (next_tx st) out acc) st4 = Some ((True, acc'), s)"
    using check_loop_step [OF Cons.prems] by metis
  from Cons.IH [OF this] show ?case by (auto simp: note_outcome_fields split: if_splits)
qed simp

text \<open>A dropped transaction leaves the ledger as it was.\<close>

lemma rolled_alloc: "rolled p (snd (alloc_tx C env st)) = rolled p st"
  by (simp add: rolled_def bare_def with_world_def alloc_tx_def)

lemma ValidForApply_leaves:
  assumes "ValidForApply C D t base_env check_priv st = Some (c, st2)" and "clean D (world st)"
  shows "clean D (world st2) \<and> rolled p st2 = rolled p st \<and> tx_stack st2 = tx_stack st"
  using assms clean_get [OF assms(2), of "GetSourceAddress (tx_frms st t)"]
  by (auto simp: ValidForApply_def Let_def split_beta rolled_simps split: if_splits option.splits) (simp_all add: upd_tx_def)

lemma unpaid_leaves:
  assumes valid: "ValidForApply C D t base_env check_priv st = Some (ERRCODE_SUCCESS, st2)" and pay: "PayFee D t base_env st2 = (False, st3)"
    and clean: "clean D (world st)"
  shows "clean D (world st3) \<and> rolled p st3 = rolled p st \<and> tx_stack st3 = tx_stack st"
proof -
  obtain frm where frm: "env_view D (world st) base_env (GetSourceAddress (tx_frms st t)) = Some frm"
    "CheckFee C (tx_frms st t) frm = Some ERRCODE_SUCCESS"
    "st2 = st\<lparr>world := snd (GetEntry D (world st) base_env (GetSourceAddress (tx_frms st t)))\<rparr>"
    using ValidForApply_success [OF valid] by metis
  have "SafeIntSub (balance frm) (fee_limit (transaction (tf_env (tx_frms st t)))) \<noteq> None"
    using frm(2) by (auto simp: CheckFee_def Let_def split: option.splits)
  moreover have "PayFee D t base_env st = (False, st3)" using pay frm(3) PayFee_checked by metis
  ultimately show ?thesis
    using frm(1) clean_get [OF clean, of "GetSourceAddress (tx_frms st t)"]
    by (auto simp: PayFee_def Let_def split_beta GetEntry_fst rolled_simps split: option.splits) (simp_all add: upd_tx_def)
qed

lemma rolled_base:
  assumes "rolled (filled D) st' = rolled (filled D) st"
  shows "env_base D (world st') base_env = env_base D (world st) base_env"
proof -
  have "accts (world (rolled (filled D) x)) (e_data base_env) = env_base D (world x) base_env" for x
    by (auto simp: rolled_def bare_def with_world_def filled_def ClearChangeBuf_env_def env_base_def base_env_def)
  then show ?thesis using assms by metis
qed

lemma view_clean: "clean D w \<Longrightarrow> env_view D w base_env = env_base D w base_env"
  by (rule ext) (simp add: GetEntry_fst [symmetric] GetEntry_clean split: option.split)

lemma ValidForApply_intro:
  assumes "ValidForParameter C D 0 (tf_env (tx_frms st t)) = ERRCODE_SUCCESS"
    and "env_view D (world st) e (GetSourceAddress (tx_frms st t)) = Some frm"
    and "wrap64 (nonce_of_frm frm + 1) = GetNonce (tx_frms st t)"
    and "CheckFee C (tx_frms st t) frm = Some ERRCODE_SUCCESS"
    and "check_priv \<Longrightarrow> SignerHashPriv (tf_valid_signature (tx_frms st t)) frm (-1)"
  shows "ValidForApply C D t e check_priv st =
    Some (ERRCODE_SUCCESS, st\<lparr>world := snd (GetEntry D (world st) e (GetSourceAddress (tx_frms st t)))\<rparr>)"
  using assms by (simp add: ValidForApply_def Let_def split_beta GetEntry_fst GetAccountNonce_def)

lemma valid_alike:
  assumes "ValidForApply C D (next_tx st) base_env cp (snd (alloc_tx C env st)) = Some (ERRCODE_SUCCESS, st2)"
    and "clean D (world st)" and "clean D (world st')" and "rolled (filled D) st' = rolled (filled D) st"
  obtains st2' where "ValidForApply C D (next_tx st') base_env cp (snd (alloc_tx C env st')) = Some (ERRCODE_SUCCESS, st2')"
proof -
  have view: "env_view D (world st') base_env = env_view D (world st) base_env"
    using view_clean [OF assms(2)] view_clean [OF assms(3)] rolled_base [OF assms(4)] by simp
  have made: "tx_frms (snd (alloc_tx C env x)) (next_tx x) = new_TransactionFrm C env" "world (snd (alloc_tx C env x)) = world x" for x
    by (simp_all add: alloc_tx_def)
  show thesis
    by (rule ValidForApply_success [OF assms(1)], rule that, rule ValidForApply_intro) (simp_all add: made view)
qed

lemma pay_alike:
  assumes pay: "PayFee D (next_tx st) base_env (snd (alloc_tx C env st)) = (True, st3)"
    and clean: "clean D (world st)" "clean D (world st')" and same: "rolled (filled D) st' = rolled (filled D) st"
  obtains st3' where "PayFee D (next_tx st') base_env (snd (alloc_tx C env st')) = (True, st3')"
    and "current (filled D) (next_tx st') (start_tx D (next_tx st') st3') = current (filled D) (next_tx st) (start_tx D (next_tx st) st3)"
proof -
  let ?clear = "with_world (\<lambda>w. ClearChangeBuf_env w base_env)" and ?t = "next_tx st" and ?t' = "next_tx st'"
  have comm: "snd (alloc_tx C env (?clear x)) = ?clear (snd (alloc_tx C env x))" "next_tx (?clear x) = next_tx x"
    "world (snd (alloc_tx C env x)) = world x" for x
    by (simp_all add: alloc_tx_def with_world_def)
  obtain c where c: "PayFee D ?t base_env (?clear (snd (alloc_tx C env st))) = (True, c)"
    "current (filled D) ?t (start_tx D ?t c) = current (filled D) ?t (start_tx D ?t st3)"
    using start_clean [OF pay] clean comm(3) by auto
  have "bare (filled D) (?clear st') = bare (filled D) (?clear st)" using same by (simp add: rolled_def)
  from filled_world.alloc_current [OF this, of C env]
  have made: "current (filled D) ?t' (?clear (snd (alloc_tx C env st'))) = current (filled D) ?t (?clear (snd (alloc_tx C env st)))"
    by (simp add: comm)
  obtain c' where c': "PayFee D ?t' base_env (?clear (snd (alloc_tx C env st'))) = (True, c')" "current (filled D) ?t' c' = current (filled D) ?t c"
    using filled_world.PayFee_alike [OF c(1) made] by blast
  show thesis
    using start_clean_back [OF c'(1)] clean(2) comm(3) that filled_world.start_tx_alike [OF c'(2)] c(2) by auto
qed

lemma applied_alike:
  assumes valid: "ValidForApply C D (next_tx st) base_env True (snd (alloc_tx C env st)) = Some (ERRCODE_SUCCESS, st2)"
    and pay: "PayFee D (next_tx st) base_env st2 = (True, st3)"
    and run: "execute_tx C D no_contracts False tm (next_tx st) st3 = Some (out, st4)" and "out \<noteq> TxExpired"
    and clean: "clean D (world st)" "clean D (world st')" and same: "rolled (filled D) st' = rolled (filled D) st"
    and stack: "tx_stack st = []" and time: "at_check tm' \<le> at_start tm' + TX_EXECUTE_TIME_OUT"
  obtains st2' st3' st4' where
    "ValidForApply C D (next_tx st') base_env True (snd (alloc_tx C env st')) = Some (ERRCODE_SUCCESS, st2')"
    and "PayFee D (next_tx st') base_env st2' = (True, st3')"
    and "execute_tx C D no_contracts False tm' (next_tx st') st3' = Some (out, st4')"
    and "clean D (world st4)" and "clean D (world st4')" and "rolled (filled D) st4' = rolled (filled D) st4" and "tx_stack st4 = []"
proof -
  obtain st2' where valid': "ValidForApply C D (next_tx st') base_env True (snd (alloc_tx C env st')) = Some (ERRCODE_SUCCESS, st2')"
    using valid_alike [OF valid clean same] .
  have once: "PayFee D (next_tx x) base_env (snd (alloc_tx C env x)) = PayFee D (next_tx x) base_env y"
    if "ValidForApply C D (next_tx x) base_env True (snd (alloc_tx C env x)) = Some (ERRCODE_SUCCESS, y)" for x y
    by (rule ValidForApply_success [OF that]) (metis PayFee_checked)
  obtain st3' where pay': "PayFee D (next_tx st') base_env st2' = (True, st3')"
    "current (filled D) (next_tx st') (start_tx D (next_tx st') st3') = current (filled D) (next_tx st) (start_tx D (next_tx st) st3)"
    using pay_alike [OF _ clean same, of C env st3] once [OF valid] once [OF valid'] pay by auto
  have "length (tx_stack st') = length (tx_stack st)"
    using arg_cong [OF same, of "\<lambda>x. length (tx_stack x)"] by (simp add: rolled_def bare_def with_world_def)
  then have stacks: "tx_stack st3 = []" "tx_stack st3' = []"
    using PayFee_stack [of D _ base_env "snd (alloc_tx C env _)"] once [OF valid] once [OF valid'] pay pay'(1) stack
    by (force simp: alloc_tx_def)+
  obtain st4' where st4': "execute_tx C D no_contracts False tm' (next_tx st') st3' = Some (out, st4')" "bare (filled D) st4' = bare (filled D) st4"
    using filled_world.execute_alike [OF run assms(4) pay'(2) stacks time] by blast
  have finished: "clean D (world x)" if "execute_tx C D no_contracts False m t y = Some (r, x)" for m t y r x
    using that by (cases rule: execute_tx_cases) simp_all
  show thesis
    using that [OF valid' pay'(1) st4'(1) finished [OF run] finished [OF st4'(1)] filled_world.rolled_bare [OF st4'(2)]
        execute_tx_stack [OF run stacks(1)]] .
qed

text \<open>The proposing run on the whole list and the checking run on what is kept of it.\<close>

lemma propose_check:
  assumes "propose_loop C D no_contracts False clock start i envs acc st = Some ((True, acc'), s)"
    and "clean D (world st)" and "clean D (world st')" and "rolled (filled D) st' = rolled (filled D) st" and "tx_stack st = []"
    and "ra_expire acc' = {}" and "in_time clock' start'"
    and "ra_dropped acc \<subseteq> {0..<int i}" and "int i - int (card (ra_dropped acc)) = int i'" and "ra_error chk = ra_error acc"
  shows "\<exists>chk' s'. check_loop C D no_contracts False clock' start' i' (keep_txs (ra_dropped acc') i envs) chk st' = Some ((True, chk'), s') \<and>
    ra_expire chk' = ra_expire chk \<and> ra_error chk' = ra_error acc'"
  using assms
proof (induction envs arbitrary: i i' acc chk st st')
  case (Cons env envs)
  have dropped: ?case
    if rest: "propose_loop C D no_contracts False clock start (Suc i) envs (acc\<lparr>ra_dropped := insert (int i) (ra_dropped acc)\<rparr>) x = Some ((True, acc'), s)"
      and x: "clean D (world x) \<and> rolled (filled D) x = rolled (filled D) (snd (alloc_tx C env st)) \<and> tx_stack x = tx_stack (snd (alloc_tx C env st))" for x
  proof -
    have fin: "finite (ra_dropped acc)" and new: "int i \<notin> ra_dropped acc"
      using Cons.prems(8) by (auto intro: finite_subset)
    have range: "insert (int i) (ra_dropped acc) \<subseteq> {0..<int (Suc i)}" using Cons.prems(8) by force
    have "int i \<in> ra_dropped acc'" using propose_loop_marks [OF rest] by auto
    moreover have "rolled (filled D) st' = rolled (filled D) x" using x Cons.prems(4) by (simp add: rolled_alloc)
    moreover have "tx_stack x = []" using x Cons.prems(5) by (simp add: alloc_tx_def)
    ultimately show ?thesis
      using Cons.IH [OF rest _ Cons.prems(3) _ _ Cons.prems(6,7), of i' chk] x Cons.prems(9,10) fin new range by auto
  qed
  from Cons.prems(1) show ?case
  proof (cases rule: propose_loop_step)
    case (invalid c st2)
    then show ?thesis
      using dropped [OF invalid(3)] ValidForApply_leaves [OF invalid(1)] Cons.prems(2) by (simp add: alloc_tx_def)
  next
    case (unpaid st2 st3)
    then show ?thesis
      using dropped [OF unpaid(3)] unpaid_leaves [OF unpaid(1,2)] Cons.prems(2) by (simp add: alloc_tx_def)
  next
    case (applied st2 st3 out st4)
    have live: "out \<noteq> TxExpired"
      using propose_loop_marks [OF applied(4)] Cons.prems(6) by (auto simp: note_outcome_fields split: if_splits)
    have kept: "int i \<notin> ra_dropped acc'"
      using propose_loop_marks [OF applied(4)] Cons.prems(8) by (auto simp: note_outcome_fields)
    have time: "at_check (clock' i') \<le> at_start (clock' i') + TX_EXECUTE_TIME_OUT" "at_end (clock' i') - start' \<le> BLOCK_EXECUTE_TIME_OUT"
      using Cons.prems(7) by (auto simp: in_time_def)
    obtain st2' st3' st4' where step:
      "ValidForApply C D (next_tx st') base_env True (snd (alloc_tx C env st')) = Some (ERRCODE_SUCCESS, st2')"
      "PayFee D (next_tx st') base_env st2' = (True, st3')"
      "execute_tx C D no_contracts False (clock' i') (next_tx st') st3' = Some (out, st4')"
      "clean D (world st4)" "clean D (world st4')" "rolled (filled D) st4' = rolled (filled D) st4" "tx_stack st4 = []"
      using applied_alike [OF _ applied(2,3) live Cons.prems(2-5) time(1)] applied(1) by (metis (full_types))
    let ?chk = "note_outcome (int i') (next_tx st') out chk"
    have "\<exists>chk' s'. check_loop C D no_contracts False clock' start' (Suc i') (keep_txs (ra_dropped acc') (Suc i) envs) ?chk st4' = Some ((True, chk'), s') \<and>
        ra_expire chk' = ra_expire ?chk \<and> ra_error chk' = ra_error acc'"
      using Cons.prems(8-10)
      by (intro Cons.IH [OF applied(4) step(4-7) Cons.prems(6,7)]) (auto simp: note_outcome_fields)
    then show ?thesis
      using kept step(1-3) time(2) live by (auto simp: alloc_tx_def [of C env st'] Let_def note_outcome_fields)
  qed
qed auto

section \<open>The validation of the proposal\<close>

lemma collect_ids_distinct:
  assumes "distinct ids" and "set ids \<subseteq> {0..<n}" and "set ids \<inter> seen = {}"
  shows "collect_ids n ids seen = Some (seen \<union> set ids)"
  using assms by (induction ids arbitrary: seen) auto

lemma validation_accepted:
  assumes "errors \<subseteq> {0..<int (length envs)}"
  shows "CheckConsValueValidation (v\<lparr>txs := envs, validation := proposed_validation (SetValidationToProto {} errors)\<rparr>) = Some ({}, errors)"
proof -
  have fin: "finite errors" using assms finite_subset by blast
  then have "collect_ids (int (length envs)) (sorted_list_of_set errors) {} = Some errors"
    using collect_ids_distinct [of "sorted_list_of_set errors" "int (length envs)" "{}"] assms by simp
  then show ?thesis
    using fin by (auto simp: CheckConsValueValidation_def proposed_validation_def SetValidationToProto_def)
qed

section \<open>Acceptance\<close>

lemma propose_loop_any:
  "propose_loop C D no_contracts test_mode clock start i envs acc st = Some x \<Longrightarrow>
   propose_loop C D exec test_mode clock start i envs acc st = Some x"
  by (induction envs arbitrary: i acc st) (auto simp: Let_def split_beta split: option.split_asm if_split_asm dest!: execute_tx_any [where exec = exec])

lemma ApplyPropose_any:
  "ApplyPropose C D no_contracts test_mode clock start v = Some x \<Longrightarrow> ApplyPropose C D exec test_mode clock start v = Some x"
  by (auto simp: ApplyPropose_def Let_def split: option.split_asm if_split_asm dest!: propose_loop_any [where exec = exec])

theorem proposal_checked:
  assumes "ApplyPropose C D no_contracts False clock start v \<noteq> None"
    and "ApplyPropose C D exec False clock start v = Some ((True, val, dropped), st)"
    and "expire_tx_ids val = []" and "in_time clock' start'"
  shows "\<exists>st'. ApplyCheck C D exec' False clock' start' (proposal v val dropped) = Some (True, st')"
proof -
  have run: "ApplyPropose C D no_contracts False clock start v = Some ((True, val, dropped), st)"
    using assms(1,2) ApplyPropose_any [of C D False clock start v] by (metis option.inject not_None_eq)
  obtain acc st1 where loop: "propose_loop C D no_contracts False clock start 0 (txs v) new_acc (new_ledger_st v) = Some ((True, acc), st1)"
    and val: "val = SetValidationToProto (ra_expire acc) (ra_error acc)" and dropped: "dropped = ra_dropped acc"
    using run by (auto simp: ApplyPropose_def Let_def split: if_splits option.splits)
  have "finite (ra_expire acc)" using propose_loop_marks [OF loop] by (simp add: new_acc_def)
  then have live: "ra_expire acc = {}" using val assms(3) by (simp add: SetValidationToProto_def)
  let ?v = "proposal v val dropped"
  have start: "new_ledger_st ?v = new_ledger_st v" by (simp add: new_ledger_st_def proposal_def)
  obtain chk s' where chk: "check_loop C D no_contracts False clock' start' 0 (txs ?v) new_acc (new_ledger_st ?v) = Some ((True, chk), s')"
    "ra_expire chk = {}" "ra_error chk = ra_error acc"
    using propose_check [OF loop clean_new clean_new refl _ live assms(4), of 0 new_acc] start dropped
    by (auto simp: new_acc_def proposal_def new_ledger_ok)
  have "ra_error acc \<subseteq> {0..<int (length (txs ?v))}"
    using check_loop_errors [OF chk(1)] chk(3) by (simp add: new_acc_def)
  then have "CheckConsValueValidation ?v = Some ({}, ra_error acc)"
    using validation_accepted val live by (simp add: proposal_def)
  then have "ApplyCheck C D no_contracts False clock' start' ?v = Some (True, snd (AllocateReward C D False s'))"
    using chk by (simp add: ApplyCheck_def Let_def)
  then show ?thesis using ApplyCheck_any by blast
qed

end
