(* ===== verification/Ledger_Upgrade.thy ===== *)
theory Ledger_Upgrade
  imports Consensus Strings
begin

text \<open>
  The votes for a new ledger version, \<^verbatim>\<open>LedgerUpgrade\<close> (src/src/glue/ledger_upgrade.h,
  ledger_upgrade.cpp): each validator signs and broadcasts the version it is configured for, every
  node keeps the last vote of each address, and a leader proposes an upgrade once enough validators
  vote for the same one.

  The serialization of an upgrade is the parameter \<open>ser\<close>; the clock is an argument. The map of
  counters has frames as keys, compared by the serialized upgrade: it is an ordered map from that
  string to the frame that was inserted first and its counter.
\<close>

record LedgerUpgrade =
  new_ledger_version :: int
  new_validator :: cstring
  up_chain_id :: int

record LedgerUpgradeNotify =
  un_nonce :: int
  un_upgrade :: LedgerUpgrade
  un_signature :: Signature

record LedgerUpgradeFrm =
  recv_time :: int
  frm_address :: cstring
  frm_msg :: LedgerUpgradeNotify

record upgrade_st =
  last_send_time :: int
  local_state :: LedgerUpgrade
  current_states :: "(cstring \<times> LedgerUpgradeFrm) list"

definition empty_upgrade :: LedgerUpgrade where
  "empty_upgrade = \<lparr>new_ledger_version = 0, new_validator = [], up_chain_id = 0\<rparr>"

definition new_upgrade_st :: upgrade_st where
  "new_upgrade_st = \<lparr>last_send_time = 0, local_state = empty_upgrade, current_states = []\<rparr>"

text \<open>What a vote signs: the serialized upgrade followed by the nonce in decimal.\<close>

definition vote_data :: "(LedgerUpgrade \<Rightarrow> cstring) \<Rightarrow> LedgerUpgrade \<Rightarrow> int \<Rightarrow> cstring" where
  "vote_data ser up n = ser up @ ToString_int64 (word_of_int n)"

definition Recv :: "keys \<Rightarrow> (LedgerUpgrade \<Rightarrow> cstring) \<Rightarrow> int \<Rightarrow> int \<Rightarrow> LedgerUpgradeNotify \<Rightarrow> upgrade_st \<Rightarrow> upgrade_st" where
  "Recv K ser self_chain now msg st =
     (let up = un_upgrade msg; sig = un_signature msg; raw_data = vote_data ser up (un_nonce msg) in
      if \<not> Verify K raw_data (sign_data sig) (public_key sig) then st
      else if up_chain_id up \<noteq> self_chain then st
      else
        let frm = \<lparr>recv_time = now, frm_address = Address_of K (public_key sig), frm_msg = msg\<rparr>
        in st\<lparr>current_states := om_assign (frm_address frm) frm (current_states st)\<rparr>)"

text \<open>\<^verbatim>\<open>OnTimer\<close>; the second component of the result is the message that is broadcast.\<close>

definition UPGRADE_EXPIRE :: int where "UPGRADE_EXPIRE = 300 * 1000000"
definition UPGRADE_SEND_INTERVAL :: int where "UPGRADE_SEND_INTERVAL = 30 * 1000000"

definition drop_expired :: "int \<Rightarrow> upgrade_st \<Rightarrow> upgrade_st" where
  "drop_expired current_time st =
     st\<lparr>current_states := filter (\<lambda>(a, frm). \<not> recv_time frm + UPGRADE_EXPIRE < current_time) (current_states st)\<rparr>"

definition OnTimer_upgrade ::
  "keys \<Rightarrow> (LedgerUpgrade \<Rightarrow> cstring) \<Rightarrow> int \<Rightarrow> bool \<Rightarrow> int \<Rightarrow> int \<Rightarrow> upgrade_st \<Rightarrow> upgrade_st \<times> LedgerUpgradeNotify option" where
  "OnTimer_upgrade K ser self_chain validating now current_time st0 =
     (let st = drop_expired current_time st0 in
      if current_time - last_send_time st > UPGRADE_SEND_INTERVAL \<and> new_ledger_version (local_state st) > 0 then
        let notify = \<lparr>un_nonce = current_time, un_upgrade = local_state st,
                      un_signature = SignData K (vote_data ser (local_state st) current_time)\<rparr>;
            st1 = st\<lparr>last_send_time := current_time\<rparr> in
        if validating then (Recv K ser self_chain now notify st1, Some notify) else (st1, None)
      else (st, None))"

text \<open>\<^verbatim>\<open>GetValid\<close>: the counters in one pass over the votes, then the first that reaches the quorum.\<close>

fun count_votes ::
  "(LedgerUpgrade \<Rightarrow> cstring) \<Rightarrow> cstring set \<Rightarrow> (cstring \<times> LedgerUpgradeFrm) list \<Rightarrow>
     (cstring \<times> LedgerUpgradeFrm \<times> nat) list \<Rightarrow> (cstring \<times> LedgerUpgradeFrm \<times> nat) list" where
  "count_votes ser validator_set [] counter = counter"
| "count_votes ser validator_set ((a, frm) # votes) counter =
     (let k = ser (un_upgrade (frm_msg frm));
          counter1 = om_insert k (frm, 0) counter;
          counter2 = (if frm_address frm \<in> validator_set then
                        (case map_of counter1 k of None \<Rightarrow> counter1 | Some (f, n) \<Rightarrow> om_assign k (f, n + 1) counter1)
                      else counter1)
      in count_votes ser validator_set votes counter2)"

definition GetValid :: "(LedgerUpgrade \<Rightarrow> cstring) \<Rightarrow> cstring list \<Rightarrow> nat \<Rightarrow> upgrade_st \<Rightarrow> LedgerUpgrade option" where
  "GetValid ser vset quorum st =
     (if current_states st = [] then None
      else map_option (\<lambda>(k, f, n). un_upgrade (frm_msg f))
             (find (\<lambda>(k, f, n). n \<ge> quorum) (count_votes ser (set vset) (current_states st) [])))"

definition ConfNewVersion :: "int \<Rightarrow> int \<Rightarrow> upgrade_st \<Rightarrow> upgrade_st" where
  "ConfNewVersion self_chain new_version st =
     st\<lparr>local_state := (local_state st)\<lparr>new_ledger_version := new_version, up_chain_id := self_chain\<rparr>\<rparr>"

definition GetLocalState :: "upgrade_st \<Rightarrow> LedgerUpgrade" where
  "GetLocalState st = local_state st"

definition LedgerHasUpgrade :: "upgrade_st \<Rightarrow> upgrade_st" where
  "LedgerHasUpgrade st = st\<lparr>local_state := empty_upgrade, current_states := []\<rparr>"

section \<open>Runs\<close>

text \<open>The steps of a node, with the times its clock shows; \<open>start\<close> is the time of the last sweep.\<close>

inductive upgrade_step ::
  "keys \<Rightarrow> (LedgerUpgrade \<Rightarrow> cstring) \<Rightarrow> int \<Rightarrow> upgrade_st \<times> int \<Rightarrow> upgrade_st \<times> int \<Rightarrow> bool"
  for K ser self_chain where
  recv: "t \<le> now \<Longrightarrow> upgrade_step K ser self_chain (st, t) (Recv K ser self_chain now msg st, t)"
| timer: "t \<le> now \<Longrightarrow> now \<le> now' \<Longrightarrow>
    upgrade_step K ser self_chain (st, t) (fst (OnTimer_upgrade K ser self_chain v now' now st), now)"
| conf: "upgrade_step K ser self_chain (st, t) (ConfNewVersion self_chain n st, t)"
| upgraded: "upgrade_step K ser self_chain (st, t) (LedgerHasUpgrade st, t)"

abbreviation upgrade_reachable :: "keys \<Rightarrow> (LedgerUpgrade \<Rightarrow> cstring) \<Rightarrow> int \<Rightarrow> upgrade_st \<times> int \<Rightarrow> bool" where
  "upgrade_reachable K ser self_chain \<equiv> (upgrade_step K ser self_chain)\<^sup>*\<^sup>* (new_upgrade_st, 0)"

text \<open>A vote that is kept: signed by the key of its address, for this chain, not older than the last sweep allows.\<close>

definition vote_ok :: "keys \<Rightarrow> (LedgerUpgrade \<Rightarrow> cstring) \<Rightarrow> int \<Rightarrow> int \<Rightarrow> cstring \<Rightarrow> LedgerUpgradeFrm \<Rightarrow> bool" where
  "vote_ok K ser self_chain t a frm \<longleftrightarrow>
     (let msg = frm_msg frm; sig = un_signature msg in
      frm_address frm = a \<and> Address_of K (public_key sig) = a \<and>
      Verify K (vote_data ser (un_upgrade msg) (un_nonce msg)) (sign_data sig) (public_key sig) \<and>
      up_chain_id (un_upgrade msg) = self_chain \<and> t \<le> recv_time frm + UPGRADE_EXPIRE)"

definition upgrade_inv :: "keys \<Rightarrow> (LedgerUpgrade \<Rightarrow> cstring) \<Rightarrow> int \<Rightarrow> upgrade_st \<times> int \<Rightarrow> bool" where
  "upgrade_inv K ser self_chain x \<longleftrightarrow>
     om_sorted (current_states (fst x)) \<and>
     (\<forall>(a, frm) \<in> set (current_states (fst x)). vote_ok K ser self_chain (snd x) a frm)"

lemma upgrade_inv_Recv:
  "upgrade_inv K ser c (st, t) \<Longrightarrow> t \<le> now \<Longrightarrow> upgrade_inv K ser c (Recv K ser c now msg st, t)"
  by (auto simp: upgrade_inv_def Recv_def Let_def om_simps set_om_assign vote_ok_def UPGRADE_EXPIRE_def)

lemma upgrade_inv_drop:
  "upgrade_inv K ser c (st, t) \<Longrightarrow> upgrade_inv K ser c (drop_expired now st, now)"
  by (auto simp: upgrade_inv_def drop_expired_def om_simps vote_ok_def Let_def)

lemma upgrade_inv_fields:
  "upgrade_inv K ser c (st\<lparr>last_send_time := n\<rparr>, t) = upgrade_inv K ser c (st, t)"
  "upgrade_inv K ser c (st\<lparr>local_state := up\<rparr>, t) = upgrade_inv K ser c (st, t)"
  "upgrade_inv K ser c (LedgerHasUpgrade st, t)"
  by (simp_all add: upgrade_inv_def LedgerHasUpgrade_def om_simps)

lemma upgrade_inv_timer:
  assumes "upgrade_inv K ser c (st, t)" and "now \<le> now'"
  shows "upgrade_inv K ser c (fst (OnTimer_upgrade K ser c v now' now st), now)"
  using upgrade_inv_drop [OF assms(1)] upgrade_inv_Recv [OF _ assms(2)]
  by (simp add: OnTimer_upgrade_def Let_def upgrade_inv_fields)

lemma upgrade_inv_step: "upgrade_step K ser c x y \<Longrightarrow> upgrade_inv K ser c x \<Longrightarrow> upgrade_inv K ser c y"
  by (induction rule: upgrade_step.induct)
     (simp_all add: upgrade_inv_Recv upgrade_inv_timer ConfNewVersion_def upgrade_inv_fields)

lemma upgrade_inv_reachable:
  assumes "upgrade_reachable K ser c x"
  shows "upgrade_inv K ser c x"
  using assms
proof (induction rule: rtranclp_induct)
  case base
  then show ?case by (simp add: upgrade_inv_def new_upgrade_st_def om_simps)
qed (rule upgrade_inv_step)

section \<open>The count\<close>

text \<open>The validators whose kept vote is for \<open>up\<close>.\<close>

definition voters :: "cstring list \<Rightarrow> LedgerUpgrade \<Rightarrow> upgrade_st \<Rightarrow> cstring set" where
  "voters vset up st =
     {a \<in> set vset. \<exists>frm. map_of (current_states st) a = Some frm \<and> un_upgrade (frm_msg frm) = up}"

lemma in_voters:
  "a \<in> voters vs up st \<longleftrightarrow> a \<in> set vs \<and> (\<exists>frm. map_of (current_states st) a = Some frm \<and> un_upgrade (frm_msg frm) = up)"
  by (simp add: voters_def)

lemma finite_voters [simp]: "finite (voters vs up st)"
  by (simp add: voters_def)

abbreviation votes_for :: "(LedgerUpgrade \<Rightarrow> cstring) \<Rightarrow> cstring set \<Rightarrow> cstring \<Rightarrow> (cstring \<times> LedgerUpgradeFrm) list \<Rightarrow> nat" where
  "votes_for ser vs k votes \<equiv>
     length (filter (\<lambda>(a, frm). frm_address frm \<in> vs \<and> ser (un_upgrade (frm_msg frm)) = k) votes)"

text \<open>What the counters hold after one pass: for each upgrade voted for, the number of its validators.\<close>

definition counts_ok ::
  "(LedgerUpgrade \<Rightarrow> cstring) \<Rightarrow> cstring set \<Rightarrow> (cstring \<times> LedgerUpgradeFrm) list \<Rightarrow> (cstring \<times> LedgerUpgradeFrm \<times> nat) list \<Rightarrow> bool" where
  "counts_ok ser vs votes counter \<longleftrightarrow> om_sorted counter \<and>
     (\<forall>a frm. (a, frm) \<in> set votes \<longrightarrow> map_of counter (ser (un_upgrade (frm_msg frm))) \<noteq> None) \<and>
     (\<forall>k f n. map_of counter k = Some (f, n) \<longrightarrow> ser (un_upgrade (frm_msg f)) = k \<and> n = votes_for ser vs k votes)"

lemma counts_okD:
  assumes "counts_ok ser vs votes counter"
  shows "om_sorted counter" and "(a, frm) \<in> set votes \<Longrightarrow> map_of counter (ser (un_upgrade (frm_msg frm))) \<noteq> None"
    and "map_of counter k = Some (f, n) \<Longrightarrow> ser (un_upgrade (frm_msg f)) = k \<and> n = votes_for ser vs k votes"
    and "map_of counter k = None \<Longrightarrow> votes_for ser vs k votes = 0"
proof -
  show "map_of counter k = None \<Longrightarrow> votes_for ser vs k votes = 0"
    using assms by (force simp: counts_ok_def filter_empty_conv)
qed (use assms in \<open>simp_all add: counts_ok_def\<close>)

lemma count_step:
  assumes "counts_ok ser vs votes counter" and k: "k = ser (un_upgrade (frm_msg frm))"
  shows "counts_ok ser vs (votes @ [(a, frm)])
    (let counter1 = om_insert k (frm, 0) counter in
     if frm_address frm \<in> vs then
       (case map_of counter1 k of None \<Rightarrow> counter1 | Some (f, n) \<Rightarrow> om_assign k (f, n + 1) counter1)
     else counter1)"
proof -
  note old = counts_okD(1-3) [OF assms(1)]
  show ?thesis
  proof (cases "map_of counter k")
    case None
    then show ?thesis
      unfolding counts_ok_def
      using old counts_okD(4) [OF assms(1) None] k [symmetric] by (auto simp: Let_def om_simps split: if_split_asm)
  next
    case (Some fn)
    then show ?thesis
      unfolding counts_ok_def using old k [symmetric] by (cases fn) (auto simp: Let_def om_simps split: if_split_asm)
  qed
qed

lemma count_votes_ok:
  "counts_ok ser vs seen counter \<Longrightarrow> counts_ok ser vs (seen @ votes) (count_votes ser vs votes counter)"
proof (induction votes arbitrary: seen counter)
  case (Cons v votes)
  obtain a frm where v: "v = (a, frm)" by (cases v)
  show ?case using Cons.IH [OF count_step [where frm = frm and a = a, OF Cons.prems refl]] by (simp add: v Let_def)
qed simp

lemma counts: "counts_ok ser vs votes (count_votes ser vs votes [])"
  using count_votes_ok [of ser vs "[]" "[]" votes] by (simp add: counts_ok_def om_simps)

lemma votes_voters:
  assumes "upgrade_inv K ser c (st, t)" and "inj ser"
  shows "votes_for ser (set vs) (ser up) (current_states st) = card (voters vs up st)"
proof -
  let ?good = "filter (\<lambda>(a, frm). frm_address frm \<in> set vs \<and> ser (un_upgrade (frm_msg frm)) = ser up) (current_states st)"
  have sorted: "om_sorted (current_states st)" using assms(1) by (simp add: upgrade_inv_def)
  have addr: "frm_address frm = a" if "(a, frm) \<in> set (current_states st)" for a frm
    using assms(1) that by (auto simp: upgrade_inv_def vote_ok_def Let_def)
  have "voters vs up st = fst ` set ?good"
  proof
    show "voters vs up st \<subseteq> fst ` set ?good"
      using addr by (force simp: voters_def dest: map_of_SomeD)
    show "fst ` set ?good \<subseteq> voters vs up st"
      using addr map_of_SomeI [OF sorted] inj_eq [OF assms(2)] by (force simp: voters_def)
  qed
  moreover have "distinct (map fst ?good)" using om_sorted_distinct [OF om_sorted_filter [OF sorted]] .
  ultimately show ?thesis using distinct_card [of "map fst ?good"] by simp
qed

section \<open>A quorum is needed, and suffices\<close>

lemma voters_disjoint: "up \<noteq> up' \<Longrightarrow> voters vs up st \<inter> voters vs up' st = {}"
  unfolding disjoint_iff by (simp add: in_voters) force

lemma voters_unique:
  assumes "quorum \<le> card (voters vs up st)" and "quorum \<le> card (voters vs up' st)" and "length vs < 2 * quorum"
  shows "up = up'"
proof (rule ccontr)
  assume "up \<noteq> up'"
  then have "card (voters vs up st) + card (voters vs up' st) = card (voters vs up st \<union> voters vs up' st)"
    by (simp add: card_Un_disjoint voters_disjoint)
  also have "\<dots> \<le> card (set vs)" by (rule card_mono) (auto simp: in_voters)
  also have "\<dots> \<le> length vs" by (rule card_length)
  finally show False using assms by simp
qed

text \<open>
  Claim C8. An upgrade is proposed exactly when a quorum of validators wants it. In every run of
  a node, for a quorum of more than half of the validators, \<^verbatim>\<open>GetValid\<close> returns an upgrade exactly
  when at least that many validators have their last vote for it; each of these votes is signed by
  the validator, is for this chain, and was received no more than 300 seconds before the last sweep.
\<close>

theorem upgrade_needs_quorum:
  assumes "upgrade_reachable K ser self_chain (st, t)" and "inj ser" and "length vs < 2 * quorum"
  shows "(GetValid ser vs quorum st = Some up \<longleftrightarrow> quorum \<le> card (voters vs up st)) \<and>
    (\<forall>a \<in> voters vs up st. \<exists>frm. map_of (current_states st) a = Some frm \<and> vote_ok K ser self_chain t a frm)"
proof
  let ?c = "count_votes ser (set vs) (current_states st) []"
  have inv: "upgrade_inv K ser self_chain (st, t)" using upgrade_inv_reachable [OF assms(1)] .
  have ok: "counts_ok ser (set vs) (current_states st) ?c" by (rule counts)
  have sorted: "om_sorted ?c" using ok by (simp add: counts_ok_def)
  have entry: "ser (un_upgrade (frm_msg f)) = k \<and> n = card (voters vs (un_upgrade (frm_msg f)) st)" if "(k, f, n) \<in> set ?c" for k f n
    using counts_okD(3) [OF ok map_of_SomeI [OF sorted that]] votes_voters [OF inv assms(2), of vs "un_upgrade (frm_msg f)"] by auto
  have sound: "quorum \<le> card (voters vs u st)" if got: "GetValid ser vs quorum st = Some u" for u
  proof -
    obtain k f n where found: "find (\<lambda>(k, f, n). n \<ge> quorum) ?c = Some (k, f, n)" and u: "u = un_upgrade (frm_msg f)"
      using got by (auto simp: GetValid_def split: if_split_asm)
    have "(k, f, n) \<in> set ?c" "n \<ge> quorum" using found unfolding find_Some_iff by (metis case_prod_conv nth_mem)+
    then show ?thesis using entry u by blast
  qed
  show "GetValid ser vs quorum st = Some up \<longleftrightarrow> quorum \<le> card (voters vs up st)"
  proof
    assume enough: "quorum \<le> card (voters vs up st)"
    then have "voters vs up st \<noteq> {}" using assms(3) by (cases "voters vs up st = {}") auto
    then obtain a frm where vote: "(a, frm) \<in> set (current_states st)" "un_upgrade (frm_msg frm) = up"
      by (auto simp: voters_def dest: map_of_SomeD)
    then obtain f n where fn: "map_of ?c (ser up) = Some (f, n)"
      using counts_okD(2) [OF ok vote(1)] by auto
    then have "n = card (voters vs up st)" using entry [OF map_of_SomeD [OF fn]] assms(2) by (metis injD)
    then have "find (\<lambda>(k, f, n). n \<ge> quorum) ?c \<noteq> None"
      using map_of_SomeD [OF fn] enough unfolding find_None_iff by (metis case_prod_conv)
    then have "GetValid ser vs quorum st \<noteq> None" using vote(1) by (auto simp: GetValid_def)
    then obtain u where "GetValid ser vs quorum st = Some u" by blast
    then show "GetValid ser vs quorum st = Some up" using voters_unique [OF sound enough assms(3)] by simp
  qed (rule sound)
  show "\<forall>a \<in> voters vs up st. \<exists>frm. map_of (current_states st) a = Some frm \<and> vote_ok K ser self_chain t a frm"
    using inv by (force simp: voters_def upgrade_inv_def dest: map_of_SomeD)
qed

section \<open>Two validators\<close>

text \<open>An injective encoding, and two validators that vote for version 1003.\<close>

definition demo_enc :: "int \<Rightarrow> cstring" where
  "demo_enc n = (if n < 0 then 1 else 2) # replicate (nat \<bar>n\<bar>) 1 @ [0]"

definition demo_ser :: "LedgerUpgrade \<Rightarrow> cstring" where
  "demo_ser up = demo_enc (new_ledger_version up) @ demo_enc (up_chain_id up) @ new_validator up"

lemma replicate_append_inject:
  "a \<noteq> b \<Longrightarrow> replicate m a @ b # xs = replicate n a @ b # ys \<Longrightarrow> m = n \<and> xs = ys"
proof (induction m arbitrary: n)
  case 0
  then show ?case by (cases n) auto
next
  case (Suc m)
  then show ?case by (cases n) auto
qed

lemma demo_enc_inject:
  assumes "demo_enc m @ xs = demo_enc n @ ys"
  shows "m = n \<and> xs = ys"
proof -
  have "(m < 0 \<longleftrightarrow> n < 0) \<and> replicate (nat \<bar>m\<bar>) 1 @ 0 # xs = replicate (nat \<bar>n\<bar>) (1 :: byte) @ 0 # ys"
    using assms by (auto simp: demo_enc_def split: if_splits)
  then show ?thesis using replicate_append_inject [of "1 :: byte" 0 "nat \<bar>m\<bar>" xs "nat \<bar>n\<bar>" ys] by auto
qed

lemma demo_ser_inj: "inj demo_ser"
proof (rule injI)
  fix up up' :: LedgerUpgrade
  assume "demo_ser up = demo_ser up'"
  then show "up = up'" unfolding demo_ser_def by (auto dest!: demo_enc_inject)
qed

definition demo_upgrade :: LedgerUpgrade where
  "demo_upgrade = \<lparr>new_ledger_version = 1003, new_validator = [], up_chain_id = 0\<rparr>"

definition demo_vote :: "cstring \<Rightarrow> LedgerUpgradeNotify" where
  "demo_vote k = \<lparr>un_nonce = 1, un_upgrade = demo_upgrade, un_signature = \<lparr>public_key = k, sign_data = []\<rparr>\<rparr>"

definition demo_ring :: keys where
  "demo_ring = \<lparr>GetEncPublicKey = [3], GetEncAddress = [3], Sign = id, Address_of = id, Verify = (\<lambda>_ sig _. sig = []), Crypto = id\<rparr>"

abbreviation demo_voted :: upgrade_st where
  "demo_voted \<equiv> Recv demo_ring demo_ser 0 6 (demo_vote [4]) (Recv demo_ring demo_ser 0 5 (demo_vote [3]) new_upgrade_st)"

theorem upgrade_needs_quorum_witness:
  "GetValid demo_ser [[3], [4]] 2 demo_voted = Some demo_upgrade"
proof -
  have "upgrade_step demo_ring demo_ser 0 (new_upgrade_st, 0) (Recv demo_ring demo_ser 0 5 (demo_vote [3]) new_upgrade_st, 0)"
    by (rule upgrade_step.recv) simp
  moreover have "upgrade_step demo_ring demo_ser 0 (Recv demo_ring demo_ser 0 5 (demo_vote [3]) new_upgrade_st, 0) (demo_voted, 0)"
    by (rule upgrade_step.recv) simp
  ultimately have run: "upgrade_reachable demo_ring demo_ser 0 (demo_voted, 0)" by (meson converse_rtranclp_into_rtranclp r_into_rtranclp)
  have "voters [[3], [4]] demo_upgrade demo_voted = {[3], [4]}"
    by (auto simp: voters_def Recv_def Let_def demo_ring_def demo_vote_def demo_upgrade_def new_upgrade_st_def om_simps)
  then have "2 \<le> card (voters [[3], [4]] demo_upgrade demo_voted)" by simp
  then show ?thesis
    using upgrade_needs_quorum [OF run demo_ser_inj, of "[[3], [4]]" 2 demo_upgrade] by simp
qed

end
