(* ===== verification/Ledger_Context.thy ===== *)
theory Ledger_Context
  imports Ledger_Frm Ledger_Upgrade
begin

text \<open>
  The contexts in which consensus values are executed, \<^verbatim>\<open>LedgerContext\<close> and \<^verbatim>\<open>LedgerContextManager\<close>
  (src/src/ledger/ledgercontext_manager.h, ledgercontext_manager.cpp): a value is executed in a
  thread, a successful execution is kept under the hash of the value and taken over when the same
  value is checked or closed.

  A consensus value has, beside the fields the application reads, those that tie it to the chain.
  The thread of one execution is a record \<open>attempt\<close>: whether it could be started, whether it ended
  before the waiting node gave up, how many transactions it had applied by then, and the contracts
  and clock readings of the run. A cancelled thread is waited for, so it comes to its end too: when
  the run does not end, the caller does not either (\<open>None\<close>). A context is named by a number, its
  address in the program. The tests of contracts and transactions over the same class are left out.
\<close>

record FullValue = ConsensusValue +
  previous_ledger_hash :: cstring
  previous_proof :: cstring
  ledger_upgrade :: "LedgerUpgrade option"

record LedgerHeader =
  lh_seq :: int
  lh_hash :: cstring
  lh_previous_hash :: cstring
  lh_close_time :: int
  lh_version :: int
  lh_consensus_value_hash :: cstring
  lh_chain_id :: int
  lh_account_tree_hash :: cstring
  lh_tx_count :: int
  lh_validators_hash :: cstring
  lh_fees_hash :: cstring
  lh_reserve :: cstring

definition empty_header :: LedgerHeader where
  "empty_header = \<lparr>lh_seq = 0, lh_hash = [], lh_previous_hash = [], lh_close_time = 0, lh_version = 0,
     lh_consensus_value_hash = [], lh_chain_id = 0, lh_account_tree_hash = [], lh_tx_count = 0, lh_validators_hash = [],
     lh_fees_hash = [], lh_reserve = []\<rparr>"

record ProposeTxsResult =
  block_timeout :: bool
  exec_result :: bool
  tx_execute_count :: int
  cons_validation :: ConsensusValueValidation
  need_dropped_tx :: "int set"

definition new_ProposeTxsResult :: ProposeTxsResult where
  "new_ProposeTxsResult = \<lparr>block_timeout = False, exec_result = False, tx_execute_count = 0,
     cons_validation = \<lparr>expire_tx_ids = [], error_tx_ids = []\<rparr>, need_dropped_tx = {}\<rparr>"

datatype APPLY_MODE = APPLY_MODE_PROPOSE | APPLY_MODE_CHECK | APPLY_MODE_FOLLOW

record LedgerContext =
  lc_id :: nat
  lc_hash :: cstring
  lc_value :: FullValue
  lc_start_time :: int
  lc_mode :: APPLY_MODE
  lc_result :: ProposeTxsResult
  lc_header :: LedgerHeader
  lc_ledger :: ledger_st

record attempt =
  started :: bool
  waited_out :: bool
  executed :: nat
  run_exec :: executor
  run_clock :: "nat \<Rightarrow> tx_times"
  run_start :: int
  run_end :: int

record context_st =
  running_ctxs :: "(cstring \<times> LedgerContext) list"
  completed_ctxs :: "(cstring \<times> LedgerContext) list"
  delete_ctxs :: "(int \<times> LedgerContext) list"
  next_ctx :: nat

definition new_context_st :: context_st where
  "new_context_st = \<lparr>running_ctxs = [], completed_ctxs = [], delete_ctxs = [], next_ctx = 0\<rparr>"

text \<open>What the execution reads from the node, and the encoding of values.\<close>

record chain =
  ch_cfg :: ledger_cfg
  ch_db :: ledger_db
  ser_value :: "FullValue \<Rightarrow> cstring"
  parse_value :: "cstring \<Rightarrow> FullValue option"
  value_size :: "FullValue \<Rightarrow> int"
  crypto :: "cstring \<Rightarrow> cstring"

definition value_hash :: "chain \<Rightarrow> FullValue \<Rightarrow> cstring" where
  "value_hash N v = crypto N (ser_value N v)"

section \<open>One execution\<close>

definition new_LedgerContext :: "chain \<Rightarrow> nat \<Rightarrow> FullValue \<Rightarrow> APPLY_MODE \<Rightarrow> LedgerContext" where
  "new_LedgerContext N i v mode =
     \<lparr>lc_id = i, lc_hash = value_hash N v, lc_value = v, lc_start_time = -1, lc_mode = mode, lc_result = new_ProposeTxsResult,
      lc_header = empty_header, lc_ledger = new_ledger_st (ConsensusValue.truncate v)\<rparr>"

definition begin_header :: "chain \<Rightarrow> FullValue \<Rightarrow> cstring \<Rightarrow> LedgerHeader \<Rightarrow> LedgerHeader" where
  "begin_header N v h hdr =
     hdr\<lparr>lh_seq := ledger_seq v, lh_close_time := close_time v, lh_previous_hash := previous_ledger_hash v,
        lh_consensus_value_hash := h, lh_chain_id := ledger_cfg.self_chain_id (ch_cfg N), lh_version := version (ch_cfg N)\<rparr>"

definition Do :: "chain \<Rightarrow> attempt \<Rightarrow> LedgerContext \<Rightarrow> LedgerContext option" where
  "Do N a c =
     (let v = ConsensusValue.truncate (lc_value c); C = ch_cfg N; D = ch_db N;
          c1 = c\<lparr>lc_header := begin_header N (lc_value c) (lc_hash c) (lc_header c)\<rparr>; r = lc_result c in
      case lc_mode c of
        APPLY_MODE_PROPOSE \<Rightarrow>
          map_option (\<lambda>((ok, val, dropped), st).
              c1\<lparr>lc_result := r\<lparr>exec_result := ok, cons_validation := val, need_dropped_tx := dropped\<rparr>, lc_ledger := st\<rparr>)
            (ApplyPropose C D (run_exec a) False (run_clock a) (run_start a) v)
      | APPLY_MODE_CHECK \<Rightarrow>
          map_option (\<lambda>(ok, st). c1\<lparr>lc_result := r\<lparr>exec_result := ok\<rparr>, lc_ledger := st\<rparr>)
            (ApplyCheck C D (run_exec a) False (run_clock a) (run_start a) v)
      | APPLY_MODE_FOLLOW \<Rightarrow>
          map_option (\<lambda>(ok, st). c1\<lparr>lc_result := r\<lparr>exec_result := ok\<rparr>, lc_ledger := st\<rparr>)
            (ApplyFollow C D (run_exec a) v))"

section \<open>The manager\<close>

definition CheckComplete :: "cstring \<Rightarrow> context_st \<Rightarrow> int" where
  "CheckComplete chash m =
     (case map_of (completed_ctxs m) chash of
        None \<Rightarrow> -1
      | Some c \<Rightarrow> if exec_result (lc_result c) then 1 else 0)"

definition drop_running :: "LedgerContext \<Rightarrow> context_st \<Rightarrow> context_st" where
  "drop_running c m = m\<lparr>running_ctxs := filter (\<lambda>(k, d). lc_id d \<noteq> lc_id c) (running_ctxs m)\<rparr>"

definition MoveRunningToComplete :: "LedgerContext \<Rightarrow> context_st \<Rightarrow> context_st" where
  "MoveRunningToComplete c m =
     (let m1 = drop_running c m in m1\<lparr>completed_ctxs := om_insert (lc_hash c) c (completed_ctxs m1)\<rparr>)"

text \<open>The multimap of contexts to delete, by the time from which on they may be deleted.\<close>

definition MoveRunningToDelete :: "int \<Rightarrow> LedgerContext \<Rightarrow> context_st \<Rightarrow> context_st" where
  "MoveRunningToDelete now c m =
     (let m1 = drop_running c m; t = now + 5 * 1000000 in
      m1\<lparr>delete_ctxs := takeWhile (\<lambda>(k, d). k \<le> t) (delete_ctxs m1) @ [(t, c)] @ dropWhile (\<lambda>(k, d). k \<le> t) (delete_ctxs m1)\<rparr>)"

text \<open>\<^verbatim>\<open>Run\<close> of a context of the manager: the execution and where the context goes after it.\<close>

definition Run :: "chain \<Rightarrow> attempt \<Rightarrow> LedgerContext \<Rightarrow> context_st \<Rightarrow> (LedgerContext \<times> context_st) option" where
  "Run N a c m =
     map_option (\<lambda>c1. (c1, if exec_result (lc_result c1) then MoveRunningToComplete c1 m else MoveRunningToDelete (run_end a) c1 m))
       (Do N a (c\<lparr>lc_start_time := run_start a\<rparr>))"

definition SyncPreProcess ::
  "chain \<Rightarrow> FullValue \<Rightarrow> bool \<Rightarrow> attempt \<Rightarrow> ProposeTxsResult \<Rightarrow> context_st \<Rightarrow> ((bool \<times> ProposeTxsResult) \<times> context_st) option" where
  "SyncPreProcess N v propose a res m =
     (let chash = value_hash N v; check_complete = CheckComplete chash m;
          c = new_LedgerContext N (next_ctx m) v (if propose then APPLY_MODE_PROPOSE else APPLY_MODE_CHECK);
          m1 = m\<lparr>next_ctx := Suc (next_ctx m)\<rparr> in
      if check_complete > 0 then Some ((check_complete = 1, res), m)
      else if \<not> started a then Some ((False, res\<lparr>block_timeout := True\<rparr>), m1)
      else
        case Run N a c m1 of
          None \<Rightarrow> None
        | Some (c1, m2) \<Rightarrow>
            if waited_out a
            then Some ((False, res\<lparr>block_timeout := True, tx_execute_count := int (executed a)\<rparr>), m2)
            else Some ((exec_result (lc_result c1), lc_result c1), m2))"

text \<open>\<^verbatim>\<open>SyncProcess\<close>: the context whose ledger is closed, or none when the value cannot be applied.\<close>

definition SyncProcess :: "chain \<Rightarrow> FullValue \<Rightarrow> attempt \<Rightarrow> context_st \<Rightarrow> LedgerContext option option" where
  "SyncProcess N v a m =
     (case map_of (completed_ctxs m) (value_hash N v) of
        Some c \<Rightarrow> Some (Some c)
      | None \<Rightarrow>
          map_option (\<lambda>c. if exec_result (lc_result c) then Some c else None)
            (Do N a (new_LedgerContext N (next_ctx m) v APPLY_MODE_FOLLOW)))"

definition RemoveCompleted :: "int \<Rightarrow> context_st \<Rightarrow> context_st" where
  "RemoveCompleted seq m =
     m\<lparr>completed_ctxs := filter (\<lambda>(h, c). \<not> ledger_seq (lc_value c) \<le> seq) (completed_ctxs m)\<rparr>"

definition CheckExpire :: "int \<Rightarrow> int \<Rightarrow> LedgerContext \<Rightarrow> bool" where
  "CheckExpire now total_timeout c \<longleftrightarrow> now - lc_start_time c \<ge> total_timeout"

definition OnTimer_contexts :: "int \<Rightarrow> int \<Rightarrow> context_st \<Rightarrow> context_st" where
  "OnTimer_contexts now current_time m =
     m\<lparr>running_ctxs := filter (\<lambda>(h, c). \<not> CheckExpire now (5 * 1000000) c) (running_ctxs m),
       delete_ctxs := filter (\<lambda>(t, c). \<not> current_time > t) (delete_ctxs m)\<rparr>"

section \<open>What is kept\<close>

text \<open>A kept context holds a successful execution of its value in a proposing or a checking run.\<close>

definition ctx_ok :: "chain \<Rightarrow> LedgerContext \<Rightarrow> bool" where
  "ctx_ok N c \<longleftrightarrow> lc_hash c = value_hash N (lc_value c) \<and> exec_result (lc_result c) \<and> lc_mode c \<noteq> APPLY_MODE_FOLLOW \<and>
     (\<exists>a i. Do N a (new_LedgerContext N i (lc_value c) (lc_mode c)\<lparr>lc_start_time := run_start a\<rparr>) = Some c)"

definition ctxs_ok :: "chain \<Rightarrow> context_st \<Rightarrow> bool" where
  "ctxs_ok N m \<longleftrightarrow> om_sorted (completed_ctxs m) \<and> (\<forall>(h, c) \<in> set (completed_ctxs m). lc_hash c = h \<and> ctx_ok N c)"

lemma ctxs_ok_new: "ctxs_ok N new_context_st"
  by (simp add: ctxs_ok_def new_context_st_def om_simps)

lemma ctxs_ok_remove: "ctxs_ok N m \<Longrightarrow> ctxs_ok N (RemoveCompleted seq m)"
  by (auto simp: ctxs_ok_def RemoveCompleted_def om_simps)

lemma ctxs_ok_timer: "ctxs_ok N (OnTimer_contexts now t m) = ctxs_ok N m"
  by (simp add: ctxs_ok_def OnTimer_contexts_def)

lemma Do_fields:
  assumes "Do N a c = Some c1"
  shows "lc_hash c1 = lc_hash c" and "lc_value c1 = lc_value c" and "lc_mode c1 = lc_mode c"
  using assms by (auto simp: Do_def Let_def split: APPLY_MODE.splits)

lemma ctxs_ok_preprocess:
  assumes "SyncPreProcess N v propose a res m = Some (r, m')" and "ctxs_ok N m"
  shows "ctxs_ok N m'"
proof -
  let ?c = "new_LedgerContext N (next_ctx m) v (if propose then APPLY_MODE_PROPOSE else APPLY_MODE_CHECK)\<lparr>lc_start_time := run_start a\<rparr>"
  have same: "ctxs_ok N (m\<lparr>next_ctx := n\<rparr>)" "ctxs_ok N (MoveRunningToDelete t c (m\<lparr>next_ctx := n\<rparr>))" for n t c
    using assms(2) by (simp_all add: ctxs_ok_def MoveRunningToDelete_def drop_running_def Let_def)
  have "ctxs_ok N (MoveRunningToComplete c1 (m\<lparr>next_ctx := n\<rparr>))" if "Do N a ?c = Some c1" "exec_result (lc_result c1)" for c1 n
  proof -
    have "ctx_ok N c1"
      unfolding ctx_ok_def using that Do_fields [OF that(1)]
      by (auto simp: new_LedgerContext_def intro!: exI [of _ a] exI [of _ "next_ctx m"])
    then show ?thesis
      using assms(2) by (auto simp: ctxs_ok_def MoveRunningToComplete_def drop_running_def Let_def om_simps set_om_insert)
  qed
  then show ?thesis
    using assms same by (auto simp: SyncPreProcess_def Let_def Run_def split: if_splits option.splits)
qed

end
