(* ===== verification/Glue.thy ===== *)
theory Glue
  imports Ledger_Propose Ledger_Context Pbft Tx_Queue_Thms
begin

text \<open>
  The glue between consensus, transaction queue and ledger, \<^verbatim>\<open>GlueManager\<close>
  (src/src/glue/glue_manager.h, glue_manager.cpp): the leader makes a proposal from the queue, every
  node checks proposed and synchronized values against its last closed ledger, transactions are
  admitted to the queue.

  A \<open>node\<close> is what the glue reads: the configuration, the last closed ledger, the validators of a
  stored ledger, the proof of the last value, keys and encodings. The state \<open>glue_st\<close> holds the
  queue, the votes for an upgrade and the execution contexts; the consensus object is the state of
  theory Pbft. The queue of theory Tx_Queue keeps of a transaction what it reads; \<open>pool_envs\<close> leads
  from the content hash to the whole, as the pointers in the queue do.

  The executions that a proposal tries are the sequence \<open>atts\<close>. The loop that shortens a proposal
  after a time-out is a \<open>partial_function\<close>: it may run on.
\<close>

record node =
  n_chain :: chain
  n_keys :: keys
  n_codec :: codec
  lcl :: LedgerHeader
  validators_of :: "int \<Rightarrow> cstring list option"
  last_proof :: cstring
  close_interval :: int
  max_trans_per_ledger :: nat
  hardfork_points :: "cstring set"
  ser_upgrade :: "LedgerUpgrade \<Rightarrow> cstring"
  set_size :: "tx list \<Rightarrow> int"

record glue_st =
  tx_pool :: txq
  pool_envs :: "cstring \<rightharpoonup> TransactionEnv"
  upgrades :: upgrade_st
  contexts :: context_st
  time_start_consensus :: int
  close_timer :: int

definition LEDGER_VERSION :: int where "LEDGER_VERSION = 1003"
definition BYTES_PER_MEGA :: int where "BYTES_PER_MEGA = 1024 * 1024"
definition MAX_LEDGER_TIMESPAN_SECONDS :: int where "MAX_LEDGER_TIMESPAN_SECONDS = 20 * 1000000"

text \<open>\<open>close_timer\<close> is the time at which the timer for the next ledger fires.\<close>

definition StartLedgerCloseTimer :: "int \<Rightarrow> glue_st \<Rightarrow> glue_st" where
  "StartLedgerCloseTimer now g = g\<lparr>close_timer := now + (MAX_LEDGER_TIMESPAN_SECONDS + 10 * 1000000)\<rparr>"

definition Initialize_glue :: "nat \<Rightarrow> nat \<Rightarrow> int \<Rightarrow> int \<Rightarrow> LedgerHeader \<Rightarrow> glue_st" where
  "Initialize_glue limit account_limit self_chain now header =
     StartLedgerCloseTimer now
       \<lparr>tx_pool = TransactionQueue limit account_limit, pool_envs = Map.empty,
        upgrades = (if lh_version header < LEDGER_VERSION then ConfNewVersion self_chain LEDGER_VERSION new_upgrade_st else new_upgrade_st),
        contexts = new_context_st, time_start_consensus = 0, close_timer = 0\<rparr>"

definition init_hardfork_points :: "cstring list \<Rightarrow> cstring set" where
  "init_hardfork_points conf = set (map (\<lambda>h. HexStringToBin h False) conf)"

section \<open>Checking a value\<close>

definition upgrade_acceptable :: "node \<Rightarrow> FullValue \<Rightarrow> LedgerUpgrade \<Rightarrow> bool" where
  "upgrade_acceptable N v up \<longleftrightarrow>
     \<not> (new_ledger_version up \<noteq> 0 \<and>
          (lh_version (lcl N) \<ge> new_ledger_version up \<or> new_ledger_version up > LEDGER_VERSION)) \<and>
     \<not> (value_hash (n_chain N) v \<notin> hardfork_points N \<and> new_validator up \<noteq> [])"

definition CheckValueHelper :: "node \<Rightarrow> FullValue \<Rightarrow> int \<Rightarrow> CheckValueResult" where
  "CheckValueHelper N v now =
     (let l = lcl N in
      if value_size (n_chain N) v \<ge> TXSET_LIMIT_SIZE + 2 * BYTES_PER_MEGA then CHECK_VALUE_MAYVALID
      else if ledger_seq v \<noteq> lh_seq l + 1 then CHECK_VALUE_MAYVALID
      else if previous_ledger_hash v \<noteq> lh_hash l then CHECK_VALUE_MAYVALID
      else if now \<noteq> -1 \<and> \<not> (now > close_time v - 1000000 \<and> close_time v \<ge> lh_close_time l + close_interval N)
      then CHECK_VALUE_MAYVALID
      else if (case ledger_upgrade v of None \<Rightarrow> False | Some up \<Rightarrow> \<not> upgrade_acceptable N v up) then CHECK_VALUE_MAYVALID
      else if lh_seq l = 1 \<and> previous_proof v \<noteq> [] then CHECK_VALUE_MAYVALID
      else if lh_seq l > 1 \<and>
        (case validators_of N (ledger_seq v - 2) of
           None \<Rightarrow> True
         | Some vs \<Rightarrow> lh_consensus_value_hash l \<notin> hardfork_points N \<and>
             \<not> CheckProof (n_keys N) (n_codec N) vs (lh_consensus_value_hash l) (previous_proof v))
      then CHECK_VALUE_MAYVALID
      else CHECK_VALUE_VALID)"

definition CheckValueAndProof :: "node \<Rightarrow> cstring \<Rightarrow> cstring \<Rightarrow> bool" where
  "CheckValueAndProof N consensus_value proof =
     (case parse_value (n_chain N) consensus_value of
        None \<Rightarrow> False
      | Some v \<Rightarrow>
          (case validators_of N (ledger_seq v - 1) of
             None \<Rightarrow> False
           | Some vs \<Rightarrow>
               CheckValueHelper N v (-1) = CHECK_VALUE_VALID \<and>
               (CheckProof (n_keys N) (n_codec N) vs (crypto (n_chain N) consensus_value) proof \<or>
                crypto (n_chain N) consensus_value \<in> hardfork_points N)))"

definition CheckValue :: "node \<Rightarrow> int \<Rightarrow> attempt \<Rightarrow> cstring \<Rightarrow> context_st \<Rightarrow> (CheckValueResult \<times> context_st) option" where
  "CheckValue N now a value m =
     (case parse_value (n_chain N) value of
        None \<Rightarrow> Some (CHECK_VALUE_MAYVALID, m)
      | Some v \<Rightarrow>
          (let check_helper_ret = CheckValueHelper N v now in
           if check_helper_ret \<noteq> CHECK_VALUE_VALID then Some (check_helper_ret, m)
           else map_option (\<lambda>((ok, _), m1). (if ok then CHECK_VALUE_VALID else CHECK_VALUE_MAYVALID, m1))
                  (SyncPreProcess (n_chain N) v False a new_ProposeTxsResult m)))"

section \<open>Making a proposal\<close>

text \<open>
  \<^verbatim>\<open>int64_t(total_tx_count * 0.7 + 0.5)\<close>: the constant 0.7 is \<open>6305039478318694 / 2 ^ 53\<close>, product and
  sum are rounded to 53 bits.
\<close>

definition next_tx_size :: "int \<Rightarrow> int" where
  "next_tx_size n = round53 (round53 (n * 6305039478318694) + 2 ^ 52) div 2 ^ 53"

definition next_close_time :: "node \<Rightarrow> int \<Rightarrow> int" where
  "next_close_time N now =
     (if now < lh_close_time (lcl N) + close_interval N then lh_close_time (lcl N) + close_interval N else now)"

text \<open>The upgrade that a proposal carries; the vector of validators may be written past its end (\<open>None\<close>).\<close>

definition proposed_upgrade :: "node \<Rightarrow> upgrade_st \<Rightarrow> PbftState \<Rightarrow> LedgerUpgrade option option" where
  "proposed_upgrade N ups P =
     map_option (\<lambda>(vset, qsize).
         case GetValid (ser_upgrade N) vset (qsize + 1) ups of
           None \<Rightarrow> None
         | Some up \<Rightarrow>
             if lh_version (lcl N) < new_ledger_version up \<and> new_ledger_version up \<le> LEDGER_VERSION then Some up else None)
       (GetValidation quorum_size P)"

definition propose_value :: "node \<Rightarrow> int \<Rightarrow> LedgerUpgrade option \<Rightarrow> TransactionEnv list \<Rightarrow> FullValue" where
  "propose_value N ctime up txset_raw =
     \<lparr>txs = txset_raw, close_time = ctime, ledger_seq = lh_seq (lcl N) + 1, validation = None,
      previous_ledger_hash = lh_hash (lcl N), previous_proof = last_proof N, ledger_upgrade = up\<rparr>"

definition total_tx_count :: "ProposeTxsResult \<Rightarrow> TransactionEnv list \<Rightarrow> int" where
  "total_tx_count res txset_raw =
     (if tx_execute_count res = 0 then int (length txset_raw) else min (tx_execute_count res) (int (length txset_raw)))"

partial_function (option) try_loop ::
  "node \<Rightarrow> int \<Rightarrow> upgrade_st \<Rightarrow> PbftState \<Rightarrow> (nat \<Rightarrow> attempt) \<Rightarrow> TransactionEnv list \<Rightarrow> context_st \<Rightarrow>
     ((FullValue \<times> ProposeTxsResult) \<times> context_st) option" where
  "try_loop N ctime ups P atts txset_raw m =
     (case proposed_upgrade N ups P of
        None \<Rightarrow> None
      | Some up \<Rightarrow>
          (case SyncPreProcess (n_chain N) (propose_value N ctime up txset_raw) True (atts 0) new_ProposeTxsResult m of
             None \<Rightarrow> None
           | Some ((_, res), m1) \<Rightarrow>
               if block_timeout res
               then try_loop N ctime ups P (\<lambda>k. atts (Suc k)) (take (nat (next_tx_size (total_tx_count res txset_raw))) txset_raw) m1
               else Some ((propose_value N ctime up txset_raw, res), m1)))"

text \<open>The object behind a pointer of the queue, and what the queue keeps of a transaction.\<close>

definition env_of :: "glue_st \<Rightarrow> tx \<Rightarrow> TransactionEnv" where
  "env_of g t = (case pool_envs g (content_hash t) of None \<Rightarrow> tf_env empty_tx_frm | Some env \<Rightarrow> env)"

definition tx_of :: "node \<Rightarrow> int \<Rightarrow> TransactionEnv \<Rightarrow> tx" where
  "tx_of N now env =
     (let C = ch_cfg (n_chain N); tran = transaction env in
      \<lparr>source_address = tx_source_address tran, nonce = tx_nonce tran, gas_price = Transaction.gas_price tran,
       content_hash = tx_hash C (ser_tx C tran), incoming_time = now, byte_size = ByteSize C env\<rparr>)"

text \<open>The value after the run: without the dropped transactions, which leave the queue, and with its validation.\<close>

definition finish_proposal :: "node \<Rightarrow> FullValue \<Rightarrow> ProposeTxsResult \<Rightarrow> glue_st \<Rightarrow> FullValue \<times> glue_st" where
  "finish_proposal N v res g =
     (let dropped = need_dropped_tx res;
          (v1, g1) = (if dropped \<noteq> {} then
              (v\<lparr>txs := keep_txs dropped 0 (txs v)\<rparr>,
               g\<lparr>tx_pool := snd (RemoveTxs (map (tx_of N 0) (drop_txs dropped 0 (txs v))) False (tx_pool g))\<rparr>)
            else (v, g))
      in (v1\<lparr>validation := proposed_validation (cons_validation res)\<rparr>, g1))"

definition StartConsensus ::
  "node \<Rightarrow> cstring \<Rightarrow> int \<Rightarrow> (nat \<Rightarrow> attempt) \<Rightarrow> glue_st \<Rightarrow> PbftState \<Rightarrow> (bool \<times> glue_st \<times> PbftState) option" where
  "StartConsensus N last_consvalue now atts g0 P =
     (let g = g0\<lparr>time_start_consensus := now\<rparr>; K = n_keys N; E = n_codec N in
      if IsLeader P = 0 then Some (True, g, P)
      else
        let txset_raw = map (env_of g) (TopTransaction (set_size N) (max_trans_per_ledger N) (tx_pool g));
            ctime = next_close_time N now in
        case (if last_consvalue = [] then Some (CHECK_VALUE_MAYVALID, contexts g)
              else CheckValue N now (atts 0) last_consvalue (contexts g)) of
          None \<Rightarrow> None
        | Some (checked, m) \<Rightarrow>
            if checked = CHECK_VALUE_VALID then
              (case parse_value (n_chain N) last_consvalue of
                 None \<Rightarrow> None
               | Some v \<Rightarrow> map_option (\<lambda>(ok, P1). (ok, g\<lparr>contexts := m\<rparr>, P1)) (Request K E (ser_value (n_chain N) v) P))
            else
              (case try_loop N ctime (upgrades g) P (\<lambda>k. atts (Suc k)) txset_raw m of
                 None \<Rightarrow> None
               | Some ((v, res), m1) \<Rightarrow>
                   (let (v1, g1) = finish_proposal N v res (g\<lparr>contexts := m1\<rparr>) in
                    map_option (\<lambda>(ok, P1). (True, g1, P1)) (Request K E (ser_value (n_chain N) v1) P))))"

definition OnViewChanged ::
  "node \<Rightarrow> cstring \<Rightarrow> int \<Rightarrow> (nat \<Rightarrow> attempt) \<Rightarrow> glue_st \<Rightarrow> PbftState \<Rightarrow> (glue_st \<times> PbftState) option" where
  "OnViewChanged N last_consvalue now atts g P =
     map_option (\<lambda>(_, g1, P1). (StartLedgerCloseTimer now g1, P1)) (StartConsensus N last_consvalue now atts g P)"

section \<open>Transactions and timers\<close>

text \<open>The result is the error code; \<open>None\<close> where an arithmetic check traps or the queue's loop does not end.\<close>

definition OnTransaction :: "node \<Rightarrow> int \<Rightarrow> TransactionEnv \<Rightarrow> glue_st \<Rightarrow> (ErrCode \<times> glue_st) option" where
  "OnTransaction N now env g =
     (let C = ch_cfg (n_chain N); D = ch_db (n_chain N); t = tx_of N now env in
      if IsExist (content_hash t) (tx_pool g) then Some (ERRCODE_ALREADY_EXIST, g)
      else case CheckValid_tx C D (-1) True (new_TransactionFrm C env) of
        None \<Rightarrow> None
      | Some (c, n) \<Rightarrow>
          if c \<noteq> ERRCODE_SUCCESS then Some (c, g)
          else map_option (\<lambda>(inserted, failed, q).
                   (if failed then ERRCODE_TX_INSERT_QUEUE_FAIL else ERRCODE_SUCCESS,
                    g\<lparr>tx_pool := q, pool_envs := (pool_envs g)(content_hash t \<mapsto> env)\<rparr>))
                 (Import t (case n of None \<Rightarrow> 0 | Some k \<Rightarrow> k) (tx_pool g)))"

definition OnTimer_glue ::
  "node \<Rightarrow> bool \<Rightarrow> int \<Rightarrow> int \<Rightarrow> glue_st \<Rightarrow> ((tx list \<times> LedgerUpgradeNotify option) \<times> glue_st) option" where
  "OnTimer_glue N validating now current_time g =
     map_option (\<lambda>(timeout_txs, q).
         let (ups, sent) = OnTimer_upgrade (n_keys N) (ser_upgrade N) (codec.self_chain_id (n_codec N)) validating now current_time (upgrades g)
         in ((timeout_txs, sent), g\<lparr>tx_pool := q, upgrades := ups\<rparr>))
       (CheckTimeoutAndDel current_time [] (tx_pool g))"

definition OnRecvLedgerUpMsg :: "node \<Rightarrow> int \<Rightarrow> LedgerUpgradeNotify \<Rightarrow> glue_st \<Rightarrow> glue_st" where
  "OnRecvLedgerUpMsg N now msg g =
     g\<lparr>upgrades := Recv (n_keys N) (ser_upgrade N) (codec.self_chain_id (n_codec N)) now msg (upgrades g)\<rparr>"

definition LedgerHasUpgrade_glue :: "glue_st \<Rightarrow> glue_st" where
  "LedgerHasUpgrade_glue g = g\<lparr>upgrades := LedgerHasUpgrade (upgrades g)\<rparr>"

definition GetIntervalTime :: "node \<Rightarrow> bool \<Rightarrow> int" where
  "GetIntervalTime N empty_block = close_interval N"

end
