(* ===== verification/Glue_Thms.thy ===== *)
theory Glue_Thms
  imports Glue
begin

text \<open>
  The theorems on the glue: how a proposal shrinks, when the loop of \<^verbatim>\<open>StartConsensus\<close> ends, and that
  the value a leader proposes is accepted by a node that has the same last closed ledger.
\<close>

section \<open>Seven tenths in floating point\<close>

lemma round53_relative:
  assumes "0 \<le> n"
  shows "2 ^ 53 * \<bar>round53 n - n\<bar> \<le> n"
proof (cases "bitlen n \<le> 53")
  case True
  then have "2 * \<bar>round53 n - n\<bar> \<le> 1" using round53_near(2) [OF assms refl] by simp
  then have "round53 n = n" by presburger
  then show ?thesis using assms by simp
next
  case False
  define s where "s = bitlen n - 53"
  have "0 < n" using False assms by (cases "n = 0") (simp_all add: bitlen.simps)
  then have "2 ^ (bitlen n - 1) \<le> n" using bitlen_bounds(1) by blast
  moreover have "bitlen n - 1 = 52 + s" using False by (simp add: s_def)
  ultimately have "2 ^ 52 * 2 ^ s \<le> n" by (simp only: power_add)
  moreover have "2 ^ 52 * (2 * \<bar>round53 n - n\<bar>) \<le> 2 ^ 52 * 2 ^ s"
    using round53_near(2) [OF assms s_def] by (intro mult_left_mono) simp_all
  ultimately show ?thesis by simp
qed

lemma round53_between:
  assumes "0 \<le> n"
  shows "2 ^ 53 * round53 n \<le> (2 ^ 53 + 1) * n" and "(2 ^ 53 - 1) * n \<le> 2 ^ 53 * round53 n"
proof -
  have "2 ^ 53 * (round53 n - n) \<le> 2 ^ 53 * \<bar>round53 n - n\<bar>" "2 ^ 53 * (n - round53 n) \<le> 2 ^ 53 * \<bar>round53 n - n\<bar>"
    by (intro mult_left_mono; simp)+
  then show "2 ^ 53 * round53 n \<le> (2 ^ 53 + 1) * n" "(2 ^ 53 - 1) * n \<le> 2 ^ 53 * round53 n"
    using round53_relative [OF assms] by (simp_all add: algebra_simps)
qed

lemma next_tx_size_bounds:
  assumes "1 \<le> n"
  shows "1 \<le> next_tx_size n" and "n \<ge> 2 \<Longrightarrow> next_tx_size n < n"
proof -
  define x where "x = n * 6305039478318694"
  define y where "y = round53 x + 2 ^ 52"
  have x0: "0 \<le> x" using assms by (simp add: x_def)
  have x: "9007199254740992 * round53 x \<le> 9007199254740993 * x" "9007199254740991 * x \<le> 9007199254740992 * round53 x"
    using round53_between [OF x0] by simp_all
  have y_eq: "y = round53 x + 4503599627370496" by (simp add: y_def)
  have y0: "0 \<le> y" using x x0 y_eq by linarith
  have y: "9007199254740992 * round53 y \<le> 9007199254740993 * y" "9007199254740991 * y \<le> 9007199254740992 * round53 y"
    using round53_between [OF y0] by simp_all
  have size: "next_tx_size n = round53 y div 9007199254740992" by (simp add: next_tx_size_def x_def y_def)
  have "9007199254740992 \<le> round53 y" using x y assms x_def y_eq by linarith
  then show "1 \<le> next_tx_size n" unfolding size by linarith
  assume "n \<ge> 2"
  then have "round53 y < 9007199254740992 * n" using x y x_def y_eq by linarith
  then show "next_tx_size n < n" unfolding size by linarith
qed

lemma next_tx_size_0: "next_tx_size 0 = 0"
  by code_simp

lemma next_tx_size_1: "next_tx_size 1 = 1"
  by code_simp

section \<open>The loop of StartConsensus\<close>

text \<open>An attempt that comes to an answer: the thread starts and ends before the node gives up.\<close>

abbreviation timely :: "attempt \<Rightarrow> bool" where
  "timely a \<equiv> started a \<and> \<not> waited_out a"

lemma Do_timeout: "Do N a c = Some c1 \<Longrightarrow> block_timeout (lc_result c1) = block_timeout (lc_result c)"
  by (auto simp: Do_def Let_def split: APPLY_MODE.splits)

lemma SyncPreProcess_timeout:
  assumes "SyncPreProcess N v propose a new_ProposeTxsResult m = Some ((ok, res), m')"
  shows "block_timeout res \<longleftrightarrow> \<not> timely a \<and> \<not> CheckComplete (value_hash N v) m > 0"
    and "block_timeout res \<Longrightarrow> tx_execute_count res = 0 \<or> tx_execute_count res = int (executed a)"
  using assms
  by (auto simp: SyncPreProcess_def Let_def Run_def new_ProposeTxsResult_def new_LedgerContext_def
      split: if_splits option.splits dest!: Do_timeout)

text \<open>What is tried after a time-out: a beginning of the list, shorter unless one transaction is left.\<close>

definition shortened :: "ProposeTxsResult \<Rightarrow> TransactionEnv list \<Rightarrow> TransactionEnv list" where
  "shortened res raw = take (nat (next_tx_size (total_tx_count res raw))) raw"

lemma shortened_size:
  assumes "tx_execute_count res \<ge> 0"
  shows "length (shortened res raw) \<le> max 1 (length raw - 1)" and "raw \<noteq> [] \<Longrightarrow> shortened res raw \<noteq> []"
proof -
  let ?n = "total_tx_count res raw"
  have n: "0 \<le> ?n" "?n \<le> int (length raw)" using assms by (simp_all add: total_tx_count_def)
  have pos: "raw \<noteq> [] \<Longrightarrow> 1 \<le> ?n" using assms by (cases raw) (auto simp: total_tx_count_def)
  have "nat (next_tx_size ?n) \<le> max 1 (length raw - 1)"
  proof (cases "?n \<le> 1")
    case True
    then have "?n = 0 \<or> ?n = 1" using n by linarith
    then show ?thesis by (auto simp: next_tx_size_0 next_tx_size_1)
  next
    case False
    then show ?thesis using next_tx_size_bounds(2) [of ?n] n by linarith
  qed
  then show "length (shortened res raw) \<le> max 1 (length raw - 1)" by (simp add: shortened_def)
  show "shortened res raw \<noteq> []" if "raw \<noteq> []"
    using next_tx_size_bounds(1) [OF pos [OF that]] that by (simp add: shortened_def)
qed

lemma try_loop_unfold:
  assumes "proposed_upgrade N ups P = Some up"
    and "SyncPreProcess (n_chain N) (propose_value N ctime up raw) True (atts 0) new_ProposeTxsResult m = Some ((ok, res), m1)"
  shows "try_loop N ctime ups P atts raw m =
    (if block_timeout res then try_loop N ctime ups P (\<lambda>k. atts (Suc k)) (shortened res raw) m1
     else Some ((propose_value N ctime up raw, res), m1))"
  using assms by (subst try_loop.simps) (simp add: shortened_def)

lemma try_loop_returns:
  assumes "proposed_upgrade N ups P = Some up"
    and "\<And>i n m. SyncPreProcess (n_chain N) (propose_value N ctime up (take n raw)) True (atts i) new_ProposeTxsResult m \<noteq> None"
    and "timely (atts k)"
  shows "\<exists>j \<le> k. \<exists>raw' res m'. try_loop N ctime ups P atts raw m = Some ((propose_value N ctime up raw', res), m') \<and>
    \<not> block_timeout res \<and> (\<exists>n. raw' = take n raw) \<and> (raw \<noteq> [] \<longrightarrow> raw' \<noteq> []) \<and> length raw' \<le> max 1 (length raw - j)"
  using assms(2,3)
proof (induction k arbitrary: atts raw m)
  case 0
  obtain ok res m1 where run: "SyncPreProcess (n_chain N) (propose_value N ctime up raw) True (atts 0) new_ProposeTxsResult m = Some ((ok, res), m1)"
    using "0.prems"(1) [of "length raw" 0 m] by auto
  have "\<not> block_timeout res" using SyncPreProcess_timeout(1) [OF run] "0.prems"(2) by simp
  then show ?case
    using try_loop_unfold [where atts = atts, OF assms(1) run]
    by (intro exI [of _ "0 :: nat"] exI [of _ raw] exI [of _ res] exI [of _ m1] conjI exI [of _ "length raw"]) simp_all
next
  case (Suc k)
  obtain ok res m1 where run: "SyncPreProcess (n_chain N) (propose_value N ctime up raw) True (atts 0) new_ProposeTxsResult m = Some ((ok, res), m1)"
    using Suc.prems(1) [of "length raw" 0 m] by auto
  note loop = try_loop_unfold [where atts = atts, OF assms(1) run]
  show ?case
  proof (cases "block_timeout res")
    case False
    then show ?thesis
      using loop by (intro exI [of _ "0 :: nat"] exI [of _ raw] exI [of _ res] exI [of _ m1] conjI exI [of _ "length raw"]) simp_all
  next
    case True
    let ?raw = "shortened res raw"
    have "tx_execute_count res \<ge> 0" using SyncPreProcess_timeout(2) [OF run True] by auto
    note size = shortened_size [OF this, of raw]
    have ends: "SyncPreProcess (n_chain N) (propose_value N ctime up (take n ?raw)) True (atts (Suc i)) new_ProposeTxsResult m \<noteq> None" for i n m
      using Suc.prems(1) [of "min n (nat (next_tx_size (total_tx_count res raw)))" "Suc i" m] by (simp add: shortened_def)
    obtain j raw' res' m' where step: "j \<le> k" "try_loop N ctime ups P (\<lambda>k. atts (Suc k)) ?raw m1 = Some ((propose_value N ctime up raw', res'), m')"
      "\<not> block_timeout res'" "\<exists>n. raw' = take n ?raw" "?raw \<noteq> [] \<longrightarrow> raw' \<noteq> []" "length raw' \<le> max 1 (length ?raw - j)"
      using Suc.IH [of ?raw "\<lambda>k. atts (Suc k)" m1] ends Suc.prems(2) by blast
    have "\<exists>n. raw' = take n raw" using step(4) by (auto simp: shortened_def)
    moreover have "length raw' \<le> max 1 (length raw - Suc j)" using step(6) size(1) by linarith
    ultimately show ?thesis
      using step size(2) loop True by (intro exI [of _ "Suc j"]) auto
  qed
qed

text \<open>Induction over the rounds of a loop that ends.\<close>

lemma try_loop_induct [consumes 1, case_names last again]:
  assumes "try_loop N ctime ups P atts raw m = Some y"
    and last: "\<And>atts raw m up ok res m1. \<lbrakk>proposed_upgrade N ups P = Some up;
      SyncPreProcess (n_chain N) (propose_value N ctime up raw) True (atts 0) new_ProposeTxsResult m = Some ((ok, res), m1);
      \<not> block_timeout res\<rbrakk> \<Longrightarrow> Q atts raw m ((propose_value N ctime up raw, res), m1)"
    and again: "\<And>atts raw m up ok res m1 y. \<lbrakk>proposed_upgrade N ups P = Some up;
      SyncPreProcess (n_chain N) (propose_value N ctime up raw) True (atts 0) new_ProposeTxsResult m = Some ((ok, res), m1);
      block_timeout res; Q (\<lambda>k. atts (Suc k)) (shortened res raw) m1 y\<rbrakk> \<Longrightarrow> Q atts raw m y"
  shows "Q atts raw m y"
proof -
  let ?Q = "\<lambda>((((((N', ctime'), ups'), P'), atts), raw), m) y. N' = N \<and> ctime' = ctime \<and> ups' = ups \<and> P' = P \<longrightarrow> Q atts raw m y"
  have "?Q ((((((N, ctime), ups), P), atts), raw), m) y"
  proof (rule try_loop.raw_induct [where Pa = ?Q, OF _ assms(1)])
    fix f N' ctime' ups' P' atts raw m y
    assume IH: "\<And>N' ctime' ups' P' atts raw m y. f N' ctime' ups' P' atts raw m = Some y \<Longrightarrow> ?Q ((((((N', ctime'), ups'), P'), atts), raw), m) y"
      and round: "(case proposed_upgrade N' ups' P' of None \<Rightarrow> None
        | Some up \<Rightarrow>
            (case SyncPreProcess (n_chain N') (propose_value N' ctime' up raw) True (atts 0) new_ProposeTxsResult m of
               None \<Rightarrow> None
             | Some ((_, res), m1) \<Rightarrow>
                 if block_timeout res
                 then f N' ctime' ups' P' (\<lambda>k. atts (Suc k)) (take (nat (next_tx_size (total_tx_count res raw))) raw) m1
                 else Some ((propose_value N' ctime' up raw, res), m1))) = Some y"
    show "?Q ((((((N', ctime'), ups'), P'), atts), raw), m) y"
      using round by (auto simp flip: shortened_def split: option.splits if_splits dest!: IH intro: last again)
  qed
  then show ?thesis by simp
qed

text \<open>What the loop ends with: the run of the value that it proposes.\<close>

lemma try_loop_result:
  assumes "try_loop N ctime ups P atts raw m = Some ((v, res), m1)"
  shows "\<exists>k raw' up ok m0. proposed_upgrade N ups P = Some up \<and> v = propose_value N ctime up raw' \<and>
    SyncPreProcess (n_chain N) v True (atts k) new_ProposeTxsResult m0 = Some ((ok, res), m1) \<and> \<not> block_timeout res"
  using assms by (induction atts raw m "((v, res), m1)" rule: try_loop_induct) blast+

text \<open>A loop whose attempts never come to an answer does not end.\<close>

lemma try_loop_runs_on:
  assumes "\<forall>k. \<not> started (atts k)" and "\<forall>raw up. CheckComplete (value_hash (n_chain N) (propose_value N ctime up raw)) m \<le> 0"
  shows "try_loop N ctime ups P atts raw m = None"
proof (rule ccontr)
  assume "try_loop N ctime ups P atts raw m \<noteq> None"
  then obtain y where "try_loop N ctime ups P atts raw m = Some y" by blast
  then show False
    using assms
  proof (induction rule: try_loop_induct)
    case (last atts raw m up ok res m1)
    then show ?case using SyncPreProcess_timeout(1) [OF last(2)] by (auto dest: leD)
  next
    case (again atts raw m up ok res m1 y)
    have "CheckComplete (value_hash (n_chain N) (propose_value N ctime up raw)) m \<le> 0" using again.prems(2) by blast
    then have "m1 = m\<lparr>next_ctx := Suc (next_ctx m)\<rparr>"
      using again(2) again.prems(1) by (simp add: SyncPreProcess_def Let_def)
    then show ?case using again.IH again.prems by (simp add: CheckComplete_def)
  qed
qed

section \<open>A proposal is accepted\<close>

lemma truncate_proposal:
  "ConsensusValue.truncate (fst (finish_proposal N v res g)) =
   proposal (ConsensusValue.truncate v) (cons_validation res) (need_dropped_tx res)"
proof -
  have "keep_txs {} i envs = envs" for i envs by (induction envs arbitrary: i) simp_all
  then show ?thesis by (simp add: finish_proposal_def proposal_def ConsensusValue.truncate_def Let_def)
qed

lemma finish_proposal_fields:
  "ledger_seq (fst (finish_proposal N v res g)) = ledger_seq v" "close_time (fst (finish_proposal N v res g)) = close_time v"
  "previous_ledger_hash (fst (finish_proposal N v res g)) = previous_ledger_hash v"
  "previous_proof (fst (finish_proposal N v res g)) = previous_proof v"
  "ledger_upgrade (fst (finish_proposal N v res g)) = ledger_upgrade v"
  by (simp_all add: finish_proposal_def Let_def)

text \<open>A run that succeeds as a proposal was not taken from the kept ones.\<close>

lemma proposing_run:
  assumes "SyncPreProcess N v True a new_ProposeTxsResult m = Some ((ok, res), m1)" and "\<not> block_timeout res" and "exec_result res"
  shows "\<exists>st. ApplyPropose (ch_cfg N) (ch_db N) (run_exec a) False (run_clock a) (run_start a) (ConsensusValue.truncate v) =
    Some ((True, cons_validation res, need_dropped_tx res), st)"
  using assms
  by (auto simp: SyncPreProcess_def Let_def Run_def Do_def new_ProposeTxsResult_def new_LedgerContext_def split: if_splits option.splits)

lemma checking_run:
  assumes "ctxs_ok N m" and "timely a"
    and "ApplyCheck (ch_cfg N) (ch_db N) (run_exec a) False (run_clock a) (run_start a) (ConsensusValue.truncate v) = Some (True, st)"
  shows "\<exists>res m1. SyncPreProcess N v False a new_ProposeTxsResult m = Some ((True, res), m1)"
proof (cases "map_of (completed_ctxs m) (value_hash N v)")
  case None
  then show ?thesis
    using assms(2,3) by (simp add: SyncPreProcess_def CheckComplete_def Let_def Run_def Do_def new_LedgerContext_def)
next
  case (Some c)
  then have "exec_result (lc_result c)" using assms(1) by (auto simp: ctxs_ok_def ctx_ok_def dest!: map_of_SomeD)
  then show ?thesis using Some by (simp add: SyncPreProcess_def CheckComplete_def Let_def)
qed

text \<open>A node that has the last closed ledger of \<open>N\<close> and finds its proof of the last value valid.\<close>

definition same_chain :: "node \<Rightarrow> node \<Rightarrow> bool" where
  "same_chain N N' \<longleftrightarrow> n_chain N' = n_chain N \<and> lcl N' = lcl N \<and> close_interval N' = close_interval N \<and>
     (lh_seq (lcl N) = 1 \<longrightarrow> last_proof N = []) \<and>
     (lh_seq (lcl N) > 1 \<longrightarrow>
        (\<exists>vs. validators_of N' (lh_seq (lcl N) - 1) = Some vs \<and>
           CheckProof (n_keys N') (n_codec N') vs (lh_consensus_value_hash (lcl N)) (last_proof N)))"

lemma helper_accepts:
  assumes "same_chain N N'" and v: "v = propose_value N (next_close_time N now) up raw" and up: "proposed_upgrade N ups P = Some up"
    and "\<And>u. up = Some u \<Longrightarrow> new_validator u = []"
    and "value_size (n_chain N) (fst (finish_proposal N v res g)) < TXSET_LIMIT_SIZE + 2 * BYTES_PER_MEGA"
    and "now' > next_close_time N now - 1000000"
  shows "CheckValueHelper N' (fst (finish_proposal N v res g)) now' = CHECK_VALUE_VALID"
proof -
  let ?v = "fst (finish_proposal N v res g)"
  have same: "n_chain N' = n_chain N" "lcl N' = lcl N" "close_interval N' = close_interval N"
    using assms(1) by (simp_all add: same_chain_def)
  have fields: "ledger_seq ?v = lh_seq (lcl N) + 1" "close_time ?v = next_close_time N now" "previous_ledger_hash ?v = lh_hash (lcl N)"
    "previous_proof ?v = last_proof N" "ledger_upgrade ?v = up"
    by (simp_all add: finish_proposal_fields v propose_value_def)
  have late: "next_close_time N now \<ge> lh_close_time (lcl N) + close_interval N" by (simp add: next_close_time_def)
  have upgrade: "\<not> (case up of None \<Rightarrow> False | Some u \<Rightarrow> \<not> upgrade_acceptable N' ?v u)"
  proof (cases up)
    case (Some u)
    then have "lh_version (lcl N) < new_ledger_version u \<and> new_ledger_version u \<le> LEDGER_VERSION"
      using up by (auto simp: proposed_upgrade_def split: option.splits if_splits)
    then show ?thesis using Some assms(4) [OF Some] same by (simp add: upgrade_acceptable_def)
  qed simp
  have first: "\<not> (lh_seq (lcl N) = 1 \<and> last_proof N \<noteq> [])" using assms(1) by (simp add: same_chain_def)
  have proven: "\<not> (lh_seq (lcl N) > 1 \<and>
      (case validators_of N' (lh_seq (lcl N) + 1 - 2) of
         None \<Rightarrow> True
       | Some vs \<Rightarrow> lh_consensus_value_hash (lcl N) \<notin> hardfork_points N' \<and>
           \<not> CheckProof (n_keys N') (n_codec N') vs (lh_consensus_value_hash (lcl N)) (last_proof N)))"
    using assms(1) by (auto simp: same_chain_def)
  have "\<not> value_size (n_chain N) ?v \<ge> TXSET_LIMIT_SIZE + 2 * BYTES_PER_MEGA" using assms(5) by linarith
  moreover have "\<not> (now' \<noteq> -1 \<and> \<not> (now' > next_close_time N now - 1000000 \<and> next_close_time N now \<ge> lh_close_time (lcl N) + close_interval N))"
    using late assms(6) by blast
  ultimately show ?thesis
    unfolding CheckValueHelper_def Let_def same fields using upgrade first proven by (simp only: if_False simp_thms if_True)
qed

text \<open>
  Claim C6. What a correct leader proposes, a correct node accepts. When the proposing run behind a
  proposal of \<^verbatim>\<open>StartConsensus\<close> succeeded, called no contract and let no transaction expire, then
  \<^verbatim>\<open>CheckValue\<close> accepts the proposed value, dropped transactions removed and failed ones listed, on
  every node that has the same last closed ledger and accepts the leader's proof of it, whose clock
  is not more than a second behind the close time, and whose own run is in time.
\<close>

theorem proposal_accepted:
  assumes loop: "try_loop N (next_close_time N now) ups P atts raw m = Some ((v, res), m1)"
    and ran: "exec_result res" "expire_tx_ids (cons_validation res) = []"
    and plain: "\<forall>k. ApplyPropose (ch_cfg (n_chain N)) (ch_db (n_chain N)) no_contracts False (run_clock (atts k)) (run_start (atts k))
                  (ConsensusValue.truncate v) \<noteq> None"
    and made: "finish_proposal N v res g = (v1, g1)"
    and chain: "same_chain N N'" "\<forall>u. ledger_upgrade v = Some u \<longrightarrow> new_validator u = []"
    and small: "value_size (n_chain N) v1 < TXSET_LIMIT_SIZE + 2 * BYTES_PER_MEGA"
    and parse: "parse_value (n_chain N) (ser_value (n_chain N) v1) = Some v1"
    and checker: "ctxs_ok (n_chain N') m'" "timely a" "in_time (run_clock a) (run_start a)" "now' > close_time v - 1000000"
  shows "\<exists>m2. CheckValue N' now' a (ser_value (n_chain N) v1) m' = Some (CHECK_VALUE_VALID, m2)"
proof -
  obtain k raw' up ok m0 where run: "proposed_upgrade N ups P = Some up" "v = propose_value N (next_close_time N now) up raw'"
    "SyncPreProcess (n_chain N) v True (atts k) new_ProposeTxsResult m0 = Some ((ok, res), m1)" "\<not> block_timeout res"
    using try_loop_result [OF loop] by blast
  obtain st where "ApplyPropose (ch_cfg (n_chain N)) (ch_db (n_chain N)) (run_exec (atts k)) False (run_clock (atts k)) (run_start (atts k))
      (ConsensusValue.truncate v) = Some ((True, cons_validation res, need_dropped_tx res), st)"
    using proposing_run [OF run(3,4) ran(1)] by blast
  from proposal_checked [OF spec [OF plain] this ran(2) checker(3), of "run_exec a"]
  obtain st' where check: "ApplyCheck (ch_cfg (n_chain N)) (ch_db (n_chain N)) (run_exec a) False (run_clock a) (run_start a)
      (ConsensusValue.truncate v1) = Some (True, st')"
    using truncate_proposal [of N v res g] made by auto
  have same: "n_chain N' = n_chain N" using chain(1) by (simp add: same_chain_def)
  obtain r m2 where "SyncPreProcess (n_chain N') v1 False a new_ProposeTxsResult m' = Some ((True, r), m2)"
    using checking_run [OF checker(1,2)] check same by metis
  moreover have "CheckValueHelper N' v1 now' = CHECK_VALUE_VALID"
    using helper_accepts [OF chain(1) run(2,1), of res g now'] chain(2) small checker(4) run(2) made
    by (simp add: propose_value_def)
  ultimately show ?thesis using parse same by (simp add: CheckValue_def Let_def)
qed

section \<open>StartConsensus returns\<close>

text \<open>An execution that comes to its end is enough for the waiting node.\<close>

lemma SyncPreProcess_ends:
  assumes "ApplyPropose (ch_cfg N) (ch_db N) (run_exec a) False (run_clock a) (run_start a) (ConsensusValue.truncate v) \<noteq> None"
  shows "SyncPreProcess N v True a res m \<noteq> None"
  using assms by (auto simp: SyncPreProcess_def Let_def Run_def Do_def new_LedgerContext_def split: option.splits)

lemma truncate_propose_value:
  "ConsensusValue.truncate (propose_value N ctime up raw) = \<lparr>txs = raw, close_time = ctime, ledger_seq = lh_seq (lcl N) + 1, validation = None\<rparr>"
  by (simp add: propose_value_def ConsensusValue.truncate_def)

lemma proposed_upgrade_defined: "GetValidation quorum_size P \<noteq> None \<Longrightarrow> \<exists>up. proposed_upgrade N ups P = Some up"
  by (auto simp: proposed_upgrade_def)

lemma leader_request:
  assumes "IsLeader P \<noteq> 0" and "validators P \<noteq> []"
  shows "\<exists>ok P1. Request K E v P = Some (ok, P1)"
  using assms by (auto simp: Request_def IsLeader_def Let_def)

text \<open>
  Claim C7. \<^verbatim>\<open>StartConsensus\<close> ends. When the leader has no value to take over, every run of a
  beginning of the transactions offered by the queue comes to an end, and attempt \<open>k\<close> starts and is
  in time, then \<^verbatim>\<open>StartConsensus\<close> returns after at most \<open>k\<close> repetitions. It hands consensus one value,
  made from a beginning of the offered transactions that is empty only if none were offered, and that
  each repetition has shortened by at least one transaction until one is left.
\<close>

theorem StartConsensus_returns:
  assumes "IsLeader P \<noteq> 0" and "validators P \<noteq> []" and "GetValidation quorum_size P \<noteq> None"
    and raw: "raw = map (env_of g) (TopTransaction (set_size N) (max_trans_per_ledger N) (tx_pool g))"
    and ends: "\<forall>i n. ApplyPropose (ch_cfg (n_chain N)) (ch_db (n_chain N)) (run_exec (atts i)) False (run_clock (atts i)) (run_start (atts i))
                  \<lparr>txs = take n raw, close_time = next_close_time N now, ledger_seq = lh_seq (lcl N) + 1, validation = None\<rparr> \<noteq> None"
    and "timely (atts (Suc k))"
  shows "\<exists>j \<le> k. \<exists>up n res m v g1 ok P1.
    (raw \<noteq> [] \<longrightarrow> take n raw \<noteq> []) \<and> length (take n raw) \<le> max 1 (length raw - j) \<and> \<not> block_timeout res \<and>
    finish_proposal N (propose_value N (next_close_time N now) up (take n raw)) res (g\<lparr>time_start_consensus := now, contexts := m\<rparr>) = (v, g1) \<and>
    Request (n_keys N) (n_codec N) (ser_value (n_chain N) v) P = Some (ok, P1) \<and>
    StartConsensus N [] now atts g P = Some (True, g1, P1)"
proof -
  let ?ctime = "next_close_time N now"
  obtain up where up: "proposed_upgrade N (upgrades g) P = Some up" using proposed_upgrade_defined [OF assms(3)] by blast
  have runs: "SyncPreProcess (n_chain N) (propose_value N ?ctime up (take n raw)) True (atts (Suc i)) new_ProposeTxsResult m \<noteq> None" for i n m
    by (rule SyncPreProcess_ends) (simp add: truncate_propose_value ends)
  obtain j raw' res m where loop: "j \<le> k"
      "try_loop N ?ctime (upgrades g) P (\<lambda>k. atts (Suc k)) raw (contexts g) = Some ((propose_value N ?ctime up raw', res), m)"
      "\<not> block_timeout res" "\<exists>n. raw' = take n raw" "raw \<noteq> [] \<longrightarrow> raw' \<noteq> []" "length raw' \<le> max 1 (length raw - j)"
    using try_loop_returns [where atts = "\<lambda>k. atts (Suc k)" and m = "contexts g", OF up runs assms(6)] by blast
  obtain n where n: "raw' = take n raw" using loop(4) by blast
  obtain v g1 where made: "finish_proposal N (propose_value N ?ctime up raw') res (g\<lparr>time_start_consensus := now, contexts := m\<rparr>) = (v, g1)"
    by fastforce
  obtain ok P1 where sent: "Request (n_keys N) (n_codec N) (ser_value (n_chain N) v) P = Some (ok, P1)"
    using leader_request [OF assms(1,2)] by blast
  have "raw = map (env_of (g\<lparr>time_start_consensus := now\<rparr>)) (TopTransaction (set_size N) (max_trans_per_ledger N) (tx_pool g))"
    by (simp add: raw env_of_def)
  then have "StartConsensus N [] now atts g P = Some (True, g1, P1)"
    using assms(1) loop(2) made sent by (simp add: StartConsensus_def Let_def)
  then show ?thesis using loop(1,3,5,6) made sent unfolding n by blast
qed

section \<open>A small node\<close>

text \<open>
  The small ledger of theory Ledger_Thms with one payment in the queue of a leader; the value has a
  constant encoding, which is all that one value needs.
\<close>

definition demo_payment :: TransactionEnv where
  "demo_payment = demo_tx [1] 1 (op_pay_coin [2] 100 [])"

definition demo_full :: FullValue where
  "demo_full = \<lparr>txs = [demo_payment], close_time = 7, ledger_seq = 2, validation = None,
     previous_ledger_hash = [5], previous_proof = [], ledger_upgrade = None\<rparr>"

definition demo_chain :: chain where
  "demo_chain = \<lparr>ch_cfg = demo_cfg, ch_db = demo_db, ser_value = (\<lambda>_. [7]), parse_value = (\<lambda>_. Some demo_full),
     value_size = (\<lambda>_. 100), crypto = id\<rparr>"

definition demo_node :: node where
  "demo_node = \<lparr>n_chain = demo_chain,
     n_keys = \<lparr>GetEncPublicKey = [3], GetEncAddress = [3], Sign = id, Address_of = id, Verify = (\<lambda>_ _ _. True), Crypto = id\<rparr>,
     n_codec = \<lparr>self_chain_id = 0, ser_pbft = (\<lambda>_. []), ser_env = (\<lambda>_. []), ser_view_change = (\<lambda>_. []), ser_proof = (\<lambda>_. []),
       parse_env = (\<lambda>_. (False, empty_env)), parse_view_change = (\<lambda>_. (False, view_change_of empty_pbft)), parse_proof = (\<lambda>_. None),
       json_view_changes = (\<lambda>_. []), unjson_view_changes = (\<lambda>_. None), json_strings = (\<lambda>_. []), unjson_strings = (\<lambda>_. None)\<rparr>,
     lcl = empty_header\<lparr>lh_seq := 1, lh_hash := [5], lh_version := 1002\<rparr>, validators_of = (\<lambda>_. None), last_proof = [],
     close_interval = 5, max_trans_per_ledger = 10, hardfork_points = {}, ser_upgrade = (\<lambda>_. []), set_size = (\<lambda>_. 0)\<rparr>"

definition demo_attempt :: attempt where
  "demo_attempt = \<lparr>started = True, waited_out = False, executed = 0, run_exec = no_contracts, run_clock = demo_clock,
     run_start = 0, run_end = 0\<rparr>"

definition demo_leader :: PbftState where
  "demo_leader = (new_Pbft Map.empty 0)\<lparr>is_validator := True, replica_id := 0, validators := [([3], 0)]\<rparr>"

definition demo_glue :: glue_st where
  "demo_glue = \<lparr>tx_pool = (TransactionQueue 10 10)\<lparr>queue := [(0, tx_of demo_node 0 demo_payment)]\<rparr>,
     pool_envs = [[] \<mapsto> demo_payment], upgrades = new_upgrade_st, contexts = new_context_st, time_start_consensus = 0, close_timer = 0\<rparr>"

lemmas node_eval = demo_node_def demo_chain_def demo_attempt_def demo_leader_def new_Pbft_def empty_header_def

lemma demo_n_chain: "n_chain demo_node = demo_chain"
  by (simp add: demo_node_def)

lemma demo_value_eq: "ConsensusValue.truncate demo_full = demo_value"
  by (simp add: demo_full_def demo_value_def demo_payment_def ConsensusValue.truncate_def)

lemma demo_propose:
  "\<exists>st. ApplyPropose demo_cfg demo_db no_contracts False demo_clock 0 demo_value =
     Some ((True, \<lparr>expire_tx_ids = [], error_tx_ids = []\<rparr>, {}), st)"
proof -
  obtain st where st: "execute_tx demo_cfg demo_db no_contracts False (demo_clock 0) 0 demo_paid = Some (TxOk, st)"
    using demo_execute by blast
  have v: "txs demo_value = [demo_tx [1] 1 (op_pay_coin [2] 100 [])]" "validation demo_value = None" by (simp_all add: demo_value_def)
  have "alloc_tx demo_cfg (demo_tx [1] 1 (op_pay_coin [2] 100 [])) (new_ledger_st demo_value) = (0, demo_made)"
    by (simp add: demo_made_def alloc_tx_def new_ledger_st_def)
  then show ?thesis
    by (simp add: ApplyPropose_def v demo_valid demo_pay st Let_def new_acc_def note_outcome_def SetValidationToProto_def)
       (simp add: demo_clock_def BLOCK_EXECUTE_TIME_OUT_def)
qed

lemma demo_proposed_upgrade: "proposed_upgrade demo_node new_upgrade_st demo_leader = Some None"
  by (simp add: proposed_upgrade_def GetValidation_def validator_vector_def GetValid_def new_upgrade_st_def node_eval)

lemma demo_propose_value: "propose_value demo_node 7 None [demo_payment] = demo_full"
  by (simp add: propose_value_def demo_full_def node_eval)

lemma demo_loop:
  "\<exists>m. try_loop demo_node 7 new_upgrade_st demo_leader (\<lambda>_. demo_attempt) [demo_payment] new_context_st =
     Some ((demo_full, new_ProposeTxsResult\<lparr>exec_result := True\<rparr>), m)"
proof -
  obtain st where "ApplyPropose demo_cfg demo_db no_contracts False demo_clock 0 demo_value =
     Some ((True, \<lparr>expire_tx_ids = [], error_tx_ids = []\<rparr>, {}), st)" using demo_propose by blast
  then have "\<exists>m. SyncPreProcess demo_chain demo_full True demo_attempt new_ProposeTxsResult new_context_st =
      Some ((True, new_ProposeTxsResult\<lparr>exec_result := True\<rparr>), m)"
    by (simp add: SyncPreProcess_def CheckComplete_def Let_def Run_def Do_def new_LedgerContext_def new_context_st_def
        new_ProposeTxsResult_def demo_value_eq demo_chain_def demo_attempt_def)
  then obtain m where "SyncPreProcess (n_chain demo_node) (propose_value demo_node 7 None [demo_payment]) True demo_attempt
      new_ProposeTxsResult new_context_st = Some ((True, new_ProposeTxsResult\<lparr>exec_result := True\<rparr>), m)"
    by (auto simp: demo_propose_value demo_n_chain)
  from try_loop_unfold [where atts = "\<lambda>_. demo_attempt", OF demo_proposed_upgrade this]
  show ?thesis by (simp add: new_ProposeTxsResult_def demo_propose_value)
qed

lemma demo_same_chain: "same_chain demo_node demo_node"
  by (simp add: same_chain_def node_eval)

theorem proposal_accepted_witness:
  "\<exists>m. CheckValue demo_node 8 demo_attempt [7] new_context_st = Some (CHECK_VALUE_VALID, m)"
proof -
  obtain m where loop: "try_loop demo_node (next_close_time demo_node 7) new_upgrade_st demo_leader (\<lambda>_. demo_attempt) [demo_payment]
      new_context_st = Some ((demo_full, new_ProposeTxsResult\<lparr>exec_result := True\<rparr>), m)"
    using demo_loop by (auto simp: next_close_time_def node_eval)
  have "finish_proposal demo_node demo_full (new_ProposeTxsResult\<lparr>exec_result := True\<rparr>) demo_glue = (demo_full, demo_glue)"
    by (simp add: finish_proposal_def new_ProposeTxsResult_def proposed_validation_def demo_full_def)
  moreover have "ApplyPropose demo_cfg demo_db no_contracts False demo_clock 0 demo_value \<noteq> None"
    using demo_propose by auto
  moreover have "in_time demo_clock 0"
    by (simp add: in_time_def demo_clock_def TX_EXECUTE_TIME_OUT_def BLOCK_EXECUTE_TIME_OUT_def)
  ultimately have "\<exists>m2. CheckValue demo_node 8 demo_attempt (ser_value (n_chain demo_node) demo_full) new_context_st =
      Some (CHECK_VALUE_VALID, m2)"
    by (intro proposal_accepted [OF loop])
       (simp_all add: demo_same_chain demo_value_eq ctxs_ok_new new_ProposeTxsResult_def,
        simp_all add: node_eval demo_value_eq demo_full_def TXSET_LIMIT_SIZE_def BYTES_PER_MEGA_def)
  then show ?thesis by (simp add: node_eval)
qed

text \<open>The first attempt is waited out.\<close>

theorem StartConsensus_returns_witness:
  "\<exists>g1 P1. StartConsensus demo_node [] 7 (\<lambda>k. demo_attempt\<lparr>waited_out := k < 2\<rparr>) demo_glue demo_leader = Some (True, g1, P1)"
proof -
  have top: "map (env_of demo_glue) (TopTransaction (set_size demo_node) (max_trans_per_ledger demo_node) (tx_pool demo_glue)) = [demo_payment]"
    by (simp add: demo_glue_def TopTransaction_def TXSET_LIMIT_SIZE_def tx_of_def demo_payment_def env_of_def nonce_of_def TransactionQueue_def
        node_eval demo_eval Let_def)
  have none: "ApplyPropose demo_cfg demo_db no_contracts False demo_clock 0 \<lparr>txs = [], close_time = 7, ledger_seq = 2, validation = None\<rparr> \<noteq> None"
    by (simp add: ApplyPropose_def Let_def)
  have one: "ApplyPropose demo_cfg demo_db no_contracts False demo_clock 0
      \<lparr>txs = [demo_payment], close_time = 7, ledger_seq = 2, validation = None\<rparr> \<noteq> None"
    using demo_propose by (auto simp: demo_value_def demo_payment_def)
  have runs: "ApplyPropose demo_cfg demo_db no_contracts False demo_clock 0
      \<lparr>txs = take n [demo_payment], close_time = 7, ledger_seq = 2, validation = None\<rparr> \<noteq> None" for n
    using none one by (cases n) (simp_all del: not_None_eq)
  have "IsLeader demo_leader \<noteq> 0" "validators demo_leader \<noteq> []" "GetValidation quorum_size demo_leader \<noteq> None"
    by (simp_all add: IsLeader_def is_primary_def GetValidation_def validator_vector_def demo_leader_def new_Pbft_def)
  from StartConsensus_returns [OF this top [symmetric], where atts = "\<lambda>k. demo_attempt\<lparr>waited_out := k < 2\<rparr>" and now = 7 and k = 1]
  show ?thesis using runs by (simp add: node_eval next_close_time_def) blast
qed

end
