(* ===== verification/Ledger_Manager.thy ===== *)
theory Ledger_Manager
  imports Glue Trie_Thms
begin

text \<open>
  The chain of closed ledgers, \<^verbatim>\<open>LedgerManager\<close> (src/src/ledger/ledger_manager.h,
  ledger_manager.cpp), with the writing of a ledger (\<^verbatim>\<open>LedgerFrm::Commit\<close>, \<^verbatim>\<open>AddToDb\<close> and
  \<^verbatim>\<open>LoadFromDb\<close> of src/src/ledger/ledger_frm.cpp, \<^verbatim>\<open>AccountFrm::UpdateHash\<close>) and the part of the glue
  that a committed value calls (\<^verbatim>\<open>GlueManager::OnValueCommited\<close>).

  The two databases are maps from strings to strings, \<open>account_kv\<close> and \<open>ledger_kv\<close>, under the keys of
  the code. The tries of accounts, assets and metadata, which lie in the account database under
  prefixes of their own, are kept as the maps they stand for (\<open>tries\<close>), and a root hash is \<open>root_of\<close>
  of the encoded map; theory Trie_Thms shows that the trie returns these values and this hash.
  Encodings of messages and addresses are the parameter \<open>encodings\<close>.

  What the glue and the runs read of the ledger is the \<open>node\<close> of theory Glue that \<open>node_of\<close> makes of
  the state. \<open>posted\<close> are the calls handed to the thread of the consensus. The call that the start
  posts reads the state when it runs; here it takes the state of the start, since no ledger is
  closed before that thread works. Left out are statistics
  and reports, the records of single transactions, which only queries read, and the interactive
  tool \<^verbatim>\<open>CreateHardforkLedger\<close>.
\<close>

record encodings =
  ser_header :: "LedgerHeader \<Rightarrow> cstring"
  parse_header :: "cstring \<Rightarrow> LedgerHeader"
  ser_ledger :: "LedgerHeader \<Rightarrow> TransactionEnv list \<Rightarrow> cstring"
  ser_validators :: "(cstring \<times> int) list \<Rightarrow> cstring"
  parse_validators :: "cstring \<Rightarrow> (cstring \<times> int) list option"
  ser_fees :: "FeeConfig \<Rightarrow> cstring"
  parse_fees :: "cstring \<Rightarrow> FeeConfig option"
  ser_node :: "child list \<Rightarrow> cstring"
  parse_node :: "cstring \<Rightarrow> child list"
  DecodeAddress :: "cstring \<Rightarrow> cstring"
  EncodeAddress :: "cstring \<Rightarrow> cstring"
  ser_account :: "Account \<Rightarrow> cstring"
  ser_asset_key :: "AssetKey \<Rightarrow> cstring"
  parse_asset_key :: "cstring \<Rightarrow> AssetKey"
  ser_asset :: "AssetStore \<Rightarrow> cstring"
  ser_key_pair :: "KeyPair \<Rightarrow> cstring"

record GetLedgers =
  gl_begin :: int
  gl_end :: int
  gl_timestamp :: int
  gl_chain_id :: int

record Ledgers =
  lg_values :: "FullValue list"
  lg_max_seq :: int
  lg_proof :: cstring
  lg_chain_id :: int

record SyncStat =
  send_time :: int
  sync_gl :: GetLedgers
  probation :: int

record manager =
  tries :: ledger_db
  account_kv :: db
  ledger_kv :: db
  last_closed_ledger :: LedgerHeader
  lcl_header :: LedgerHeader
  m_validators :: "(cstring \<times> int) list"
  m_fees :: FeeConfig
  m_proof :: cstring
  self_chain :: int
  update_time :: int
  sync_peers :: "(int \<times> SyncStat) list"
  chain_max_ledger_probaly :: int
  posted :: "((cstring \<times> int) list \<times> cstring \<times> bool) list"

definition empty_gl :: GetLedgers where
  "empty_gl = \<lparr>gl_begin = 0, gl_end = 0, gl_timestamp = 0, gl_chain_id = 0\<rparr>"

definition new_SyncStat :: SyncStat where
  "new_SyncStat = \<lparr>send_time = 0, sync_gl = empty_gl, probation = 0\<rparr>"

section \<open>Keys and stored messages\<close>

definition KEY_LEDGER_SEQ :: cstring where "KEY_LEDGER_SEQ = lit ''max_seq''"
definition KEY_GENE_ACCOUNT :: cstring where "KEY_GENE_ACCOUNT = lit ''genesis_account''"
definition LAST_PROOF :: cstring where "LAST_PROOF = lit ''last_proof''"
definition LEDGER_PREFIX :: cstring where "LEDGER_PREFIX = lit ''ldg''"
definition CONSENSUS_VALUE_PREFIX :: cstring where "CONSENSUS_VALUE_PREFIX = lit ''cosv''"

definition seq_string :: "int \<Rightarrow> cstring" where
  "seq_string n = ToString_int64 (word_of_int n)"

definition ComposePrefix :: "cstring \<Rightarrow> int \<Rightarrow> cstring" where
  "ComposePrefix pre n = pre @ lit ''_'' @ seq_string n"

definition validators_key :: "cstring \<Rightarrow> cstring" where
  "validators_key h = lit ''validators-'' @ BinToHexString h"

definition fees_key :: "cstring \<Rightarrow> cstring" where
  "fees_key h = lit ''fees-'' @ BinToHexString h"

definition LoadFromDb :: "encodings \<Rightarrow> db \<Rightarrow> int \<Rightarrow> LedgerHeader option" where
  "LoadFromDb S kv seq = map_option (parse_header S) (kv (ComposePrefix LEDGER_PREFIX seq))"

definition ValidatorsSet :: "encodings \<Rightarrow> (cstring \<Rightarrow> cstring) \<Rightarrow> (cstring \<times> int) list \<Rightarrow> batch_op list" where
  "ValidatorsSet S H vs = [Put (validators_key (H (ser_validators S vs))) (ser_validators S vs)]"

definition ValidatorsGet :: "encodings \<Rightarrow> db \<Rightarrow> cstring \<Rightarrow> (cstring \<times> int) list option" where
  "ValidatorsGet S kv h = Option.bind (kv (validators_key h)) (parse_validators S)"

definition FeesConfigSet :: "encodings \<Rightarrow> (cstring \<Rightarrow> cstring) \<Rightarrow> FeeConfig \<Rightarrow> batch_op list" where
  "FeesConfigSet S H fee = [Put (fees_key (H (ser_fees S fee))) (ser_fees S fee)]"

definition FeesConfigGet :: "encodings \<Rightarrow> db \<Rightarrow> cstring \<Rightarrow> FeeConfig option" where
  "FeesConfigGet S kv h = Option.bind (kv (fees_key h)) (parse_fees S)"

definition GetValidators_db :: "encodings \<Rightarrow> manager \<Rightarrow> int \<Rightarrow> (cstring \<times> int) list option" where
  "GetValidators_db S M seq =
     (case LoadFromDb S (ledger_kv M) seq of
        None \<Rightarrow> None
      | Some h \<Rightarrow> ValidatorsGet S (account_kv M) (lh_validators_hash h))"

definition GetMaxLedger :: "manager \<Rightarrow> int" where
  "GetMaxLedger M = (case ledger_kv M KEY_LEDGER_SEQ of None \<Rightarrow> 0 | Some s \<Rightarrow> sint (Stoi64 s))"

definition GetLastClosedLedger :: "manager \<Rightarrow> LedgerHeader" where
  "GetLastClosedLedger M = lcl_header M"

definition GetCurFeeConfig :: "manager \<Rightarrow> FeeConfig" where
  "GetCurFeeConfig M = m_fees M"

definition ConsensusValueFromDB :: "chain \<Rightarrow> manager \<Rightarrow> int \<Rightarrow> FullValue option" where
  "ConsensusValueFromDB N M seq =
     Option.bind (ledger_kv M (ComposePrefix CONSENSUS_VALUE_PREFIX seq)) (parse_value N)"

section \<open>The node that the ledger makes\<close>

definition load_proof :: "manager \<Rightarrow> cstring" where
  "load_proof M = (case account_kv M LAST_PROOF of None \<Rightarrow> [] | Some p \<Rightarrow> p)"

definition cfg_of :: "encodings \<Rightarrow> ledger_cfg \<Rightarrow> manager \<Rightarrow> ledger_cfg" where
  "cfg_of S C M =
     C\<lparr>version := lh_version (lcl_header M), lcl_seq := lh_seq (lcl_header M), fee_config := m_fees M,
       ledger_cfg.self_chain_id := self_chain M,
       prev_validators := map_option (map fst) (GetValidators_db S M (lh_seq (lcl_header M))), cur_validators := m_validators M,
       ledger_hash := (\<lambda>i. map_option lh_hash (LoadFromDb S (ledger_kv M) i))\<rparr>"

definition node_of :: "encodings \<Rightarrow> node \<Rightarrow> manager \<Rightarrow> node" where
  "node_of S N M =
     N\<lparr>n_chain := (n_chain N)\<lparr>ch_cfg := cfg_of S (ch_cfg (n_chain N)) M, ch_db := tries M\<rparr>,
       n_codec := (n_codec N)\<lparr>codec.self_chain_id := self_chain M\<rparr>, lcl := lcl_header M,
       validators_of := (\<lambda>i. map_option (map fst) (GetValidators_db S M i)), last_proof := load_proof M\<rparr>"

section \<open>Writing the accounts\<close>

text \<open>The contents of a trie: the map under the encoded keys.\<close>

definition trie_of :: "('k \<Rightarrow> cstring) \<Rightarrow> (cstring \<Rightarrow> 'k) \<Rightarrow> ('v \<Rightarrow> cstring) \<Rightarrow> ('k \<rightharpoonup> 'v) \<Rightarrow> cstring \<rightharpoonup> cstring" where
  "trie_of key unkey ser m s = (if key (unkey s) = s then map_option ser (m (unkey s)) else None)"

definition trie_hash :: "encodings \<Rightarrow> (cstring \<Rightarrow> cstring) \<Rightarrow> trie_env" where
  "trie_hash S H = \<lparr>HashCrypto = H, SerializeAsString = ser_node S, ParseFromString = parse_node S\<rparr>"

definition account_root :: "encodings \<Rightarrow> (cstring \<Rightarrow> cstring) \<Rightarrow> ledger_db \<Rightarrow> cstring" where
  "account_root S H D = root_of (trie_hash S H) (trie_of (DecodeAddress S) (EncodeAddress S) (ser_account S) (db_account D))"

definition asset_root :: "encodings \<Rightarrow> (cstring \<Rightarrow> cstring) \<Rightarrow> (AssetKey \<rightharpoonup> AssetStore) \<Rightarrow> cstring" where
  "asset_root S H m = root_of (trie_hash S H) (trie_of (ser_asset_key S) (parse_asset_key S) (ser_asset S) m)"

definition metadata_root :: "encodings \<Rightarrow> (cstring \<Rightarrow> cstring) \<Rightarrow> (cstring \<rightharpoonup> KeyPair) \<Rightarrow> cstring" where
  "metadata_root S H m = root_of (trie_hash S H) (trie_of id id (ser_key_pair S) m)"

text \<open>\<^verbatim>\<open>AccountFrm::UpdateHash\<close>: the cached changes go to the two tries, their roots to the account.\<close>

definition saved_assets :: "AccountFrm \<Rightarrow> (AssetKey \<rightharpoonup> AssetStore) \<Rightarrow> (AssetKey \<rightharpoonup> AssetStore)" where
  "saved_assets frm m k =
     (case assets frm k of
        None \<Rightarrow> m k
      | Some r \<Rightarrow>
          (case action r of
             ADD \<Rightarrow> if as_amount (cdata r) = 0 then None else Some (cdata r)
           | MOD \<Rightarrow> if as_amount (cdata r) = 0 then None else Some (cdata r)
           | DEL \<Rightarrow> None
           | _ \<Rightarrow> m k))"

definition saved_metadata :: "AccountFrm \<Rightarrow> (cstring \<rightharpoonup> KeyPair) \<Rightarrow> (cstring \<rightharpoonup> KeyPair)" where
  "saved_metadata frm m k =
     (case metadata frm k of
        None \<Rightarrow> m k
      | Some r \<Rightarrow>
          (case action r of
             ADD \<Rightarrow> Some (cdata r)
           | MOD \<Rightarrow> Some (cdata r)
           | DEL \<Rightarrow> None
           | _ \<Rightarrow> m k))"

definition hashed_account :: "encodings \<Rightarrow> (cstring \<Rightarrow> cstring) \<Rightarrow> ledger_db \<Rightarrow> cstring \<Rightarrow> AccountFrm \<Rightarrow> Account" where
  "hashed_account S H D a frm =
     (account_info frm)\<lparr>assets_hash := asset_root S H (saved_assets frm (db_asset D a)),
        metadatas_hash := metadata_root S H (saved_metadata frm (db_metadata D a))\<rparr>"

text \<open>\<^verbatim>\<open>LedgerFrm::Commit\<close> over the entries of the environment.\<close>

definition Commit_ledger :: "encodings \<Rightarrow> (cstring \<Rightarrow> cstring) \<Rightarrow> (cstring \<rightharpoonup> AccountFrm) \<Rightarrow> ledger_db \<Rightarrow> ledger_db" where
  "Commit_ledger S H entries D =
     \<lparr>db_account = (\<lambda>a. case entries a of None \<Rightarrow> db_account D a | Some frm \<Rightarrow> Some (hashed_account S H D a frm)),
      db_asset = (\<lambda>a. case entries a of None \<Rightarrow> db_asset D a | Some frm \<Rightarrow> saved_assets frm (db_asset D a)),
      db_metadata = (\<lambda>a. case entries a of None \<Rightarrow> db_metadata D a | Some frm \<Rightarrow> saved_metadata frm (db_metadata D a))\<rparr>"

section \<open>Closing a ledger\<close>

text \<open>
  The transactions that a run has put into its ledger: those it has not dropped, and in a following
  run those whose fee could be paid.
\<close>

definition transaction_envs :: "chain \<Rightarrow> attempt \<Rightarrow> LedgerContext \<Rightarrow> TransactionEnv list" where
  "transaction_envs N a c =
     (let v = ConsensusValue.truncate (lc_value c) in
      case lc_mode c of
        APPLY_MODE_PROPOSE \<Rightarrow> keep_txs (need_dropped_tx (lc_result c)) 0 (txs v)
      | APPLY_MODE_CHECK \<Rightarrow> txs v
      | APPLY_MODE_FOLLOW \<Rightarrow>
          (case CheckConsValueValidation v of
             None \<Rightarrow> []
           | Some (expire_check, _) \<Rightarrow> follow_envs (ch_cfg N) (ch_db N) (run_exec a) expire_check 0 (txs v) (new_ledger_st v)))"

text \<open>The validators of the new ledger, and whether they are saved.\<close>

definition new_validators :: "FullValue \<Rightarrow> (cstring \<times> int) list \<Rightarrow> env_world \<Rightarrow> (bool \<times> (cstring \<times> int) list) \<times> env_world" where
  "new_validators v old w =
     (case ledger_upgrade v of
        Some up \<Rightarrow> if new_validator up \<noteq> [] then ((True, [(new_validator up, 0)]), w) else GetVotedValidators old w base_env
      | None \<Rightarrow> GetVotedValidators old w base_env)"

definition new_version :: "FullValue \<Rightarrow> int \<Rightarrow> int" where
  "new_version v old =
     (case ledger_upgrade v of
        None \<Rightarrow> old
      | Some up \<Rightarrow> if new_ledger_version up > 0 then new_ledger_version up else old)"

text \<open>The part of \<^verbatim>\<open>CloseLedger\<close> after the run: header, databases, and the state of the manager.\<close>

definition close_with ::
  "encodings \<Rightarrow> chain \<Rightarrow> FullValue \<Rightarrow> cstring \<Rightarrow> LedgerHeader \<Rightarrow> TransactionEnv list \<Rightarrow> env_world \<Rightarrow> manager \<Rightarrow> manager" where
  "close_with S N v proof hdr envs w M =
     (let H = crypto N;
          D = Commit_ledger S H (accts w (e_data base_env)) (tries M);
          ((set_changed, new_set), w1) = new_validators v (m_validators M) w;
          ((fee_changed, new_fees), w2) = GetVotedFee (m_fees M) w1 base_env;
          vs = (if set_changed then new_set else m_validators M);
          fees = (if fee_changed then new_fees else m_fees M);
          hdr1 = hdr\<lparr>lh_seq := ledger_seq v, lh_close_time := close_time v, lh_previous_hash := previous_ledger_hash v,
             lh_consensus_value_hash := value_hash N v, lh_chain_id := self_chain M,
             lh_version := new_version v (lh_version (last_closed_ledger M)),
             lh_account_tree_hash := account_root S H D, lh_tx_count := lh_tx_count (last_closed_ledger M) + int (length envs),
             lh_hash := [], lh_validators_hash := H (ser_validators S new_set), lh_fees_hash := H (ser_fees S fees)\<rparr>;
          hdr2 = hdr1\<lparr>lh_hash := H (ser_ledger S hdr1 envs)\<rparr>;
          account_batch = [Put KEY_LEDGER_SEQ (seq_string (ledger_seq v))] @ (if set_changed then ValidatorsSet S H new_set else []) @
             (if fee_changed then FeesConfigSet S H new_fees else []) @ [Put LAST_PROOF proof];
          ledger_batch = [Put (ComposePrefix CONSENSUS_VALUE_PREFIX (ledger_seq v)) (ser_value N v),
             Put KEY_LEDGER_SEQ (seq_string (lh_seq hdr2)), Put (ComposePrefix LEDGER_PREFIX (lh_seq hdr2)) (ser_header S hdr2)]
      in M\<lparr>tries := D, account_kv := WriteBatch account_batch (account_kv M), ledger_kv := WriteBatch ledger_batch (ledger_kv M),
           last_closed_ledger := hdr2, m_validators := vs, m_fees := fees, m_proof := proof\<rparr>)"

text \<open>\<^verbatim>\<open>NotifyLedgerClose\<close>: the header for readers, the call for the consensus, and the contexts that are done.\<close>

definition NotifyLedgerClose :: "bool \<Rightarrow> manager \<Rightarrow> context_st \<Rightarrow> manager \<times> context_st" where
  "NotifyLedgerClose has_upgrade M m =
     (M\<lparr>lcl_header := last_closed_ledger M, posted := posted M @ [(m_validators M, m_proof M, has_upgrade)]\<rparr>,
      RemoveCompleted (lh_seq (last_closed_ledger M)) m)"

definition CloseLedger ::
  "encodings \<Rightarrow> node \<Rightarrow> FullValue \<Rightarrow> cstring \<Rightarrow> attempt \<Rightarrow> manager \<Rightarrow> context_st \<Rightarrow> (bool \<times> manager \<times> context_st) option" where
  "CloseLedger S N0 v proof a M m =
     (let N = node_of S N0 M in
      if \<not> CheckValueAndProof N (ser_value (n_chain N) v) proof then Some (False, M, m)
      else case SyncProcess (n_chain N) v a m of
        None \<Rightarrow> None
      | Some None \<Rightarrow> Some (False, M, m)
      | Some (Some c) \<Rightarrow>
          let M1 = close_with S (n_chain N) v proof (lc_header c) (transaction_envs (n_chain N) a c) (world (lc_ledger c)) M
          in Some (True, NotifyLedgerClose (ledger_upgrade v \<noteq> None) M1 m))"

text \<open>The result of \<^verbatim>\<open>OnConsent\<close> is 1 for a value that is closed already, else 0.\<close>

definition OnConsent ::
  "encodings \<Rightarrow> node \<Rightarrow> int \<Rightarrow> FullValue \<Rightarrow> cstring \<Rightarrow> attempt \<Rightarrow> manager \<Rightarrow> context_st \<Rightarrow> (int \<times> manager \<times> context_st) option" where
  "OnConsent S N0 now v proof a M m =
     (let seq = lh_seq (last_closed_ledger M) in
      if seq \<ge> ledger_seq v then Some (1, M, m)
      else if seq + 1 = ledger_seq v
      then map_option (\<lambda>(_, M1, m1). (0, M1, m1)) (CloseLedger S N0 v proof a (M\<lparr>update_time := now\<rparr>) m)
      else Some (0, M, m))"

section \<open>The first ledger and the start\<close>

record genesis_configure =
  gen_account :: cstring
  gen_validators :: "cstring list"
  gen_fees :: FeeConfig
  gen_chain_id :: int
  gen_slogan :: cstring

definition empty_value :: FullValue where
  "empty_value = \<lparr>txs = [], close_time = 0, ledger_seq = 0, validation = None, previous_ledger_hash = [], previous_proof = [],
     ledger_upgrade = None\<rparr>"

definition genesis_request :: FullValue where
  "genesis_request = empty_value\<lparr>ledger_upgrade := Some (empty_upgrade\<lparr>new_ledger_version := 1000\<rparr>)\<rparr>"

definition genesis_tries :: "genesis_configure \<Rightarrow> ledger_db \<Rightarrow> ledger_db" where
  "genesis_tries G D =
     D\<lparr>db_account := fold (\<lambda>a m. m(a \<mapsto> account_info (CreatAccountFrm a 0))) (gen_validators G)
        ((db_account D)(gen_account G \<mapsto> account_info (CreatAccountFrm (gen_account G) 100000000000000000)))\<rparr>"

text \<open>\<open>None\<close>: the genesis account is among the validators.\<close>

definition CreateGenesisAccount :: "encodings \<Rightarrow> chain \<Rightarrow> genesis_configure \<Rightarrow> manager \<Rightarrow> manager option" where
  "CreateGenesisAccount S N G M =
     (if gen_account G \<in> set (gen_validators G) then None
      else
        let H = crypto N; D = genesis_tries G (tries M); vs = map (\<lambda>a. (a, 0)) (gen_validators G); fees = gen_fees G;
            hdr = empty_header\<lparr>lh_previous_hash := [], lh_seq := 1, lh_close_time := 0,
              lh_consensus_value_hash := value_hash N genesis_request, lh_chain_id := gen_chain_id G, lh_version := 1000, lh_tx_count := 0,
              lh_account_tree_hash := account_root S H D, lh_validators_hash := H (ser_validators S vs),
              lh_fees_hash := H (ser_fees S fees), lh_reserve := gen_slogan G, lh_hash := []\<rparr>;
            hdr1 = hdr\<lparr>lh_hash := H (ser_ledger S hdr [])\<rparr>;
            account_batch = [Put KEY_LEDGER_SEQ (lit ''1''), Put KEY_GENE_ACCOUNT (gen_account G)] @ ValidatorsSet S H vs @ FeesConfigSet S H fees;
            ledger_batch = [Put KEY_LEDGER_SEQ (seq_string 1), Put (ComposePrefix LEDGER_PREFIX 1) (ser_header S hdr1)]
        in Some (M\<lparr>tries := D, m_validators := vs, m_fees := fees, last_closed_ledger := hdr1,
             ledger_kv := WriteBatch ledger_batch (ledger_kv M), account_kv := WriteBatch account_batch (account_kv M)\<rparr>))"

definition new_manager :: "ledger_db \<Rightarrow> db \<Rightarrow> db \<Rightarrow> manager" where
  "new_manager D akv lkv =
     \<lparr>tries = D, account_kv = akv, ledger_kv = lkv, last_closed_ledger = empty_header, lcl_header = empty_header, m_validators = [],
      m_fees = \<lparr>gas_price_cfg = 0, base_reserve = 0\<rparr>, m_proof = [], self_chain = 0, update_time = 0, sync_peers = [],
      chain_max_ledger_probaly = 0, posted = []\<rparr>"

text \<open>What the start reads once the last header is there; \<open>None\<close> ends the program.\<close>

definition load_state :: "encodings \<Rightarrow> chain \<Rightarrow> manager \<Rightarrow> manager option" where
  "load_state S N M0 =
     (let hdr = last_closed_ledger M0; M = M0\<lparr>lcl_header := hdr\<rparr> in
      case ValidatorsGet S (account_kv M) (lh_validators_hash hdr) of
        None \<Rightarrow> None
      | Some vs \<Rightarrow>
          (case FeesConfigGet S (account_kv M) (lh_fees_hash hdr) of
             None \<Rightarrow> None
           | Some fees \<Rightarrow>
               if lh_account_tree_hash hdr \<noteq> account_root S (crypto N) (tries M) then None
               else if lh_version hdr > LEDGER_VERSION then None
               else Some (M\<lparr>m_validators := vs, m_fees := fees, self_chain := lh_chain_id hdr, m_proof := load_proof M,
                      posted := posted M @ [(vs, load_proof M, False)]\<rparr>)))"

text \<open>
  \<^verbatim>\<open>CheckAndRepairLedgerSeq\<close>: on Linux it does nothing, elsewhere it takes back a ledger that was
  written to the ledger database only.
\<close>

definition CheckAndRepairLedgerSeq :: "bool \<Rightarrow> manager \<Rightarrow> manager option" where
  "CheckAndRepairLedgerSeq linux M =
     (if linux then Some M
      else case (ledger_kv M KEY_LEDGER_SEQ, account_kv M KEY_LEDGER_SEQ) of
        (None, None) \<Rightarrow> Some M
      | (Some l, Some a) \<Rightarrow>
          if Stoi64 a = Stoi64 l then Some M
          else if Stoi64 a \<noteq> Stoi64 l - 1 then None
          else Some (M\<lparr>ledger_kv := (ledger_kv M)(KEY_LEDGER_SEQ \<mapsto> a)\<rparr>)
      | _ \<Rightarrow> None)"

definition Initialize_manager ::
  "encodings \<Rightarrow> chain \<Rightarrow> genesis_configure \<Rightarrow> bool \<Rightarrow> ledger_db \<Rightarrow> db \<Rightarrow> db \<Rightarrow> manager option" where
  "Initialize_manager S N G linux D akv lkv =
     (case CheckAndRepairLedgerSeq linux (new_manager D akv lkv) of
        None \<Rightarrow> None
      | Some M \<Rightarrow>
          if account_kv M KEY_LEDGER_SEQ \<noteq> None then
            (case LoadFromDb S (ledger_kv M) (GetMaxLedger M) of
               None \<Rightarrow> None
             | Some hdr \<Rightarrow> load_state S N (M\<lparr>last_closed_ledger := hdr\<rparr>))
          else Option.bind (CreateGenesisAccount S N G M) (load_state S N))"

section \<open>Synchronization\<close>

text \<open>The messages that are sent are part of the results.\<close>

definition RequestConsensusValues :: "int \<Rightarrow> GetLedgers \<Rightarrow> int \<Rightarrow> manager \<Rightarrow> (int \<times> GetLedgers) \<times> manager" where
  "RequestConsensusValues pid gl time M =
     (let st = (case map_of (sync_peers M) pid of None \<Rightarrow> new_SyncStat | Some x \<Rightarrow> x)
      in ((pid, gl), M\<lparr>sync_peers := om_assign pid (st\<lparr>sync_gl := gl, send_time := time\<rparr>) (sync_peers M), update_time := time\<rparr>))"

definition SYNC_INTERVAL :: int where "SYNC_INTERVAL = 30 * 1000000"

text \<open>The peers that may be asked; a request that has not been answered in time is forgotten.\<close>

fun enable_peers :: "int \<Rightarrow> int list \<Rightarrow> (int \<times> SyncStat) list \<Rightarrow> int list \<times> (int \<times> SyncStat) list" where
  "enable_peers current_time [] peers = ([], peers)"
| "enable_peers current_time (pid # pids) peers =
     (case map_of peers pid of
        None \<Rightarrow> apfst ((#) pid) (enable_peers current_time pids peers)
      | Some st \<Rightarrow>
          let st1 = (if current_time - send_time st > SYNC_INTERVAL then st\<lparr>send_time := 0\<rparr> else st);
              peers1 = om_assign pid st1 peers in
          if probation st1 > current_time \<or> send_time st1 \<noteq> 0 then enable_peers current_time pids peers1
          else apfst ((#) pid) (enable_peers current_time pids peers1))"

fun request_all :: "int list \<Rightarrow> GetLedgers \<Rightarrow> int \<Rightarrow> manager \<Rightarrow> (int \<times> GetLedgers) list \<times> manager" where
  "request_all [] gl time M = ([], M)"
| "request_all (pid # pids) gl time M =
     (let (msg, M1) = RequestConsensusValues pid gl time M in apfst ((#) msg) (request_all pids gl time M1))"

definition OnTimer_manager :: "int list \<Rightarrow> int \<Rightarrow> manager \<Rightarrow> (int \<times> GetLedgers) list \<times> manager" where
  "OnTimer_manager active_peers current_time M =
     (if current_time - update_time M \<le> SYNC_INTERVAL then ([], M)
      else
        let next_seq = lh_seq (last_closed_ledger M) + 1;
            gl = \<lparr>gl_begin = next_seq, gl_end = next_seq, gl_timestamp = current_time, gl_chain_id = self_chain M\<rparr>;
            (enabled, peers) = enable_peers current_time active_peers (filter (\<lambda>(pid, _). pid \<in> set active_peers) (sync_peers M))
        in request_all enabled gl current_time (M\<lparr>sync_peers := peers, update_time := current_time\<rparr>))"

text \<open>The stored values from \<open>i\<close> on, \<open>n\<close> of them.\<close>

fun stored_values :: "chain \<Rightarrow> manager \<Rightarrow> int \<Rightarrow> nat \<Rightarrow> FullValue list option" where
  "stored_values N M i 0 = Some []"
| "stored_values N M i (Suc n) =
     (case ConsensusValueFromDB N M i of
        None \<Rightarrow> None
      | Some v \<Rightarrow> map_option ((#) v) (stored_values N M (i + 1) n))"

definition OnRequestLedgers :: "chain \<Rightarrow> GetLedgers \<Rightarrow> manager \<Rightarrow> Ledgers option" where
  "OnRequestLedgers N message M =
     (let seq = lh_seq (last_closed_ledger M); b = gl_begin message; e = gl_end message in
      if gl_chain_id message \<noteq> self_chain M then None
      else if wrap64 (wrap64 (e - b) + 1) > 5 then None
      else if wrap64 (e - b) < 0 then None
      else if seq < e then None
      else case stored_values N M b (nat (e - b + 1)) of
        None \<Rightarrow> None
      | Some vs \<Rightarrow>
          Some \<lparr>lg_values = vs, lg_max_seq = seq,
            lg_proof = (if e = seq then m_proof M
                        else case ConsensusValueFromDB N M (e + 1) of None \<Rightarrow> [] | Some next \<Rightarrow> previous_proof next),
            lg_chain_id = self_chain M\<rparr>)"

text \<open>The loop over the received values: whether the last attempt to close one succeeded.\<close>

fun receive_loop ::
  "encodings \<Rightarrow> node \<Rightarrow> cstring \<Rightarrow> (nat \<Rightarrow> attempt) \<Rightarrow> FullValue list \<Rightarrow> bool \<Rightarrow> manager \<Rightarrow> context_st \<Rightarrow>
     ((bool \<times> bool) \<times> manager \<times> context_st) option" where
  "receive_loop S N0 proof atts [] valid M m = Some ((valid, False), M, m)"
| "receive_loop S N0 proof atts (v # vs) valid M m =
     (if ledger_seq v = lh_seq (last_closed_ledger M) + 1 then
        (case CloseLedger S N0 v (case vs of [] \<Rightarrow> proof | w # _ \<Rightarrow> previous_proof w) (atts 0) M m of
           None \<Rightarrow> None
         | Some (ok, M1, m1) \<Rightarrow>
             if \<not> ok then Some ((False, True), M1, m1)
             else receive_loop S N0 proof (\<lambda>k. atts (Suc k)) vs True M1 m1)
      else receive_loop S N0 proof (\<lambda>k. atts (Suc k)) vs valid M m)"

definition PROBATION :: int where "PROBATION = 60 * 1000000"

definition OnReceiveLedgers ::
  "encodings \<Rightarrow> node \<Rightarrow> (nat \<Rightarrow> attempt) \<Rightarrow> int \<Rightarrow> Ledgers \<Rightarrow> int \<Rightarrow> manager \<Rightarrow> context_st \<Rightarrow>
     ((int \<times> GetLedgers) list \<times> manager \<times> context_st) option" where
  "OnReceiveLedgers S N0 atts now ledgers peer_id M m =
     (if lg_chain_id ledgers \<noteq> self_chain M then Some ([], M, m)
      else if lg_values ledgers = [] then Some ([], M, m)
      else case map_of (sync_peers M) peer_id of
        None \<Rightarrow> Some ([], M, m)
      | Some itm \<Rightarrow>
          (let b = ledger_seq (hd (lg_values ledgers)); e = ledger_seq (last (lg_values ledgers));
               gl = sync_gl itm; gl0 = gl\<lparr>gl_begin := 0, gl_end := 0\<rparr>;
               put = (\<lambda>x M. M\<lparr>sync_peers := om_assign peer_id x (sync_peers M)\<rparr>) in
           if b \<noteq> gl_begin gl \<or> e \<noteq> gl_end gl
           then Some ([], put (itm\<lparr>send_time := 0, probation := now + PROBATION, sync_gl := gl0\<rparr>) M, m)
           else
             let itm1 = itm\<lparr>send_time := 0, sync_gl := gl0\<rparr> in
             case receive_loop S N0 (lg_proof ledgers) atts (lg_values ledgers) False (put itm1 M) m of
               None \<Rightarrow> None
             | Some ((valid, refused), M1, m1) \<Rightarrow>
                 let M2 = (if refused then put (itm1\<lparr>probation := now + PROBATION\<rparr>) M1 else M1);
                     next_seq = lh_seq (last_closed_ledger M2) + 1 in
                 if \<not> valid then Some ([], M2, m1)
                 else
                   let (sent, M3) = (if next_seq \<le> lg_max_seq ledgers then
                          apfst (\<lambda>msg. [msg]) (RequestConsensusValues peer_id
                            \<lparr>gl_begin = next_seq, gl_end = min (lg_max_seq ledgers) (next_seq + 4), gl_timestamp = now, gl_chain_id = self_chain M2\<rparr>
                            now M2)
                        else ([], M2))
                   in Some (sent, M3\<lparr>chain_max_ledger_probaly := max (lg_max_seq ledgers) (chain_max_ledger_probaly M3)\<rparr>, m1)))"

section \<open>A committed value\<close>

text \<open>The result: the hash of the last closed ledger and the time at which the next proposal is due.\<close>

definition OnValueCommited ::
  "encodings \<Rightarrow> node \<Rightarrow> int \<Rightarrow> cstring \<Rightarrow> cstring \<Rightarrow> attempt \<Rightarrow> glue_st \<Rightarrow> manager \<Rightarrow> ((cstring \<times> int) \<times> glue_st \<times> manager) option" where
  "OnValueCommited S N0 now value proof a g M =
     (let req = (case parse_value (n_chain N0) value of None \<Rightarrow> empty_value | Some v \<Rightarrow> v) in
      case OnConsent S N0 now req proof a M (contexts g) of
        None \<Rightarrow> None
      | Some (_, M1, m1) \<Rightarrow>
          let pool = snd (RemoveTxs (map (tx_of N0 0) (txs req)) True (tx_pool g));
              next_timestamp = GetIntervalTime N0 (txs req = []) + close_time req
          in Some ((lh_hash (lcl_header M1), next_timestamp),
                   StartLedgerCloseTimer now (g\<lparr>contexts := m1, tx_pool := pool\<rparr>), M1))"

text \<open>What is posted with it: the leader waits until the time is reached, at least one microsecond.\<close>

definition waiting_time :: "int \<Rightarrow> int \<Rightarrow> PbftState \<Rightarrow> int option" where
  "waiting_time now next_timestamp P =
     (if IsLeader P \<noteq> 0 then Some (let w = next_timestamp - now in if w \<le> 0 then 1 else w) else None)"

definition UpdateValidators_glue :: "node \<Rightarrow> (cstring \<times> int) list \<Rightarrow> cstring \<Rightarrow> PbftState \<Rightarrow> (bool \<times> PbftState) option" where
  "UpdateValidators_glue N vs proof P = UpdateValidators (n_keys N) (n_codec N) (map fst vs) proof P"

text \<open>The oldest posted call of \<^verbatim>\<open>NotifyLedgerClose\<close> runs in the thread of the consensus.\<close>

definition run_posted :: "node \<Rightarrow> glue_st \<Rightarrow> PbftState \<Rightarrow> manager \<Rightarrow> (glue_st \<times> PbftState \<times> manager) option" where
  "run_posted N g P M =
     (case posted M of
        [] \<Rightarrow> Some (g, P, M)
      | (vs, proof, has_upgrade) # rest \<Rightarrow>
          map_option (\<lambda>(_, P1). (if has_upgrade then LedgerHasUpgrade_glue g else g, P1, M\<lparr>posted := rest\<rparr>))
            (UpdateValidators_glue N vs proof P))"

text \<open>A message of the consensus; values in it are checked with \<^verbatim>\<open>CheckValue\<close>.\<close>

definition OnConsensus :: "node \<Rightarrow> (cstring \<Rightarrow> CheckValueResult) \<Rightarrow> ConsensusMsg \<Rightarrow> PbftState \<Rightarrow> (bool \<times> PbftState) option" where
  "OnConsensus N check_value msg P = OnRecv (n_keys N) (n_codec N) check_value msg P"

end
