(* ===== verification/Ledger_Chain.thy ===== *)
theory Ledger_Chain
  imports Ledger_Manager
begin

text \<open>
  The invariant of the chain of ledgers that a node keeps, over all runs of closing and
  synchronizing, and the start from the databases.
\<close>

section \<open>Keys\<close>

lemma BinToHexString_inject: "BinToHexString a = BinToHexString b \<longleftrightarrow> a = b"
  by (metis hex_pairs_BinToHexString option.inject)

lemma sint_word_of_int: "int64 n \<Longrightarrow> sint (word_of_int n :: u64) = n"
  by (simp add: int64_def sint_sbintrunc' signed_take_bit_int_eq_self)

lemma Stoi64_seq_string: "int64 n \<Longrightarrow> sint (Stoi64 (seq_string n)) = n"
  by (simp add: seq_string_def ToString_int64_def Stoi64_def strtoll_dec_int sint_word_of_int int64_def)

lemma seq_string_inject: "int64 m \<Longrightarrow> int64 n \<Longrightarrow> seq_string m = seq_string n \<longleftrightarrow> m = n"
  by (metis Stoi64_seq_string)

lemma account_keys [simp]:
  "KEY_LEDGER_SEQ \<noteq> LAST_PROOF" "LAST_PROOF \<noteq> KEY_LEDGER_SEQ" "KEY_LEDGER_SEQ \<noteq> validators_key h" "validators_key h \<noteq> KEY_LEDGER_SEQ"
  "KEY_LEDGER_SEQ \<noteq> fees_key h" "fees_key h \<noteq> KEY_LEDGER_SEQ" "LAST_PROOF \<noteq> validators_key h" "validators_key h \<noteq> LAST_PROOF"
  "LAST_PROOF \<noteq> fees_key h" "fees_key h \<noteq> LAST_PROOF" "validators_key h \<noteq> fees_key h'" "fees_key h' \<noteq> validators_key h"
  by (simp_all add: KEY_LEDGER_SEQ_def LAST_PROOF_def validators_key_def fees_key_def lit_def)

lemma genesis_keys [simp]:
  "KEY_GENE_ACCOUNT \<noteq> KEY_LEDGER_SEQ" "KEY_LEDGER_SEQ \<noteq> KEY_GENE_ACCOUNT" "KEY_GENE_ACCOUNT \<noteq> LAST_PROOF" "LAST_PROOF \<noteq> KEY_GENE_ACCOUNT"
  by (simp_all add: KEY_GENE_ACCOUNT_def KEY_LEDGER_SEQ_def LAST_PROOF_def lit_def)

lemma hash_keys_inject [simp]: "validators_key h = validators_key h' \<longleftrightarrow> h = h'" "fees_key h = fees_key h' \<longleftrightarrow> h = h'"
  by (simp_all add: validators_key_def fees_key_def BinToHexString_inject)

lemma ledger_keys [simp]:
  "ComposePrefix CONSENSUS_VALUE_PREFIX i \<noteq> ComposePrefix LEDGER_PREFIX j" "ComposePrefix LEDGER_PREFIX j \<noteq> ComposePrefix CONSENSUS_VALUE_PREFIX i"
  "KEY_LEDGER_SEQ \<noteq> ComposePrefix LEDGER_PREFIX j" "ComposePrefix LEDGER_PREFIX j \<noteq> KEY_LEDGER_SEQ"
  "KEY_LEDGER_SEQ \<noteq> ComposePrefix CONSENSUS_VALUE_PREFIX j" "ComposePrefix CONSENSUS_VALUE_PREFIX j \<noteq> KEY_LEDGER_SEQ"
  by (simp_all add: KEY_LEDGER_SEQ_def ComposePrefix_def CONSENSUS_VALUE_PREFIX_def LEDGER_PREFIX_def lit_def)

lemma ComposePrefix_inject: "int64 i \<Longrightarrow> int64 j \<Longrightarrow> ComposePrefix pre i = ComposePrefix pre j \<longleftrightarrow> i = j"
  by (simp add: ComposePrefix_def seq_string_inject)

section \<open>What the encodings must do\<close>

text \<open>
  A stored message can be read back, a value read from a message is read back as the same value, and
  the hash function does not collide.
\<close>

definition codec_ok :: "encodings \<Rightarrow> chain \<Rightarrow> bool" where
  "codec_ok S N \<longleftrightarrow>
     (\<forall>h. parse_header S (ser_header S h) = h) \<and> (\<forall>vs. parse_validators S (ser_validators S vs) = Some vs) \<and>
     (\<forall>f. parse_fees S (ser_fees S f) = Some f) \<and> (\<forall>s v. parse_value N s = Some v \<longrightarrow> parse_value N (ser_value N v) = Some v) \<and>
     inj (crypto N)"

lemma codec_okD:
  assumes "codec_ok S N"
  shows "parse_header S (ser_header S h) = h" and "parse_validators S (ser_validators S vs) = Some vs"
    and "parse_fees S (ser_fees S f) = Some f" and "parse_value N s = Some v \<Longrightarrow> parse_value N (ser_value N v) = Some v"
    and "crypto N x = crypto N y \<longleftrightarrow> x = y"
    and "ser_validators S x1 = ser_validators S y1 \<longleftrightarrow> x1 = y1" and "ser_fees S x2 = ser_fees S y2 \<longleftrightarrow> x2 = y2"
  using assms by (auto simp: codec_ok_def inj_eq) (metis option.inject)+

text \<open>A value that has come in a message.\<close>

definition wire_value :: "chain \<Rightarrow> FullValue \<Rightarrow> bool" where
  "wire_value N v \<longleftrightarrow> (\<exists>s. parse_value N s = Some v) \<and> int64 (ledger_seq v)"

section \<open>One closing\<close>

lemma new_validators_old: "new_validators v old w = ((False, new_set), w1) \<Longrightarrow> new_set = old"
  by (auto simp: new_validators_def GetVotedValidators_def Let_def split: option.splits if_splits prod.splits)

lemma close_with_fields:
  assumes "M1 = close_with S N v proof hdr envs w M"
  shows "lh_seq (last_closed_ledger M1) = ledger_seq v" and "lh_previous_hash (last_closed_ledger M1) = previous_ledger_hash v"
    and "lh_consensus_value_hash (last_closed_ledger M1) = value_hash N v" and "lh_chain_id (last_closed_ledger M1) = self_chain M"
    and "lh_version (last_closed_ledger M1) = new_version v (lh_version (last_closed_ledger M))"
    and "lh_account_tree_hash (last_closed_ledger M1) = account_root S (crypto N) (tries M1)"
    and "lh_validators_hash (last_closed_ledger M1) = crypto N (ser_validators S (m_validators M1))"
    and "lh_fees_hash (last_closed_ledger M1) = crypto N (ser_fees S (m_fees M1))"
    and "m_proof M1 = proof" and "self_chain M1 = self_chain M" and "lcl_header M1 = lcl_header M"
    and "ledger_kv M1 = (ledger_kv M)(ComposePrefix CONSENSUS_VALUE_PREFIX (ledger_seq v) \<mapsto> ser_value N v,
           KEY_LEDGER_SEQ \<mapsto> seq_string (ledger_seq v), ComposePrefix LEDGER_PREFIX (ledger_seq v) \<mapsto> ser_header S (last_closed_ledger M1))"
    and "account_kv M1 KEY_LEDGER_SEQ = Some (seq_string (ledger_seq v))" and "account_kv M1 LAST_PROOF = Some proof"
  using assms
  by (auto simp: close_with_def Let_def WriteBatch_def ValidatorsSet_def FeesConfigSet_def split: prod.splits dest: new_validators_old)

lemmas close_batches = close_with_def Let_def WriteBatch_def ValidatorsSet_def FeesConfigSet_def ValidatorsGet_def FeesConfigGet_def

lemma validators_kept:
  assumes "codec_ok S N" and "M1 = close_with S N v proof hdr envs w M"
    and "ValidatorsGet S (account_kv M) (crypto N (ser_validators S vs)) = Some vs"
  shows "ValidatorsGet S (account_kv M1) (crypto N (ser_validators S vs)) = Some vs"
  using assms(2,3) codec_okD(2,5,6) [OF assms(1)] by (auto simp: close_batches split: prod.splits)

lemma settings_saved:
  assumes "codec_ok S N" and "M1 = close_with S N v proof hdr envs w M"
    and "ValidatorsGet S (account_kv M) (crypto N (ser_validators S (m_validators M))) = Some (m_validators M)"
    and "FeesConfigGet S (account_kv M) (crypto N (ser_fees S (m_fees M))) = Some (m_fees M)"
  shows "ValidatorsGet S (account_kv M1) (crypto N (ser_validators S (m_validators M1))) = Some (m_validators M1)"
    and "FeesConfigGet S (account_kv M1) (crypto N (ser_fees S (m_fees M1))) = Some (m_fees M1)"
  using assms(2-4) codec_okD(2,3,5-7) [OF assms(1)] by (auto simp: close_batches split: prod.splits)

lemma LoadFromDb_close:
  assumes "codec_ok S N" and "M1 = close_with S N v proof hdr envs w M" and "int64 i" and "int64 (ledger_seq v)"
  shows "LoadFromDb S (ledger_kv M1) i = (if i = ledger_seq v then Some (last_closed_ledger M1) else LoadFromDb S (ledger_kv M) i)"
  using assms(3,4) codec_okD(1) [OF assms(1)] by (simp add: LoadFromDb_def close_with_fields(12) [OF assms(2)] ComposePrefix_inject)

lemma ConsensusValueFromDB_close:
  assumes "M1 = close_with S N v proof hdr envs w M" and "int64 i" and "int64 (ledger_seq v)" and "parse_value N (ser_value N v) = Some v"
  shows "ConsensusValueFromDB N M1 i = (if i = ledger_seq v then Some v else ConsensusValueFromDB N M i)"
  using assms(2-4) by (simp add: ConsensusValueFromDB_def close_with_fields(12) [OF assms(1)] ComposePrefix_inject)

section \<open>The chain\<close>

text \<open>Ledger \<open>i\<close> is stored, with its validators.\<close>

definition stored :: "encodings \<Rightarrow> chain \<Rightarrow> manager \<Rightarrow> int \<Rightarrow> bool" where
  "stored S N M i \<longleftrightarrow>
     (\<exists>h vs. LoadFromDb S (ledger_kv M) i = Some h \<and> lh_seq h = i \<and> lh_validators_hash h = crypto N (ser_validators S vs) \<and>
        ValidatorsGet S (account_kv M) (lh_validators_hash h) = Some vs)"

text \<open>Ledger \<open>i\<close> follows ledger \<open>i - 1\<close>: by the hash of its predecessor, and its value is the one it names.\<close>

definition linked :: "encodings \<Rightarrow> chain \<Rightarrow> manager \<Rightarrow> int \<Rightarrow> bool" where
  "linked S N M i \<longleftrightarrow>
     (\<exists>h h' v. LoadFromDb S (ledger_kv M) i = Some h \<and> LoadFromDb S (ledger_kv M) (i - 1) = Some h' \<and>
        ConsensusValueFromDB N M i = Some v \<and> ledger_seq v = i \<and> lh_consensus_value_hash h = value_hash N v \<and>
        lh_previous_hash h = lh_hash h' \<and> previous_ledger_hash v = lh_hash h')"

text \<open>\<open>p\<close> proves that the validators of ledger \<open>i - 1\<close> have agreed on ledger \<open>i\<close>, unless the configuration names it.\<close>

definition proven :: "encodings \<Rightarrow> node \<Rightarrow> manager \<Rightarrow> int \<Rightarrow> cstring \<Rightarrow> bool" where
  "proven S N0 M i p \<longleftrightarrow>
     (\<exists>h vs. LoadFromDb S (ledger_kv M) i = Some h \<and> GetValidators_db S M (i - 1) = Some vs \<and>
        (CheckProof (n_keys N0) ((n_codec N0)\<lparr>codec.self_chain_id := self_chain M\<rparr>) (map fst vs) (lh_consensus_value_hash h) p \<or>
         lh_consensus_value_hash h \<in> hardfork_points N0))"

definition chain_ok :: "encodings \<Rightarrow> node \<Rightarrow> manager \<Rightarrow> bool" where
  "chain_ok S N0 M \<longleftrightarrow>
     (let N = n_chain N0; hdr = last_closed_ledger M; n = lh_seq hdr in
      1 \<le> n \<and> lcl_header M = hdr \<and> LoadFromDb S (ledger_kv M) n = Some hdr \<and>
      ledger_kv M KEY_LEDGER_SEQ = Some (seq_string n) \<and> account_kv M KEY_LEDGER_SEQ = Some (seq_string n) \<and>
      (\<forall>i. 1 \<le> i \<and> i \<le> n \<longrightarrow> stored S N M i) \<and> (\<forall>i. 1 < i \<and> i \<le> n \<longrightarrow> linked S N M i) \<and>
      (\<forall>i v. 1 < i \<and> i < n \<and> ConsensusValueFromDB N M (i + 1) = Some v \<longrightarrow> proven S N0 M i (previous_proof v)) \<and>
      (1 < n \<longrightarrow> proven S N0 M n (m_proof M)) \<and> m_proof M = load_proof M \<and>
      lh_validators_hash hdr = crypto N (ser_validators S (m_validators M)) \<and>
      ValidatorsGet S (account_kv M) (lh_validators_hash hdr) = Some (m_validators M) \<and>
      lh_fees_hash hdr = crypto N (ser_fees S (m_fees M)) \<and> FeesConfigGet S (account_kv M) (lh_fees_hash hdr) = Some (m_fees M) \<and>
      lh_account_tree_hash hdr = account_root S (crypto N) (tries M) \<and> lh_chain_id hdr = self_chain M \<and> lh_version hdr \<le> LEDGER_VERSION)"

lemma chain_okD:
  assumes "chain_ok S N0 M"
  shows "1 \<le> lh_seq (last_closed_ledger M)" and "lcl_header M = last_closed_ledger M"
    and "LoadFromDb S (ledger_kv M) (lh_seq (last_closed_ledger M)) = Some (last_closed_ledger M)"
    and "ledger_kv M KEY_LEDGER_SEQ = Some (seq_string (lh_seq (last_closed_ledger M)))"
    and "account_kv M KEY_LEDGER_SEQ = Some (seq_string (lh_seq (last_closed_ledger M)))"
    and "1 \<le> i \<Longrightarrow> i \<le> lh_seq (last_closed_ledger M) \<Longrightarrow> stored S (n_chain N0) M i"
    and "1 < i \<Longrightarrow> i \<le> lh_seq (last_closed_ledger M) \<Longrightarrow> linked S (n_chain N0) M i"
    and "1 < i \<Longrightarrow> i < lh_seq (last_closed_ledger M) \<Longrightarrow> ConsensusValueFromDB (n_chain N0) M (i + 1) = Some v \<Longrightarrow>
           proven S N0 M i (previous_proof v)"
    and "1 < lh_seq (last_closed_ledger M) \<Longrightarrow> proven S N0 M (lh_seq (last_closed_ledger M)) (m_proof M)"
    and "m_proof M = load_proof M"
    and "lh_validators_hash (last_closed_ledger M) = crypto (n_chain N0) (ser_validators S (m_validators M))"
    and "ValidatorsGet S (account_kv M) (lh_validators_hash (last_closed_ledger M)) = Some (m_validators M)"
    and "lh_fees_hash (last_closed_ledger M) = crypto (n_chain N0) (ser_fees S (m_fees M))"
    and "FeesConfigGet S (account_kv M) (lh_fees_hash (last_closed_ledger M)) = Some (m_fees M)"
    and "lh_account_tree_hash (last_closed_ledger M) = account_root S (crypto (n_chain N0)) (tries M)"
    and "lh_chain_id (last_closed_ledger M) = self_chain M" and "lh_version (last_closed_ledger M) \<le> LEDGER_VERSION"
  using assms unfolding chain_ok_def Let_def by blast+

text \<open>Only these components of the state matter.\<close>

lemma chain_ok_cong:
  assumes "tries M' = tries M" "account_kv M' = account_kv M" "ledger_kv M' = ledger_kv M" "last_closed_ledger M' = last_closed_ledger M"
    "lcl_header M' = lcl_header M" "m_validators M' = m_validators M" "m_fees M' = m_fees M" "m_proof M' = m_proof M"
    "self_chain M' = self_chain M"
  shows "chain_ok S N0 M' = chain_ok S N0 M"
proof -
  have "GetValidators_db S M' = GetValidators_db S M" "ConsensusValueFromDB (n_chain N0) M' = ConsensusValueFromDB (n_chain N0) M"
    "load_proof M' = load_proof M"
    by (simp_all add: fun_eq_iff GetValidators_db_def ConsensusValueFromDB_def load_proof_def assms cong: option.case_cong)
  then show ?thesis unfolding chain_ok_def Let_def stored_def linked_def proven_def assms by simp
qed

text \<open>What the check of a value guarantees.\<close>

lemma CheckValueHelper_valid:
  assumes "CheckValueHelper N v now = CHECK_VALUE_VALID"
  shows "ledger_seq v = lh_seq (lcl N) + 1" and "previous_ledger_hash v = lh_hash (lcl N)"
    and "\<And>up. ledger_upgrade v = Some up \<Longrightarrow> upgrade_acceptable N v up"
    and "lh_seq (lcl N) > 1 \<Longrightarrow> \<exists>vs. validators_of N (ledger_seq v - 2) = Some vs \<and>
           (lh_consensus_value_hash (lcl N) \<in> hardfork_points N \<or>
            CheckProof (n_keys N) (n_codec N) vs (lh_consensus_value_hash (lcl N)) (previous_proof v))"
  using assms by (auto simp: CheckValueHelper_def Let_def split: if_splits option.splits)

lemma CheckValueAndProof_valid:
  assumes "CheckValueAndProof N s proof"
  shows "\<exists>v vs. parse_value (n_chain N) s = Some v \<and> validators_of N (ledger_seq v - 1) = Some vs \<and>
    CheckValueHelper N v (-1) = CHECK_VALUE_VALID \<and>
    (CheckProof (n_keys N) (n_codec N) vs (crypto (n_chain N) s) proof \<or> crypto (n_chain N) s \<in> hardfork_points N)"
  using assms by (auto simp: CheckValueAndProof_def split: option.splits)

lemma node_of_fields [simp]:
  "lcl (node_of S N0 M) = lcl_header M" "hardfork_points (node_of S N0 M) = hardfork_points N0" "n_keys (node_of S N0 M) = n_keys N0"
  "n_codec (node_of S N0 M) = (n_codec N0)\<lparr>codec.self_chain_id := self_chain M\<rparr>"
  "validators_of (node_of S N0 M) = (\<lambda>i. map_option (map fst) (GetValidators_db S M i))"
  "parse_value (n_chain (node_of S N0 M)) = parse_value (n_chain N0)" "ser_value (n_chain (node_of S N0 M)) = ser_value (n_chain N0)"
  "crypto (n_chain (node_of S N0 M)) = crypto (n_chain N0)" "value_hash (n_chain (node_of S N0 M)) = value_hash (n_chain N0)"
  by (simp_all add: node_of_def value_hash_def fun_eq_iff)

lemma close_with_node: "close_with S (n_chain (node_of S N0 M)) = close_with S (n_chain N0)"
  by (simp add: close_with_def fun_eq_iff)

text \<open>A ledger that is closed.\<close>

lemma CloseLedger_closed:
  assumes "CloseLedger S N0 v proof a M m = Some (True, M1, m1)"
  shows "\<exists>hdr envs w. let M0 = close_with S (n_chain N0) v proof hdr envs w M in
      M1 = M0\<lparr>lcl_header := last_closed_ledger M0, posted := posted M0 @ [(m_validators M0, m_proof M0, ledger_upgrade v \<noteq> None)]\<rparr> \<and>
      CheckValueAndProof (node_of S N0 M) (ser_value (n_chain N0) v) proof"
  using assms
  by (auto simp: CloseLedger_def Let_def NotifyLedgerClose_def close_with_node split: if_splits option.splits)

lemma CloseLedger_refused: "CloseLedger S N0 v proof a M m = Some (False, M1, m1) \<Longrightarrow> M1 = M \<and> m1 = m"
  by (auto simp: CloseLedger_def Let_def split: if_splits option.splits)

section \<open>Closing keeps the chain\<close>

lemma header_update:
  "stored S N (M\<lparr>lcl_header := h, posted := ps\<rparr>) i = stored S N M i" "linked S N (M\<lparr>lcl_header := h, posted := ps\<rparr>) i = linked S N M i"
  "proven S N0 (M\<lparr>lcl_header := h, posted := ps\<rparr>) i p = proven S N0 M i p"
  "ConsensusValueFromDB N (M\<lparr>lcl_header := h, posted := ps\<rparr>) i = ConsensusValueFromDB N M i"
  "load_proof (M\<lparr>lcl_header := h, posted := ps\<rparr>) = load_proof M"
  by (simp_all add: stored_def linked_def proven_def ConsensusValueFromDB_def GetValidators_db_def load_proof_def cong: option.case_cong)

lemma version_bounded:
  assumes "\<And>up. ledger_upgrade v = Some up \<Longrightarrow> upgrade_acceptable N v up" and "old \<le> LEDGER_VERSION"
  shows "new_version v old \<le> LEDGER_VERSION"
  using assms by (auto simp: new_version_def upgrade_acceptable_def split: option.splits)

lemma stored_close:
  assumes "codec_ok S N" and "M0 = close_with S N v proof hdr envs w M" and "int64 i" and "int64 (ledger_seq v)" and "i \<noteq> ledger_seq v"
    and "stored S N M i"
  shows "stored S N M0 i" and "GetValidators_db S M0 i = GetValidators_db S M i"
proof -
  obtain h vs where h: "LoadFromDb S (ledger_kv M) i = Some h" "lh_seq h = i" "lh_validators_hash h = crypto N (ser_validators S vs)"
    "ValidatorsGet S (account_kv M) (lh_validators_hash h) = Some vs"
    using assms(6) by (auto simp: stored_def)
  have "LoadFromDb S (ledger_kv M0) i = Some h" using LoadFromDb_close [OF assms(1-4)] assms(5) h(1) by simp
  moreover have "ValidatorsGet S (account_kv M0) (lh_validators_hash h) = Some vs"
    using validators_kept [OF assms(1,2)] h(3,4) by simp
  ultimately show "stored S N M0 i" "GetValidators_db S M0 i = GetValidators_db S M i"
    using h by (auto simp: stored_def GetValidators_db_def)
qed

lemma proven_close:
  assumes "codec_ok S (n_chain N0)" and "M0 = close_with S (n_chain N0) v proof hdr envs w M" and "int64 i" and "int64 (i - 1)"
    and "int64 (ledger_seq v)" and "i < ledger_seq v" and "stored S (n_chain N0) M (i - 1)" and "proven S N0 M i p"
  shows "proven S N0 M0 i p"
  using assms(6,8) LoadFromDb_close [OF assms(1-3,5)] stored_close(2) [OF assms(1,2,4,5) _ assms(7)] close_with_fields(10) [OF assms(2)]
  by (auto simp: proven_def)

lemma linked_close:
  assumes "codec_ok S N" and "M0 = close_with S N v proof hdr envs w M" and "int64 i" and "int64 (i - 1)" and "int64 (ledger_seq v)"
    and "parse_value N (ser_value N v) = Some v" and "i < ledger_seq v" and "linked S N M i"
  shows "linked S N M0 i"
  using assms(7,8) LoadFromDb_close [OF assms(1,2) _ assms(5)] assms(3,4) ConsensusValueFromDB_close [OF assms(2,3,5,6)]
  by (auto simp: linked_def)

lemma close_chain:
  assumes ok: "codec_ok S (n_chain N0)" and chain: "chain_ok S N0 M" and small: "lh_seq (last_closed_ledger M) + 1 < 2 ^ 63"
    and close: "CloseLedger S N0 v proof a M m = Some (True, M1, m1)" and parse: "parse_value (n_chain N0) (ser_value (n_chain N0) v) = Some v"
  shows "chain_ok S N0 M1" and "lh_seq (last_closed_ledger M1) = lh_seq (last_closed_ledger M) + 1"
proof -
  let ?N = "n_chain N0" and ?n = "lh_seq (last_closed_ledger M)"
  note old = chain_okD [OF chain]
  obtain hdr envs w M0 where M0: "M0 = close_with S ?N v proof hdr envs w M" and
    M1: "M1 = M0\<lparr>lcl_header := last_closed_ledger M0, posted := posted M0 @ [(m_validators M0, m_proof M0, ledger_upgrade v \<noteq> None)]\<rparr>" and
    check: "CheckValueAndProof (node_of S N0 M) (ser_value ?N v) proof"
    using CloseLedger_closed [OF close] by (auto simp: Let_def)
  obtain vs where valid: "CheckValueHelper (node_of S N0 M) v (-1) = CHECK_VALUE_VALID" "GetValidators_db S M (ledger_seq v - 1) = Some vs"
    "CheckProof (n_keys N0) ((n_codec N0)\<lparr>codec.self_chain_id := self_chain M\<rparr>) (map fst vs) (value_hash ?N v) proof \<or> value_hash ?N v \<in> hardfork_points N0"
    using CheckValueAndProof_valid [OF check] parse by (auto simp: value_hash_def)
  note helper = CheckValueHelper_valid [OF valid(1), unfolded node_of_fields old(2)]
  note new = close_with_fields [OF M0]
  have seq: "ledger_seq v = ?n + 1" using helper(1) .
  have int64: "int64 i" if "0 \<le> i" "i \<le> ?n + 1" for i using that small by (simp add: int64_def)
  have k: "int64 (ledger_seq v)" using int64 [of "?n + 1"] old(1) seq by simp
  note load = LoadFromDb_close [OF ok M0 _ k]
  note fetch = ConsensusValueFromDB_close [OF M0 _ k parse]
  have keep: "stored S ?N M0 i" "GetValidators_db S M0 i = GetValidators_db S M i" if "1 \<le> i" "i \<le> ?n" for i
    using stored_close [OF ok M0 _ k _ old(6) [OF that]] that int64 [of i] seq by auto
  have last: "LoadFromDb S (ledger_kv M0) (?n + 1) = Some (last_closed_ledger M0)" using load [of "?n + 1"] k seq by simp
  have sets: "ValidatorsGet S (account_kv M0) (lh_validators_hash (last_closed_ledger M0)) = Some (m_validators M0)"
    "FeesConfigGet S (account_kv M0) (lh_fees_hash (last_closed_ledger M0)) = Some (m_fees M0)"
    using settings_saved [OF ok M0] old(11-14) new(7,8) by simp_all
  have "stored S ?N M0 i" if "1 \<le> i" "i \<le> ?n + 1" for i
  proof (cases "i = ?n + 1")
    case True
    then show ?thesis using last sets(1) new(1,7) seq by (auto simp: stored_def)
  qed (use that keep(1) in simp)
  moreover have "linked S ?N M0 i" if "1 < i" "i \<le> ?n + 1" for i
  proof (cases "i = ?n + 1")
    case True
    then show ?thesis
      using last load [of ?n] int64 [of ?n] fetch [of "?n + 1"] k old(1,3) seq new(2,3) helper(2) by (simp add: linked_def)
  next
    case False
    then show ?thesis using linked_close [OF ok M0 _ _ k parse _ old(7)] that int64 [of i] int64 [of "i - 1"] seq by simp
  qed
  moreover have past: "proven S N0 M0 i p" if "1 < i" "i \<le> ?n" "proven S N0 M i p" for i p
    using proven_close [OF ok M0 _ _ k _ old(6) that(3)] that int64 [of i] int64 [of "i - 1"] seq by simp
  moreover have "proven S N0 M0 i (previous_proof u)" if "1 < i" "i < ?n + 1" "ConsensusValueFromDB ?N M0 (i + 1) = Some u" for i u
  proof (cases "i = ?n")
    case True
    then have u: "u = v" using that(3) fetch [of "?n + 1"] k seq by simp
    have "proven S N0 M ?n (previous_proof v)"
      using helper(4) True that(1) old(3) seq by (auto simp: proven_def)
    then show ?thesis using past [of ?n] True that(1) u by simp
  next
    case False
    then have "ConsensusValueFromDB ?N M (i + 1) = Some u" using that fetch [of "i + 1"] int64 [of "i + 1"] seq by simp
    then show ?thesis using past old(8) False that(1,2) by simp
  qed
  moreover have "proven S N0 M0 (?n + 1) proof"
    using last valid(2,3) keep(2) [of ?n] old(1) seq new(3,10) by (auto simp: proven_def)
  ultimately show "chain_ok S N0 M1"
    unfolding M1 chain_ok_def Let_def header_update
    using old(1) seq new last sets version_bounded [OF helper(3) old(17)]
    by (intro conjI) (simp_all add: load_proof_def)
  show "lh_seq (last_closed_ledger M1) = ?n + 1" using new(1) seq M1 by simp
qed

section \<open>The start\<close>

lemma seq_string_1: "lit ''1'' = seq_string 1"
  by code_simp

lemma load_state_chain:
  assumes "load_state S (n_chain N0) M0 = Some M"
  shows "last_closed_ledger M = last_closed_ledger M0" and "lcl_header M = last_closed_ledger M0" and "tries M = tries M0"
    and "account_kv M = account_kv M0" and "ledger_kv M = ledger_kv M0" and "m_proof M = load_proof M0"
    and "self_chain M = lh_chain_id (last_closed_ledger M0)"
    and "ValidatorsGet S (account_kv M0) (lh_validators_hash (last_closed_ledger M0)) = Some (m_validators M)"
    and "FeesConfigGet S (account_kv M0) (lh_fees_hash (last_closed_ledger M0)) = Some (m_fees M)"
    and "lh_account_tree_hash (last_closed_ledger M0) = account_root S (crypto (n_chain N0)) (tries M0)"
    and "lh_version (last_closed_ledger M0) \<le> LEDGER_VERSION"
  using assms by (auto simp: load_state_def Let_def load_proof_def split: option.splits if_splits)

lemma genesis_chain:
  assumes ok: "codec_ok S (n_chain N0)" and start: "Initialize_manager S (n_chain N0) G linux D Map.empty Map.empty = Some M"
  shows "chain_ok S N0 M \<and> lh_seq (last_closed_ledger M) = 1"
proof -
  let ?M = "new_manager D Map.empty Map.empty"
  have "CheckAndRepairLedgerSeq linux ?M = Some ?M" by (simp add: CheckAndRepairLedgerSeq_def new_manager_def)
  then obtain M0 where M0: "CreateGenesisAccount S (n_chain N0) G ?M = Some M0" and M: "load_state S (n_chain N0) M0 = Some M"
    using start by (auto simp: Initialize_manager_def new_manager_def bind_eq_Some_conv)
  note made = load_state_chain [OF M]
  have hdr: "lh_seq (last_closed_ledger M0) = 1" "LoadFromDb S (ledger_kv M0) 1 = Some (last_closed_ledger M0)"
    "ledger_kv M0 KEY_LEDGER_SEQ = Some (seq_string 1)" "account_kv M0 KEY_LEDGER_SEQ = Some (seq_string 1)" "account_kv M0 LAST_PROOF = None"
    "lh_validators_hash (last_closed_ledger M0) = crypto (n_chain N0) (ser_validators S (m_validators M0))"
    "lh_fees_hash (last_closed_ledger M0) = crypto (n_chain N0) (ser_fees S (m_fees M0))"
    "ValidatorsGet S (account_kv M0) (lh_validators_hash (last_closed_ledger M0)) = Some (m_validators M0)"
    "FeesConfigGet S (account_kv M0) (lh_fees_hash (last_closed_ledger M0)) = Some (m_fees M0)"
    using M0 codec_okD(1-3) [OF ok]
    by (auto simp: CreateGenesisAccount_def Let_def new_manager_def WriteBatch_def ValidatorsSet_def FeesConfigSet_def LoadFromDb_def
        ValidatorsGet_def FeesConfigGet_def seq_string_1 split: if_splits)
  have same: "m_validators M = m_validators M0" "m_fees M = m_fees M0" using made(8,9) hdr(8,9) by simp_all
  have "stored S (n_chain N0) M 1" using hdr(1,2,6,8) made(4,5) by (auto simp: stored_def)
  moreover have "i = 1" if "1 \<le> i" "i \<le> 1" for i :: int using that by simp
  ultimately have "chain_ok S N0 M"
    unfolding chain_ok_def Let_def using hdr made same by (auto simp: load_proof_def)
  then show ?thesis using hdr(1) made(1) by simp
qed

lemma restart_same:
  assumes "chain_ok S N0 M" and "lh_seq (last_closed_ledger M) < 2 ^ 63"
  shows "\<exists>M'. Initialize_manager S (n_chain N0) G linux (tries M) (account_kv M) (ledger_kv M) = Some M' \<and> tries M' = tries M \<and>
    account_kv M' = account_kv M \<and> ledger_kv M' = ledger_kv M \<and> last_closed_ledger M' = last_closed_ledger M \<and>
    lcl_header M' = lcl_header M \<and> m_validators M' = m_validators M \<and> m_fees M' = m_fees M \<and> m_proof M' = m_proof M \<and>
    self_chain M' = self_chain M"
proof -
  let ?M = "new_manager (tries M) (account_kv M) (ledger_kv M)" and ?n = "lh_seq (last_closed_ledger M)"
  note old = chain_okD [OF assms(1)]
  have fields: "account_kv ?M = account_kv M" "ledger_kv ?M = ledger_kv M" "tries ?M = tries M" by (simp_all add: new_manager_def)
  have "int64 ?n" using old(1) assms(2) by (simp add: int64_def)
  then have max: "GetMaxLedger ?M = ?n" using old(4) fields by (simp add: GetMaxLedger_def Stoi64_seq_string)
  have "CheckAndRepairLedgerSeq linux ?M = Some ?M" using old(4,5) fields by (simp add: CheckAndRepairLedgerSeq_def)
  then have "Initialize_manager S (n_chain N0) G linux (tries M) (account_kv M) (ledger_kv M) =
      load_state S (n_chain N0) (?M\<lparr>last_closed_ledger := last_closed_ledger M\<rparr>)"
    using max old(3,5) fields by (simp add: Initialize_manager_def)
  then show ?thesis
    using old fields by (auto simp: load_state_def Let_def load_proof_def)
qed

end
