(* ===== verification/Ledger_Start.thy ===== *)
theory Ledger_Start
  imports Ledger_Chain Glue_Thms "HOL-Library.Countable"
begin

text \<open>
  The first start of a node, and a small node that starts and closes one ledger. Messages of the small
  node are encoded by their number in an enumeration of the messages, so that they can be read
  back; its hash function is the identity.
\<close>

section \<open>The first start\<close>

text \<open>A node whose genesis account is no validator starts on empty databases.\<close>

lemma genesis_starts:
  assumes ok: "codec_ok S (n_chain N0)" and G: "gen_account G \<notin> set (gen_validators G)"
  shows "\<exists>M. Initialize_manager S (n_chain N0) G linux D Map.empty Map.empty = Some M \<and>
    lh_hash (last_closed_ledger M) =
      crypto (n_chain N0) (ser_ledger S ((last_closed_ledger M)\<lparr>lh_hash := []\<rparr>) []) \<and>
    lh_reserve (last_closed_ledger M) = gen_slogan G \<and> map fst (m_validators M) = gen_validators G \<and> m_fees M = gen_fees G"
proof -
  let ?M = "new_manager D Map.empty Map.empty"
  have "CheckAndRepairLedgerSeq linux ?M = Some ?M" by (simp add: CheckAndRepairLedgerSeq_def new_manager_def)
  moreover obtain M0 where M0: "CreateGenesisAccount S (n_chain N0) G ?M = Some M0" using G by (auto simp: CreateGenesisAccount_def Let_def)
  ultimately have start: "Initialize_manager S (n_chain N0) G linux D Map.empty Map.empty = load_state S (n_chain N0) M0"
    by (simp add: Initialize_manager_def) (simp add: new_manager_def)
  have hdr: "ValidatorsGet S (account_kv M0) (lh_validators_hash (last_closed_ledger M0)) = Some (m_validators M0)"
    "FeesConfigGet S (account_kv M0) (lh_fees_hash (last_closed_ledger M0)) = Some (m_fees M0)"
    "lh_account_tree_hash (last_closed_ledger M0) = account_root S (crypto (n_chain N0)) (tries M0)"
    "lh_version (last_closed_ledger M0) = 1000" "lh_reserve (last_closed_ledger M0) = gen_slogan G"
    "lh_hash (last_closed_ledger M0) = crypto (n_chain N0) (ser_ledger S ((last_closed_ledger M0)\<lparr>lh_hash := []\<rparr>) [])"
    "map fst (m_validators M0) = gen_validators G" "m_fees M0 = gen_fees G"
    using M0 G codec_okD(2,3) [OF ok]
    by (auto simp: CreateGenesisAccount_def Let_def new_manager_def WriteBatch_def ValidatorsSet_def FeesConfigSet_def
        ValidatorsGet_def FeesConfigGet_def o_def)
  then show ?thesis unfolding start by (auto simp: load_state_def Let_def LEDGER_VERSION_def)
qed

section \<open>A small node\<close>

definition tally :: "'a :: countable \<Rightarrow> cstring" where
  "tally x = replicate (to_nat x) 0"

definition untally :: "cstring \<Rightarrow> 'a :: countable" where
  "untally s = from_nat (length s)"

lemma untally_tally [simp]: "untally (tally x) = x"
  by (simp add: tally_def untally_def)

definition header_fields :: "LedgerHeader \<Rightarrow> int list \<times> cstring list" where
  "header_fields h = ([lh_seq h, lh_close_time h, lh_chain_id h, lh_version h, lh_tx_count h],
     [lh_previous_hash h, lh_consensus_value_hash h, lh_hash h, lh_account_tree_hash h, lh_validators_hash h, lh_fees_hash h, lh_reserve h])"

definition header_made :: "int list \<times> cstring list \<Rightarrow> LedgerHeader" where
  "header_made f = empty_header\<lparr>lh_seq := fst f ! 0, lh_close_time := fst f ! 1, lh_chain_id := fst f ! 2, lh_version := fst f ! 3,
     lh_tx_count := fst f ! 4, lh_previous_hash := snd f ! 0, lh_consensus_value_hash := snd f ! 1, lh_hash := snd f ! 2,
     lh_account_tree_hash := snd f ! 3, lh_validators_hash := snd f ! 4, lh_fees_hash := snd f ! 5, lh_reserve := snd f ! 6\<rparr>"

lemma header_made_fields: "header_made (header_fields h) = h"
  by (cases h) (simp add: header_made_def header_fields_def empty_header_def)

definition small_codec :: encodings where
  "small_codec = \<lparr>ser_header = tally \<circ> header_fields, parse_header = header_made \<circ> untally, ser_ledger = (\<lambda>_ _. [5]), ser_validators = tally,
     parse_validators = Some \<circ> untally, ser_fees = (\<lambda>f. tally (gas_price_cfg f, base_reserve f)),
     parse_fees = (\<lambda>s. Some (case untally s of (g, r) \<Rightarrow> \<lparr>gas_price_cfg = g, base_reserve = r\<rparr>)), ser_node = (\<lambda>_. []), parse_node = (\<lambda>_. []),
     DecodeAddress = id, EncodeAddress = id, ser_account = (\<lambda>_. []), ser_asset_key = (\<lambda>_. []), parse_asset_key = (\<lambda>_. \<lparr>ak_issuer = [], ak_code = [], ak_type = 0\<rparr>),
     ser_asset = (\<lambda>_. []), ser_key_pair = (\<lambda>_. [])\<rparr>"

definition small_value :: FullValue where
  "small_value = empty_value\<lparr>ledger_seq := 2, close_time := 7, previous_ledger_hash := [5]\<rparr>"

definition small_node :: node where
  "small_node = demo_node\<lparr>n_chain := demo_chain\<lparr>parse_value := (\<lambda>_. Some small_value)\<rparr>, hardfork_points := {[7]}\<rparr>"

definition small_genesis :: genesis_configure where
  "small_genesis = \<lparr>gen_account = [1], gen_validators = [[3]], gen_fees = \<lparr>gas_price_cfg = 1000, base_reserve = 100\<rparr>, gen_chain_id = 0, gen_slogan = []\<rparr>"

lemma small_fields: "ledger_seq small_value = 2" "previous_ledger_hash small_value = [5]" "previous_proof small_value = []"
  "ledger_upgrade small_value = None" "txs small_value = []" "validation small_value = None"
  by (simp_all add: small_value_def empty_value_def)

lemma small_codec_ok: "codec_ok small_codec (n_chain small_node)"
  by (simp add: codec_ok_def small_codec_def small_node_def demo_chain_def header_made_fields)

lemma small_wire: "wire_value (n_chain small_node) small_value"
  by (simp add: wire_value_def small_node_def demo_chain_def small_value_def int64_def)

lemma small_start:
  "\<exists>M. Initialize_manager small_codec (n_chain small_node) small_genesis True D Map.empty Map.empty = Some M \<and>
     lh_hash (last_closed_ledger M) = [5]"
proof -
  have "gen_account small_genesis \<notin> set (gen_validators small_genesis)" by (simp add: small_genesis_def)
  from genesis_starts [OF small_codec_ok this, of True D] show ?thesis
    by (auto simp: small_codec_def small_node_def demo_chain_def)
qed

text \<open>The empty value runs in every mode.\<close>

lemma small_runs:
  "ApplyFollow C D exec (ConsensusValue.truncate small_value) =
     Some (True, snd (AllocateReward C D False (new_ledger_st (ConsensusValue.truncate small_value))))"
  "ApplyCheck C D exec False clk start (ConsensusValue.truncate small_value) =
     Some (True, snd (AllocateReward C D False (new_ledger_st (ConsensusValue.truncate small_value))))"
  by (simp_all add: ApplyFollow_def ApplyCheck_def Let_def CheckConsValueValidation_def small_value_def empty_value_def
      ConsensusValue.truncate_def new_acc_def)

lemma small_close:
  assumes "chain_ok small_codec small_node M" and "lh_seq (last_closed_ledger M) = 1" and "lh_hash (last_closed_ledger M) = [5]"
    and "\<And>c. map_of (completed_ctxs m) [7] = Some c \<Longrightarrow> exec_result (lc_result c)"
  shows "\<exists>M1 m1. CloseLedger small_codec small_node small_value p a M m = Some (True, M1, m1) \<and> lh_seq (last_closed_ledger M1) = 2"
proof -
  let ?N = "node_of small_codec small_node M"
  note ok = chain_okD [OF assms(1)]
  have chain: "parse_value (n_chain small_node) s = Some small_value" "ser_value (n_chain small_node) v = [7]"
    "value_size (n_chain ?N) v = 100" "crypto (n_chain small_node) = id" "hardfork_points small_node = {[7]}" for s v
    by (simp_all add: node_of_def small_node_def demo_chain_def)
  have "GetValidators_db small_codec M 1 = Some (m_validators M)"
    using ok(3,12) assms(2) by (simp add: GetValidators_db_def)
  moreover have "CheckValueHelper ?N small_value (-1) = CHECK_VALUE_VALID"
    using assms(2,3) by (simp add: CheckValueHelper_def ok(2) chain small_fields TXSET_LIMIT_SIZE_def BYTES_PER_MEGA_def Let_def)
  ultimately have "CheckValueAndProof ?N (ser_value (n_chain ?N) small_value) p"
    by (simp add: CheckValueAndProof_def chain small_fields)
  moreover obtain c where "SyncProcess (n_chain ?N) small_value a m = Some (Some c)"
    using assms(4)
    by (cases "map_of (completed_ctxs m) [7]")
       (simp_all add: SyncProcess_def value_hash_def chain Do_def new_LedgerContext_def small_runs Let_def)
  ultimately show ?thesis
    by (simp add: CloseLedger_def Let_def NotifyLedgerClose_def close_with_fields(1) [OF refl] small_fields)
qed

end
