(* ===== verification/Ledger_Chain_Thms.thy ===== *)
theory Ledger_Chain_Thms
  imports Ledger_Start
begin

text \<open>
  Runs of the ledger manager and what holds in all of them: the chain of stored ledgers and the
  restart from the databases.
\<close>

section \<open>Runs\<close>

inductive ledger_run :: "encodings \<Rightarrow> node \<Rightarrow> genesis_configure \<Rightarrow> ledger_db \<Rightarrow> manager \<Rightarrow> bool" for S N0 G D where
  start: "Initialize_manager S (n_chain N0) G linux D Map.empty Map.empty = Some M \<Longrightarrow> ledger_run S N0 G D M"
| consent: "ledger_run S N0 G D M \<Longrightarrow> wire_value (n_chain N0) v \<Longrightarrow>
    OnConsent S N0 now v proof a M m = Some (r, M1, m1) \<Longrightarrow> ledger_run S N0 G D M1"
| receive: "ledger_run S N0 G D M \<Longrightarrow> list_all (wire_value (n_chain N0)) (lg_values ledgers) \<Longrightarrow>
    OnReceiveLedgers S N0 atts now ledgers pid M m = Some (sent, M1, m1) \<Longrightarrow> ledger_run S N0 G D M1"
| timer: "ledger_run S N0 G D M \<Longrightarrow> OnTimer_manager peers now M = (sent, M1) \<Longrightarrow> ledger_run S N0 G D M1"
| posted: "ledger_run S N0 G D M \<Longrightarrow> run_posted N g P M = Some (g1, P1, M1) \<Longrightarrow> ledger_run S N0 G D M1"
| restart: "ledger_run S N0 G D M \<Longrightarrow>
    Initialize_manager S (n_chain N0) G linux (tries M) (account_kv M) (ledger_kv M) = Some M1 \<Longrightarrow> ledger_run S N0 G D M1"

definition chain_inv :: "encodings \<Rightarrow> node \<Rightarrow> manager \<Rightarrow> bool" where
  "chain_inv S N0 M \<longleftrightarrow> chain_ok S N0 M \<and> lh_seq (last_closed_ledger M) < 2 ^ 63"

lemma chain_inv_sync:
  "chain_inv S N0 (M\<lparr>update_time := t\<rparr>) = chain_inv S N0 M" "chain_inv S N0 (M\<lparr>sync_peers := ps\<rparr>) = chain_inv S N0 M"
  "chain_inv S N0 (M\<lparr>sync_peers := ps, update_time := t\<rparr>) = chain_inv S N0 M"
  "chain_inv S N0 (M\<lparr>chain_max_ledger_probaly := c\<rparr>) = chain_inv S N0 M" "chain_inv S N0 (M\<lparr>posted := qs\<rparr>) = chain_inv S N0 M"
  unfolding chain_inv_def by (subst chain_ok_cong; simp)+

lemma close_inv:
  assumes "codec_ok S (n_chain N0)" and "chain_inv S N0 M" and "wire_value (n_chain N0) v" and "ledger_seq v = lh_seq (last_closed_ledger M) + 1"
    and "CloseLedger S N0 v proof a M m = Some (r, M1, m1)"
  shows "chain_inv S N0 M1"
proof (cases r)
  case True
  have chain: "chain_ok S N0 M" using assms(2) by (simp add: chain_inv_def)
  have small: "lh_seq (last_closed_ledger M) + 1 < 2 ^ 63" using assms(3,4) by (simp add: wire_value_def int64_def)
  have close: "CloseLedger S N0 v proof a M m = Some (True, M1, m1)" using assms(5) True by simp
  have "parse_value (n_chain N0) (ser_value (n_chain N0) v) = Some v"
    using assms(3) codec_okD(4) [OF assms(1)] by (auto simp: wire_value_def)
  note new = close_chain [OF assms(1) chain small close this]
  show ?thesis using new small by (simp add: chain_inv_def)
next
  case False
  then have "CloseLedger S N0 v proof a M m = Some (False, M1, m1)" using assms(5) by simp
  from CloseLedger_refused [OF this] show ?thesis using assms(2) by simp
qed

text \<open>What a closing leaves as it was.\<close>

lemma close_keeps:
  assumes ok: "codec_ok S (n_chain N0)" and inv: "chain_inv S N0 M" and wire: "wire_value (n_chain N0) v"
    and close: "CloseLedger S N0 v proof a M m = Some (True, M1, m1)"
  shows "chain_inv S N0 M1" and "lh_seq (last_closed_ledger M1) = lh_seq (last_closed_ledger M) + 1"
    and "ledger_seq v = lh_seq (last_closed_ledger M) + 1" and "self_chain M1 = self_chain M"
    and "ConsensusValueFromDB (n_chain N0) M1 (lh_seq (last_closed_ledger M1)) = Some v"
    and "1 \<le> i \<Longrightarrow> i \<le> lh_seq (last_closed_ledger M) \<Longrightarrow> GetValidators_db S M1 i = GetValidators_db S M i \<and>
      LoadFromDb S (ledger_kv M1) i = LoadFromDb S (ledger_kv M) i \<and>
      ConsensusValueFromDB (n_chain N0) M1 i = ConsensusValueFromDB (n_chain N0) M i"
proof -
  let ?N = "n_chain N0" and ?n = "lh_seq (last_closed_ledger M)"
  have chain: "chain_ok S N0 M" using inv by (simp add: chain_inv_def)
  note old = chain_okD [OF chain]
  obtain hdr envs w M0 where M0: "M0 = close_with S ?N v proof hdr envs w M" and
    M1: "M1 = M0\<lparr>lcl_header := last_closed_ledger M0, posted := posted M0 @ [(m_validators M0, m_proof M0, ledger_upgrade v \<noteq> None)]\<rparr>" and
    check: "CheckValueAndProof (node_of S N0 M) (ser_value ?N v) proof"
    using CloseLedger_closed [OF close] by (auto simp: Let_def)
  have parse: "parse_value ?N (ser_value ?N v) = Some v" using wire codec_okD(4) [OF ok] by (auto simp: wire_value_def)
  obtain vs where valid: "CheckValueHelper (node_of S N0 M) v (-1) = CHECK_VALUE_VALID"
    using CheckValueAndProof_valid [OF check] parse by auto
  show seq: "ledger_seq v = ?n + 1" using CheckValueHelper_valid(1) [OF valid] old(2) by simp
  show inv1: "chain_inv S N0 M1" by (rule close_inv [OF ok inv wire seq close])
  show seq1: "lh_seq (last_closed_ledger M1) = ?n + 1" using close_with_fields(1) [OF M0] M1 seq by simp
  show "self_chain M1 = self_chain M" using close_with_fields(10) [OF M0] M1 by simp
  have k: "int64 (ledger_seq v)" using wire by (simp add: wire_value_def)
  show "ConsensusValueFromDB ?N M1 (lh_seq (last_closed_ledger M1)) = Some v"
    unfolding seq1 using ConsensusValueFromDB_close [OF M0 k k parse] seq by (simp add: M1 header_update)
  show "GetValidators_db S M1 i = GetValidators_db S M i \<and> LoadFromDb S (ledger_kv M1) i = LoadFromDb S (ledger_kv M) i \<and>
      ConsensusValueFromDB ?N M1 i = ConsensusValueFromDB ?N M i" if i: "1 \<le> i" "i \<le> ?n"
  proof -
    have "int64 i" using i k seq by (simp add: int64_def)
    moreover have "i \<noteq> ledger_seq v" using i seq by simp
    moreover have "GetValidators_db S M1 i = GetValidators_db S M0 i" by (simp add: M1 GetValidators_db_def cong: option.case_cong)
    ultimately show ?thesis
      using stored_close(2) [OF ok M0 _ k _ old(6) [OF i]] LoadFromDb_close [OF ok M0 _ k] ConsensusValueFromDB_close [OF M0 _ k parse]
      by (simp add: M1 header_update)
  qed
qed

lemma consent_inv:
  assumes "codec_ok S (n_chain N0)" and "chain_inv S N0 M" and "wire_value (n_chain N0) v"
    and "OnConsent S N0 now v proof a M m = Some (r, M1, m1)"
  shows "chain_inv S N0 M1"
  using assms(4) close_inv [OF assms(1) _ assms(3), of "M\<lparr>update_time := now\<rparr>"] assms(2)
  by (auto simp: OnConsent_def Let_def chain_inv_sync split: if_splits)

lemma receive_loop_inv:
  assumes "codec_ok S (n_chain N0)"
  shows "chain_inv S N0 M \<Longrightarrow> list_all (wire_value (n_chain N0)) vs \<Longrightarrow>
    receive_loop S N0 p atts vs valid M m = Some (r, M1, m1) \<Longrightarrow> chain_inv S N0 M1"
proof (induction vs arbitrary: atts valid M m)
  case (Cons v vs)
  have wire: "wire_value (n_chain N0) v" "list_all (wire_value (n_chain N0)) vs" using Cons.prems(2) by simp_all
  show ?case
  proof (cases "ledger_seq v = lh_seq (last_closed_ledger M) + 1")
    case True
    let ?p = "case vs of [] \<Rightarrow> p | w # _ \<Rightarrow> previous_proof w"
    obtain ok M2 m2 where close: "CloseLedger S N0 v ?p (atts 0) M m = Some (ok, M2, m2)"
      using Cons.prems(3) True by (auto split: option.splits)
    have "chain_inv S N0 M2" using close_inv [OF assms Cons.prems(1) wire(1) True close] .
    then show ?thesis using Cons.IH [OF _ wire(2)] Cons.prems(3) True close by (cases ok) auto
  next
    case False
    then show ?thesis using Cons.IH [OF Cons.prems(1) wire(2)] Cons.prems(3) by simp
  qed
qed auto

lemma receive_inv:
  assumes "codec_ok S (n_chain N0)" and "chain_inv S N0 M" and "list_all (wire_value (n_chain N0)) (lg_values ledgers)"
    and "OnReceiveLedgers S N0 atts now ledgers pid M m = Some (sent, M1, m1)"
  shows "chain_inv S N0 M1"
proof -
  have loop: "chain_inv S N0 M2" if "receive_loop S N0 (lg_proof ledgers) atts (lg_values ledgers) False (M\<lparr>sync_peers := ps\<rparr>) m = Some (r, M2, m2)"
    for ps r M2 m2
    using receive_loop_inv [OF assms(1) _ assms(3) that] assms(2) by (simp add: chain_inv_sync)
  show ?thesis
    using assms(2,4)
    by (auto simp: OnReceiveLedgers_def Let_def RequestConsensusValues_def chain_inv_sync split: if_splits option.splits dest!: loop)
qed

lemma timer_inv:
  assumes "chain_inv S N0 M" and "OnTimer_manager peers now M = (sent, M1)"
  shows "chain_inv S N0 M1"
proof -
  have "chain_inv S N0 M \<Longrightarrow> chain_inv S N0 (snd (request_all pids gl t M))" for pids gl t M
    by (induction pids arbitrary: M) (simp_all add: RequestConsensusValues_def Let_def chain_inv_sync split: prod.split)
  from this [of "M\<lparr>sync_peers := ps, update_time := now\<rparr>" for ps] show ?thesis
    using assms by (auto simp: OnTimer_manager_def Let_def chain_inv_sync split: if_splits prod.splits) (metis snd_conv)
qed

lemma ledger_run_inv:
  assumes "codec_ok S (n_chain N0)" and "ledger_run S N0 G D M"
  shows "chain_inv S N0 M"
  using assms(2)
proof (induction rule: ledger_run.induct)
  case (start linux M)
  then show ?case using genesis_chain [OF assms(1)] by (auto simp: chain_inv_def)
next
  case (consent M v now pr a m r M1 m1)
  show ?case by (rule consent_inv [OF assms(1) consent.IH consent.hyps(2,3)])
next
  case (receive M ledgers atts now pid m sent M1 m1)
  show ?case by (rule receive_inv [OF assms(1) receive.IH receive.hyps(2,3)])
next
  case (timer M peers now sent M1)
  show ?case by (rule timer_inv [OF timer.IH timer.hyps(2)])
next
  case (posted M N g P g1 P1 M1)
  then show ?case by (auto simp: run_posted_def chain_inv_sync split: list.splits)
next
  case (restart M linux M1)
  have old: "chain_ok S N0 M" "lh_seq (last_closed_ledger M) < 2 ^ 63" using restart.IH by (simp_all add: chain_inv_def)
  obtain M' where M': "Initialize_manager S (n_chain N0) G linux (tries M) (account_kv M) (ledger_kv M) = Some M'"
    "tries M' = tries M" "account_kv M' = account_kv M" "ledger_kv M' = ledger_kv M" "last_closed_ledger M' = last_closed_ledger M"
    "lcl_header M' = lcl_header M" "m_validators M' = m_validators M" "m_fees M' = m_fees M" "m_proof M' = m_proof M"
    "self_chain M' = self_chain M"
    using restart_same [OF old] by blast
  have "M1 = M'" using restart.hyps(2) M'(1) by simp
  then show ?case using chain_ok_cong [OF M'(2-10), of S N0] old M'(5) by (simp add: chain_inv_def)
qed

section \<open>A crash between the two writes\<close>

lemma Stoi64_seq_string_word: "int64 n \<Longrightarrow> Stoi64 (seq_string n) = word_of_int n"
  using Stoi64_seq_string sint_word_of_int signed_word_eqI by metis

text \<open>The header is in the ledger database and the account database is still the old one.\<close>

lemma crash_repaired:
  assumes ok: "codec_ok S (n_chain N0)" and inv: "chain_inv S N0 M" and wire: "wire_value (n_chain N0) v"
    and close: "CloseLedger S N0 v proof a M m = Some (True, M1, m1)"
  shows "\<exists>M'. Initialize_manager S (n_chain N0) G False (tries M) (account_kv M) (ledger_kv M1) = Some M' \<and> tries M' = tries M \<and>
    account_kv M' = account_kv M \<and> last_closed_ledger M' = last_closed_ledger M \<and> lcl_header M' = lcl_header M \<and>
    m_validators M' = m_validators M \<and> m_fees M' = m_fees M \<and> m_proof M' = m_proof M \<and> self_chain M' = self_chain M"
proof -
  let ?n = "lh_seq (last_closed_ledger M)" and ?M = "new_manager (tries M) (account_kv M) (ledger_kv M1)"
  let ?kv = "(ledger_kv M1)(KEY_LEDGER_SEQ \<mapsto> seq_string ?n)"
  note step = close_keeps [OF ok inv wire close]
  have chain: "chain_ok S N0 M" "chain_ok S N0 M1" using inv step(1) by (simp_all add: chain_inv_def)
  note old = chain_okD [OF chain(1)]
  have fields: "account_kv ?M = account_kv M" "ledger_kv ?M = ledger_kv M1" "tries ?M = tries M" by (simp_all add: new_manager_def)
  have n: "int64 ?n" "int64 (?n + 1)" using old(1) step(3) wire by (simp_all add: wire_value_def int64_def)
  have "ledger_kv M1 KEY_LEDGER_SEQ = Some (seq_string (?n + 1))" using chain_okD(4) [OF chain(2)] step(2) by simp
  then have repair: "CheckAndRepairLedgerSeq False ?M = Some (?M\<lparr>ledger_kv := ?kv\<rparr>)"
    using old(5) fields n by (simp add: CheckAndRepairLedgerSeq_def Stoi64_seq_string_word)
  have "GetMaxLedger (?M\<lparr>ledger_kv := ?kv\<rparr>) = ?n" using n(1) by (simp add: GetMaxLedger_def Stoi64_seq_string)
  moreover have "LoadFromDb S ?kv ?n = Some (last_closed_ledger M)"
    using step(6) [of ?n] old(1,3) by (simp add: LoadFromDb_def)
  ultimately have "Initialize_manager S (n_chain N0) G False (tries M) (account_kv M) (ledger_kv M1) =
      load_state S (n_chain N0) (?M\<lparr>ledger_kv := ?kv, last_closed_ledger := last_closed_ledger M\<rparr>)"
    using repair old(5) fields(1) by (simp add: Initialize_manager_def)
  then show ?thesis using old fields by (auto simp: load_state_def Let_def load_proof_def)
qed

lemma crash_unrepaired:
  assumes ok: "codec_ok S (n_chain N0)" and inv: "chain_inv S N0 M" and wire: "wire_value (n_chain N0) v"
    and close: "CloseLedger S N0 v proof a M m = Some (True, M1, m1)"
    and changed: "account_root S (crypto (n_chain N0)) (tries M1) \<noteq> account_root S (crypto (n_chain N0)) (tries M)"
  shows "Initialize_manager S (n_chain N0) G True (tries M) (account_kv M) (ledger_kv M1) = None"
proof -
  let ?M = "new_manager (tries M) (account_kv M) (ledger_kv M1)" and ?n = "lh_seq (last_closed_ledger M1)"
  note step = close_keeps [OF ok inv wire close]
  have chain: "chain_ok S N0 M" "chain_ok S N0 M1" using inv step(1) by (simp_all add: chain_inv_def)
  note new = chain_okD [OF chain(2)]
  have fields: "account_kv ?M = account_kv M" "ledger_kv ?M = ledger_kv M1" "tries ?M = tries M" by (simp_all add: new_manager_def)
  have "int64 ?n" using step(2,3) wire by (simp add: wire_value_def)
  then have "GetMaxLedger ?M = ?n" using new(4) fields(2) by (simp add: GetMaxLedger_def Stoi64_seq_string)
  then have "Initialize_manager S (n_chain N0) G True (tries M) (account_kv M) (ledger_kv M1) =
      load_state S (n_chain N0) (?M\<lparr>last_closed_ledger := last_closed_ledger M1\<rparr>)"
    using new(3) chain_okD(5) [OF chain(1)] fields(1,2) by (simp add: Initialize_manager_def CheckAndRepairLedgerSeq_def)
  then show ?thesis using changed new(15) fields(3) by (auto simp: load_state_def Let_def split: option.splits)
qed

section \<open>Properties\<close>

text \<open>
  Claim C10. The ledgers of a node form a chain. In every run of a node from the first start on, through
  committed values, synchronization with any peers, timers and restarts, every ledger above the first
  is stored with the consensus value that its header names, its header and its value carry the
  hash of the ledger before it, and a stored proof shows that the validators of the ledger before
  it have agreed on the value, unless the configuration names the value as a hard fork.
\<close>

theorem ledgers_linked:
  assumes "codec_ok S (n_chain N0)" and "ledger_run S N0 G D M" and "1 < i" and "i \<le> lh_seq (last_closed_ledger M)"
  shows "linked S (n_chain N0) M i \<and>
    proven S N0 M i (if i = lh_seq (last_closed_ledger M) then load_proof M else previous_proof (the (ConsensusValueFromDB (n_chain N0) M (i + 1))))"
proof -
  have chain: "chain_ok S N0 M" using ledger_run_inv [OF assms(1,2)] by (simp add: chain_inv_def)
  note ok = chain_okD [OF chain]
  show ?thesis
  proof (cases "i = lh_seq (last_closed_ledger M)")
    case True
    then show ?thesis using ok(7) [OF assms(3,4)] ok(9,10) assms(3) by simp
  next
    case False
    then obtain v where "ConsensusValueFromDB (n_chain N0) M (i + 1) = Some v"
      using ok(7) [of "i + 1"] assms(3,4) by (auto simp: linked_def)
    then show ?thesis using ok(7) [OF assms(3,4)] ok(8) [of i v] False assms(3,4) by simp
  qed
qed

lemma small_run:
  "\<exists>M. ledger_run small_codec small_node small_genesis demo_db M \<and> lh_seq (last_closed_ledger M) = 2"
proof -
  obtain M0 where M0: "Initialize_manager small_codec (n_chain small_node) small_genesis True demo_db Map.empty Map.empty = Some M0"
    "lh_hash (last_closed_ledger M0) = [5]" using small_start by blast
  then have run: "ledger_run small_codec small_node small_genesis demo_db M0" by (intro ledger_run.start)
  let ?M = "M0\<lparr>update_time := 8\<rparr>"
  have "chain_ok small_codec small_node M0" "lh_seq (last_closed_ledger M0) = 1" using genesis_chain [OF small_codec_ok M0(1)] by simp_all
  moreover have "chain_ok small_codec small_node ?M = chain_ok small_codec small_node M0" by (rule chain_ok_cong) simp_all
  ultimately obtain M1 m1 where M1: "CloseLedger small_codec small_node small_value [] demo_attempt ?M new_context_st = Some (True, M1, m1)"
    "lh_seq (last_closed_ledger M1) = 2"
    using small_close [of ?M new_context_st "[]" demo_attempt] M0(2) by (auto simp: new_context_st_def)
  have "OnConsent small_codec small_node 8 small_value [] demo_attempt M0 new_context_st = Some (0, M1, m1)"
    using M1(1) \<open>lh_seq (last_closed_ledger M0) = 1\<close> by (simp add: OnConsent_def Let_def small_fields)
  then show ?thesis using ledger_run.consent [OF run small_wire] M1(2) by blast
qed

theorem ledgers_linked_witness:
  "\<exists>M. ledger_run small_codec small_node small_genesis demo_db M \<and> linked small_codec (n_chain small_node) M 2 \<and>
     proven small_codec small_node M 2 (load_proof M)"
proof -
  obtain M where M: "ledger_run small_codec small_node small_genesis demo_db M" "lh_seq (last_closed_ledger M) = 2" using small_run by blast
  show ?thesis using ledgers_linked [OF small_codec_ok M(1), of 2] M by auto
qed

text \<open>
  Claim C12. A node resumes where it stopped. Started again on the databases of any run, a node has the
  last closed ledger, validators, fees, accounts, chain and proof that it had.
\<close>

theorem restart_resumes:
  assumes "codec_ok S (n_chain N0)" and "ledger_run S N0 G D M"
  shows "\<exists>M'. Initialize_manager S (n_chain N0) G linux (tries M) (account_kv M) (ledger_kv M) = Some M' \<and> tries M' = tries M \<and>
    account_kv M' = account_kv M \<and> ledger_kv M' = ledger_kv M \<and> last_closed_ledger M' = last_closed_ledger M \<and>
    lcl_header M' = lcl_header M \<and> m_validators M' = m_validators M \<and> m_fees M' = m_fees M \<and> m_proof M' = m_proof M \<and>
    self_chain M' = self_chain M"
  using restart_same ledger_run_inv [OF assms] unfolding chain_inv_def by blast

theorem restart_resumes_witness:
  "\<exists>(M :: manager) M'. lh_seq (last_closed_ledger M) = 2 \<and>
     Initialize_manager small_codec (n_chain small_node) small_genesis False (tries M) (account_kv M) (ledger_kv M) = Some M' \<and>
     last_closed_ledger M' = last_closed_ledger M \<and> m_validators M' = m_validators M"
proof -
  obtain M where M: "ledger_run small_codec small_node small_genesis demo_db M" "lh_seq (last_closed_ledger M) = 2" using small_run by blast
  from restart_resumes [OF small_codec_ok M(1), of False] show ?thesis using M(2) by blast
qed

text \<open>
  Claim C13. A crash between the two writes of a ledger loses that ledger only. When the node has
  written a new ledger to the ledger database and stops before it has written the accounts, the
  start that repairs the databases resumes with the ledger before: its header, accounts,
  validators, fees and proof. The start on Linux leaves the repair out (\<open>crash_unrepaired\<close>).
\<close>

theorem crash_between_writes:
  assumes "codec_ok S (n_chain N0)" and "ledger_run S N0 G D M" and "wire_value (n_chain N0) v"
    and "CloseLedger S N0 v proof a M m = Some (True, M1, m1)"
  shows "\<exists>M'. Initialize_manager S (n_chain N0) G False (tries M) (account_kv M) (ledger_kv M1) = Some M' \<and> tries M' = tries M \<and>
    account_kv M' = account_kv M \<and> last_closed_ledger M' = last_closed_ledger M \<and> lcl_header M' = lcl_header M \<and>
    m_validators M' = m_validators M \<and> m_fees M' = m_fees M \<and> m_proof M' = m_proof M \<and> self_chain M' = self_chain M"
  by (rule crash_repaired [OF assms(1) ledger_run_inv [OF assms(1,2)] assms(3,4)])

theorem crash_between_writes_witness:
  "\<exists>M M1 m1 M'. CloseLedger small_codec small_node small_value [] demo_attempt M new_context_st = Some (True, M1, m1) \<and>
     lh_seq (last_closed_ledger M1) = 2 \<and>
     Initialize_manager small_codec (n_chain small_node) small_genesis False (tries M) (account_kv M) (ledger_kv M1) = Some M' \<and>
     lh_seq (last_closed_ledger M') = 1"
proof -
  obtain M where M: "Initialize_manager small_codec (n_chain small_node) small_genesis True demo_db Map.empty Map.empty = Some M"
    "lh_hash (last_closed_ledger M) = [5]" using small_start by blast
  have run: "ledger_run small_codec small_node small_genesis demo_db M" using M(1) by (rule ledger_run.start)
  have chain: "chain_ok small_codec small_node M" "lh_seq (last_closed_ledger M) = 1" using genesis_chain [OF small_codec_ok M(1)] by simp_all
  obtain M1 m1 where M1: "CloseLedger small_codec small_node small_value [] demo_attempt M new_context_st = Some (True, M1, m1)"
    "lh_seq (last_closed_ledger M1) = 2"
    using small_close [OF chain M(2), of new_context_st "[]" demo_attempt] by (auto simp: new_context_st_def)
  from crash_between_writes [OF small_codec_ok run small_wire M1(1)] obtain M' where
    "Initialize_manager small_codec (n_chain small_node) small_genesis False (tries M) (account_kv M) (ledger_kv M1) = Some M'"
    "last_closed_ledger M' = last_closed_ledger M" by blast
  then show ?thesis using M1 chain(2) by metis
qed

end
