(* ===== verification/Ledger_Agree.thy ===== *)
theory Ledger_Agree
  imports Ledger_Start Ledger_Follow
begin

text \<open>
  Nodes that close the same values have the same ledger: whether a node has proposed a value, checked
  it, or follows it, what it writes is the same.
\<close>

section \<open>What a run puts into the ledger\<close>

lemma follow_envs_any:
  "follow_loop C D no_contracts ec i envs acc st \<noteq> None \<Longrightarrow> follow_envs C D exec ec i envs st = follow_envs C D no_contracts ec i envs st"
proof (induction envs arbitrary: i acc st)
  case (Cons env envs)
  let ?t = "fst (alloc_tx C env st)"
  let ?paid = "PayFee D ?t base_env (snd (alloc_tx C env st))"
  show ?case
  proof (cases "fst ?paid")
    case True
    obtain out st3 where "follow_tx C D no_contracts (int i \<in> ec) ?t (snd ?paid) = Some (out, st3)"
      using Cons.prems True by (auto simp: Let_def split_beta split: option.split_asm)
    then show ?thesis
      using Cons.IH [of "Suc i" _ st3] Cons.prems True follow_tx_any [where exec = exec] by (simp add: Let_def split_beta)
  next
    case False
    then show ?thesis using Cons.IH Cons.prems by (simp add: Let_def split_beta)
  qed
qed simp

text \<open>A proposing run that drops nothing is a checking run.\<close>

lemma propose_loop_as_check:
  "propose_loop C D exec False clk start i envs acc st = Some ((True, acc'), s) \<Longrightarrow>
   ra_dropped acc \<subseteq> ra_dropped acc' \<and> (finite (ra_error acc) \<longrightarrow> finite (ra_error acc')) \<and>
   (ra_dropped acc' = {} \<longrightarrow> check_loop C D exec False clk start i envs acc st = Some ((True, acc'), s))"
proof (induction envs arbitrary: i acc st)
  case (Cons env envs)
  have noted: "ra_dropped (note_outcome j t out acc) = ra_dropped acc" "finite (ra_error (note_outcome j t out acc)) = finite (ra_error acc)" for j t out
    by (simp_all add: note_outcome_def Let_def split: outcome.split)
  show ?case
    using Cons.prems
    by (auto simp: Let_def split_beta noted split: option.split_asm if_split_asm dest!: Cons.IH)
qed simp

lemma propose_as_check:
  assumes "ApplyPropose C D exec False clk start v = Some ((True, \<lparr>expire_tx_ids = [], error_tx_ids = []\<rparr>, {}), st)"
  shows "ApplyCheck C D exec False clk start v = Some (True, st)"
proof -
  obtain acc st1 where loop: "propose_loop C D exec False clk start 0 (txs v) new_acc (new_ledger_st v) = Some ((True, acc), st1)"
    and acc: "sorted_list_of_set (ra_expire acc) = []" "sorted_list_of_set (ra_error acc) = []" "ra_dropped acc = {}"
    and v: "validation v = None" and st: "st = snd (AllocateReward C D False st1)"
    using assms by (auto simp: ApplyPropose_def Let_def SetValidationToProto_def split: if_splits option.splits)
  have "finite (ra_expire acc)" "finite (ra_error acc)"
    using propose_loop_marks [OF loop] propose_loop_as_check [OF loop] by (simp_all add: new_acc_def)
  then have "ra_expire acc = {}" "ra_error acc = {}" using acc(1,2) by simp_all
  then show ?thesis using propose_loop_as_check [OF loop] acc(3) v st by (simp add: ApplyCheck_def CheckConsValueValidation_def)
qed

lemma keep_txs_none: "keep_txs {} i envs = envs"
  by (induction envs arbitrary: i) simp_all

section \<open>What a node takes over\<close>

text \<open>The transactions of the value call no contract.\<close>

definition calls_no_contract :: "chain \<Rightarrow> FullValue \<Rightarrow> bool" where
  "calls_no_contract N v \<longleftrightarrow>
     (\<forall>clk start. ApplyCheck (ch_cfg N) (ch_db N) no_contracts False clk start (ConsensusValue.truncate v) \<noteq> None) \<and>
     ApplyFollow (ch_cfg N) (ch_db N) no_contracts (ConsensusValue.truncate v) \<noteq> None"

text \<open>
  \<open>keeps_clean\<close>: if a node keeps a run under the hash of a value, then it is a run of that value,
  checked, or proposed with no transaction dropped, failed or expired. All of it but the last part
  is shown below for the contexts a node gathers; the last part is \<open>unamended\<close>.
\<close>

definition keeps_clean :: "chain \<Rightarrow> FullValue \<Rightarrow> context_st \<Rightarrow> bool" where
  "keeps_clean N v m \<longleftrightarrow>
     (\<forall>c. map_of (completed_ctxs m) (value_hash N v) = Some c \<longrightarrow> ctx_ok N c \<and> lc_value c = v \<and>
        (lc_mode c = APPLY_MODE_CHECK \<or>
         need_dropped_tx (lc_result c) = {} \<and> cons_validation (lc_result c) = \<lparr>expire_tx_ids = [], error_tx_ids = []\<rparr>))"

text \<open>What a following run makes of a value.\<close>

definition followed :: "chain \<Rightarrow> FullValue \<Rightarrow> env_world \<Rightarrow> TransactionEnv list \<Rightarrow> bool" where
  "followed N v w envs \<longleftrightarrow>
     (let u = ConsensusValue.truncate v in
      \<exists>st ec er. ApplyFollow (ch_cfg N) (ch_db N) no_contracts u = Some (True, st) \<and> world st = w \<and>
        CheckConsValueValidation u = Some (ec, er) \<and> follow_envs (ch_cfg N) (ch_db N) no_contracts ec 0 (txs u) (new_ledger_st u) = envs)"

lemma followed_unique: "followed N v w envs \<Longrightarrow> followed N v w' envs' \<Longrightarrow> w = w' \<and> envs = envs'"
  by (auto simp: followed_def Let_def)

lemma check_followed:
  assumes "calls_no_contract N v"
    and "ApplyCheck (ch_cfg N) (ch_db N) exec False clk start (ConsensusValue.truncate v) = Some (True, st)"
  shows "followed N v (world st) (txs (ConsensusValue.truncate v))"
proof -
  let ?u = "ConsensusValue.truncate v"
  have plain: "ApplyCheck (ch_cfg N) (ch_db N) no_contracts False clk start ?u \<noteq> None" using assms(1) by (simp add: calls_no_contract_def)
  obtain st' where st': "ApplyFollow (ch_cfg N) (ch_db N) exec ?u = Some (True, st')" "world st' = world st"
    using check_then_follow(1) [OF plain assms(2)] by blast
  moreover have "ApplyFollow (ch_cfg N) (ch_db N) no_contracts ?u = Some (True, st')"
    using assms(1) ApplyFollow_any [where exec = exec] st'(1) by (auto simp: calls_no_contract_def)
  ultimately show ?thesis using check_then_follow(2) [OF plain assms(2)] by (auto simp: followed_def Let_def)
qed

lemma SyncProcess_followed:
  assumes plain: "calls_no_contract N v" and keeps: "keeps_clean N v m" and sync: "SyncProcess N v a m = Some (Some c)"
  shows "followed N v (world (lc_ledger c)) (transaction_envs N a c) \<and> lh_reserve (lc_header c) = []"
proof (cases "map_of (completed_ctxs m) (value_hash N v)")
  case None
  let ?u = "ConsensusValue.truncate v"
  obtain st where st: "ApplyFollow (ch_cfg N) (ch_db N) (run_exec a) ?u = Some (True, st)" and c: "lc_ledger c = st"
    "lc_mode c = APPLY_MODE_FOLLOW" "lc_value c = v" "lh_reserve (lc_header c) = []"
    using sync None
    by (auto simp: SyncProcess_def Do_def new_LedgerContext_def begin_header_def empty_header_def Let_def split: if_splits)
  have any: "ApplyFollow (ch_cfg N) (ch_db N) no_contracts ?u = Some (True, st)"
    using plain ApplyFollow_any [where exec = "run_exec a"] st by (auto simp: calls_no_contract_def)
  then obtain ec er where val: "CheckConsValueValidation ?u = Some (ec, er)"
    "follow_loop (ch_cfg N) (ch_db N) no_contracts ec 0 (txs ?u) new_acc (new_ledger_st ?u) \<noteq> None"
    by (auto simp: ApplyFollow_def Let_def split: option.splits)
  have "transaction_envs N a c = follow_envs (ch_cfg N) (ch_db N) no_contracts ec 0 (txs ?u) (new_ledger_st ?u)"
    using c(2,3) val(1) follow_envs_any [OF val(2), of "run_exec a"] by (simp add: transaction_envs_def Let_def)
  then show ?thesis using any val(1) c(1,4) by (auto simp: followed_def Let_def)
next
  case (Some d)
  then have d: "d = c" using sync by (simp add: SyncProcess_def)
  have clean: "ctx_ok N c" "lc_value c = v" "lc_mode c = APPLY_MODE_CHECK \<or>
      need_dropped_tx (lc_result c) = {} \<and> cons_validation (lc_result c) = \<lparr>expire_tx_ids = [], error_tx_ids = []\<rparr>"
    using keeps Some unfolding keeps_clean_def d by blast+
  obtain b i where run: "Do N b (new_LedgerContext N i v (lc_mode c)\<lparr>lc_start_time := run_start b\<rparr>) = Some c" "exec_result (lc_result c)"
    "lc_mode c \<noteq> APPLY_MODE_FOLLOW"
    using clean(1,2) by (auto simp: ctx_ok_def)
  have reserve: "lh_reserve (lc_header c) = []"
    using run(1) by (auto simp: Do_def new_LedgerContext_def begin_header_def empty_header_def Let_def split: APPLY_MODE.splits)
  show ?thesis
  proof (cases "lc_mode c")
    case APPLY_MODE_CHECK
    then have "ApplyCheck (ch_cfg N) (ch_db N) (run_exec b) False (run_clock b) (run_start b) (ConsensusValue.truncate v) = Some (True, lc_ledger c)"
      using run(1,2) by (auto simp: Do_def new_LedgerContext_def Let_def)
    then show ?thesis
      using check_followed [OF plain] reserve APPLY_MODE_CHECK clean(2) by (simp add: transaction_envs_def)
  next
    case APPLY_MODE_PROPOSE
    then have none: "need_dropped_tx (lc_result c) = {}" "cons_validation (lc_result c) = \<lparr>expire_tx_ids = [], error_tx_ids = []\<rparr>"
      using clean(3) by simp_all
    have "ApplyPropose (ch_cfg N) (ch_db N) (run_exec b) False (run_clock b) (run_start b) (ConsensusValue.truncate v) =
        Some ((True, \<lparr>expire_tx_ids = [], error_tx_ids = []\<rparr>, {}), lc_ledger c)"
      using run(1,2) none APPLY_MODE_PROPOSE by (auto simp: Do_def new_LedgerContext_def Let_def)
    from check_followed [OF plain propose_as_check [OF this]] show ?thesis
      using reserve APPLY_MODE_PROPOSE clean(2) none by (simp add: transaction_envs_def keep_txs_none)
  qed (use run(3) in simp)
qed

section \<open>The same ledger\<close>

text \<open>All that the nodes of a chain have in common: everything but proofs and the state of the synchronization.\<close>

definition same_ledger :: "manager \<Rightarrow> manager \<Rightarrow> bool" where
  "same_ledger M M' \<longleftrightarrow> tries M' = tries M \<and> (account_kv M')(LAST_PROOF := None) = (account_kv M)(LAST_PROOF := None) \<and>
     ledger_kv M' = ledger_kv M \<and> last_closed_ledger M' = last_closed_ledger M \<and> lcl_header M' = lcl_header M \<and>
     m_validators M' = m_validators M \<and> m_fees M' = m_fees M \<and> self_chain M' = self_chain M"

lemma WriteBatch_cong: "d k = d' k \<Longrightarrow> WriteBatch b d k = WriteBatch b d' k"
proof (induction b arbitrary: d d')
  case (Cons x b)
  have "write_op x d k = write_op x d' k" using Cons.prems by (cases x) simp_all
  then show ?case using Cons.IH [of "write_op x d" "write_op x d'"] by (simp add: WriteBatch_def)
qed (simp add: WriteBatch_def)

lemma WriteBatch_proof:
  assumes "d'(LAST_PROOF := None) = d(LAST_PROOF := None)"
  shows "(WriteBatch ([x] @ b @ c @ [Put LAST_PROOF p']) d')(LAST_PROOF := None) =
    (WriteBatch ([x] @ b @ c @ [Put LAST_PROOF p]) d)(LAST_PROOF := None)"
proof -
  have last: "WriteBatch ([x] @ b @ c @ [Put LAST_PROOF q]) d = (WriteBatch ([x] @ b @ c) d)(LAST_PROOF \<mapsto> q)" for q d
    by (simp add: WriteBatch_def)
  have "WriteBatch ([x] @ b @ c) d' k = WriteBatch ([x] @ b @ c) d k" if "k \<noteq> LAST_PROOF" for k
    using fun_cong [OF assms, of k] that by (intro WriteBatch_cong) simp
  then show ?thesis unfolding last by (auto simp: fun_eq_iff)
qed

lemma close_with_same:
  assumes "same_ledger M M'" and "lh_reserve hdr' = lh_reserve hdr"
  shows "same_ledger (close_with S N v p hdr envs w M) (close_with S N v p' hdr' envs w M')"
proof -
  have "hdr'\<lparr>lh_seq := a, lh_close_time := b, lh_previous_hash := c, lh_consensus_value_hash := d, lh_chain_id := e, lh_version := f,
      lh_account_tree_hash := g, lh_tx_count := h, lh_hash := i, lh_validators_hash := j, lh_fees_hash := k\<rparr> =
    hdr\<lparr>lh_seq := a, lh_close_time := b, lh_previous_hash := c, lh_consensus_value_hash := d, lh_chain_id := e, lh_version := f,
      lh_account_tree_hash := g, lh_tx_count := h, lh_hash := i, lh_validators_hash := j, lh_fees_hash := k\<rparr>" for a b c d e f g h i j k
    using assms(2) by (cases hdr, cases hdr') simp
  note header = this
  have "tries M' = tries M" "ledger_kv M' = ledger_kv M" "last_closed_ledger M' = last_closed_ledger M" "lcl_header M' = lcl_header M"
    "m_validators M' = m_validators M" "m_fees M' = m_fees M" "self_chain M' = self_chain M"
    and proofs: "(account_kv M')(LAST_PROOF := None) = (account_kv M)(LAST_PROOF := None)"
    using assms(1) by (simp_all add: same_ledger_def)
  note same = this(1-7)
  show ?thesis
    unfolding same_ledger_def close_with_def Let_def split_beta same header
    by (intro conjI; simp add: same WriteBatch_proof [OF proofs, of _ _ _ p' p] del: append.simps)
qed

lemma same_ledger_validators:
  assumes "same_ledger M M'"
  shows "GetValidators_db S M' = GetValidators_db S M"
proof -
  have "account_kv M' (validators_key h) = account_kv M (validators_key h)" for h
  proof -
    have "validators_key h \<noteq> LAST_PROOF" by (simp add: validators_key_def LAST_PROOF_def lit_def)
    then show ?thesis using assms unfolding same_ledger_def by (metis fun_upd_other)
  qed
  moreover have "ledger_kv M' = ledger_kv M" using assms by (simp add: same_ledger_def)
  ultimately show ?thesis by (intro ext) (simp add: GetValidators_db_def ValidatorsGet_def cong: option.case_cong)
qed

lemma same_ledger_node:
  assumes "same_ledger M M'" and "n_chain N0' = n_chain N0"
  shows "n_chain (node_of S N0' M') = n_chain (node_of S N0 M)"
  using assms same_ledger_validators [OF assms(1)] by (simp add: node_of_def cfg_of_def same_ledger_def)

lemma CloseLedger_same:
  assumes same: "same_ledger M M'" and base: "n_chain N0' = n_chain N0"
    and plain: "calls_no_contract (n_chain (node_of S N0 M)) v"
    and one: "keeps_clean (n_chain (node_of S N0 M)) v m" "CloseLedger S N0 v p a M m = Some (True, M1, m1)"
    and other: "keeps_clean (n_chain (node_of S N0' M')) v m'" "CloseLedger S N0' v p' a' M' m' = Some (True, M1', m1')"
  shows "same_ledger M1 M1'"
proof -
  let ?N = "n_chain (node_of S N0 M)"
  have N: "n_chain (node_of S N0' M') = ?N" using same_ledger_node [OF same base] .
  obtain c where c: "SyncProcess ?N v a m = Some (Some c)" and
    M1: "M1 = fst (NotifyLedgerClose (ledger_upgrade v \<noteq> None) (close_with S ?N v p (lc_header c) (transaction_envs ?N a c) (world (lc_ledger c)) M) m)"
    using one(2) by (auto simp: CloseLedger_def Let_def split: if_splits option.splits)
  obtain c' where c': "SyncProcess ?N v a' m' = Some (Some c')" and
    M1': "M1' = fst (NotifyLedgerClose (ledger_upgrade v \<noteq> None) (close_with S ?N v p' (lc_header c') (transaction_envs ?N a' c') (world (lc_ledger c')) M') m')"
    using other(2) N by (auto simp: CloseLedger_def Let_def split: if_splits option.splits)
  have f: "followed ?N v (world (lc_ledger c)) (transaction_envs ?N a c)" "lh_reserve (lc_header c) = []"
    using SyncProcess_followed [OF plain one(1) c] by simp_all
  have f': "followed ?N v (world (lc_ledger c')) (transaction_envs ?N a' c')" "lh_reserve (lc_header c') = []"
    using SyncProcess_followed [OF plain _ c'] other(1) N by simp_all
  have eq: "world (lc_ledger c') = world (lc_ledger c)" "transaction_envs ?N a' c' = transaction_envs ?N a c"
    using followed_unique [OF f(1) f'(1)] by simp_all
  have "same_ledger (close_with S ?N v p (lc_header c) (transaction_envs ?N a c) (world (lc_ledger c)) M)
      (close_with S ?N v p' (lc_header c') (transaction_envs ?N a' c') (world (lc_ledger c')) M')"
    unfolding eq using close_with_same [OF same] f(2) f'(2) by simp
  then show ?thesis unfolding M1 M1' by (simp add: NotifyLedgerClose_def same_ledger_def)
qed

text \<open>The closings alone, each from contexts that satisfy \<open>keeps_clean\<close>.\<close>

inductive clean_closes :: "encodings \<Rightarrow> node \<Rightarrow> FullValue list \<Rightarrow> manager \<Rightarrow> manager \<Rightarrow> bool" for S N0 where
  none: "clean_closes S N0 [] M M"
| next_value: "keeps_clean (n_chain (node_of S N0 M)) v m \<Longrightarrow> calls_no_contract (n_chain (node_of S N0 M)) v \<Longrightarrow>
    CloseLedger S N0 v p a M m = Some (True, M1, m1) \<Longrightarrow> clean_closes S N0 vs M1 M2 \<Longrightarrow> clean_closes S N0 (v # vs) M M2"

inductive_cases clean_closes_NilE: "clean_closes S N0 [] M M2"
inductive_cases clean_closes_ConsE: "clean_closes S N0 (v # vs) M M2"

lemma clean_same_ledger:
  assumes "clean_closes S N0 vs M M1" and "clean_closes S N0' vs M' M1'" and "n_chain N0' = n_chain N0" and "same_ledger M M'"
  shows "same_ledger M1 M1'"
  using assms(1,2,4)
proof (induction vs arbitrary: M M')
  case Nil
  then show ?case by (auto elim!: clean_closes_NilE)
next
  case (Cons v vs)
  obtain m p a M2 m2 where one: "keeps_clean (n_chain (node_of S N0 M)) v m" "calls_no_contract (n_chain (node_of S N0 M)) v"
    "CloseLedger S N0 v p a M m = Some (True, M2, m2)" "clean_closes S N0 vs M2 M1"
    using Cons.prems(1) by (rule clean_closes_ConsE)
  obtain m' p' a' M2' m2' where other: "keeps_clean (n_chain (node_of S N0' M')) v m'"
    "CloseLedger S N0' v p' a' M' m' = Some (True, M2', m2')" "clean_closes S N0' vs M2' M1'"
    using Cons.prems(2) by (rule clean_closes_ConsE)
  show ?case
    by (rule Cons.IH [OF one(4) other(3) CloseLedger_same [OF Cons.prems(3) assms(3) one(2,1,3) other(1,2)]])
qed

section \<open>The contexts a node gathers\<close>

text \<open>
  The node did not amend the value: if it keeps a proposing run under the hash of the value, that
  run has dropped no transaction and has found none failed or expired. The code does not see to
  it: \<^verbatim>\<open>SyncProcess\<close> takes a kept context over whatever its mode and what it dropped. A proposing
  node that had to amend a value proposes the amended value, which has another hash.
\<close>

definition unamended :: "chain \<Rightarrow> FullValue \<Rightarrow> context_st \<Rightarrow> bool" where
  "unamended N v m =
     (case map_of (completed_ctxs m) (value_hash N v) of
        None \<Rightarrow> True
      | Some c \<Rightarrow> lc_mode c \<noteq> APPLY_MODE_PROPOSE \<or>
          need_dropped_tx (lc_result c) = {} \<and> cons_validation (lc_result c) = \<lparr>expire_tx_ids = [], error_tx_ids = []\<rparr>)"

text \<open>
  A node between two points of its life in which it closes the values \<open>vs\<close>, one after the other. In
  between it checks any strings it receives as values, makes proposing runs of values for its next
  ledger, and its timer removes old contexts. It closes a value by whatever it keeps for it, or
  else by following it.
\<close>

inductive closes :: "encodings \<Rightarrow> node \<Rightarrow> FullValue list \<Rightarrow> manager \<Rightarrow> context_st \<Rightarrow> manager \<Rightarrow> context_st \<Rightarrow> bool" for S N0 where
  none: "closes S N0 [] M m M m"
| check: "CheckValue (node_of S N0 M) now a s m = Some (r, m1) \<Longrightarrow> closes S N0 vs M m1 M2 m2 \<Longrightarrow> closes S N0 vs M m M2 m2"
| propose: "ledger_seq u = lh_seq (lcl_header M) + 1 \<Longrightarrow> parse_value (n_chain N0) (ser_value (n_chain N0) u) = Some u \<Longrightarrow>
    SyncPreProcess (n_chain (node_of S N0 M)) u True a res m = Some (r, m1) \<Longrightarrow> closes S N0 vs M m1 M2 m2 \<Longrightarrow> closes S N0 vs M m M2 m2"
| timer: "closes S N0 vs M (OnTimer_contexts now t m) M2 m2 \<Longrightarrow> closes S N0 vs M m M2 m2"
| close: "wire_value (n_chain N0) v \<Longrightarrow> calls_no_contract (n_chain (node_of S N0 M)) v \<Longrightarrow>
    unamended (n_chain (node_of S N0 M)) v m \<Longrightarrow> CloseLedger S N0 v p a M m = Some (True, M1, m1) \<Longrightarrow>
    closes S N0 vs M1 m1 M2 m2 \<Longrightarrow> closes S N0 (v # vs) M m M2 m2"

text \<open>What a node keeps: successful runs of values for the next ledger.\<close>

definition kept_ok :: "encodings \<Rightarrow> node \<Rightarrow> manager \<Rightarrow> context_st \<Rightarrow> bool" where
  "kept_ok S N0 M m \<longleftrightarrow> ctxs_ok (n_chain (node_of S N0 M)) m \<and>
     (\<forall>c \<in> snd ` set (completed_ctxs m). ledger_seq (lc_value c) = lh_seq (lcl_header M) + 1 \<and>
        (\<exists>s. parse_value (n_chain N0) s = Some (lc_value c)))"

lemma unamended_node: "unamended (n_chain (node_of S N0 M)) v m = unamended (n_chain N0) v m"
  by (simp add: unamended_def)

lemma kept_ok_same:
  assumes "same_ledger M M'" and "kept_ok S N0 M m"
  shows "kept_ok S N0 M' m"
  using assms(2) same_ledger_node [OF assms(1) refl, of S] assms(1) by (simp add: kept_ok_def same_ledger_def)

lemma kept_ok_none: "completed_ctxs m = [] \<Longrightarrow> kept_ok S N0 M m"
  by (simp add: kept_ok_def ctxs_ok_def om_simps)

lemma kept_ok_timer: "kept_ok S N0 M (OnTimer_contexts now t m) = kept_ok S N0 M m"
  by (simp add: kept_ok_def ctxs_ok_timer) (simp add: OnTimer_contexts_def)

lemma preprocess_adds:
  assumes "SyncPreProcess N u propose a res m = Some (r, m1)" and "om_sorted (completed_ctxs m)"
  shows "snd ` set (completed_ctxs m1) \<subseteq> snd ` set (completed_ctxs m) \<union> {c. lc_value c = u}"
proof -
  let ?c = "new_LedgerContext N (next_ctx m) u (if propose then APPLY_MODE_PROPOSE else APPLY_MODE_CHECK)\<lparr>lc_start_time := run_start a\<rparr>"
  have "lc_value c1 = u" if "Do N a ?c = Some c1" for c1
    using Do_fields(2) [OF that] by (simp add: new_LedgerContext_def)
  then show ?thesis
    using assms
    by (auto simp: SyncPreProcess_def Run_def MoveRunningToComplete_def MoveRunningToDelete_def drop_running_def set_om_insert Let_def
        split: if_splits option.splits)
qed

lemma kept_ok_preprocess:
  assumes "SyncPreProcess (n_chain (node_of S N0 M)) u propose a res m = Some (r, m1)" and "kept_ok S N0 M m"
    and "ledger_seq u = lh_seq (lcl_header M) + 1" and "parse_value (n_chain N0) s = Some u"
  shows "kept_ok S N0 M m1"
proof -
  have old: "ctxs_ok (n_chain (node_of S N0 M)) m" "om_sorted (completed_ctxs m)" using assms(2) by (simp_all add: kept_ok_def ctxs_ok_def)
  show ?thesis
    using assms(2-4) ctxs_ok_preprocess [OF assms(1) old(1)] preprocess_adds [OF assms(1) old(2)] unfolding kept_ok_def by blast
qed

lemma kept_ok_check:
  assumes "CheckValue (node_of S N0 M) now a value m = Some (r, m1)" and "kept_ok S N0 M m"
  shows "kept_ok S N0 M m1"
proof (cases "parse_value (n_chain N0) value")
  case None
  then show ?thesis using assms by (simp add: CheckValue_def)
next
  case (Some u)
  show ?thesis
  proof (cases "CheckValueHelper (node_of S N0 M) u now = CHECK_VALUE_VALID")
    case True
    then obtain q where "SyncPreProcess (n_chain (node_of S N0 M)) u False a new_ProposeTxsResult m = Some (q, m1)"
      using assms(1) Some by (auto simp: CheckValue_def)
    from kept_ok_preprocess [OF this assms(2) _ Some] show ?thesis using CheckValueHelper_valid(1) [OF True] by simp
  qed (use assms Some in \<open>simp add: CheckValue_def\<close>)
qed

lemma kept_ok_close:
  assumes "kept_ok S N0 M m" and "wire_value (n_chain N0) v" and "codec_ok S (n_chain N0)" and "CloseLedger S N0 v p a M m = Some (True, M1, m1)"
  shows "completed_ctxs m1 = []"
proof -
  have parse: "parse_value (n_chain N0) (ser_value (n_chain N0) v) = Some v" using assms(2) codec_okD(4) [OF assms(3)] by (auto simp: wire_value_def)
  let ?N = "n_chain (node_of S N0 M)"
  obtain c where check: "CheckValueAndProof (node_of S N0 M) (ser_value (n_chain N0) v) p" and
    close: "NotifyLedgerClose (ledger_upgrade v \<noteq> None)
      (close_with S ?N v p (lc_header c) (transaction_envs ?N a c) (world (lc_ledger c)) M) m = (M1, m1)"
    using assms(4) by (auto simp: CloseLedger_def Let_def split: if_splits option.splits)
  have "ledger_seq v = lh_seq (lcl_header M) + 1"
    using CheckValueAndProof_valid [OF check] parse CheckValueHelper_valid(1) [of "node_of S N0 M" v "-1"] by auto
  moreover have "completed_ctxs m1 = filter (\<lambda>(h, c). \<not> ledger_seq (lc_value c) \<le> ledger_seq v) (completed_ctxs m)"
    using close by (auto simp: NotifyLedgerClose_def RemoveCompleted_def close_with_fields(1) [OF refl])
  moreover have "ledger_seq (lc_value d) = lh_seq (lcl_header M) + 1" if "(h, d) \<in> set (completed_ctxs m)" for h d
    using assms(1) that by (force simp: kept_ok_def)
  ultimately show ?thesis by (auto simp: filter_empty_conv)
qed

lemma kept_ok_clean:
  assumes ok: "codec_ok S (n_chain N0)" and kept: "kept_ok S N0 M m" and "wire_value (n_chain N0) v" and "unamended (n_chain (node_of S N0 M)) v m"
  shows "keeps_clean (n_chain (node_of S N0 M)) v m"
  unfolding keeps_clean_def
proof (intro allI impI)
  let ?N = "n_chain (node_of S N0 M)"
  fix c assume c: "map_of (completed_ctxs m) (value_hash ?N v) = Some c"
  then have mem: "(value_hash ?N v, c) \<in> set (completed_ctxs m)" by (rule map_of_SomeD)
  then have good: "lc_hash c = value_hash ?N v" "ctx_ok ?N c" using kept by (auto simp: kept_ok_def ctxs_ok_def)
  obtain s where "parse_value (n_chain N0) s = Some (lc_value c)" using mem kept by (force simp: kept_ok_def)
  then have "parse_value (n_chain N0) (ser_value (n_chain N0) (lc_value c)) = Some (lc_value c)" by (rule codec_okD(4) [OF ok])
  moreover have "parse_value (n_chain N0) (ser_value (n_chain N0) v) = Some v" using assms(3) codec_okD(4) [OF ok] by (auto simp: wire_value_def)
  moreover have "ser_value (n_chain N0) (lc_value c) = ser_value (n_chain N0) v"
  proof -
    have "lc_hash c = value_hash (n_chain N0) (lc_value c)" using good(2) by (simp add: ctx_ok_def)
    then have "crypto (n_chain N0) (ser_value (n_chain N0) (lc_value c)) = crypto (n_chain N0) (ser_value (n_chain N0) v)"
      using good(1) unfolding node_of_fields value_hash_def by simp
    then show ?thesis unfolding codec_okD(5) [OF ok] .
  qed
  ultimately have "lc_value c = v" by (metis option.inject)
  then show "ctx_ok ?N c \<and> lc_value c = v \<and> (lc_mode c = APPLY_MODE_CHECK \<or>
      need_dropped_tx (lc_result c) = {} \<and> cons_validation (lc_result c) = \<lparr>expire_tx_ids = [], error_tx_ids = []\<rparr>)"
    using good(2) assms(4) c by (cases "lc_mode c") (auto simp: unamended_def ctx_ok_def)
qed

lemma closes_clean:
  assumes "codec_ok S (n_chain N0)"
  shows "closes S N0 vs M m M2 m2 \<Longrightarrow> kept_ok S N0 M m \<Longrightarrow>
    clean_closes S N0 vs M M2 \<and> list_all (wire_value (n_chain N0)) vs \<and> kept_ok S N0 M2 m2"
proof (induction rule: closes.induct)
  case (none M m)
  then show ?case by (simp add: clean_closes.none)
next
  case (check M now a s m r m1 vs M2 m2)
  then show ?case using kept_ok_check by blast
next
  case (propose u M a res m r m1 vs M2 m2)
  then show ?case using kept_ok_preprocess by blast
next
  case (timer vs M now t m M2 m2)
  then show ?case by (simp add: kept_ok_timer)
next
  case (close v M m p a M1 m1 vs M2 m2)
  have "keeps_clean (n_chain (node_of S N0 M)) v m" using kept_ok_clean [OF assms close.prems close.hyps(1,3)] .
  moreover have "kept_ok S N0 M1 m1" using kept_ok_none kept_ok_close [OF close.prems close.hyps(1) assms close.hyps(4)] by blast
  ultimately show ?case using close.IH close.hyps(1,2,4) clean_closes.next_value by fastforce
qed

text \<open>
  What goes wrong with an amended value: the node that keeps the amending run closes the ledger with
  fewer transactions than the value has, where a node that has checked the value writes all of them.
\<close>

lemma keep_txs_length: "length (keep_txs d i envs) \<le> length envs"
  by (induction envs arbitrary: i) (auto intro: le_SucI)

lemma keep_txs_shorter: "k < length envs \<Longrightarrow> int (i + k) \<in> d \<Longrightarrow> length (keep_txs d i envs) < length envs"
proof (induction envs arbitrary: i k)
  case (Cons env envs)
  show ?case
  proof (cases k)
    case 0
    then show ?thesis using Cons.prems(2) keep_txs_length [of d "Suc i" envs] by simp
  next
    case (Suc l)
    then have "length (keep_txs d (Suc i) envs) < length envs" using Cons.IH [of l "Suc i"] Cons.prems by simp
    then show ?thesis by simp
  qed
qed simp

lemma amended_value_differs:
  assumes "map_of (completed_ctxs m) (value_hash N v) = Some c" and "lc_mode c = APPLY_MODE_PROPOSE"
    and "int k \<in> need_dropped_tx (lc_result c)" and "k < length (txs (lc_value c))"
    and "map_of (completed_ctxs m') (value_hash N v) = Some c'" and "lc_mode c' = APPLY_MODE_CHECK" and "lc_value c' = lc_value c"
  shows "SyncProcess N v a m = Some (Some c) \<and> SyncProcess N v a' m' = Some (Some c') \<and>
    length (transaction_envs N a c) < length (transaction_envs N a' c')"
  using assms keep_txs_shorter [of k "txs (lc_value c)" 0 "need_dropped_tx (lc_result c)"]
  by (simp add: SyncProcess_def transaction_envs_def Let_def) (simp add: ConsensusValue.truncate_def)

section \<open>Agreement on the ledger\<close>

text \<open>
  Claim C9. Nodes that agree on the values have the same ledger. Two nodes start from the same
  ledger, with no kept contexts, and close the same values, free of contracts; in between each
  checks and proposes what it likes for its next ledger. They end with the same accounts,
  assets and metadata, headers and hashes, stored values, validators and fees, whether a node
  closes a value by its own proposing run, by its checking run, or by following it, at whatever
  times and with whatever proofs. One condition stands: a node that closes a value by its own
  proposing run has dropped nothing from the value and found nothing in it failed or expired.
\<close>

theorem same_values_same_ledger:
  assumes "codec_ok S (n_chain N0)" and "n_chain N0' = n_chain N0"
    and "closes S N0 vs M m M1 m1" and "completed_ctxs m = []"
    and "closes S N0' vs M' m' M1' m1'" and "completed_ctxs m' = []" and "same_ledger M M'"
  shows "same_ledger M1 M1'"
proof -
  have "codec_ok S (n_chain N0')" using assms(1,2) by simp
  then have "clean_closes S N0' vs M' M1'" using closes_clean assms(5) kept_ok_none [OF assms(6)] by blast
  moreover have "clean_closes S N0 vs M M1" using closes_clean [OF assms(1,3)] kept_ok_none [OF assms(4)] by blast
  ultimately show ?thesis using clean_same_ledger assms(2,7) by blast
qed

text \<open>The small node closes its value once by a proposing run of its own, and once by following.\<close>

lemma small_proposes:
  "ApplyPropose C D exec False clk start (ConsensusValue.truncate small_value) =
     Some ((True, \<lparr>expire_tx_ids = [], error_tx_ids = []\<rparr>, {}), snd (AllocateReward C D False (new_ledger_st (ConsensusValue.truncate small_value))))"
  by (simp add: ApplyPropose_def Let_def SetValidationToProto_def small_value_def empty_value_def ConsensusValue.truncate_def new_acc_def)

lemma small_proposed:
  assumes "crypto N = id" and "ser_value N = (\<lambda>_. [7])"
  shows "\<exists>r m c. SyncPreProcess N small_value True demo_attempt new_ProposeTxsResult new_context_st = Some (r, m) \<and>
     completed_ctxs m = [([7], c)] \<and> lc_mode c = APPLY_MODE_PROPOSE \<and> exec_result (lc_result c) \<and> unamended N small_value m"
  by (simp add: SyncPreProcess_def Run_def Do_def new_LedgerContext_def Let_def small_proposes value_hash_def assms CheckComplete_def
      new_context_st_def demo_attempt_def MoveRunningToComplete_def drop_running_def om_insert_def om_simps unamended_def)
    (rule exI [of _ True], rule TrueI)

lemma small_closes:
  assumes "chain_ok small_codec small_node M" "lh_seq (last_closed_ledger M) = 1" "lh_hash (last_closed_ledger M) = [5]"
    and "unamended (n_chain (node_of small_codec small_node M)) small_value m"
    and "\<And>c. map_of (completed_ctxs m) [7] = Some c \<Longrightarrow> exec_result (lc_result c)"
  shows "\<exists>M1 m1. closes small_codec small_node [small_value] M m M1 m1 \<and> lh_seq (last_closed_ledger M1) = 2"
proof -
  obtain M1 m1 where M1: "CloseLedger small_codec small_node small_value [] demo_attempt M m = Some (True, M1, m1)"
    "lh_seq (last_closed_ledger M1) = 2"
    using small_close [OF assms(1-3), of m "[]" demo_attempt] assms(5) by blast
  moreover have "calls_no_contract (n_chain (node_of small_codec small_node M)) small_value" by (simp add: calls_no_contract_def small_runs)
  ultimately show ?thesis using closes.close [OF small_wire _ assms(4) _ closes.none] by blast
qed

theorem same_values_same_ledger_witness:
  "\<exists>M r m c M1 m1 M1' m1'. lh_seq (last_closed_ledger M) = 1 \<and>
     SyncPreProcess (n_chain (node_of small_codec small_node M)) small_value True demo_attempt new_ProposeTxsResult new_context_st = Some (r, m) \<and>
     completed_ctxs m = [([7], c)] \<and> lc_mode c = APPLY_MODE_PROPOSE \<and>
     closes small_codec small_node [small_value] M m M1 m1 \<and> closes small_codec small_node [small_value] M new_context_st M1' m1' \<and>
     lh_seq (last_closed_ledger M1) = 2 \<and> same_ledger M1 M1'"
proof -
  obtain M where M: "Initialize_manager small_codec (n_chain small_node) small_genesis True demo_db Map.empty Map.empty = Some M"
    "lh_hash (last_closed_ledger M) = [5]" using small_start by blast
  have chain: "chain_ok small_codec small_node M" "lh_seq (last_closed_ledger M) = 1" using genesis_chain [OF small_codec_ok M(1)] by simp_all
  let ?N = "n_chain (node_of small_codec small_node M)"
  have N: "crypto ?N = id" "ser_value ?N = (\<lambda>_. [7])" by (simp_all add: node_of_def small_node_def demo_chain_def)
  obtain r m c where m: "SyncPreProcess ?N small_value True demo_attempt new_ProposeTxsResult new_context_st = Some (r, m)"
    "completed_ctxs m = [([7], c)]" "lc_mode c = APPLY_MODE_PROPOSE" "exec_result (lc_result c)" "unamended ?N small_value m"
    using small_proposed [OF N] by blast
  obtain M1 m1 where one: "closes small_codec small_node [small_value] M m M1 m1" "lh_seq (last_closed_ledger M1) = 2"
    using small_closes [OF chain M(2) m(5)] m(2,4) by auto
  have "ledger_seq small_value = lh_seq (lcl_header M) + 1" using chain chain_okD(2) [OF chain(1)] by (simp add: small_fields)
  then have from_start: "closes small_codec small_node [small_value] M new_context_st M1 m1"
    using closes.propose [OF _ _ m(1) one(1)] by (simp add: small_node_def demo_chain_def)
  obtain M1' m1' where other: "closes small_codec small_node [small_value] M new_context_st M1' m1'"
    using small_closes [OF chain M(2), of new_context_st] by (auto simp: unamended_def new_context_st_def)
  have "same_ledger M M" by (simp add: same_ledger_def)
  then have "same_ledger M1 M1'"
    using same_values_same_ledger [OF small_codec_ok refl from_start _ other] by (simp add: new_context_st_def)
  then show ?thesis using m one other chain(2) by blast
qed

end
