(* ===== verification/Ledger_Sync.thy ===== *)
theory Ledger_Sync
  imports Ledger_Agree Ledger_Chain_Thms
begin

text \<open>
  Synchronization between two nodes of a chain: what a node answers to a request for values, another
  node accepts, and it arrives at the ledger that the first one had.
\<close>

section \<open>What closing leaves as it was\<close>

lemma closes_keeps:
  assumes "codec_ok S (n_chain N0)"
  shows "clean_closes S N0 vs M M1 \<Longrightarrow> chain_inv S N0 M \<Longrightarrow> list_all (wire_value (n_chain N0)) vs \<Longrightarrow>
    chain_inv S N0 M1 \<and> lh_seq (last_closed_ledger M1) = lh_seq (last_closed_ledger M) + int (length vs) \<and> self_chain M1 = self_chain M \<and>
    (\<forall>i. 1 \<le> i \<and> i \<le> lh_seq (last_closed_ledger M) \<longrightarrow> GetValidators_db S M1 i = GetValidators_db S M i \<and>
      LoadFromDb S (ledger_kv M1) i = LoadFromDb S (ledger_kv M) i \<and>
      ConsensusValueFromDB (n_chain N0) M1 i = ConsensusValueFromDB (n_chain N0) M i)"
proof (induction rule: clean_closes.induct)
  case (next_value M v m p a M1 m1 vs M2)
  have wire: "wire_value (n_chain N0) v" using next_value.prems(2) by simp
  note step = close_keeps [OF assms next_value.prems(1) wire next_value.hyps(3)]
  show ?case using next_value.IH [OF step(1)] next_value.prems(2) step(2,4,6) by auto
qed simp

section \<open>Accepting what another node has closed\<close>

text \<open>
  Nodes of one network: the same chain, encodings, hard forks and verification of signatures. The
  key a node signs with, its address, and its own settings may differ.
\<close>

definition same_net :: "node \<Rightarrow> node \<Rightarrow> bool" where
  "same_net N0 N0' \<longleftrightarrow> n_chain N0' = n_chain N0 \<and> n_codec N0' = n_codec N0 \<and> hardfork_points N0' = hardfork_points N0 \<and>
     Address_of (n_keys N0') = Address_of (n_keys N0) \<and> Verify (n_keys N0') = Verify (n_keys N0)"

text \<open>A node checks a proof with no key of its own.\<close>

lemma check_commits_keys:
  assumes "Address_of K' = Address_of K" and "Verify K' = Verify K"
  shows "check_commits K' E h es vs = check_commits K E h es vs"
proof (induction es arbitrary: vs)
  case (Cons e es)
  have "CheckMessageItem K' E vs e = CheckMessageItem K E vs e" if "pbft_type (pbft_of e) = PBFT_TYPE_COMMIT"
    using that assms by (simp add: CheckMessageItem.simps [of K] CheckMessageItem.simps [of K'] Let_def)
  then show ?case using Cons.IH assms(1) by (simp add: Let_def)
qed simp

lemma CheckProof_keys:
  assumes "same_net N0 N0'"
  shows "CheckProof (n_keys N0') E as h p = CheckProof (n_keys N0) E as h p"
  using check_commits_keys [of "n_keys N0'" "n_keys N0"] assms by (simp add: CheckProof_def same_net_def cong: option.case_cong)

lemma CheckValueHelper_same:
  assumes "same_ledger M M'" and "same_net N0 N0'"
  shows "CheckValueHelper (node_of S N0' M') v (-1) = CheckValueHelper (node_of S N0 M) v (-1)"
proof -
  have n: "n_chain (node_of S N0' M') = n_chain (node_of S N0 M)" using same_ledger_node assms by (simp add: same_net_def)
  show ?thesis
    using assms same_ledger_validators [OF assms(1)] CheckProof_keys [OF assms(2)]
    by (simp add: CheckValueHelper_def Let_def upgrade_acceptable_def n same_net_def same_ledger_def cong: option.case_cong)
qed

lemma CloseLedger_accepted:
  assumes ok: "codec_ok S (n_chain N0)" and wire: "wire_value (n_chain N0) v" and same: "same_ledger M M'" and net: "same_net N0 N0'"
    and plain: "calls_no_contract (n_chain (node_of S N0 M)) v" and clean: "keeps_clean (n_chain (node_of S N0 M)) v m"
    and close: "CloseLedger S N0 v p a M m = Some (True, M1, m1)" and kept: "kept_ok S N0' M' m'"
    and own: "unamended (n_chain N0') v m'"
    and vs: "GetValidators_db S M (ledger_seq v - 1) = Some vs"
    and agreed: "CheckProof (n_keys N0) ((n_codec N0)\<lparr>codec.self_chain_id := self_chain M\<rparr>) (map fst vs) (value_hash (n_chain N0) v) p' \<or>
      value_hash (n_chain N0) v \<in> hardfork_points N0"
  shows "\<exists>M1' m1'. CloseLedger S N0' v p' a' M' m' = Some (True, M1', m1') \<and> same_ledger M1 M1' \<and> completed_ctxs m1' = [] \<and>
    sync_peers M1' = sync_peers M'"
proof -
  let ?N = "n_chain (node_of S N0 M)"
  have base: "n_chain N0' = n_chain N0" and N: "n_chain (node_of S N0' M') = ?N" using same_ledger_node [OF same] net by (simp_all add: same_net_def)
  have parse: "parse_value (n_chain N0) (ser_value (n_chain N0) v) = Some v" using wire codec_okD(4) [OF ok] by (auto simp: wire_value_def)
  obtain c where check: "CheckValueAndProof (node_of S N0 M) (ser_value (n_chain N0) v) p" and c: "SyncProcess ?N v a m = Some (Some c)"
    using close by (auto simp: CloseLedger_def Let_def split: if_splits option.splits)
  have "CheckValueHelper (node_of S N0' M') v (-1) = CHECK_VALUE_VALID"
    using CheckValueAndProof_valid [OF check] parse CheckValueHelper_same [OF same net] by auto
  moreover have "GetValidators_db S M' (ledger_seq v - 1) = Some vs" "self_chain M' = self_chain M"
    using same_ledger_validators [OF same] vs same by (simp_all add: same_ledger_def)
  ultimately have accept: "CheckValueAndProof (node_of S N0' M') (ser_value (n_chain N0) v) p'"
    using agreed parse net CheckProof_keys [OF net] by (simp add: CheckValueAndProof_def same_net_def value_hash_def)
  have "followed ?N v (world (lc_ledger c)) (transaction_envs ?N a c)" using SyncProcess_followed [OF plain clean c] by simp
  then obtain st where "ApplyFollow (ch_cfg ?N) (ch_db ?N) no_contracts (ConsensusValue.truncate v) = Some (True, st)"
    by (auto simp: followed_def Let_def)
  then have "ApplyFollow (ch_cfg ?N) (ch_db ?N) (run_exec a') (ConsensusValue.truncate v) = Some (True, st)"
    using ApplyFollow_any [where exec = "run_exec a'"] by auto
  then obtain c' where c': "SyncProcess ?N v a' m' = Some (Some c')"
    by (cases "map_of (completed_ctxs m') (value_hash ?N v)") (simp_all add: SyncProcess_def Do_def new_LedgerContext_def Let_def)
  obtain M1' m1' where close': "CloseLedger S N0' v p' a' M' m' = Some (True, M1', m1')" "sync_peers M1' = sync_peers M'"
    using accept c' base N by (simp add: CloseLedger_def Let_def NotifyLedgerClose_def close_with_def split_beta)
  have ok': "codec_ok S (n_chain N0')" "wire_value (n_chain N0') v" using ok wire base by simp_all
  have "completed_ctxs m1' = []" using kept_ok_close [OF kept ok'(2,1) close'(1)] .
  moreover have "keeps_clean (n_chain (node_of S N0' M')) v m'" using kept_ok_clean [OF ok'(1) kept ok'(2)] own by (simp add: unamended_node)
  then have "same_ledger M1 M1'" using CloseLedger_same [OF same base plain clean close _ close'(1)] by blast
  ultimately show ?thesis using close' by blast
qed

section \<open>The answer to a request\<close>

lemma closes_append: "clean_closes S N0 (us @ vs) M M2 \<longleftrightarrow> (\<exists>M1. clean_closes S N0 us M M1 \<and> clean_closes S N0 vs M1 M2)"
proof (induction us arbitrary: M)
  case (Cons u us)
  then show ?case by (auto elim!: clean_closes_ConsE intro: clean_closes.next_value) (blast intro: clean_closes.next_value)+
qed (auto elim: clean_closes_NilE intro: clean_closes.none)

lemma stored_values_closes:
  assumes "codec_ok S (n_chain N0)"
  shows "clean_closes S N0 (vs @ us) M MP \<Longrightarrow> chain_inv S N0 M \<Longrightarrow> list_all (wire_value (n_chain N0)) (vs @ us) \<Longrightarrow>
    stored_values (n_chain N0) MP (lh_seq (last_closed_ledger M) + 1) (length vs) = Some vs"
proof (induction vs arbitrary: M)
  case (Cons v vs)
  obtain m p a M1 m1 where close: "CloseLedger S N0 v p a M m = Some (True, M1, m1)" "clean_closes S N0 (vs @ us) M1 MP"
    using Cons.prems(1) by (auto elim: clean_closes_ConsE)
  have wire: "wire_value (n_chain N0) v" "list_all (wire_value (n_chain N0)) (vs @ us)" using Cons.prems(3) by simp_all
  note step = close_keeps [OF assms Cons.prems(2) wire(1) close(1)]
  have "1 \<le> lh_seq (last_closed_ledger M1)" using step(1) chain_okD(1) by (auto simp: chain_inv_def)
  then have "ConsensusValueFromDB (n_chain N0) MP (lh_seq (last_closed_ledger M1)) = Some v"
    using closes_keeps [OF assms close(2) step(1) wire(2)] step(5) by simp
  then show ?case using Cons.IH [OF close(2) step(1) wire(2)] step(2) by simp
qed simp

text \<open>The value after the last ledger proves it.\<close>

lemma next_proven:
  assumes ok: "codec_ok S (n_chain N0)" and inv: "chain_inv S N0 M" and seq: "1 < lh_seq (last_closed_ledger M)"
    and wire: "wire_value (n_chain N0) v" and close: "CloseLedger S N0 v p a M m = Some (True, M1, m1)"
  shows "proven S N0 M (lh_seq (last_closed_ledger M)) (previous_proof v)"
proof -
  let ?n = "lh_seq (last_closed_ledger M)"
  note step = close_keeps [OF ok inv wire close]
  have "chain_ok S N0 M1" using step(1) by (simp add: chain_inv_def)
  then have "proven S N0 M1 ?n (previous_proof v)" using chain_okD(8) [of S N0 M1 ?n v] step(2,5) seq by simp
  moreover have "GetValidators_db S M1 (?n - 1) = GetValidators_db S M (?n - 1)" "LoadFromDb S (ledger_kv M1) ?n = LoadFromDb S (ledger_kv M) ?n"
    using step(6) seq by simp_all
  ultimately show ?thesis using step(4) by (simp add: proven_def)
qed

lemma receive_catches_up:
  assumes ok: "codec_ok S (n_chain N0)" and net: "same_net N0 N0'"
  shows "clean_closes S N0 vs M M1 \<Longrightarrow> chain_inv S N0 M \<Longrightarrow> list_all (wire_value (n_chain N0)) vs \<Longrightarrow> same_ledger M M' \<Longrightarrow>
    kept_ok S N0' M' m' \<Longrightarrow> (vs \<noteq> [] \<longrightarrow> unamended (n_chain N0') (hd vs) m') \<Longrightarrow> (vs \<noteq> [] \<longrightarrow> proven S N0 M1 (lh_seq (last_closed_ledger M1)) pr) \<Longrightarrow>
    \<exists>M1' m1'. receive_loop S N0' pr atts vs valid M' m' = Some ((valid \<or> vs \<noteq> [], False), M1', m1') \<and> same_ledger M1 M1' \<and>
      (vs \<noteq> [] \<longrightarrow> completed_ctxs m1' = []) \<and> sync_peers M1' = sync_peers M'"
proof (induction vs arbitrary: M M' m' atts valid)
  case Nil
  then show ?case by (auto elim: clean_closes_NilE)
next
  case (Cons v vs)
  obtain m p a M2 m2 where one: "keeps_clean (n_chain (node_of S N0 M)) v m" "calls_no_contract (n_chain (node_of S N0 M)) v"
    "CloseLedger S N0 v p a M m = Some (True, M2, m2)" "clean_closes S N0 vs M2 M1"
    using Cons.prems(1) by (rule clean_closes_ConsE)
  have wire: "wire_value (n_chain N0) v" "list_all (wire_value (n_chain N0)) vs" using Cons.prems(3) by simp_all
  note step = close_keeps [OF ok Cons.prems(2) wire(1) one(3)]
  let ?n = "lh_seq (last_closed_ledger M)" and ?p = "case vs of [] \<Rightarrow> pr | w # _ \<Rightarrow> previous_proof w"
  have n: "1 \<le> ?n" using Cons.prems(2) chain_okD(1) by (auto simp: chain_inv_def)
  have "proven S N0 M2 (?n + 1) ?p"
  proof (cases vs)
    case Nil
    then show ?thesis using one(4) Cons.prems(7) step(2) by (auto elim!: clean_closes_NilE)
  next
    case (Cons w ws)
    obtain p3 a3 m3 M3 m4 where "CloseLedger S N0 w p3 a3 M2 m3 = Some (True, M3, m4)" using one(4) Cons by (auto elim: clean_closes_ConsE)
    then show ?thesis using next_proven [OF ok step(1)] wire(2) Cons step(2) n by simp
  qed
  then obtain h vals where h: "LoadFromDb S (ledger_kv M2) (?n + 1) = Some h" "GetValidators_db S M2 ?n = Some vals"
    "CheckProof (n_keys N0) ((n_codec N0)\<lparr>codec.self_chain_id := self_chain M2\<rparr>) (map fst vals) (lh_consensus_value_hash h) ?p \<or>
       lh_consensus_value_hash h \<in> hardfork_points N0"
    by (auto simp: proven_def)
  have "linked S (n_chain N0) M2 (?n + 1)" using step(1,2) n chain_okD(7) [of S N0 M2 "?n + 1"] by (simp add: chain_inv_def)
  then have "lh_consensus_value_hash h = value_hash (n_chain N0) v" using h(1) step(2,5) by (auto simp: linked_def)
  then have "CheckProof (n_keys N0) ((n_codec N0)\<lparr>codec.self_chain_id := self_chain M\<rparr>) (map fst vals) (value_hash (n_chain N0) v) ?p \<or>
      value_hash (n_chain N0) v \<in> hardfork_points N0" using h(3) step(4) by simp
  moreover have own: "unamended (n_chain N0') v m'" using Cons.prems(6) by simp
  moreover have "GetValidators_db S M (ledger_seq v - 1) = Some vals" using h(2) step(3) step(6) [of ?n] n by simp
  ultimately obtain M2' m2' where close': "CloseLedger S N0' v ?p (atts 0) M' m' = Some (True, M2', m2')" "same_ledger M2 M2'"
    "completed_ctxs m2' = []" "sync_peers M2' = sync_peers M'"
    using CloseLedger_accepted [OF ok wire(1) Cons.prems(4) net one(2,1,3) Cons.prems(5)] own by blast
  have "ledger_seq v = lh_seq (last_closed_ledger M') + 1" using step(3) Cons.prems(4) by (simp add: same_ledger_def)
  moreover have "vs \<noteq> [] \<longrightarrow> proven S N0 M1 (lh_seq (last_closed_ledger M1)) pr" using Cons.prems(7) by simp
  moreover have "unamended N w m2'" for N w using close'(3) by (simp add: unamended_def)
  ultimately show ?case
    using Cons.IH [OF one(4) step(1) wire(2) close'(2) kept_ok_none [OF close'(3)], of "\<lambda>k. atts (Suc k)" True] close'(1,3,4)
    by (cases "vs = []") auto
qed

lemma closes_ends:
  assumes "codec_ok S (n_chain N0)"
  shows "clean_closes S N0 vs M M1 \<Longrightarrow> chain_inv S N0 M \<Longrightarrow> list_all (wire_value (n_chain N0)) vs \<Longrightarrow> vs \<noteq> [] \<Longrightarrow>
    ledger_seq (hd vs) = lh_seq (last_closed_ledger M) + 1 \<and> ledger_seq (last vs) = lh_seq (last_closed_ledger M1)"
proof (induction rule: clean_closes.induct)
  case (next_value M v m p a M1 m1 vs M2)
  have wire: "wire_value (n_chain N0) v" using next_value.prems(2) by simp
  note step = close_keeps [OF assms next_value.prems(1) wire next_value.hyps(3)]
  show ?case
  proof (cases "vs = []")
    case True
    then show ?thesis using next_value.hyps(4) step(2,3) by (auto elim: clean_closes_NilE)
  next
    case False
    then show ?thesis using next_value.IH [OF step(1)] next_value.prems(2) step(3) by simp
  qed
qed simp

text \<open>The answer to a request for the values \<open>vs\<close> of a node that goes on with \<open>us\<close>.\<close>

lemma OnRequestLedgers_answer:
  assumes ok: "codec_ok S (n_chain N0)" and inv: "chain_inv S N0 M" and first: "clean_closes S N0 vs M Mm" and rest: "clean_closes S N0 us Mm MP"
    and wire: "list_all (wire_value (n_chain N0)) (vs @ us)" and vs: "vs \<noteq> []" "length vs \<le> 5"
    and gl: "gl_begin gl = lh_seq (last_closed_ledger M) + 1" "gl_end gl = lh_seq (last_closed_ledger M) + int (length vs)"
      "gl_chain_id gl = self_chain M"
  shows "\<exists>pr. OnRequestLedgers (n_chain N0) gl MP =
      Some \<lparr>lg_values = vs, lg_max_seq = lh_seq (last_closed_ledger MP), lg_proof = pr, lg_chain_id = self_chain M\<rparr> \<and>
    proven S N0 Mm (lh_seq (last_closed_ledger Mm)) pr"
proof -
  have w: "list_all (wire_value (n_chain N0)) vs" "list_all (wire_value (n_chain N0)) us" using wire by simp_all
  have mid: "chain_inv S N0 Mm" "lh_seq (last_closed_ledger Mm) = lh_seq (last_closed_ledger M) + int (length vs)" "self_chain Mm = self_chain M"
    using closes_keeps [OF ok first inv w(1)] by simp_all
  have last: "chain_inv S N0 MP" "lh_seq (last_closed_ledger MP) = lh_seq (last_closed_ledger Mm) + int (length us)" "self_chain MP = self_chain M"
    using closes_keeps [OF ok rest mid(1) w(2)] mid(3) by simp_all
  have n: "1 \<le> lh_seq (last_closed_ledger M)" using inv chain_okD(1) by (auto simp: chain_inv_def)
  then have m: "1 < lh_seq (last_closed_ledger Mm)" using mid(2) vs(1) by (cases vs) simp_all
  have "clean_closes S N0 (vs @ us) M MP" using first rest by (auto simp: closes_append)
  from stored_values_closes [OF ok this inv wire]
  have all: "stored_values (n_chain N0) MP (gl_begin gl) (length vs) = Some vs" using gl(1) by simp
  have len: "gl_end gl - gl_begin gl = int (length vs) - 1" "nat (gl_end gl - gl_begin gl + 1) = length vs" using gl(1,2) by simp_all
  have small: "wrap64 (int (length vs) - 1) = int (length vs) - 1" "wrap64 (int (length vs)) = int (length vs)"
    using vs by (cases vs; simp add: wrap64_id int64_def)+
  have size: "0 \<le> int (length vs) - 1" "int (length vs) \<le> 5" using vs by (cases vs; simp)+
  have answer: "OnRequestLedgers (n_chain N0) gl MP = Some \<lparr>lg_values = vs, lg_max_seq = lh_seq (last_closed_ledger MP),
      lg_proof = (if gl_end gl = lh_seq (last_closed_ledger MP) then m_proof MP
        else case ConsensusValueFromDB (n_chain N0) MP (gl_end gl + 1) of None \<Rightarrow> [] | Some v \<Rightarrow> previous_proof v),
      lg_chain_id = self_chain M\<rparr>"
    unfolding OnRequestLedgers_def Let_def len(2) unfolding len(1)
    using all small size gl(2,3) mid(2) last(2,3) by simp
  show ?thesis
  proof (cases us)
    case Nil
    then have "MP = Mm" using rest by (auto elim: clean_closes_NilE)
    moreover have "proven S N0 Mm (lh_seq (last_closed_ledger Mm)) (m_proof Mm)" using mid(1) m chain_okD(9) by (auto simp: chain_inv_def)
    ultimately show ?thesis using answer gl(2) mid(2) by simp
  next
    case (Cons u us')
    obtain p a m2 M2 m3 where close: "CloseLedger S N0 u p a Mm m2 = Some (True, M2, m3)" using rest Cons by (auto elim: clean_closes_ConsE)
    have "stored_values (n_chain N0) MP (lh_seq (last_closed_ledger Mm) + 1) (length us) = Some us"
      using stored_values_closes [OF ok _ mid(1), of us "[]" MP] rest w(2) by simp
    then have "ConsensusValueFromDB (n_chain N0) MP (gl_end gl + 1) = Some u" using Cons gl(2) mid(2) by (auto split: option.splits)
    moreover have "proven S N0 Mm (lh_seq (last_closed_ledger Mm)) (previous_proof u)"
      using next_proven [OF ok mid(1) m _ close] w(2) Cons by simp
    moreover have "gl_end gl \<noteq> lh_seq (last_closed_ledger MP)" using gl(2) mid(2) last(2) Cons by simp
    ultimately show ?thesis using answer by simp
  qed
qed

lemma same_ledger_peers [simp]: "same_ledger M (M'\<lparr>sync_peers := ps\<rparr>) = same_ledger M M'"
  by (simp add: same_ledger_def)

text \<open>One round of the synchronization: a request, its answer, and what the asking node makes of it.\<close>

lemma one_round:
  assumes ok: "codec_ok S (n_chain N0)" and net: "same_net N0 N0'" and inv: "chain_inv S N0 M"
    and first: "clean_closes S N0 vs M Mm" and rest: "clean_closes S N0 us Mm MP"
    and wire: "list_all (wire_value (n_chain N0)) (vs @ us)" and vs: "vs \<noteq> []" "length vs \<le> 5"
    and same: "same_ledger M M'" and kept: "kept_ok S N0' M' m'" "unamended (n_chain N0') (hd vs) m'" and asked: "map_of (sync_peers M') pid = Some st" "sync_gl st = gl"
    and gl: "gl_begin gl = lh_seq (last_closed_ledger M) + 1" "gl_end gl = lh_seq (last_closed_ledger M) + int (length vs)"
      "gl_chain_id gl = self_chain M"
  shows "\<exists>L sent M1' m1'. OnRequestLedgers (n_chain N0) gl MP = Some L \<and>
    OnReceiveLedgers S N0' atts now L pid M' m' = Some (sent, M1', m1') \<and> same_ledger Mm M1' \<and> completed_ctxs m1' = [] \<and>
    (if us = [] then sent = []
     else \<exists>gl' st'. sent = [(pid, gl')] \<and> gl_begin gl' = lh_seq (last_closed_ledger Mm) + 1 \<and>
       gl_end gl' = min (lh_seq (last_closed_ledger MP)) (lh_seq (last_closed_ledger Mm) + 5) \<and> gl_chain_id gl' = self_chain M \<and>
       map_of (sync_peers M1') pid = Some st' \<and> sync_gl st' = gl')"
proof -
  let ?k = "\<lambda>M. lh_seq (last_closed_ledger M)" and ?ps = "om_assign pid (st\<lparr>send_time := 0, sync_gl := gl\<lparr>gl_begin := 0, gl_end := 0\<rparr>\<rparr>) (sync_peers M')"
  have w: "list_all (wire_value (n_chain N0)) vs" "list_all (wire_value (n_chain N0)) us" using wire by simp_all
  have mid: "chain_inv S N0 Mm" "?k Mm = ?k M + int (length vs)" "self_chain Mm = self_chain M"
    using closes_keeps [OF ok first inv w(1)] by simp_all
  have last: "?k MP = ?k Mm + int (length us)" using closes_keeps [OF ok rest mid(1) w(2)] by simp
  obtain pr where answer: "OnRequestLedgers (n_chain N0) gl MP =
      Some \<lparr>lg_values = vs, lg_max_seq = ?k MP, lg_proof = pr, lg_chain_id = self_chain M\<rparr>" and pr: "proven S N0 Mm (?k Mm) pr"
    using OnRequestLedgers_answer [OF ok inv first rest wire vs gl] by blast
  have "same_ledger M (M'\<lparr>sync_peers := ?ps\<rparr>)" using same by simp
  moreover have "kept_ok S N0' (M'\<lparr>sync_peers := ?ps\<rparr>) m'" by (rule kept_ok_same [OF _ kept(1)]) (simp add: same_ledger_def)
  ultimately obtain M1' m1' where loop: "receive_loop S N0' pr atts vs False (M'\<lparr>sync_peers := ?ps\<rparr>) m' = Some ((True, False), M1', m1')"
    "same_ledger Mm M1'" "completed_ctxs m1' = []"
    using receive_catches_up [OF ok net first inv w(1), of "M'\<lparr>sync_peers := ?ps\<rparr>" m' pr atts False] pr vs(1) kept(2) by auto
  have same1: "?k M1' = ?k Mm" "self_chain M1' = self_chain M" using loop(2) mid(3) by (simp_all add: same_ledger_def)
  have ends: "ledger_seq (hd vs) = gl_begin gl" "ledger_seq (List.last vs) = gl_end gl" "self_chain M' = self_chain M"
    using closes_ends [OF ok first inv w(1) vs(1)] gl mid(2) same by (simp_all add: same_ledger_def)
  show ?thesis
  proof (cases "us = []")
    case True
    then show ?thesis
      using answer loop same1 ends asked vs(1) last
      by (auto simp: OnReceiveLedgers_def Let_def same_ledger_def)
  next
    case False
    then have "?k Mm + 1 \<le> ?k MP" using last by (cases us) simp_all
    then show ?thesis
      using False answer loop same1 ends asked vs(1)
      by (auto simp: OnReceiveLedgers_def Let_def RequestConsensusValues_def map_of_om_assign same_ledger_def)
  qed
qed

section \<open>Catching up\<close>

text \<open>
  The messages between a node and one peer of it, as long as no message is lost: the peer, in state
  \<open>MP\<close>, answers each request, the node takes the answer and sends its next request. At most \<open>n\<close> rounds;
  \<open>None\<close> if they are not enough.
\<close>

fun exchange :: "encodings \<Rightarrow> node \<Rightarrow> node \<Rightarrow> manager \<Rightarrow> (nat \<Rightarrow> nat \<Rightarrow> attempt) \<Rightarrow> (nat \<Rightarrow> int) \<Rightarrow> int \<Rightarrow> nat \<Rightarrow> GetLedgers \<Rightarrow>
    manager \<Rightarrow> context_st \<Rightarrow> (manager \<times> context_st) option" where
  "exchange S N0 N0' MP atts nows pid 0 gl M m = None"
| "exchange S N0 N0' MP atts nows pid (Suc n) gl M m =
     (case OnRequestLedgers (n_chain N0) gl MP of
        None \<Rightarrow> Some (M, m)
      | Some ledgers \<Rightarrow>
          (case OnReceiveLedgers S N0' (atts n) (nows n) ledgers pid M m of
             None \<Rightarrow> None
           | Some ([], M1, m1) \<Rightarrow> Some (M1, m1)
           | Some ((_, gl1) # _, M1, m1) \<Rightarrow> exchange S N0 N0' MP atts nows pid n gl1 M1 m1))"

lemma exchange_catches_up:
  assumes ok: "codec_ok S (n_chain N0)" and net: "same_net N0 N0'"
  shows "clean_closes S N0 vs M MP \<Longrightarrow> chain_inv S N0 M \<Longrightarrow> list_all (wire_value (n_chain N0)) vs \<Longrightarrow> same_ledger M M' \<Longrightarrow>
    kept_ok S N0' M' m' \<Longrightarrow> unamended (n_chain N0') (hd vs) m' \<Longrightarrow> map_of (sync_peers M') pid = Some st \<Longrightarrow> sync_gl st = gl \<Longrightarrow>
    gl_begin gl = lh_seq (last_closed_ledger M) + 1 \<Longrightarrow> gl_end gl = lh_seq (last_closed_ledger M) + int k \<Longrightarrow> gl_chain_id gl = self_chain M \<Longrightarrow>
    0 < k \<Longrightarrow> k \<le> 5 \<Longrightarrow> k \<le> length vs \<Longrightarrow> length vs \<le> n \<Longrightarrow>
    \<exists>M1' m1'. exchange S N0 N0' MP atts nows pid n gl M' m' = Some (M1', m1') \<and> same_ledger MP M1'"
proof (induction n arbitrary: vs M M' m' st gl k)
  case (Suc n)
  let ?vs = "take k vs" and ?us = "drop k vs"
  have list: "vs = ?vs @ ?us" "?vs \<noteq> []" "length ?vs = k" using Suc.prems(12,14) by auto
  obtain Mm where Mm: "clean_closes S N0 ?vs M Mm" "clean_closes S N0 ?us Mm MP" using Suc.prems(1) list(1) closes_append by metis
  have wire: "list_all (wire_value (n_chain N0)) (?vs @ ?us)" "list_all (wire_value (n_chain N0)) ?vs" "list_all (wire_value (n_chain N0)) ?us"
    using Suc.prems(3) by (simp_all add: list_all_iff) (auto dest: in_set_takeD in_set_dropD)
  have mid: "chain_inv S N0 Mm" "self_chain Mm = self_chain M" using closes_keeps [OF ok Mm(1) Suc.prems(2) wire(2)] by simp_all
  have last: "lh_seq (last_closed_ledger MP) = lh_seq (last_closed_ledger Mm) + int (length ?us)" using closes_keeps [OF ok Mm(2) mid(1) wire(3)] by simp
  obtain L sent M1' m1' where round: "OnRequestLedgers (n_chain N0) gl MP = Some L"
    "OnReceiveLedgers S N0' (atts n) (nows n) L pid M' m' = Some (sent, M1', m1')" "same_ledger Mm M1'" "completed_ctxs m1' = []"
    "if ?us = [] then sent = []
     else \<exists>gl' st'. sent = [(pid, gl')] \<and> gl_begin gl' = lh_seq (last_closed_ledger Mm) + 1 \<and>
       gl_end gl' = min (lh_seq (last_closed_ledger MP)) (lh_seq (last_closed_ledger Mm) + 5) \<and> gl_chain_id gl' = self_chain M \<and>
       map_of (sync_peers M1') pid = Some st' \<and> sync_gl st' = gl'"
    using one_round [OF ok net Suc.prems(2) Mm wire(1) list(2) _ Suc.prems(4,5) _ Suc.prems(7,8)] Suc.prems(6,9-13) list(3) by fastforce
  show ?case
  proof (cases "?us = []")
    case True
    then have "MP = Mm" using Mm(2) by (auto elim: clean_closes_NilE)
    then show ?thesis using round True by simp
  next
    case False
    then obtain gl' st' where sent: "sent = [(pid, gl')]" and gl': "gl_begin gl' = lh_seq (last_closed_ledger Mm) + 1"
      "gl_end gl' = min (lh_seq (last_closed_ledger MP)) (lh_seq (last_closed_ledger Mm) + 5)" "gl_chain_id gl' = self_chain Mm"
      and st': "map_of (sync_peers M1') pid = Some st'" "sync_gl st' = gl'" using round(5) mid(2) by auto
    have "gl_end gl' = lh_seq (last_closed_ledger Mm) + int (min (length ?us) 5)" using gl'(2) last by (simp add: min_def)
    from Suc.IH [OF Mm(2) mid(1) wire(3) round(3) kept_ok_none [OF round(4)] _ st' gl'(1) this gl'(3)]
    show ?thesis using False Suc.prems(12,15) round(1,2,4) sent by (simp add: unamended_def)
  qed
qed simp

lemma request_all_asked:
  assumes "pid \<in> set pids \<or> (\<exists>st. map_of (sync_peers M) pid = Some st \<and> sync_gl st = gl)"
  shows "\<exists>st. map_of (sync_peers (snd (request_all pids gl t M))) pid = Some st \<and> sync_gl st = gl"
  using assms
  by (induction pids arbitrary: M) (fastforce simp: RequestConsensusValues_def Let_def map_of_om_assign split: prod.splits)+

lemma request_all_sent: "(pid, g) \<in> set (fst (request_all pids gl t M)) \<Longrightarrow> g = gl \<and> pid \<in> set pids"
  by (induction pids arbitrary: M) (auto simp: RequestConsensusValues_def Let_def split: prod.splits)

lemma request_all_same: "same_ledger M (snd (request_all pids gl t M')) = same_ledger M M'"
  by (induction pids arbitrary: M') (auto simp: RequestConsensusValues_def Let_def same_ledger_def split: prod.splits)

lemma OnTimer_asks:
  assumes "OnTimer_manager peers now M' = (sent, M1')" and "(pid, gl) \<in> set sent" and "same_ledger M M'"
  shows "gl_begin gl = lh_seq (last_closed_ledger M) + 1" and "gl_end gl = gl_begin gl" and "gl_chain_id gl = self_chain M" and "same_ledger M' M1'"
    and "\<exists>st. map_of (sync_peers M1') pid = Some st \<and> sync_gl st = gl"
proof -
  let ?gl = "\<lparr>gl_begin = lh_seq (last_closed_ledger M') + 1, gl_end = lh_seq (last_closed_ledger M') + 1, gl_timestamp = now, gl_chain_id = self_chain M'\<rparr>"
  obtain pids ps where all: "request_all pids ?gl now (M'\<lparr>sync_peers := ps, update_time := now\<rparr>) = (sent, M1')"
    using assms(1,2) by (auto simp: OnTimer_manager_def Let_def split: if_splits prod.splits)
  have gl: "gl = ?gl" "pid \<in> set pids" using request_all_sent [of pid gl pids ?gl] assms(2) all by (metis fst_conv)+
  have same: "last_closed_ledger M' = last_closed_ledger M" "self_chain M' = self_chain M" using assms(3) by (simp_all add: same_ledger_def)
  show "gl_begin gl = lh_seq (last_closed_ledger M) + 1" "gl_end gl = gl_begin gl" "gl_chain_id gl = self_chain M" using gl(1) same by simp_all
  have "same_ledger M' (M'\<lparr>sync_peers := ps, update_time := now\<rparr>)" by (simp add: same_ledger_def)
  then show "same_ledger M' M1'" using request_all_same all by (metis snd_conv)
  show "\<exists>st. map_of (sync_peers M1') pid = Some st \<and> sync_gl st = gl"
    using request_all_asked [of pid pids "M'\<lparr>sync_peers := ps, update_time := now\<rparr>" ?gl now] gl all by simp
qed

lemma same_ledger_trans: "same_ledger M M' \<Longrightarrow> same_ledger M' M'' \<Longrightarrow> same_ledger M M''"
  by (simp add: same_ledger_def)

text \<open>
  Claim C11. A node that has fallen behind catches up. Suppose a peer, with another key, has closed
  values \<open>vs\<close>, free of contracts, since it had the ledger that the node has now. If the timer of
  the node asks the peer and no message is lost, then after at most as many exchanges of request
  and answer as there are values the node has the ledger of the peer: its accounts, headers,
  values, validators and fees. Since its last ledger the node may have checked and proposed what it
  likes for the next one, and so may the peer between its closings. One condition stands, as for
  closing: neither closes a value by a proposing run of its own that has dropped transactions from
  the value or found some failed or expired.
\<close>

theorem sync_catches_up:
  assumes "codec_ok S (n_chain N0)" and "same_net N0 N0'" and "ledger_run S N0 G D M"
    and "closes S N0 vs M m MP mP" and "completed_ctxs m = []" and "vs \<noteq> []"
    and "same_ledger M M'" and "closes S N0' [] M' m0' M' m'" and "completed_ctxs m0' = []" and "unamended (n_chain N0') (hd vs) m'"
    and "OnTimer_manager peers now M' = (sent, M1')" and "(pid, gl) \<in> set sent"
  shows "\<exists>M2' m2'. exchange S N0 N0' MP atts nows pid (length vs) gl M1' m' = Some (M2', m2') \<and> same_ledger MP M2'"
proof -
  note asks = OnTimer_asks [OF assms(11,12,7)]
  obtain st where st: "map_of (sync_peers M1') pid = Some st" "sync_gl st = gl" using asks(5) by blast
  have peer: "clean_closes S N0 vs M MP" "list_all (wire_value (n_chain N0)) vs"
    using closes_clean [OF assms(1,4) kept_ok_none [OF assms(5)]] by simp_all
  have "codec_ok S (n_chain N0')" using assms(1,2) by (simp add: same_net_def)
  then have "kept_ok S N0' M' m'" using closes_clean [OF _ assms(8) kept_ok_none [OF assms(9)]] by blast
  then have kept: "kept_ok S N0' M1' m'" by (rule kept_ok_same [OF asks(4)])
  have len: "(1 :: nat) \<le> length vs" using assms(6) by (cases vs) simp_all
  have e: "gl_end gl = lh_seq (last_closed_ledger M) + int 1" using asks(1,2) by simp
  show ?thesis
    by (rule exchange_catches_up [OF assms(1,2) peer(1) ledger_run_inv [OF assms(1,3)] peer(2) same_ledger_trans [OF assms(7) asks(4)]
          kept assms(10) st asks(1) e asks(3) _ _ len]) simp_all
qed

text \<open>A node that asks the small node, with a key of its own.\<close>

definition small_asking :: node where
  "small_asking = small_node\<lparr>n_keys := (n_keys small_node)\<lparr>GetEncPublicKey := [4], GetEncAddress := [4], Sign := (\<lambda>s. 4 # s)\<rparr>\<rparr>"

theorem sync_catches_up_witness:
  "\<exists>M MP mP M1' pid gl M2' m2'. n_keys small_asking \<noteq> n_keys small_node \<and> lh_seq (last_closed_ledger M) = 1 \<and>
     closes small_codec small_node [small_value] M new_context_st MP mP \<and> lh_seq (last_closed_ledger MP) = 2 \<and>
     OnTimer_manager [4] 40000000 M = ([(pid, gl)], M1') \<and>
     exchange small_codec small_node small_asking MP (\<lambda>_ _. demo_attempt) (\<lambda>_. 40000001) pid 1 gl M1' new_context_st = Some (M2', m2') \<and>
     same_ledger MP M2'"
proof -
  obtain M where M: "Initialize_manager small_codec (n_chain small_node) small_genesis True demo_db Map.empty Map.empty = Some M"
    "lh_hash (last_closed_ledger M) = [5]" using small_start by blast
  have run: "ledger_run small_codec small_node small_genesis demo_db M" using M(1) by (rule ledger_run.start)
  have chain: "chain_ok small_codec small_node M" "lh_seq (last_closed_ledger M) = 1" using genesis_chain [OF small_codec_ok M(1)] by simp_all
  obtain MP mP where MP: "closes small_codec small_node [small_value] M new_context_st MP mP" "lh_seq (last_closed_ledger MP) = 2"
    using small_closes [OF chain M(2), of new_context_st] by (auto simp: unamended_def new_context_st_def)
  have init: "sync_peers M = []" "update_time M = 0"
    using M(1)
    by (auto simp: Initialize_manager_def new_manager_def CheckAndRepairLedgerSeq_def CreateGenesisAccount_def load_state_def Let_def
        split: if_splits option.splits)
  then obtain gl M1' where asks: "OnTimer_manager [4] 40000000 M = ([(4, gl)], M1')"
    by (simp add: OnTimer_manager_def Let_def SYNC_INTERVAL_def RequestConsensusValues_def)
  have none: "completed_ctxs new_context_st = []" by (simp add: new_context_st_def)
  have "same_net small_node small_asking" by (simp add: same_net_def small_asking_def)
  from sync_catches_up [OF small_codec_ok this run MP(1) none _ _ closes.none none _ asks, of 4 gl "\<lambda>_ _. demo_attempt" "\<lambda>_. 40000001"]
  have "\<exists>M2' m2'. exchange small_codec small_node small_asking MP (\<lambda>_ _. demo_attempt) (\<lambda>_. 40000001) 4 (length [small_value]) gl M1' new_context_st =
      Some (M2', m2') \<and> same_ledger MP M2'"
    by (simp add: same_ledger_def unamended_def none del: exchange.simps)
  moreover have "n_keys small_asking \<noteq> n_keys small_node" by (simp add: small_asking_def small_node_def demo_node_def)
  ultimately show ?thesis using asks chain(2) MP by (simp del: exchange.simps) blast
qed

end
