(* ===== verification/Spec2Isabelle.thy ===== *)
theory Spec2Isabelle
  imports Strings Hex Split Tokens Atom_Map Entry_Cache Location Trie_Thms Tx_Queue_Thms Pbft_Proof Ledger_Follow Ledger_Auth Glue_Thms Ledger_Chain_Thms Ledger_Agree Ledger_Sync
begin

text \<open>
  \<^bold>\<open>A verification of the CEG blockchain node.\<close>

  CEG is a node of a replicated ledger, written in C++ (src/src/). Peers agree on a sequence of
  consensus values by PBFT (src/src/consensus/). A value carries a set of transactions that the
  primary takes from its transaction queue (src/src/glue/transaction_queue.*). The ledger applies
  them to an environment of accounts, a transactional map (src/src/utils/atom_map.h) with stack
  frames for calls of contracts, and writes the changed accounts to a Merkle trie over a key-value
  database (src/src/ledger/trie.*, kv_trie.*), whose root hash goes into the ledger header. A payment
  to an account with a contract runs its script, whose callbacks make nested transactions. The
  proof of a closed ledger is the set of commit messages that the consensus collected.

  \<^bold>\<open>Conventions.\<close> A C++ object is a record, a message a record or datatype with the fields of the
  protobuf definition, a member function a HOL function on the record that returns the changed
  record. \<^verbatim>\<open>std::string\<close> is a list of bytes (\<open>cstring\<close>). Integers keep their width where the code
  relies on it (\<open>u64\<close>, 32- and 64-bit limits in the parsers); the 64-bit sequence and view numbers
  of the consensus are \<open>int\<close>, with the reduction modulo \<open>2 ^ 64\<close> written out where the code mixes
  signed and unsigned. \<open>None\<close> stands for what a C++ program cannot continue from: undefined
  behaviour, or a loop that does not end. Hash functions, signatures, the protobuf and JSON
  encodings, the database and the clock are parameters; what a theorem needs of them (an encoding
  that can be parsed back, a hash without collisions) is a named hypothesis, and the witness of the
  theorem has a concrete instance of it. For the tries the hash must not collide on the strings
  they have stored; for the chain of ledgers (\<open>codec_ok\<close>) it is idealised to an injective function.

  \<^bold>\<open>The theories.\<close>

  \<^item> Prelude: bytes, character classes and list lemmas that the string theories share.
  \<^item> Strings, Hex, Split, Tokens (src/src/utils/strings.h): number conversions with their overflow
    checks, hexadecimal, comparison without case, trimming, splitting and joining, replacing,
    tokenizing, attribute lists. Each loop is a recursion of its own. The theorems say which
    strings are accepted and with which value, that the encodings are inverse to each other, and
    for which arguments \<^verbatim>\<open>Replace\<close> returns at all.
  \<^item> Atom_Map (src/src/utils/atom_map.h, \<^verbatim>\<open>Environment::NewStackFrameEnv\<close>): values live in cells of
    an explicit store since clients write through the shared pointers the map hands out. A
    sequence of reads, writes, commits and roll-backs refines a pair of plain maps. The view of a
    stack frame is characterised: it does not see the committed data of the frame below.
  \<^item> Entry_Cache (src/src/utils/entry_cache.h): the chain of caches, lookup along the chain and the
    merge of a branch. The action of a default-constructed record, which the code reads
    uninitialised, is the parameter \<open>junk\<close>, and the theorem on lookups says what comes of each value.
    The merge is characterised exactly; where it departs from the table in the source is shown.
  \<^item> Location, Merkle, Trie, Trie_Inv, Trie_Ops, Trie_Hash, Trie_Db, Trie_Thms
    (src/src/ledger/trie.*, kv_trie.*): half-byte locations packed into bytes; nodes in memory with
    lazily loaded children; \<^verbatim>\<open>SetItem\<close>, \<^verbatim>\<open>DeleteItem\<close>, \<^verbatim>\<open>update_hash\<close> and the storage calls they
    issue. Merkle is the specification: a tree computed from the set of key-value pairs alone.
    Trie_Inv has the invariant, Trie_Ops shows that every operation keeps it, Trie_Hash and
    Trie_Db relate the hashes and the database to the specification. The theorems: the root hash
    is a function of the contents, reads return the last value written, two tries with the same
    root hash answer every read alike unless the hash function collides on what they stored, and a
    trie reopened from the database is the trie that was saved. The walks have fuel \<open>2 * length key + 2\<close>; each step makes the
    location longer, so it suffices, and the theorems say that the result is not \<open>None\<close>.
  \<^item> Tx_Queue, Tx_Queue_Thms (src/src/glue/transaction_queue.*): the two queues and the two indices,
    with iterators as names of queue elements. The theorems: the indices and both queues hold the
    same transactions after any sequence of operations, the outcome of an import in every case,
    the price at which a transaction replaces another (computed in double precision by the code),
    that a proposal has no gap in the nonces of an account, and which transactions time out.
  \<^item> Ordered_Map: \<^verbatim>\<open>std::map\<close> as a sorted association list, for the consensus.
  \<^item> Consensus (src/src/consensus/consensus.*): the saved values and the validator index.
  \<^item> Quorum: \<^verbatim>\<open>GetQuorumSize\<close> on 64-bit words. The locale \<open>quorum_rule\<close> states what the agreement
    proof needs of a quorum (two of them share a replica that is not faulty, and the replicas that
    are not faulty are one); the interpretation \<open>pbft_quorum\<close> discharges it for the code.
  \<^item> Pbft_Msg, Pbft (src/src/consensus/bft.*, bft_instance.*, consensus_msg.*): the messages and
    their checks, the proof of a closed ledger, the state of a node and every operation on it:
    requests, the three phases, view changes, timers, trace-outs, validator changes, restart.
    \<^verbatim>\<open>PbftInstance::Go\<close> is a recursion whose measure is the phase and the items left in the buffer.
  \<^item> Pbft_Inv, Pbft_Steps, Pbft_Thms, Pbft_Proof: the invariant of a node, that every operation
    keeps it, and the theorems over runs. A run (\<open>pbft_run\<close>) is any sequence of inputs (messages,
    timers, proposals, closed ledgers, clock ticks) and restarts in which the validators stay the same
    and the view number does not fall (\<open>allowed\<close>; the code can lower it, see
    \<open>trace_out_lowers_view\<close>). In every run a committed instance has the commits of a quorum. A
    \<open>careful\<close> run, since the last start, moreover never proposes, or takes over a ledger closed
    elsewhere, in a way that drops an instance while a commit the node has sent is open. In careful
    runs a node sends commits for one digest only, and two nodes that commit the same view and
    sequence commit the same digest if signatures are not forged and not too many are faulty. The
    code does not keep its runs careful: \<open>reproposal_splits\<close> is a run in which a leader proposes
    again and two correct nodes commit different digests. Values are
    executed in the order of their sequence; the proof check accepts exactly the lists of commits
    of distinct validators above the quorum; a message that fails the check changes nothing; a new
    view is found again after a restart.

  \<^item> Safe_Int (src/src/utils/base_int.h): the checked 64-bit arithmetic that all balances go through,
    with the wrap-around written out; it is exact, and one product traps.
  \<^item> Account, Environment, Chain_Msg (src/src/ledger/account.*, environment.*, fee_calculate.*,
    src/src/proto/chain.proto, common.proto, constants of src/src/common/general.*): an account with
    its caches of assets and metadata over the database; the environment, two numbered maps of
    accounts and settings for the change buffer and the data below it. Accounts are values here; the
    section on refinement of Environment shows this against the store of shared pointers of Atom_Map.
  \<^item> Operation_Check, Operation, Transaction_Frm (src/src/ledger/operation_frm.*,
    transaction_frm.*): the checks and the effect of every operation, the signatures, the fees and
    the application of a transaction, on a state of environments, transaction objects and the
    stack of running transactions.
  \<^item> Contract_Exec (src/src/contract/, \<^verbatim>\<open>LedgerManager::DoTransaction\<close>): the execution and the query
    of contracts. The script engine is the parameter \<open>vm\<close>, which says what a script does after the
    answers it has got; every callback that reads or changes the ledger is a definition. A script
    may call for ever, so \<open>Execute\<close> has fuel, and \<open>None\<close> is a script that has not ended; the
    theorems hold for every fuel, \<open>vm\<close> and result. The operations take the executor as an argument.
  \<^item> Ledger_Frm (src/src/ledger/ledger_frm.*, \<^verbatim>\<open>GetBlockReward\<close>): the proposing, the checking and
    the following run of a consensus value and the reward.
  \<^item> Ledger_Frame, Ledger_Atomic: what is under an environment is not touched until it is committed.
    The locales \<open>framed_executor\<close> and \<open>framed_querier\<close> state what the operations rely on in the
    execution and in the query of contracts; the interpretations \<open>contracts\<close> and \<open>queries\<close> discharge
    them for \<open>Execute\<close> and \<open>Query\<close> by induction on the fuel. A failed transaction leaves nothing but
    its fee and its nonce.
  \<^item> Ledger_Coins, Ledger_Run, Ledger_Reward, Ledger_Thms: the accounts as a book of balances and
    nonces. Each operation refines openings of accounts and transfers of that book, so the coins are
    conserved up to the block reward, balances stay not negative and the nonces of the transactions of
    an account are consecutive. These theorems are about runs that call no contract, in which the
    executor \<open>no_contracts\<close>, which returns nothing, is not reached: with contracts they do not hold,
    since a nested transaction reads the accounts that the block has committed from the database.
  \<^item> Ledger_Follow: a following run simulates the checking run, so both end with the same ledger.
  \<^item> Ledger_Auth: the type of privileges, kept by every operation and by contracts (locales
    \<open>wf_executor\<close> and \<open>wf_querier\<close>, interpretations \<open>scripts\<close> and \<open>lookups\<close>), and the weighing of
    signatures against its specification as a sum.

  \<^item> Ledger_Sim, Ledger_Propose (end of \<^verbatim>\<open>GlueManager::StartConsensus\<close>): two runs of one ledger side
    by side, by a simulation (locale \<open>world_sim\<close>) that Ledger_Follow uses too. A checking run of a
    proposal repeats the proposing run without the transactions that were dropped.
  \<^item> Ledger_Context (src/src/ledger/ledgercontext_manager.*): the contexts in which a value is run,
    and how a run that was made for a proposal or a check is kept and taken over. The thread of a
    run is the parameter \<open>attempt\<close>: whether it starts, ends in time, and what it reads of the clock.
  \<^item> Ledger_Upgrade (src/src/glue/ledger_upgrade.*): the votes for a ledger version. An upgrade is
    proposed exactly when a quorum of the validators has voted for it.
  \<^item> Glue, Glue_Thms (src/src/glue/glue_manager.*): making and checking a proposal, admission of
    transactions and the timers, over the \<open>node\<close>, which is what they read of the ledger and of the
    configuration. What a correct leader proposes a correct node accepts. The loop over attempts
    that time out is \<open>try_loop\<close>, \<open>None\<close> if it does not end: it returns when an attempt is in time,
    and runs on for ever when none is.
  \<^item> Ledger_Manager (src/src/ledger/ledger_manager.*, \<^verbatim>\<open>LedgerFrm::Commit\<close> and \<^verbatim>\<open>AddToDb\<close>,
    \<^verbatim>\<open>AccountFrm::UpdateHash\<close>, \<^verbatim>\<open>GlueManager::OnValueCommited\<close>): the first ledger, the start from the
    databases, the closing of a ledger, and the requests and answers with which nodes synchronize.
    The databases are maps from strings to strings under the keys of the code; the tries are the
    maps they stand for, and their root hashes are those of Trie_Thms. The function \<open>node_of\<close>
    makes of the state the \<open>node\<close> that the glue and the runs read.
  \<^item> Ledger_Chain, Ledger_Start, Ledger_Chain_Thms: the invariant of the stored chain. A run is any
    sequence of committed values, answers of peers, timers, calls of the consensus and restarts
    (\<open>ledger_run\<close>). In all runs every ledger is stored with its value, the hash of its predecessor
    and a proof of the validators' agreement, and a restart resumes with the same state, also after
    a crash between the two databases' writes where the code repairs them. Ledger_Start has the first
    start and the small node of the witnesses.
  \<^item> Ledger_Agree: nodes that close the same contract-free values have the same ledger, by whichever
    of the three kinds of runs they close them, with any checks and proposing runs in between
    (\<open>closes\<close>). That a kept run is one of the value closed is derived; what is assumed is that no
    node closes a value that its own proposing run had amended (\<open>unamended\<close>), since the code takes a
    kept run over whatever its mode (\<open>amended_value_differs\<close>).
  \<^item> Ledger_Sync: a node catches up with a peer of its network, which shares the chain and the check
    of signatures but not the node's own key (\<open>same_net\<close>), by the exchange of requests and answers
    (\<open>exchange\<close>, with as many rounds as there are values to catch up with, which suffices because
    each answer brings at least one).

  \<^bold>\<open>Not modelled.\<close> Logging, status reports, statistics and locks (an operation is one step). Of the
  ledger: the records of single transactions that are written for queries, the test runs of
  transactions and contracts, and the interactive tool that makes a hard fork. The tries of a closed
  ledger are written at the level of the maps; that the trie implements them is shown in Trie_Thms,
  not for a database that several tries share. The network, the web front ends, the database drivers,
  the script engine with the callbacks that only compute on their arguments, and the cryptography are
  input and output or third-party code; where a modelled component calls them they are parameters.
  The numeric encodings of src/src/utils (basen.h, base64.*, the wide integers of base_int.h) have no
  state and are called only for addresses and keys, which are parameters too.
\<close>

end
